(* ===== verification/Prelude.thy ===== *)
theory Prelude
  imports Main "HOL-Library.Word" "HOL-Library.Signed_Division"
begin

text \<open>
  What every component of the development shares.

  \<^item> The result type of a fallible piece of firmware: \<open>Inl\<close> of a fault or \<open>Inr\<close> of a value,
    with a bind, a loop over an index list and the facts that take them apart.
    A fault is a place where the C program does not go on: an endless loop
    (\<open>while(1);\<close>), a division by zero, an access outside an array, a conversion from
    floating point whose value does not fit the integer type, a call through a null pointer, the
    reset of the core (\<open>NVIC_SystemReset\<close>).
  \<^item> The fixed width integers of \<^verbatim>\<open>stdint.h\<close> and C's signed division on them, which rounds
    towards zero.
  \<^item> The collections \<open>res_simps\<close>, \<open>hw_simps\<close>, \<open>motor_simps\<close>, \<open>inv_rules\<close> that the
    components add their rules to.
\<close>

unbundle bit_operations_syntax

named_theorems res_simps \<open>equations that run a fallible computation\<close>
named_theorems hw_simps \<open>what a driver call changes and what it leaves alone\<close>
named_theorems motor_simps \<open>what a motor operation changes and what it leaves alone\<close>
named_theorems inv_rules \<open>preservation of component invariants\<close>

section \<open>Fallible computations\<close>

datatype cfault = Hang | DivByZero | OutOfBounds | BadConversion | NullCall | SystemReset

type_synonym 'a res = "cfault + 'a"

abbreviation Ok :: "'a \<Rightarrow> 'a res" where
  "Ok \<equiv> Inr"

abbreviation Fault :: "cfault \<Rightarrow> 'a res" where
  "Fault \<equiv> Inl"

definition bnd :: "'a res \<Rightarrow> ('a \<Rightarrow> 'b res) \<Rightarrow> 'b res" where
  "bnd m f = (case m of Inl e \<Rightarrow> Inl e | Inr x \<Rightarrow> f x)"

lemma bnd_Fault [simp, res_simps]: "bnd (Fault e) f = Fault e"
  by (simp add: bnd_def)

lemma bnd_Ok [simp, res_simps]: "bnd (Ok x) f = f x"
  by (simp add: bnd_def)

lemma bnd_Ok_right [simp, res_simps]: "bnd m Inr = m"
  by (cases m) simp_all

lemma bnd_assoc: "bnd (bnd m f) g = bnd m (\<lambda>x. bnd (f x) g)"
  by (cases m) simp_all

lemma bnd_eq_Ok_iff [simp]: "bnd m f = Inr y \<longleftrightarrow> (\<exists>x. m = Inr x \<and> f x = Inr y)"
  by (cases m) simp_all

lemma bnd_eq_Fault_iff: "bnd m f = Inl e \<longleftrightarrow> m = Inl e \<or> (\<exists>x. m = Inr x \<and> f x = Inl e)"
  by (cases m) simp_all

lemma bnd_split:
  "P (bnd m f) \<longleftrightarrow> (\<forall>e. m = Inl e \<longrightarrow> P (Inl e)) \<and> (\<forall>x. m = Inr x \<longrightarrow> P (f x))"
  by (cases m) simp_all

lemma bnd_cong [cong]: "m = m' \<Longrightarrow> (\<And>x. m' = Inr x \<Longrightarrow> f x = f' x) \<Longrightarrow> bnd m f = bnd m' f'"
  by (cases m') simp_all

lemma bnd_if_distrib [res_simps]: "bnd (if b then m else m') f = (if b then bnd m f else bnd m' f)"
  by simp

text \<open>A computation that cannot fault, seen as one that might.\<close>

definition okish :: "'a res \<Rightarrow> bool" where
  "okish m \<longleftrightarrow> (case m of Inl e \<Rightarrow> False | Inr x \<Rightarrow> True)"

lemma okish_simps [simp]: "okish (Inr x)" "\<not> okish (Inl e)"
  by (simp_all add: okish_def)

lemma okish_iff: "okish m \<longleftrightarrow> (\<exists>x. m = Inr x)"
  by (cases m) simp_all

text \<open>A loop over a list of indices, left to right, that stops at the first fault.\<close>

fun for_each :: "('i \<Rightarrow> 's \<Rightarrow> 's res) \<Rightarrow> 'i list \<Rightarrow> 's \<Rightarrow> 's res" where
  "for_each f [] s = Ok s"
| "for_each f (i # is) s = bnd (f i s) (for_each f is)"

lemma for_each_append: "for_each f (xs @ ys) s = bnd (for_each f xs s) (for_each f ys)"
  by (induction xs arbitrary: s) (simp_all add: bnd_assoc)

lemma for_each_inv:
  assumes "for_each f is s = Ok t" and "P s"
    and "\<And>i s t. i \<in> set is \<Longrightarrow> P s \<Longrightarrow> f i s = Ok t \<Longrightarrow> P t"
  shows "P t"
  using assms
proof (induction "is" arbitrary: s)
  case Nil
  then show ?case by simp
next
  case (Cons i "is")
  then obtain u where u: "f i s = Ok u" and t: "for_each f is u = Ok t" by auto
  have "P u" using Cons.prems(3)[OF _ Cons.prems(2) u] by simp
  then show ?case using Cons.IH[OF t] Cons.prems(3) by auto
qed

lemma for_each_total:
  assumes "P s" and "\<And>i s. i \<in> set is \<Longrightarrow> P s \<Longrightarrow> \<exists>t. f i s = Ok t \<and> P t"
  shows "\<exists>t. for_each f is s = Ok t \<and> P t"
  using assms
proof (induction "is" arbitrary: s)
  case Nil
  then show ?case by simp
next
  case (Cons i "is")
  then obtain u where "f i s = Ok u" "P u" by (meson list.set_intros(1))
  then show ?case using Cons.IH[of u] Cons.prems(2) by auto
qed

text \<open>What a loop without faults leaves alone.\<close>

lemma fold_same: "(\<And>x s. g (f x s) = g s) \<Longrightarrow> g (fold f xs s) = g s"
  by (induction xs arbitrary: s) simp_all

section \<open>The integers of the target\<close>

type_synonym u8 = "8 word"
type_synonym u16 = "16 word"
type_synonym u32 = "32 word"
type_synonym u64 = "64 word"

text \<open>
  \<open>int32_t\<close> is a 32 bit word read with \<open>sint\<close>. C's division and remainder of two \<open>int32_t\<close>
  round towards zero; a zero divisor is a fault.
\<close>

definition sdiv32 :: "u32 \<Rightarrow> u32 \<Rightarrow> u32" where
  "sdiv32 a b = word_of_int (sint a sdiv sint b)"

definition smod32 :: "u32 \<Rightarrow> u32 \<Rightarrow> u32" where
  "smod32 a b = word_of_int (sint a smod sint b)"

definition udiv_res :: "'a::len word \<Rightarrow> 'a word \<Rightarrow> 'a word res" where
  "udiv_res a b = (if b = 0 then Fault DivByZero else Ok (a div b))"

lemma udiv_res_nonzero [simp, res_simps]: "b \<noteq> 0 \<Longrightarrow> udiv_res a b = Ok (a div b)"
  by (simp add: udiv_res_def)

lemma udiv_res_zero [simp, res_simps]: "udiv_res a 0 = Fault DivByZero"
  by (simp add: udiv_res_def)

lemma udiv_res_eq_Ok_iff: "udiv_res a b = Inr q \<longleftrightarrow> b \<noteq> 0 \<and> q = a div b"
  by (auto simp: udiv_res_def)

text \<open>A C truth value: any non-zero word is true.\<close>

definition truth :: "'a::len word \<Rightarrow> bool" where
  "truth w \<longleftrightarrow> w \<noteq> 0"

definition of_truth :: "bool \<Rightarrow> 'a::len word" where
  "of_truth b = (if b then 1 else 0)"

lemma truth_of_truth [simp]: "truth (of_truth b) = b"
  by (simp add: truth_def of_truth_def)

lemma unat_of_truth [simp]: "unat (of_truth b) = (if b then 1 else 0)"
  by (simp add: of_truth_def)

lemma unat_u32_less: "unat (w :: u32) < 2 ^ 32"
  using unsigned_less[of w, where 'a = nat] by simp

lemma unat_u16_less: "unat (w :: u16) < 2 ^ 16"
  using unsigned_less[of w, where 'a = nat] by simp

lemma unat_ucast_u64 [simp]: "unat (ucast (w :: u32) :: u64) = unat w"
  using unat_u32_less[of w] by (simp add: unsigned_ucast_eq take_bit_nat_eq_self_iff)

lemma unat_ucast_u32 [simp]: "unat (ucast (w :: u16) :: u32) = unat w"
  using unat_u16_less[of w] by (simp add: unsigned_ucast_eq take_bit_nat_eq_self_iff)

lemma unat_ucast_small: "unat w < 2 ^ LENGTH('a) \<Longrightarrow> unat (ucast w :: 'a::len word) = unat w"
  by (simp add: unsigned_ucast_eq take_bit_nat_eq_self_iff)

lemma word_nat_less_iff: "(a::'a::len word) < b \<longleftrightarrow> unat a < unat b"
  by (rule word_less_nat_alt)

lemma word_nonzero_bit_iff: "(w :: 'a::len word) \<noteq> 0 \<longleftrightarrow> (\<exists>k. bit w k)"
  by (metis bit_0_eq bit_eqI bot_apply bot_bool_def)

text \<open>Small facts on lists updated in place.\<close>

lemma nth_list_update_if: "i < length xs \<Longrightarrow> xs[i := x] ! j = (if i = j then x else xs ! j)"
  by (cases "j < length xs") auto

lemma list_update_nth_same [simp]: "xs[i := xs ! i] = xs"
  by simp

end
