(* ===== verification/Hw_Regs.thy ===== *)
theory Hw_Regs
  imports Prelude
begin

text \<open>
  The register blocks of the STM32F107 that the firmware writes, as the driver library under
  \<^verbatim>\<open>STM32F10x_StdPeriph_Driver\<close> names them, gathered in the record \<open>hw_st\<close>.  Every later
  state record extends it, so that a driver call acts on the whole state of the firmware.

  The parts of the hardware the code does not control are fields too: \<open>pin_level n p\<close> is the
  level of the pins of port \<open>p\<close> when the \<open>n\<close>-th read of an input register happens, and
  \<open>input_reads\<close> counts these reads, so that two reads in a row may differ (the debounce loops
  of the code are about this).  The DMA counters and flags, the pending register of the
  external interrupts and the levels are changed by the steps of the environment in \<open>Firmware\<close>.

  An address of a peripheral or of a buffer is a value of a datatype: the code only compares
  such addresses, stores them and goes through them.
\<close>

section \<open>Ports, timers and channels\<close>

datatype gpio_port = GPIOA | GPIOB | GPIOC | GPIOD | GPIOE

datatype tim_id = TIM1 | TIM2 | TIM3 | TIM4

datatype dma_ch =
    DMA1_Channel1 | DMA1_Channel2 | DMA1_Channel3 | DMA1_Channel4
  | DMA1_Channel5 | DMA1_Channel6 | DMA1_Channel7

text \<open>
  The ports are a linear order in the order of their base addresses, which lets a pin be an
  element of an ordered type.
\<close>

fun port_no :: "gpio_port \<Rightarrow> nat" where
  "port_no GPIOA = 0"
| "port_no GPIOB = 1"
| "port_no GPIOC = 2"
| "port_no GPIOD = 3"
| "port_no GPIOE = 4"

lemma port_no_inject [simp]: "port_no p = port_no q \<longleftrightarrow> p = q"
  by (cases p; cases q) simp_all

instantiation gpio_port :: linorder
begin

definition less_eq_gpio_port :: "gpio_port \<Rightarrow> gpio_port \<Rightarrow> bool" where
  "less_eq_gpio_port p q \<longleftrightarrow> port_no p \<le> port_no q"

definition less_gpio_port :: "gpio_port \<Rightarrow> gpio_port \<Rightarrow> bool" where
  "less_gpio_port p q \<longleftrightarrow> port_no p < port_no q"

instance
  by standard (auto simp: less_eq_gpio_port_def less_gpio_port_def)

end

instantiation gpio_port :: finite
begin

instance
proof
  have "UNIV = {GPIOA, GPIOB, GPIOC, GPIOD, GPIOE}"
    using gpio_port.exhaust by auto
  then show "finite (UNIV :: gpio_port set)"
    by (metis finite.emptyI finite_insert)
qed

end

section \<open>Register blocks\<close>

record gpio_regs =
  CRL :: u32
  CRH :: u32
  ODR :: u32

record exti_regs =
  IMR :: u32
  EMR :: u32
  RTSR :: u32
  FTSR :: u32
  PR :: u32

record tim_regs =
  CR1 :: u16
  CR2 :: u16
  DIER :: u16
  EGR :: u16
  CCMR1 :: u16
  CCMR2 :: u16
  CCER :: u16
  PSC :: u16
  ARR :: u16
  RCR :: u16
  CCR1 :: u16
  CCR2 :: u16
  CCR3 :: u16
  CCR4 :: u16
  BDTR :: u16
  DCR :: u16

text \<open>What \<open>CMAR\<close> and \<open>CPAR\<close> may hold: the buffer of a block of an axis, the DMA register of a timer.\<close>

datatype mem_ref = NullRef | DmaBuf nat nat

datatype periph_ref = NullPeriph | TimDmar tim_id

record dma_regs =
  CCR :: u32
  CNDTR :: u32
  CPAR :: periph_ref
  CMAR :: mem_ref

record hw_st =
  gpio :: "gpio_port \<Rightarrow> gpio_regs"
  pin_level :: "nat \<Rightarrow> gpio_port \<Rightarrow> u16"
  input_reads :: nat
  MAPR :: u32
  MAPR2 :: u32
  EXTICR :: "u32 list"
  exti :: exti_regs
  tim :: "tim_id \<Rightarrow> tim_regs"
  dma :: "dma_ch \<Rightarrow> dma_regs"
  DMA1_ISR :: u32
  AHBENR :: u32
  APB1ENR :: u32
  APB2ENR :: u32
  primask :: bool

text \<open>\<open>FunctionalState\<close>, \<open>FlagStatus\<close> and \<open>ITStatus\<close> of \<^verbatim>\<open>stm32f10x.h\<close> are booleans here.\<close>

abbreviation (input) ENABLE :: bool where "ENABLE \<equiv> True"
abbreviation (input) DISABLE :: bool where "DISABLE \<equiv> False"

section \<open>The interrupt mask of the core\<close>

definition disable_irq :: "'a hw_st_scheme \<Rightarrow> 'a hw_st_scheme" where
  "disable_irq s = s\<lparr>primask := True\<rparr>"

definition enable_irq :: "'a hw_st_scheme \<Rightarrow> 'a hw_st_scheme" where
  "enable_irq s = s\<lparr>primask := False\<rparr>"

section \<open>Clock enables\<close>

definition RCC_AHBPeriphClockCmd :: "u32 \<Rightarrow> bool \<Rightarrow> 'a hw_st_scheme \<Rightarrow> 'a hw_st_scheme" where
  "RCC_AHBPeriphClockCmd m on s =
     s\<lparr>AHBENR := (if on then AHBENR s OR m else AHBENR s AND NOT m)\<rparr>"

definition RCC_APB1PeriphClockCmd :: "u32 \<Rightarrow> bool \<Rightarrow> 'a hw_st_scheme \<Rightarrow> 'a hw_st_scheme" where
  "RCC_APB1PeriphClockCmd m on s =
     s\<lparr>APB1ENR := (if on then APB1ENR s OR m else APB1ENR s AND NOT m)\<rparr>"

definition RCC_APB2PeriphClockCmd :: "u32 \<Rightarrow> bool \<Rightarrow> 'a hw_st_scheme \<Rightarrow> 'a hw_st_scheme" where
  "RCC_APB2PeriphClockCmd m on s =
     s\<lparr>APB2ENR := (if on then APB2ENR s OR m else APB2ENR s AND NOT m)\<rparr>"

section \<open>The state after a reset\<close>

text \<open>
  The reset values of the register blocks: every pin is a floating input, every peripheral is off.
  The levels at the pins are all low; a test bench sets the ones it needs.
\<close>

definition gpio_reset :: gpio_regs where
  "gpio_reset = \<lparr>CRL = 0x44444444, CRH = 0x44444444, ODR = 0\<rparr>"

definition tim_reset :: tim_regs where
  "tim_reset = \<lparr>CR1 = 0, CR2 = 0, DIER = 0, EGR = 0, CCMR1 = 0, CCMR2 = 0, CCER = 0, PSC = 0, ARR = 0xFFFF,
     RCR = 0, CCR1 = 0, CCR2 = 0, CCR3 = 0, CCR4 = 0, BDTR = 0, DCR = 0\<rparr>"

definition dma_reset :: dma_regs where
  "dma_reset = \<lparr>CCR = 0, CNDTR = 0, CPAR = NullPeriph, CMAR = NullRef\<rparr>"

definition hw_reset :: hw_st where
  "hw_reset = \<lparr>gpio = (\<lambda>p. gpio_reset), pin_level = (\<lambda>n p. 0), input_reads = 0, MAPR = 0, MAPR2 = 0,
     EXTICR = [0, 0, 0, 0], exti = \<lparr>IMR = 0, EMR = 0, RTSR = 0, FTSR = 0, PR = 0\<rparr>,
     tim = (\<lambda>t. tim_reset), dma = (\<lambda>c. dma_reset), DMA1_ISR = 0, AHBENR = 0x14, APB1ENR = 0,
     APB2ENR = 0, primask = False\<rparr>"

end
