(* ===== verification/Hw_Gpio.thy ===== *)
theory Hw_Gpio
  imports Hw_Regs
begin

text \<open>
  The port driver \<^verbatim>\<open>stm32f10x_gpio.c\<close>: pin configuration, the bit set and reset registers,
  the input and output reads, the external interrupt multiplexer and the remap register.

  The interface \<open>out_port\<close> says what its clients (the lights, the output bits, the direction
  and enable lines of the axes) rely on; the driver interprets it.
\<close>

section \<open>Modes and pins\<close>

datatype GPIOMode =
    GPIO_Mode_AIN | GPIO_Mode_IN_FLOATING | GPIO_Mode_IPD | GPIO_Mode_IPU
  | GPIO_Mode_Out_OD | GPIO_Mode_Out_PP | GPIO_Mode_AF_OD | GPIO_Mode_AF_PP

fun mode_code :: "GPIOMode \<Rightarrow> u32" where
  "mode_code GPIO_Mode_AIN = 0x0"
| "mode_code GPIO_Mode_IN_FLOATING = 0x04"
| "mode_code GPIO_Mode_IPD = 0x28"
| "mode_code GPIO_Mode_IPU = 0x48"
| "mode_code GPIO_Mode_Out_OD = 0x14"
| "mode_code GPIO_Mode_Out_PP = 0x10"
| "mode_code GPIO_Mode_AF_OD = 0x1C"
| "mode_code GPIO_Mode_AF_PP = 0x18"

datatype GPIOSpeed = GPIO_Speed_10MHz | GPIO_Speed_2MHz | GPIO_Speed_50MHz

fun speed_code :: "GPIOSpeed \<Rightarrow> u32" where
  "speed_code GPIO_Speed_10MHz = 1"
| "speed_code GPIO_Speed_2MHz = 2"
| "speed_code GPIO_Speed_50MHz = 3"

record GPIO_InitTypeDef =
  GPIO_Pin :: u16
  GPIO_Speed :: GPIOSpeed
  GPIO_Mode :: GPIOMode

definition GPIO_StructInit :: GPIO_InitTypeDef where
  "GPIO_StructInit = \<lparr>GPIO_Pin = 0xFFFF, GPIO_Speed = GPIO_Speed_2MHz, GPIO_Mode = GPIO_Mode_IN_FLOATING\<rparr>"

text \<open>\<open>GPIO_Pin_n\<close> is the mask with bit \<open>n\<close>.\<close>

definition GPIO_Pin_no :: "nat \<Rightarrow> u16" where
  "GPIO_Pin_no n = push_bit n 1"

lemma bit_GPIO_Pin_no [simp]: "bit (GPIO_Pin_no n) k \<longleftrightarrow> k = n \<and> n < 16"
  by (auto simp: GPIO_Pin_no_def bit_simps)

section \<open>Output registers\<close>

text \<open>
  A write of \<open>m\<close> to \<open>BSRR\<close> sets the output bits of its low half; a write to \<open>BRR\<close> clears
  the bits of \<open>m\<close>.  The driver writes 16 bit masks only.
\<close>

definition GPIO_SetBits :: "gpio_port \<Rightarrow> u16 \<Rightarrow> 'a hw_st_scheme \<Rightarrow> 'a hw_st_scheme" where
  "GPIO_SetBits p m s =
     s\<lparr>gpio := (gpio s)(p := (gpio s p)\<lparr>ODR := ODR (gpio s p) OR ucast m\<rparr>)\<rparr>"

definition GPIO_ResetBits :: "gpio_port \<Rightarrow> u16 \<Rightarrow> 'a hw_st_scheme \<Rightarrow> 'a hw_st_scheme" where
  "GPIO_ResetBits p m s =
     s\<lparr>gpio := (gpio s)(p := (gpio s p)\<lparr>ODR := ODR (gpio s p) AND NOT (ucast m)\<rparr>)\<rparr>"

definition GPIO_ReadOutputDataBit :: "gpio_port \<Rightarrow> u16 \<Rightarrow> 'a hw_st_scheme \<Rightarrow> u8" where
  "GPIO_ReadOutputDataBit p m s = (if ODR (gpio s p) AND ucast m \<noteq> 0 then 1 else 0)"

text \<open>Each read of an input register takes the level of that moment.\<close>

definition GPIO_ReadInputDataBit :: "gpio_port \<Rightarrow> u16 \<Rightarrow> 'a hw_st_scheme \<Rightarrow> u8 \<times> 'a hw_st_scheme" where
  "GPIO_ReadInputDataBit p m s =
     (if pin_level s (input_reads s) p AND m \<noteq> 0 then 1 else 0,
      s\<lparr>input_reads := Suc (input_reads s)\<rparr>)"

definition gpio_out_bit :: "gpio_port \<Rightarrow> nat \<Rightarrow> 'a hw_st_scheme \<Rightarrow> bool" where
  "gpio_out_bit p k s = bit (ODR (gpio s p)) k"

lemma gpio_out_bit_SetBits:
  "gpio_out_bit q k (GPIO_SetBits p m s) \<longleftrightarrow> (p = q \<and> bit m k) \<or> gpio_out_bit q k s"
  by (auto simp: gpio_out_bit_def GPIO_SetBits_def bit_or_iff bit_ucast_iff dest: bit_imp_le_length)

lemma gpio_out_bit_ResetBits:
  "gpio_out_bit q k (GPIO_ResetBits p m s) \<longleftrightarrow> \<not> (p = q \<and> bit m k) \<and> gpio_out_bit q k s"
  by (auto simp: gpio_out_bit_def GPIO_ResetBits_def bit_and_iff bit_not_iff bit_ucast_iff
      dest: bit_imp_le_length)

lemma GPIO_ReadOutputDataBit_pin:
  assumes "n < 16"
  shows "GPIO_ReadOutputDataBit p (GPIO_Pin_no n) s = (if gpio_out_bit p n s then 1 else 0)"
proof -
  have "ODR (gpio s p) AND ucast (GPIO_Pin_no n) \<noteq> 0 \<longleftrightarrow> bit (ODR (gpio s p)) n"
  proof
    assume "ODR (gpio s p) AND ucast (GPIO_Pin_no n) \<noteq> 0"
    then obtain k where "bit (ODR (gpio s p) AND ucast (GPIO_Pin_no n)) k"
      using word_nonzero_bit_iff by blast
    then show "bit (ODR (gpio s p)) n"
      by (auto simp: bit_and_iff bit_ucast_iff)
  next
    assume "bit (ODR (gpio s p)) n"
    with assms have "bit (ODR (gpio s p) AND ucast (GPIO_Pin_no n)) n"
      by (simp add: bit_and_iff bit_ucast_iff)
    then show "ODR (gpio s p) AND ucast (GPIO_Pin_no n) \<noteq> 0" by auto
  qed
  then show ?thesis by (simp add: GPIO_ReadOutputDataBit_def gpio_out_bit_def)
qed

lemma GPIO_ReadInputDataBit_01:
  "fst (GPIO_ReadInputDataBit p m s) = 0 \<or> fst (GPIO_ReadInputDataBit p m s) = 1"
  by (simp add: GPIO_ReadInputDataBit_def)

section \<open>The interface of an output port\<close>

locale out_port =
  fixes set_bits :: "'p \<Rightarrow> u16 \<Rightarrow> 's \<Rightarrow> 's"
    and reset_bits :: "'p \<Rightarrow> u16 \<Rightarrow> 's \<Rightarrow> 's"
    and out_bit :: "'p \<Rightarrow> nat \<Rightarrow> 's \<Rightarrow> bool"
  assumes out_set: "out_bit q k (set_bits p m s) \<longleftrightarrow> (p = q \<and> bit m k) \<or> out_bit q k s"
    and out_reset: "out_bit q k (reset_bits p m s) \<longleftrightarrow> \<not> (p = q \<and> bit m k) \<and> out_bit q k s"
begin

lemma set_own: "bit m k \<Longrightarrow> out_bit p k (set_bits p m s)"
  by (simp add: out_set)

lemma reset_own: "bit m k \<Longrightarrow> \<not> out_bit p k (reset_bits p m s)"
  by (simp add: out_reset)

lemma set_other: "p \<noteq> q \<or> \<not> bit m k \<Longrightarrow> out_bit q k (set_bits p m s) = out_bit q k s"
  by (auto simp: out_set)

lemma reset_other: "p \<noteq> q \<or> \<not> bit m k \<Longrightarrow> out_bit q k (reset_bits p m s) = out_bit q k s"
  by (auto simp: out_reset)

text \<open>Driving a pin to a value: the pin shows the value, every other pin keeps its own.\<close>

lemma drive_pin:
  "n < 16 \<Longrightarrow>
   out_bit q k (if v then set_bits p (GPIO_Pin_no n) s else reset_bits p (GPIO_Pin_no n) s)
     \<longleftrightarrow> (if q = p \<and> k = n then v else out_bit q k s)"
  by (auto simp: out_set out_reset)

end

interpretation gpio_port_out: out_port GPIO_SetBits GPIO_ResetBits gpio_out_bit
  by unfold_locales (simp_all add: gpio_out_bit_SetBits gpio_out_bit_ResetBits)

section \<open>Pin configuration\<close>

text \<open>
  One turn of either loop of \<open>GPIO_Init\<close> on the copy of the control register and on the output
  register: \<open>base\<close> is 0 for the low half and 8 for the high half of the port.
\<close>

definition gpio_init_pin ::
  "GPIO_InitTypeDef \<Rightarrow> u32 \<Rightarrow> nat \<Rightarrow> nat \<Rightarrow> u32 \<times> u32 \<Rightarrow> u32 \<times> u32" where
  "gpio_init_pin init currentmode base pinpos = (\<lambda>(tmpreg, odr).
     let pos = push_bit (pinpos + base) (1 :: u32);
         currentpin = ucast (GPIO_Pin init) AND pos
     in if currentpin = pos then
          let shift = push_bit 2 pinpos;
              pinmask = push_bit shift (0x0F :: u32);
              tmpreg = (tmpreg AND NOT pinmask) OR push_bit shift currentmode;
              odr = (if GPIO_Mode init = GPIO_Mode_IPD then odr AND NOT pos
                     else if GPIO_Mode init = GPIO_Mode_IPU then odr OR pos
                     else odr)
          in (tmpreg, odr)
        else (tmpreg, odr))"

definition gpio_init_mode :: "GPIO_InitTypeDef \<Rightarrow> u32" where
  "gpio_init_mode init =
     (let currentmode = mode_code (GPIO_Mode init) AND 0x0F
      in if mode_code (GPIO_Mode init) AND 0x10 \<noteq> 0
         then currentmode OR speed_code (GPIO_Speed init) else currentmode)"

definition gpio_init_regs :: "GPIO_InitTypeDef \<Rightarrow> gpio_regs \<Rightarrow> gpio_regs" where
  "gpio_init_regs init r =
     (let cm = gpio_init_mode init;
          r = (if GPIO_Pin init AND 0x00FF \<noteq> 0
               then let (crl, odr) = fold (gpio_init_pin init cm 0) [0..<8] (CRL r, ODR r)
                    in r\<lparr>CRL := crl, ODR := odr\<rparr>
               else r);
          r = (if GPIO_Pin init > 0x00FF
               then let (crh, odr) = fold (gpio_init_pin init cm 8) [0..<8] (CRH r, ODR r)
                    in r\<lparr>CRH := crh, ODR := odr\<rparr>
               else r)
      in r)"

definition GPIO_Init :: "gpio_port \<Rightarrow> GPIO_InitTypeDef \<Rightarrow> 'a hw_st_scheme \<Rightarrow> 'a hw_st_scheme" where
  "GPIO_Init p init s = s\<lparr>gpio := (gpio s)(p := gpio_init_regs init (gpio s p))\<rparr>"

text \<open>
  What the loops amount to: in the half of the port that starts at \<open>base\<close>, the four control bits
  of every selected pin become the mode's bits, the other control bits stay.
\<close>

lemma currentpin_eq_iff:
  assumes "n < 16"
  shows "ucast (m :: u16) AND 2 ^ n = (2 ^ n :: u32) \<longleftrightarrow> bit m n"
proof
  assume "ucast m AND 2 ^ n = (2 ^ n :: u32)"
  then have "bit (ucast m AND 2 ^ n :: u32) n = bit (2 ^ n :: u32) n" by simp
  with assms show "bit m n" by (simp add: bit_simps)
next
  assume "bit m n"
  then show "ucast m AND 2 ^ n = (2 ^ n :: u32)"
    by (intro bit_eqI) (auto simp: bit_simps dest: bit_imp_le_length)
qed

lemma bit_nibble: "bit (15 :: int) k \<longleftrightarrow> k < 4"
proof -
  have "(15 :: int) = mask 4" by (simp add: mask_eq_exp_minus_1)
  then have "bit (15 :: int) k \<longleftrightarrow> bit (mask 4 :: int) k" by (rule arg_cong)
  then show ?thesis by (auto simp: bit_mask_iff)
qed

lemma bit_nibble_replaced:
  assumes "\<And>i. 4 \<le> i \<Longrightarrow> \<not> bit (cm :: u32) i" and "n < 8"
  shows "bit ((tmp AND NOT (push_bit (push_bit 2 n) 0x0F)) OR push_bit (push_bit 2 n) cm) j \<longleftrightarrow>
    (if j div 4 = n then bit cm (j mod 4) else bit tmp j)"
proof -
  have shift: "push_bit 2 n = 4 * n" by (simp add: push_bit_nat_def)
  consider "j < 4 * n" | "4 * n \<le> j" "j < 4 * n + 4" | "4 * n + 4 \<le> j" by linarith
  then show ?thesis
  proof cases
    case 1
    then have "j div 4 \<noteq> n" by auto
    with 1 show ?thesis by (auto simp: shift bit_simps bit_nibble dest: bit_imp_le_length)
  next
    case 2
    then obtain k where "j = 4 * n + k" "k < 4" by (metis le_iff_add nat_add_left_cancel_less)
    moreover from this assms(2) have "j < 32" by simp
    ultimately show ?thesis by (auto simp: shift bit_simps bit_nibble)
  next
    case 3
    then have "j div 4 \<noteq> n" by auto
    with 3 assms(1)[of "j - 4 * n"] show ?thesis
      by (auto simp: shift bit_simps bit_nibble dest: bit_imp_le_length)
  qed
qed

lemma gpio_init_pin_bit:
  assumes "\<And>i. 4 \<le> i \<Longrightarrow> \<not> bit cm i" and "n < 8" and "base \<le> 8"
  shows "bit (fst (gpio_init_pin init cm base n (tmp, odr))) j \<longleftrightarrow>
    (if j div 4 = n \<and> bit (GPIO_Pin init) (n + base) then bit cm (j mod 4) else bit tmp j)"
proof (cases "bit (GPIO_Pin init) (n + base)")
  case True
  then have "ucast (GPIO_Pin init) AND 2 ^ (n + base) = (2 ^ (n + base) :: u32)"
    using assms by (simp add: currentpin_eq_iff)
  with True show ?thesis
    using bit_nibble_replaced[OF assms(1,2), of tmp j] by (simp add: gpio_init_pin_def Let_def)
next
  case False
  then have "ucast (GPIO_Pin init) AND 2 ^ (n + base) \<noteq> (2 ^ (n + base) :: u32)"
    using assms by (simp add: currentpin_eq_iff)
  with False show ?thesis by (simp add: gpio_init_pin_def Let_def)
qed

lemma gpio_init_fold_bit:
  assumes "\<And>i. 4 \<le> i \<Longrightarrow> \<not> bit cm i" and "set ns \<subseteq> {..<8}" and "base \<le> 8"
  shows "bit (fst (fold (gpio_init_pin init cm base) ns (tmp, odr))) j \<longleftrightarrow>
    (if j div 4 \<in> set ns \<and> bit (GPIO_Pin init) (j div 4 + base)
     then bit cm (j mod 4) else bit tmp j)"
  using assms(2)
proof (induction ns arbitrary: tmp odr)
  case Nil
  then show ?case by simp
next
  case (Cons n ns)
  obtain tmp' odr' where step: "gpio_init_pin init cm base n (tmp, odr) = (tmp', odr')"
    by fastforce
  have "bit tmp' j \<longleftrightarrow>
      (if j div 4 = n \<and> bit (GPIO_Pin init) (n + base) then bit cm (j mod 4) else bit tmp j)"
    using gpio_init_pin_bit[OF assms(1) _ assms(3), of n init tmp odr j] Cons.prems step by simp
  with Cons.IH[of tmp' odr'] Cons.prems step show ?case by auto
qed

lemma gpio_init_mode_nibble:
  assumes "4 \<le> i"
  shows "\<not> bit (gpio_init_mode init) i"
proof -
  have "gpio_init_mode init = gpio_init_mode init AND 0x0F"
    by (cases "GPIO_Mode init"; cases "GPIO_Speed init") (simp_all add: gpio_init_mode_def)
  then have "bit (gpio_init_mode init) i = bit (gpio_init_mode init AND 0x0F) i" by (rule arg_cong)
  with assms show ?thesis by (simp add: bit_and_iff bit_nibble)
qed

text \<open>
  The four control bits of pin \<open>k\<close> of a port, and the effect of \<open>GPIO_Init\<close> in these terms.
\<close>

definition pin_config :: "gpio_port \<Rightarrow> nat \<Rightarrow> 'a hw_st_scheme \<Rightarrow> u32" where
  "pin_config p k s =
     (if k < 8 then take_bit 4 (drop_bit (4 * k) (CRL (gpio s p)))
      else take_bit 4 (drop_bit (4 * (k - 8)) (CRH (gpio s p))))"

lemma no_low_pins_iff: "(m :: u16) AND 0x00FF = 0 \<longleftrightarrow> (\<forall>k < 8. \<not> bit m k)"
proof -
  have ff: "(0x00FF :: u16) = mask 8" by (simp add: mask_eq_exp_minus_1)
  have "m AND 0x00FF = 0 \<longleftrightarrow> take_bit 8 m = 0"
    unfolding ff by (simp add: take_bit_eq_mask)
  also have "\<dots> \<longleftrightarrow> (\<forall>k < 8. \<not> bit m k)"
    by (auto simp: bit_eq_iff bit_simps)
  finally show ?thesis .
qed

lemma no_high_pins:
  assumes "\<not> (m :: u16) > 0x00FF" and "8 \<le> k"
  shows "\<not> bit m k"
proof -
  have "unat m < 2 ^ 8" using assms(1) by (simp add: word_less_nat_alt not_less)
  then have "unat (take_bit 8 m) = unat m" by (simp add: unsigned_take_bit_eq take_bit_nat_eq_self_iff)
  then have "take_bit 8 m = m" by (simp add: word_unat_eq_iff)
  then have "bit m k = bit (take_bit 8 m) k" by simp
  with assms(2) show ?thesis by (simp add: bit_take_bit_iff)
qed

lemma pin_nibble_fold:
  assumes "n < 8" and "base \<le> 8"
  shows "take_bit 4 (drop_bit (4 * n)
      (fst (fold (gpio_init_pin init (gpio_init_mode init) base) [0..<8] (tmp, odr)))) =
    (if bit (GPIO_Pin init) (n + base) then gpio_init_mode init
     else take_bit 4 (drop_bit (4 * n) tmp))"
    (is "take_bit 4 (drop_bit (4 * n) ?w) = _")
proof (rule bit_eqI)
  fix i
  have w: "bit ?w j \<longleftrightarrow> (if j div 4 \<in> set [0..<8] \<and> bit (GPIO_Pin init) (j div 4 + base)
      then bit (gpio_init_mode init) (j mod 4) else bit tmp j)" for j
    by (rule gpio_init_fold_bit) (use assms gpio_init_mode_nibble in auto)
  have at_pin: "bit ?w (4 * n + i) \<longleftrightarrow> (if bit (GPIO_Pin init) (n + base)
      then bit (gpio_init_mode init) i else bit tmp (4 * n + i))" if "i < 4"
  proof -
    have "(4 * n + i) div 4 = n" "(4 * n + i) mod 4 = i" using that by auto
    with assms show ?thesis by (simp add: w)
  qed
  show "bit (take_bit 4 (drop_bit (4 * n) ?w)) i = bit (if bit (GPIO_Pin init) (n + base)
      then gpio_init_mode init else take_bit 4 (drop_bit (4 * n) tmp)) i"
    using gpio_init_mode_nibble[of i init] at_pin
    by (cases "i < 4") (simp_all add: bit_take_bit_iff bit_drop_bit_eq split del: if_split_asm)
qed

lemma gpio_init_regs_CRL:
  "n < 8 \<Longrightarrow> take_bit 4 (drop_bit (4 * n) (CRL (gpio_init_regs init r))) =
    (if bit (GPIO_Pin init) n then gpio_init_mode init
     else take_bit 4 (drop_bit (4 * n) (CRL r)))"
  using pin_nibble_fold[of n 0 init "CRL r" "ODR r"] no_low_pins_iff[of "GPIO_Pin init"]
  by (auto simp: gpio_init_regs_def Let_def split: prod.splits)

lemma gpio_init_regs_CRH:
  "n < 8 \<Longrightarrow> take_bit 4 (drop_bit (4 * n) (CRH (gpio_init_regs init r))) =
    (if bit (GPIO_Pin init) (n + 8) then gpio_init_mode init
     else take_bit 4 (drop_bit (4 * n) (CRH r)))"
  using pin_nibble_fold[where n = n and base = 8 and init = init and tmp = "CRH r"]
    no_high_pins[of "GPIO_Pin init" "n + 8"]
  by (auto simp: gpio_init_regs_def Let_def split: prod.splits) (metis fst_conv le_refl)+

lemma pin_config_GPIO_Init_other:
  "q \<noteq> p \<Longrightarrow> gpio (GPIO_Init p init s) q = gpio s q"
  by (simp add: GPIO_Init_def)

lemma pin_config_Init [hw_simps]:
  assumes "k < 16"
  shows "pin_config q k (GPIO_Init p init s) =
    (if q = p \<and> bit (GPIO_Pin init) k then gpio_init_mode init else pin_config q k s)"
proof (cases "q = p")
  case True
  show ?thesis
  proof (cases "k < 8")
    case True
    then show ?thesis using \<open>q = p\<close>
      by (simp add: pin_config_def GPIO_Init_def gpio_init_regs_CRL)
  next
    case False
    with assms have "k - 8 < 8" "k - 8 + 8 = k" by auto
    with False show ?thesis using \<open>q = p\<close>
      by (simp add: pin_config_def GPIO_Init_def gpio_init_regs_CRH)
  qed
next
  case False
  then show ?thesis by (simp add: pin_config_def GPIO_Init_def)
qed

text \<open>A mode without a pull resistor leaves the output register alone.\<close>

lemma gpio_init_fold_odr:
  assumes "GPIO_Mode init \<noteq> GPIO_Mode_IPD" and "GPIO_Mode init \<noteq> GPIO_Mode_IPU"
  shows "snd (fold (gpio_init_pin init cm base) ns x) = snd x"
  using assms
  by (induction ns arbitrary: x) (auto simp: gpio_init_pin_def Let_def split: prod.splits)

lemma gpio_init_regs_ODR:
  assumes "GPIO_Mode init \<noteq> GPIO_Mode_IPD" and "GPIO_Mode init \<noteq> GPIO_Mode_IPU"
  shows "ODR (gpio_init_regs init r) = ODR r"
  using gpio_init_fold_odr[OF assms, of "gpio_init_mode init" 0 "[0..<8]" "(CRL r, ODR r)"]
    gpio_init_fold_odr[OF assms, of "gpio_init_mode init" 8 "[0..<8]" "(CRH r, ODR r)"]
  by (auto simp: gpio_init_regs_def Let_def split: prod.splits)

lemma gpio_out_bit_Init:
  assumes "GPIO_Mode init \<noteq> GPIO_Mode_IPD" and "GPIO_Mode init \<noteq> GPIO_Mode_IPU"
  shows "gpio_out_bit q k (GPIO_Init p init s) = gpio_out_bit q k s"
  using gpio_init_regs_ODR[OF assms] by (simp add: gpio_out_bit_def GPIO_Init_def)

lemma pin_config_outputs [simp]:
  "pin_config q k (GPIO_SetBits p m s) = pin_config q k s"
  "pin_config q k (GPIO_ResetBits p m s) = pin_config q k s"
  by (simp_all add: pin_config_def GPIO_SetBits_def GPIO_ResetBits_def)

lemma pin_config_clock_cmds [simp]:
  "pin_config q k (RCC_APB2PeriphClockCmd m on s) = pin_config q k s"
  "pin_config q k (RCC_APB1PeriphClockCmd m on s) = pin_config q k s"
  "pin_config q k (RCC_AHBPeriphClockCmd m on s) = pin_config q k s"
  by (simp_all add: pin_config_def RCC_APB2PeriphClockCmd_def RCC_APB1PeriphClockCmd_def
      RCC_AHBPeriphClockCmd_def)

lemma gpio_out_bit_clock_cmds [simp]:
  "gpio_out_bit q k (RCC_APB2PeriphClockCmd m on s) = gpio_out_bit q k s"
  "gpio_out_bit q k (RCC_APB1PeriphClockCmd m on s) = gpio_out_bit q k s"
  "gpio_out_bit q k (RCC_AHBPeriphClockCmd m on s) = gpio_out_bit q k s"
  by (simp_all add: gpio_out_bit_def RCC_APB2PeriphClockCmd_def RCC_APB1PeriphClockCmd_def
      RCC_AHBPeriphClockCmd_def)

lemma gpio_clock_cmds [simp]:
  "gpio (RCC_APB2PeriphClockCmd m on s) = gpio s"
  "gpio (RCC_APB1PeriphClockCmd m on s) = gpio s"
  "gpio (RCC_AHBPeriphClockCmd m on s) = gpio s"
  by (simp_all add: RCC_APB2PeriphClockCmd_def RCC_APB1PeriphClockCmd_def RCC_AHBPeriphClockCmd_def)

section \<open>Alternate functions\<close>

definition GPIO_EXTILineConfig :: "u8 \<Rightarrow> u8 \<Rightarrow> 'a hw_st_scheme \<Rightarrow> 'a hw_st_scheme" where
  "GPIO_EXTILineConfig src pin s =
     (let shift = 4 * unat (pin AND 0x03);
          i = unat (drop_bit 2 pin);
          tmp = push_bit shift (0x0F :: u32);
          r = (EXTICR s ! i) AND NOT tmp
      in s\<lparr>EXTICR := (EXTICR s)[i := r OR push_bit shift (ucast src)]\<rparr>)"

definition GPIO_PinRemapConfig :: "u32 \<Rightarrow> bool \<Rightarrow> 'a hw_st_scheme \<Rightarrow> 'a hw_st_scheme" where
  "GPIO_PinRemapConfig remap on s =
     (let hi = (remap AND 0x80000000 = 0x80000000);
          tmpreg = (if hi then MAPR2 s else MAPR s);
          tmpmask = unat (drop_bit 16 (remap AND 0x000F0000));
          tmp = remap AND 0xFFFF;
          shift = unat (drop_bit 21 remap) * 16;
          (tmpreg, s) =
            (if remap AND 0x00300000 = 0x00300000
             then (tmpreg AND 0xF0FFFFFF, s\<lparr>MAPR := MAPR s AND 0xF0FFFFFF\<rparr>)
             else if remap AND 0x00100000 = 0x00100000
             then ((tmpreg AND NOT (push_bit tmpmask 3)) OR NOT 0xF0FFFFFF, s)
             else ((tmpreg AND NOT (push_bit shift tmp)) OR NOT 0xF0FFFFFF, s));
          tmpreg = (if on then tmpreg OR push_bit shift tmp else tmpreg)
      in if hi then s\<lparr>MAPR2 := tmpreg\<rparr> else s\<lparr>MAPR := tmpreg\<rparr>)"

end
