(* ===== verification/Hw_Exti.thy ===== *)
theory Hw_Exti
  imports Hw_Regs
begin

text \<open>
  The external interrupt driver \<^verbatim>\<open>stm32f10x_exti.c\<close>: line configuration, the enabled and pending
  test of a line, and the clearing of pending bits (written as ones).
\<close>

datatype EXTIMode = EXTI_Mode_Interrupt | EXTI_Mode_Event

datatype EXTITrigger = EXTI_Trigger_Rising | EXTI_Trigger_Falling | EXTI_Trigger_Rising_Falling

record EXTI_InitTypeDef =
  EXTI_Line :: u32
  EXTI_Mode :: EXTIMode
  EXTI_Trigger :: EXTITrigger
  EXTI_LineCmd :: bool

definition EXTI_StructInit :: EXTI_InitTypeDef where
  "EXTI_StructInit = \<lparr>EXTI_Line = 0, EXTI_Mode = EXTI_Mode_Interrupt,
     EXTI_Trigger = EXTI_Trigger_Falling, EXTI_LineCmd = DISABLE\<rparr>"

definition EXTI_Line_no :: "nat \<Rightarrow> u32" where
  "EXTI_Line_no n = push_bit n 1"

lemma bit_EXTI_Line_no [simp]: "bit (EXTI_Line_no n) k \<longleftrightarrow> k = n \<and> n < 32"
  by (auto simp: EXTI_Line_no_def bit_simps)

text \<open>
  The driver reaches \<open>IMR\<close>, \<open>EMR\<close>, \<open>RTSR\<close> and \<open>FTSR\<close> by adding the mode or the trigger to the
  base address of the block; the offsets are the values of these enumerations.
\<close>

fun exti_set_mode :: "EXTIMode \<Rightarrow> u32 \<Rightarrow> exti_regs \<Rightarrow> exti_regs" where
  "exti_set_mode EXTI_Mode_Interrupt l r = r\<lparr>IMR := IMR r OR l\<rparr>"
| "exti_set_mode EXTI_Mode_Event l r = r\<lparr>EMR := EMR r OR l\<rparr>"

fun exti_clear_mode :: "EXTIMode \<Rightarrow> u32 \<Rightarrow> exti_regs \<Rightarrow> exti_regs" where
  "exti_clear_mode EXTI_Mode_Interrupt l r = r\<lparr>IMR := IMR r AND NOT l\<rparr>"
| "exti_clear_mode EXTI_Mode_Event l r = r\<lparr>EMR := EMR r AND NOT l\<rparr>"

fun exti_set_trigger :: "EXTITrigger \<Rightarrow> u32 \<Rightarrow> exti_regs \<Rightarrow> exti_regs" where
  "exti_set_trigger EXTI_Trigger_Rising_Falling l r = r\<lparr>RTSR := RTSR r OR l, FTSR := FTSR r OR l\<rparr>"
| "exti_set_trigger EXTI_Trigger_Rising l r = r\<lparr>RTSR := RTSR r OR l\<rparr>"
| "exti_set_trigger EXTI_Trigger_Falling l r = r\<lparr>FTSR := FTSR r OR l\<rparr>"

definition exti_init_regs :: "EXTI_InitTypeDef \<Rightarrow> exti_regs \<Rightarrow> exti_regs" where
  "exti_init_regs init r =
     (let l = EXTI_Line init in
      if EXTI_LineCmd init then
        let r = r\<lparr>IMR := IMR r AND NOT l, EMR := EMR r AND NOT l\<rparr>;
            r = exti_set_mode (EXTI_Mode init) l r;
            r = r\<lparr>RTSR := RTSR r AND NOT l, FTSR := FTSR r AND NOT l\<rparr>
        in exti_set_trigger (EXTI_Trigger init) l r
      else exti_clear_mode (EXTI_Mode init) l r)"

definition EXTI_Init :: "EXTI_InitTypeDef \<Rightarrow> 'a hw_st_scheme \<Rightarrow> 'a hw_st_scheme" where
  "EXTI_Init init s = s\<lparr>exti := exti_init_regs init (exti s)\<rparr>"

definition EXTI_GetITStatus :: "u32 \<Rightarrow> 'a hw_st_scheme \<Rightarrow> bool" where
  "EXTI_GetITStatus l s \<longleftrightarrow> PR (exti s) AND l \<noteq> 0 \<and> IMR (exti s) AND l \<noteq> 0"

definition EXTI_ClearITPendingBit :: "u32 \<Rightarrow> 'a hw_st_scheme \<Rightarrow> 'a hw_st_scheme" where
  "EXTI_ClearITPendingBit l s = s\<lparr>exti := (exti s)\<lparr>PR := PR (exti s) AND NOT l\<rparr>\<rparr>"

section \<open>What a line's status means\<close>

lemma and_line_iff: "n < 32 \<Longrightarrow> (w :: u32) AND EXTI_Line_no n \<noteq> 0 \<longleftrightarrow> bit w n"
  using word_nonzero_bit_iff[of "w AND EXTI_Line_no n"] by (auto simp: bit_and_iff)

lemma EXTI_GetITStatus_line:
  "n < 32 \<Longrightarrow> EXTI_GetITStatus (EXTI_Line_no n) s \<longleftrightarrow> bit (PR (exti s)) n \<and> bit (IMR (exti s)) n"
  by (simp add: EXTI_GetITStatus_def and_line_iff)

lemma EXTI_Clear_pending [hw_simps]:
  "n < 32 \<Longrightarrow> m < 32 \<Longrightarrow>
   EXTI_GetITStatus (EXTI_Line_no n) (EXTI_ClearITPendingBit (EXTI_Line_no m) s) \<longleftrightarrow>
     n \<noteq> m \<and> EXTI_GetITStatus (EXTI_Line_no n) s"
  by (auto simp: EXTI_GetITStatus_line EXTI_ClearITPendingBit_def bit_simps)

lemma EXTI_Init_enables:
  assumes "EXTI_LineCmd init" and "EXTI_Mode init = EXTI_Mode_Interrupt"
  shows "bit (IMR (exti (EXTI_Init init s))) n \<longleftrightarrow> bit (EXTI_Line init) n \<or> bit (IMR (exti s)) n"
  using assms by (cases "EXTI_Trigger init")
    (auto simp: EXTI_Init_def exti_init_regs_def Let_def bit_simps dest: bit_imp_le_length)

lemma EXTI_Init_falling:
  assumes "EXTI_LineCmd init" and "EXTI_Trigger init = EXTI_Trigger_Falling"
  shows "bit (FTSR (exti (EXTI_Init init s))) n \<longleftrightarrow> bit (EXTI_Line init) n \<or> bit (FTSR (exti s)) n"
    and "bit (RTSR (exti (EXTI_Init init s))) n \<longleftrightarrow> bit (RTSR (exti s)) n \<and> \<not> bit (EXTI_Line init) n"
  using assms by (cases "EXTI_Mode init",
    auto simp: EXTI_Init_def exti_init_regs_def Let_def bit_simps dest: bit_imp_le_length)+

lemma EXTI_Init_disables:
  assumes "\<not> EXTI_LineCmd init" and "EXTI_Mode init = EXTI_Mode_Interrupt"
  shows "bit (IMR (exti (EXTI_Init init s))) n \<longleftrightarrow> bit (IMR (exti s)) n \<and> \<not> bit (EXTI_Line init) n"
  using assms by (auto simp: EXTI_Init_def exti_init_regs_def bit_simps dest: bit_imp_le_length)

end
