(* ===== verification/Hw_Dma_Tim.thy ===== *)
theory Hw_Dma_Tim
  imports Hw_Regs
begin

text \<open>
  The parts of the DMA driver \<^verbatim>\<open>stm32f10x_dma.c\<close> and of the timer driver
  \<^verbatim>\<open>stm32f10x_tim.c\<close> that the motor control uses.  The channels of DMA1 only: the firmware
  configures no channel of DMA2.
\<close>

section \<open>DMA channels\<close>

record DMA_InitTypeDef =
  DMA_PeripheralBaseAddr :: periph_ref
  DMA_MemoryBaseAddr :: mem_ref
  DMA_DIR :: u32
  DMA_BufferSize :: u32
  DMA_PeripheralInc :: u32
  DMA_MemoryInc :: u32
  DMA_PeripheralDataSize :: u32
  DMA_MemoryDataSize :: u32
  DMA_Mode :: u32
  DMA_Priority :: u32
  DMA_M2M :: u32

fun channel_no :: "dma_ch \<Rightarrow> nat" where
  "channel_no DMA1_Channel1 = 0"
| "channel_no DMA1_Channel2 = 1"
| "channel_no DMA1_Channel3 = 2"
| "channel_no DMA1_Channel4 = 3"
| "channel_no DMA1_Channel5 = 4"
| "channel_no DMA1_Channel6 = 5"
| "channel_no DMA1_Channel7 = 6"

text \<open>
  The four flags of channel \<open>x\<close> in the status register (global, complete, half, error) and the
  two of them the firmware tests.  Writing ones to \<open>IFCR\<close>, which reads as zero, clears flags.
\<close>

definition DMA1_Channel_IT_Mask :: "dma_ch \<Rightarrow> u32" where
  "DMA1_Channel_IT_Mask c = push_bit (4 * channel_no c) 0xF"

definition DMA1_IT_TC :: "dma_ch \<Rightarrow> u32" where
  "DMA1_IT_TC c = push_bit (4 * channel_no c) 0x2"

definition DMA1_IT_HT :: "dma_ch \<Rightarrow> u32" where
  "DMA1_IT_HT c = push_bit (4 * channel_no c) 0x4"

definition write_IFCR :: "u32 \<Rightarrow> 'a hw_st_scheme \<Rightarrow> 'a hw_st_scheme" where
  "write_IFCR m s = s\<lparr>DMA1_ISR := DMA1_ISR s AND NOT m\<rparr>"

definition DMA_DeInit :: "dma_ch \<Rightarrow> 'a hw_st_scheme \<Rightarrow> 'a hw_st_scheme" where
  "DMA_DeInit c s =
     write_IFCR (DMA1_Channel_IT_Mask c)
       (s\<lparr>dma := (dma s)(c := \<lparr>CCR = 0, CNDTR = 0, CPAR = NullPeriph, CMAR = NullRef\<rparr>)\<rparr>)"

definition DMA_Init :: "dma_ch \<Rightarrow> DMA_InitTypeDef \<Rightarrow> 'a hw_st_scheme \<Rightarrow> 'a hw_st_scheme" where
  "DMA_Init c init s =
     (let tmpreg = CCR (dma s c) AND 0xFFFF800F;
          tmpreg = tmpreg OR (DMA_DIR init OR DMA_Mode init OR
                     DMA_PeripheralInc init OR DMA_MemoryInc init OR
                     DMA_PeripheralDataSize init OR DMA_MemoryDataSize init OR
                     DMA_Priority init OR DMA_M2M init)
      in s\<lparr>dma := (dma s)(c := \<lparr>CCR = tmpreg, CNDTR = DMA_BufferSize init,
            CPAR = DMA_PeripheralBaseAddr init, CMAR = DMA_MemoryBaseAddr init\<rparr>)\<rparr>)"

definition DMA_Cmd :: "dma_ch \<Rightarrow> bool \<Rightarrow> 'a hw_st_scheme \<Rightarrow> 'a hw_st_scheme" where
  "DMA_Cmd c on s =
     s\<lparr>dma := (dma s)(c := (dma s c)\<lparr>CCR :=
        (if on then CCR (dma s c) OR 1 else CCR (dma s c) AND 0xFFFE)\<rparr>)\<rparr>"

text \<open>
  A direct store to the counter of a channel.  The driver says of its \<open>DMA_SetCurrDataCounter\<close>, which
  makes the same store, that it works on a disabled channel only: the register of a running channel is
  read only, and the store is lost.
\<close>

definition write_CNDTR :: "dma_ch \<Rightarrow> u32 \<Rightarrow> 'a hw_st_scheme \<Rightarrow> 'a hw_st_scheme" where
  "write_CNDTR c v s =
     (if bit (CCR (dma s c)) 0 then s
      else s\<lparr>dma := (dma s)(c := (dma s c)\<lparr>CNDTR := v\<rparr>)\<rparr>)"

definition write_CMAR :: "dma_ch \<Rightarrow> mem_ref \<Rightarrow> 'a hw_st_scheme \<Rightarrow> 'a hw_st_scheme" where
  "write_CMAR c m s = s\<lparr>dma := (dma s)(c := (dma s c)\<lparr>CMAR := m\<rparr>)\<rparr>"

definition DMA_ITConfig :: "dma_ch \<Rightarrow> u32 \<Rightarrow> bool \<Rightarrow> 'a hw_st_scheme \<Rightarrow> 'a hw_st_scheme" where
  "DMA_ITConfig c it on s =
     s\<lparr>dma := (dma s)(c := (dma s c)\<lparr>CCR :=
        (if on then CCR (dma s c) OR it else CCR (dma s c) AND NOT it)\<rparr>)\<rparr>"

definition DMA_GetCurrDataCounter :: "dma_ch \<Rightarrow> 'a hw_st_scheme \<Rightarrow> u16" where
  "DMA_GetCurrDataCounter c s = ucast (CNDTR (dma s c))"

definition DMA_GetITStatus :: "u32 \<Rightarrow> 'a hw_st_scheme \<Rightarrow> bool" where
  "DMA_GetITStatus it s \<longleftrightarrow> DMA1_ISR s AND it \<noteq> 0"

definition DMA_ClearITPendingBit :: "u32 \<Rightarrow> 'a hw_st_scheme \<Rightarrow> 'a hw_st_scheme" where
  "DMA_ClearITPendingBit it s = write_IFCR it s"

text \<open>A channel runs when its enable bit, bit 0 of \<open>CCR\<close>, is set.\<close>

definition dma_enabled :: "dma_ch \<Rightarrow> 'a hw_st_scheme \<Rightarrow> bool" where
  "dma_enabled c s \<longleftrightarrow> bit (CCR (dma s c)) 0"

lemma dma_enabled_DMA_Cmd [simp, hw_simps]:
  "dma_enabled d (DMA_Cmd c on s) \<longleftrightarrow> (if d = c then on else dma_enabled d s)"
  by (simp add: dma_enabled_def DMA_Cmd_def bit_simps)

section \<open>Timers\<close>

record TIM_TimeBaseInitTypeDef =
  TIM_Prescaler :: u16
  TIM_CounterMode :: u16
  TIM_Period :: u16
  TIM_ClockDivision :: u16
  TIM_RepetitionCounter :: u8

record TIM_OCInitTypeDef =
  TIM_OCMode :: u16
  TIM_OutputState :: u16
  TIM_OutputNState :: u16
  TIM_Pulse :: u16
  TIM_OCPolarity :: u16
  TIM_OCNPolarity :: u16
  TIM_OCIdleState :: u16
  TIM_OCNIdleState :: u16

definition TIM_TimeBaseStructInit :: TIM_TimeBaseInitTypeDef where
  "TIM_TimeBaseStructInit = \<lparr>TIM_Prescaler = 0, TIM_CounterMode = 0, TIM_Period = 0xFFFF,
     TIM_ClockDivision = 0, TIM_RepetitionCounter = 0\<rparr>"

definition TIM_OCStructInit :: TIM_OCInitTypeDef where
  "TIM_OCStructInit = \<lparr>TIM_OCMode = 0, TIM_OutputState = 0, TIM_OutputNState = 0, TIM_Pulse = 0,
     TIM_OCPolarity = 0, TIM_OCNPolarity = 0, TIM_OCIdleState = 0, TIM_OCNIdleState = 0\<rparr>"

definition upd_tim :: "tim_id \<Rightarrow> (tim_regs \<Rightarrow> tim_regs) \<Rightarrow> 'a hw_st_scheme \<Rightarrow> 'a hw_st_scheme" where
  "upd_tim t f s = s\<lparr>tim := (tim s)(t := f (tim s t))\<rparr>"

definition TIM_DeInit :: "tim_id \<Rightarrow> 'a hw_st_scheme \<Rightarrow> 'a hw_st_scheme" where
  "TIM_DeInit t = upd_tim t (\<lambda>_. tim_reset)"

definition TIM_TimeBaseInit ::
  "tim_id \<Rightarrow> TIM_TimeBaseInitTypeDef \<Rightarrow> 'a hw_st_scheme \<Rightarrow> 'a hw_st_scheme" where
  "TIM_TimeBaseInit t init = upd_tim t (\<lambda>r.
     let tmpcr1 = (CR1 r AND NOT 0x0070) OR TIM_CounterMode init;
         tmpcr1 = (tmpcr1 AND NOT 0x0300) OR TIM_ClockDivision init;
         r = r\<lparr>CR1 := tmpcr1, ARR := TIM_Period init, PSC := TIM_Prescaler init\<rparr>;
         r = (if t = TIM1 then r\<lparr>RCR := ucast (TIM_RepetitionCounter init)\<rparr> else r)
     in r\<lparr>EGR := 1\<rparr>)"

definition TIM_OC1Init :: "tim_id \<Rightarrow> TIM_OCInitTypeDef \<Rightarrow> 'a hw_st_scheme \<Rightarrow> 'a hw_st_scheme" where
  "TIM_OC1Init t init = upd_tim t (\<lambda>r.
     let tmpccer = CCER r AND NOT 0x0001;
         tmpcr2 = CR2 r;
         tmpccmrx = ((CCMR1 r AND NOT 0x0070) AND NOT 0x0003) OR TIM_OCMode init;
         tmpccer = (tmpccer AND NOT 0x0002) OR TIM_OCPolarity init;
         tmpccer = tmpccer OR TIM_OutputState init;
         (tmpccer, tmpcr2) =
           (if t = TIM1 then
              ((((tmpccer AND NOT 0x0008) OR TIM_OCNPolarity init) AND NOT 0x0004)
                 OR TIM_OutputNState init,
               ((tmpcr2 AND NOT 0x0100) AND NOT 0x0200)
                 OR TIM_OCIdleState init OR TIM_OCNIdleState init)
            else (tmpccer, tmpcr2))
     in r\<lparr>CR2 := tmpcr2, CCMR1 := tmpccmrx, CCR1 := TIM_Pulse init, CCER := tmpccer\<rparr>)"

definition TIM_OC2Init :: "tim_id \<Rightarrow> TIM_OCInitTypeDef \<Rightarrow> 'a hw_st_scheme \<Rightarrow> 'a hw_st_scheme" where
  "TIM_OC2Init t init = upd_tim t (\<lambda>r.
     let tmpccer = CCER r AND NOT 0x0010;
         tmpcr2 = CR2 r;
         tmpccmrx = ((CCMR1 r AND NOT 0x7000) AND NOT 0x0300) OR push_bit 8 (TIM_OCMode init);
         tmpccer = (tmpccer AND NOT 0x0020) OR push_bit 4 (TIM_OCPolarity init);
         tmpccer = tmpccer OR push_bit 4 (TIM_OutputState init);
         (tmpccer, tmpcr2) =
           (if t = TIM1 then
              ((((tmpccer AND NOT 0x0080) OR push_bit 4 (TIM_OCNPolarity init)) AND NOT 0x0040)
                 OR push_bit 4 (TIM_OutputNState init),
               ((tmpcr2 AND NOT 0x0400) AND NOT 0x0800)
                 OR push_bit 2 (TIM_OCIdleState init) OR push_bit 2 (TIM_OCNIdleState init))
            else (tmpccer, tmpcr2))
     in r\<lparr>CR2 := tmpcr2, CCMR1 := tmpccmrx, CCR2 := TIM_Pulse init, CCER := tmpccer\<rparr>)"

definition TIM_OC3Init :: "tim_id \<Rightarrow> TIM_OCInitTypeDef \<Rightarrow> 'a hw_st_scheme \<Rightarrow> 'a hw_st_scheme" where
  "TIM_OC3Init t init = upd_tim t (\<lambda>r.
     let tmpccer = CCER r AND NOT 0x0100;
         tmpcr2 = CR2 r;
         tmpccmrx = ((CCMR2 r AND NOT 0x0070) AND NOT 0x0003) OR TIM_OCMode init;
         tmpccer = (tmpccer AND NOT 0x0200) OR push_bit 8 (TIM_OCPolarity init);
         tmpccer = tmpccer OR push_bit 8 (TIM_OutputState init);
         (tmpccer, tmpcr2) =
           (if t = TIM1 then
              ((((tmpccer AND NOT 0x0800) OR push_bit 8 (TIM_OCNPolarity init)) AND NOT 0x0400)
                 OR push_bit 8 (TIM_OutputNState init),
               ((tmpcr2 AND NOT 0x1000) AND NOT 0x2000)
                 OR push_bit 4 (TIM_OCIdleState init) OR push_bit 4 (TIM_OCNIdleState init))
            else (tmpccer, tmpcr2))
     in r\<lparr>CR2 := tmpcr2, CCMR2 := tmpccmrx, CCR3 := TIM_Pulse init, CCER := tmpccer\<rparr>)"

definition TIM_OC4Init :: "tim_id \<Rightarrow> TIM_OCInitTypeDef \<Rightarrow> 'a hw_st_scheme \<Rightarrow> 'a hw_st_scheme" where
  "TIM_OC4Init t init = upd_tim t (\<lambda>r.
     let tmpccer = CCER r AND NOT 0x1000;
         tmpcr2 = CR2 r;
         tmpccmrx = ((CCMR2 r AND NOT 0x7000) AND NOT 0x0300) OR push_bit 8 (TIM_OCMode init);
         tmpccer = (tmpccer AND NOT 0x2000) OR push_bit 12 (TIM_OCPolarity init);
         tmpccer = tmpccer OR push_bit 12 (TIM_OutputState init);
         tmpcr2 = (if t = TIM1 then (tmpcr2 AND NOT 0x4000) OR push_bit 6 (TIM_OCIdleState init) else tmpcr2)
     in r\<lparr>CR2 := tmpcr2, CCMR2 := tmpccmrx, CCR4 := TIM_Pulse init, CCER := tmpccer\<rparr>)"

definition TIM_ARRPreloadConfig :: "tim_id \<Rightarrow> bool \<Rightarrow> 'a hw_st_scheme \<Rightarrow> 'a hw_st_scheme" where
  "TIM_ARRPreloadConfig t on = upd_tim t (\<lambda>r.
     r\<lparr>CR1 := (if on then CR1 r OR 0x0080 else CR1 r AND NOT 0x0080)\<rparr>)"

definition TIM_DMAConfig :: "tim_id \<Rightarrow> u16 \<Rightarrow> u16 \<Rightarrow> 'a hw_st_scheme \<Rightarrow> 'a hw_st_scheme" where
  "TIM_DMAConfig t base len = upd_tim t (\<lambda>r. r\<lparr>DCR := base OR len\<rparr>)"

definition TIM_DMACmd :: "tim_id \<Rightarrow> u16 \<Rightarrow> bool \<Rightarrow> 'a hw_st_scheme \<Rightarrow> 'a hw_st_scheme" where
  "TIM_DMACmd t src on = upd_tim t (\<lambda>r.
     r\<lparr>DIER := (if on then DIER r OR src else DIER r AND NOT src)\<rparr>)"

definition TIM_CtrlPWMOutputs :: "tim_id \<Rightarrow> bool \<Rightarrow> 'a hw_st_scheme \<Rightarrow> 'a hw_st_scheme" where
  "TIM_CtrlPWMOutputs t on = upd_tim t (\<lambda>r.
     r\<lparr>BDTR := (if on then BDTR r OR 0x8000 else BDTR r AND NOT 0x8000)\<rparr>)"

definition TIM_Cmd :: "tim_id \<Rightarrow> bool \<Rightarrow> 'a hw_st_scheme \<Rightarrow> 'a hw_st_scheme" where
  "TIM_Cmd t on = upd_tim t (\<lambda>r.
     r\<lparr>CR1 := (if on then CR1 r OR 0x0001 else CR1 r AND NOT 0x0001)\<rparr>)"

text \<open>A timer counts when bit 0 of \<open>CR1\<close> is set.\<close>

definition tim_enabled :: "tim_id \<Rightarrow> 'a hw_st_scheme \<Rightarrow> bool" where
  "tim_enabled t s \<longleftrightarrow> bit (CR1 (tim s t)) 0"

lemma tim_enabled_TIM_Cmd [simp, hw_simps]:
  "tim_enabled u (TIM_Cmd t on s) \<longleftrightarrow> (if u = t then on else tim_enabled u s)"
  by (simp add: tim_enabled_def TIM_Cmd_def upd_tim_def bit_simps)

end
