(* ===== verification/Board_Led.thy ===== *)
theory Board_Led
  imports Hw_Gpio
begin

text \<open>
  The lights of the board, \<^verbatim>\<open>hm_led.c\<close>.  The table \<open>s_leds\<close> is filled with constants by
  \<open>hm_led_cfg\<close> before any other operation reads it, so it is the function \<open>hm_led_cfg\<close> here.
  The lights show the error state, the run state and the activity of the four axes; the
  interface \<open>out_port\<close> of the port driver carries all the proofs.
\<close>

datatype LED_TYPE_E = ltRun | ltError | ltCh1 | ltCh2 | ltCh3 | ltCh4

definition ltMaxLed :: "LED_TYPE_E list" where
  "ltMaxLed = [ltRun, ltError, ltCh1, ltCh2, ltCh3, ltCh4]"

record led_info =
  led_port :: gpio_port
  led_pin :: u16
  led_rcc :: u32

definition RCC_APB2Periph_GPIOB :: u32 where
  "RCC_APB2Periph_GPIOB = 0x00000008"

fun led_pin_no :: "LED_TYPE_E \<Rightarrow> nat" where
  "led_pin_no ltRun = 7"
| "led_pin_no ltError = 8"
| "led_pin_no ltCh1 = 9"
| "led_pin_no ltCh2 = 10"
| "led_pin_no ltCh3 = 14"
| "led_pin_no ltCh4 = 15"

definition hm_led_cfg :: "LED_TYPE_E \<Rightarrow> led_info" where
  "hm_led_cfg e =
     \<lparr>led_port = GPIOB, led_pin = GPIO_Pin_no (led_pin_no e), led_rcc = RCC_APB2Periph_GPIOB\<rparr>"

definition hm_led_act :: "LED_TYPE_E \<Rightarrow> bool \<Rightarrow> 'a hw_st_scheme \<Rightarrow> 'a hw_st_scheme" where
  "hm_led_act e bon s =
     (if bon then GPIO_SetBits (led_port (hm_led_cfg e)) (led_pin (hm_led_cfg e)) s
      else GPIO_ResetBits (led_port (hm_led_cfg e)) (led_pin (hm_led_cfg e)) s)"

definition led_init_one :: "LED_TYPE_E \<Rightarrow> 'a hw_st_scheme \<Rightarrow> 'a hw_st_scheme" where
  "led_init_one e s =
     (let s = RCC_APB2PeriphClockCmd (led_rcc (hm_led_cfg e)) ENABLE s;
          init = \<lparr>GPIO_Pin = led_pin (hm_led_cfg e), GPIO_Speed = GPIO_Speed_50MHz,
                  GPIO_Mode = GPIO_Mode_Out_PP\<rparr>;
          s = GPIO_Init (led_port (hm_led_cfg e)) init s
      in GPIO_ResetBits (led_port (hm_led_cfg e)) (led_pin (hm_led_cfg e)) s)"

definition hm_led_init :: "'a hw_st_scheme \<Rightarrow> 'a hw_st_scheme" where
  "hm_led_init s = fold led_init_one ltMaxLed s"

text \<open>\<open>HM_MAX_AXIS\<close> of \<^verbatim>\<open>hm_common_cfg.h\<close>.\<close>

definition HM_MAX_AXIS :: nat where
  "HM_MAX_AXIS = 4"

definition hm_led_chan :: "u32 \<Rightarrow> bool \<Rightarrow> 'a hw_st_scheme \<Rightarrow> 'a hw_st_scheme" where
  "hm_led_chan idx bon s =
     (let chans = [ltCh1, ltCh2, ltCh3, ltCh4] in
      if unat idx \<ge> HM_MAX_AXIS \<or> unat idx \<ge> length chans then s
      else hm_led_act (chans ! unat idx) bon s)"

text \<open>The lamp \<open>e\<close> as a reader of the port sees it.\<close>

definition led_lit :: "LED_TYPE_E \<Rightarrow> 'a hw_st_scheme \<Rightarrow> bool" where
  "led_lit e s = gpio_out_bit GPIOB (led_pin_no e) s"

lemma led_pin_no_less [simp]: "led_pin_no e < 16"
  by (cases e) simp_all

lemma led_pin_no_inject [simp]: "led_pin_no e = led_pin_no f \<longleftrightarrow> e = f"
  by (cases e; cases f) simp_all

lemma led_lit_act [simp]: "led_lit e (hm_led_act f bon s) = (if e = f then bon else led_lit e s)"
  by (auto simp: led_lit_def hm_led_act_def hm_led_cfg_def gpio_port_out.out_set
      gpio_port_out.out_reset)

text \<open>A lamp write touches nothing but the output register of port B.\<close>

lemma hm_led_act_frame [simp, hw_simps]:
  "pin_level (hm_led_act e b s) = pin_level s" "input_reads (hm_led_act e b s) = input_reads s"
  "MAPR (hm_led_act e b s) = MAPR s" "MAPR2 (hm_led_act e b s) = MAPR2 s"
  "EXTICR (hm_led_act e b s) = EXTICR s" "exti (hm_led_act e b s) = exti s"
  "tim (hm_led_act e b s) = tim s" "dma (hm_led_act e b s) = dma s"
  "DMA1_ISR (hm_led_act e b s) = DMA1_ISR s" "AHBENR (hm_led_act e b s) = AHBENR s"
  "APB1ENR (hm_led_act e b s) = APB1ENR s" "APB2ENR (hm_led_act e b s) = APB2ENR s"
  "primask (hm_led_act e b s) = primask s" "hw_st.more (hm_led_act e b s) = hw_st.more s"
  by (simp_all add: hm_led_act_def GPIO_SetBits_def GPIO_ResetBits_def)

lemma hm_led_act_gpio_other [simp]: "p \<noteq> GPIOB \<Longrightarrow> gpio (hm_led_act e b s) p = gpio s p"
  by (simp add: hm_led_act_def GPIO_SetBits_def GPIO_ResetBits_def hm_led_cfg_def)

lemma hm_led_chan_frame [simp, hw_simps]:
  "pin_level (hm_led_chan i b s) = pin_level s" "input_reads (hm_led_chan i b s) = input_reads s"
  "exti (hm_led_chan i b s) = exti s" "tim (hm_led_chan i b s) = tim s"
  "dma (hm_led_chan i b s) = dma s" "DMA1_ISR (hm_led_chan i b s) = DMA1_ISR s"
  "primask (hm_led_chan i b s) = primask s" "hw_st.more (hm_led_chan i b s) = hw_st.more s"
  by (simp_all add: hm_led_chan_def Let_def)

text \<open>The lamp of axis \<open>i\<close>.\<close>

lemma led_lit_chan:
  assumes "unat i < 4"
  shows "led_lit e (hm_led_chan i b s) = (if e = [ltCh1, ltCh2, ltCh3, ltCh4] ! unat i then b else led_lit e s)"
  using assms by (simp add: hm_led_chan_def HM_MAX_AXIS_def)

lemma hm_led_chan_none: "4 \<le> unat i \<Longrightarrow> hm_led_chan i b s = s"
  by (simp add: hm_led_chan_def HM_MAX_AXIS_def)

section \<open>Initialisation\<close>

lemma led_init_one_config:
  "k < 16 \<Longrightarrow> pin_config q k (led_init_one e s) =
    (if q = GPIOB \<and> k = led_pin_no e then 3 else pin_config q k s)"
  by (auto simp: led_init_one_def Let_def hm_led_cfg_def pin_config_Init gpio_init_mode_def)

lemma led_init_one_lit: "led_lit f (led_init_one e s) = (f \<noteq> e \<and> led_lit f s)"
  by (auto simp: led_init_one_def Let_def hm_led_cfg_def led_lit_def gpio_port_out.out_reset
      gpio_out_bit_Init)

lemma led_init_fold_lit: "led_lit f (fold led_init_one es s) = (f \<notin> set es \<and> led_lit f s)"
  by (induction es arbitrary: s) (auto simp: led_init_one_lit)

lemma led_init_fold_config:
  "k < 16 \<Longrightarrow> pin_config q k (fold led_init_one es s) =
    (if q = GPIOB \<and> k \<in> led_pin_no ` set es then 3 else pin_config q k s)"
  by (induction es arbitrary: s) (auto simp: led_init_one_config)

lemma set_ltMaxLed [simp]: "set ltMaxLed = UNIV"
  using LED_TYPE_E.exhaust by (auto simp: ltMaxLed_def)

text \<open>
  After \<open>hm_led_init\<close> every lamp is dark, a pin of port B that carries a lamp is a push-pull
  output at 50 MHz, and every other pin of every port keeps the configuration it had.
\<close>

theorem hm_led_init_correct:
  "(\<forall>e. \<not> led_lit e (hm_led_init s)) \<and>
   pin_config q (k mod 16) (hm_led_init s) =
     (if q = GPIOB \<and> k mod 16 \<in> range led_pin_no then 3 else pin_config q (k mod 16) s)"
  by (simp add: hm_led_init_def led_init_fold_lit led_init_fold_config)

end
