(* ===== verification/Msg_Queue.thy ===== *)
theory Msg_Queue
  imports Board_Led
begin

text \<open>
  The message queue of the main loop, \<^verbatim>\<open>hm_msg_queue.c\<close>: a ring of \<open>HM_MSG_MAX\<close> slots that
  interrupt handlers and callbacks fill with a function and its parameter, and that
  \<open>hm_msg_queue_main\<close> serves, one message a turn.

  A function pointer is a value of \<open>ck_func\<close>, one constructor for each function the firmware ever
  registers; \<open>None\<close> is the null pointer.  What a call through such a pointer does is the
  parameter \<open>run\<close> of \<open>hm_msg_queue_main\<close>, which \<open>Firmware\<close> instantiates.

  The interface \<open>bounded_fifo\<close> is what the clients of the queue rely on.  The ring interprets it:
  its abstract value \<open>msgs\<close> is the list of the messages in the order they were added.
\<close>

section \<open>Callbacks\<close>

datatype ck_func =
    CK_led_ck | CK_led_ck_net | CK_netwk_ck | CK_hm_iwdg_feed
  | CK_hm_motor_limit_logical_check | CK_hm_cmd_msg_ck | CK_hm_cmd_reboot_ck

text \<open>The \<open>void*\<close> parameters the firmware passes: null or a slot of the command pool.\<close>

datatype ck_param = NoParam | CmdItem nat

section \<open>State and operations\<close>

definition HM_MSG_MAX :: u32 where
  "HM_MSG_MAX = 80"

record msg_queue_slot =
  ms_func :: "ck_func option"
  ms_param :: ck_param
  busing :: bool

record msg_st = hw_st +
  msg_array :: "msg_queue_slot list"
  nwrite :: u32
  nread :: u32
  nmin :: u32

definition hm_msg_queue_init :: "'a msg_st_scheme \<Rightarrow> 'a msg_st_scheme" where
  "hm_msg_queue_init s =
     s\<lparr>msg_array := map (\<lambda>m. m\<lparr>ms_func := None, busing := False\<rparr>) (msg_array s),
       nwrite := 0, nread := 0, nmin := HM_MSG_MAX\<rparr>"

definition ismsg_full :: "'a msg_st_scheme \<Rightarrow> bool" where
  "ismsg_full s \<longleftrightarrow> (nwrite s + 1) mod HM_MSG_MAX = nread s"

definition ismsg_empty :: "'a msg_st_scheme \<Rightarrow> bool" where
  "ismsg_empty s \<longleftrightarrow> nwrite s = nread s"

definition msg_remaining :: "'a msg_st_scheme \<Rightarrow> u32" where
  "msg_remaining s =
     (if nwrite s < nread s then nread s - nwrite s else HM_MSG_MAX - nwrite s + nread s)"

text \<open>The address of a slot is its index.\<close>

definition msg_get_move_next_write :: "'a msg_st_scheme \<Rightarrow> nat option \<times> 'a msg_st_scheme" where
  "msg_get_move_next_write s =
     (if ismsg_full s then (None, s)
      else let s = disable_irq s;
               i = unat (nwrite s);
               s = s\<lparr>msg_array := (msg_array s)[i := (msg_array s ! i)\<lparr>busing := True\<rparr>]\<rparr>;
               s = s\<lparr>nwrite := (nwrite s + 1) mod HM_MSG_MAX\<rparr>;
               s = enable_irq s
           in (Some i, s))"

text \<open>What \<open>hm_msg_queue_add\<close> does with the slot it reserved.\<close>

definition msg_fill :: "nat \<Rightarrow> ck_func \<Rightarrow> ck_param \<Rightarrow> 'a msg_st_scheme \<Rightarrow> 'a msg_st_scheme" where
  "msg_fill i f p s =
     (let s = (if nmin s > msg_remaining s then s\<lparr>nmin := msg_remaining s\<rparr> else s);
          s = s\<lparr>msg_array := (msg_array s)[i := (msg_array s ! i)\<lparr>ms_func := Some f\<rparr>]\<rparr>
      in s\<lparr>msg_array := (msg_array s)[i := (msg_array s ! i)\<lparr>ms_param := p\<rparr>]\<rparr>)"

definition hm_msg_queue_add ::
  "ck_func option \<Rightarrow> ck_param \<Rightarrow> 'a msg_st_scheme \<Rightarrow> bool \<times> 'a msg_st_scheme" where
  "hm_msg_queue_add f p s =
     (case f of
        None \<Rightarrow> (False, hm_led_act ltError True s)
      | Some g \<Rightarrow>
          (case msg_get_move_next_write s of
             (None, s) \<Rightarrow> (False, hm_led_act ltError True s)
           | (Some i, s) \<Rightarrow> (True, msg_fill i g p s)))"

definition hm_msg_queue_nmin_msg :: "'a msg_st_scheme \<Rightarrow> u32" where
  "hm_msg_queue_nmin_msg s = nmin s"

definition msg_get_read :: "'a msg_st_scheme \<Rightarrow> nat option" where
  "msg_get_read s = (if \<not> ismsg_empty s then Some (unat (nread s)) else None)"

text \<open>The slot that was served must still be the one to read, or the board stops with the error lamp on.\<close>

definition msg_move_next_read :: "nat \<Rightarrow> 'a msg_st_scheme \<Rightarrow> 'a msg_st_scheme res" where
  "msg_move_next_read i s =
     (if i \<noteq> unat (nread s) then Fault Hang
      else let s = disable_irq s;
               s = s\<lparr>msg_array := (msg_array s)[i := (msg_array s ! i)\<lparr>busing := False\<rparr>]\<rparr>;
               s = s\<lparr>nread := (nread s + 1) mod HM_MSG_MAX\<rparr>
           in Ok (enable_irq s))"

definition hm_msg_queue_main ::
  "(ck_func \<Rightarrow> ck_param \<Rightarrow> 'a msg_st_scheme \<Rightarrow> 'a msg_st_scheme res) \<Rightarrow>
   'a msg_st_scheme \<Rightarrow> 'a msg_st_scheme res" where
  "hm_msg_queue_main run s =
     (case msg_get_read s of
        None \<Rightarrow> Ok s
      | Some i \<Rightarrow>
          (case ms_func (msg_array s ! i) of
             None \<Rightarrow> Fault NullCall
           | Some f \<Rightarrow> bnd (run f (ms_param (msg_array s ! i)) s) (msg_move_next_read i)))"

section \<open>The interface of a bounded queue\<close>

locale bounded_fifo =
  fixes wf :: "'s \<Rightarrow> bool"
    and items :: "'s \<Rightarrow> 'm list"
    and cap :: nat
    and put :: "'m \<Rightarrow> 's \<Rightarrow> bool \<times> 's"
    and front :: "'s \<Rightarrow> 'm option"
    and pop :: "'s \<Rightarrow> 's"
  assumes put_wf: "wf s \<Longrightarrow> wf (snd (put m s))"
    and put_result: "wf s \<Longrightarrow> fst (put m s) \<longleftrightarrow> length (items s) < cap"
    and put_items: "wf s \<Longrightarrow>
      items (snd (put m s)) = (if length (items s) < cap then items s @ [m] else items s)"
    and front_items: "wf s \<Longrightarrow> front s = (case items s of [] \<Rightarrow> None | m # ms \<Rightarrow> Some m)"
    and pop_wf: "wf s \<Longrightarrow> items s \<noteq> [] \<Longrightarrow> wf (pop s)"
    and pop_items: "wf s \<Longrightarrow> items s \<noteq> [] \<Longrightarrow> items (pop s) = tl (items s)"
    and items_cap: "wf s \<Longrightarrow> length (items s) \<le> cap"
begin

text \<open>Several additions: those that find room are kept, in order; the rest is lost.\<close>

lemma put_all:
  "wf s \<Longrightarrow>
   wf (fold (\<lambda>m s. snd (put m s)) ms s) \<and>
   items (fold (\<lambda>m s. snd (put m s)) ms s) = items s @ take (cap - length (items s)) ms"
proof (induction ms arbitrary: s)
  case Nil
  then show ?case by simp
next
  case (Cons m ms)
  have wf: "wf (snd (put m s))" by (rule put_wf[OF Cons.prems])
  show ?case
  proof (cases "length (items s) < cap")
    case True
    then have "cap - length (items s) = Suc (cap - Suc (length (items s)))" by simp
    with True Cons.IH[OF wf] show ?thesis by (simp add: put_items[OF Cons.prems])
  next
    case False
    with Cons.IH[OF wf] show ?thesis by (simp add: put_items[OF Cons.prems])
  qed
qed

text \<open>Serving until the queue is empty meets the messages in the order they were added.\<close>

primrec serve :: "nat \<Rightarrow> 's \<Rightarrow> 'm list" where
  "serve 0 s = []"
| "serve (Suc n) s = (case front s of None \<Rightarrow> [] | Some m \<Rightarrow> m # serve n (pop s))"

lemma serve_items: "wf s \<Longrightarrow> serve n s = take n (items s)"
proof (induction n arbitrary: s)
  case 0
  then show ?case by simp
next
  case (Suc n)
  then show ?case
    by (cases "items s") (simp_all add: front_items pop_wf pop_items)
qed

lemma serve_after_put_all:
  "wf s \<Longrightarrow> cap \<le> n \<Longrightarrow>
   serve n (fold (\<lambda>m s. snd (put m s)) ms s) = items s @ take (cap - length (items s)) ms"
  using put_all[of s ms] serve_items[of _ n] items_cap[of "fold (\<lambda>m s. snd (put m s)) ms s"]
  by simp

end

section \<open>The ring as a bounded queue\<close>

text \<open>Slot numbers: the \<open>k\<close>-th message from the one to read, and how far a slot is from it.\<close>

definition msg_count :: "'a msg_st_scheme \<Rightarrow> nat" where
  "msg_count s = (unat (nwrite s) + 80 - unat (nread s)) mod 80"

definition msg_at :: "nat \<Rightarrow> 'a msg_st_scheme \<Rightarrow> nat" where
  "msg_at k s = (unat (nread s) + k) mod 80"

definition msg_of :: "msg_queue_slot \<Rightarrow> ck_func option \<times> ck_param" where
  "msg_of m = (ms_func m, ms_param m)"

definition msgs :: "'a msg_st_scheme \<Rightarrow> (ck_func option \<times> ck_param) list" where
  "msgs s = map (\<lambda>k. msg_of (msg_array s ! msg_at k s)) [0..<msg_count s]"

text \<open>
  \<open>ring_wf\<close> is what holds even while a message is being added; \<open>msg_wf\<close> adds that every queued
  message has a function and that \<open>nmin\<close> is not above the room that is left.
\<close>

definition ring_wf :: "'a msg_st_scheme \<Rightarrow> bool" where
  "ring_wf s \<longleftrightarrow>
     length (msg_array s) = 80 \<and> unat (nwrite s) < 80 \<and> unat (nread s) < 80 \<and>
     (\<forall>k < 80. busing (msg_array s ! msg_at k s) \<longleftrightarrow> k < msg_count s)"

definition msg_wf :: "'a msg_st_scheme \<Rightarrow> bool" where
  "msg_wf s \<longleftrightarrow>
     ring_wf s \<and> (\<forall>m \<in> set (msgs s). fst m \<noteq> None) \<and> unat (nmin s) \<le> 80 - msg_count s"

lemma unat_HM_MSG_MAX [simp]: "unat HM_MSG_MAX = 80"
  by (simp add: HM_MSG_MAX_def)

lemma ring_next:
  assumes "unat (w :: u32) < 80"
  shows "unat ((w + 1) mod HM_MSG_MAX) = (unat w + 1) mod 80"
proof -
  have "unat (w + 1) = unat w + 1" using assms by (subst unat_add_lem[THEN iffD1]) simp_all
  then show ?thesis by (simp add: unat_mod)
qed

lemma mod_two_turns: "n < 160 \<Longrightarrow> n mod 80 = (if n < 80 then n else n - (80::nat))"
  by (simp add: le_mod_geq)

lemma msg_count_if:
  "unat (nwrite s) < 80 \<Longrightarrow> unat (nread s) < 80 \<Longrightarrow> msg_count s =
   (if unat (nread s) \<le> unat (nwrite s) then unat (nwrite s) - unat (nread s)
    else unat (nwrite s) + 80 - unat (nread s))"
  by (simp add: msg_count_def mod_two_turns)

lemma msg_at_if:
  "unat (nread s) < 80 \<Longrightarrow> k < 80 \<Longrightarrow> msg_at k s =
   (if unat (nread s) + k < 80 then unat (nread s) + k else unat (nread s) + k - 80)"
  by (simp add: msg_at_def mod_two_turns)

lemma length_msgs [simp]: "length (msgs s) = msg_count s"
  by (simp add: msgs_def)

lemma msg_count_less: "msg_count s < 80"
  by (simp add: msg_count_def)

lemma msg_at_count: "ring_wf s \<Longrightarrow> msg_at (msg_count s) s = unat (nwrite s)"
  by (auto simp: ring_wf_def msg_at_if msg_count_less msg_count_if)

lemma msg_at_inject:
  "ring_wf s \<Longrightarrow> k < 80 \<Longrightarrow> j < 80 \<Longrightarrow> msg_at k s = msg_at j s \<longleftrightarrow> k = j"
  by (auto simp: ring_wf_def msg_at_if split: if_splits)

lemma ismsg_full_iff: "ring_wf s \<Longrightarrow> ismsg_full s \<longleftrightarrow> msg_count s = 79"
  by (auto simp: ismsg_full_def word_unat_eq_iff ring_wf_def msg_count_if ring_next mod_two_turns
      split: if_splits)

lemma ismsg_empty_iff: "ring_wf s \<Longrightarrow> ismsg_empty s \<longleftrightarrow> msg_count s = 0"
  by (auto simp: ismsg_empty_def word_unat_eq_iff ring_wf_def msg_count_if split: if_splits)

lemma unat_msg_remaining:
  assumes "ring_wf s"
  shows "unat (msg_remaining s) = 80 - msg_count s"
proof -
  have w: "unat (nwrite s) < 80" and r: "unat (nread s) < 80" using assms by (simp_all add: ring_wf_def)
  show ?thesis
  proof (cases "nwrite s < nread s")
    case True
    then have "unat (nread s - nwrite s) = unat (nread s) - unat (nwrite s)"
      by (intro unat_sub) (simp add: less_imp_le)
    with True w r show ?thesis
      by (simp add: msg_remaining_def msg_count_if word_less_nat_alt)
  next
    case False
    have "unat (HM_MSG_MAX - nwrite s) = 80 - unat (nwrite s)"
      using w by (subst unat_sub) (simp_all add: word_le_nat_alt)
    moreover have "unat (HM_MSG_MAX - nwrite s + nread s) = unat (HM_MSG_MAX - nwrite s) + unat (nread s)"
      using calculation w r by (subst unat_add_lem[THEN iffD1]) simp_all
    ultimately show ?thesis using False w r
      by (simp add: msg_remaining_def msg_count_if word_less_nat_alt)
  qed
qed

text \<open>The reservation of a slot, and the filling of a reserved slot.\<close>

definition ring_reserved :: "'a msg_st_scheme \<Rightarrow> 'a msg_st_scheme" where
  "ring_reserved s =
     s\<lparr>msg_array := (msg_array s)[unat (nwrite s) := (msg_array s ! unat (nwrite s))\<lparr>busing := True\<rparr>],
       nwrite := (nwrite s + 1) mod HM_MSG_MAX, primask := False\<rparr>"

lemma msg_get_move_next_write_eq:
  "ring_wf s \<Longrightarrow> msg_get_move_next_write s =
   (if msg_count s = 79 then (None, s) else (Some (unat (nwrite s)), ring_reserved s))"
  by (simp add: msg_get_move_next_write_def ismsg_full_iff ring_reserved_def disable_irq_def
      enable_irq_def Let_def)

lemma ring_reserved_count:
  "ring_wf s \<Longrightarrow> msg_count s < 79 \<Longrightarrow> msg_count (ring_reserved s) = Suc (msg_count s)"
  by (auto simp: ring_wf_def ring_reserved_def msg_count_def ring_next mod_two_turns split: if_splits)

lemma ring_reserved_at [simp]: "msg_at k (ring_reserved s) = msg_at k s"
  by (simp add: msg_at_def ring_reserved_def)

lemma msg_at_less: "msg_at k s < 80"
  by (simp add: msg_at_def)

lemma ring_reserved_wf:
  assumes wf: "ring_wf s" and room: "msg_count s < 79"
  shows "ring_wf (ring_reserved s)"
proof -
  have "busing (msg_array (ring_reserved s) ! msg_at k s) \<longleftrightarrow> k < Suc (msg_count s)" if k: "k < 80" for k
  proof (cases "k = msg_count s")
    case True
    with wf show ?thesis by (simp add: ring_reserved_def msg_at_count ring_wf_def)
  next
    case False
    then have "msg_at k s \<noteq> unat (nwrite s)"
      using wf k msg_at_inject[OF wf k, of "msg_count s"] by (simp add: msg_at_count msg_count_less)
    with wf k False show ?thesis by (auto simp: ring_reserved_def ring_wf_def)
  qed
  moreover have "unat ((nwrite s + 1) mod HM_MSG_MAX) < 80"
    using wf by (simp add: ring_wf_def ring_next)
  ultimately show ?thesis
    using wf room by (simp add: ring_wf_def ring_reserved_count[OF wf room])
      (simp add: ring_reserved_def)
qed

lemma msgs_reserved:
  assumes wf: "ring_wf s" and room: "msg_count s < 79"
  shows "msgs (ring_reserved s) = msgs s @ [msg_of (msg_array s ! unat (nwrite s))]"
proof -
  have "msg_of (msg_array (ring_reserved s) ! j) = msg_of (msg_array s ! j)" for j
    using wf by (cases "j = unat (nwrite s)") (simp_all add: ring_reserved_def ring_wf_def msg_of_def)
  then show ?thesis
    by (simp add: msgs_def ring_reserved_count[OF wf room] msg_at_count[OF wf])
qed

lemma msg_fill_frame [simp]:
  "nread (msg_fill i f p s) = nread s" "nwrite (msg_fill i f p s) = nwrite s"
  "msg_count (msg_fill i f p s) = msg_count s" "msg_at k (msg_fill i f p s) = msg_at k s"
  by (simp_all add: msg_fill_def Let_def msg_count_def msg_at_def)

lemma msg_array_fill:
  "i < length (msg_array s) \<Longrightarrow>
   msg_array (msg_fill i f p s) = (msg_array s)[i := (msg_array s ! i)\<lparr>ms_func := Some f, ms_param := p\<rparr>]"
  by (simp add: msg_fill_def Let_def)

lemma nmin_fill: "nmin (msg_fill i f p s) = min (nmin s) (msg_remaining s)"
  by (auto simp: msg_fill_def Let_def min_def)

lemma msg_fill_wf: "ring_wf s \<Longrightarrow> i < 80 \<Longrightarrow> ring_wf (msg_fill i f p s)"
  by (auto simp: ring_wf_def msg_array_fill nth_list_update_if)

text \<open>Filling the slot of the \<open>j\<close>-th message changes this message only.\<close>

lemma msgs_fill:
  assumes wf: "ring_wf s" and j: "j < msg_count s"
  shows "msgs (msg_fill (msg_at j s) f p s) = (msgs s)[j := (Some f, p)]"
proof (rule nth_equalityI)
  show "length (msgs (msg_fill (msg_at j s) f p s)) = length ((msgs s)[j := (Some f, p)])" by simp
next
  fix k
  assume "k < length (msgs (msg_fill (msg_at j s) f p s))"
  then have k: "k < msg_count s" by simp
  have "msg_at k s = msg_at j s \<longleftrightarrow> k = j"
    using msg_at_inject[OF wf] k j msg_count_less[of s] by (meson less_trans)
  then show "msgs (msg_fill (msg_at j s) f p s) ! k = (msgs s)[j := (Some f, p)] ! k"
    using wf k j
    by (auto simp: msgs_def msg_array_fill msg_at_less ring_wf_def msg_of_def nth_list_update_if)
qed

section \<open>Adding, reading, removing\<close>

lemma hm_msg_queue_add_eq:
  "ring_wf s \<Longrightarrow> hm_msg_queue_add (Some f) p s =
   (if msg_count s = 79 then (False, hm_led_act ltError True s)
    else (True, msg_fill (msg_at (msg_count s) (ring_reserved s)) f p (ring_reserved s)))"
  by (simp add: hm_msg_queue_add_def msg_get_move_next_write_eq msg_at_count)

lemma hm_led_act_msg_frame [simp, hw_simps]:
  "msg_array (hm_led_act e b s) = msg_array s" "nwrite (hm_led_act e b s) = nwrite s"
  "nread (hm_led_act e b s) = nread s" "nmin (hm_led_act e b s) = nmin s"
  by (simp_all add: hm_led_act_def GPIO_SetBits_def GPIO_ResetBits_def)

lemma ring_led [simp]:
  "msg_count (hm_led_act e b s) = msg_count s" "msg_at k (hm_led_act e b s) = msg_at k s"
  "msgs (hm_led_act e b s) = msgs s" "ring_wf (hm_led_act e b s) = ring_wf s"
  "msg_wf (hm_led_act e b s) = msg_wf s"
proof -
  show count: "msg_count (hm_led_act e b s) = msg_count s" by (simp add: msg_count_def)
  show at: "msg_at k (hm_led_act e b s) = msg_at k s" for k by (simp add: msg_at_def)
  show ms: "msgs (hm_led_act e b s) = msgs s" by (simp add: msgs_def count at)
  show ring: "ring_wf (hm_led_act e b s) = ring_wf s" by (simp add: ring_wf_def count at)
  show "msg_wf (hm_led_act e b s) = msg_wf s" by (simp add: msg_wf_def ring ms count)
qed

lemma add_room:
  assumes wf: "ring_wf s" and room: "msg_count s < 79"
  shows "fst (hm_msg_queue_add (Some f) p s)"
    and "ring_wf (snd (hm_msg_queue_add (Some f) p s))"
    and "msgs (snd (hm_msg_queue_add (Some f) p s)) = msgs s @ [(Some f, p)]"
    and "unat (nmin (snd (hm_msg_queue_add (Some f) p s))) = min (unat (nmin s)) (79 - msg_count s)"
proof -
  let ?r = "ring_reserved s"
  have eq: "hm_msg_queue_add (Some f) p s = (True, msg_fill (msg_at (msg_count s) ?r) f p ?r)"
    using wf room by (simp add: hm_msg_queue_add_eq)
  have wf': "ring_wf ?r" by (rule ring_reserved_wf[OF wf room])
  have count: "msg_count ?r = Suc (msg_count s)" by (rule ring_reserved_count[OF wf room])
  show "fst (hm_msg_queue_add (Some f) p s)" by (simp add: eq)
  show "ring_wf (snd (hm_msg_queue_add (Some f) p s))" by (simp add: eq msg_fill_wf wf' msg_at_less)
  have "msgs (msg_fill (msg_at (msg_count s) ?r) f p ?r) = (msgs ?r)[msg_count s := (Some f, p)]"
    by (rule msgs_fill[OF wf']) (simp add: count)
  then show "msgs (snd (hm_msg_queue_add (Some f) p s)) = msgs s @ [(Some f, p)]"
    by (simp add: eq msgs_reserved[OF wf room] list_update_append del: ring_reserved_at)
  have "nmin ?r = nmin s" by (simp add: ring_reserved_def)
  then show "unat (nmin (snd (hm_msg_queue_add (Some f) p s))) = min (unat (nmin s)) (79 - msg_count s)"
    using unat_msg_remaining[OF wf'] by (simp add: eq nmin_fill min_def word_le_nat_alt count)
qed

lemma add_full:
  "ring_wf s \<Longrightarrow> msg_count s = 79 \<Longrightarrow> hm_msg_queue_add (Some f) p s = (False, hm_led_act ltError True s)"
  by (simp add: hm_msg_queue_add_eq)

lemma add_null: "hm_msg_queue_add None p s = (False, hm_led_act ltError True s)"
  by (simp add: hm_msg_queue_add_def)

lemma msg_wf_ring: "msg_wf s \<Longrightarrow> ring_wf s"
  by (simp add: msg_wf_def)

lemma add_msg_wf [inv_rules]: "msg_wf s \<Longrightarrow> msg_wf (snd (hm_msg_queue_add f p s))"
proof (cases f)
  case None
  assume "msg_wf s"
  with None show ?thesis by (simp add: add_null)
next
  case (Some g)
  assume wf: "msg_wf s"
  show ?thesis
  proof (cases "msg_count s < 79")
    case True
    note room = add_room[OF msg_wf_ring[OF wf] True, of g p]
    have "msg_count (snd (hm_msg_queue_add f p s)) = Suc (msg_count s)"
      using arg_cong[OF room(3), of length] Some by simp
    with wf room Some True show ?thesis by (auto simp: msg_wf_def)
  next
    case False
    with msg_count_less[of s] have "msg_count s = 79" by simp
    with wf Some show ?thesis by (simp add: add_full msg_wf_ring)
  qed
qed

text \<open>Removing the message that was served.\<close>

definition ring_popped :: "'a msg_st_scheme \<Rightarrow> 'a msg_st_scheme" where
  "ring_popped s =
     s\<lparr>msg_array := (msg_array s)[unat (nread s) := (msg_array s ! unat (nread s))\<lparr>busing := False\<rparr>],
       nread := (nread s + 1) mod HM_MSG_MAX, primask := False\<rparr>"

lemma msg_move_next_read_eq: "msg_move_next_read (unat (nread s)) s = Ok (ring_popped s)"
  by (simp add: msg_move_next_read_def ring_popped_def disable_irq_def enable_irq_def Let_def)

lemma ring_popped_count:
  "ring_wf s \<Longrightarrow> msg_count s \<noteq> 0 \<Longrightarrow> msg_count (ring_popped s) = msg_count s - 1"
  by (auto simp: ring_wf_def ring_popped_def msg_count_def ring_next mod_two_turns split: if_splits)

lemma ring_popped_at:
  assumes "ring_wf s" and "k < 80"
  shows "msg_at k (ring_popped s) = msg_at (Suc k mod 80) s"
proof -
  have "unat (nread (ring_popped s)) = (unat (nread s) + 1) mod 80"
    using assms by (simp add: ring_popped_def ring_wf_def ring_next)
  then show ?thesis by (simp add: msg_at_def mod_simps)
qed

lemma msgs_popped:
  assumes wf: "ring_wf s" and ne: "msg_count s \<noteq> 0"
  shows "msgs (ring_popped s) = tl (msgs s)"
proof (rule nth_equalityI)
  show len: "length (msgs (ring_popped s)) = length (tl (msgs s))"
    by (simp add: ring_popped_count[OF wf ne])
  fix k
  assume "k < length (msgs (ring_popped s))"
  then have k: "k < msg_count s - 1" by (simp add: ring_popped_count[OF wf ne])
  with msg_count_less[of s] have k': "Suc k < 80" "k < 80" by simp_all
  have "msg_of (msg_array (ring_popped s) ! j) = msg_of (msg_array s ! j)" for j
    using wf by (cases "j = unat (nread s)") (simp_all add: ring_popped_def ring_wf_def msg_of_def)
  with k k' show "msgs (ring_popped s) ! k = tl (msgs s) ! k"
    by (simp add: msgs_def nth_tl ring_popped_count[OF wf ne] ring_popped_at[OF wf])
qed

lemma ring_popped_wf:
  assumes wf: "ring_wf s" and ne: "msg_count s \<noteq> 0"
  shows "ring_wf (ring_popped s)"
proof -
  have at0: "msg_at 0 s = unat (nread s)" using wf by (simp add: msg_at_def ring_wf_def)
  have arr: "msg_array (ring_popped s) =
      (msg_array s)[unat (nread s) := (msg_array s ! unat (nread s))\<lparr>busing := False\<rparr>]"
    by (simp add: ring_popped_def)
  have "busing (msg_array (ring_popped s) ! msg_at k (ring_popped s)) \<longleftrightarrow> k < msg_count s - 1"
    if k: "k < 80" for k
  proof (cases "k = 79")
    case True
    have "msg_at k (ring_popped s) = unat (nread s)" using True at0 by (simp add: ring_popped_at[OF wf])
    with wf True msg_count_less[of s] show ?thesis by (simp add: ring_popped_def ring_wf_def)
  next
    case False
    with k have k': "Suc k < 80" by simp
    then have "msg_at (Suc k) s \<noteq> unat (nread s)"
      using msg_at_inject[OF wf k', of 0] by (simp add: at0)
    moreover have "busing (msg_array s ! msg_at (Suc k) s) \<longleftrightarrow> Suc k < msg_count s"
      using wf k' by (simp add: ring_wf_def)
    ultimately show ?thesis
      using k k' by (auto simp: ring_popped_at[OF wf] arr)
  qed
  moreover have "unat ((nread s + 1) mod HM_MSG_MAX) < 80" using wf by (simp add: ring_wf_def ring_next)
  ultimately show ?thesis
    using wf by (simp add: ring_wf_def ring_popped_count[OF wf ne]) (simp add: ring_popped_def)
qed

lemma popped_msg_wf [inv_rules]:
  assumes "msg_wf s" and "msg_count s \<noteq> 0"
  shows "msg_wf (ring_popped s)"
proof -
  have "set (tl (msgs s)) \<subseteq> set (msgs s)" by (cases "msgs s") auto
  moreover have "nmin (ring_popped s) = nmin s" by (simp add: ring_popped_def)
  ultimately show ?thesis
    using assms by (auto simp: msg_wf_def ring_popped_wf msgs_popped ring_popped_count)
qed

section \<open>The ring interprets the interface\<close>

definition queued :: "'a msg_st_scheme \<Rightarrow> (ck_func \<times> ck_param) list" where
  "queued s = map (\<lambda>(f, p). (the f, p)) (msgs s)"

definition msg_put :: "ck_func \<times> ck_param \<Rightarrow> 'a msg_st_scheme \<Rightarrow> bool \<times> 'a msg_st_scheme" where
  "msg_put m s = hm_msg_queue_add (Some (fst m)) (snd m) s"

definition msg_front :: "'a msg_st_scheme \<Rightarrow> (ck_func \<times> ck_param) option" where
  "msg_front s =
     map_option (\<lambda>i. (the (ms_func (msg_array s ! i)), ms_param (msg_array s ! i))) (msg_get_read s)"

lemma msgs_Cons:
  assumes "ring_wf s" and "msg_count s \<noteq> 0"
  shows "msgs s = msg_of (msg_array s ! unat (nread s)) # tl (msgs s)"
proof -
  have "msgs s \<noteq> []" using assms(2) by (metis length_msgs list.size(3))
  moreover have "hd (msgs s) = msg_of (msg_array s ! unat (nread s))"
    using assms by (simp add: msgs_def hd_map upt_conv_Cons msg_at_def ring_wf_def)
  ultimately show ?thesis by (metis list.collapse)
qed

lemma msg_get_read_eq:
  "ring_wf s \<Longrightarrow> msg_get_read s = (if msg_count s = 0 then None else Some (unat (nread s)))"
  by (simp add: msg_get_read_def ismsg_empty_iff)

lemma length_queued [simp]: "length (queued s) = msg_count s"
  by (simp add: queued_def)

lemma queued_Nil_iff: "queued s = [] \<longleftrightarrow> msg_count s = 0"
  by (metis length_0_conv length_queued)

interpretation msg_ring: bounded_fifo msg_wf queued 79 msg_put msg_front ring_popped
proof unfold_locales
  fix s :: "'a msg_st_scheme" and m :: "ck_func \<times> ck_param"
  assume wf: "msg_wf s"
  note ring = msg_wf_ring[OF wf]
  show "msg_wf (snd (msg_put m s))" by (simp add: msg_put_def add_msg_wf[OF wf])
  have full: "msg_count s = 79" if "\<not> msg_count s < 79" using that msg_count_less[of s] by simp
  show "fst (msg_put m s) \<longleftrightarrow> length (queued s) < 79"
    using add_room(1)[OF ring] add_full[OF ring] full by (cases "msg_count s < 79") (auto simp: msg_put_def)
  show "queued (snd (msg_put m s)) = (if length (queued s) < 79 then queued s @ [m] else queued s)"
    using add_room(3)[OF ring] add_full[OF ring] full by (cases "msg_count s < 79") (auto simp: msg_put_def queued_def)
  show "msg_front s = (case queued s of [] \<Rightarrow> None | m # ms \<Rightarrow> Some m)"
  proof (cases "msg_count s = 0")
    case True
    then have "queued s = []" by (simp add: queued_Nil_iff)
    with True ring show ?thesis by (simp add: msg_front_def msg_get_read_eq)
  next
    case False
    note C = msgs_Cons[OF ring False]
    have "queued s = (the (ms_func (msg_array s ! unat (nread s))), ms_param (msg_array s ! unat (nread s)))
        # map (\<lambda>(f, p). (the f, p)) (tl (msgs s))"
      unfolding queued_def by (subst C) (simp add: msg_of_def)
    with False ring show ?thesis by (simp add: msg_front_def msg_get_read_eq)
  qed
  show "length (queued s) \<le> 79" using msg_count_less[of s] by simp
  assume "queued s \<noteq> []"
  then have ne: "msg_count s \<noteq> 0" by (simp add: queued_Nil_iff)
  show "msg_wf (ring_popped s)" by (rule popped_msg_wf[OF wf ne])
  show "queued (ring_popped s) = tl (queued s)"
    by (simp add: queued_def msgs_popped[OF ring ne] map_tl)
qed

section \<open>What the queue promises\<close>

lemma msg_init_wf:
  assumes "length (msg_array s) = 80"
  shows "msg_wf (hm_msg_queue_init s) \<and> queued (hm_msg_queue_init s) = []"
proof -
  have "msg_count (hm_msg_queue_init s) = 0" by (simp add: msg_count_def hm_msg_queue_init_def)
  with assms show ?thesis
    by (auto simp: msg_wf_def ring_wf_def msgs_def queued_def hm_msg_queue_init_def msg_at_def)
qed

lemma msg_main_idle: "msg_wf s \<Longrightarrow> queued s = [] \<Longrightarrow> hm_msg_queue_main run s = Ok s"
  by (simp add: hm_msg_queue_main_def msg_get_read_eq msg_wf_ring queued_Nil_iff)

text \<open>On a queue that is not empty, the callback of the oldest message runs.\<close>

lemma msg_main_runs:
  assumes wf: "msg_wf s" and q: "queued s = (f, p) # ms"
  shows "hm_msg_queue_main run s = bnd (run f p s) (msg_move_next_read (unat (nread s)))"
proof -
  note ring = msg_wf_ring[OF wf]
  have ne: "msg_count s \<noteq> 0" using q by (metis list.distinct(1) queued_Nil_iff)
  have "fst (msg_of (msg_array s ! unat (nread s))) \<noteq> None"
    using wf msgs_Cons[OF ring ne] by (metis list.set_intros(1) msg_wf_def)
  then obtain g where g: "ms_func (msg_array s ! unat (nread s)) = Some g" by (auto simp: msg_of_def)
  have "msg_front s = Some (f, p)" using msg_ring.front_items[OF wf] q by simp
  then have "g = f" "ms_param (msg_array s ! unat (nread s)) = p"
    using g by (simp_all add: msg_front_def msg_get_read_eq[OF ring] ne)
  with g show ?thesis by (simp add: hm_msg_queue_main_def msg_get_read_eq[OF ring] ne)
qed

text \<open>The queue at power up: the static array is zero.\<close>

definition msg_power_up :: msg_st where
  "msg_power_up = hw_st.extend hw_reset
     (msg_st.fields (replicate 80 \<lparr>ms_func = None, ms_param = NoParam, busing = False\<rparr>) 0 0 0)"

lemma length_msg_power_up [simp]: "length (msg_array msg_power_up) = 80"
  by (simp add: msg_power_up_def hw_st.defs msg_st.defs)

lemma queued_add:
  "msg_wf s \<Longrightarrow> queued (snd (hm_msg_queue_add (Some f) p s)) =
   (if length (queued s) < 79 then queued s @ [(f, p)] else queued s)"
  using msg_ring.put_items[of s "(f, p)"] by (simp add: msg_put_def)

section \<open>Properties of the queue\<close>

text \<open>
  C15.  The ring is a first-in first-out queue of capacity 79: after initialisation, whatever is
  added is read back in the order of the additions, and of more than 79 additions exactly the first 79
  are kept.
\<close>

theorem msg_queue_fifo:
  assumes "length (msg_array s) = 80"
  shows "msg_ring.serve (79 + n) (fold (\<lambda>(f, p) s. snd (hm_msg_queue_add (Some f) p s)) ms
      (hm_msg_queue_init s)) = take 79 ms"
proof -
  have "fold (\<lambda>(f, p) s. snd (hm_msg_queue_add (Some f) p s)) ms (hm_msg_queue_init s) =
      fold (\<lambda>m s. snd (msg_put m s)) ms (hm_msg_queue_init s)"
    by (simp add: msg_put_def case_prod_beta')
  then show ?thesis
    using msg_ring.serve_after_put_all[of "hm_msg_queue_init s" "79 + n" ms] msg_init_wf[OF assms]
    by simp
qed

lemma msg_queue_fifo_witness:
  "msg_ring.serve (79 + 0) (fold (\<lambda>(f, p) s. snd (hm_msg_queue_add (Some f) p s))
     (replicate 78 (CK_hm_iwdg_feed, NoParam) @ [(CK_hm_cmd_msg_ck, CmdItem 3), (CK_led_ck, NoParam)])
     (hm_msg_queue_init msg_power_up)) =
   replicate 78 (CK_hm_iwdg_feed, NoParam) @ [(CK_hm_cmd_msg_ck, CmdItem 3)]"
  by (subst msg_queue_fifo[OF length_msg_power_up]) simp

text \<open>
  \<open>hm_msg_queue_add\<close> on every branch: it succeeds exactly when the function is not null and there
  is room, and then appends the message and lowers \<open>nmin\<close> to the room left; otherwise it lights the
  error lamp and changes nothing else.  The invariant of the ring is kept.
\<close>

theorem hm_msg_queue_add_correct:
  assumes "msg_wf s" and "hm_msg_queue_add f p s = (ok, t)"
  shows "msg_wf t \<and> (ok \<longleftrightarrow> f \<noteq> None \<and> length (queued s) < 79) \<and>
    (if ok then queued t = queued s @ [(the f, p)] \<and>
       unat (nmin t) = min (unat (nmin s)) (79 - length (queued s))
     else t = hm_led_act ltError True s)"
proof (cases f)
  case None
  with assms show ?thesis by (auto simp: add_null)
next
  case (Some g)
  note ring = msg_wf_ring[OF assms(1)]
  show ?thesis
  proof (cases "msg_count s < 79")
    case True
    then show ?thesis
      using add_room[OF ring True, of g p] queued_add[OF assms(1), of g p]
        add_msg_wf[OF assms(1), of f p] assms(2) Some by simp
  next
    case False
    with msg_count_less[of s] have "msg_count s = 79" by simp
    with assms Some show ?thesis using add_full[OF ring, of g p] by auto
  qed
qed

lemma hm_msg_queue_add_correct_witness:
  "queued (snd (hm_msg_queue_add (Some CK_led_ck) NoParam (hm_msg_queue_init msg_power_up))) =
    [(CK_led_ck, NoParam)]"
proof -
  note init = msg_init_wf[OF length_msg_power_up]
  show ?thesis
    using hm_msg_queue_add_correct[of "hm_msg_queue_init msg_power_up" "Some CK_led_ck" NoParam
        "fst (hm_msg_queue_add (Some CK_led_ck) NoParam (hm_msg_queue_init msg_power_up))"
        "snd (hm_msg_queue_add (Some CK_led_ck) NoParam (hm_msg_queue_init msg_power_up))"] init
    by simp
qed

text \<open>
  One turn of the main loop serves the oldest message: its callback runs, the message leaves the
  queue, and messages added while the callback ran stand behind the others.
\<close>

theorem hm_msg_queue_main_serves:
  assumes "msg_wf s" and "queued s = (f, p) # ms" and "run f p s = Ok t"
    and "msg_wf t" and "nread t = nread s" and "queued t = queued s @ new"
  shows "\<exists>u. hm_msg_queue_main run s = Ok u \<and> msg_wf u \<and> queued u = ms @ new"
proof -
  have ne: "queued t \<noteq> []" using assms(2,6) by simp
  have "hm_msg_queue_main run s = Ok (ring_popped t)"
    using assms(3,5) msg_main_runs[OF assms(1,2), of run] msg_move_next_read_eq[of t] by simp
  moreover have "queued (ring_popped t) = ms @ new"
    using msg_ring.pop_items[OF assms(4) ne] assms(2,6) by simp
  ultimately show ?thesis using msg_ring.pop_wf[OF assms(4) ne] by blast
qed

text \<open>Two messages queued at power up, the oldest served by a callback that adds a third.\<close>

definition msg_two :: msg_st where
  "msg_two = snd (hm_msg_queue_add (Some CK_netwk_ck) NoParam
     (snd (hm_msg_queue_add (Some CK_led_ck) NoParam (hm_msg_queue_init msg_power_up))))"

lemma msg_two_queue: "msg_wf msg_two \<and> queued msg_two = [(CK_led_ck, NoParam), (CK_netwk_ck, NoParam)]"
  using msg_init_wf[OF length_msg_power_up] by (simp add: msg_two_def add_msg_wf queued_add)

lemma hm_msg_queue_main_serves_witness:
  "\<exists>u. hm_msg_queue_main (\<lambda>f p s. Ok (hm_led_act ltRun True s)) msg_two = Ok u \<and> msg_wf u \<and>
     queued u = [(CK_netwk_ck, NoParam)]"
  using hm_msg_queue_main_serves[of msg_two CK_led_ck NoParam "[(CK_netwk_ck, NoParam)]"
      "\<lambda>f p s. Ok (hm_led_act ltRun True s)" "hm_led_act ltRun True msg_two" "[]"] msg_two_queue
  by (simp add: queued_def)

end
