(* ===== verification/Msg_Irq.thy ===== *)
theory Msg_Irq
  imports Msg_Queue
begin

text \<open>
  Additions to the ring of \<^verbatim>\<open>hm_msg_queue.c\<close> that interrupt each other.  The main loop and the interrupt
  handlers call \<open>hm_msg_queue_add\<close>, which masks the interrupts only while it reserves a slot: between its other
  statements, and between the test for a full ring and the mask, another addition can run, which can be
  interrupted in turn.  An addition with what interrupts it is a tree; running it is the code of
  \<open>hm_msg_queue_add\<close> with the subtrees run at those places.
\<close>

section \<open>Additions with their interrupts\<close>

text \<open>
  \<open>Adding f p gap as bs cs ds\<close> adds the function and the parameter.  \<open>gap\<close> comes between the test of
  \<open>ismsg_full\<close> and the mask, \<open>as\<close> after the reservation, \<open>bs\<close> between the test and the assignment of \<open>nmin\<close>,
  \<open>cs\<close> before the function is written, and \<open>ds\<close> between the function and the parameter.
\<close>

datatype adding =
  Adding ck_func ck_param "adding list" "adding list" "adding list" "adding list" "adding list"

text \<open>What is done under the mask.\<close>

definition msg_reserve :: "'a msg_st_scheme \<Rightarrow> nat \<times> 'a msg_st_scheme" where
  "msg_reserve s =
     (let s = disable_irq s;
          i = unat (nwrite s);
          s = s\<lparr>msg_array := (msg_array s)[i := (msg_array s ! i)\<lparr>busing := True\<rparr>]\<rparr>;
          s = s\<lparr>nwrite := (nwrite s + 1) mod HM_MSG_MAX\<rparr>
      in (i, enable_irq s))"

definition msg_func :: "nat \<Rightarrow> ck_func \<Rightarrow> 'a msg_st_scheme \<Rightarrow> 'a msg_st_scheme" where
  "msg_func i f s = s\<lparr>msg_array := (msg_array s)[i := (msg_array s ! i)\<lparr>ms_func := Some f\<rparr>]\<rparr>"

definition msg_param :: "nat \<Rightarrow> ck_param \<Rightarrow> 'a msg_st_scheme \<Rightarrow> 'a msg_st_scheme" where
  "msg_param i p s = s\<lparr>msg_array := (msg_array s)[i := (msg_array s ! i)\<lparr>ms_param := p\<rparr>]\<rparr>"

primrec run_add :: "adding \<Rightarrow> 'a msg_st_scheme \<Rightarrow> bool \<times> 'a msg_st_scheme"
  and run_adds :: "adding list \<Rightarrow> 'a msg_st_scheme \<Rightarrow> 'a msg_st_scheme" where
  "run_add (Adding f p gap as bs cs ds) s =
     (if ismsg_full s then (False, hm_led_act ltError True (run_adds gap s))
      else
        let (i, s) = msg_reserve (run_adds gap s);
            s = run_adds as s;
            low = (nmin s > msg_remaining s);
            s = run_adds bs s;
            s = (if low then s\<lparr>nmin := msg_remaining s\<rparr> else s);
            s = msg_func i f (run_adds cs s);
            s = msg_param i p (run_adds ds s)
        in (True, s))"
| "run_adds [] s = s"
| "run_adds (x # xs) s = run_adds xs (snd (run_add x s))"

text \<open>The messages of a tree in the order in which the slots are reserved.\<close>

primrec reserved_order :: "adding \<Rightarrow> (ck_func \<times> ck_param) list"
  and reserved_orders :: "adding list \<Rightarrow> (ck_func \<times> ck_param) list" where
  "reserved_order (Adding f p gap as bs cs ds) =
     reserved_orders gap @ (f, p) # reserved_orders as @ reserved_orders bs @ reserved_orders cs @ reserved_orders ds"
| "reserved_orders [] = []"
| "reserved_orders (x # xs) = reserved_order x @ reserved_orders xs"

text \<open>Without interrupts this is \<open>hm_msg_queue_add\<close>, and the reservation is the rest of its first call.\<close>

lemma msg_reserve_next:
  "msg_get_move_next_write s = (if ismsg_full s then (None, s) else map_prod Some id (msg_reserve s))"
  by (simp add: msg_get_move_next_write_def msg_reserve_def Let_def)

lemma run_add_alone: "run_add (Adding f p [] [] [] [] []) s = hm_msg_queue_add (Some f) p s"
  by (simp add: hm_msg_queue_add_def msg_reserve_next msg_fill_def msg_func_def msg_param_def Let_def split_beta)

section \<open>The steps of an addition\<close>

lemma msg_reserve_eq: "msg_reserve s = (unat (nwrite s), ring_reserved s)"
  by (simp add: msg_reserve_def ring_reserved_def disable_irq_def enable_irq_def Let_def)

lemma ring_nmin [simp]:
  "ring_wf (s\<lparr>nmin := v\<rparr>) = ring_wf s" "msgs (s\<lparr>nmin := v\<rparr>) = msgs s" "msg_count (s\<lparr>nmin := v\<rparr>) = msg_count s"
  by (simp_all add: ring_wf_def msgs_def msg_count_def msg_at_def)

text \<open>Writing into the slot of the \<open>k\<close>-th message.\<close>

lemma ring_write:
  assumes wf: "ring_wf s" and k: "k < msg_count s" and f: "busing (f (msg_array s ! msg_at k s))"
  shows "ring_wf (s\<lparr>msg_array := (msg_array s)[msg_at k s := f (msg_array s ! msg_at k s)]\<rparr>)"
    and "msgs (s\<lparr>msg_array := (msg_array s)[msg_at k s := f (msg_array s ! msg_at k s)]\<rparr>) =
      (msgs s)[k := msg_of (f (msg_array s ! msg_at k s))]"
proof -
  let ?t = "s\<lparr>msg_array := (msg_array s)[msg_at k s := f (msg_array s ! msg_at k s)]\<rparr>"
  have k80: "k < 80" using k msg_count_less[of s] by simp
  have c: "msg_count ?t = msg_count s" "msg_at j ?t = msg_at j s" for j by (simp_all add: msg_count_def msg_at_def)
  have at: "msg_at j s = msg_at k s \<longleftrightarrow> j = k" if "j < 80" for j using msg_at_inject[OF wf that k80] .
  have len: "length (msg_array s) = 80" using wf by (simp add: ring_wf_def)
  have "busing (msg_array ?t ! msg_at j s) = (j < msg_count s)" if j: "j < 80" for j
    using at[OF j] wf k f len j by (cases "j = k") (simp_all add: ring_wf_def nth_list_update msg_at_less)
  then show "ring_wf ?t" using wf by (simp add: ring_wf_def c)
  show "msgs ?t = (msgs s)[k := msg_of (f (msg_array s ! msg_at k s))]"
  proof (rule nth_equalityI)
    fix j
    assume "j < length (msgs ?t)"
    then have j: "j < msg_count s" "j < 80" using msg_count_less[of s] by (simp_all add: c)
    then show "msgs ?t ! j = (msgs s)[k := msg_of (f (msg_array s ! msg_at k s))] ! j"
      using at[OF j(2)] len k by (auto simp: msgs_def c nth_list_update msg_at_less)
  qed (simp add: c)
qed

lemma msgs_nth_at: "k < msg_count s \<Longrightarrow> msgs s ! k = msg_of (msg_array s ! msg_at k s)"
  by (simp add: msgs_def)

lemma busing_at: "ring_wf s \<Longrightarrow> k < msg_count s \<Longrightarrow> busing (msg_array s ! msg_at k s)"
  using msg_count_less[of s] by (auto simp: ring_wf_def)

lemma msg_func_at:
  assumes "ring_wf s" and "k < msg_count s"
  shows "ring_wf (msg_func (msg_at k s) f s)" and "msgs (msg_func (msg_at k s) f s) = (msgs s)[k := (Some f, snd (msgs s ! k))]"
  using ring_write[OF assms, of "\<lambda>m. m\<lparr>ms_func := Some f\<rparr>"] busing_at[OF assms] assms
  by (simp_all add: msg_func_def msgs_nth_at msg_of_def)

lemma msg_param_at:
  assumes "ring_wf s" and "k < msg_count s"
  shows "ring_wf (msg_param (msg_at k s) p s)" and "msgs (msg_param (msg_at k s) p s) = (msgs s)[k := (fst (msgs s ! k), p)]"
  using ring_write[OF assms, of "\<lambda>m. m\<lparr>ms_param := p\<rparr>"] busing_at[OF assms] assms
  by (simp_all add: msg_param_def msgs_nth_at msg_of_def)

lemma msg_parts_nread [simp]: "nread (msg_func i f s) = nread s" "nread (msg_param i p s) = nread s" "nread (ring_reserved s) = nread s"
  by (simp_all add: msg_func_def msg_param_def ring_reserved_def)

section \<open>Trees of additions\<close>

text \<open>The ring after additions of \<open>ms\<close>, seen from the ring before.\<close>

definition added :: "(ck_func \<times> ck_param) list \<Rightarrow> 'a msg_st_scheme \<Rightarrow> 'a msg_st_scheme \<Rightarrow> bool" where
  "added ms s t \<longleftrightarrow> ring_wf t \<and> nread t = nread s \<and> msgs t = msgs s @ map (\<lambda>(f, p). (Some f, p)) ms"

lemma added_count: "added ms s t \<Longrightarrow> msg_count t = msg_count s + length ms"
  by (metis added_def length_append length_map length_msgs)

lemma added_at: "added ms s t \<Longrightarrow> msg_at k t = msg_at k s"
  by (simp add: added_def msg_at_def)

text \<open>The statements after the reservation: whatever is added between them, the slot keeps its place.\<close>

lemma rest_added:
  assumes wf: "ring_wf s" and room: "msg_count s < 79"
    and a: "added as (ring_reserved s) a" and b: "added bs a b" and c: "added cs (b\<lparr>nmin := v\<rparr>) c"
    and d: "added ds (msg_func (unat (nwrite s)) f c) d"
  shows "added ((f, p) # as @ bs @ cs @ ds) s (msg_param (unat (nwrite s)) p d)"
proof -
  let ?k = "msg_count s" and ?m = "map (\<lambda>(f :: ck_func, p :: ck_param). (Some f, p))"
  have cnt: "?k < msg_count c" and wfc: "ring_wf c" and rd: "nread c = nread s"
    using added_count[OF a] added_count[OF b] added_count[OF c] a b c ring_reserved_count[OF wf room]
    by (simp_all add: added_def)
  have ic: "unat (nwrite s) = msg_at ?k c" using msg_at_count[OF wf] rd by (simp add: msg_at_def)
  have mc: "msgs c = msgs s @ [msg_of (msg_array s ! unat (nwrite s))] @ ?m (as @ bs @ cs)"
    using a b c msgs_reserved[OF wf room] by (simp add: added_def)
  note fn = msg_func_at[OF wfc cnt, of f, folded ic]
  have md: "msgs d = msgs s @ [(Some f, snd (msgs c ! ?k))] @ ?m (as @ bs @ cs @ ds)"
    using d fn(2) mc by (simp add: added_def list_update_append nth_append)
  have wfd: "ring_wf d" and rdd: "nread d = nread s" using d rd by (simp_all add: added_def)
  have cd: "?k < msg_count d" using arg_cong[OF md, of length] by simp
  have "unat (nwrite s) = msg_at ?k d" using msg_at_count[OF wf] rdd by (simp add: msg_at_def)
  note pa = msg_param_at[OF wfd cd, of p, folded this]
  show ?thesis using pa md rdd by (simp add: added_def list_update_append nth_append)
qed

lemma run_add_added:
  "ring_wf s \<Longrightarrow> msg_count s + length (reserved_order x) \<le> 79 \<Longrightarrow>
     fst (run_add x s) \<and> added (reserved_order x) s (snd (run_add x s))"
  "ring_wf s \<Longrightarrow> msg_count s + length (reserved_orders xs) \<le> 79 \<Longrightarrow> added (reserved_orders xs) s (run_adds xs s)"
proof (induction x and xs arbitrary: s and s rule: run_add.induct[case_names Add Nil Cons] run_adds.induct[case_names Add Nil Cons])
  case (Add f p gap as bs cs ds)
  have len: "msg_count s + length (reserved_orders gap) < 79" "msg_count s < 79" using Add.prems(2) by simp_all
  let ?g = "run_adds gap s"
  have g: "added (reserved_orders gap) s ?g" using Add.IH(1)[OF Add.prems(1)] len by simp
  have wfg: "ring_wf ?g" and cg: "msg_count ?g < 79"
    using g len added_count[OF g] by (simp_all add: added_def)
  let ?r = "ring_reserved ?g"
  have cr: "msg_count ?r = msg_count s + length (reserved_orders gap) + 1"
    using ring_reserved_count[OF wfg cg] added_count[OF g] by simp
  let ?a = "run_adds as ?r"
  have a: "added (reserved_orders as) ?r ?a" using Add.IH(2)[OF ring_reserved_wf[OF wfg cg]] cr Add.prems(2) by simp
  let ?b = "run_adds bs ?a"
  have b: "added (reserved_orders bs) ?a ?b"
    using Add.IH(3)[of ?a] a cr added_count[OF a] Add.prems(2) by (simp add: added_def)
  define v where "v = (if nmin ?a > msg_remaining ?a then msg_remaining ?b else nmin ?b)"
  have vb: "(if nmin ?a > msg_remaining ?a then ?b\<lparr>nmin := msg_remaining ?b\<rparr> else ?b) = ?b\<lparr>nmin := v\<rparr>"
    by (simp add: v_def)
  let ?c = "run_adds cs (?b\<lparr>nmin := v\<rparr>)"
  have c: "added (reserved_orders cs) (?b\<lparr>nmin := v\<rparr>) ?c"
    using Add.IH(4)[of "?b\<lparr>nmin := v\<rparr>"] b cr added_count[OF a] added_count[OF b] Add.prems(2) by (simp add: added_def)
  let ?i = "unat (nwrite ?g)"
  have cc: "msg_count ?c = msg_count ?r + length (reserved_orders as) + length (reserved_orders bs) + length (reserved_orders cs)"
    using added_count[OF a] added_count[OF b] added_count[OF c] by simp
  have "?i = msg_at (msg_count ?g) ?c"
    using msg_at_count[OF wfg] added_at[OF a] added_at[OF b] added_at[OF c] by (simp add: msg_at_def)
  moreover have "msg_count ?g < msg_count ?c" using cc ring_reserved_count[OF wfg cg] by simp
  ultimately have f: "ring_wf (msg_func ?i f ?c)" "msg_count (msg_func ?i f ?c) = msg_count ?c"
    using msg_func_at[of ?c "msg_count ?g" f] c by (simp_all add: added_def flip: length_msgs)
  let ?d = "run_adds ds (msg_func ?i f ?c)"
  have d: "added (reserved_orders ds) (msg_func ?i f ?c) ?d"
    using Add.IH(5)[OF f(1)] f(2) cc cr Add.prems(2) by simp
  have nf: "\<not> ismsg_full s" using ismsg_full_iff[OF Add.prems(1)] len by simp
  have run: "run_add (Adding f p gap as bs cs ds) s = (True, msg_param ?i p ?d)"
    using nf vb by (simp add: msg_reserve_eq Let_def)
  show ?case
    using rest_added[OF wfg cg a b c d, of p] g unfolding run by (simp add: added_def)
next
  case Nil
  then show ?case by (simp add: added_def)
next
  case (Cons x xs)
  have x: "added (reserved_order x) s (snd (run_add x s))" using Cons by simp
  then have "added (reserved_orders xs) (snd (run_add x s)) (run_adds xs (snd (run_add x s)))"
    using Cons added_count[OF x] by (simp add: added_def)
  then show ?case using x by (simp add: added_def)
qed

text \<open>
  In the gap the other additions are not seen: when they fill the ring, the reservation makes it look empty.
\<close>

lemma reserved_full: "ring_wf s \<Longrightarrow> msg_count s = 79 \<Longrightarrow> nwrite (ring_reserved s) = nread s"
  using ismsg_full_iff[of s] by (simp add: ring_reserved_def ismsg_full_def)

lemma gap_overrun:
  assumes wf: "ring_wf s" and room: "msg_count s < 79" and full: "msg_count s + length (reserved_orders gap) = 79"
  shows "fst (run_add (Adding f p gap [] [] [] []) s)"
    and "nwrite (snd (run_add (Adding f p gap [] [] [] []) s)) = nread (snd (run_add (Adding f p gap [] [] [] []) s))"
proof -
  have g: "added (reserved_orders gap) s (run_adds gap s)" using run_add_added(2)[OF wf] full by simp
  have "nwrite (ring_reserved (run_adds gap s)) = nread (run_adds gap s)"
    using reserved_full[of "run_adds gap s"] added_count[OF g] g full by (simp add: added_def)
  moreover have "\<not> ismsg_full s" using ismsg_full_iff[OF wf] room by simp
  ultimately show "fst (run_add (Adding f p gap [] [] [] []) s)"
    "nwrite (snd (run_add (Adding f p gap [] [] [] []) s)) = nread (snd (run_add (Adding f p gap [] [] [] []) s))"
    by (simp_all add: msg_reserve_eq Let_def msg_func_def msg_param_def)
qed

lemma empty_when_equal:
  assumes "nwrite s = nread s"
  shows "queued s = []" and "hm_msg_queue_main run s = Ok s"
  using assms by (simp_all add: queued_def msgs_def msg_count_def hm_msg_queue_main_def msg_get_read_def ismsg_empty_def)

section \<open>What interrupted additions promise\<close>

text \<open>
  C21.  Additions that interrupt each other, at any statement outside the mask and nested as deep as one likes:
  while the ring has room for all of them, every message is kept, with its own function and parameter, in the
  order in which the slots were reserved (the low mark \<open>nmin\<close> of the room may come out wrong).  But the ring
  must have that room: the test for a full ring comes before the interrupts are masked, and when the additions
  that come in between fill the ring, the interrupted one reserves the slot that must stay free.  It reports success, the ring reads as empty, and the main loop
  serves none of the 80 messages.
\<close>

theorem msg_add_interrupted:
  assumes "msg_wf s"
  shows "(length (queued s) + length (reserved_order x) \<le> 79 \<longrightarrow>
      (case run_add x s of (ok, t) \<Rightarrow>
         ok \<and> ring_wf t \<and> queued t = queued s @ reserved_order x \<and> (\<forall>m \<in> set (msgs t). fst m \<noteq> None))) \<and>
    (length (queued s) < 79 \<and> length (queued s) + length (reserved_orders gap) = 79 \<longrightarrow>
      (case run_add (Adding f p gap [] [] [] []) s of (ok, t) \<Rightarrow>
         ok \<and> queued t = [] \<and> hm_msg_queue_main run t = Ok t))"
proof -
  note ring = msg_wf_ring[OF assms]
  have "fst (run_add x s) \<and> ring_wf (snd (run_add x s)) \<and> queued (snd (run_add x s)) = queued s @ reserved_order x \<and>
      (\<forall>m \<in> set (msgs (snd (run_add x s))). fst m \<noteq> None)" if "msg_count s + length (reserved_order x) \<le> 79"
    using run_add_added(1)[OF ring that] assms by (auto simp: added_def queued_def msg_wf_def case_prod_beta o_def)
  then show ?thesis
    using gap_overrun[OF ring, where gap = gap and f = f and p = p] empty_when_equal[of "snd (run_add (Adding f p gap [] [] [] []) s)"]
    by (simp add: split_beta)
qed

text \<open>Two messages and a tree of five additions; 78 messages and one addition in the gap of another.\<close>

definition five_adds :: adding where
  "five_adds = Adding CK_hm_cmd_msg_ck (CmdItem 1) [Adding CK_led_ck NoParam [] [] [] [] []]
     [Adding CK_netwk_ck NoParam [] [] [] [] [Adding CK_hm_iwdg_feed NoParam [] [] [] [] []]] [] []
     [Adding CK_hm_cmd_msg_ck (CmdItem 2) [] [] [] [] []]"

definition msg_78 :: msg_st where
  "msg_78 = fold (\<lambda>m s. snd (msg_put m s)) (replicate 78 (CK_netwk_ck, NoParam)) (hm_msg_queue_init msg_power_up)"

lemma msg_78_queue: "msg_wf msg_78 \<and> queued msg_78 = replicate 78 (CK_netwk_ck, NoParam)"
  using msg_ring.put_all[of "hm_msg_queue_init msg_power_up" "replicate 78 (CK_netwk_ck, NoParam)"]
    msg_init_wf[OF length_msg_power_up] by (simp add: msg_78_def)

lemma msg_add_interrupted_witness:
  "queued (snd (run_add five_adds msg_two)) = queued msg_two @ [(CK_led_ck, NoParam), (CK_hm_cmd_msg_ck, CmdItem 1),
     (CK_netwk_ck, NoParam), (CK_hm_iwdg_feed, NoParam), (CK_hm_cmd_msg_ck, CmdItem 2)] \<and>
   queued (snd (run_add (Adding CK_led_ck NoParam [Adding CK_hm_iwdg_feed NoParam [] [] [] [] []] [] [] [] []) msg_78)) = []"
proof -
  have five: "reserved_order five_adds = [(CK_led_ck, NoParam), (CK_hm_cmd_msg_ck, CmdItem 1),
      (CK_netwk_ck, NoParam), (CK_hm_iwdg_feed, NoParam), (CK_hm_cmd_msg_ck, CmdItem 2)]" by (simp add: five_adds_def)
  have "length (queued msg_two) = 2" "length (queued msg_78) = 78" using msg_two_queue msg_78_queue by simp_all
  then show ?thesis
    using msg_add_interrupted[where s = msg_two and x = five_adds] five msg_two_queue
      msg_add_interrupted[where s = msg_78 and gap = "[Adding CK_hm_iwdg_feed NoParam [] [] [] [] []]" and f = CK_led_ck and p = NoParam]
      msg_78_queue by (simp add: split_beta del: run_add.simps length_queued)
qed

end
