(* ===== verification/Board_Io.thy ===== *)
theory Board_Io
  imports Msg_Queue
begin

text \<open>
  The user inputs and outputs of the board, \<^verbatim>\<open>hm_gpio.c\<close>, and its network address,
  \<^verbatim>\<open>hm_address.c\<close>.

  The tables \<open>s_gpio_in\<close>, \<open>s_gpio_out\<close> and \<open>s_addrs\<close> are filled with constants before their first
  use, so they are constants here.  The line \<^verbatim>\<open>HM_NET_PRINT\<close> of \<open>hm_gpio_in_bit\<close> only writes a
  debug message and is left out.
\<close>

section \<open>User inputs and outputs\<close>

definition HM_MAX_GPIO_OUT :: nat where
  "HM_MAX_GPIO_OUT = 12"

definition HM_MAX_GPIO_IN :: nat where
  "HM_MAX_GPIO_IN = 8"

record hm_gpio_info =
  io_port :: gpio_port
  io_pin :: u16

definition io_at :: "gpio_port \<Rightarrow> nat \<Rightarrow> hm_gpio_info" where
  "io_at p n = \<lparr>io_port = p, io_pin = GPIO_Pin_no n\<rparr>"

definition s_gpio_in :: "hm_gpio_info list" where
  "s_gpio_in =
     [io_at GPIOC 5, io_at GPIOC 9, io_at GPIOC 12, io_at GPIOD 11, io_at GPIOD 12, io_at GPIOD 13,
      io_at GPIOD 14, io_at GPIOD 15]"

definition s_gpio_out :: "hm_gpio_info list" where
  "s_gpio_out =
     [io_at GPIOE 0, io_at GPIOE 1, io_at GPIOE 2, io_at GPIOE 3, io_at GPIOE 4, io_at GPIOE 5,
      io_at GPIOE 6, io_at GPIOE 7, io_at GPIOE 8, io_at GPIOE 13, io_at GPIOE 14, io_at GPIOE 15]"

text \<open>The result of \<open>hm_gpio_hw_config\<close>: the tables have the sizes the loops count on.\<close>

definition hm_gpio_hw_config :: bool where
  "hm_gpio_hw_config \<longleftrightarrow> length s_gpio_in = HM_MAX_GPIO_IN \<and> length s_gpio_out = HM_MAX_GPIO_OUT"

definition gpio_out_init_one :: "hm_gpio_info \<Rightarrow> 'a hw_st_scheme \<Rightarrow> 'a hw_st_scheme" where
  "gpio_out_init_one g s =
     GPIO_ResetBits (io_port g) (io_pin g)
       (GPIO_Init (io_port g)
          \<lparr>GPIO_Pin = io_pin g, GPIO_Speed = GPIO_Speed_50MHz, GPIO_Mode = GPIO_Mode_Out_PP\<rparr> s)"

definition gpio_in_init_one :: "hm_gpio_info \<Rightarrow> 'a hw_st_scheme \<Rightarrow> 'a hw_st_scheme" where
  "gpio_in_init_one g s =
     GPIO_Init (io_port g)
       \<lparr>GPIO_Pin = io_pin g, GPIO_Speed = GPIO_Speed_50MHz, GPIO_Mode = GPIO_Mode_IPU\<rparr> s"

definition hm_gpio_init :: "'a hw_st_scheme \<Rightarrow> 'a hw_st_scheme" where
  "hm_gpio_init s = fold gpio_in_init_one s_gpio_in (fold gpio_out_init_one s_gpio_out s)"

definition hm_gpio_out_bit :: "u32 \<Rightarrow> u32 \<Rightarrow> 'a hw_st_scheme \<Rightarrow> bool \<times> 'a hw_st_scheme" where
  "hm_gpio_out_bit bitno val s =
     (if unat bitno \<ge> HM_MAX_GPIO_OUT then (False, s)
      else let g = s_gpio_out ! unat bitno in
           (True, if truth val then GPIO_SetBits (io_port g) (io_pin g) s
                  else GPIO_ResetBits (io_port g) (io_pin g) s))"

text \<open>The \<open>nloop\<close> reads after the first; the last one counts.\<close>

primrec in_bit_loop ::
  "nat \<Rightarrow> gpio_port \<Rightarrow> u16 \<Rightarrow> u8 \<Rightarrow> 'a hw_st_scheme \<Rightarrow> u8 \<times> 'a hw_st_scheme" where
  "in_bit_loop 0 p m nval2 s = (nval2, s)"
| "in_bit_loop (Suc n) p m nval2 s =
     (let (v, t) = GPIO_ReadInputDataBit p m s in in_bit_loop n p m v t)"

definition nloop :: nat where
  "nloop = 100"

definition hm_gpio_in_bit :: "u32 \<Rightarrow> 'a hw_st_scheme \<Rightarrow> u32 \<times> 'a hw_st_scheme" where
  "hm_gpio_in_bit bitno s =
     (if unat bitno \<ge> HM_MAX_GPIO_IN then (0xffff, s)
      else let g = s_gpio_in ! unat bitno;
               (nval1, s) = GPIO_ReadInputDataBit (io_port g) (io_pin g) s;
               (nval2, s) = in_bit_loop nloop (io_port g) (io_pin g) nval1 s
           in (ucast nval2, s))"

definition hm_gpio_get_out_bit :: "u32 \<Rightarrow> 'a hw_st_scheme \<Rightarrow> u32" where
  "hm_gpio_get_out_bit bitno s =
     (if unat bitno \<ge> HM_MAX_GPIO_OUT then 0xffff
      else ucast (GPIO_ReadOutputDataBit (io_port (s_gpio_out ! unat bitno))
             (io_pin (s_gpio_out ! unat bitno)) s))"

section \<open>The network address\<close>

definition cADDR_BITS :: nat where
  "cADDR_BITS = 3"

definition s_addrs :: "hm_gpio_info list" where
  "s_addrs = [io_at GPIOA 7, io_at GPIOA 11, io_at GPIOA 12]"

record addr_st = msg_st +
  s_ip_addr :: "u8 list"
  s_ip_macc :: "u8 list"

definition HM_IP_START :: "u8 list" where
  "HM_IP_START = [192, 168, 1, 200]"

definition MAC_START :: "u8 list" where
  "MAC_START = [31, 45, 13, 56, 24, 56]"

definition hm_addr_cfg :: bool where
  "hm_addr_cfg \<longleftrightarrow> length s_addrs = cADDR_BITS"

text \<open>\<open>tmp <<= idx; addr |= tmp\<close> for the bits in turn.\<close>

definition read_addr_bit :: "nat \<Rightarrow> u8 \<times> 'a hw_st_scheme \<Rightarrow> u8 \<times> 'a hw_st_scheme" where
  "read_addr_bit idx = (\<lambda>(addr, s).
     let (tmp, s) = GPIO_ReadInputDataBit (io_port (s_addrs ! idx)) (io_pin (s_addrs ! idx)) s
     in (addr OR push_bit idx tmp, s))"

definition hm_addr_init :: "'a addr_st_scheme \<Rightarrow> bool \<times> 'a addr_st_scheme" where
  "hm_addr_init s =
     (if \<not> hm_addr_cfg then (False, s)
      else let s = fold (\<lambda>idx s. gpio_in_init_one (s_addrs ! idx) s) [0..<cADDR_BITS] s;
               (addr, s) = fold read_addr_bit [0..<cADDR_BITS] (0, s)
           in (True, s\<lparr>s_ip_addr := (s_ip_addr s)[3 := s_ip_addr s ! 3 + addr],
                       s_ip_macc := (s_ip_macc s)[5 := s_ip_macc s ! 5 + addr]\<rparr>))"

definition hm_mac_addr :: "'a addr_st_scheme \<Rightarrow> u8 list" where
  "hm_mac_addr s = s_ip_macc s"

definition hm_ip_addr :: "'a addr_st_scheme \<Rightarrow> u8 list" where
  "hm_ip_addr s = s_ip_addr s"

section \<open>The pins of the tables\<close>

definition out_pins :: "(gpio_port \<times> nat) list" where
  "out_pins = map (Pair GPIOE) [0, 1, 2, 3, 4, 5, 6, 7, 8, 13, 14, 15]"

definition in_pins :: "(gpio_port \<times> nat) list" where
  "in_pins = map (Pair GPIOC) [5, 9, 12] @ map (Pair GPIOD) [11, 12, 13, 14, 15]"

lemma s_gpio_out_eq: "s_gpio_out = map (\<lambda>(p, n). io_at p n) out_pins"
  by (simp add: s_gpio_out_def out_pins_def)

lemma s_gpio_in_eq: "s_gpio_in = map (\<lambda>(p, n). io_at p n) in_pins"
  by (simp add: s_gpio_in_def in_pins_def)

lemma pins_distinct: "distinct (out_pins @ in_pins)"
  by (simp add: out_pins_def in_pins_def)

lemma pins_range: "(p, n) \<in> set (out_pins @ in_pins) \<Longrightarrow> n < 16"
  by (auto simp: out_pins_def in_pins_def)

lemma table_lengths [simp]:
  "length s_gpio_out = 12" "length s_gpio_in = 8" "length out_pins = 12" "length in_pins = 8"
  by (simp_all add: s_gpio_out_def s_gpio_in_def out_pins_def in_pins_def)

lemma hm_gpio_hw_config_ok: hm_gpio_hw_config
  by (simp add: hm_gpio_hw_config_def HM_MAX_GPIO_OUT_def HM_MAX_GPIO_IN_def)

lemma out_entry:
  assumes "i < 12"
  shows "s_gpio_out ! i = io_at (fst (out_pins ! i)) (snd (out_pins ! i))" and "snd (out_pins ! i) < 16"
proof -
  show "s_gpio_out ! i = io_at (fst (out_pins ! i)) (snd (out_pins ! i))"
    using assms by (simp add: s_gpio_out_eq case_prod_beta)
  have "out_pins ! i \<in> set (out_pins @ in_pins)" using assms by simp
  then show "snd (out_pins ! i) < 16" using pins_range by (metis prod.collapse)
qed

lemma out_pins_inj: "i < 12 \<Longrightarrow> j < 12 \<Longrightarrow> out_pins ! i = out_pins ! j \<longleftrightarrow> i = j"
  using pins_distinct by (simp add: nth_eq_iff_index_eq)

lemma io_at_sel [simp]: "io_port (io_at p n) = p" "io_pin (io_at p n) = GPIO_Pin_no n"
  by (simp_all add: io_at_def)

section \<open>Outputs\<close>

lemma hm_gpio_out_bit_pin:
  assumes "unat i < 12"
  shows "gpio_out_bit q k (snd (hm_gpio_out_bit i v s)) \<longleftrightarrow>
    (if (q, k) = out_pins ! unat i then truth v else gpio_out_bit q k s)"
  using assms out_entry[OF assms]
  by (auto simp: hm_gpio_out_bit_def HM_MAX_GPIO_OUT_def Let_def gpio_port_out.out_set
      gpio_port_out.out_reset prod_eq_iff)

lemma hm_gpio_get_out_bit_pin:
  "unat i < 12 \<Longrightarrow> hm_gpio_get_out_bit i s =
    of_truth (gpio_out_bit (fst (out_pins ! unat i)) (snd (out_pins ! unat i)) s)"
  using out_entry[of "unat i"]
  by (simp add: hm_gpio_get_out_bit_def HM_MAX_GPIO_OUT_def GPIO_ReadOutputDataBit_pin of_truth_def)

lemma out_bit_cells:
  "hm_gpio_get_out_bit j (snd (hm_gpio_out_bit i v s)) =
     (if unat j \<ge> 12 then 0xffff
      else if i = j then of_truth (truth v) else hm_gpio_get_out_bit j s) \<and>
   fst (hm_gpio_out_bit i v s) = (unat i < 12) \<and>
   (unat i < 12 \<or> snd (hm_gpio_out_bit i v s) = s)"
proof (cases "unat i < 12 \<and> unat j < 12")
  case True
  then have "out_pins ! unat j = out_pins ! unat i \<longleftrightarrow> i = j"
    using out_pins_inj[of "unat j" "unat i"] by (auto simp: word_unat_eq_iff)
  moreover have "fst (hm_gpio_out_bit i v s)"
    using True by (simp add: hm_gpio_out_bit_def HM_MAX_GPIO_OUT_def Let_def)
  ultimately show ?thesis
    using True by (simp add: hm_gpio_get_out_bit_pin hm_gpio_out_bit_pin prod_eq_iff)
next
  case False
  then show ?thesis
    by (auto simp: hm_gpio_get_out_bit_def hm_gpio_out_bit_def HM_MAX_GPIO_OUT_def Let_def)
qed

text \<open>
  The twelve output bits are independent cells: writing bit \<open>i\<close> makes it read back as the
  truth value written and leaves every other output bit as it was; a number outside the table is
  refused, changes nothing and reads as \<open>0xffff\<close>.
\<close>

theorem hm_gpio_out_bit_cells:
  "hm_gpio_get_out_bit j (snd (hm_gpio_out_bit i v s)) =
     (if unat j \<ge> 12 then 0xffff
      else if i = j then of_truth (truth v) else hm_gpio_get_out_bit j s) \<and>
   fst (hm_gpio_out_bit i v s) = (unat i < 12) \<and>
   (unat i < 12 \<or> snd (hm_gpio_out_bit i v s) = s)"
  by (rule out_bit_cells)

section \<open>Inputs\<close>

lemma in_bit_loop_last:
  "in_bit_loop (Suc n) p m v s =
   (if pin_level s (input_reads s + n) p AND m \<noteq> 0 then 1 else 0,
    s\<lparr>input_reads := input_reads s + Suc n\<rparr>)"
  by (induction n arbitrary: v s) (simp_all add: GPIO_ReadInputDataBit_def)

lemma in_bit_loop_100:
  "in_bit_loop 100 p m v s =
   (if pin_level s (input_reads s + 99) p AND m \<noteq> 0 then 1 else 0,
    s\<lparr>input_reads := input_reads s + 100\<rparr>)"
  using in_bit_loop_last[of 99 p m v s] by (simp add: numeral_eq_Suc)

text \<open>
  Reading an input bit takes 101 samples of the pin and answers with the last one; a number
  outside the table answers \<open>0xffff\<close> and reads nothing.  Nothing but the count of samples changes.
\<close>

theorem hm_gpio_in_bit_last_sample:
  "hm_gpio_in_bit i s =
    (if unat i \<ge> 8 then (0xffff, s)
     else (of_truth (pin_level s (input_reads s + 100) (io_port (s_gpio_in ! unat i)) AND
                       io_pin (s_gpio_in ! unat i) \<noteq> 0),
           s\<lparr>input_reads := input_reads s + 101\<rparr>))"
  by (simp add: hm_gpio_in_bit_def HM_MAX_GPIO_IN_def nloop_def in_bit_loop_100 Let_def
      GPIO_ReadInputDataBit_def of_truth_def add_ac split: prod.splits)

section \<open>Initialisation\<close>

lemma gpio_out_init_one_config:
  "n < 16 \<Longrightarrow> k < 16 \<Longrightarrow> pin_config q k (gpio_out_init_one (io_at p n) s) =
   (if (q, k) = (p, n) then 3 else pin_config q k s)"
  by (auto simp: gpio_out_init_one_def pin_config_Init gpio_init_mode_def)

lemma gpio_in_init_one_config:
  "n < 16 \<Longrightarrow> k < 16 \<Longrightarrow> pin_config q k (gpio_in_init_one (io_at p n) s) =
   (if (q, k) = (p, n) then 8 else pin_config q k s)"
  by (auto simp: gpio_in_init_one_def pin_config_Init gpio_init_mode_def)

lemma init_fold_config:
  assumes one: "\<And>p n s q k. n < 16 \<Longrightarrow> k < 16 \<Longrightarrow> pin_config q k (f (io_at p n) s) =
      (if (q, k) = (p, n) then c else pin_config q k s)"
    and "\<forall>(p, n) \<in> set ps. n < 16" and "k < 16"
  shows "pin_config q k (fold f (map (\<lambda>(p, n). io_at p n) ps) s) =
    (if (q, k) \<in> set ps then c else pin_config q k s)"
  using assms(2)
  by (induction ps arbitrary: s) (auto simp: one[OF _ assms(3)] split: prod.splits)

text \<open>
  \<open>hm_gpio_init\<close> makes every output pin of the table a push-pull output at 50 MHz, every input
  pin of the table an input with a pull-up, and leaves the configuration of every other pin alone.
\<close>

theorem hm_gpio_init_config:
  assumes "k < 16"
  shows "pin_config q k (hm_gpio_init s) =
    (if (q, k) \<in> set in_pins then 8 else if (q, k) \<in> set out_pins then 3 else pin_config q k s)"
proof -
  have "\<forall>(p, n) \<in> set out_pins. n < 16" "\<forall>(p, n) \<in> set in_pins. n < 16"
    using pins_range by fastforce+
  then show ?thesis
    using init_fold_config[OF gpio_out_init_one_config _ assms, of out_pins q s]
      init_fold_config[OF gpio_in_init_one_config _ assms, of in_pins q
        "fold gpio_out_init_one (map (\<lambda>(p, n). io_at p n) out_pins) s"]
    by (simp add: hm_gpio_init_def s_gpio_out_eq s_gpio_in_eq)
qed

lemma hm_gpio_init_config_witness:
  "pin_config GPIOE 13 (hm_gpio_init hw_reset) = 3 \<and> pin_config GPIOC 9 (hm_gpio_init hw_reset) = 8"
  using hm_gpio_init_config[of 13 GPIOE hw_reset] hm_gpio_init_config[of 9 GPIOC hw_reset]
  by (simp add: in_pins_def out_pins_def image_iff)

section \<open>Addresses\<close>

text \<open>The switch setting as the three samples of \<open>hm_addr_init\<close> show it.\<close>

definition addr_switch :: "'a hw_st_scheme \<Rightarrow> nat" where
  "addr_switch s =
     (let b = (\<lambda>k. if pin_level s (input_reads s + k) GPIOA AND io_pin (s_addrs ! k) \<noteq> 0 then 1 else 0)
      in b 0 + 2 * b 1 + 4 * b 2)"

lemma addr_switch_less: "addr_switch s < 8"
  by (simp add: addr_switch_def Let_def)

lemma gpio_in_init_one_frame [simp]:
  "pin_level (gpio_in_init_one g s) = pin_level s"
  "input_reads (gpio_in_init_one g s) = input_reads s"
  by (simp_all add: gpio_in_init_one_def GPIO_Init_def)

lemma gpio_in_init_one_addr_frame [simp]:
  "s_ip_addr (gpio_in_init_one g t) = s_ip_addr t" "s_ip_macc (gpio_in_init_one g t) = s_ip_macc t"
  by (simp_all add: gpio_in_init_one_def GPIO_Init_def)

lemma s_addrs_nth [simp]:
  "s_addrs ! 0 = io_at GPIOA 7" "s_addrs ! Suc 0 = io_at GPIOA 11" "s_addrs ! 2 = io_at GPIOA 12"
  by (simp_all add: s_addrs_def)

lemma upt_addr_bits: "[0..<cADDR_BITS] = [0, 1, 2]"
  by (simp add: cADDR_BITS_def upt_rec)

definition addr_sample :: "nat \<Rightarrow> 'a hw_st_scheme \<Rightarrow> bool" where
  "addr_sample k s \<longleftrightarrow> pin_level s (input_reads s + k) GPIOA AND io_pin (s_addrs ! k) \<noteq> 0"

lemma read_addr_bit_eq:
  "k < 3 \<Longrightarrow> input_reads t = input_reads s + k \<Longrightarrow> pin_level t = pin_level s \<Longrightarrow>
   read_addr_bit k (a, t) =
     (a OR push_bit k (of_truth (addr_sample k s)), t\<lparr>input_reads := Suc (input_reads t)\<rparr>)"
  by (auto simp: read_addr_bit_def GPIO_ReadInputDataBit_def addr_sample_def of_truth_def
      less_Suc_eq numeral_3_eq_3 s_addrs_def)

lemma addr_bits_value:
  "(((0 :: u8) OR push_bit 0 (of_truth b0)) OR push_bit 1 (of_truth b1)) OR push_bit 2 (of_truth b2) =
   word_of_nat ((if b0 then 1 else 0) + 2 * (if b1 then 1 else 0) + 4 * (if b2 then 1 else 0))"
  by (cases b0; cases b1; cases b2) (simp_all add: of_truth_def)

lemma read_addr_bits:
  "fold read_addr_bit [0..<cADDR_BITS] (0, s) =
   (word_of_nat (addr_switch s), s\<lparr>input_reads := input_reads s + 3\<rparr>)"
proof -
  have "fold read_addr_bit [0..<cADDR_BITS] (0, s) =
      ((((0 :: u8) OR push_bit 0 (of_truth (addr_sample 0 s))) OR
          push_bit 1 (of_truth (addr_sample 1 s))) OR push_bit 2 (of_truth (addr_sample 2 s)),
       s\<lparr>input_reads := input_reads s + 3\<rparr>)"
    by (simp add: upt_addr_bits read_addr_bit_eq[where s = s] del: One_nat_def)
  then show ?thesis
    unfolding addr_bits_value by (simp add: addr_switch_def addr_sample_def Let_def)
qed

lemma hm_addr_init_eq:
  "\<exists>t. hm_addr_init s = (True, t) \<and>
     s_ip_addr t = (s_ip_addr s)[3 := s_ip_addr s ! 3 + word_of_nat (addr_switch s)] \<and>
     s_ip_macc t = (s_ip_macc s)[5 := s_ip_macc s ! 5 + word_of_nat (addr_switch s)]"
proof -
  let ?t = "fold (\<lambda>idx s. gpio_in_init_one (s_addrs ! idx) s) [0..<cADDR_BITS] s"
  have "addr_switch ?t = addr_switch s" by (simp add: upt_addr_bits addr_switch_def)
  moreover have "s_ip_addr ?t = s_ip_addr s" "s_ip_macc ?t = s_ip_macc s"
    by (simp_all add: upt_addr_bits)
  moreover have hm_addr_cfg by (simp add: hm_addr_cfg_def s_addrs_def cADDR_BITS_def)
  ultimately show ?thesis by (simp add: hm_addr_init_def read_addr_bits Let_def)
qed

text \<open>
  Starting from the addresses the program is loaded with, the switch setting, a number below 8,
  is added to the last byte of the network address and of the hardware address without wrapping, so
  boards with different settings have different addresses.
\<close>

theorem hm_addr_init_distinct:
  assumes "s_ip_addr s = HM_IP_START" and "s_ip_macc s = MAC_START"
    and "s_ip_addr t = HM_IP_START" and "s_ip_macc t = MAC_START"
  shows "hm_ip_addr (snd (hm_addr_init s)) = [192, 168, 1, word_of_nat (200 + addr_switch s)] \<and>
    hm_mac_addr (snd (hm_addr_init s)) = [31, 45, 13, 56, 24, word_of_nat (56 + addr_switch s)] \<and>
    addr_switch s < 8 \<and>
    (hm_ip_addr (snd (hm_addr_init s)) = hm_ip_addr (snd (hm_addr_init t)) \<longleftrightarrow>
       addr_switch s = addr_switch t) \<and>
    (hm_mac_addr (snd (hm_addr_init s)) = hm_mac_addr (snd (hm_addr_init t)) \<longleftrightarrow>
       addr_switch s = addr_switch t)"
proof -
  have ip: "hm_ip_addr (snd (hm_addr_init u)) = [192, 168, 1, word_of_nat (200 + addr_switch u)]"
    if "s_ip_addr u = HM_IP_START" for u :: "'x addr_st_scheme"
    using hm_addr_init_eq[of u] that by (auto simp: hm_ip_addr_def HM_IP_START_def)
  have mac: "hm_mac_addr (snd (hm_addr_init u)) = [31, 45, 13, 56, 24, word_of_nat (56 + addr_switch u)]"
    if "s_ip_macc u = MAC_START" for u :: "'x addr_st_scheme"
    using hm_addr_init_eq[of u] that by (auto simp: hm_mac_addr_def MAC_START_def eval_nat_numeral)
  have inj: "(word_of_nat (c + i) :: u8) = word_of_nat (c + j) \<longleftrightarrow> i = j"
    if "c \<le> 200" "i < 8" "j < 8" for c i j
  proof -
    have "unat (word_of_nat (c + i) :: u8) = c + i" "unat (word_of_nat (c + j) :: u8) = c + j"
      using that by (simp_all add: unat_of_nat take_bit_nat_eq_self_iff del: of_nat_add)
    then show ?thesis by (metis add_left_cancel)
  qed
  show ?thesis
    using inj[of 200 "addr_switch s" "addr_switch t"] inj[of 56 "addr_switch s" "addr_switch t"]
      addr_switch_less[of s] addr_switch_less[of t]
    by (simp add: ip[OF assms(1)] ip[OF assms(3)] mac[OF assms(2)] mac[OF assms(4)])
qed

text \<open>The state at power up, with the switch setting \<open>b\<close> at the address pins.\<close>

definition addr_power_up :: "u16 \<Rightarrow> addr_st" where
  "addr_power_up b = msg_st.extend (msg_power_up\<lparr>pin_level := (\<lambda>n p. if p = GPIOA then b else 0)\<rparr>)
     (addr_st.fields HM_IP_START MAC_START)"

lemma hm_addr_init_distinct_witness:
  "hm_ip_addr (snd (hm_addr_init (addr_power_up 0x0880))) = [192, 168, 1, 203] \<and>
   hm_ip_addr (snd (hm_addr_init (addr_power_up 0x1000))) \<noteq> [192, 168, 1, 203]"
proof -
  have up: "s_ip_addr (addr_power_up b) = HM_IP_START" "s_ip_macc (addr_power_up b) = MAC_START" for b
    by (simp_all add: addr_power_up_def msg_st.defs addr_st.defs)
  have a: "addr_switch (addr_power_up 0x0880) = 3" and b: "addr_switch (addr_power_up 0x1000) = 4"
    by (simp_all add: addr_switch_def Let_def addr_power_up_def msg_st.defs GPIO_Pin_no_def)
  show ?thesis
    using hm_addr_init_distinct[OF up(1)[of "0x0880"] up(2)[of "0x0880"] up(1)[of "0x1000"] up(2)[of "0x1000"]]
    by (simp add: a b) metis
qed

end
