(* ===== verification/Sw_Timer.thy ===== *)
theory Sw_Timer
  imports Board_Io
begin

text \<open>
  The software timers, \<^verbatim>\<open>hm_timer.c\<close>: ten slots counted down by the SysTick interrupt, each with a
  callback that is called from the interrupt or put into the message queue.

  A handle is the index of the slot, \<open>None\<close> the null handle.  The call of a callback is the parameter
  \<open>run\<close>, as in \<open>Msg_Queue\<close>.  A fault of the callback ends the handler with that fault.
\<close>

section \<open>State and operations\<close>

definition HM_MAX_TIMER :: nat where
  "HM_MAX_TIMER = 10"

record hm_timer =
  tm_func :: "ck_func option"
  tm_param :: ck_param
  tm_period :: u32
  tm_ms :: u32
  tm_once :: bool
  tm_call_direct :: bool

record timer_st = addr_st +
  s_timers :: "hm_timer list"
  s_tim_count :: u32
  systick_load :: u32
  systick_on :: bool

definition upd_timer :: "nat \<Rightarrow> (hm_timer \<Rightarrow> hm_timer) \<Rightarrow> 'a timer_st_scheme \<Rightarrow> 'a timer_st_scheme" where
  "upd_timer i f s = s\<lparr>s_timers := (s_timers s)[i := f (s_timers s ! i)]\<rparr>"

text \<open>\<open>SystemCoreClock\<close> of \<^verbatim>\<open>system_stm32f10x.c\<close> and \<open>SysTick_Config\<close>, whose result 1 means failure.\<close>

definition SystemCoreClock :: u32 where
  "SystemCoreClock = 72000000"

definition SysTick_Config :: "u32 \<Rightarrow> 'a timer_st_scheme \<Rightarrow> u32 \<times> 'a timer_st_scheme" where
  "SysTick_Config ticks s =
     (if ticks > 0xFFFFFF then (1, s)
      else (0, s\<lparr>systick_load := (ticks AND 0xFFFFFF) - 1, systick_on := True\<rparr>))"

definition hm_timer_init :: "'a timer_st_scheme \<Rightarrow> 'a timer_st_scheme res" where
  "hm_timer_init s =
     (let s = fold (\<lambda>i. upd_timer i (\<lambda>t. t\<lparr>tm_func := None\<rparr>)) [0..<HM_MAX_TIMER] s;
          s = s\<lparr>s_tim_count := 0\<rparr>;
          (err, s) = SysTick_Config (SystemCoreClock div 1000) s
      in if truth err then Fault Hang else Ok s)"

text \<open>The search of \<open>hm_timer_register\<close>: \<open>None\<close> is the early return, otherwise the slot kept so far.\<close>

fun timer_find ::
  "hm_timer list \<Rightarrow> ck_func option \<Rightarrow> u32 \<Rightarrow> nat list \<Rightarrow> nat option \<Rightarrow> nat option option" where
  "timer_find ts f ms [] pret = Some pret"
| "timer_find ts f ms (i # is) pret =
     (let pret = (if tm_func (ts ! i) = None \<and> pret = None then Some i else pret)
      in if tm_func (ts ! i) = f \<and> tm_ms (ts ! i) = ms then None
         else timer_find ts f ms is pret)"

definition hm_timer_register ::
  "u32 \<Rightarrow> ck_func option \<Rightarrow> ck_param \<Rightarrow> bool \<Rightarrow> bool \<Rightarrow> 'a timer_st_scheme \<Rightarrow>
   nat option \<times> 'a timer_st_scheme" where
  "hm_timer_register ms f p once bcall_direct s =
     (case timer_find (s_timers s) f ms [0..<HM_MAX_TIMER] None of
        None \<Rightarrow> (None, s)
      | Some None \<Rightarrow> (None, s)
      | Some (Some i) \<Rightarrow>
          (Some i, upd_timer i (\<lambda>t. \<lparr>tm_func = f, tm_param = p, tm_period = ms, tm_ms = ms,
                                     tm_once = once, tm_call_direct = bcall_direct\<rparr>) s))"

definition hm_timer_unregister :: "nat option \<Rightarrow> 'a timer_st_scheme \<Rightarrow> 'a timer_st_scheme" where
  "hm_timer_unregister hand s =
     (case hand of None \<Rightarrow> s | Some i \<Rightarrow> upd_timer i (\<lambda>t. t\<lparr>tm_func := None\<rparr>) s)"

definition hm_tim_diff :: "u32 \<Rightarrow> u32 \<Rightarrow> u32" where
  "hm_tim_diff tm_earliar tm_later =
     (if tm_later \<ge> tm_earliar then tm_later - tm_earliar else (- 1 - tm_earliar) + tm_later)"

definition hm_get_cur_time :: "'a timer_st_scheme \<Rightarrow> u32" where
  "hm_get_cur_time s = s_tim_count s"

text \<open>The slot whose countdown reached zero: reload, call, and forget it if it was for once.\<close>

definition timer_fire ::
  "(ck_func \<Rightarrow> ck_param \<Rightarrow> 'a timer_st_scheme \<Rightarrow> 'a timer_st_scheme res) \<Rightarrow> nat \<Rightarrow> ck_func \<Rightarrow>
   'a timer_st_scheme \<Rightarrow> 'a timer_st_scheme res" where
  "timer_fire run i f s =
     (let s = upd_timer i (\<lambda>t. t\<lparr>tm_ms := tm_period t\<rparr>) s in
      bnd (if tm_call_direct (s_timers s ! i) then run f (tm_param (s_timers s ! i)) s
           else Ok (snd (hm_msg_queue_add (Some f) (tm_param (s_timers s ! i)) s)))
        (\<lambda>s. Ok (if tm_once (s_timers s ! i) then upd_timer i (\<lambda>t. t\<lparr>tm_func := None\<rparr>) s else s)))"

text \<open>The loop of the handler: it leaves the loop after the first slot that fires.\<close>

fun systick_loop ::
  "(ck_func \<Rightarrow> ck_param \<Rightarrow> 'a timer_st_scheme \<Rightarrow> 'a timer_st_scheme res) \<Rightarrow> nat list \<Rightarrow>
   'a timer_st_scheme \<Rightarrow> 'a timer_st_scheme res" where
  "systick_loop run [] s = Ok s"
| "systick_loop run (i # is) s =
     (case tm_func (s_timers s ! i) of
        None \<Rightarrow> systick_loop run is s
      | Some f \<Rightarrow>
          let s = upd_timer i (\<lambda>t. t\<lparr>tm_ms := tm_ms t - 1\<rparr>) s in
          if tm_ms (s_timers s ! i) = 0 then timer_fire run i f s
          else systick_loop run is s)"

definition SysTick_Handler ::
  "(ck_func \<Rightarrow> ck_param \<Rightarrow> 'a timer_st_scheme \<Rightarrow> 'a timer_st_scheme res) \<Rightarrow>
   'a timer_st_scheme \<Rightarrow> 'a timer_st_scheme res" where
  "SysTick_Handler run s =
     systick_loop run [0..<HM_MAX_TIMER] (s\<lparr>s_tim_count := s_tim_count s + 1\<rparr>)"

text \<open>
  The two waiting loops of \<open>hm_delay\<close> read the counter again and again.  \<open>obs k\<close> is the value the
  \<open>k\<close>-th read sees; the result is the number of reads made, \<open>None\<close> when the fuel is used up.
\<close>

fun spin_while :: "nat \<Rightarrow> (u32 \<Rightarrow> bool) \<Rightarrow> (nat \<Rightarrow> u32) \<Rightarrow> nat \<Rightarrow> nat option" where
  "spin_while 0 b obs k = None"
| "spin_while (Suc n) b obs k = (if b (obs k) then spin_while n b obs (Suc k) else Some (Suc k))"

definition hm_delay :: "nat \<Rightarrow> (nat \<Rightarrow> u32) \<Rightarrow> u32 \<Rightarrow> nat option" where
  "hm_delay fuel obs ms =
     (let despire = obs 0 + ms in
      case spin_while fuel (\<lambda>c. c > despire) obs 1 of
        None \<Rightarrow> None
      | Some k \<Rightarrow> spin_while fuel (\<lambda>c. c \<le> despire) obs k)"

section \<open>One tick\<close>

definition due :: "hm_timer \<Rightarrow> bool" where
  "due t \<longleftrightarrow> tm_func t \<noteq> None \<and> tm_ms t = 1"

definition dec_active :: "hm_timer \<Rightarrow> hm_timer" where
  "dec_active t = (if tm_func t = None then t else t\<lparr>tm_ms := tm_ms t - 1\<rparr>)"

text \<open>The table after the loop went over the slots below \<open>j\<close>.\<close>

definition dec_below :: "nat \<Rightarrow> hm_timer list \<Rightarrow> hm_timer list" where
  "dec_below j ts = map dec_active (take j ts) @ drop j ts"

lemma length_dec_below [simp]: "length (dec_below j ts) = length ts"
  by (simp add: dec_below_def)

lemma dec_below_0 [simp]: "dec_below 0 ts = ts"
  by (simp add: dec_below_def)

lemma nth_dec_below:
  "i < length ts \<Longrightarrow> dec_below j ts ! i = (if i < j then dec_active (ts ! i) else ts ! i)"
  by (auto simp: dec_below_def nth_append min_def)

lemma dec_below_Suc:
  "j < length ts \<Longrightarrow> dec_below (Suc j) ts = (dec_below j ts)[j := dec_active (ts ! j)]"
  by (rule nth_equalityI) (auto simp: nth_dec_below nth_list_update less_Suc_eq)

lemma dec_below_all: "length ts \<le> j \<Longrightarrow> dec_below j ts = map dec_active ts"
  by (simp add: dec_below_def)

lemma word_minus_1_eq_0: "(w :: u32) - 1 = 0 \<longleftrightarrow> w = 1"
  by (metis diff_self right_minus_eq)

lemma systick_loop_skip:
  assumes "j \<le> length (s_timers s)" and "\<forall>i < j. \<not> due (s_timers s ! i)"
  shows "systick_loop run ([0..<j] @ is) s =
    systick_loop run is (s\<lparr>s_timers := dec_below j (s_timers s)\<rparr>)"
  using assms
proof (induction j arbitrary: "is")
  case 0
  then show ?case by simp
next
  case (Suc j)
  let ?t = "s\<lparr>s_timers := dec_below j (s_timers s)\<rparr>"
  have "systick_loop run ([0..<Suc j] @ is) s = systick_loop run (j # is) ?t"
    using Suc.IH[of "j # is"] Suc.prems by simp
  also have "\<dots> = systick_loop run is (s\<lparr>s_timers := dec_below (Suc j) (s_timers s)\<rparr>)"
  proof (cases "tm_func (s_timers s ! j)")
    case None
    have "dec_below (Suc j) (s_timers s) = dec_below j (s_timers s)"
      using Suc.prems(1) None by (simp add: dec_below_Suc dec_active_def list_update_same_conv nth_dec_below)
    with None Suc.prems(1) show ?thesis by (simp add: nth_dec_below)
  next
    case (Some f)
    with Suc.prems(2) have "tm_ms (s_timers s ! j) \<noteq> 1" by (auto simp: due_def)
    with Some Suc.prems(1) show ?thesis
      by (simp add: nth_dec_below upd_timer_def Let_def word_minus_1_eq_0 dec_below_Suc dec_active_def)
  qed
  finally show ?case .
qed

lemma upt_10_split: "j < 10 \<Longrightarrow> [0..<10] = [0..<j] @ j # [Suc j..<10]"
  using upt_add_eq_append[of 0 j "10 - j"] by (simp add: upt_conv_Cons[symmetric])

lemma tick_none:
  assumes "length (s_timers s) = 10" and "\<forall>i < 10. \<not> due (s_timers s ! i)"
  shows "SysTick_Handler run s =
    Ok (s\<lparr>s_tim_count := s_tim_count s + 1, s_timers := map dec_active (s_timers s)\<rparr>)"
proof -
  let ?s = "s\<lparr>s_tim_count := s_tim_count s + 1\<rparr>"
  have "\<forall>i < 10. \<not> due (s_timers ?s ! i)" using assms(2) by simp
  from systick_loop_skip[of 10 ?s run "[]", OF _ this] show ?thesis
    using assms(1) by (simp add: SysTick_Handler_def HM_MAX_TIMER_def dec_below_all)
qed

lemma tick_due:
  assumes "length (s_timers s) = 10" and "\<forall>i < j. \<not> due (s_timers s ! i)" and "j < 10"
    and "tm_func (s_timers s ! j) = Some f" and "tm_ms (s_timers s ! j) = 1"
  shows "SysTick_Handler run s = timer_fire run j f
    (s\<lparr>s_tim_count := s_tim_count s + 1,
       s_timers := (dec_below j (s_timers s))[j := (s_timers s ! j)\<lparr>tm_ms := 0\<rparr>]\<rparr>)"
proof -
  let ?s = "s\<lparr>s_tim_count := s_tim_count s + 1\<rparr>"
  have before: "\<forall>i < j. \<not> due (s_timers ?s ! i)" using assms(2) by simp
  have "SysTick_Handler run s = systick_loop run (j # [Suc j..<10])
      (?s\<lparr>s_timers := dec_below j (s_timers s)\<rparr>)"
    using systick_loop_skip[of j ?s run "j # [Suc j..<10]", OF _ before] assms(1,3)
    by (simp add: SysTick_Handler_def HM_MAX_TIMER_def upt_10_split[OF assms(3)])
  with assms show ?thesis by (simp add: nth_dec_below upd_timer_def Let_def)
qed

text \<open>
  C36.  One SysTick interrupt on a table of ten slots.  If no running timer is in its last
  millisecond, every running timer counts down by one.  Otherwise the first such timer fires: the
  timers in front of it have counted down, those behind it have not, they lose this tick.
\<close>

theorem SysTick_Handler_tick:
  assumes "length (s_timers s) = 10"
  shows "SysTick_Handler run s =
    (case find (\<lambda>i. due (s_timers s ! i)) [0..<10] of
       None \<Rightarrow> Ok (s\<lparr>s_tim_count := s_tim_count s + 1, s_timers := map dec_active (s_timers s)\<rparr>)
     | Some j \<Rightarrow>
         timer_fire run j (the (tm_func (s_timers s ! j)))
           (s\<lparr>s_tim_count := s_tim_count s + 1,
              s_timers := (dec_below j (s_timers s))[j := (s_timers s ! j)\<lparr>tm_ms := 0\<rparr>]\<rparr>))"
proof (cases "find (\<lambda>i. due (s_timers s ! i)) [0..<10]")
  case None
  then have "\<forall>i < 10. \<not> due (s_timers s ! i)" by (auto simp: find_None_iff)
  then show ?thesis by (simp add: None tick_none[OF assms])
next
  case (Some j)
  then have "j < 10" "due (s_timers s ! j)" "\<forall>i < j. \<not> due (s_timers s ! i)"
    by (auto simp: find_Some_iff)
  then show ?thesis using Some tick_due[OF assms] by (auto simp: due_def)
qed

section \<open>The period of a timer\<close>

primrec run_ticks ::
  "(ck_func \<Rightarrow> ck_param \<Rightarrow> 'a timer_st_scheme \<Rightarrow> 'a timer_st_scheme res) \<Rightarrow> nat \<Rightarrow>
   'a timer_st_scheme \<Rightarrow> 'a timer_st_scheme res" where
  "run_ticks run 0 s = Ok s"
| "run_ticks run (Suc n) s = bnd (run_ticks run n s) (SysTick_Handler run)"

lemma s_timers_add [simp]: "s_timers (snd (hm_msg_queue_add f p s)) = s_timers s"
  by (auto simp: hm_msg_queue_add_def msg_get_move_next_write_def msg_fill_def hm_led_act_def
      GPIO_SetBits_def GPIO_ResetBits_def disable_irq_def enable_irq_def Let_def
      split: option.splits prod.splits)

definition fired_slot :: "hm_timer \<Rightarrow> hm_timer" where
  "fired_slot t =
     (if tm_once t then t\<lparr>tm_ms := tm_period t, tm_func := None\<rparr> else t\<lparr>tm_ms := tm_period t\<rparr>)"

text \<open>Callbacks that return and leave the table of timers alone.\<close>

definition table_safe ::
  "(ck_func \<Rightarrow> ck_param \<Rightarrow> 'a timer_st_scheme \<Rightarrow> 'a timer_st_scheme res) \<Rightarrow> bool" where
  "table_safe run \<longleftrightarrow> (\<forall>f p s. \<exists>t. run f p s = Ok t \<and> s_timers t = s_timers s)"

lemma timer_fire_slots:
  assumes "table_safe run" and "i < length (s_timers s)"
  shows "\<exists>t. timer_fire run i f s = Ok t \<and> s_timers t = (s_timers s)[i := fired_slot (s_timers s ! i)]"
proof -
  let ?s = "upd_timer i (\<lambda>t. t\<lparr>tm_ms := tm_period t\<rparr>) s"
  obtain t where t: "run f (tm_param (s_timers ?s ! i)) ?s = Ok t" "s_timers t = s_timers ?s"
    using assms(1) unfolding table_safe_def by blast
  show ?thesis
    using assms(2) t by (auto simp: timer_fire_def Let_def fired_slot_def upd_timer_def)
qed

text \<open>A repeating timer of period \<open>p\<close> in slot 0, \<open>n\<close> ticks after it was started.\<close>

definition in_phase :: "u32 \<Rightarrow> nat \<Rightarrow> 'a timer_st_scheme \<Rightarrow> bool" where
  "in_phase p n s \<longleftrightarrow>
     length (s_timers s) = 10 \<and> tm_func (s_timers s ! 0) \<noteq> None \<and> tm_period (s_timers s ! 0) = p \<and>
     \<not> tm_once (s_timers s ! 0) \<and> unat (tm_ms (s_timers s ! 0)) = unat p - n mod unat p"

lemma due_in_phase: "in_phase p n s \<Longrightarrow> p \<noteq> 0 \<Longrightarrow> due (s_timers s ! 0) \<longleftrightarrow> Suc n mod unat p = 0"
proof -
  assume ph: "in_phase p n s" and "p \<noteq> 0"
  then have "unat p > 0" by (simp add: unat_gt_0)
  then have "unat p - n mod unat p = 1 \<longleftrightarrow> Suc n mod unat p = 0"
    using mod_less_divisor[of "unat p" n] by (auto simp: mod_Suc)
  with ph show ?thesis by (simp add: in_phase_def due_def word_unat_eq_iff)
qed

lemma in_phase_tick:
  assumes run: "table_safe run"
    and ph: "in_phase p n s" and p: "p \<noteq> 0"
  shows "\<exists>t. SysTick_Handler run s = Ok t \<and> in_phase p (Suc n) t"
proof (cases "due (s_timers s ! 0)")
  case True
  then obtain f where "tm_func (s_timers s ! 0) = Some f" "tm_ms (s_timers s ! 0) = 1"
    by (auto simp: due_def)
  with ph True due_in_phase[OF ph p] show ?thesis
    using timer_fire_slots[OF run, where i = 0 and f = f and s = "s\<lparr>s_tim_count := s_tim_count s + 1,
        s_timers := (s_timers s)[0 := (s_timers s ! 0)\<lparr>tm_ms := 0\<rparr>]\<rparr>"] tick_due[of s 0 f run]
    by (auto simp: in_phase_def fired_slot_def)
next
  case False
  have ms: "unat (tm_ms (s_timers s ! 0) - 1) = unat p - Suc n mod unat p"
  proof -
    have "0 < unat p" using p by (simp add: unat_gt_0)
    then have "n mod unat p < unat p" by simp
    then have "tm_ms (s_timers s ! 0) \<noteq> 0" using ph by (auto simp: in_phase_def unat_eq_0)
    then have "unat (tm_ms (s_timers s ! 0) - 1) = unat p - n mod unat p - 1"
      using ph by (simp add: unat_minus_one in_phase_def)
    with False due_in_phase[OF ph p] show ?thesis by (simp add: mod_Suc split: if_splits)
  qed
  show ?thesis
  proof (cases "\<forall>i < 10. \<not> due (s_timers s ! i)")
    case True
    with ph ms show ?thesis using tick_none[of s run] by (auto simp: in_phase_def dec_active_def)
  next
    case False
    define j where "j = (LEAST i. due (s_timers s ! i))"
    have j: "due (s_timers s ! j)" "\<forall>i < j. \<not> due (s_timers s ! i)" "j < 10"
      using False by (auto simp: j_def intro: LeastI dest: not_less_Least)
        (meson Least_le le_less_trans)
    with \<open>\<not> due (s_timers s ! 0)\<close> have j0: "0 < j" by (cases j) auto
    obtain f where f: "tm_func (s_timers s ! j) = Some f" "tm_ms (s_timers s ! j) = 1"
      using j(1) by (auto simp: due_def)
    have len: "length (s_timers s) = 10" using ph by (simp add: in_phase_def)
    obtain t where t: "SysTick_Handler run s = Ok t" "s_timers t ! 0 = dec_active (s_timers s ! 0)"
        "length (s_timers t) = 10"
      using timer_fire_slots[OF run, where i = j and f = f and s = "s\<lparr>s_tim_count := s_tim_count s + 1,
          s_timers := (dec_below j (s_timers s))[j := (s_timers s ! j)\<lparr>tm_ms := 0\<rparr>]\<rparr>"]
        tick_due[OF len j(2,3) f, of run] j(3) j0 len
      by (auto simp: nth_dec_below)
    with ph ms show ?thesis by (auto simp: in_phase_def dec_active_def)
  qed
qed

text \<open>
  A repeating timer in the first slot keeps exact time: whatever the other slots do, and
  provided the callbacks return and leave the table alone, it fires on the ticks whose number is a
  multiple of its period and on no other.
\<close>

theorem first_timer_periodic:
  assumes "table_safe run"
    and "length (s_timers s) = 10" and "tm_func (s_timers s ! 0) \<noteq> None"
    and "\<not> tm_once (s_timers s ! 0)" and "tm_period (s_timers s ! 0) = p" and "tm_ms (s_timers s ! 0) = p"
    and "p \<noteq> 0"
  shows "\<exists>t. run_ticks run n s = Ok t \<and> (due (s_timers t ! 0) \<longleftrightarrow> Suc n mod unat p = 0)"
proof -
  have "\<exists>t. run_ticks run n s = Ok t \<and> in_phase p n t"
  proof (induction n)
    case 0
    with assms show ?case by (simp add: in_phase_def)
  next
    case (Suc n)
    then obtain t where t: "run_ticks run n s = Ok t" "in_phase p n t" by blast
    with in_phase_tick[OF assms(1) t(2) assms(7)] show ?case by auto
  qed
  then obtain t where "run_ticks run n s = Ok t" "in_phase p n t" by blast
  with due_in_phase[OF this(2) assms(7)] show ?thesis by (intro exI[of _ t]) simp
qed

text \<open>The state at power up, and the first slot started as \<^verbatim>\<open>main\<close> does it.\<close>

definition timer_power_up :: timer_st where
  "timer_power_up = addr_st.extend (addr_power_up 0)
     (timer_st.fields (replicate 10 \<lparr>tm_func = None, tm_param = NoParam, tm_period = 0, tm_ms = 0,
        tm_once = False, tm_call_direct = False\<rparr>) 0 0 False)"

lemma s_timers_power_up [simp]: "s_timers timer_power_up =
  replicate 10 \<lparr>tm_func = None, tm_param = NoParam, tm_period = 0, tm_ms = 0, tm_once = False,
    tm_call_direct = False\<rparr>"
  by (simp add: timer_power_up_def addr_st.defs timer_st.defs)

section \<open>Registration\<close>

text \<open>Whether a registration is refused as a duplicate, and the first free slot.\<close>

definition timer_dup :: "hm_timer list \<Rightarrow> ck_func option \<Rightarrow> u32 \<Rightarrow> bool" where
  "timer_dup ts f ms \<longleftrightarrow> (\<exists>t \<in> set ts. tm_func t = f \<and> tm_ms t = ms)"

definition free_slot :: "hm_timer list \<Rightarrow> nat option" where
  "free_slot ts = find (\<lambda>i. tm_func (ts ! i) = None) [0..<length ts]"

lemma timer_find_eq:
  "timer_find ts f ms is pret =
   (if \<exists>i \<in> set is. tm_func (ts ! i) = f \<and> tm_ms (ts ! i) = ms then None
    else Some (if pret = None then find (\<lambda>i. tm_func (ts ! i) = None) is else pret))"
  by (induction "is" arbitrary: pret) (auto simp: Let_def)

lemma hm_timer_register_eq:
  assumes "length (s_timers s) = 10"
  shows "hm_timer_register ms f p once dir s =
    (case free_slot (s_timers s) of
       None \<Rightarrow> (None, s)
     | Some i \<Rightarrow>
         if timer_dup (s_timers s) f ms then (None, s)
         else (Some i, upd_timer i (\<lambda>t. \<lparr>tm_func = f, tm_param = p, tm_period = ms, tm_ms = ms,
                                          tm_once = once, tm_call_direct = dir\<rparr>) s))"
proof -
  have "timer_dup (s_timers s) f ms \<longleftrightarrow>
      (\<exists>i \<in> {0..<10}. tm_func (s_timers s ! i) = f \<and> tm_ms (s_timers s ! i) = ms)"
    unfolding timer_dup_def using assms by (metis atLeast0LessThan lessThan_iff in_set_conv_nth)
  with assms show ?thesis
    by (simp add: hm_timer_register_def HM_MAX_TIMER_def timer_find_eq free_slot_def
        split: option.splits)
qed

text \<open>
  Registration on every branch: it is refused, without effect, exactly when all ten slots are
  taken or a timer with the same callback has the same number of milliseconds left; otherwise it takes
  the first free slot and no other, the same request is refused from then on, and unregistering the
  handle frees the slot and changes nothing else.
\<close>

theorem hm_timer_register_correct:
  assumes "length (s_timers s) = 10" and "hm_timer_register ms (Some f) p once dir s = (h, t)"
  shows "case h of
      None \<Rightarrow> t = s \<and> ((\<forall>u \<in> set (s_timers s). tm_func u \<noteq> None) \<or> timer_dup (s_timers s) (Some f) ms)
    | Some i \<Rightarrow> i < 10 \<and> tm_func (s_timers s ! i) = None \<and> (\<forall>k < i. tm_func (s_timers s ! k) \<noteq> None) \<and>
        \<not> timer_dup (s_timers s) (Some f) ms \<and>
        s_timers t = (s_timers s)[i := \<lparr>tm_func = Some f, tm_param = p, tm_period = ms, tm_ms = ms,
                                       tm_once = once, tm_call_direct = dir\<rparr>] \<and>
        fst (hm_timer_register ms (Some f) q o2 d2 t) = None \<and>
        free_slot (s_timers (hm_timer_unregister h t)) = Some i"
proof (cases "free_slot (s_timers s)")
  case None
  then have "\<forall>u \<in> set (s_timers s). tm_func u \<noteq> None"
    by (auto simp: free_slot_def find_None_iff in_set_conv_nth)
  with None assms show ?thesis by (auto simp: hm_timer_register_eq)
next
  case (Some i)
  then have i: "i < 10" "tm_func (s_timers s ! i) = None" "\<forall>k < i. tm_func (s_timers s ! k) \<noteq> None"
    using assms(1) by (auto simp: free_slot_def find_Some_iff)
  show ?thesis
  proof (cases "timer_dup (s_timers s) (Some f) ms")
    case True
    with Some assms show ?thesis by (auto simp: hm_timer_register_eq)
  next
    case False
    let ?new = "\<lparr>tm_func = Some f, tm_param = p, tm_period = ms, tm_ms = ms, tm_once = once,
        tm_call_direct = dir\<rparr>"
    have h: "h = Some i" and t: "s_timers t = (s_timers s)[i := ?new]"
      using False Some assms by (auto simp: hm_timer_register_eq upd_timer_def)
    have "?new \<in> set (s_timers t)" using i(1) assms(1) by (simp add: t set_update_memI)
    then have "timer_dup (s_timers t) (Some f) ms" unfolding timer_dup_def by force
    moreover have "length (s_timers t) = 10" using assms(1) t by simp
    ultimately have "fst (hm_timer_register ms (Some f) q o2 d2 t) = None"
      by (auto simp: hm_timer_register_eq split: option.splits)
    moreover have "free_slot (s_timers (hm_timer_unregister h t)) = Some i"
      using i assms(1)
      by (auto simp: h t hm_timer_unregister_def upd_timer_def free_slot_def find_Some_iff intro!: exI[of _ i])
    ultimately show ?thesis using False i h t by auto
  qed
qed

section \<open>Differences and delays\<close>

text \<open>
  \<open>hm_tim_diff\<close> measures the time between two readings of the counter exactly as long as the
  counter did not wrap in between; across the wrap it answers one millisecond too few.
\<close>

theorem hm_tim_diff_value:
  "unat (hm_tim_diff a (a + d)) =
    (if unat a + unat d < 2 ^ 32 then unat d else unat d - 1)"
proof (cases "unat a + unat d < 2 ^ 32")
  case True
  then have "a \<le> a + d" by (simp add: word_le_nat_alt unat_add_lem[THEN iffD1])
  with True show ?thesis by (simp add: hm_tim_diff_def)
next
  case False
  have d: "d \<noteq> 0" using False unat_u32_less[of a] by auto
  have "unat (a + d) = unat a + unat d - 2 ^ 32"
    using False unat_u32_less[of a] unat_u32_less[of d] by (simp add: unat_word_ariths mod_if)
  then have "\<not> a \<le> a + d" using False unat_u32_less[of d] by (simp add: word_le_nat_alt)
  moreover have "(- 1 - a) + (a + d) = d - 1" by simp
  ultimately show ?thesis using False d by (simp add: hm_tim_diff_def unat_minus_one)
qed

lemma spin_while_until:
  "(\<forall>i < n. b (obs (k + i))) \<Longrightarrow> \<not> b (obs (k + n)) \<Longrightarrow> n < m \<Longrightarrow>
   spin_while m b obs k = Some (Suc (k + n))"
proof (induction n arbitrary: k m)
  case 0
  then show ?case by (cases m) simp_all
next
  case (Suc n)
  then obtain m' where m: "m = Suc m'" "n < m'" by (cases m) auto
  have "\<forall>i < n. b (obs (Suc k + i))" "\<not> b (obs (Suc k + n))" "b (obs k)"
    using Suc.prems by (auto simp flip: add_Suc_right dest: spec[of _ 0])
  with Suc.IH[of "Suc k" m'] m show ?case by simp
qed

lemma spin_while_forever: "(\<forall>i. b (obs i)) \<Longrightarrow> spin_while n b obs k = None"
  by (induction n arbitrary: k) auto

text \<open>
  The counter seen by the \<open>k\<close>-th read when \<open>T k\<close> ticks have passed since the first read.  The
  reads are faster than the ticks.
\<close>

definition sampled :: "u32 \<Rightarrow> (nat \<Rightarrow> nat) \<Rightarrow> nat \<Rightarrow> u32" where
  "sampled c T k = c + word_of_nat (T k)"

lemma unat_sampled:
  "unat c + T k < 2 ^ 32 \<Longrightarrow> unat (sampled c T k) = unat c + T k"
  unfolding sampled_def
  by (subst unat_add_lem[THEN iffD1]) (simp_all add: unat_of_nat take_bit_nat_eq_self_iff)

text \<open>
  C37.  A delay that does not reach the end of the counter returns, and not before more than \<open>ms\<close>
  ticks have passed: it ends with the first read that sees \<open>ms + 1\<close> ticks.  Any amount of fuel above
  the number of reads gives this result.
\<close>

theorem hm_delay_returns:
  assumes "unat c + unat ms + 1 < 2 ^ 32" and "T 0 = 0" and "mono T"
    and "1 \<le> n" and "T n \<le> unat ms" and "T (Suc n) = unat ms + 1" and "n < fuel"
  shows "hm_delay fuel (sampled c T) ms = Some (n + 2)"
proof -
  have T: "T k \<le> unat ms" if "k \<le> n" for k using monoD[OF assms(3) that] assms(5) by simp
  have desp: "unat (sampled c T 0 + ms) = unat c + unat ms"
    using assms(1,2) by (simp add: sampled_def) (subst unat_add_lem[THEN iffD1], simp_all)
  have obs: "unat (sampled c T k) = unat c + T k" if "k \<le> Suc n" for k
    using that assms(1,6) T[of k] by (cases "k = Suc n") (simp_all add: unat_sampled)
  have "\<not> sampled c T 1 > sampled c T 0 + ms"
    using desp obs[of 1] T[of 1] assms(4) by (simp add: word_less_nat_alt)
  then have first: "spin_while fuel (\<lambda>c'. c' > sampled c T 0 + ms) (sampled c T) 1 = Some 2"
    using assms(7) spin_while_until[of 0 _ "sampled c T" 1 fuel] by (simp add: numeral_2_eq_2)
  have "spin_while fuel (\<lambda>c'. c' \<le> sampled c T 0 + ms) (sampled c T) 2 = Some (Suc (2 + (n - 1)))"
  proof (rule spin_while_until)
    show "\<forall>i < n - 1. sampled c T (2 + i) \<le> sampled c T 0 + ms"
      using T obs desp by (simp add: word_le_nat_alt)
    show "\<not> sampled c T (2 + (n - 1)) \<le> sampled c T 0 + ms"
      using obs[of "Suc n"] assms(4,6) desp by (simp add: word_le_nat_alt)
    show "n - 1 < fuel" using assms(7) by simp
  qed
  with first assms(4) show ?thesis by (simp add: hm_delay_def)
qed

lemma hm_delay_returns_witness:
  "hm_delay 40 (sampled 7 (\<lambda>k. k div 10)) 2 = Some 31"
  using hm_delay_returns[of 7 2 "\<lambda>k. k div 10" 29 40] by (simp add: mono_def div_le_mono)

text \<open>
  A delay whose end is the largest value of the counter never returns: no counter value is
  above it, whatever time passes.
\<close>

theorem hm_delay_stuck:
  assumes "obs 0 + ms = - 1"
  shows "hm_delay fuel obs ms = None"
proof -
  have all: "c \<le> - 1" for c :: u32 by simp
  have "spin_while fuel (\<lambda>c. c \<le> - 1) obs k = None" for k
    by (rule spin_while_forever) (simp add: all)
  then show ?thesis by (simp add: hm_delay_def assms Let_def split: option.splits)
qed

lemma hm_delay_stuck_witness:
  "hm_delay 1000 (\<lambda>k. 0xFFFFFFFF - 500 + word_of_nat k) 500 = None"
  by (rule hm_delay_stuck) simp

definition first_timer_demo :: timer_st where
  "first_timer_demo = snd (hm_timer_register 500 (Some CK_led_ck) NoParam False True timer_power_up)"

lemma s_timers_demo: "s_timers first_timer_demo =
  (s_timers timer_power_up)[0 := \<lparr>tm_func = Some CK_led_ck, tm_param = NoParam, tm_period = 500,
     tm_ms = 500, tm_once = False, tm_call_direct = True\<rparr>]"
  by (simp add: first_timer_demo_def hm_timer_register_eq free_slot_def timer_dup_def upd_timer_def
      upt_rec)

lemma first_timer_periodic_witness:
  "\<exists>t. run_ticks (\<lambda>f p s. Ok (hm_led_act ltRun True s)) 499 first_timer_demo = Ok t \<and> due (s_timers t ! 0)"
proof -
  have "s_timers (hm_led_act ltRun True s) = s_timers s" for s :: timer_st
    by (simp add: hm_led_act_def GPIO_SetBits_def)
  then have safe: "table_safe (\<lambda>f p (s :: timer_st). Ok (hm_led_act ltRun True s))"
    by (simp add: table_safe_def)
  show ?thesis
    using first_timer_periodic[OF safe, of first_timer_demo 500 499] by (simp add: s_timers_demo)
qed

lemma hm_timer_register_correct_witness:
  "free_slot (s_timers (hm_timer_unregister (Some 0) first_timer_demo)) = Some 0 \<and>
   fst (hm_timer_register 500 (Some CK_led_ck) NoParam False True first_timer_demo) = None"
proof -
  have h: "hm_timer_register 500 (Some CK_led_ck) NoParam False True timer_power_up = (Some 0, first_timer_demo)"
    by (simp add: first_timer_demo_def hm_timer_register_eq free_slot_def timer_dup_def upt_rec)
  show ?thesis
    using hm_timer_register_correct[OF _ h, of NoParam False True] by simp
qed

text \<open>Three timers, of which the second is in its last millisecond.\<close>

definition due_timer_demo :: timer_st where
  "due_timer_demo = timer_power_up\<lparr>s_timers := (s_timers timer_power_up)
     [0 := \<lparr>tm_func = Some CK_led_ck, tm_param = NoParam, tm_period = 500, tm_ms = 3, tm_once = False, tm_call_direct = True\<rparr>,
      1 := \<lparr>tm_func = Some CK_led_ck_net, tm_param = NoParam, tm_period = 100, tm_ms = 1, tm_once = False, tm_call_direct = True\<rparr>,
      2 := \<lparr>tm_func = Some CK_hm_motor_limit_logical_check, tm_param = NoParam, tm_period = 100, tm_ms = 7, tm_once = False,
        tm_call_direct = True\<rparr>]\<rparr>"

lemma SysTick_Handler_tick_witness:
  "SysTick_Handler (\<lambda>f p s. Ok s) first_timer_demo = Ok (first_timer_demo\<lparr>s_tim_count := 1,
     s_timers := map dec_active (s_timers first_timer_demo)\<rparr>) \<and>
   (\<exists>t. SysTick_Handler (\<lambda>f p s. Ok s) due_timer_demo = Ok t \<and> map (\<lambda>i. tm_ms (s_timers t ! i)) [0, 1, 2] = [2, 100, 7])"
proof
  have "find (\<lambda>i. due (s_timers first_timer_demo ! i)) [0..<10] = None"
    by (simp add: s_timers_demo due_def find_None_iff nth_list_update)
  moreover have "s_tim_count first_timer_demo = 0"
    by (simp add: first_timer_demo_def hm_timer_register_eq free_slot_def timer_dup_def upt_rec
        upd_timer_def) (simp add: timer_power_up_def addr_st.defs timer_st.defs)
  ultimately show "SysTick_Handler (\<lambda>f p s. Ok s) first_timer_demo = Ok (first_timer_demo\<lparr>s_tim_count := 1,
     s_timers := map dec_active (s_timers first_timer_demo)\<rparr>)"
    using SysTick_Handler_tick[of first_timer_demo "\<lambda>f p s. Ok s"] by (simp add: s_timers_demo)
  have len: "length (s_timers due_timer_demo) = 10" by (simp add: due_timer_demo_def)
  have "find (\<lambda>i. due (s_timers due_timer_demo ! i)) [0..<10] = Some 1"
    by (simp add: due_timer_demo_def due_def upt_rec)
  then show "\<exists>t. SysTick_Handler (\<lambda>f p s. Ok s) due_timer_demo = Ok t \<and> map (\<lambda>i. tm_ms (s_timers t ! i)) [0, 1, 2] = [2, 100, 7]"
    using SysTick_Handler_tick[OF len, of "\<lambda>f p s. Ok s"]
    by (simp add: timer_fire_def upd_timer_def nth_dec_below dec_active_def due_timer_demo_def)
qed

end
