(* ===== verification/Soft_Double.thy ===== *)
theory Soft_Double
  imports Prelude
begin

text \<open>
  The C type \<open>double\<close> on the numbers the motor driver computes with: binary64 for zero and the
  normal positive numbers, as a pair of a mantissa below \<open>2 ^ 53\<close> and an exponent.  Every
  operation computes the exact result and rounds it to the nearest number of 53 bits, ties to even.
  The driver's values stay far from the ends of the exponent range, so there is no overflow,
  no subnormal number and no sign.

  The conversions to unsigned integers cut off the fraction; a value that does not fit the target is
  undefined behaviour of C, the fault \<open>BadConversion\<close> here.
\<close>

type_synonym dbl = "nat \<times> int"

fun bit_length :: "nat \<Rightarrow> nat" where
  "bit_length n = (if n = 0 then 0 else Suc (bit_length (n div 2)))"

declare bit_length.simps [simp del]

text \<open>\<open>m\<close> with its lowest \<open>k\<close> bits rounded away.\<close>

definition round_even :: "nat \<Rightarrow> nat \<Rightarrow> nat" where
  "round_even m k =
     (let q = m div 2 ^ k; r = 2 * (m mod 2 ^ k)
      in if r > 2 ^ k \<or> (r = 2 ^ k \<and> odd q) then q + 1 else q)"

definition dbl_norm :: "nat \<Rightarrow> int \<Rightarrow> dbl" where
  "dbl_norm m e =
     (let l = bit_length m in
      if m = 0 then (0, 0)
      else if l \<le> 53 then (m * 2 ^ (53 - l), e - int (53 - l))
      else let q = round_even m (l - 53); k = int (l - 53)
           in if q = 2 ^ 53 then (2 ^ 52, e + k + 1) else (q, e + k))"

definition dbl_of_nat :: "nat \<Rightarrow> dbl" where
  "dbl_of_nat n = dbl_norm n 0"

definition dbl_mul :: "dbl \<Rightarrow> dbl \<Rightarrow> dbl" where
  "dbl_mul a b = dbl_norm (fst a * fst b) (snd a + snd b)"

text \<open>The quotient to at least 59 bits, and a last bit that says whether there is a remainder.\<close>

definition dbl_div :: "dbl \<Rightarrow> dbl \<Rightarrow> dbl" where
  "dbl_div a b =
     (let n = fst a * 2 ^ 60 in
      dbl_norm (2 * (n div fst b) + (if n mod fst b = 0 then 0 else 1)) (snd a - snd b - 61))"

definition dbl_trunc :: "dbl \<Rightarrow> nat" where
  "dbl_trunc a = (if snd a \<ge> 0 then fst a * 2 ^ nat (snd a) else fst a div 2 ^ nat (- snd a))"

definition dbl_to_u16 :: "dbl \<Rightarrow> u16 res" where
  "dbl_to_u16 a = (if dbl_trunc a < 2 ^ 16 then Ok (word_of_nat (dbl_trunc a)) else Fault BadConversion)"

definition dbl_to_u32 :: "dbl \<Rightarrow> u32 res" where
  "dbl_to_u32 a = (if dbl_trunc a < 2 ^ 32 then Ok (word_of_nat (dbl_trunc a)) else Fault BadConversion)"

text \<open>The two decimal constants of the source, as the compiler stores them.\<close>

definition dbl_0_676 :: dbl where
  "dbl_0_676 = (6088866696204911, - 53)"

definition dbl_1_3586 :: dbl where
  "dbl_1_3586 = (6119021232840348, - 52)"

section \<open>Rounding\<close>

lemma bit_length_bounds: "0 < m \<Longrightarrow> 2 ^ (bit_length m - 1) \<le> m \<and> m < 2 ^ bit_length m \<and> 0 < bit_length m"
proof (induction m rule: bit_length.induct)
  case (1 n)
  show ?case
  proof (cases "n div 2 = 0")
    case True
    with 1(2) have "n = 1" by linarith
    then show ?thesis by (simp add: bit_length.simps)
  next
    case False
    then have IH: "2 ^ (bit_length (n div 2) - 1) \<le> n div 2" "n div 2 < 2 ^ bit_length (n div 2)"
      "0 < bit_length (n div 2)"
      using 1 by auto
    have len: "bit_length n = Suc (bit_length (n div 2))"
      using 1(2) by (subst bit_length.simps) simp
    obtain l where l: "bit_length (n div 2) = Suc l" using IH(3) by (cases "bit_length (n div 2)") auto
    have "2 * 2 ^ l \<le> n" "n < 2 * 2 ^ Suc l" using IH(1,2) l by simp_all
    then show ?thesis by (simp add: len l)
  qed
qed

lemma bit_length_le: "m < 2 ^ k \<Longrightarrow> bit_length m \<le> k"
proof (cases "m = 0")
  case True
  then show ?thesis by (simp add: bit_length.simps)
next
  case False
  assume "m < 2 ^ k"
  with bit_length_bounds[of m] False have "(2::nat) ^ (bit_length m - 1) < 2 ^ k" by linarith
  then have "bit_length m - 1 < k" by simp
  then show ?thesis by simp
qed

lemma bit_length_ge: "2 ^ k \<le> m \<Longrightarrow> Suc k \<le> bit_length m"
proof -
  assume "2 ^ k \<le> m"
  moreover from this have "0 < m" by (metis less_le_trans zero_less_numeral zero_less_power)
  ultimately have "(2::nat) ^ k < 2 ^ bit_length m" using bit_length_bounds[of m] by linarith
  then show ?thesis by simp
qed

lemma round_even_bounds:
  "m div 2 ^ k \<le> round_even m k" "2 * (round_even m k * 2 ^ k) \<le> 2 * m + 2 ^ k"
proof -
  show "m div 2 ^ k \<le> round_even m k" by (simp add: round_even_def Let_def)
  define q r where "q = m div 2 ^ k" and "r = m mod 2 ^ k"
  have m: "m = q * 2 ^ k + r" unfolding q_def r_def by (rule div_mult_mod_eq[symmetric])
  have "round_even m k = q \<or> (round_even m k = q + 1 \<and> 2 ^ k \<le> 2 * r)"
    by (auto simp: round_even_def Let_def q_def r_def)
  then show "2 * (round_even m k * 2 ^ k) \<le> 2 * m + 2 ^ k"
    by (auto simp: m algebra_simps)
qed

text \<open>
  The value of a normalised number of at least 53 bits, on the scale of its exponent: the rounding
  drops \<open>k\<close> bits, never goes below the cut off value and never more than half a unit above the exact
  one.
\<close>

lemma dbl_norm_long:
  assumes "2 ^ 52 \<le> m"
  shows "\<exists>k. k = bit_length m - 53 \<and> e \<le> snd (dbl_norm m e) \<and>
    fst (dbl_norm m e) * 2 ^ nat (snd (dbl_norm m e) - e) = round_even m k * 2 ^ k"
proof -
  have l: "53 \<le> bit_length m" using bit_length_ge[OF assms] by simp
  have m: "m \<noteq> 0" using assms by auto
  consider "bit_length m = 53" | "53 < bit_length m" "round_even m (bit_length m - 53) = 2 ^ 53"
    | "53 < bit_length m" "round_even m (bit_length m - 53) \<noteq> 2 ^ 53" using l by linarith
  then show ?thesis
  proof cases
    case 1
    then show ?thesis using m by (simp add: dbl_norm_def round_even_def)
  next
    case 2
    have "nat (int (bit_length m - 53) + 1) = Suc (bit_length m - 53)" by simp
    with 2 m show ?thesis by (simp add: dbl_norm_def)
  next
    case 3
    moreover have "nat (int (bit_length m) - 53) = bit_length m - 53" by simp
    ultimately show ?thesis using m by (simp add: dbl_norm_def Let_def)
  qed
qed

lemma dbl_trunc_scale:
  assumes "e \<le> snd r" and "e \<le> 0"
  shows "dbl_trunc r = fst r * 2 ^ nat (snd r - e) div 2 ^ nat (- e)"
proof (cases "0 \<le> snd r")
  case True
  then have "nat (snd r - e) = nat (snd r) + nat (- e)" using assms by simp
  then have "fst r * 2 ^ nat (snd r - e) = fst r * 2 ^ nat (snd r) * 2 ^ nat (- e)"
    by (simp only: power_add mult.assoc)
  then have "fst r * 2 ^ nat (snd r - e) div 2 ^ nat (- e) = fst r * 2 ^ nat (snd r)"
    by (simp only: nonzero_mult_div_cancel_right power_not_zero zero_neq_numeral[symmetric]
        not_False_eq_True)
  with True show ?thesis by (simp add: dbl_trunc_def)
next
  case False
  then have "nat (- e) = nat (snd r - e) + nat (- snd r)" using assms by simp
  with False show ?thesis by (simp add: dbl_trunc_def power_add)
qed

lemma dbl_of_nat_small: "0 < n \<Longrightarrow> n < 2 ^ 53 \<Longrightarrow>
  dbl_of_nat n = (n * 2 ^ (53 - bit_length n), - int (53 - bit_length n))"
  using bit_length_le[of n 53] by (simp add: dbl_of_nat_def dbl_norm_def Let_def)

text \<open>
  Rounding to a multiple of \<open>2 ^ sh\<close> does not leave the interval of a quotient, when what was lost before and
  the rounding are each below half of a unit of it.
\<close>

lemma rounded_between:
  assumes dp: "den * p = (n * den + r) * 2 ^ e + c" and r: "r + 1 \<le> den" and den: "0 < den"
    and c: "2 * c < 2 ^ e" and sh: "sh \<le> e" "den * 2 ^ sh \<le> 2 ^ e"
  shows "n * 2 ^ e \<le> round_even p sh * 2 ^ sh" "round_even p sh * 2 ^ sh < (n + 1) * 2 ^ e"
proof -
  have "den * (n * 2 ^ e) \<le> den * p" unfolding dp by (simp add: algebra_simps)
  then have np: "n * 2 ^ e \<le> p" using den by simp
  have "e = (e - sh) + sh" using sh(1) by simp
  then have eq: "n * 2 ^ e = n * 2 ^ (e - sh) * 2 ^ sh" by (metis mult.assoc power_add)
  have "n * 2 ^ (e - sh) * 2 ^ sh \<le> p" using np unfolding eq .
  then have "n * 2 ^ (e - sh) \<le> p div 2 ^ sh" by (simp add: less_eq_div_iff_mult_less_eq)
  also have "\<dots> \<le> round_even p sh" by (rule round_even_bounds)
  finally show "n * 2 ^ e \<le> round_even p sh * 2 ^ sh" unfolding eq by (rule mult_le_mono1)
  have "2 * (round_even p sh * 2 ^ sh) \<le> 2 * p + 2 ^ sh" by (rule round_even_bounds)
  then have "den * (2 * (round_even p sh * 2 ^ sh)) \<le> den * (2 * p + 2 ^ sh)" by simp
  also have "\<dots> = 2 * (den * p) + den * 2 ^ sh" by (simp add: algebra_simps)
  also have "\<dots> \<le> 2 * (n * den + r) * 2 ^ e + 2 * c + 2 ^ e" using sh(2) unfolding dp by (simp add: algebra_simps)
  also have "\<dots> < 2 * (n * den + r) * 2 ^ e + 2 ^ e + 2 ^ e" using c by simp
  also have "\<dots> = 2 * (n * den + (r + 1)) * 2 ^ e" by (simp add: algebra_simps)
  also have "\<dots> \<le> 2 * (n * den + den) * 2 ^ e" using r by (intro mult_le_mono) simp_all
  also have "\<dots> = den * (2 * ((n + 1) * 2 ^ e))" by (simp add: algebra_simps)
  finally show "round_even p sh * 2 ^ sh < (n + 1) * 2 ^ e" by simp
qed

lemma normal_mantissa:
  assumes "0 < k" and "k < 2 ^ 14"
  shows "k * 2 ^ (53 - bit_length k) < 2 ^ 53" "39 \<le> 53 - bit_length k"
proof -
  have lk: "bit_length k \<le> 14" by (rule bit_length_le[OF assms(2)])
  then show "39 \<le> 53 - bit_length k" by simp
  have "k * 2 ^ (53 - bit_length k) < 2 ^ bit_length k * 2 ^ (53 - bit_length k)"
    using bit_length_bounds[OF assms(1)] by simp
  also have "\<dots> = 2 ^ 53" using lk by (simp flip: power_add)
  finally show "k * 2 ^ (53 - bit_length k) < 2 ^ 53" .
qed

text \<open>
  A constant that is the double nearest to \<open>num / den\<close> from above, times a small integer, cut off:
  the result is what exact arithmetic gives.
\<close>

lemma mul_trunc_exact:
  assumes md: "2 ^ 52 \<le> md" "md < 2 ^ 53" and const: "md * den = num * 2 ^ s + c" and den: "0 < den"
    and k: "0 < k" "k < 2 ^ 14" and eps: "2 * c * k < 2 ^ s" and room: "den * 2 ^ 53 \<le> 2 ^ (s + 39)"
  shows "dbl_trunc (dbl_mul (md, - int s) (dbl_of_nat k)) = num * k div den"
proof -
  define t where "t = 53 - bit_length k"
  define p where "p = md * (k * 2 ^ t)"
  define n where "n = num * k div den"
  define r where "r = num * k mod den"
  note kt = normal_mantissa[OF k, folded t_def]
  have "md * 1 \<le> md * (k * 2 ^ t)" using k(1) by (intro mult_le_mono) simp_all
  then have p52: "2 ^ 52 \<le> p" using md(1) unfolding p_def by linarith
  have "p < 2 ^ 53 * 2 ^ 53" unfolding p_def by (rule mult_strict_mono) (use md(2) kt(1) in simp_all)
  then have lp: "bit_length p \<le> 106" by (intro bit_length_le) (simp flip: power_add)
  define sh where "sh = bit_length p - 53"
  have sh: "sh \<le> 53" using lp by (simp add: sh_def)
  let ?e = "- int (s + t)"
  let ?r = "dbl_norm p ?e"
  have mul: "dbl_mul (md, - int s) (dbl_of_nat k) = ?r"
    using k by (simp add: dbl_mul_def dbl_of_nat_small p_def t_def)
  have V: "?e \<le> snd ?r" "fst ?r * 2 ^ nat (snd ?r - ?e) = round_even p sh * 2 ^ sh"
    using dbl_norm_long[OF p52, of ?e] by (auto simp: sh_def)
  have "den * p = (num * 2 ^ s + c) * k * 2 ^ t" using const by (simp add: p_def ac_simps)
  also have "\<dots> = num * k * 2 ^ (s + t) + c * k * 2 ^ t" by (simp add: power_add algebra_simps)
  also have "num * k = n * den + r" by (simp add: n_def r_def)
  finally have dp: "den * p = (n * den + r) * 2 ^ (s + t) + c * k * 2 ^ t" .
  have "2 * c * k * 2 ^ t < 2 ^ s * 2 ^ t" using eps by simp
  then have c: "2 * (c * k * 2 ^ t) < 2 ^ (s + t)" by (simp add: power_add ac_simps)
  have "den * 2 ^ sh \<le> den * 2 ^ 53" using sh by (intro mult_le_mono power_increasing) simp_all
  also note room
  also have "(2::nat) ^ (s + 39) \<le> 2 ^ (s + t)" using kt(2) by (intro power_increasing) simp_all
  finally have dsh: "den * 2 ^ sh \<le> 2 ^ (s + t)" .
  then have "(2::nat) ^ sh \<le> 2 ^ (s + t)" using den by (metis One_nat_def Suc_leI le_trans mult_le_mono1 nat_mult_1)
  then have she: "sh \<le> s + t" by (rule power_le_imp_le_exp[rotated]) simp
  have "r + 1 \<le> den" using den by (simp add: r_def Suc_leI)
  note between = rounded_between[OF dp this den c she dsh]
  have "dbl_trunc ?r = round_even p sh * 2 ^ sh div 2 ^ nat (- ?e)"
    using dbl_trunc_scale[OF V(1)] by (simp only: V(2))
  also have "nat (- ?e) = s + t" by simp
  also have "round_even p sh * 2 ^ sh div 2 ^ (s + t) = n"
    using between by (intro div_nat_eqI) (simp_all add: ac_simps)
  finally show ?thesis by (simp add: mul n_def)
qed

section \<open>The two products of the motor driver\<close>

lemma bit_length_eqI: "2 ^ l \<le> m \<Longrightarrow> m < 2 ^ Suc l \<Longrightarrow> bit_length m = Suc l"
  using bit_length_ge[of l m] bit_length_le[of m "Suc l"] by simp

lemma dbl_100_0_676: "dbl_mul (dbl_of_nat 100) dbl_0_676 = (4756927106410087, - 46)"
proof -
  have a: "bit_length 100 = Suc 6" by (rule bit_length_eqI) simp_all
  have b: "bit_length (100 * 2 ^ 46 * 6088866696204911) = Suc 105" by (rule bit_length_eqI) simp_all
  show ?thesis using a b
    by (simp add: dbl_of_nat_def dbl_norm_def dbl_mul_def dbl_0_676_def round_even_def)
qed

lemma dbl_1_0_676: "dbl_mul (dbl_of_nat 1) dbl_0_676 = (6088866696204911, - 53)"
proof -
  have a: "bit_length 1 = Suc 0" by (rule bit_length_eqI) simp_all
  have b: "bit_length (2 ^ 52 * 6088866696204911) = Suc 104" by (rule bit_length_eqI) simp_all
  show ?thesis using a b
    by (simp add: dbl_of_nat_def dbl_norm_def dbl_mul_def dbl_0_676_def round_even_def)
qed

lemma trunc_67_6: "k < 2 ^ 14 \<Longrightarrow>
  dbl_trunc (dbl_mul (dbl_mul (dbl_of_nat 100) dbl_0_676) (dbl_of_nat k)) = 338 * k div 5"
proof (cases "k = 0")
  case True
  then show ?thesis by (simp add: dbl_of_nat_def dbl_norm_def dbl_mul_def dbl_trunc_def)
next
  case False
  assume "k < 2 ^ 14"
  with False show ?thesis
    using mul_trunc_exact[of 4756927106410087 5 338 46 3 k] by (simp add: dbl_100_0_676)
qed

lemma trunc_0_676: "k < 2 ^ 14 \<Longrightarrow>
  dbl_trunc (dbl_mul (dbl_mul (dbl_of_nat 1) dbl_0_676) (dbl_of_nat k)) = 169 * k div 250"
proof (cases "k = 0")
  case True
  then show ?thesis by (simp add: dbl_of_nat_def dbl_norm_def dbl_mul_def dbl_trunc_def)
next
  case False
  assume "k < 2 ^ 14"
  with False show ?thesis
    using mul_trunc_exact[of 6088866696204911 250 169 53 102 k] by (simp add: dbl_1_0_676 del: One_nat_def)
qed

end
