(* ===== verification/Motor_Math.thy ===== *)
theory Motor_Math
  imports Complex_Main Soft_Double
begin

text \<open>
  The arithmetic of the ramp parameters in \<^verbatim>\<open>hm_step_motor.c\<close>: the integer square root \<open>mysqrt\<close>,
  the base frequency \<open>tim_base_fre\<close> of the step timer, and the three quantities a run is started with:
  the delay at full speed, the first delay of the ramp and the length of the ramp.
\<close>

section \<open>The square root\<close>

text \<open>The body of the loop and the loop; \<open>q2 >>= 2\<close> is the condition that ends it.\<close>

definition sqrt_body :: "u32 \<Rightarrow> u32 \<Rightarrow> u32 \<Rightarrow> u32 \<times> u32" where
  "sqrt_body x xr q2 =
     (if xr + q2 \<le> x then (x - (xr + q2), drop_bit 1 xr + q2) else (x, drop_bit 1 xr))"

function sqrt_loop :: "u32 \<Rightarrow> u32 \<Rightarrow> u32 \<Rightarrow> u32 \<times> u32" where
  "sqrt_loop x xr q2 =
     (let (x', xr') = sqrt_body x xr q2; q2' = drop_bit 2 q2
      in if q2' \<noteq> 0 then sqrt_loop x' xr' q2' else (x', xr'))"
  by auto
termination
proof (relation "measure (\<lambda>(x, xr, q2). unat q2)")
  fix q2 q2' :: u32
  assume "q2' = drop_bit 2 q2" "q2' \<noteq> 0"
  then have "unat q2' = unat q2 div 4" by (simp add: drop_bit_eq_div unat_div)
  moreover have "0 < unat q2'" using \<open>q2' \<noteq> 0\<close> by (simp add: unat_gt_0)
  ultimately have "unat q2' = unat q2 div 4" "0 < unat q2'" by simp_all
  then have "unat q2' < unat q2" by linarith
  then show "((x', xr', q2'), (x, xr, q2)) \<in> measure (\<lambda>(x, xr, q2). unat q2)" for x xr x' xr' :: u32
    by simp
qed simp

declare sqrt_loop.simps [simp del]

definition mysqrt :: "u32 \<Rightarrow> u32" where
  "mysqrt x = (let (x', xr) = sqrt_loop x 0 0x40000000 in if xr < x' then xr + 1 else xr)"

text \<open>
  Before the turn with \<open>q2 = 4 ^ k\<close>: \<open>r\<close> is the part of the root found so far, \<open>x\<close> what is left of
  the argument \<open>X\<close>, and the register \<open>xr\<close> holds \<open>r\<close> shifted.
\<close>

definition sqrt_inv :: "nat \<Rightarrow> nat \<Rightarrow> nat \<Rightarrow> u32 \<Rightarrow> u32 \<Rightarrow> bool" where
  "sqrt_inv X k r x xr \<longleftrightarrow>
     r * r \<le> X \<and> X < (r + 2 * 2 ^ k) * (r + 2 * 2 ^ k) \<and> r + 2 * 2 ^ k \<le> 2 ^ 16 \<and>
     unat x = X - r * r \<and> unat xr = r * (2 * 2 ^ k)"

lemma unat_add_small: "unat a + unat b < 2 ^ 32 \<Longrightarrow> unat ((a :: u32) + b) = unat a + unat b"
  by (subst unat_add_lem[THEN iffD1]) simp_all

lemma times_up_to_2_16: "(r :: nat) + p \<le> 2 ^ 16 \<Longrightarrow> r * p \<le> 2 ^ 30"
proof -
  assume "r + p \<le> 2 ^ 16"
  then have "(r + p) * (r + p) \<le> 2 ^ 16 * 2 ^ 16" by (intro mult_le_mono)
  moreover have "4 * (r * p) \<le> (r + p) * (r + p)"
  proof -
    have "4 * (int r * int p) \<le> (int r + int p) * (int r + int p)"
      using zero_le_square[of "int r - int p"] by (simp add: algebra_simps)
    then show ?thesis by (metis of_nat_add of_nat_le_iff of_nat_mult of_nat_numeral)
  qed
  ultimately show ?thesis by simp
qed

lemma sqrt_body_inv:
  assumes inv: "sqrt_inv X k r x xr" and q2: "unat q2 = 2 ^ k * 2 ^ k"
  shows "\<exists>r' x' xr'. sqrt_body x xr q2 = (x', xr') \<and> r' * r' \<le> X \<and>
    X < (r' + 2 ^ k) * (r' + 2 ^ k) \<and> r' + 2 ^ k \<le> 2 ^ 16 \<and>
    unat x' = X - r' * r' \<and> unat xr' = r' * 2 ^ k"
proof -
  let ?p = "(2::nat) ^ k"
  have i: "r * r \<le> X" "X < (r + 2 * ?p) * (r + 2 * ?p)" "r + 2 * ?p \<le> 2 ^ 16"
    "unat x = X - r * r" "unat xr = r * (2 * ?p)"
    using inv by (simp_all add: sqrt_inv_def)
  have "?p + ?p \<le> 2 ^ 16" using i(3) by simp
  then have p: "?p * ?p \<le> 2 ^ 30" by (rule times_up_to_2_16)
  have sum: "unat (xr + q2) = r * (2 * ?p) + ?p * ?p"
    using times_up_to_2_16[OF i(3)] p by (subst unat_add_small) (simp_all add: i(5) q2)
  have half: "unat (drop_bit 1 xr) = r * ?p"
    by (simp add: drop_bit_eq_div unat_div i(5))
  have half_sum: "unat (drop_bit 1 xr + q2) = (r + ?p) * ?p"
    using times_up_to_2_16[OF i(3)] p
    by (subst unat_add_small) (simp_all add: half[simplified] q2 algebra_simps)
  have square: "(r + ?p) * (r + ?p) = r * r + (r * (2 * ?p) + ?p * ?p)" by (simp add: algebra_simps)
  show ?thesis
  proof (cases "xr + q2 \<le> x")
    case True
    then have le: "r * (2 * ?p) + ?p * ?p \<le> X - r * r" by (simp add: word_le_nat_alt sum i(4))
    have "unat (x - (xr + q2)) = X - (r + ?p) * (r + ?p)"
      using True by (simp add: unat_sub sum i(4) square)
    moreover have "(r + ?p) * (r + ?p) \<le> X" using le i(1) square by linarith
    ultimately show ?thesis
      using True i(2,3) half_sum
      by (intro exI[of _ "r + ?p"]) (simp add: sqrt_body_def mult_2 add.assoc)
  next
    case False
    then have "X < (r + ?p) * (r + ?p)" using i(1) square by (simp add: word_le_nat_alt sum i(4))
    with False i half show ?thesis by (intro exI[of _ r]) (simp add: sqrt_body_def)
  qed
qed

lemma sqrt_loop_root:
  assumes "sqrt_inv X k r x xr" and "unat q2 = 2 ^ k * 2 ^ k"
  shows "\<exists>r x' xr'. sqrt_loop x xr q2 = (x', xr') \<and> r * r \<le> X \<and> X < (r + 1) * (r + 1) \<and>
    r + 1 \<le> 2 ^ 16 \<and> unat x' = X - r * r \<and> unat xr' = r"
  using assms
proof (induction k arbitrary: r x xr q2)
  case 0
  have "unat (drop_bit 2 q2) = 0" using 0(2) by (simp add: drop_bit_eq_div unat_div)
  then have "drop_bit 2 q2 = 0" by (simp add: unat_eq_0)
  with sqrt_body_inv[OF 0] show ?case by (subst sqrt_loop.simps) auto
next
  case (Suc k)
  have q2: "unat (drop_bit 2 q2) = 2 ^ k * 2 ^ k"
    using Suc.prems(2) by (simp add: drop_bit_eq_div unat_div)
  then have ne: "drop_bit 2 q2 \<noteq> 0" by (metis mult_is_0 power_not_zero unsigned_0 zero_neq_numeral)
  from sqrt_body_inv[OF Suc.prems] obtain r' x' xr' where
    b: "sqrt_body x xr q2 = (x', xr')" and inv: "sqrt_inv X k r' x' xr'"
    by (auto simp: sqrt_inv_def)
  from Suc.IH[OF inv q2] b ne show ?case by (subst sqrt_loop.simps) simp
qed

lemma mysqrt_bounds:
  "unat x \<le> unat (mysqrt x) * unat (mysqrt x) + unat (mysqrt x) \<and>
   (mysqrt x = 0 \<or> unat (mysqrt x) * unat (mysqrt x) < unat x + unat (mysqrt x))"
proof -
  have "sqrt_inv (unat x) 15 0 x 0" using unat_u32_less[of x] by (simp add: sqrt_inv_def)
  moreover have "unat (0x40000000 :: u32) = 2 ^ 15 * 2 ^ 15" by simp
  ultimately obtain r x' xr where l: "sqrt_loop x 0 0x40000000 = (x', xr)"
    and r: "r * r \<le> unat x" "unat x < (r + 1) * (r + 1)" "r + 1 \<le> 2 ^ 16"
    "unat x' = unat x - r * r" "unat xr = r"
    using sqrt_loop_root by blast
  have inc: "unat (xr + 1) = r + 1" using r(3,5) by (subst unat_add_small) simp_all
  show ?thesis
  proof (cases "xr < x'")
    case True
    then have "mysqrt x = xr + 1" by (simp add: mysqrt_def l)
    moreover have "r < unat x - r * r" using True r(4,5) by (simp add: word_less_nat_alt)
    moreover have "r * r + r < unat x" using calculation(2) by linarith
    ultimately show ?thesis using inc r(2) by simp
  next
    case False
    then have "mysqrt x = xr" by (simp add: mysqrt_def l)
    moreover have "unat x - r * r \<le> r" using False r(4,5) by (simp add: word_less_nat_alt)
    ultimately show ?thesis using r(1,5) by (cases "r = 0") (auto simp: unat_eq_0)
  qed
qed

text \<open>
  C38.  \<open>mysqrt\<close> returns the integer nearest to the real square root, for every 32 bit argument.
\<close>

theorem mysqrt_nearest: "\<bar>sqrt (real (unat x)) - real (unat (mysqrt x))\<bar> < 1 / 2"
proof -
  define X r where "X = real (unat x)" and "r = real (unat (mysqrt x))"
  have nonneg: "0 \<le> r" unfolding r_def by (rule of_nat_0_le_iff)
  have up: "X \<le> r * r + r"
    using mysqrt_bounds[of x] unfolding X_def r_def
    by (metis of_nat_add of_nat_le_iff of_nat_mult)
  have "X < (r + 1 / 2)\<^sup>2" using up by (simp add: power2_eq_square algebra_simps)
  then have less: "sqrt X < r + 1 / 2" using nonneg by (intro real_less_lsqrt) simp_all
  have "r - 1 / 2 < sqrt X"
  proof (cases "mysqrt x = 0")
    case True
    have "r = 0" unfolding r_def True by simp
    moreover have "0 \<le> sqrt X" unfolding X_def by (intro real_sqrt_ge_zero of_nat_0_le_iff)
    ultimately show ?thesis by linarith
  next
    case False
    then have "unat (mysqrt x) * unat (mysqrt x) + 1 \<le> unat x + unat (mysqrt x)"
      using mysqrt_bounds[of x] by simp
    then have "r * r + 1 \<le> X + r" unfolding X_def r_def
      by (metis of_nat_1 of_nat_add of_nat_le_iff of_nat_mult)
    then have "(r - 1 / 2)\<^sup>2 < X" by (simp add: power2_eq_square algebra_simps)
    then show ?thesis by (rule real_less_rsqrt)
  qed
  with less show ?thesis by (simp add: X_def r_def abs_if)
qed

section \<open>The parameters of a run\<close>

definition HM_STEP_FRE_INIT :: u64 where
  "HM_STEP_FRE_INIT = 1000000"

definition tim_base_fre :: "u32 \<Rightarrow> u64" where
  "tim_base_fre speed =
     (if speed \<le> 15 then 10000
      else if speed > 15 \<and> speed \<le> 10000 then HM_STEP_FRE_INIT
      else HM_STEP_FRE_INIT)"

datatype methrd_e = TCurve | sCurve

text \<open>
  The expressions that \<open>hm_step_motor_start_run\<close> and \<open>hm_step_motor_move\<close> share.  The speed comes
  as the 64 bit value that C's conversion gives: zero extended from an unsigned speed, sign extended
  from a signed one.  The double \<open>speed\<close> in the length of an S-curve is that of this value; the only
  negative speed, the smallest integer, gives a value far outside the target either way.
\<close>

definition min_delay_of :: "u64 \<Rightarrow> u64 \<Rightarrow> u16 res" where
  "min_delay_of fre speed = bnd (udiv_res fre speed) (\<lambda>q. Ok (ucast q))"

definition first_delay_of :: "u64 \<Rightarrow> u32 \<Rightarrow> u16 res" where
  "first_delay_of fre accel =
     bnd (udiv_res 200000000 accel) (\<lambda>q.
       dbl_to_u16 (dbl_mul (dbl_mul (dbl_of_nat (unat (fre div 10000))) dbl_0_676)
                     (dbl_of_nat (unat (mysqrt q)))))"

definition max_s_lim_of :: "methrd_e \<Rightarrow> u64 \<Rightarrow> u32 \<Rightarrow> u32 res" where
  "max_s_lim_of m speed accel =
     (case m of
        sCurve \<Rightarrow>
          (let v = dbl_of_nat (unat speed) in
           if accel = 0 then Fault BadConversion
           else dbl_to_u32 (dbl_div (dbl_mul (dbl_mul v dbl_1_3586) v) (dbl_of_nat (unat accel))))
      | TCurve \<Rightarrow> bnd (udiv_res (speed div 2 * speed) (ucast accel)) (\<lambda>q. Ok (ucast q)))"

lemma min_delay_value:
  assumes "1 \<le> unat speed" and "unat speed \<le> 1000000"
  shows "\<exists>d. min_delay_of (tim_base_fre speed) (ucast speed) = Ok d \<and>
    unat d = (if unat speed \<le> 15 then 10000 else 1000000) div unat speed \<and>
    (2 \<le> unat d \<longleftrightarrow> unat speed \<le> 500000)"
proof -
  let ?f = "if unat speed \<le> 15 then 10000 else 1000000 :: nat"
  have us: "unat (ucast speed :: u64) = unat speed" by simp
  have "speed \<noteq> 0" using assms(1) by (auto simp: unat_0)
  then have ne: "(ucast speed :: u64) \<noteq> 0" using us unat_eq_0 by metis
  have f: "unat (tim_base_fre speed) = ?f"
    by (simp add: tim_base_fre_def HM_STEP_FRE_INIT_def word_le_nat_alt)
  have q: "unat (tim_base_fre speed div ucast speed) = ?f div unat speed" by (simp add: unat_div us f)
  have small: "?f div unat speed < 2 ^ 16"
  proof (cases "unat speed \<le> 15")
    case True
    have "10000 div unat speed < 65536" using div_le_dividend[of 10000 "unat speed"] by linarith
    with True show ?thesis by simp
  next
    case False
    then have "1000000 div unat speed \<le> 1000000 div 16" by (intro div_le_mono2) simp_all
    with False show ?thesis by simp
  qed
  have two: "2 \<le> ?f div unat speed \<longleftrightarrow> unat speed \<le> 500000"
    using assms by (simp add: less_eq_div_iff_mult_less_eq)
  show ?thesis
    using ne small two by (simp add: min_delay_of_def unat_ucast_small q)
qed

text \<open>
  For every speed from 1 to a million steps per second the quotient of the base frequency and
  the speed fits the 16 bit delay, so no run is started with a truncated delay.  The ramp generator
  needs a delay of at least 2, which is the case exactly up to 500000 steps per second.
\<close>

theorem min_delay_fits:
  assumes "1 \<le> unat speed" and "unat speed \<le> 1000000"
  shows "\<exists>d. min_delay_of (tim_base_fre speed) (ucast speed) = Ok d \<and>
    unat d = (if unat speed \<le> 15 then 10000 else 1000000) div unat speed \<and>
    (2 \<le> unat d \<longleftrightarrow> unat speed \<le> 500000)"
  by (rule min_delay_value[OF assms])

lemma min_delay_fits_witness:
  "\<exists>d. min_delay_of (tim_base_fre 16) 16 = Ok d \<and> unat d = 62500"
  using min_delay_fits[of 16] by auto

lemma fre_cases: "tim_base_fre speed = 10000 \<or> tim_base_fre speed = 1000000"
  by (simp add: tim_base_fre_def HM_STEP_FRE_INIT_def)

lemma unat_mysqrt_le:
  assumes "unat x \<le> r * r + r"
  shows "unat (mysqrt x) \<le> r"
proof (rule ccontr)
  assume "\<not> unat (mysqrt x) \<le> r"
  then obtain d where d: "unat (mysqrt x) = Suc r + d" by (metis less_eqE not_le Suc_leI)
  then have "mysqrt x \<noteq> 0" by (metis add_Suc nat.distinct(1) unat_0)
  then have "(Suc r + d) * (Suc r + d) < unat x + (Suc r + d)"
    using mysqrt_bounds[of x] d by simp
  with assms show False by (simp add: algebra_simps)
qed

lemma unat_mysqrt_ge:
  assumes "r * r + r < unat x"
  shows "r < unat (mysqrt x)"
proof (rule ccontr)
  assume "\<not> r < unat (mysqrt x)"
  then have le: "unat (mysqrt x) \<le> r" by simp
  then have "unat (mysqrt x) * unat (mysqrt x) \<le> r * r" by (rule mult_le_mono) (rule le)
  with mysqrt_bounds[of x] assms le show False by linarith
qed

lemma first_delay_value:
  "first_delay_of 1000000 accel =
    (if accel = 0 then Fault DivByZero
     else if unat accel < 213 then Fault BadConversion
     else Ok (word_of_nat (676 * unat (mysqrt (200000000 div accel)) div 10)))"
proof (cases "accel = 0")
  case True
  then show ?thesis by (simp add: first_delay_of_def)
next
  case False
  let ?q = "200000000 div accel"
  let ?r = "unat (mysqrt ?q)"
  have q: "unat ?q = 200000000 div unat accel" by (simp add: unat_div)
  have pos: "1 \<le> unat accel" using False by (simp add: Suc_le_eq unat_gt_0)
  have "unat ?q \<le> 200000000" using div_le_dividend[of 200000000 "unat accel"] q by linarith
  then have "?r \<le> 14142" by (intro unat_mysqrt_le) simp
  then have t: "dbl_trunc (dbl_mul (dbl_mul (dbl_of_nat 100) dbl_0_676) (dbl_of_nat ?r)) = 338 * ?r div 5"
    by (intro trunc_67_6) simp
  have fre: "unat ((1000000 :: u64) div 10000) = 100" by (simp add: unat_div)
  have thr: "338 * ?r div 5 < 2 ^ 16 \<longleftrightarrow> 213 \<le> unat accel"
  proof
    assume "338 * ?r div 5 < 2 ^ 16"
    then have "?r \<le> 969" by (simp add: div_less_iff_less_mult)
    then have "unat ?q \<le> 939930" using unat_mysqrt_ge[of 969 ?q] by (cases "939930 < unat ?q") simp_all
    then have "200000000 < 939931 * unat accel" using q pos by (simp add: div_less_iff_less_mult[symmetric])
    then show "213 \<le> unat accel" by linarith
  next
    assume "213 \<le> unat accel"
    then have "unat ?q \<le> 200000000 div 213" unfolding q by (intro div_le_mono2) simp_all
    then have "?r \<le> 969" by (intro unat_mysqrt_le) simp
    then show "338 * ?r div 5 < 2 ^ 16" by simp
  qed
  have "338 * ?r div 5 = 676 * ?r div 10" using div_mult_mult1[of 2 "338 * ?r" 5] by simp
  then show ?thesis using False t thr by (simp add: first_delay_of_def dbl_to_u16_def fre)
qed


lemma first_delay_slow:
  assumes "accel \<noteq> 0"
  shows "\<exists>d. first_delay_of 10000 accel = Ok d"
proof -
  let ?q = "200000000 div accel"
  let ?r = "unat (mysqrt ?q)"
  have q: "unat ?q = 200000000 div unat accel" by (simp add: unat_div)
  have "unat ?q \<le> 200000000" using div_le_dividend[of 200000000 "unat accel"] q by linarith
  then have r: "?r \<le> 14142" by (intro unat_mysqrt_le) simp
  have "dbl_trunc (dbl_mul (dbl_mul (dbl_of_nat 1) dbl_0_676) (dbl_of_nat ?r)) = 169 * ?r div 250"
    using r by (intro trunc_0_676) simp
  moreover have "169 * ?r div 250 < 2 ^ 16" using r by simp
  moreover have "unat ((10000 :: u64) div 10000) = 1" by (simp add: unat_div)
  ultimately show ?thesis using assms by (simp add: first_delay_of_def dbl_to_u16_def)
qed

lemma first_delay_Ok:
  assumes "213 \<le> unat accel"
  shows "\<exists>d. first_delay_of (tim_base_fre speed) accel = Ok d"
proof -
  have "accel \<noteq> 0" using assms by auto
  with assms show ?thesis
    using fre_cases[of speed] first_delay_slow[of accel] first_delay_value[of accel] by auto
qed

lemma max_s_lim_TCurve: "accel \<noteq> 0 \<Longrightarrow> \<exists>l. max_s_lim_of TCurve speed accel = Ok l"
proof -
  assume "accel \<noteq> 0"
  then have "(ucast accel :: u64) \<noteq> 0" using unat_ucast_u64[of accel] unat_eq_0 by metis
  then show ?thesis by (simp add: max_s_lim_of_def udiv_res_def)
qed

text \<open>
  C39.  The first delay of a ramp at the frequency of a million: the floating point expression of the
  source gives exactly \<open>67.6\<close> times the rounded root of \<open>2 * 10^8 / accel\<close>, cut off, and the value
  fits its 16 bits if and only if the acceleration is at least 213; a smaller acceleration is undefined
  behaviour, and zero a division by zero.
\<close>

theorem first_delay_exact:
  "first_delay_of 1000000 accel =
    (if accel = 0 then Fault DivByZero
     else if unat accel < 213 then Fault BadConversion
     else Ok (word_of_nat (676 * unat (mysqrt (200000000 div accel)) div 10)))"
  by (rule first_delay_value)

end
