(* ===== verification/Motor_Defs.thy ===== *)
theory Motor_Defs
  imports Motor_Math Sw_Timer Hw_Exti Hw_Dma_Tim
begin

text \<open>
  The data of the motor driver, \<^verbatim>\<open>hm_step_motor_defs.h\<close> and \<^verbatim>\<open>hm_step_motor_hw_config.h\<close>: the
  description of the pins of an axis, a block of the step buffer, the state of an axis, and the state
  of the firmware with its four axes.

  The fields keep the names and the widths of the source; \<open>int32_t\<close> fields are 32 bit words read with
  \<open>sint\<close>.  \<open>bool\<close> fields are booleans.  A function pointer to an interrupt handler is a value of
  \<open>irq_fn\<close>, an address of a timer or of a DMA channel is its name.  The numbers of the interrupts in
  the vector table only go to the interrupt controller, which is not modelled, and are left out.
\<close>

datatype RUN_STATE_E = rsSTOP | rsACCEL | rsDECEL | rsRUN

datatype AXIS_STATE_E = asPreparing | asStoped | asRuning

datatype RUN_DIR_E = rdCW | rdCCW

datatype irq_fn =
    EXTI0_fn | EXTI1_fn | EXTI2_fn | EXTI3_fn | EXTI4_fn | EXTI9_5_fn | EXTI15_10_fn

definition HM_DMA_BUF_SIZE :: nat where
  "HM_DMA_BUF_SIZE = 100"

definition HM_DMA_BUF_UNIT_SIZE :: nat where
  "HM_DMA_BUF_UNIT_SIZE = 3"

definition HM_DMA_BUF_BLOCK_SZ :: nat where
  "HM_DMA_BUF_BLOCK_SZ = 2"

definition HM_STOP_ACCEL_VALUE :: u32 where
  "HM_STOP_ACCEL_VALUE = 200000"

definition HM_INVALID_STEP :: u32 where
  "HM_INVALID_STEP = - 1"

definition HM_SENSE_HIT :: u8 where
  "HM_SENSE_HIT = 0"

record hm_step_motor_hw_config =
  ptCW_lmt :: gpio_port
  ptCCW_lmt :: gpio_port
  ptHome_lmt :: gpio_port
  ptDir :: gpio_port
  ptEna :: gpio_port
  irpFunCW :: irq_fn
  irpFunCCW :: irq_fn
  irpFunHome :: irq_fn
  extLineCW :: u32
  extLineCCW :: u32
  extLineHome :: u32
  portSourceCW :: u8
  portSourceCCW :: u8
  portSourceHome :: u8
  pinSourceCW :: u8
  pinSourceCCW :: u8
  pinSourceHome :: u8
  benabled :: bool
  bStopImmediatelyCW :: u32
  bStopImmediatelyCCW :: u32
  bStopImmediatelyHome :: u32
  pinCW_lmt :: u16
  pinCCW_lmt :: u16
  pinHome_lmt :: u16
  pinDir :: u16
  pinEna :: u16
  hw_rcc_mod1 :: u16
  hw_rcc_mod2 :: u16
  blast_hit_home :: bool

text \<open>One block of the step buffer: up to 100 triples for the timer registers.\<close>

record hm_dma_buf_info =
  dma_buf :: "u16 list"
  dma_buf_len :: u16
  buf_valid :: bool

record hm_step_info =
  HM_STEP_FRE :: u64
  motor_hw_config :: hm_step_motor_hw_config
  motor_method :: methrd_e
  port_pul :: gpio_port
  ptim :: tim_id
  pdma :: dma_ch
  remap :: u32
  nhw_ch :: u32
  run_state :: RUN_STATE_E
  motor_dir :: RUN_DIR_E
  axis_state :: AXIS_STATE_E
  bstopping :: bool
  bdo_home :: bool
  bhome_stop_low_triger :: u32
  ramp_n2 :: u32
  stop_accel :: u32
  axis_idx :: u32
  steps_request :: u32
  steps_taken :: u32
  steps_actual :: u32
  steps_tim_irq :: u32
  dma_irq_idx :: u32
  motor_pos :: u32
  accel_steps :: u32
  decel_start :: u32
  decel_val :: u32
  accel_count :: u32
  ramp_rest :: u32
  last_accel_delay :: u16
  min_delay :: u16
  step_delay :: u16
  min_step_delay :: u16
  pul_pin :: u16
  rcc_mod1 :: u16
  rcc_mod2 :: u16
  rcc_mod :: u16
  dma_fill :: u16
  dma_bufs :: "hm_dma_buf_info list"
  dma_buf_idx :: u16

text \<open>The axes; the array \<open>s_axis_info\<close> has \<open>HM_MAX_AXIS\<close> elements.\<close>

record motor_st = timer_st +
  s_axis_info :: "hm_step_info list"

definition axis :: "nat \<Rightarrow> 'a motor_st_scheme \<Rightarrow> hm_step_info" where
  "axis a s = s_axis_info s ! a"

definition upd_axis :: "nat \<Rightarrow> (hm_step_info \<Rightarrow> hm_step_info) \<Rightarrow> 'a motor_st_scheme \<Rightarrow> 'a motor_st_scheme" where
  "upd_axis a f s = s\<lparr>s_axis_info := (s_axis_info s)[a := f (s_axis_info s ! a)]\<rparr>"

definition upd_hw ::
  "nat \<Rightarrow> (hm_step_motor_hw_config \<Rightarrow> hm_step_motor_hw_config) \<Rightarrow> 'a motor_st_scheme \<Rightarrow> 'a motor_st_scheme" where
  "upd_hw a f = upd_axis a (\<lambda>p. p\<lparr>motor_hw_config := f (motor_hw_config p)\<rparr>)"

text \<open>The array has four elements, every block room for 300 words.\<close>

definition axes_ok :: "'a motor_st_scheme \<Rightarrow> bool" where
  "axes_ok s \<longleftrightarrow> length (s_axis_info s) = 4"

lemma axis_upd_axis [simp, motor_simps]:
  "a < length (s_axis_info s) \<Longrightarrow> axis b (upd_axis a f s) = (if a = b then f (axis a s) else axis b s)"
  by (auto simp: axis_def upd_axis_def)

lemma axes_ok_upd_axis [simp, motor_simps]: "axes_ok (upd_axis a f s) = axes_ok s"
  by (simp add: axes_ok_def upd_axis_def)

lemma length_upd_axis [simp]: "length (s_axis_info (upd_axis a f s)) = length (s_axis_info s)"
  by (simp add: upd_axis_def)

lemma axis_upd_hw [simp, motor_simps]:
  "a < length (s_axis_info s) \<Longrightarrow> axis b (upd_hw a f s) =
    (if a = b then (axis a s)\<lparr>motor_hw_config := f (motor_hw_config (axis a s))\<rparr> else axis b s)"
  by (simp add: upd_hw_def)

lemma length_upd_hw [simp]: "length (s_axis_info (upd_hw a f s)) = length (s_axis_info s)"
  by (simp add: upd_hw_def)

section \<open>The contents of the array when the program is loaded\<close>

text \<open>Static data is zero; the ports of a zero configuration are stand-ins until it is filled.\<close>

definition hw_config_zero :: hm_step_motor_hw_config where
  "hw_config_zero = \<lparr>ptCW_lmt = GPIOA, ptCCW_lmt = GPIOA, ptHome_lmt = GPIOA, ptDir = GPIOA, ptEna = GPIOA,
     irpFunCW = EXTI0_fn, irpFunCCW = EXTI0_fn, irpFunHome = EXTI0_fn,
     extLineCW = 0, extLineCCW = 0, extLineHome = 0,
     portSourceCW = 0, portSourceCCW = 0, portSourceHome = 0, pinSourceCW = 0, pinSourceCCW = 0, pinSourceHome = 0,
     benabled = False, bStopImmediatelyCW = 0, bStopImmediatelyCCW = 0, bStopImmediatelyHome = 0,
     pinCW_lmt = 0, pinCCW_lmt = 0, pinHome_lmt = 0, pinDir = 0, pinEna = 0,
     hw_rcc_mod1 = 0, hw_rcc_mod2 = 0, blast_hit_home = False\<rparr>"

definition buf_zero :: hm_dma_buf_info where
  "buf_zero = \<lparr>dma_buf = replicate 300 0, dma_buf_len = 0, buf_valid = False\<rparr>"

definition axis_zero :: hm_step_info where
  "axis_zero = \<lparr>HM_STEP_FRE = 0, motor_hw_config = hw_config_zero, motor_method = TCurve, port_pul = GPIOA,
     ptim = TIM1, pdma = DMA1_Channel1, remap = 0, nhw_ch = 0, run_state = rsSTOP, motor_dir = rdCW,
     axis_state = asPreparing, bstopping = False, bdo_home = False, bhome_stop_low_triger = 0,
     ramp_n2 = 0, stop_accel = 0, axis_idx = 0, steps_request = 0, steps_taken = 0, steps_actual = 0,
     steps_tim_irq = 0, dma_irq_idx = 0, motor_pos = 0, accel_steps = 0, decel_start = 0, decel_val = 0,
     accel_count = 0, ramp_rest = 0, last_accel_delay = 0, min_delay = 0, step_delay = 0, min_step_delay = 0,
     pul_pin = 0, rcc_mod1 = 0, rcc_mod2 = 0, rcc_mod = 0, dma_fill = 0,
     dma_bufs = [buf_zero, buf_zero], dma_buf_idx = 0\<rparr>"

definition motor_power_up :: "u16 \<Rightarrow> motor_st" where
  "motor_power_up b = timer_st.extend (timer_power_up\<lparr>pin_level := (\<lambda>n p. b)\<rparr>)
     (motor_st.fields (replicate 4 axis_zero))"

end
