(* ===== verification/Motor_Ramp.thy ===== *)
theory Motor_Ramp
  imports Motor_Defs
begin

text \<open>
  The ramp generator \<open>hm_dma_update\<close> of \<^verbatim>\<open>hm_step_motor.c\<close>: it fills one block of the step buffer with
  the delays of the steps to come, and moves the axis through the states of its ramp.

  \<open>ramp_step\<close> is the part of the loop body that computes the next delay, \<open>dma_iter\<close> the whole body,
  \<open>dma_update_loop\<close> the loop.  Signed 32 bit quantities are words; C's mixed signed and unsigned
  arithmetic on them is word arithmetic, its division is \<open>sdiv32\<close> and \<open>smod32\<close>.  The two endless
  loops of the source are the fault \<open>Hang\<close>.
\<close>

section \<open>Definitions\<close>

definition buf_put :: "u16 \<Rightarrow> hm_dma_buf_info \<Rightarrow> hm_dma_buf_info res" where
  "buf_put w b =
     (if unat (dma_buf_len b) \<ge> HM_DMA_BUF_UNIT_SIZE * HM_DMA_BUF_SIZE then Fault OutOfBounds
      else Ok (b\<lparr>dma_buf := (dma_buf b)[unat (dma_buf_len b) := w], dma_buf_len := dma_buf_len b + 1\<rparr>))"

definition emit_step :: "u16 \<Rightarrow> u16 \<Rightarrow> u16 \<Rightarrow> hm_dma_buf_info \<Rightarrow> hm_dma_buf_info res" where
  "emit_step w0 w1 w2 b = bnd (buf_put w0 b) (\<lambda>b. bnd (buf_put w1 b) (buf_put w2))"

text \<open>\<open>div1 / div2\<close> and \<open>div1 % div2\<close>.\<close>

definition quot_rem :: "u32 \<times> u32 \<Rightarrow> (u32 \<times> u32) res" where
  "quot_rem = (\<lambda>(div1, div2).
     if div2 = 0 then Fault DivByZero else Ok (sdiv32 div1 div2, smod32 div1 div2))"

definition accel_divs :: "hm_step_info \<Rightarrow> u32 \<times> u32" where
  "accel_divs p =
     (if motor_method p = sCurve \<and> ramp_n2 p > accel_count p
      then (2 * ucast (step_delay p) * (ramp_n2 p - accel_count p) + ramp_rest p,
            (4 * accel_count p + 1) * ramp_n2 p)
      else (2 * ucast (step_delay p) + ramp_rest p, 4 * accel_count p + 1))"

definition decel_divs :: "hm_step_info \<Rightarrow> u32 \<times> u32" where
  "decel_divs p =
     (if motor_method p = sCurve
      then (2 * ucast (step_delay p) * (ramp_n2 p + accel_count p) + ramp_rest p,
            (4 * accel_count p + 1) * ramp_n2 p)
      else (2 * ucast (step_delay p) + ramp_rest p, 4 * accel_count p + 1))"

definition at_decel_start :: "u32 \<Rightarrow> hm_step_info \<Rightarrow> bool" where
  "at_decel_start step_count p \<longleftrightarrow> decel_start p \<noteq> HM_INVALID_STEP \<and> step_count \<ge> decel_start p"

text \<open>The counter goes up; an S-curve forgets the remainder where its two halves meet.\<close>

definition accel_enter :: "hm_step_info \<Rightarrow> hm_step_info" where
  "accel_enter p =
     (let p = p\<lparr>accel_count := accel_count p + 1\<rparr> in
      if motor_method p = sCurve \<and>
         (ramp_n2 p = accel_count p \<or> ramp_n2 p + 1 = accel_count p)
      then p\<lparr>ramp_rest := 0\<rparr> else p)"

text \<open>
  The new delay and the axis with its state, its counter and its remainder, once quotient and
  remainder are known; then the three branches.
\<close>

definition accel_result :: "u32 \<Rightarrow> hm_step_info \<Rightarrow> u32 \<Rightarrow> u32 \<Rightarrow> u16 \<times> hm_step_info" where
  "accel_result step_count p q r =
     (let new_step_delay = ucast (ucast (step_delay p) - q);
          p = p\<lparr>ramp_rest := r\<rparr>
      in if at_decel_start step_count p
         then (new_step_delay, p\<lparr>accel_count := decel_val p, run_state := rsDECEL\<rparr>)
         else if new_step_delay \<le> min_delay p
         then (min_delay p, p\<lparr>last_accel_delay := new_step_delay, ramp_rest := 0, run_state := rsRUN\<rparr>)
         else (new_step_delay, p))"

definition decel_result :: "hm_step_info \<Rightarrow> u32 \<Rightarrow> u32 \<Rightarrow> u16 \<times> hm_step_info" where
  "decel_result p q r =
     (let new_step_delay = ucast (ucast (step_delay p) - q);
          p = p\<lparr>ramp_rest := r\<rparr>
      in (new_step_delay, if sint (accel_count p) \<ge> 0 then p\<lparr>run_state := rsSTOP\<rparr> else p))"

definition ramp_step :: "u32 \<Rightarrow> hm_step_info \<Rightarrow> (u16 \<times> hm_step_info) res" where
  "ramp_step step_count p =
     (case run_state p of
        rsACCEL \<Rightarrow>
          let p = accel_enter p
          in bnd (quot_rem (accel_divs p)) (\<lambda>(q, r). Ok (accel_result step_count p q r))
      | rsRUN \<Rightarrow>
          if at_decel_start step_count p
          then Ok (last_accel_delay p, p\<lparr>accel_count := decel_val p, run_state := rsDECEL\<rparr>)
          else Ok (min_delay p, p)
      | rsDECEL \<Rightarrow>
          let p = p\<lparr>accel_count := accel_count p + 1\<rparr>
          in bnd (quot_rem (decel_divs p)) (\<lambda>(q, r). Ok (decel_result p q r))
      | rsSTOP \<Rightarrow> Fault Hang)"

definition note_min_delay :: "u16 \<Rightarrow> hm_step_info \<Rightarrow> hm_step_info" where
  "note_min_delay d p = (if min_step_delay p > d - 1 then p\<lparr>min_step_delay := d - 1\<rparr> else p)"

definition dma_iter ::
  "u32 \<Rightarrow> hm_step_info \<Rightarrow> hm_dma_buf_info \<Rightarrow> (hm_step_info \<times> hm_dma_buf_info) res" where
  "dma_iter step_count p b =
     bnd (ramp_step step_count p) (\<lambda>(d, p).
       let p = p\<lparr>step_delay := d\<rparr> in
       bnd (emit_step (d - 1) 0 (d div 2) b) (\<lambda>b.
         if d - 1 = 0 \<or> d div 2 = 0 then Fault Hang
         else Ok (note_min_delay d p, b)))"

lemma emit_step_len:
  "emit_step w0 w1 w2 b = Inr b' \<Longrightarrow>
   unat (dma_buf_len b) + 3 \<le> 300 \<and> unat (dma_buf_len b') = unat (dma_buf_len b) + 3"
proof -
  assume "emit_step w0 w1 w2 b = Inr b'"
  then have len: "unat (dma_buf_len b) < 300" "unat (dma_buf_len b + 1) < 300"
      "unat (dma_buf_len b + 1 + 1) < 300" "dma_buf_len b' = dma_buf_len b + 1 + 1 + 1"
    by (auto simp: emit_step_def buf_put_def HM_DMA_BUF_SIZE_def HM_DMA_BUF_UNIT_SIZE_def
        split: if_splits)
  have inc: "unat (w + 1) = unat w + 1" if "unat (w :: u16) < 300" for w
    using that by (subst unat_add_lem[THEN iffD1]) simp_all
  show ?thesis using len inc[OF len(1)] inc[OF len(2)] inc[OF len(3)] by simp
qed

lemma dma_iter_len:
  "dma_iter sc p b = Inr (p', b') \<Longrightarrow>
   unat (dma_buf_len b) + 3 \<le> 300 \<and> unat (dma_buf_len b') = unat (dma_buf_len b) + 3"
  by (auto simp: dma_iter_def Let_def split: if_splits dest: emit_step_len)

text \<open>
  The loop.  It ends because every turn puts three words into a block of 300.  A fault of the body
  ends it too.
\<close>

function dma_update_loop ::
  "hm_step_info \<Rightarrow> hm_dma_buf_info \<Rightarrow> u32 \<Rightarrow> (hm_step_info \<times> hm_dma_buf_info \<times> u32) res" where
  "dma_update_loop p b step_count =
     (if unat (dma_buf_len b) < HM_DMA_BUF_SIZE * HM_DMA_BUF_UNIT_SIZE then
        if steps_request p \<noteq> HM_INVALID_STEP \<and> step_count \<ge> steps_request p then Ok (p, b, step_count)
        else
          let step_count = (if steps_request p \<noteq> HM_INVALID_STEP then step_count + 1 else step_count)
          in (case dma_iter step_count p b of
                Inl e \<Rightarrow> Fault e
              | Inr (p', b') \<Rightarrow> dma_update_loop p' b' step_count)
      else Ok (p, b, step_count))"
  by auto
termination
  by (relation "measure (\<lambda>(p, b, sc). 300 - unat (dma_buf_len b))")
    (auto simp: HM_DMA_BUF_SIZE_def HM_DMA_BUF_UNIT_SIZE_def dest!: dma_iter_len)

declare dma_update_loop.simps [simp del]

definition hm_dma_update :: "nat \<Rightarrow> hm_step_info \<Rightarrow> hm_step_info res" where
  "hm_dma_update i p =
     bnd (dma_update_loop p (dma_bufs p ! i) (steps_taken p)) (\<lambda>(p, b, step_count).
       let p = (if steps_request p \<noteq> HM_INVALID_STEP then p\<lparr>steps_taken := step_count\<rparr> else p)
       in Ok (p\<lparr>dma_bufs := (dma_bufs p)[i := b\<lparr>buf_valid := True\<rparr>]\<rparr>))"

section \<open>A block as a list of steps\<close>

definition buf_ok :: "hm_dma_buf_info \<Rightarrow> bool" where
  "buf_ok b \<longleftrightarrow> length (dma_buf b) = 300 \<and> 3 dvd unat (dma_buf_len b) \<and> unat (dma_buf_len b) \<le> 300"

definition buf_count :: "hm_dma_buf_info \<Rightarrow> nat" where
  "buf_count b = unat (dma_buf_len b) div 3"

definition buf_steps :: "hm_dma_buf_info \<Rightarrow> (u16 \<times> u16 \<times> u16) list" where
  "buf_steps b =
     map (\<lambda>i. (dma_buf b ! (3 * i), dma_buf b ! (3 * i + 1), dma_buf b ! (3 * i + 2))) [0..<buf_count b]"

definition put_step :: "u16 \<times> u16 \<times> u16 \<Rightarrow> hm_dma_buf_info \<Rightarrow> hm_dma_buf_info" where
  "put_step = (\<lambda>(w0, w1, w2) b.
     let n = unat (dma_buf_len b) in
     b\<lparr>dma_buf := (dma_buf b)[n := w0, n + 1 := w1, n + 2 := w2], dma_buf_len := dma_buf_len b + 3\<rparr>)"

text \<open>The three words of a step with delay \<open>d\<close>: auto-reload, repetition, compare.\<close>

definition triple :: "u16 \<Rightarrow> u16 \<times> u16 \<times> u16" where
  "triple d = (d - 1, 0, d div 2)"

lemma length_buf_steps [simp]: "length (buf_steps b) = buf_count b"
  by (simp add: buf_steps_def)

lemma nth_buf_steps:
  "i < buf_count b \<Longrightarrow> buf_steps b ! i =
    (dma_buf b ! (3 * i), dma_buf b ! (3 * i + 1), dma_buf b ! (3 * i + 2))"
  by (simp add: buf_steps_def)

lemma unat_inc_u16: "unat w < 300 \<Longrightarrow> unat (w + 1 :: u16) = unat w + 1"
  by (subst unat_add_lem[THEN iffD1]) simp_all

lemma unat_add3_u16: "unat w \<le> 300 \<Longrightarrow> unat (w + 3 :: u16) = unat w + 3"
  by (subst unat_add_lem[THEN iffD1]) simp_all

lemma emit_step_room:
  assumes "buf_ok b" and "buf_count b < 100"
  shows "emit_step w0 w1 w2 b = Ok (put_step (w0, w1, w2) b)"
proof -
  have len: "unat (dma_buf_len b) < 298" using assms by (auto simp: buf_ok_def buf_count_def elim!: dvdE)
  have i1: "unat (dma_buf_len b + 1) = unat (dma_buf_len b) + 1" using len by (intro unat_inc_u16) simp
  have "unat ((dma_buf_len b + 1) + 1) = unat (dma_buf_len b + 1) + 1"
    using len i1 by (intro unat_inc_u16) simp
  then have i2: "unat (dma_buf_len b + 2) = unat (dma_buf_len b) + 2" by (simp add: i1 add.assoc)
  show ?thesis using len
    by (simp add: emit_step_def buf_put_def HM_DMA_BUF_SIZE_def HM_DMA_BUF_UNIT_SIZE_def i1 i2
        put_step_def Let_def add.assoc)
qed

lemma put_step_ok:
  assumes "buf_ok b" and "buf_count b < 100"
  shows "buf_ok (put_step t b)" and "buf_count (put_step t b) = Suc (buf_count b)"
    and "buf_steps (put_step t b) = buf_steps b @ [t]"
proof -
  obtain w0 w1 w2 where t: "t = (w0, w1, w2)" by (cases t)
  obtain n where n: "unat (dma_buf_len b) = 3 * n" "n < 100"
    using assms by (auto simp: buf_ok_def buf_count_def elim!: dvdE)
  have len: "unat (dma_buf_len b + 3) = 3 * n + 3" using n by (simp add: unat_add3_u16)
  show "buf_ok (put_step t b)" using assms n len by (auto simp: buf_ok_def put_step_def t Let_def)
  show count: "buf_count (put_step t b) = Suc (buf_count b)"
    using n len by (simp add: buf_count_def put_step_def t Let_def)
  show "buf_steps (put_step t b) = buf_steps b @ [t]"
  proof (rule nth_equalityI)
    show "length (buf_steps (put_step t b)) = length (buf_steps b @ [t])" by (simp add: count)
  next
    fix i
    assume "i < length (buf_steps (put_step t b))"
    then have i: "i < Suc n" using n by (simp add: count) (simp add: buf_count_def)
    have bc: "buf_count b = n" using n by (simp add: buf_count_def)
    have "length (dma_buf b) = 300" using assms by (simp add: buf_ok_def)
    moreover have "buf_steps (put_step t b) ! i =
        (dma_buf (put_step t b) ! (3 * i), dma_buf (put_step t b) ! (3 * i + 1),
         dma_buf (put_step t b) ! (3 * i + 2))"
      using i by (intro nth_buf_steps) (simp add: count bc)
    moreover have "3 * n \<noteq> Suc (3 * i)" "3 * n \<noteq> Suc (Suc (3 * i))" "Suc (3 * n) \<noteq> Suc (Suc (3 * i))"
      "Suc (3 * n) \<noteq> 3 * i" "Suc (Suc (3 * n)) \<noteq> 3 * i" "Suc (Suc (3 * n)) \<noteq> Suc (3 * i)"
      by presburger+
    ultimately show "buf_steps (put_step t b) ! i = (buf_steps b @ [t]) ! i"
      using i n by (auto simp: put_step_def t Let_def nth_append nth_list_update bc nth_buf_steps
          less_Suc_eq)
  qed
qed

lemma put_steps_ok:
  assumes "buf_ok b" and "buf_count b + length ts \<le> 100"
  shows "buf_ok (fold put_step ts b) \<and> buf_count (fold put_step ts b) = buf_count b + length ts \<and>
    buf_steps (fold put_step ts b) = buf_steps b @ ts"
  using assms by (induction ts arbitrary: b) (auto simp: put_step_ok)

section \<open>The loop as a list generator\<close>

text \<open>One step without the buffer, and \<open>n\<close> steps in a row.\<close>

definition ramp_next :: "u32 \<Rightarrow> hm_step_info \<Rightarrow> (u16 \<times> hm_step_info) res" where
  "ramp_next step_count p =
     bnd (ramp_step step_count p) (\<lambda>(d, p).
       if d - 1 = 0 \<or> d div 2 = 0 then Fault Hang else Ok (d, note_min_delay d (p\<lparr>step_delay := d\<rparr>)))"

definition next_count :: "hm_step_info \<Rightarrow> u32 \<Rightarrow> u32" where
  "next_count p step_count = (if steps_request p \<noteq> HM_INVALID_STEP then step_count + 1 else step_count)"

fun ramp_gen :: "nat \<Rightarrow> u32 \<Rightarrow> hm_step_info \<Rightarrow> (u16 list \<times> hm_step_info) res" where
  "ramp_gen 0 sc p = Ok ([], p)"
| "ramp_gen (Suc n) sc p =
     bnd (ramp_next (next_count p sc) p) (\<lambda>(d, p').
       bnd (ramp_gen n (next_count p sc) p') (\<lambda>(ds, p''). Ok (d # ds, p'')))"

text \<open>How many steps the loop makes.\<close>

definition loop_turns :: "hm_step_info \<Rightarrow> hm_dma_buf_info \<Rightarrow> u32 \<Rightarrow> nat" where
  "loop_turns p b sc =
     (if steps_request p = HM_INVALID_STEP then 100 - buf_count b
      else min (100 - buf_count b) (unat (steps_request p) - unat sc))"

lemma dma_iter_eq:
  assumes "buf_ok b" and "buf_count b < 100"
  shows "dma_iter sc p b = bnd (ramp_next sc p) (\<lambda>(d, p'). Ok (p', put_step (triple d) b))"
  using assms by (simp add: dma_iter_def ramp_next_def Let_def emit_step_room triple_def bnd_assoc
      case_prod_beta') (rule bnd_cong, simp_all)

text \<open>What a step leaves alone.\<close>

lemma note_min_delay_frame [simp]:
  "run_state (note_min_delay d p) = run_state p" "accel_count (note_min_delay d p) = accel_count p"
  "ramp_rest (note_min_delay d p) = ramp_rest p" "step_delay (note_min_delay d p) = step_delay p"
  "last_accel_delay (note_min_delay d p) = last_accel_delay p" "min_delay (note_min_delay d p) = min_delay p"
  "steps_request (note_min_delay d p) = steps_request p" "steps_taken (note_min_delay d p) = steps_taken p"
  "steps_actual (note_min_delay d p) = steps_actual p" "decel_start (note_min_delay d p) = decel_start p"
  "decel_val (note_min_delay d p) = decel_val p" "motor_method (note_min_delay d p) = motor_method p"
  "motor_dir (note_min_delay d p) = motor_dir p" "motor_pos (note_min_delay d p) = motor_pos p"
  "axis_state (note_min_delay d p) = axis_state p" "ptim (note_min_delay d p) = ptim p"
  "pdma (note_min_delay d p) = pdma p" "dma_bufs (note_min_delay d p) = dma_bufs p"
  "dma_buf_idx (note_min_delay d p) = dma_buf_idx p" "bstopping (note_min_delay d p) = bstopping p"
  "bdo_home (note_min_delay d p) = bdo_home p" "motor_hw_config (note_min_delay d p) = motor_hw_config p"
  "bhome_stop_low_triger (note_min_delay d p) = bhome_stop_low_triger p" "axis_idx (note_min_delay d p) = axis_idx p"
  "HM_STEP_FRE (note_min_delay d p) = HM_STEP_FRE p" "ramp_n2 (note_min_delay d p) = ramp_n2 p"
  by (simp_all add: note_min_delay_def)

definition same_plan :: "hm_step_info \<Rightarrow> hm_step_info \<Rightarrow> bool" where
  "same_plan p p' \<longleftrightarrow>
     steps_request p' = steps_request p \<and> steps_taken p' = steps_taken p \<and>
     steps_actual p' = steps_actual p \<and> decel_start p' = decel_start p \<and> decel_val p' = decel_val p \<and>
     motor_method p' = motor_method p \<and> motor_dir p' = motor_dir p \<and> motor_pos p' = motor_pos p \<and>
     axis_state p' = axis_state p \<and> ptim p' = ptim p \<and> pdma p' = pdma p \<and> dma_bufs p' = dma_bufs p \<and>
     dma_buf_idx p' = dma_buf_idx p \<and> min_delay p' = min_delay p \<and> bstopping p' = bstopping p \<and>
     bdo_home p' = bdo_home p \<and> motor_hw_config p' = motor_hw_config p \<and> axis_idx p' = axis_idx p \<and>
     bhome_stop_low_triger p' = bhome_stop_low_triger p \<and> HM_STEP_FRE p' = HM_STEP_FRE p \<and>
     ramp_n2 p' = ramp_n2 p"

lemma same_plan_refl [simp]: "same_plan p p"
  by (simp add: same_plan_def)

lemma same_plan_trans: "same_plan p q \<Longrightarrow> same_plan q r \<Longrightarrow> same_plan p r"
  by (simp add: same_plan_def)

lemma same_plan_updates [simp]:
  "same_plan p (p'\<lparr>accel_count := c\<rparr>) = same_plan p p'" "same_plan p (p'\<lparr>ramp_rest := r\<rparr>) = same_plan p p'"
  "same_plan p (p'\<lparr>run_state := st\<rparr>) = same_plan p p'" "same_plan p (p'\<lparr>step_delay := d\<rparr>) = same_plan p p'"
  "same_plan p (p'\<lparr>last_accel_delay := d\<rparr>) = same_plan p p'"
  "same_plan p (p'\<lparr>min_step_delay := d\<rparr>) = same_plan p p'"
  by (simp_all add: same_plan_def)

lemma same_plan_parts [simp]:
  "same_plan p (accel_enter p') = same_plan p p'" "same_plan p (note_min_delay d p') = same_plan p p'"
  by (simp_all add: accel_enter_def note_min_delay_def Let_def)

lemma same_plan_results [simp]:
  "same_plan p (snd (accel_result sc p' q r)) = same_plan p p'"
  "same_plan p (snd (decel_result p' q r)) = same_plan p p'"
  by (simp_all add: accel_result_def decel_result_def Let_def)

text \<open>What a step without a fault is, by the state it starts in.\<close>

lemma ramp_step_cases:
  assumes "ramp_step sc p = Inr x"
  obtains (accel) q r where "run_state p = rsACCEL" "quot_rem (accel_divs (accel_enter p)) = Inr (q, r)"
      "x = accel_result sc (accel_enter p) q r"
  | (run) "run_state p = rsRUN" "\<not> at_decel_start sc p" "x = (min_delay p, p)"
  | (run_decel) "run_state p = rsRUN" "at_decel_start sc p"
      "x = (last_accel_delay p, p\<lparr>accel_count := decel_val p, run_state := rsDECEL\<rparr>)"
  | (decel) q r where "run_state p = rsDECEL"
      "quot_rem (decel_divs (p\<lparr>accel_count := accel_count p + 1\<rparr>)) = Inr (q, r)"
      "x = decel_result (p\<lparr>accel_count := accel_count p + 1\<rparr>) q r"
proof (cases "run_state p")
  case rsSTOP
  with assms show ?thesis by (simp add: ramp_step_def)
next
  case rsACCEL
  with assms obtain y where "quot_rem (accel_divs (accel_enter p)) = Inr y"
      "x = accel_result sc (accel_enter p) (fst y) (snd y)"
    by (auto simp: ramp_step_def Let_def)
  with rsACCEL show ?thesis using accel[of "fst y" "snd y"] by simp
next
  case rsDECEL
  with assms obtain y where "quot_rem (decel_divs (p\<lparr>accel_count := accel_count p + 1\<rparr>)) = Inr y"
      "x = decel_result (p\<lparr>accel_count := accel_count p + 1\<rparr>) (fst y) (snd y)"
    by (auto simp: ramp_step_def Let_def)
  with rsDECEL show ?thesis using decel[of "fst y" "snd y"] by simp
next
  case rsRUN
  with assms show ?thesis using run run_decel by (simp add: ramp_step_def split: if_splits)
qed

lemma ramp_step_frame: "ramp_step sc p = Inr (d, p') \<Longrightarrow> same_plan p p'"
proof (elim ramp_step_cases)
  fix q r
  assume "(d, p') = accel_result sc (accel_enter p) q r"
  from arg_cong[OF this, of snd] show "same_plan p p'" by simp
next
  fix q r
  assume "(d, p') = decel_result (p\<lparr>accel_count := accel_count p + 1\<rparr>) q r"
  from arg_cong[OF this, of snd] show "same_plan p p'" by simp
qed simp_all

lemma ramp_next_frame: "ramp_next sc p = Inr (d, p') \<Longrightarrow> same_plan p p'"
  by (auto simp: ramp_next_def dest!: ramp_step_frame split: if_splits)

lemma ramp_gen_frame: "ramp_gen n sc p = Inr (ds, p') \<Longrightarrow> same_plan p p' \<and> length ds = n"
proof (induction n arbitrary: sc p ds)
  case 0
  then show ?case by simp
next
  case (Suc n)
  then obtain d p1 ds' where n: "ramp_next (next_count p sc) p = Inr (d, p1)"
      "ramp_gen n (next_count p sc) p1 = Inr (ds', p')" "ds = d # ds'" by auto
  from ramp_next_frame[OF n(1)] Suc.IH[OF n(2)] n(3) show ?case by (auto dest: same_plan_trans)
qed

lemma buf_len_full: "buf_ok b \<Longrightarrow> unat (dma_buf_len b) < 300 \<longleftrightarrow> buf_count b < 100"
  by (auto simp: buf_ok_def buf_count_def elim!: dvdE)

lemma loop_exit:
  assumes "buf_ok b" and "loop_turns p b sc = 0"
  shows "dma_update_loop p b sc = Ok (p, b, sc)"
  using assms buf_len_full[OF assms(1)]
  by (subst dma_update_loop.simps)
    (auto simp: loop_turns_def HM_DMA_BUF_SIZE_def HM_DMA_BUF_UNIT_SIZE_def word_le_nat_alt split: if_splits)

lemma loop_turn:
  assumes "buf_ok b" and "loop_turns p b sc = Suc n"
  shows "dma_update_loop p b sc =
    bnd (ramp_next (next_count p sc) p) (\<lambda>(d, p').
      dma_update_loop p' (put_step (triple d) b) (next_count p sc))"
proof -
  have room: "buf_count b < 100" and go: "steps_request p = HM_INVALID_STEP \<or> \<not> sc \<ge> steps_request p"
    using assms(2) by (auto simp: loop_turns_def word_le_nat_alt split: if_splits)
  have "dma_update_loop p b sc =
      (case dma_iter (next_count p sc) p b of Inl e \<Rightarrow> Fault e
       | Inr (p', b') \<Rightarrow> dma_update_loop p' b' (next_count p sc))"
    using room go buf_len_full[OF assms(1)]
    by (subst dma_update_loop.simps)
      (auto simp: HM_DMA_BUF_SIZE_def HM_DMA_BUF_UNIT_SIZE_def next_count_def Let_def split: sum.split)
  then show ?thesis
    by (simp add: dma_iter_eq[OF assms(1) room] bnd_def split: sum.splits prod.splits)
qed

lemma next_count_turns:
  assumes "buf_ok b" and "loop_turns p b sc = Suc n" and "same_plan p p'"
  shows "loop_turns p' (put_step t b) (next_count p sc) = n"
proof -
  have room: "buf_count b < 100" using assms(2) by (auto simp: loop_turns_def split: if_splits)
  show ?thesis
  proof (cases "steps_request p = HM_INVALID_STEP")
    case True
    with assms put_step_ok(2)[OF assms(1) room] show ?thesis
      by (simp add: loop_turns_def same_plan_def)
  next
    case False
    then have "unat sc < unat (steps_request p)" using assms(2) by (simp add: loop_turns_def)
    then have "unat (sc + 1) = unat sc + 1"
      using unat_u32_less[of "steps_request p"] by (subst unat_add_small) simp_all
    with False assms put_step_ok(2)[OF assms(1) room] show ?thesis
      by (simp add: loop_turns_def same_plan_def next_count_def)
  qed
qed

definition advance :: "hm_step_info \<Rightarrow> nat \<Rightarrow> u32 \<Rightarrow> u32" where
  "advance p n sc = (if steps_request p = HM_INVALID_STEP then sc else sc + word_of_nat n)"

lemma dma_update_loop_gen:
  assumes "buf_ok b" and "loop_turns p b sc = n"
  shows "dma_update_loop p b sc =
    bnd (ramp_gen n sc p) (\<lambda>(ds, p'). Ok (p', fold put_step (map triple ds) b, advance p n sc))"
  using assms
proof (induction n arbitrary: p b sc)
  case 0
  then show ?case by (simp add: loop_exit advance_def)
next
  case (Suc n)
  have room: "buf_count b < 100" using Suc.prems(2) by (auto simp: loop_turns_def split: if_splits)
  note ok = put_step_ok(1)[OF Suc.prems(1) room]
  show ?case
  proof (cases "ramp_next (next_count p sc) p")
    case (Inl e)
    then show ?thesis by (simp add: loop_turn[OF Suc.prems])
  next
    case (Inr r)
    then obtain d p' where r: "ramp_next (next_count p sc) p = Inr (d, p')" by (cases r) auto
    note same = ramp_next_frame[OF r]
    have adv: "advance p' n (next_count p sc) = advance p (Suc n) sc"
      using same by (simp add: advance_def next_count_def same_plan_def)
    show ?thesis
      using Suc.IH[OF ok next_count_turns[OF Suc.prems same], of "triple d"]
      by (simp add: loop_turn[OF Suc.prems] r adv bnd_assoc case_prod_beta')
  qed
qed

section \<open>Filling a block\<close>

lemma steps_taken_same [simp]: "steps_taken p = n \<Longrightarrow> p\<lparr>steps_taken := n\<rparr> = p"
  by (cases p) simp

lemma hm_dma_update_gen:
  assumes "buf_ok (dma_bufs p ! i)" and "loop_turns p (dma_bufs p ! i) (steps_taken p) = n"
  shows "hm_dma_update i p =
    bnd (ramp_gen n (steps_taken p) p) (\<lambda>(ds, p').
      Ok (p'\<lparr>steps_taken := advance p n (steps_taken p),
             dma_bufs := (dma_bufs p)[i := (fold put_step (map triple ds) (dma_bufs p ! i))\<lparr>buf_valid := True\<rparr>]\<rparr>))"
proof (cases "ramp_gen n (steps_taken p) p")
  case (Inl e)
  then show ?thesis by (simp add: hm_dma_update_def dma_update_loop_gen[OF assms])
next
  case (Inr x)
  obtain ds p' where x: "x = (ds, p')" by (cases x)
  with Inr ramp_gen_frame[of n "steps_taken p" p ds p'] have same: "same_plan p p'" by simp
  then have "steps_request p' = steps_request p" "dma_bufs p' = dma_bufs p" "steps_taken p' = steps_taken p"
    by (simp_all add: same_plan_def)
  then show ?thesis
    by (simp add: hm_dma_update_def dma_update_loop_gen[OF assms] Inr x Let_def advance_def)
qed

lemma advance_value:
  assumes "unat sc + n \<le> unat (steps_request p)" and "steps_request p \<noteq> HM_INVALID_STEP"
  shows "unat (advance p n sc) = unat sc + n"
proof -
  have "unat (word_of_nat n :: u32) = n"
    using assms unat_u32_less[of "steps_request p"] by (simp add: unat_of_nat take_bit_nat_eq_self_iff)
  then show ?thesis
    using assms unat_u32_less[of "steps_request p"] by (simp add: advance_def unat_add_small)
qed

lemma loop_turns_le: "buf_count b + loop_turns p b sc \<le> 100 \<or> 100 \<le> buf_count b"
  by (auto simp: loop_turns_def)

lemma buf_count_le: "buf_ok b \<Longrightarrow> buf_count b \<le> 100"
  by (auto simp: buf_ok_def buf_count_def)

lemma buf_valid_simps [simp]:
  "buf_ok (b\<lparr>buf_valid := v\<rparr>) = buf_ok b" "buf_count (b\<lparr>buf_valid := v\<rparr>) = buf_count b"
  "buf_steps (b\<lparr>buf_valid := v\<rparr>) = buf_steps b"
  by (simp_all add: buf_ok_def buf_count_def buf_steps_def)

text \<open>The outcome of a fill without a fault.\<close>

lemma hm_dma_update_Ok:
  assumes "i < length (dma_bufs p)" and "buf_ok (dma_bufs p ! i)" and "hm_dma_update i p = Ok p'"
  obtains ds p1 where
    "ramp_gen (loop_turns p (dma_bufs p ! i) (steps_taken p)) (steps_taken p) p = Inr (ds, p1)"
    "p' = p1\<lparr>steps_taken := advance p (length ds) (steps_taken p),
             dma_bufs := (dma_bufs p)[i := dma_bufs p' ! i]\<rparr>"
    "length ds = loop_turns p (dma_bufs p ! i) (steps_taken p)"
    "buf_ok (dma_bufs p' ! i)" "buf_valid (dma_bufs p' ! i)"
    "buf_steps (dma_bufs p' ! i) = buf_steps (dma_bufs p ! i) @ map triple ds"
    "same_plan p p1"
proof -
  let ?b = "dma_bufs p ! i" and ?n = "loop_turns p (dma_bufs p ! i) (steps_taken p)"
  obtain ds p1 where gen: "ramp_gen ?n (steps_taken p) p = Inr (ds, p1)"
    and p': "p' = p1\<lparr>steps_taken := advance p ?n (steps_taken p),
        dma_bufs := (dma_bufs p)[i := (fold put_step (map triple ds) ?b)\<lparr>buf_valid := True\<rparr>]\<rparr>"
    using assms(3) hm_dma_update_gen[OF assms(2) refl] by auto
  have len: "length ds = ?n" and same: "same_plan p p1" using ramp_gen_frame[OF gen] by simp_all
  have "buf_count ?b + length (map triple ds) \<le> 100"
    using loop_turns_le[of ?b p "steps_taken p"] buf_count_le[OF assms(2)] len
    by (auto simp: loop_turns_def)
  from put_steps_ok[OF assms(2) this] show ?thesis
    using that[OF gen _ len] same assms(1) p' len by simp
qed

text \<open>
  Bookkeeping of the ramp generator.  When it returns, the block it filled is well formed and
  valid and still starts with the steps it held before.  In a run without end it is full; in a move it
  holds exactly as many new steps as \<open>steps_taken\<close> was advanced by, and \<open>steps_taken\<close> stops at the
  number of steps requested: no step beyond the request is ever planned.
\<close>

theorem hm_dma_update_accounting:
  assumes "i < length (dma_bufs p)" and "buf_ok (dma_bufs p ! i)"
    and "steps_request p \<noteq> HM_INVALID_STEP \<longrightarrow> unat (steps_taken p) \<le> unat (steps_request p)"
    and "hm_dma_update i p = Ok p'"
  shows "buf_ok (dma_bufs p' ! i) \<and> buf_valid (dma_bufs p' ! i) \<and>
    take (buf_count (dma_bufs p ! i)) (buf_steps (dma_bufs p' ! i)) = buf_steps (dma_bufs p ! i) \<and>
    (if steps_request p = HM_INVALID_STEP
     then buf_count (dma_bufs p' ! i) = 100 \<and> steps_taken p' = steps_taken p
     else unat (steps_taken p') =
            min (unat (steps_request p)) (unat (steps_taken p) + (100 - buf_count (dma_bufs p ! i))) \<and>
          buf_count (dma_bufs p' ! i) =
            buf_count (dma_bufs p ! i) + (unat (steps_taken p') - unat (steps_taken p)))"
proof -
  from hm_dma_update_Ok[OF assms(1,2,4)] obtain ds p1 where
    p': "p' = p1\<lparr>steps_taken := advance p (length ds) (steps_taken p),
             dma_bufs := (dma_bufs p)[i := dma_bufs p' ! i]\<rparr>"
    and len: "length ds = loop_turns p (dma_bufs p ! i) (steps_taken p)"
    and b: "buf_ok (dma_bufs p' ! i)" "buf_valid (dma_bufs p' ! i)"
    and steps: "buf_steps (dma_bufs p' ! i) = buf_steps (dma_bufs p ! i) @ map triple ds" by blast
  have taken: "steps_taken p' = advance p (length ds) (steps_taken p)" by (subst p') simp
  have count: "buf_count (dma_bufs p' ! i) = buf_count (dma_bufs p ! i) + length ds"
    using arg_cong[OF steps, of length] by simp
  show ?thesis
  proof (cases "steps_request p = HM_INVALID_STEP")
    case True
    then show ?thesis using b steps taken count len buf_count_le[OF assms(2)]
      by (simp add: loop_turns_def advance_def)
  next
    case False
    with assms(3) have "unat (steps_taken p) \<le> unat (steps_request p)" by simp
    with len False have "unat (steps_taken p) + length ds \<le> unat (steps_request p)"
      by (simp add: loop_turns_def)
    from advance_value[OF this False] show ?thesis
      using False b steps taken count len assms(3)
      by (auto simp: loop_turns_def min_def split: if_splits)
  qed
qed

section \<open>Division of small numbers\<close>

lemma sint_small:
  assumes "unat (w :: u32) < 2 ^ 31"
  shows "sint w = int (unat w)"
proof -
  have "signed_take_bit 31 (int (unat w)) = int (unat w)"
  proof (rule signed_take_bit_int_eq_self)
    show "int (unat w) < 2 ^ 31" using assms by (metis of_nat_less_iff of_nat_numeral of_nat_power)
    show "- (2 ^ 31) \<le> int (unat w)" by (rule order_trans[of _ 0]) (simp, rule of_nat_0_le_iff)
  qed
  then show ?thesis by (simp add: sint_uint)
qed

lemma sdiv_nat: "int x sdiv int y = int (x div y)" and smod_nat: "int x smod int y = int (x mod y)"
proof -
  show d: "int x sdiv int y = int (x div y)"
    by (cases "x = 0"; cases "y = 0") (simp_all add: signed_divide_int_def zdiv_int)
  show "int x smod int y = int (x mod y)"
    by (cases "x = 0") (simp_all add: signed_modulo_int_def d zdiv_int zmod_int minus_div_mult_eq_mod)
qed

lemma div32_small:
  assumes "unat a < 2 ^ 31" and "unat b < 2 ^ 31"
  shows "unat (sdiv32 a b) = unat a div unat b" and "unat (smod32 a b) = unat a mod unat b"
proof -
  have small: "unat a div unat b < 2 ^ 32" "unat a mod unat b < 2 ^ 32"
    using unat_u32_less[of a] by (meson div_le_dividend mod_less_eq_dividend le_less_trans)+
  have "unat (word_of_int (int n) :: u32) = n" if "n < 2 ^ 32" for n
    using that by (simp add: unat_of_nat take_bit_nat_eq_self_iff)
  with small show "unat (sdiv32 a b) = unat a div unat b" "unat (smod32 a b) = unat a mod unat b"
    unfolding sdiv32_def smod32_def sint_small[OF assms(1)] sint_small[OF assms(2)] sdiv_nat smod_nat
    by blast+
qed

section \<open>Runs without end\<close>

text \<open>
  An axis on a T-curve in a run without end, after at most \<open>k\<close> steps of acceleration.  The source
  computes \<open>4 * accel_count + 1\<close> in 32 bits, so \<open>k\<close> is bounded.
\<close>

definition cruise_ok :: "nat \<Rightarrow> hm_step_info \<Rightarrow> bool" where
  "cruise_ok k p \<longleftrightarrow>
     steps_request p = HM_INVALID_STEP \<and> decel_start p = HM_INVALID_STEP \<and> motor_method p = TCurve \<and>
     2 \<le> unat (min_delay p) \<and>
     (run_state p = rsRUN \<and> step_delay p = min_delay p \<or>
      run_state p = rsACCEL \<and> unat (accel_count p) \<le> k \<and>
        unat (ramp_rest p) \<le> 4 * unat (accel_count p) \<and> min_delay p < step_delay p)"

lemma TCurve_divs:
  assumes "motor_method p = TCurve" and "unat (accel_count p) < 2 ^ 28"
    and "unat (ramp_rest p) \<le> 4 * unat (accel_count p)"
  shows "unat (fst (accel_divs (accel_enter p))) = 2 * unat (step_delay p) + unat (ramp_rest p)"
    and "unat (snd (accel_divs (accel_enter p))) = 4 * unat (accel_count p) + 5"
    and "accel_enter p = p\<lparr>accel_count := accel_count p + 1\<rparr>"
proof -
  show e: "accel_enter p = p\<lparr>accel_count := accel_count p + 1\<rparr>" using assms(1) by (simp add: accel_enter_def)
  have sd: "unat (2 * ucast (step_delay p) :: u32) = 2 * unat (step_delay p)"
    using unat_u16_less[of "step_delay p"] by (subst unat_mult_lem[THEN iffD1]) simp_all
  show "unat (fst (accel_divs (accel_enter p))) = 2 * unat (step_delay p) + unat (ramp_rest p)"
    using assms unat_u16_less[of "step_delay p"]
    by (simp add: e accel_divs_def unat_add_small sd)
  have a1: "unat (accel_count p + 1) = unat (accel_count p) + 1" using assms(2) by (simp add: unat_add_small)
  have a4: "unat (4 * (accel_count p + 1)) = 4 * (unat (accel_count p) + 1)"
    using assms(2) a1 by (subst unat_mult_lem[THEN iffD1]) simp_all
  have "unat (4 * (accel_count p + 1) + 1) = 4 * (unat (accel_count p) + 1) + 1"
    using assms(2) a4 by (subst unat_add_small) simp_all
  then show "unat (snd (accel_divs (accel_enter p))) = 4 * unat (accel_count p) + 5"
    using assms(1) by (simp add: e accel_divs_def algebra_simps)
qed

text \<open>The quotient subtracted from a delay of at least 2 is not larger than the delay.\<close>

lemma accel_quotient_le:
  assumes "2 \<le> (d :: nat)" and "r \<le> 4 * n"
  shows "(2 * d + r) div (4 * n + 5) \<le> d"
proof -
  have "2 * d + r \<le> d * (4 * n + 5)"
  proof -
    have "4 * n \<le> d * (4 * n)" using assms(1) by simp
    then have "2 * d + r \<le> d * 5 + d * (4 * n)" using assms(2) by linarith
    then show ?thesis by (simp add: algebra_simps)
  qed
  then show ?thesis by (metis div_le_mono nonzero_mult_div_cancel_right add_is_0 zero_neq_numeral)
qed

lemma accel_next_TCurve:
  assumes "motor_method p = TCurve" and "run_state p = rsACCEL" and "unat (accel_count p) < 2 ^ 28"
    and "unat (ramp_rest p) \<le> 4 * unat (accel_count p)" and "2 \<le> unat (step_delay p)"
  obtains q r where "quot_rem (accel_divs (accel_enter p)) = Inr (q, r)"
    "unat r \<le> 4 * (unat (accel_count p) + 1)"
    "unat (ucast (ucast (step_delay p) - q) :: u16) =
       unat (step_delay p) - (2 * unat (step_delay p) + unat (ramp_rest p)) div (4 * unat (accel_count p) + 5)"
proof -
  note divs = TCurve_divs[OF assms(1,3,4)]
  let ?d = "accel_divs (accel_enter p)"
  have small: "unat (fst ?d) < 2 ^ 31" "unat (snd ?d) < 2 ^ 31"
    using divs(1,2) assms(3,4) unat_u16_less[of "step_delay p"] by simp_all
  note q = div32_small[OF small]
  have ne: "snd ?d \<noteq> 0" using divs(2) by (metis add_is_0 unsigned_0 zero_neq_numeral)
  let ?q = "sdiv32 (fst ?d) (snd ?d)" and ?r = "smod32 (fst ?d) (snd ?d)"
  have qd: "unat ?q \<le> unat (step_delay p)"
    unfolding q(1) divs(1,2) by (rule accel_quotient_le[OF assms(5,4)])
  have "unat (ucast (step_delay p) - ?q :: u32) = unat (step_delay p) - unat ?q"
    using qd by (subst unat_sub) (simp_all add: word_le_nat_alt)
  moreover have "unat (step_delay p) - unat ?q < 2 ^ 16" using unat_u16_less[of "step_delay p"] by simp
  ultimately have "unat (ucast (ucast (step_delay p) - ?q) :: u16) = unat (step_delay p) - unat ?q"
    by (subst unat_ucast_small) simp_all
  moreover have "unat ?r \<le> 4 * (unat (accel_count p) + 1)"
  proof -
    have "unat ?r < 4 * unat (accel_count p) + 5"
      unfolding q(2) divs(1,2) by (rule mod_less_divisor) simp
    then show ?thesis by simp
  qed
  moreover have "quot_rem ?d = Inr (?q, ?r)" using ne by (simp add: quot_rem_def case_prod_beta')
  ultimately show ?thesis using that[of ?q ?r] by (simp add: q(1) divs(1,2))
qed

lemma cruise_next:
  assumes ok: "cruise_ok k p" and k: "k < 2 ^ 28"
  shows "\<exists>d p'. ramp_next sc p = Ok (d, p') \<and> cruise_ok (Suc k) p' \<and> step_delay p' = d \<and>
    min_delay p \<le> d \<and> d \<le> step_delay p \<and> min_delay p' = min_delay p"
proof -
  have nostop: "\<not> at_decel_start sc p" and m: "motor_method p = TCurve" and md: "2 \<le> unat (min_delay p)"
    using ok by (simp_all add: cruise_ok_def at_decel_start_def)
  have fine: "d \<noteq> 1 \<and> d div 2 \<noteq> 0" if "min_delay p \<le> d" for d :: u16
  proof -
    have "2 \<le> unat d" using that md by (simp add: word_le_nat_alt)
    moreover from this have "unat (d div 2) \<noteq> 0" by (simp add: unat_div)
    ultimately show ?thesis by (auto simp: unat_0)
  qed
  consider (run) "run_state p = rsRUN" "step_delay p = min_delay p"
    | (acc) "run_state p = rsACCEL" "unat (accel_count p) \<le> k"
        "unat (ramp_rest p) \<le> 4 * unat (accel_count p)" "min_delay p < step_delay p"
    using ok by (auto simp: cruise_ok_def)
  then show ?thesis
  proof cases
    case run
    with nostop fine[of "min_delay p"] ok show ?thesis
      by (simp add: ramp_next_def ramp_step_def cruise_ok_def)
  next
    case acc
    have "unat (accel_count p) < 2 ^ 28" "2 \<le> unat (step_delay p)"
      using acc k md by (simp_all add: word_less_nat_alt)
    from accel_next_TCurve[OF m acc(1) this(1) acc(3) this(2)] obtain q r where
      qr: "quot_rem (accel_divs (accel_enter p)) = Inr (q, r)" "unat r \<le> 4 * (unat (accel_count p) + 1)"
      and new: "unat (ucast (ucast (step_delay p) - q) :: u16) = unat (step_delay p) -
         (2 * unat (step_delay p) + unat (ramp_rest p)) div (4 * unat (accel_count p) + 5)" .
    let ?new = "ucast (ucast (step_delay p) - q) :: u16"
    have e: "accel_enter p = p\<lparr>accel_count := accel_count p + 1\<rparr>" using m by (simp add: accel_enter_def)
    have ac: "unat (accel_count p + 1) = unat (accel_count p) + 1" using acc(2) k by (simp add: unat_add_small)
    have le: "?new \<le> step_delay p" using new by (simp add: word_le_nat_alt)
    have step: "ramp_step sc p = Ok (accel_result sc (accel_enter p) q r)"
      using acc(1) qr(1) by (simp add: ramp_step_def)
    have nostop': "\<not> at_decel_start sc (accel_enter p)" using nostop by (simp add: e at_decel_start_def)
    show ?thesis
    proof (cases "?new \<le> min_delay p")
      case True
      with step nostop' fine[of "min_delay p"] ok acc(4) show ?thesis
        by (simp add: ramp_next_def accel_result_def e at_decel_start_def cruise_ok_def Let_def less_imp_le)
    next
      case False
      then have "min_delay p < ?new" "min_delay p \<le> ?new" by simp_all
      with False step nostop' fine[of ?new] ok acc ac qr(2) le show ?thesis
        by (simp add: ramp_next_def accel_result_def e at_decel_start_def cruise_ok_def Let_def)
    qed
  qed
qed

lemma cruise_gen:
  assumes "cruise_ok k p" and "k + n \<le> 2 ^ 28"
  shows "\<exists>ds p'. ramp_gen n sc p = Ok (ds, p') \<and> cruise_ok (k + n) p' \<and>
    (\<forall>d \<in> set ds. min_delay p \<le> d \<and> d \<le> step_delay p) \<and> sorted_wrt (\<ge>) ds"
  using assms
proof (induction n arbitrary: k sc p)
  case 0
  then show ?case by simp
next
  case (Suc n)
  then obtain d p1 where s: "ramp_next (next_count p sc) p = Ok (d, p1)" "cruise_ok (Suc k) p1"
      "step_delay p1 = d" "min_delay p \<le> d" "d \<le> step_delay p" "min_delay p1 = min_delay p"
    using cruise_next[of k p "next_count p sc"] by auto
  from Suc.IH[OF s(2), of "next_count p sc"] Suc.prems(2) obtain ds p' where
    "ramp_gen n (next_count p sc) p1 = Ok (ds, p')" "cruise_ok (k + Suc n) p'"
    "\<forall>d' \<in> set ds. min_delay p1 \<le> d' \<and> d' \<le> step_delay p1" "sorted_wrt (\<ge>) ds" by auto
  with s show ?case by (auto intro: order_trans)
qed

lemma cruise_ok_mono: "cruise_ok k p \<Longrightarrow> k \<le> k' \<Longrightarrow> cruise_ok k' p"
  by (auto simp: cruise_ok_def)

lemma cruise_ok_updates [simp]:
  "cruise_ok k (p\<lparr>steps_taken := x\<rparr>) = cruise_ok k p" "cruise_ok k (p\<lparr>dma_bufs := bs\<rparr>) = cruise_ok k p"
  by (simp_all add: cruise_ok_def)

lemma cruise_fill:
  assumes "cruise_ok k p" and "k + 100 \<le> 2 ^ 28" and "i < length (dma_bufs p)" and "buf_ok (dma_bufs p ! i)"
  shows "\<exists>ds p'. hm_dma_update i p = Ok p' \<and> cruise_ok (k + 100) p' \<and>
    buf_steps (dma_bufs p' ! i) = buf_steps (dma_bufs p ! i) @ map triple ds \<and>
    length ds = 100 - buf_count (dma_bufs p ! i) \<and> sorted_wrt (\<ge>) ds \<and>
    (\<forall>d \<in> set ds. min_delay p \<le> d \<and> d \<le> step_delay p)"
proof -
  let ?b = "dma_bufs p ! i" and ?n = "100 - buf_count (dma_bufs p ! i)"
  have turns: "loop_turns p ?b (steps_taken p) = ?n"
    using assms(1) by (simp add: loop_turns_def cruise_ok_def)
  have "k + ?n \<le> 2 ^ 28" using assms(2) by simp
  from cruise_gen[OF assms(1) this, of "steps_taken p"] obtain ds p1 where
    gen: "ramp_gen ?n (steps_taken p) p = Ok (ds, p1)" "cruise_ok (k + ?n) p1"
    and ds: "\<forall>d \<in> set ds. min_delay p \<le> d \<and> d \<le> step_delay p" "sorted_wrt (\<ge>) ds" by blast
  have len: "length ds = ?n" using ramp_gen_frame[OF gen(1)] by simp
  have "buf_count ?b + length (map triple ds) \<le> 100"
    using buf_count_le[OF assms(4)] len by simp
  with hm_dma_update_gen[OF assms(4) turns] gen(1) put_steps_ok[OF assms(4)] assms(3)
    cruise_ok_mono[OF gen(2), of "k + 100"] ds len
  show ?thesis by (intro exI[of _ ds] exI) (auto simp: le_diff_conv)
qed

text \<open>
  C16.  A T-curve run without end whose full speed delay is at least 2: filling a block never hangs
  and never divides by zero, fills the block completely, and the delays it adds never increase and
  never fall below the one of full speed, so the axis accelerates up to the requested speed and not
  beyond.  This holds for the first \<open>2 ^ 28\<close> steps of acceleration.
\<close>

theorem free_run_fill:
  assumes "cruise_ok k p" and "k + 100 \<le> 2 ^ 28" and "i < length (dma_bufs p)" and "buf_ok (dma_bufs p ! i)"
  shows "\<exists>ds p'. hm_dma_update i p = Ok p' \<and> cruise_ok (k + 100) p' \<and>
    buf_steps (dma_bufs p' ! i) = buf_steps (dma_bufs p ! i) @ map triple ds \<and>
    length ds = 100 - buf_count (dma_bufs p ! i) \<and> sorted_wrt (\<ge>) ds \<and>
    (\<forall>d \<in> set ds. min_delay p \<le> d \<and> d \<le> step_delay p)"
  by (rule cruise_fill[OF assms])

section \<open>Moves\<close>

text \<open>
  A move of \<open>steps_request\<close> steps of which \<open>sc\<close> are planned: the deceleration is counted so that
  at least as many steps of it are left as steps of the move.
\<close>

definition plan_ok :: "u32 \<Rightarrow> hm_step_info \<Rightarrow> bool" where
  "plan_ok sc p \<longleftrightarrow>
     steps_request p \<noteq> HM_INVALID_STEP \<and> unat sc \<le> unat (steps_request p) \<and>
     (run_state p = rsSTOP \<longrightarrow> sc = steps_request p) \<and>
     (run_state p = rsDECEL \<longrightarrow> int (unat (steps_request p)) - int (unat sc) \<le> - sint (accel_count p)) \<and>
     (decel_start p \<noteq> HM_INVALID_STEP \<longrightarrow>
        int (unat (steps_request p)) - int (unat (decel_start p)) \<le> - sint (decel_val p))"

lemma sint_inc: "sint (w :: u32) < 0 \<Longrightarrow> sint (w + 1) = sint w + 1"
proof -
  assume neg: "sint w < 0"
  have "- (2 ^ 31) \<le> sint w" using sint_ge[of w] by simp
  then have "signed_take_bit 31 (sint w + 1) = sint w + 1"
    using neg by (intro signed_take_bit_int_eq_self) simp_all
  moreover have "w + 1 = word_of_int (sint w + 1)" by simp
  then have "sint (w + 1) = sint (word_of_int (sint w + 1) :: u32)" by (rule arg_cong)
  ultimately show ?thesis unfolding sint_sbintrunc' by simp
qed

lemma sint_nonneg_inc: "0 \<le> sint (w :: u32) \<Longrightarrow> sint w < 2 ^ 31"
  using sint_lt[of w] by simp

lemma quot_rem_cases: "quot_rem dd = (if snd dd = 0 then Fault DivByZero
    else Ok (sdiv32 (fst dd) (snd dd), smod32 (fst dd) (snd dd)))"
  by (simp add: quot_rem_def case_prod_beta')

text \<open>\<open>4 * accel_count + 1\<close> is odd, whatever wraps.\<close>

lemma odd_divisor: "4 * (c :: u32) + 1 \<noteq> 0"
proof -
  have "bit (4 * c + 1) 0" by (simp add: bit_0)
  then show ?thesis by auto
qed

lemma accel_result_state:
  "run_state (snd (accel_result sc p q r)) =
     (if at_decel_start sc p then rsDECEL
      else if fst (accel_result sc p q r) = min_delay p \<and> \<not> min_delay p < ucast (ucast (step_delay p) - q)
      then rsRUN else run_state p)"
  by (auto simp: accel_result_def Let_def at_decel_start_def not_less)

lemma plan_ok_step:
  assumes ok: "plan_ok sc p" and sc: "unat sc < unat (steps_request p)"
    and step: "ramp_step (sc + 1) p = Inr (d, p')"
  shows "plan_ok (sc + 1) p'"
proof -
  have same: "same_plan p p'" by (rule ramp_step_frame[OF step])
  have sc1: "unat (sc + 1) = unat sc + 1"
    using sc unat_u32_less[of "steps_request p"] by (simp add: unat_add_small)
  have sc1': "uint (sc + 1) = uint sc + 1" using arg_cong[OF sc1, of int] by simp
  have sc': "uint sc < uint (steps_request p)" using sc by (simp add: word_less_def flip: word_less_nat_alt)
  have dv: "int (unat (steps_request p)) - int (unat (sc + 1)) \<le> - sint (decel_val p)"
    if "at_decel_start (sc + 1) p"
  proof -
    have "decel_start p \<noteq> HM_INVALID_STEP" "uint (decel_start p) \<le> uint (sc + 1)"
      using that by (auto simp: at_decel_start_def word_le_def)
    with ok show ?thesis by (simp add: plan_ok_def)
  qed
  have base: "plan_ok (sc + 1) p'" if
    "run_state p' \<noteq> rsSTOP \<or> sc + 1 = steps_request p"
    "run_state p' = rsDECEL \<Longrightarrow> int (unat (steps_request p)) - int (unat (sc + 1)) \<le> - sint (accel_count p')"
    using that ok same sc sc1 sc1' by (auto simp: plan_ok_def same_plan_def)
  from step show ?thesis
  proof (cases rule: ramp_step_cases)
    case (accel q r)
    then have p': "p' = snd (accel_result (sc + 1) (accel_enter p) q r)" by (metis snd_conv)
    have st: "run_state (accel_enter p) = rsACCEL" "at_decel_start (sc + 1) (accel_enter p) = at_decel_start (sc + 1) p"
      "decel_val (accel_enter p) = decel_val p"
      using accel(1) by (simp_all add: accel_enter_def Let_def at_decel_start_def)
    show ?thesis
      by (rule base) (use dv st in \<open>auto simp: p' accel_result_def Let_def at_decel_start_def split: if_splits\<close>)
  next
    case run
    then show ?thesis by (intro base) auto
  next
    case run_decel
    then show ?thesis using dv by (intro base) auto
  next
    case (decel q r)
    then have p': "p' = snd (decel_result (p\<lparr>accel_count := accel_count p + 1\<rparr>) q r)" by (metis snd_conv)
    have "int (unat (steps_request p)) - int (unat sc) \<le> - sint (accel_count p)"
      using ok decel(1) by (simp add: plan_ok_def)
    then have neg: "sint (accel_count p + 1) = sint (accel_count p) + 1" "sint (accel_count p) < 0"
      using sc' by (simp_all add: sint_inc)
    have last: "sc + 1 = steps_request p" if "0 \<le> sint (accel_count p + 1)"
      using that neg sc1' sc' ok decel(1) by (simp add: word_uint_eq_iff plan_ok_def)
    show ?thesis
      by (rule base)
        (use neg last ok decel(1) sc1' in \<open>auto simp: p' decel_result_def Let_def plan_ok_def\<close>)
  qed
qed

lemma plan_ok_updates [simp]:
  "plan_ok sc (note_min_delay d p) = plan_ok sc p" "plan_ok sc (p\<lparr>step_delay := d\<rparr>) = plan_ok sc p"
  "plan_ok sc (p\<lparr>steps_taken := t\<rparr>) = plan_ok sc p" "plan_ok sc (p\<lparr>dma_bufs := bs\<rparr>) = plan_ok sc p"
  by (simp_all add: plan_ok_def)

lemma ramp_step_TCurve:
  assumes "motor_method p = TCurve" and "run_state p \<noteq> rsSTOP"
  shows "\<exists>d p'. ramp_step sc p = Ok (d, p')"
proof -
  have "motor_method (accel_enter p) = TCurve" using assms(1) by (simp add: accel_enter_def)
  then have "snd (accel_divs (accel_enter p)) \<noteq> 0" by (simp add: accel_divs_def odd_divisor)
  moreover have "snd (decel_divs (p\<lparr>accel_count := accel_count p + 1\<rparr>)) \<noteq> 0"
    using assms(1) odd_divisor[of "accel_count p + 1"] by (simp add: decel_divs_def)
  ultimately have "\<exists>x. ramp_step sc p = Ok x"
    using assms(2) by (cases "run_state p") (simp_all add: ramp_step_def Let_def quot_rem_cases)
  then show ?thesis by auto
qed

text \<open>Where and why planning a T-curve can stop: only at a delay that is too short.\<close>

definition short_delay :: "nat \<Rightarrow> u32 \<Rightarrow> hm_step_info \<Rightarrow> bool" where
  "short_delay n sc p \<longleftrightarrow>
     (\<exists>m ds q d q'. m < n \<and> ramp_gen m sc p = Ok (ds, q) \<and>
        ramp_step (sc + word_of_nat m + 1) q = Ok (d, q') \<and> unat d < 2)"

lemma short_iff: "d - 1 = 0 \<or> d div 2 = 0 \<longleftrightarrow> unat (d :: u16) < 2"
proof -
  have "d - 1 = 0 \<longleftrightarrow> unat d = 1" by (metis diff_self right_minus_eq unat_1 word_unat_eq_iff)
  moreover have "d div 2 = 0 \<longleftrightarrow> unat d < 2" by (simp add: unat_div flip: unat_eq_0) linarith
  ultimately show ?thesis by auto
qed

lemma move_gen:
  assumes "plan_ok sc p" and "motor_method p = TCurve" and "unat sc + n \<le> unat (steps_request p)"
  shows "(\<exists>ds p'. ramp_gen n sc p = Ok (ds, p') \<and> plan_ok (sc + word_of_nat n) p') \<or>
    ramp_gen n sc p = Fault Hang \<and> short_delay n sc p"
  using assms
proof (induction n arbitrary: sc p)
  case 0
  then show ?case by simp
next
  case (Suc n)
  have lt: "unat sc < unat (steps_request p)" using Suc.prems(3) by simp
  have valid: "steps_request p \<noteq> HM_INVALID_STEP" using Suc.prems(1) by (simp add: plan_ok_def)
  then have nc: "next_count p sc = sc + 1" by (simp add: next_count_def)
  have "run_state p \<noteq> rsSTOP" using Suc.prems(1) lt by (auto simp: plan_ok_def)
  from ramp_step_TCurve[OF Suc.prems(2) this, of "sc + 1"] obtain d p' where
    step: "ramp_step (sc + 1) p = Ok (d, p')" by blast
  show ?case
  proof (cases "unat d < 2")
    case True
    then have "ramp_next (sc + 1) p = Fault Hang" using step short_iff[of d] by (simp add: ramp_next_def)
    moreover have "0 < Suc n \<and> ramp_gen 0 sc p = Ok ([], p) \<and>
        ramp_step (sc + word_of_nat 0 + 1) p = Ok (d, p') \<and> unat d < 2"
      using step True by simp
    then have "short_delay (Suc n) sc p" unfolding short_delay_def by blast
    ultimately show ?thesis using nc by simp
  next
    case False
    let ?p = "note_min_delay d (p'\<lparr>step_delay := d\<rparr>)"
    have nx: "ramp_next (sc + 1) p = Ok (d, ?p)" using step False short_iff[of d] by (simp add: ramp_next_def)
    have same: "same_plan p ?p" by (rule ramp_next_frame[OF nx])
    have sc1: "unat (sc + 1) = unat sc + 1"
      using lt unat_u32_less[of "steps_request p"] by (simp add: unat_add_small)
    have ok: "plan_ok (sc + 1) ?p" using plan_ok_step[OF Suc.prems(1) lt step] by simp
    have IH: "(\<exists>ds p'. ramp_gen n (sc + 1) ?p = Ok (ds, p') \<and> plan_ok (sc + 1 + word_of_nat n) p') \<or>
        ramp_gen n (sc + 1) ?p = Fault Hang \<and> short_delay n (sc + 1) ?p"
      using Suc.IH[OF ok] same Suc.prems(2,3) sc1 by (simp add: same_plan_def)
    have gen: "ramp_gen (Suc m) sc p = bnd (ramp_gen m (sc + 1) ?p) (\<lambda>(ds, q). Ok (d # ds, q))" for m
      using nx nc by simp
    from IH show ?thesis
    proof
      assume "\<exists>ds p'. ramp_gen n (sc + 1) ?p = Ok (ds, p') \<and> plan_ok (sc + 1 + word_of_nat n) p'"
      then show ?thesis unfolding gen by (auto simp: add_ac)
    next
      assume fault: "ramp_gen n (sc + 1) ?p = Fault Hang \<and> short_delay n (sc + 1) ?p"
      then obtain m ds q e q' where "m < n" "ramp_gen m (sc + 1) ?p = Ok (ds, q)"
          "ramp_step (sc + 1 + word_of_nat m + 1) q = Ok (e, q')" "unat e < 2"
        by (auto simp: short_delay_def)
      then have "Suc m < Suc n \<and> ramp_gen (Suc m) sc p = Ok (d # ds, q) \<and>
          ramp_step (sc + word_of_nat (Suc m) + 1) q = Ok (e, q') \<and> unat e < 2"
        unfolding gen by (simp add: add_ac)
      then have "short_delay (Suc n) sc p" unfolding short_delay_def by blast
      with fault show ?thesis unfolding gen by simp
    qed
  qed
qed

text \<open>
  C17.  Planning a move on a T-curve: filling a block keeps the plan consistent, so the state machine
  of the ramp never stands in its stop state while steps are missing (the source would hang there), it
  never divides by zero and never writes outside the block.  The one way to hang is a computed delay
  below 2.
\<close>

theorem move_fill:
  assumes "plan_ok (steps_taken p) p" and "motor_method p = TCurve"
    and "i < length (dma_bufs p)" and "buf_ok (dma_bufs p ! i)"
  shows "(\<exists>p'. hm_dma_update i p = Ok p' \<and> plan_ok (steps_taken p') p') \<or>
    hm_dma_update i p = Fault Hang \<and>
      short_delay (loop_turns p (dma_bufs p ! i) (steps_taken p)) (steps_taken p) p"
proof -
  let ?n = "loop_turns p (dma_bufs p ! i) (steps_taken p)"
  have valid: "steps_request p \<noteq> HM_INVALID_STEP" and le: "unat (steps_taken p) \<le> unat (steps_request p)"
    using assms(1) by (simp_all add: plan_ok_def)
  then have "unat (steps_taken p) + ?n \<le> unat (steps_request p)" by (simp add: loop_turns_def)
  from move_gen[OF assms(1,2) this] show ?thesis
  proof (elim disjE exE conjE)
    fix ds p'
    assume "ramp_gen ?n (steps_taken p) p = Ok (ds, p')" "plan_ok (steps_taken p + word_of_nat ?n) p'"
    with hm_dma_update_gen[OF assms(4) refl] valid show ?thesis by (simp add: advance_def)
  next
    assume "ramp_gen ?n (steps_taken p) p = Fault Hang" "short_delay ?n (steps_taken p) p"
    with hm_dma_update_gen[OF assms(4) refl] show ?thesis by simp
  qed
qed

text \<open>
  The S-curve with an empty ramp, \<open>n2 = 0\<close>, divides by zero with the first step of its
  deceleration, whatever the other values are.
\<close>

theorem scurve_empty_ramp:
  assumes "run_state p = rsDECEL" and "motor_method p = sCurve" and "ramp_n2 p = 0"
  shows "ramp_step sc p = Fault DivByZero"
  using assms by (simp add: ramp_step_def decel_divs_def quot_rem_def)

section \<open>Concrete axes\<close>

lemma buf_zero_ok [simp]: "buf_ok buf_zero" "buf_count buf_zero = 0" "buf_steps buf_zero = []"
  by (simp_all add: buf_ok_def buf_count_def buf_steps_def buf_zero_def)

text \<open>A run without end at 10000 steps per second, and a move of 250 steps.\<close>

definition demo_run :: hm_step_info where
  "demo_run = axis_zero\<lparr>run_state := rsACCEL, steps_request := HM_INVALID_STEP,
     decel_start := HM_INVALID_STEP, min_delay := 100, step_delay := 2000\<rparr>"

definition demo_move :: hm_step_info where
  "demo_move = axis_zero\<lparr>run_state := rsACCEL, steps_request := 250, steps_taken := 1,
     decel_start := 125, decel_val := - 125, min_delay := 100, step_delay := 2000\<rparr>"

lemma free_run_fill_witness:
  "\<exists>ds p'. hm_dma_update 0 demo_run = Ok p' \<and> buf_steps (dma_bufs p' ! 0) = map triple ds \<and> length ds = 100"
proof -
  have "cruise_ok 0 demo_run" by (simp add: cruise_ok_def demo_run_def axis_zero_def)
  from free_run_fill[OF this, of 0] show ?thesis by (auto simp: demo_run_def axis_zero_def)
qed

lemma demo_move_plan: "plan_ok (steps_taken demo_move) demo_move"
  by (simp add: plan_ok_def demo_move_def axis_zero_def HM_INVALID_STEP_def)

lemma move_fill_witness:
  "(\<exists>p'. hm_dma_update 0 demo_move = Ok p' \<and> plan_ok (steps_taken p') p') \<or>
   hm_dma_update 0 demo_move = Fault Hang \<and>
     short_delay (loop_turns demo_move (dma_bufs demo_move ! 0) (steps_taken demo_move)) (steps_taken demo_move) demo_move"
  by (rule move_fill[OF demo_move_plan]) (simp_all add: demo_move_def axis_zero_def)

definition demo_slow :: hm_step_info where
  "demo_slow = axis_zero\<lparr>run_state := rsRUN, steps_request := 3, steps_taken := 1,
     decel_start := 3, decel_val := - 1, min_delay := 5000, step_delay := 5000, last_accel_delay := 5000\<rparr>"

lemma demo_slow_fill: "\<exists>p'. hm_dma_update 0 demo_slow = Ok p' \<and> steps_taken p' = 3"
proof -
  have "(case hm_dma_update 0 demo_slow of Inl e \<Rightarrow> False | Inr p' \<Rightarrow> steps_taken p' = 3)"
    by code_simp
  then show ?thesis by (auto split: sum.splits)
qed

lemma hm_dma_update_accounting_witness:
  "\<exists>p'. hm_dma_update 0 demo_slow = Ok p' \<and> buf_count (dma_bufs p' ! 0) = 2 \<and> unat (steps_taken p') = 3"
proof -
  obtain p' where p': "hm_dma_update 0 demo_slow = Ok p'" "steps_taken p' = 3" using demo_slow_fill by blast
  have "dma_bufs demo_slow = [buf_zero, buf_zero]" "steps_taken demo_slow = 1" "steps_request demo_slow = 3"
    by (simp_all add: demo_slow_def axis_zero_def)
  with hm_dma_update_accounting[OF _ _ _ p'(1)] p' show ?thesis by (simp add: HM_INVALID_STEP_def)
qed

lemma scurve_empty_ramp_witness:
  "ramp_step 7 (axis_zero\<lparr>run_state := rsDECEL, motor_method := sCurve\<rparr>) = Fault DivByZero"
  by (rule scurve_empty_ramp) (simp_all add: axis_zero_def)

end
