(* ===== verification/Motor_Hw.thy ===== *)
theory Motor_Hw
  imports Motor_Defs
begin

text \<open>
  The pins of an axis, the first half of \<^verbatim>\<open>hm_step_motor_limit_operation.c\<close>: the table that says which
  pins, ports and interrupt lines an axis has, their configuration, the three switches, the direction
  and the enable line, the stop modes.

  An axis number that is not checked by the source is an access outside the array when it is too
  large, the fault \<open>OutOfBounds\<close>.  The delay loop between the two samples of a switch has no effect
  but time; the levels of the two samples are independent.
\<close>

section \<open>Configuration\<close>

definition RCC_APB2Periph_GPIOC :: u32 where "RCC_APB2Periph_GPIOC = 0x10"
definition RCC_APB2Periph_GPIOD :: u32 where "RCC_APB2Periph_GPIOD = 0x20"
definition RCC_APB2Periph_GPIOE :: u32 where "RCC_APB2Periph_GPIOE = 0x40"
definition RCC_APB2Periph_AFIO :: u32 where "RCC_APB2Periph_AFIO = 0x1"

definition GPIO_PortSourceGPIOC :: u8 where "GPIO_PortSourceGPIOC = 2"
definition GPIO_PortSourceGPIOD :: u8 where "GPIO_PortSourceGPIOD = 3"
definition GPIO_PortSourceGPIOE :: u8 where "GPIO_PortSourceGPIOE = 4"

definition limit_config_0 :: "hm_step_motor_hw_config \<Rightarrow> hm_step_motor_hw_config" where
  "limit_config_0 c = c\<lparr>
     ptCW_lmt := GPIOD, ptCCW_lmt := GPIOD, ptHome_lmt := GPIOD, ptDir := GPIOC, ptEna := GPIOC,
     pinCW_lmt := GPIO_Pin_no 0, pinCCW_lmt := GPIO_Pin_no 1, pinHome_lmt := GPIO_Pin_no 2,
     pinDir := GPIO_Pin_no 0, pinEna := GPIO_Pin_no 2,
     extLineCW := EXTI_Line_no 0, extLineCCW := EXTI_Line_no 1, extLineHome := EXTI_Line_no 2,
     irpFunCW := EXTI0_fn, irpFunCCW := EXTI1_fn, irpFunHome := EXTI2_fn,
     portSourceCW := GPIO_PortSourceGPIOD, portSourceCCW := GPIO_PortSourceGPIOD,
     portSourceHome := GPIO_PortSourceGPIOD,
     pinSourceCW := 0, pinSourceCCW := 1, pinSourceHome := 2,
     hw_rcc_mod2 := ucast (RCC_APB2Periph_GPIOD OR RCC_APB2Periph_AFIO OR RCC_APB2Periph_GPIOC),
     hw_rcc_mod1 := 0\<rparr>"

definition limit_config_1 :: "hm_step_motor_hw_config \<Rightarrow> hm_step_motor_hw_config" where
  "limit_config_1 c = c\<lparr>
     ptCW_lmt := GPIOD, ptCCW_lmt := GPIOD, ptHome_lmt := GPIOD, ptDir := GPIOC, ptEna := GPIOC,
     pinCW_lmt := GPIO_Pin_no 3, pinCCW_lmt := GPIO_Pin_no 4, pinHome_lmt := GPIO_Pin_no 5,
     pinDir := GPIO_Pin_no 3, pinEna := GPIO_Pin_no 4,
     extLineCW := EXTI_Line_no 3, extLineCCW := EXTI_Line_no 4, extLineHome := EXTI_Line_no 5,
     irpFunCW := EXTI3_fn, irpFunCCW := EXTI4_fn, irpFunHome := EXTI9_5_fn,
     portSourceCW := GPIO_PortSourceGPIOD, portSourceCCW := GPIO_PortSourceGPIOD,
     portSourceHome := GPIO_PortSourceGPIOD,
     pinSourceCW := 3, pinSourceCCW := 4, pinSourceHome := 5,
     hw_rcc_mod2 := ucast (RCC_APB2Periph_GPIOC OR RCC_APB2Periph_GPIOD),
     hw_rcc_mod1 := 0\<rparr>"

definition limit_config_2 :: "hm_step_motor_hw_config \<Rightarrow> hm_step_motor_hw_config" where
  "limit_config_2 c = c\<lparr>
     ptCW_lmt := GPIOC, ptCCW_lmt := GPIOC, ptHome_lmt := GPIOC, ptDir := GPIOD, ptEna := GPIOD,
     pinCW_lmt := GPIO_Pin_no 6, pinCCW_lmt := GPIO_Pin_no 7, pinHome_lmt := GPIO_Pin_no 8,
     pinDir := GPIO_Pin_no 6, pinEna := GPIO_Pin_no 7,
     extLineCW := EXTI_Line_no 6, extLineCCW := EXTI_Line_no 7, extLineHome := EXTI_Line_no 8,
     irpFunCW := EXTI9_5_fn, irpFunCCW := EXTI9_5_fn, irpFunHome := EXTI9_5_fn,
     portSourceCW := GPIO_PortSourceGPIOC, portSourceCCW := GPIO_PortSourceGPIOC,
     portSourceHome := GPIO_PortSourceGPIOC,
     pinSourceCW := 6, pinSourceCCW := 7, pinSourceHome := 8,
     hw_rcc_mod2 := ucast (RCC_APB2Periph_GPIOC OR RCC_APB2Periph_GPIOD),
     hw_rcc_mod1 := 0\<rparr>"

definition limit_config_3 :: "hm_step_motor_hw_config \<Rightarrow> hm_step_motor_hw_config" where
  "limit_config_3 c = c\<lparr>
     ptCW_lmt := GPIOE, ptCCW_lmt := GPIOE, ptHome_lmt := GPIOE, ptDir := GPIOC, ptEna := GPIOC,
     pinCW_lmt := GPIO_Pin_no 10, pinCCW_lmt := GPIO_Pin_no 11, pinHome_lmt := GPIO_Pin_no 12,
     pinDir := GPIO_Pin_no 10, pinEna := GPIO_Pin_no 11,
     extLineCW := EXTI_Line_no 10, extLineCCW := EXTI_Line_no 11, extLineHome := EXTI_Line_no 12,
     irpFunCW := EXTI15_10_fn, irpFunCCW := EXTI15_10_fn, irpFunHome := EXTI15_10_fn,
     portSourceCW := GPIO_PortSourceGPIOE, portSourceCCW := GPIO_PortSourceGPIOE,
     portSourceHome := GPIO_PortSourceGPIOE,
     pinSourceCW := 10, pinSourceCCW := 11, pinSourceHome := 12,
     hw_rcc_mod2 := ucast (RCC_APB2Periph_GPIOC OR RCC_APB2Periph_GPIOE),
     hw_rcc_mod1 := 0\<rparr>"

definition limit_config :: "nat \<Rightarrow> hm_step_motor_hw_config \<Rightarrow> hm_step_motor_hw_config" where
  "limit_config a c =
     (let c = c\<lparr>blast_hit_home := False\<rparr>;
          c = (if a = 0 then limit_config_0 c
               else if a = 1 then limit_config_1 c
               else if a = 2 then limit_config_2 c
               else if a = 3 then limit_config_3 c
               else c)
      in c\<lparr>bStopImmediatelyCW := 1, bStopImmediatelyCCW := 1, bStopImmediatelyHome := 1\<rparr>)"

text \<open>An access to the axis \<open>a\<close> of the array.\<close>

definition on_axis :: "nat \<Rightarrow> 'a motor_st_scheme \<Rightarrow> 'b res \<Rightarrow> 'b res" where
  "on_axis a s m = (if a < length (s_axis_info s) then m else Fault OutOfBounds)"

lemma on_axis_in [simp, motor_simps]: "a < length (s_axis_info s) \<Longrightarrow> on_axis a s m = m"
  by (simp add: on_axis_def)

abbreviation hw_of :: "nat \<Rightarrow> 'a motor_st_scheme \<Rightarrow> hm_step_motor_hw_config" where
  "hw_of a s \<equiv> motor_hw_config (axis a s)"

definition hm_motor_hw_limit_config :: "nat \<Rightarrow> 'a motor_st_scheme \<Rightarrow> 'a motor_st_scheme res" where
  "hm_motor_hw_limit_config a s = on_axis a s (Ok (upd_hw a (limit_config a) s))"

section \<open>Lines\<close>

definition hm_motor_enable_axis :: "nat \<Rightarrow> bool \<Rightarrow> 'a motor_st_scheme \<Rightarrow> bool \<times> 'a motor_st_scheme" where
  "hm_motor_enable_axis a benable s =
     (if a \<ge> HM_MAX_AXIS then (False, s)
      else if benable \<and> \<not> benabled (hw_of a s)
      then (True, upd_hw a (\<lambda>c. c\<lparr>benabled := True\<rparr>)
                    (GPIO_ResetBits (ptEna (hw_of a s)) (pinEna (hw_of a s)) s))
      else if \<not> benable \<and> benabled (hw_of a s)
      then (True, upd_hw a (\<lambda>c. c\<lparr>benabled := False\<rparr>)
                    (GPIO_SetBits (ptEna (hw_of a s)) (pinEna (hw_of a s)) s))
      else (True, s))"

definition hm_motor_is_enable :: "nat \<Rightarrow> 'a motor_st_scheme \<Rightarrow> u8 res" where
  "hm_motor_is_enable a s = on_axis a s (Ok (of_truth (benabled (hw_of a s))))"

definition hm_motor_set_dir :: "nat \<Rightarrow> bool \<Rightarrow> 'a motor_st_scheme \<Rightarrow> 'a motor_st_scheme res" where
  "hm_motor_set_dir a bCW s = on_axis a s (Ok
     (if bCW then GPIO_SetBits (ptDir (hw_of a s)) (pinDir (hw_of a s)) s
      else GPIO_ResetBits (ptDir (hw_of a s)) (pinDir (hw_of a s)) s))"

section \<open>Pin and interrupt set up\<close>

definition limit_pin :: "u16 \<Rightarrow> GPIOMode \<Rightarrow> GPIO_InitTypeDef" where
  "limit_pin m mode = \<lparr>GPIO_Pin = m, GPIO_Speed = GPIO_Speed_50MHz, GPIO_Mode = mode\<rparr>"

definition limit_exti :: "bool \<Rightarrow> u32 \<Rightarrow> EXTI_InitTypeDef" where
  "limit_exti on l = EXTI_StructInit\<lparr>EXTI_Line := l, EXTI_Mode := EXTI_Mode_Interrupt,
     EXTI_Trigger := EXTI_Trigger_Falling, EXTI_LineCmd := on\<rparr>"

definition limit_exti_all :: "bool \<Rightarrow> hm_step_motor_hw_config \<Rightarrow> 'a hw_st_scheme \<Rightarrow> 'a hw_st_scheme" where
  "limit_exti_all on c s =
     (let s = EXTI_Init (limit_exti on (extLineCW c)) s;
          s = EXTI_Init (limit_exti on (extLineCCW c)) s
      in EXTI_Init (limit_exti on (extLineHome c)) s)"

definition limit_gpio :: "hm_step_motor_hw_config \<Rightarrow> 'a hw_st_scheme \<Rightarrow> 'a hw_st_scheme" where
  "limit_gpio c s =
     (let s = GPIO_Init (ptCW_lmt c) (limit_pin (pinCW_lmt c) GPIO_Mode_IPU) s;
          s = GPIO_Init (ptCCW_lmt c) (limit_pin (pinCCW_lmt c) GPIO_Mode_IPU) s;
          s = GPIO_Init (ptHome_lmt c) (limit_pin (pinHome_lmt c) GPIO_Mode_IPU) s;
          s = GPIO_Init (ptDir c) (limit_pin (pinDir c) GPIO_Mode_Out_PP) s
      in GPIO_Init (ptEna c) (limit_pin (pinEna c) GPIO_Mode_Out_PP) s)"

definition limit_mux :: "hm_step_motor_hw_config \<Rightarrow> 'a hw_st_scheme \<Rightarrow> 'a hw_st_scheme" where
  "limit_mux c s =
     (let s = GPIO_EXTILineConfig (portSourceCW c) (pinSourceCW c) s;
          s = GPIO_EXTILineConfig (portSourceCCW c) (pinSourceCCW c) s
      in GPIO_EXTILineConfig (portSourceHome c) (pinSourceHome c) s)"

definition hm_motor_hw_limit_init :: "nat \<Rightarrow> 'a motor_st_scheme \<Rightarrow> 'a motor_st_scheme res" where
  "hm_motor_hw_limit_init a s = on_axis a s
     (let c = hw_of a s;
          s = limit_gpio c s;
          s = limit_mux c s;
          s = limit_exti_all ENABLE c s
      in Ok (snd (hm_motor_enable_axis a True s)))"

definition hm_motor_hw_enable_irq :: "nat \<Rightarrow> bool \<Rightarrow> 'a motor_st_scheme \<Rightarrow> 'a motor_st_scheme res" where
  "hm_motor_hw_enable_irq a bena s = on_axis a s (Ok (limit_exti_all bena (hw_of a s) s))"

section \<open>Switches\<close>

definition sense_hit :: "gpio_port \<Rightarrow> u16 \<Rightarrow> 'a hw_st_scheme \<Rightarrow> bool \<times> 'a hw_st_scheme" where
  "sense_hit p m s = (let (v, s) = GPIO_ReadInputDataBit p m s in (v = HM_SENSE_HIT, s))"

definition hit_switch :: "gpio_port \<Rightarrow> u16 \<Rightarrow> 'a hw_st_scheme \<Rightarrow> bool \<times> 'a hw_st_scheme" where
  "hit_switch p m s =
     (let (nfirst, s) = sense_hit p m s in if \<not> nfirst then (False, s) else sense_hit p m s)"

definition hm_motor_hit_CW :: "nat \<Rightarrow> 'a motor_st_scheme \<Rightarrow> (bool \<times> 'a motor_st_scheme) res" where
  "hm_motor_hit_CW a s = on_axis a s (Ok (hit_switch (ptCW_lmt (hw_of a s)) (pinCW_lmt (hw_of a s)) s))"

definition hm_motor_hit_CCW :: "nat \<Rightarrow> 'a motor_st_scheme \<Rightarrow> (bool \<times> 'a motor_st_scheme) res" where
  "hm_motor_hit_CCW a s = on_axis a s (Ok (hit_switch (ptCCW_lmt (hw_of a s)) (pinCCW_lmt (hw_of a s)) s))"

definition hm_motor_hit_Home :: "nat \<Rightarrow> 'a motor_st_scheme \<Rightarrow> (bool \<times> 'a motor_st_scheme) res" where
  "hm_motor_hit_Home a s = on_axis a s (Ok (hit_switch (ptHome_lmt (hw_of a s)) (pinHome_lmt (hw_of a s)) s))"

section \<open>Stop modes\<close>

definition hm_motor_set_stop_mode ::
  "nat \<Rightarrow> u32 \<Rightarrow> u32 \<Rightarrow> u32 \<Rightarrow> u32 \<Rightarrow> 'a motor_st_scheme \<Rightarrow> 'a motor_st_scheme" where
  "hm_motor_set_stop_mode a bsudCW bsudCCW bsudHome bTcurve s =
     (if a \<ge> HM_MAX_AXIS then s
      else upd_axis a (\<lambda>p. p\<lparr>motor_method := (if truth bTcurve then TCurve else sCurve)\<rparr>)
             (upd_hw a (\<lambda>c. c\<lparr>bStopImmediatelyCW := bsudCW, bStopImmediatelyCCW := bsudCCW,
                bStopImmediatelyHome := bsudHome\<rparr>) s))"

text \<open>The four out parameters, or nothing when they are left alone.\<close>

definition hm_motor_get_stop_mode :: "nat \<Rightarrow> 'a motor_st_scheme \<Rightarrow> (u32 \<times> u32 \<times> u32 \<times> u8) option" where
  "hm_motor_get_stop_mode a s =
     (if a \<ge> HM_MAX_AXIS then None
      else Some (bStopImmediatelyCW (hw_of a s), bStopImmediatelyCCW (hw_of a s),
                 bStopImmediatelyHome (hw_of a s), of_truth (motor_method (axis a s) = TCurve)))"

section \<open>What the driver calls leave alone\<close>

text \<open>The axes are no registers.\<close>

lemma s_axis_info_hw [simp, motor_simps]:
  "s_axis_info (GPIO_SetBits p m s) = s_axis_info s" "s_axis_info (GPIO_ResetBits p m s) = s_axis_info s"
  "s_axis_info (GPIO_Init p i s) = s_axis_info s" "s_axis_info (hm_led_act e b s) = s_axis_info s"
  "s_axis_info (hm_led_chan k b s) = s_axis_info s" "s_axis_info (TIM_Cmd t b s) = s_axis_info s"
  "s_axis_info (DMA_Cmd c b s) = s_axis_info s" "s_axis_info (upd_tim t f s) = s_axis_info s"
  "s_axis_info (write_CNDTR c v s) = s_axis_info s" "s_axis_info (write_CMAR c r s) = s_axis_info s"
  "s_axis_info (DMA_ClearITPendingBit it s) = s_axis_info s"
  "s_axis_info (GPIO_EXTILineConfig src pn s) = s_axis_info s" "s_axis_info (EXTI_Init ei s) = s_axis_info s"
  "s_axis_info (EXTI_ClearITPendingBit l s) = s_axis_info s"
  "s_axis_info (enable_irq s) = s_axis_info s" "s_axis_info (disable_irq s) = s_axis_info s"
  by (simp_all add: GPIO_SetBits_def GPIO_ResetBits_def GPIO_Init_def hm_led_act_def hm_led_chan_def Let_def
      TIM_Cmd_def upd_tim_def DMA_Cmd_def write_CNDTR_def write_CMAR_def DMA_ClearITPendingBit_def
      write_IFCR_def GPIO_EXTILineConfig_def EXTI_Init_def EXTI_ClearITPendingBit_def
      enable_irq_def disable_irq_def)

lemma axis_same: "s_axis_info t = s_axis_info s \<Longrightarrow> axis a t = axis a s"
  by (simp add: axis_def)

lemma axis_hw [simp, motor_simps]:
  "axis a (GPIO_SetBits p m s) = axis a s" "axis a (GPIO_ResetBits p m s) = axis a s"
  "axis a (hm_led_chan k b s) = axis a s" "axis a (TIM_Cmd t b s) = axis a s"
  "axis a (DMA_Cmd c b s) = axis a s" "axis a (upd_tim t f s) = axis a s"
  "axis a (write_CNDTR c v s) = axis a s" "axis a (write_CMAR c r s) = axis a s"
  "axis a (DMA_ClearITPendingBit it s) = axis a s" "axis a (EXTI_ClearITPendingBit l s) = axis a s"
  "axis a (enable_irq s) = axis a s" "axis a (disable_irq s) = axis a s"
  by (rule axis_same, simp)+

text \<open>The registers are no axes.\<close>

lemma hw_upd_axis [simp, motor_simps]:
  "gpio (upd_axis a f s) = gpio s" "tim (upd_axis a f s) = tim s" "dma (upd_axis a f s) = dma s"
  "exti (upd_axis a f s) = exti s" "pin_level (upd_axis a f s) = pin_level s"
  "input_reads (upd_axis a f s) = input_reads s" "DMA1_ISR (upd_axis a f s) = DMA1_ISR s"
  "primask (upd_axis a f s) = primask s" "EXTICR (upd_axis a f s) = EXTICR s"
  by (simp_all add: upd_axis_def)

lemma hw_upd_hw [simp, motor_simps]:
  "gpio (upd_hw a g s) = gpio s" "tim (upd_hw a g s) = tim s" "dma (upd_hw a g s) = dma s"
  "exti (upd_hw a g s) = exti s" "pin_level (upd_hw a g s) = pin_level s"
  "input_reads (upd_hw a g s) = input_reads s" "DMA1_ISR (upd_hw a g s) = DMA1_ISR s"
  "primask (upd_hw a g s) = primask s" "EXTICR (upd_hw a g s) = EXTICR s"
  by (simp_all add: upd_hw_def)

section \<open>Two samples\<close>

text \<open>The level of the pins \<open>m\<close> of the port \<open>p\<close> at the \<open>n\<close>-th read is low.\<close>

definition low_at :: "nat \<Rightarrow> gpio_port \<Rightarrow> u16 \<Rightarrow> 'a hw_st_scheme \<Rightarrow> bool" where
  "low_at n p m s \<longleftrightarrow> pin_level s n p AND m = 0"

lemma hit_switch_eq:
  "hit_switch p m s =
     (low_at (input_reads s) p m s \<and> low_at (Suc (input_reads s)) p m s,
      s\<lparr>input_reads := input_reads s + (if low_at (input_reads s) p m s then 2 else 1)\<rparr>)"
  by (simp add: hit_switch_def sense_hit_def GPIO_ReadInputDataBit_def HM_SENSE_HIT_def low_at_def)

text \<open>A state that differs in the number of reads only.\<close>

definition reads_more :: "'a hw_st_scheme \<Rightarrow> 'a hw_st_scheme \<Rightarrow> bool" where
  "reads_more s t \<longleftrightarrow> t = s\<lparr>input_reads := input_reads t\<rparr>"

lemma reads_more_refl [simp]: "reads_more s s"
  by (simp add: reads_more_def)

lemma reads_more_trans: "reads_more s t \<Longrightarrow> reads_more t u \<Longrightarrow> reads_more s u"
  unfolding reads_more_def by (metis hw_st.update_convs(3) hw_st.surjective)

lemma reads_more_update: "reads_more s (s\<lparr>input_reads := n\<rparr>)"
  by (simp add: reads_more_def)

lemma reads_more_axis: "reads_more s t \<Longrightarrow> s_axis_info t = s_axis_info s"
  unfolding reads_more_def by (metis motor_st.select_convs(1) motor_st.surjective hw_st.update_convs(3))

lemma hit_CW_Ok:
  "a < length (s_axis_info s) \<Longrightarrow> \<exists>h t. hm_motor_hit_CW a s = Ok (h, t) \<and> reads_more s t"
  by (simp add: hm_motor_hit_CW_def hit_switch_eq reads_more_update)

lemma hit_CCW_Ok:
  "a < length (s_axis_info s) \<Longrightarrow> \<exists>h t. hm_motor_hit_CCW a s = Ok (h, t) \<and> reads_more s t"
  by (simp add: hm_motor_hit_CCW_def hit_switch_eq reads_more_update)

lemma hit_Home_Ok:
  "a < length (s_axis_info s) \<Longrightarrow> \<exists>h t. hm_motor_hit_Home a s = Ok (h, t) \<and> reads_more s t"
  by (simp add: hm_motor_hit_Home_def hit_switch_eq reads_more_update)

end
