(* ===== verification/Motor_Ctl.thy ===== *)
theory Motor_Ctl
  imports Motor_Hw Motor_Ramp
begin

text \<open>
  The operations of the motor driver \<^verbatim>\<open>hm_step_motor.c\<close>: the start of a run and of a move, the set up
  of the timer and of the DMA channel, the two interrupts of a block of steps, the two ways to stop, the
  queries and settings.  The set up of the hardware at power up is in \<open>Motor_Init\<close>.

  The debug messages of the source are not modelled.  Two places where the source loops for ever
  (the next block not filled, a delay below 2) are the fault \<open>Hang\<close>.
\<close>

section \<open>States and settings\<close>

definition hm_mark_axis_state :: "nat \<Rightarrow> AXIS_STATE_E \<Rightarrow> 'a motor_st_scheme \<Rightarrow> 'a motor_st_scheme res" where
  "hm_mark_axis_state a e s = on_axis a s (Ok (upd_axis a (\<lambda>p. p\<lparr>axis_state := e\<rparr>) s))"

definition hm_step_motor_state :: "nat \<Rightarrow> 'a motor_st_scheme \<Rightarrow> RUN_STATE_E" where
  "hm_step_motor_state a s = (if axis_state (axis a s) \<noteq> asStoped then rsRUN else rsSTOP)"

definition hm_step_axis_state :: "nat \<Rightarrow> 'a motor_st_scheme \<Rightarrow> AXIS_STATE_E res" where
  "hm_step_axis_state a s = on_axis a s (Ok (axis_state (axis a s)))"

definition hm_step_motor_last_actual_steps_moved :: "nat \<Rightarrow> 'a motor_st_scheme \<Rightarrow> u32 res" where
  "hm_step_motor_last_actual_steps_moved a s = on_axis a s (Ok (steps_tim_irq (axis a s)))"

definition hm_step_motor_set_cur_pos :: "nat \<Rightarrow> u32 \<Rightarrow> 'a motor_st_scheme \<Rightarrow> 'a motor_st_scheme" where
  "hm_step_motor_set_cur_pos a newpos s =
     (if a \<ge> HM_MAX_AXIS then s else upd_axis a (\<lambda>p. p\<lparr>motor_pos := newpos\<rparr>) s)"

definition hm_step_motor_set_home_stop_mode :: "nat \<Rightarrow> u32 \<Rightarrow> 'a motor_st_scheme \<Rightarrow> 'a motor_st_scheme" where
  "hm_step_motor_set_home_stop_mode a blowtriger s =
     (if a \<ge> HM_MAX_AXIS then s else upd_axis a (\<lambda>p. p\<lparr>bhome_stop_low_triger := blowtriger\<rparr>) s)"

definition hm_step_motor_get_home_stop_mode :: "nat \<Rightarrow> 'a motor_st_scheme \<Rightarrow> u32" where
  "hm_step_motor_get_home_stop_mode a s =
     (if a \<ge> HM_MAX_AXIS then 0 else bhome_stop_low_triger (axis a s))"

definition hm_step_motor_set_axis_curve :: "nat \<Rightarrow> methrd_e \<Rightarrow> 'a motor_st_scheme \<Rightarrow> 'a motor_st_scheme" where
  "hm_step_motor_set_axis_curve a e s =
     (if a \<ge> HM_MAX_AXIS \<or> hm_step_motor_state a s \<noteq> rsSTOP then s
      else upd_axis a (\<lambda>p. p\<lparr>motor_method := e\<rparr>) s)"

definition hm_step_motor_get_axis_curve :: "nat \<Rightarrow> 'a motor_st_scheme \<Rightarrow> methrd_e res" where
  "hm_step_motor_get_axis_curve a s = on_axis a s (Ok (motor_method (axis a s)))"

section \<open>Timer and channel\<close>

definition buf_at :: "nat \<Rightarrow> hm_step_info \<Rightarrow> hm_dma_buf_info res" where
  "buf_at i p = (if i < length (dma_bufs p) then Ok (dma_bufs p ! i) else Fault OutOfBounds)"

definition next_buf_idx :: "hm_step_info \<Rightarrow> nat" where
  "next_buf_idx p = (unat (dma_buf_idx p) + 1) mod HM_DMA_BUF_BLOCK_SZ"

definition hm_tim_pause_resume :: "nat \<Rightarrow> bool \<Rightarrow> 'a motor_st_scheme \<Rightarrow> 'a motor_st_scheme" where
  "hm_tim_pause_resume a bpause s =
     (if bpause then TIM_Cmd (ptim (axis a s)) DISABLE (DMA_Cmd (pdma (axis a s)) DISABLE s)
      else TIM_Cmd (ptim (axis a s)) ENABLE s)"

definition hm_tim_start :: "nat \<Rightarrow> bool \<Rightarrow> u64 \<Rightarrow> 'a motor_st_scheme \<Rightarrow> 'a motor_st_scheme res" where
  "hm_tim_start a benable fre s =
     (let p = axis a s in
      if benable then
        let s = upd_tim (ptim p) (\<lambda>r. r\<lparr>CCR1 := step_delay p - 1\<rparr>) s;
            s = upd_tim (ptim p) (\<lambda>r. r\<lparr>ARR := step_delay p div 2\<rparr>) s;
            s = (if fre \<noteq> 0
                 then upd_tim (ptim p) (\<lambda>r. r\<lparr>PSC := ucast (ucast SystemCoreClock div fre) - 1\<rparr>) s
                 else s);
            s = TIM_Cmd (ptim p) ENABLE s;
            s = hm_led_chan (axis_idx p) True s
        in hm_mark_axis_state (unat (axis_idx p)) asRuning s
      else
        let s = TIM_Cmd (ptim p) DISABLE s;
            s = hm_led_chan (axis_idx p) False s;
            s = upd_axis a (\<lambda>p. p\<lparr>bdo_home := False\<rparr>) s
        in hm_mark_axis_state (unat (axis_idx p)) asStoped s)"

definition hm_dma_setup :: "nat \<Rightarrow> bool \<Rightarrow> 'a motor_st_scheme \<Rightarrow> 'a motor_st_scheme res" where
  "hm_dma_setup a benable s =
     (let p = axis a s; i = unat (dma_buf_idx p) in
      bnd (buf_at i p) (\<lambda>b.
        let s = write_CNDTR (pdma p) (ucast (dma_buf_len b)) s;
            s = write_CMAR (pdma p) (DmaBuf a i) s
        in Ok (DMA_Cmd (pdma p) benable s)))"

section \<open>Starting\<close>

text \<open>
  The switches are read before a start: one that is hit in the direction of the run, or the home
  switch of a homing run that stops on its level, makes the start do nothing.
\<close>

definition run_blocked :: "nat \<Rightarrow> 'a motor_st_scheme \<Rightarrow> (bool \<times> 'a motor_st_scheme) res" where
  "run_blocked a s =
     bnd (hm_motor_hit_CW a s) (\<lambda>(hit, s).
       if hit \<and> motor_dir (axis a s) = rdCW then Ok (True, s)
       else bnd (hm_motor_hit_CCW a s) (\<lambda>(hit, s).
         if hit \<and> motor_dir (axis a s) = rdCCW then Ok (True, s)
         else bnd (hm_motor_hit_Home a s) (\<lambda>(hit, s).
           Ok (hit \<and> bdo_home (axis a s) \<and> truth (bhome_stop_low_triger (axis a s)), s))))"

definition buf_empty :: "hm_dma_buf_info \<Rightarrow> hm_dma_buf_info" where
  "buf_empty b = b\<lparr>buf_valid := False, dma_buf_len := 0\<rparr>"

definition set_run_dir :: "u32 \<Rightarrow> hm_step_info \<Rightarrow> hm_step_info" where
  "set_run_dir v p = p\<lparr>motor_dir := (if sint v < 0 then rdCCW else rdCW)\<rparr>"

definition run_reset :: "u32 \<Rightarrow> hm_step_info \<Rightarrow> hm_step_info" where
  "run_reset speed p = p\<lparr>HM_STEP_FRE := tim_base_fre speed,
     steps_request := HM_INVALID_STEP, steps_taken := HM_INVALID_STEP, steps_actual := HM_INVALID_STEP,
     steps_tim_irq := 0, bstopping := False, ramp_rest := 0,
     dma_bufs := map buf_empty (dma_bufs p), dma_buf_idx := 0, min_step_delay := 0xffff,
     dma_irq_idx := 0\<rparr>"

definition move_reset :: "u32 \<Rightarrow> u32 \<Rightarrow> hm_step_info \<Rightarrow> hm_step_info" where
  "move_reset speed n p = p\<lparr>HM_STEP_FRE := tim_base_fre speed,
     steps_request := n, steps_taken := 0, steps_actual := 0,
     steps_tim_irq := 0, bstopping := False, bdo_home := False, axis_state := asPreparing,
     dma_bufs := map buf_empty (dma_bufs p), dma_buf_idx := 0, min_step_delay := 0xffff,
     dma_irq_idx := 0, ramp_rest := 0\<rparr>"

text \<open>The first step is put into the first block by hand; its second word is 1 for a run and 0 for a move.\<close>

definition put_first :: "u16 \<Rightarrow> hm_step_info \<Rightarrow> hm_step_info res" where
  "put_first w1 p =
     bnd (buf_at 0 p) (\<lambda>b.
     bnd (emit_step (step_delay p - 1) w1 (step_delay p div 2) b) (\<lambda>b.
       Ok (p\<lparr>dma_bufs := (dma_bufs p)[0 := b]\<rparr>)))"

text \<open>The start state of the ramp, then the first block and, if the ramp has not ended, the second one.\<close>

definition ramp_start :: "hm_step_info \<Rightarrow> hm_step_info" where
  "ramp_start p =
     (let p = (if step_delay p \<le> min_delay p then p\<lparr>step_delay := min_delay p, run_state := rsRUN\<rparr>
               else p\<lparr>run_state := rsACCEL\<rparr>)
      in p\<lparr>accel_count := 0\<rparr>)"

definition fill_blocks :: "hm_step_info \<Rightarrow> hm_step_info res" where
  "fill_blocks p =
     bnd (hm_dma_update 0 (p\<lparr>steps_taken := 1\<rparr>)) (\<lambda>p.
       for_each (\<lambda>i p. if run_state p \<noteq> rsSTOP then hm_dma_update i p else Ok p)
         [unat (dma_buf_idx p) + 1..<HM_DMA_BUF_BLOCK_SZ] p)"

definition run_params :: "u32 \<Rightarrow> u32 \<Rightarrow> hm_step_info \<Rightarrow> hm_step_info res" where
  "run_params accel speed p =
     bnd (min_delay_of (HM_STEP_FRE p) (scast speed)) (\<lambda>md.
     bnd (first_delay_of (HM_STEP_FRE p) accel) (\<lambda>sd.
     bnd (max_s_lim_of (motor_method p) (scast speed) accel) (\<lambda>max_s_lim.
     Ok (ramp_start (p\<lparr>min_delay := md, step_delay := sd, ramp_n2 := max_s_lim, accel_steps := max_s_lim,
           decel_start := HM_INVALID_STEP\<rparr>)))))"

definition run_plan :: "u32 \<Rightarrow> u32 \<Rightarrow> hm_step_info \<Rightarrow> hm_step_info res" where
  "run_plan accel speed p = bnd (run_params accel speed p) (\<lambda>p. bnd (put_first 1 p) fill_blocks)"

definition decel_val_of :: "u32 \<Rightarrow> u32 \<Rightarrow> u32" where
  "decel_val_of n max_s_lim =
     (let max_s_lim = (if max_s_lim = 0 then 1 else max_s_lim);
          accel_lim = sdiv32 n 2;
          accel_lim = (if accel_lim = 0 then 1 else accel_lim);
          decel_val = (if accel_lim \<le> max_s_lim then accel_lim - n else - max_s_lim)
      in if decel_val = 0 then - 1 else decel_val)"

definition move_params :: "u32 \<Rightarrow> u32 \<Rightarrow> u32 \<Rightarrow> hm_step_info \<Rightarrow> hm_step_info res" where
  "move_params n accel speed p =
     bnd (min_delay_of (HM_STEP_FRE p) (ucast speed)) (\<lambda>md.
     bnd (first_delay_of (HM_STEP_FRE p) accel) (\<lambda>sd.
     bnd (max_s_lim_of (motor_method p) (ucast speed) accel) (\<lambda>max_s_lim.
     let dv = decel_val_of n max_s_lim in
     Ok (ramp_start (p\<lparr>min_delay := md, step_delay := sd, ramp_n2 := max_s_lim, decel_val := dv,
           decel_start := n + dv\<rparr>)))))"

definition move_plan :: "u32 \<Rightarrow> u32 \<Rightarrow> u32 \<Rightarrow> hm_step_info \<Rightarrow> hm_step_info res" where
  "move_plan n accel speed p = bnd (move_params n accel speed p) (\<lambda>p. bnd (put_first 0 p) fill_blocks)"

text \<open>A move of one step is one hand made step in the deceleration state.\<close>

definition move_one :: "hm_step_info \<Rightarrow> hm_step_info res" where
  "move_one p =
     bnd (put_first 1 (p\<lparr>accel_count := - 1, run_state := rsDECEL, step_delay := 1000\<rparr>)) (\<lambda>p.
       Ok (p\<lparr>dma_bufs := (dma_bufs p)[0 := (dma_bufs p ! 0)\<lparr>buf_valid := True\<rparr>], steps_taken := 1\<rparr>))"

text \<open>A change of one axis that can fault.\<close>

definition upd_axis_res ::
  "nat \<Rightarrow> (hm_step_info \<Rightarrow> hm_step_info res) \<Rightarrow> 'a motor_st_scheme \<Rightarrow> 'a motor_st_scheme res" where
  "upd_axis_res a f s = bnd (f (axis a s)) (\<lambda>p. Ok (upd_axis a (\<lambda>_. p) s))"

definition start_hw :: "nat \<Rightarrow> 'a motor_st_scheme \<Rightarrow> 'a motor_st_scheme res" where
  "start_hw a s = bnd (hm_dma_setup a True s) (\<lambda>s. hm_tim_start a True (HM_STEP_FRE (axis a s)) s)"

text \<open>A homing run notes whether the home switch is hit when it starts.\<close>

definition note_home :: "nat \<Rightarrow> 'a motor_st_scheme \<Rightarrow> 'a motor_st_scheme res" where
  "note_home a s =
     (if bdo_home (axis a s)
      then bnd (hm_motor_hit_Home a s) (\<lambda>(hit, s). Ok (upd_hw a (\<lambda>c. c\<lparr>blast_hit_home := hit\<rparr>) s))
      else Ok s)"

text \<open>\<open>- speed\<close> of the smallest integer is that integer again.\<close>

definition hm_step_motor_start_run ::
  "nat \<Rightarrow> u32 \<Rightarrow> u32 \<Rightarrow> 'a motor_st_scheme \<Rightarrow> (bool \<times> 'a motor_st_scheme) res" where
  "hm_step_motor_start_run a accel speed s =
     (if a \<ge> HM_MAX_AXIS \<or> hm_step_motor_state a s \<noteq> rsSTOP then Ok (False, s)
      else
        let s = upd_axis a (set_run_dir speed) s;
            speed = (if sint speed < 0 then - speed else speed)
        in bnd (run_blocked a s) (\<lambda>(blocked, s).
          if blocked then Ok (True, s)
          else bnd (hm_mark_axis_state a asPreparing s) (\<lambda>s.
            bnd (note_home a s) (\<lambda>s.
            let s = snd (hm_motor_enable_axis a True s);
                s = upd_axis a (run_reset speed) s
            in bnd (hm_motor_set_dir a (motor_dir (axis a s) = rdCW) s) (\<lambda>s.
               bnd (upd_axis_res a (run_plan accel speed) s) (\<lambda>s.
               bnd (start_hw a s) (\<lambda>s. Ok (True, s))))))))"

definition hm_step_motor_start_homing ::
  "nat \<Rightarrow> u32 \<Rightarrow> u32 \<Rightarrow> 'a motor_st_scheme \<Rightarrow> (bool \<times> 'a motor_st_scheme) res" where
  "hm_step_motor_start_homing a accel speed s = on_axis a s
     (hm_step_motor_start_run a accel speed (upd_axis a (\<lambda>p. p\<lparr>bdo_home := True\<rparr>) s))"

definition hm_step_motor_start_free_run ::
  "nat \<Rightarrow> u32 \<Rightarrow> u32 \<Rightarrow> 'a motor_st_scheme \<Rightarrow> (bool \<times> 'a motor_st_scheme) res" where
  "hm_step_motor_start_free_run a accel speed s = on_axis a s
     (hm_step_motor_start_run a accel speed (upd_axis a (\<lambda>p. p\<lparr>bdo_home := False\<rparr>) s))"

text \<open>The parameter \<open>decel\<close> is not used by the source.\<close>

definition hm_step_motor_move ::
  "nat \<Rightarrow> u32 \<Rightarrow> u32 \<Rightarrow> u32 \<Rightarrow> u32 \<Rightarrow> 'a motor_st_scheme \<Rightarrow> (bool \<times> 'a motor_st_scheme) res" where
  "hm_step_motor_move a step accel decel speed s =
     (if a \<ge> HM_MAX_AXIS \<or> hm_step_motor_state a s \<noteq> rsSTOP then Ok (False, s)
      else
        let s = upd_axis a (set_run_dir step) s;
            n = (if sint step < 0 then - step else step)
        in bnd (run_blocked a s) (\<lambda>(blocked, s).
          if blocked then Ok (True, s)
          else
            let s = snd (hm_motor_enable_axis a True s);
                s = upd_axis a (move_reset speed n) s
            in bnd (hm_motor_set_dir a (motor_dir (axis a s) = rdCW) s) (\<lambda>s.
               bnd (if n = 1 then upd_axis_res a move_one s
                    else if n \<noteq> 0 then upd_axis_res a (move_plan n accel speed) s
                    else Ok s) (\<lambda>s.
               bnd (start_hw a s) (\<lambda>s. Ok (True, s))))))"

section \<open>The interrupts of a block\<close>

definition fill_next :: "hm_step_info \<Rightarrow> hm_step_info res" where
  "fill_next p =
     bnd (buf_at (next_buf_idx p) p) (\<lambda>b.
       if buf_valid b then Ok p
       else bnd (hm_dma_update (next_buf_idx p)
                   (p\<lparr>dma_bufs := (dma_bufs p)[next_buf_idx p := b\<lparr>dma_buf_len := 0\<rparr>]\<rparr>))
              (\<lambda>p. Ok (p\<lparr>dma_fill := dma_fill p + 1\<rparr>)))"

definition hm_dma_fill_next_buf :: "nat \<Rightarrow> 'a motor_st_scheme \<Rightarrow> 'a motor_st_scheme res" where
  "hm_dma_fill_next_buf a s = on_axis a s (upd_axis_res a fill_next s)"

text \<open>The block that is done is counted: position, actual steps; it is free again.\<close>

definition signed_steps :: "RUN_DIR_E \<Rightarrow> u16 \<Rightarrow> u32" where
  "signed_steps d n = (if d = rdCW then ucast n else - ucast n)"

definition count_block :: "hm_step_info \<Rightarrow> hm_step_info res" where
  "count_block p =
     bnd (buf_at (unat (dma_buf_idx p)) p) (\<lambda>b.
       let step_dma = dma_buf_len b div 3 in
       Ok (p\<lparr>motor_pos := motor_pos p + signed_steps (motor_dir p) step_dma,
             dma_bufs := (dma_bufs p)[unat (dma_buf_idx p) := b\<lparr>buf_valid := False\<rparr>],
             steps_actual := steps_actual p + ucast step_dma\<rparr>))"

definition more_steps :: "hm_step_info \<Rightarrow> bool" where
  "more_steps p \<longleftrightarrow> steps_actual p < steps_request p \<or> steps_request p = HM_INVALID_STEP"

definition hm_dma_ck :: "nat \<Rightarrow> 'a motor_st_scheme \<Rightarrow> 'a motor_st_scheme res" where
  "hm_dma_ck a s = on_axis a s
     (bnd (upd_axis_res a count_block s) (\<lambda>s.
      bnd (if more_steps (axis a s)
           then bnd (buf_at (next_buf_idx (axis a s)) (axis a s)) (\<lambda>b.
             if \<not> buf_valid b then Fault Hang
             else
               let s = upd_axis a (\<lambda>p. p\<lparr>dma_buf_idx := word_of_nat (next_buf_idx p)\<rparr>) s;
                   s = hm_tim_pause_resume a True s
               in bnd (hm_dma_setup a True s) (\<lambda>s. Ok (hm_tim_pause_resume a False s)))
           else
             let s = upd_axis a (\<lambda>p. p\<lparr>bstopping := False\<rparr>) s
             in bnd (hm_tim_start a False 0 s) (hm_dma_setup a False)) (\<lambda>s.
        Ok (upd_axis a (\<lambda>p. p\<lparr>dma_irq_idx := dma_irq_idx p + 1\<rparr>) s))))"

text \<open>The interrupt handler of a channel; first the half transfer, then the end of the block.\<close>

definition dma_channel_irq :: "dma_ch \<Rightarrow> nat \<Rightarrow> 'a motor_st_scheme \<Rightarrow> 'a motor_st_scheme res" where
  "dma_channel_irq c a s =
     bnd (if DMA_GetITStatus (DMA1_IT_HT c) s
          then bnd (hm_dma_fill_next_buf a s) (\<lambda>s. Ok (DMA_ClearITPendingBit (DMA1_IT_HT c) s))
          else Ok s) (\<lambda>s.
     if DMA_GetITStatus (DMA1_IT_TC c) s
     then bnd (hm_dma_ck a s) (\<lambda>s. Ok (DMA_ClearITPendingBit (DMA1_IT_TC c) s))
     else Ok s)"

definition DMA1_Channel5_IRQHandler :: "'a motor_st_scheme \<Rightarrow> 'a motor_st_scheme res" where
  "DMA1_Channel5_IRQHandler = dma_channel_irq DMA1_Channel5 0"

definition DMA1_Channel2_IRQHandler :: "'a motor_st_scheme \<Rightarrow> 'a motor_st_scheme res" where
  "DMA1_Channel2_IRQHandler = dma_channel_irq DMA1_Channel2 1"

definition DMA1_Channel3_IRQHandler :: "'a motor_st_scheme \<Rightarrow> 'a motor_st_scheme res" where
  "DMA1_Channel3_IRQHandler = dma_channel_irq DMA1_Channel3 2"

definition DMA1_Channel7_IRQHandler :: "'a motor_st_scheme \<Rightarrow> 'a motor_st_scheme res" where
  "DMA1_Channel7_IRQHandler = dma_channel_irq DMA1_Channel7 3"

definition TIM1_UP_IRQHandler :: "'a motor_st_scheme \<Rightarrow> 'a motor_st_scheme" where
  "TIM1_UP_IRQHandler s = upd_axis 0 (\<lambda>p. p\<lparr>steps_tim_irq := steps_tim_irq p + 1\<rparr>) s"

section \<open>Stopping\<close>

definition smooth_plan :: "hm_step_info \<Rightarrow> hm_step_info" where
  "smooth_plan p = p\<lparr>bstopping := True, ramp_rest := 0, steps_request := 100, steps_taken := 0,
     steps_actual := 0, run_state := rsDECEL, accel_count := - 100\<rparr>"

definition hm_step_motor_stop_smooth :: "nat \<Rightarrow> 'a motor_st_scheme \<Rightarrow> bool \<times> 'a motor_st_scheme" where
  "hm_step_motor_stop_smooth a s =
     (if a \<ge> HM_MAX_AXIS then (False, s)
      else if hm_step_motor_state a s = rsSTOP \<or> bstopping (axis a s) then (True, s)
      else (True, upd_axis a smooth_plan s))"

text \<open>How many steps of the current block are done; C computes it in \<open>int\<close> and cuts it to 16 bits.\<close>

definition passed_steps :: "hm_dma_buf_info \<Rightarrow> u16 \<Rightarrow> u16" where
  "passed_steps b remaining =
     word_of_int ((int (unat (dma_buf_len b)) - int (unat remaining)) sdiv 3)"

definition hm_step_motor_stop_sundden :: "nat \<Rightarrow> 'a motor_st_scheme \<Rightarrow> (bool \<times> 'a motor_st_scheme) res" where
  "hm_step_motor_stop_sundden a s =
     (if a \<ge> HM_MAX_AXIS then Ok (False, s)
      else
        let s = upd_axis a (\<lambda>p. p\<lparr>bstopping := False\<rparr>) s
        in bnd (hm_dma_setup a False s) (\<lambda>s.
           bnd (hm_tim_start a False 0 s) (\<lambda>s.
           bnd (buf_at (unat (dma_buf_idx (axis a s))) (axis a s)) (\<lambda>b.
             let npassed = passed_steps b (DMA_GetCurrDataCounter (pdma (axis a s)) s)
             in Ok (True, upd_axis a (\<lambda>p. p\<lparr>motor_pos := motor_pos p + signed_steps (motor_dir p) npassed\<rparr>) s)))))"

section \<open>Queries\<close>

definition hm_step_motor_get_curr_speed :: "nat \<Rightarrow> 'a motor_st_scheme \<Rightarrow> u32 res" where
  "hm_step_motor_get_curr_speed a s =
     (if a \<ge> HM_MAX_AXIS then Ok 0xffffffff
      else if hm_step_motor_state a s = rsSTOP then Ok 0
      else bnd (udiv_res (HM_STEP_FRE (axis a s)) (ucast (CCR1 (tim s (ptim (axis a s)))) * 2))
             (\<lambda>q. Ok (ucast q)))"

definition hm_step_motor_get_cur_pos :: "nat \<Rightarrow> 'a motor_st_scheme \<Rightarrow> u32 res" where
  "hm_step_motor_get_cur_pos a s =
     (if a \<ge> HM_MAX_AXIS then Ok 0
      else
        let p = axis a s in
        if hm_step_motor_state a s = rsSTOP then Ok (motor_pos p)
        else bnd (buf_at (unat (dma_buf_idx p)) p) (\<lambda>b.
          let npassed = passed_steps b (DMA_GetCurrDataCounter (pdma p) s)
          in Ok (motor_pos p + signed_steps (motor_dir p) npassed)))"

section \<open>An axis between two operations\<close>

text \<open>
  The number of the axis is stored in it, it has two well formed blocks and one of them is the current
  one.
\<close>

definition axis_ok :: "nat \<Rightarrow> hm_step_info \<Rightarrow> bool" where
  "axis_ok a p \<longleftrightarrow> axis_idx p = word_of_nat a \<and> length (dma_bufs p) = 2 \<and>
     (\<forall>b \<in> set (dma_bufs p). buf_ok b) \<and> unat (dma_buf_idx p) < 2"

definition motor_ok :: "'a motor_st_scheme \<Rightarrow> bool" where
  "motor_ok s \<longleftrightarrow> length (s_axis_info s) = 4 \<and> (\<forall>a < 4. axis_ok a (axis a s))"

abbreviation cur_buf :: "hm_step_info \<Rightarrow> hm_dma_buf_info" where
  "cur_buf p \<equiv> dma_bufs p ! unat (dma_buf_idx p)"

abbreviation next_buf :: "hm_step_info \<Rightarrow> hm_dma_buf_info" where
  "next_buf p \<equiv> dma_bufs p ! next_buf_idx p"

lemma next_buf_idx_less [simp]: "next_buf_idx p < 2"
  by (simp add: next_buf_idx_def HM_DMA_BUF_BLOCK_SZ_def)

lemma axis_ok_bufs:
  assumes "axis_ok a p"
  shows "buf_at (unat (dma_buf_idx p)) p = Ok (cur_buf p)" "buf_at (next_buf_idx p) p = Ok (next_buf p)"
    "buf_ok (cur_buf p)" "buf_ok (next_buf p)" "length (dma_bufs p) = 2" "unat (dma_buf_idx p) < 2"
  using assms by (auto simp: axis_ok_def buf_at_def)

lemma next_idx_eq: "unat (dma_buf_idx p) < 2 \<Longrightarrow> next_buf_idx p = 1 - unat (dma_buf_idx p)"
  by (auto simp: next_buf_idx_def HM_DMA_BUF_BLOCK_SZ_def less_2_cases_iff)

lemma next_idx_neq: "unat (dma_buf_idx p) < 2 \<Longrightarrow> next_buf_idx p \<noteq> unat (dma_buf_idx p)"
  by (auto simp: next_idx_eq less_2_cases_iff)

lemma unat_next_idx [simp]: "unat (word_of_nat (next_buf_idx p) :: u16) = next_buf_idx p"
proof -
  have "next_buf_idx p < 65536" using next_buf_idx_less[of p] by linarith
  then show ?thesis by (simp add: unat_of_nat)
qed

lemma axis_ok_idx: "axis_ok a p \<Longrightarrow> a < 4 \<Longrightarrow> unat (axis_idx p) = a"
  by (simp add: axis_ok_def unat_of_nat)

lemma axis_info_upd [simp]: "s_axis_info (upd_axis a f s) = (s_axis_info s)[a := f (axis a s)]"
  by (simp add: upd_axis_def axis_def)

lemma axis_info_upd_hw [simp]: "s_axis_info (upd_hw a f s) =
    (s_axis_info s)[a := (axis a s)\<lparr>motor_hw_config := f (hw_of a s)\<rparr>]"
  by (simp add: upd_hw_def)

lemma upd_axis_upd_axis [simp]: "upd_axis a f (upd_axis a g s) = upd_axis a (\<lambda>p. f (g p)) s"
  by (cases "a < length (s_axis_info s)") (simp_all add: upd_axis_def list_update_beyond)

lemma axis_list [simp]: "a < length (s_axis_info s) \<Longrightarrow> s_axis_info s ! a = axis a s"
  by (simp add: axis_def)

lemma axis_list_same [simp]: "(s_axis_info s)[a := axis a s] = s_axis_info s"
  by (simp add: axis_def del: axis_list)

section \<open>The hardware of a running axis\<close>

text \<open>Timer and channel run, and the channel is at the beginning of the current block.\<close>

definition hw_playing :: "nat \<Rightarrow> 'a motor_st_scheme \<Rightarrow> bool" where
  "hw_playing a s \<longleftrightarrow> (let p = axis a s in
     dma_enabled (pdma p) s \<and> tim_enabled (ptim p) s \<and>
     CMAR (dma s (pdma p)) = DmaBuf a (unat (dma_buf_idx p)) \<and>
     CNDTR (dma s (pdma p)) = ucast (dma_buf_len (cur_buf p)))"

definition hw_stopped :: "nat \<Rightarrow> 'a motor_st_scheme \<Rightarrow> bool" where
  "hw_stopped a s \<longleftrightarrow> \<not> dma_enabled (pdma (axis a s)) s \<and> \<not> tim_enabled (ptim (axis a s)) s"

lemma tim_enabled_frame [simp, hw_simps]:
  "tim_enabled t (DMA_Cmd c b s) = tim_enabled t s" "tim_enabled t (write_CNDTR c v s) = tim_enabled t s"
  "tim_enabled t (write_CMAR c r s) = tim_enabled t s" "tim_enabled t (hm_led_chan k b s) = tim_enabled t s"
  "tim_enabled t (upd_axis a f s') = tim_enabled t s'"
  "tim_enabled t (upd_tim u (\<lambda>r. r\<lparr>CCR1 := v\<^sub>1\<rparr>) s) = tim_enabled t s"
  "tim_enabled t (upd_tim u (\<lambda>r. r\<lparr>ARR := v\<^sub>1\<rparr>) s) = tim_enabled t s"
  "tim_enabled t (upd_tim u (\<lambda>r. r\<lparr>PSC := v\<^sub>1\<rparr>) s) = tim_enabled t s"
  by (simp_all add: tim_enabled_def DMA_Cmd_def write_CNDTR_def write_CMAR_def hm_led_chan_def Let_def
      hm_led_act_def GPIO_SetBits_def GPIO_ResetBits_def upd_tim_def)

lemma dma_frame [simp, hw_simps]:
  "dma (TIM_Cmd t b s) = dma s" "dma (hm_led_chan k b s) = dma s" "dma (upd_tim u f s) = dma s"
  by (simp_all add: TIM_Cmd_def hm_led_chan_def Let_def hm_led_act_def GPIO_SetBits_def GPIO_ResetBits_def
      upd_tim_def)

lemma dma_enabled_same: "dma t = dma s \<Longrightarrow> dma_enabled c t = dma_enabled c s"
  by (simp add: dma_enabled_def)

lemma dma_enabled_frame [simp, hw_simps]:
  "dma_enabled c (TIM_Cmd t b s) = dma_enabled c s" "dma_enabled c (hm_led_chan k b s) = dma_enabled c s"
  "dma_enabled c (upd_tim u f s) = dma_enabled c s" "dma_enabled c (upd_axis a g s') = dma_enabled c s'"
  "dma_enabled c (write_CNDTR d v s) = dma_enabled c s" "dma_enabled c (write_CMAR d r s) = dma_enabled c s"
  by (simp_all add: dma_enabled_def write_CNDTR_def write_CMAR_def)

lemma channel_regs [simp, hw_simps]:
  "CMAR (dma (DMA_Cmd d b s) c) = CMAR (dma s c)" "CNDTR (dma (DMA_Cmd d b s) c) = CNDTR (dma s c)"
  "CMAR (dma (write_CMAR d r s) c) = (if c = d then r else CMAR (dma s c))"
  "CNDTR (dma (write_CMAR d r s) c) = CNDTR (dma s c)"
  "CMAR (dma (write_CNDTR d v s) c) = CMAR (dma s c)"
  "CNDTR (dma (write_CNDTR d v s) c) = (if c = d \<and> \<not> dma_enabled d s then v else CNDTR (dma s c))"
  by (simp_all add: DMA_Cmd_def write_CMAR_def write_CNDTR_def dma_enabled_def)

lemma DMA1_ISR_frame [simp, hw_simps]:
  "DMA1_ISR (TIM_Cmd t b s) = DMA1_ISR s" "DMA1_ISR (hm_led_chan k b s) = DMA1_ISR s"
  "DMA1_ISR (upd_tim u f s) = DMA1_ISR s" "DMA1_ISR (DMA_Cmd c b s) = DMA1_ISR s"
  "DMA1_ISR (write_CNDTR c v s) = DMA1_ISR s" "DMA1_ISR (write_CMAR c r s) = DMA1_ISR s"
  by (simp_all add: TIM_Cmd_def hm_led_chan_def Let_def hm_led_act_def GPIO_SetBits_def GPIO_ResetBits_def
      upd_tim_def DMA_Cmd_def write_CNDTR_def write_CMAR_def)

section \<open>What the hardware operations do to a well formed axis\<close>

lemma hm_dma_setup_eq:
  assumes "axis_ok a (axis a s)"
  shows "hm_dma_setup a on s = Ok (DMA_Cmd (pdma (axis a s)) on
    (write_CMAR (pdma (axis a s)) (DmaBuf a (unat (dma_buf_idx (axis a s))))
      (write_CNDTR (pdma (axis a s)) (ucast (dma_buf_len (cur_buf (axis a s)))) s)))"
  using axis_ok_bufs(1)[OF assms] by (simp add: hm_dma_setup_def Let_def)

lemma hm_tim_start_on:
  assumes "axis_ok a (axis a s)" and "a < 4" and "length (s_axis_info s) = 4"
  obtains t where "hm_tim_start a True fre s = Ok t"
    "s_axis_info t = (s_axis_info s)[a := (axis a s)\<lparr>axis_state := asRuning\<rparr>]"
    "tim_enabled (ptim (axis a s)) t" "dma t = dma s" "DMA1_ISR t = DMA1_ISR s"
  using assms axis_ok_idx[OF assms(1,2)]
  by (simp add: hm_tim_start_def Let_def hm_mark_axis_state_def)

lemma hm_tim_start_off:
  assumes "axis_ok a (axis a s)" and "a < 4" and "length (s_axis_info s) = 4"
  obtains t where "hm_tim_start a False fre s = Ok t"
    "s_axis_info t = (s_axis_info s)[a := (axis a s)\<lparr>bdo_home := False, axis_state := asStoped\<rparr>]"
    "\<not> tim_enabled (ptim (axis a s)) t" "dma t = dma s" "DMA1_ISR t = DMA1_ISR s"
  using assms axis_ok_idx[OF assms(1,2)]
  by (simp add: hm_tim_start_def Let_def hm_mark_axis_state_def)

section \<open>The end of a block\<close>

definition counted :: "hm_step_info \<Rightarrow> hm_step_info" where
  "counted p = p\<lparr>
     motor_pos := motor_pos p + signed_steps (motor_dir p) (dma_buf_len (cur_buf p) div 3),
     dma_bufs := (dma_bufs p)[unat (dma_buf_idx p) := (cur_buf p)\<lparr>buf_valid := False\<rparr>],
     steps_actual := steps_actual p + ucast (dma_buf_len (cur_buf p) div 3)\<rparr>"

lemma counted_sel [simp]:
  "dma_buf_idx (counted p) = dma_buf_idx p" "next_buf_idx (counted p) = next_buf_idx p"
  "axis_idx (counted p) = axis_idx p" "ptim (counted p) = ptim p" "pdma (counted p) = pdma p"
  "steps_request (counted p) = steps_request p" "steps_taken (counted p) = steps_taken p"
  "length (dma_bufs (counted p)) = length (dma_bufs p)" "axis_state (counted p) = axis_state p"
  "motor_dir (counted p) = motor_dir p" "bdo_home (counted p) = bdo_home p"
  by (simp_all add: counted_def next_buf_idx_def)

lemma buf_valid_ok [simp]: "buf_ok (b\<lparr>buf_valid := v\<rparr>) = buf_ok b"
  by (simp add: buf_ok_def)

lemma axis_ok_counted: "axis_ok a p \<Longrightarrow> axis_ok a (counted p)"
  by (auto simp: axis_ok_def counted_def dest!: set_update_subset_insert[THEN subsetD])

lemma next_buf_counted: "axis_ok a p \<Longrightarrow> dma_bufs (counted p) ! next_buf_idx p = next_buf p"
  by (auto simp: axis_ok_def counted_def next_idx_eq less_2_cases_iff)

lemma count_block_eq: "axis_ok a p \<Longrightarrow> count_block p = Ok (counted p)"
  using axis_ok_bufs(1) by (simp add: count_block_def counted_def Let_def)

definition block_turned :: "hm_step_info \<Rightarrow> hm_step_info" where
  "block_turned p = (counted p)\<lparr>dma_buf_idx := word_of_nat (next_buf_idx p), dma_irq_idx := dma_irq_idx p + 1\<rparr>"

definition block_stopped :: "hm_step_info \<Rightarrow> hm_step_info" where
  "block_stopped p = (counted p)\<lparr>bstopping := False, bdo_home := False, axis_state := asStoped,
     dma_irq_idx := dma_irq_idx p + 1\<rparr>"

lemma irq_idx_counted [simp]: "dma_irq_idx (counted p) = dma_irq_idx p"
  by (simp add: counted_def)

lemma axis_ok_turned: "axis_ok a p \<Longrightarrow> axis_ok a (block_turned p)"
  using axis_ok_counted[of a p] by (simp add: axis_ok_def block_turned_def)

lemma axis_ok_stopped: "axis_ok a p \<Longrightarrow> axis_ok a (block_stopped p)"
  using axis_ok_counted[of a p] by (simp add: axis_ok_def block_stopped_def)

lemma axis_of_list: "s_axis_info t = (s_axis_info s)[a := p] \<Longrightarrow> a < length (s_axis_info s) \<Longrightarrow> axis a t = p"
  by (simp add: axis_def)

lemma ck_count: "axis_ok a (axis a s) \<Longrightarrow> upd_axis_res a count_block s = Ok (upd_axis a (\<lambda>_. counted (axis a s)) s)"
  by (simp add: upd_axis_res_def count_block_eq)

lemma hm_dma_ck_more:
  assumes ok: "axis_ok a (axis a s)" and a: "a < 4" and len: "length (s_axis_info s) = 4"
    and more: "more_steps (counted (axis a s))" and nxt: "buf_valid (next_buf (axis a s))"
  obtains t where "hm_dma_ck a s = Ok t" "s_axis_info t = (s_axis_info s)[a := block_turned (axis a s)]"
    "hw_playing a t" "DMA1_ISR t = DMA1_ISR s"
proof -
  let ?p = "axis a s" and ?q = "(counted (axis a s))\<lparr>dma_buf_idx := word_of_nat (next_buf_idx (axis a s))\<rparr>"
  let ?s = "hm_tim_pause_resume a True (upd_axis a (\<lambda>_. ?q) s)"
  have okc: "axis_ok a (counted ?p)" using ok by (rule axis_ok_counted)
  have okq: "axis_ok a ?q" using okc by (simp add: axis_ok_def)
  have ax: "axis a ?s = ?q" using a len by (simp add: hm_tim_pause_resume_def)
  have nv: "buf_valid (next_buf (counted ?p))" using nxt ok by (simp add: next_buf_counted)
  have cur: "cur_buf ?q = next_buf (counted ?p)" by simp
  have su: "hm_dma_setup a True ?s = Ok (DMA_Cmd (pdma ?p) True
      (write_CMAR (pdma ?p) (DmaBuf a (next_buf_idx ?p))
        (write_CNDTR (pdma ?p) (ucast (dma_buf_len (next_buf (counted ?p)))) ?s)))" (is "_ = Ok ?u")
    using hm_dma_setup_eq[of a ?s True] okq unfolding ax by simp
  have axu: "axis a ?u = ?q" using ax by simp
  let ?t = "upd_axis a (\<lambda>p. p\<lparr>dma_irq_idx := dma_irq_idx p + 1\<rparr>) (hm_tim_pause_resume a False ?u)"
  have run: "hm_dma_ck a s = Ok ?t"
    using a len more nv axis_ok_bufs(2)[OF okc] su ck_count[OF ok]
    by (simp add: hm_dma_ck_def)
  have info: "s_axis_info ?t = (s_axis_info s)[a := block_turned ?p]"
    using a len axu by (simp add: hm_tim_pause_resume_def block_turned_def)
  have axt: "axis a ?t = block_turned ?p" by (rule axis_of_list[OF info]) (simp add: a len)
  have play: "hw_playing a ?t"
    unfolding hw_playing_def axt using a len axu
    by (simp add: block_turned_def hm_tim_pause_resume_def)
  show ?thesis
    by (rule that[OF run info play]) (simp add: hm_tim_pause_resume_def)
qed

lemma hm_dma_ck_hang:
  assumes ok: "axis_ok a (axis a s)" and a: "a < 4" and len: "length (s_axis_info s) = 4"
    and more: "more_steps (counted (axis a s))" and nv: "\<not> buf_valid (next_buf (axis a s))"
  shows "hm_dma_ck a s = Fault Hang"
proof -
  have okc: "axis_ok a (counted (axis a s))" using ok by (rule axis_ok_counted)
  have "\<not> buf_valid (next_buf (counted (axis a s)))" using nv ok by (simp add: next_buf_counted)
  then show ?thesis using a len more axis_ok_bufs(2)[OF okc] ck_count[OF ok] by (simp add: hm_dma_ck_def)
qed

lemma hm_dma_ck_last:
  assumes ok: "axis_ok a (axis a s)" and a: "a < 4" and len: "length (s_axis_info s) = 4"
    and fin: "\<not> more_steps (counted (axis a s))"
  obtains t where "hm_dma_ck a s = Ok t" "s_axis_info t = (s_axis_info s)[a := block_stopped (axis a s)]"
    "hw_stopped a t" "DMA1_ISR t = DMA1_ISR s"
proof -
  let ?p = "axis a s" and ?q = "(counted (axis a s))\<lparr>bstopping := False\<rparr>"
  let ?s = "upd_axis a (\<lambda>_. ?q) s"
  have okq: "axis_ok a ?q" using axis_ok_counted[OF ok] by (simp add: axis_ok_def)
  have ax: "axis a ?s = ?q" using a len by simp
  obtain u where u: "hm_tim_start a False 0 ?s = Ok u"
      "s_axis_info u = (s_axis_info ?s)[a := (axis a ?s)\<lparr>bdo_home := False, axis_state := asStoped\<rparr>]"
      "\<not> tim_enabled (ptim (axis a ?s)) u" "dma u = dma ?s" "DMA1_ISR u = DMA1_ISR ?s"
    by (rule hm_tim_start_off[of a ?s 0]) (use okq ax a len in simp_all)
  have axu: "axis a u = ?q\<lparr>bdo_home := False, axis_state := asStoped\<rparr>"
    by (rule axis_of_list[of u s]) (use u(2) a len ax in simp_all)
  have oku: "axis_ok a (axis a u)" using okq unfolding axu by (simp add: axis_ok_def)
  let ?v = "DMA_Cmd (pdma ?p) False (write_CMAR (pdma ?p) (DmaBuf a (unat (dma_buf_idx ?p)))
      (write_CNDTR (pdma ?p) (ucast (dma_buf_len (cur_buf (counted ?p)))) u))"
  have su: "hm_dma_setup a False u = Ok ?v"
    using hm_dma_setup_eq[OF oku, of False] unfolding axu by simp
  let ?t = "upd_axis a (\<lambda>p. p\<lparr>dma_irq_idx := dma_irq_idx p + 1\<rparr>) ?v"
  have run: "hm_dma_ck a s = Ok ?t"
    using a len fin su u(1) ck_count[OF ok] by (simp add: hm_dma_ck_def)
  have info: "s_axis_info ?t = (s_axis_info s)[a := block_stopped ?p]"
    using a len axu u(2) by (simp add: block_stopped_def)
  have axt: "axis a ?t = block_stopped ?p" by (rule axis_of_list[OF info]) (simp add: a len)
  have stop: "hw_stopped a ?t"
    unfolding hw_stopped_def axt using u(3) ax by (simp add: block_stopped_def)
  show ?thesis
    by (rule that[OF run info stop]) (simp add: u(5))
qed

end
