(* ===== verification/Motor_Play.thy ===== *)
theory Motor_Play
  imports Motor_Ctl
begin

text \<open>
  How a started axis is played: the DMA channel sends the current block to the timer and raises an
  interrupt at half of it and at its end, the handlers refill the other block and switch to it.  The
  theorems say that this machinery of two blocks plays exactly the list of delays that the ramp
  generator would make in one go, counts the position right and stops by itself.

  \<open>block_round\<close> is the environment: what the channel sends is read from the memory its address
  register names, the first half of it before the half transfer interrupt and the second half after.
\<close>

section \<open>The registers of the ramp\<close>

text \<open>The axis \<open>q\<close> with the fields of \<open>p\<close> that the ramp generator reads or writes.\<close>

definition with_ramp :: "hm_step_info \<Rightarrow> hm_step_info \<Rightarrow> hm_step_info" where
  "with_ramp p q = q\<lparr>motor_method := motor_method p, run_state := run_state p, ramp_n2 := ramp_n2 p,
     steps_request := steps_request p, decel_start := decel_start p, decel_val := decel_val p,
     accel_count := accel_count p, ramp_rest := ramp_rest p, last_accel_delay := last_accel_delay p,
     min_delay := min_delay p, step_delay := step_delay p, min_step_delay := min_step_delay p\<rparr>"

lemma with_ramp_sel [simp]:
  "motor_method (with_ramp p q) = motor_method p" "run_state (with_ramp p q) = run_state p"
  "ramp_n2 (with_ramp p q) = ramp_n2 p" "steps_request (with_ramp p q) = steps_request p"
  "decel_start (with_ramp p q) = decel_start p" "decel_val (with_ramp p q) = decel_val p"
  "accel_count (with_ramp p q) = accel_count p" "ramp_rest (with_ramp p q) = ramp_rest p"
  "last_accel_delay (with_ramp p q) = last_accel_delay p" "min_delay (with_ramp p q) = min_delay p"
  "step_delay (with_ramp p q) = step_delay p" "min_step_delay (with_ramp p q) = min_step_delay p"
  by (simp_all add: with_ramp_def)

lemma with_ramp_upd:
  "(with_ramp p q)\<lparr>run_state := st\<rparr> = with_ramp (p\<lparr>run_state := st\<rparr>) q"
  "(with_ramp p q)\<lparr>accel_count := c\<rparr> = with_ramp (p\<lparr>accel_count := c\<rparr>) q"
  "(with_ramp p q)\<lparr>ramp_rest := r\<rparr> = with_ramp (p\<lparr>ramp_rest := r\<rparr>) q"
  "(with_ramp p q)\<lparr>last_accel_delay := d\<rparr> = with_ramp (p\<lparr>last_accel_delay := d\<rparr>) q"
  "(with_ramp p q)\<lparr>step_delay := d\<rparr> = with_ramp (p\<lparr>step_delay := d\<rparr>) q"
  "(with_ramp p q)\<lparr>min_step_delay := d\<rparr> = with_ramp (p\<lparr>min_step_delay := d\<rparr>) q"
  by (simp_all add: with_ramp_def)

lemma accel_enter_with: "accel_enter (with_ramp p q) = with_ramp (accel_enter p) q"
  by (auto simp: accel_enter_def Let_def with_ramp_upd)

lemma divs_with:
  "accel_divs (with_ramp p q) = accel_divs p" "decel_divs (with_ramp p q) = decel_divs p"
  by (simp_all add: accel_divs_def decel_divs_def)

lemma accel_result_with:
  "accel_result sc (with_ramp p q) x y = apsnd (\<lambda>p. with_ramp p q) (accel_result sc p x y)"
  by (simp add: accel_result_def Let_def with_ramp_upd at_decel_start_def)

lemma decel_result_with:
  "decel_result (with_ramp p q) x y = apsnd (\<lambda>p. with_ramp p q) (decel_result p x y)"
  by (simp add: decel_result_def Let_def with_ramp_upd)

lemma ramp_step_with:
  "ramp_step sc (with_ramp p q) = bnd (ramp_step sc p) (\<lambda>(d, p'). Ok (d, with_ramp p' q))"
proof -
  have at: "at_decel_start sc (with_ramp p q) = at_decel_start sc p" by (simp add: at_decel_start_def)
  show ?thesis
    by (cases "run_state p")
      (simp_all add: ramp_step_def Let_def at accel_enter_with divs_with with_ramp_upd accel_result_with
        decel_result_with bnd_assoc case_prod_beta' apsnd_def map_prod_def)
qed

lemma note_min_delay_with: "note_min_delay d (with_ramp p q) = with_ramp (note_min_delay d p) q"
  by (simp add: note_min_delay_def with_ramp_upd)

lemma ramp_next_with:
  "ramp_next sc (with_ramp p q) = bnd (ramp_next sc p) (\<lambda>(d, p'). Ok (d, with_ramp p' q))"
  by (simp add: ramp_next_def ramp_step_with bnd_assoc case_prod_beta')
    (rule bnd_cong, simp_all add: with_ramp_upd note_min_delay_with)

lemma ramp_gen_with:
  "ramp_gen n sc (with_ramp p q) = bnd (ramp_gen n sc p) (\<lambda>(ds, p'). Ok (ds, with_ramp p' q))"
proof (induction n arbitrary: sc p)
  case 0
  then show ?case by simp
next
  case (Suc n)
  have nc: "next_count (with_ramp p q) sc = next_count p sc" by (simp add: next_count_def)
  show ?case
    by (simp add: nc ramp_next_with bnd_assoc case_prod_beta' Suc.IH)
qed

text \<open>Two axes that agree on these fields make the same delays.\<close>

lemma ramp_gen_cong:
  assumes "with_ramp p q = q" and "ramp_gen n sc p = Inr (ds, p')"
  shows "ramp_gen n sc q = Ok (ds, with_ramp p' q)"
  using ramp_gen_with[of n sc p q] assms by simp

lemma ramp_gen_split:
  assumes "steps_request p \<noteq> HM_INVALID_STEP"
  shows "ramp_gen (m + n) sc p = bnd (ramp_gen m sc p) (\<lambda>(ds, q).
    bnd (ramp_gen n (sc + word_of_nat m) q) (\<lambda>(es, r). Ok (ds @ es, r)))"
  using assms
proof (induction m arbitrary: sc p)
  case 0
  then show ?case by (simp add: case_prod_beta')
next
  case (Suc m)
  have nc: "next_count p sc = sc + 1" using Suc.prems by (simp add: next_count_def)
  show ?case
  proof (cases "ramp_next (sc + 1) p")
    case (Inl e)
    then show ?thesis by (simp add: nc)
  next
    case (Inr x)
    then obtain d q where x: "ramp_next (sc + 1) p = Inr (d, q)" by (cases x) auto
    have "steps_request q = steps_request p" using ramp_next_frame[OF x] by (simp add: same_plan_def)
    with Suc.IH[of q "sc + 1"] Suc.prems x show ?thesis
      by (simp add: nc bnd_assoc case_prod_beta' add_ac)
  qed
qed

section \<open>The words of a block\<close>

definition words3 :: "u16 \<times> u16 \<times> u16 \<Rightarrow> u16 list" where
  "words3 = (\<lambda>(x, y, z). [x, y, z])"

lemma take_words:
  assumes "buf_ok b" and "k \<le> buf_count b"
  shows "take (3 * k) (dma_buf b) = concat (map words3 (take k (buf_steps b)))"
  using assms(2)
proof (induction k)
  case 0
  then show ?case by simp
next
  case (Suc k)
  have len: "length (dma_buf b) = 300" and k: "3 * k + 2 < 300"
    using assms(1) Suc.prems buf_count_le[OF assms(1)] by (simp_all add: buf_ok_def)
  have "take (3 * Suc k) (dma_buf b) =
      take (3 * k) (dma_buf b) @ [dma_buf b ! (3 * k), dma_buf b ! (3 * k + 1), dma_buf b ! (3 * k + 2)]"
  proof -
    have "3 * Suc k = Suc (Suc (Suc (3 * k)))" by simp
    then show ?thesis using len k by (simp only: take_Suc_conv_app_nth) simp
  qed
  also have "\<dots> = concat (map words3 (take (Suc k) (buf_steps b)))"
    using Suc by (simp add: take_Suc_conv_app_nth nth_buf_steps words3_def)
  finally show ?case .
qed

lemma block_words:
  assumes "buf_ok b"
  shows "take (unat (dma_buf_len b)) (dma_buf b) = concat (map words3 (buf_steps b))"
proof -
  have "unat (dma_buf_len b) = 3 * buf_count b" using assms by (simp add: buf_ok_def buf_count_def)
  with take_words[OF assms, of "buf_count b"] show ?thesis by simp
qed

section \<open>The environment\<close>

definition dma_memory :: "mem_ref \<Rightarrow> 'a motor_st_scheme \<Rightarrow> u16 list" where
  "dma_memory m s = (case m of NullRef \<Rightarrow> [] | DmaBuf a i \<Rightarrow> dma_buf (dma_bufs (axis a s) ! i))"

text \<open>A channel raises a flag with \<open>left\<close> words still to send.\<close>

definition dma_event :: "u32 \<Rightarrow> nat \<Rightarrow> dma_ch \<Rightarrow> 'a hw_st_scheme \<Rightarrow> 'a hw_st_scheme" where
  "dma_event it left c s = s\<lparr>DMA1_ISR := DMA1_ISR s OR it,
     dma := (dma s)(c := (dma s c)\<lparr>CNDTR := word_of_nat left\<rparr>)\<rparr>"

text \<open>The vector table: a channel without a handler has no interrupt enabled.\<close>

definition dma_vector :: "dma_ch \<Rightarrow> 'a motor_st_scheme \<Rightarrow> 'a motor_st_scheme res" where
  "dma_vector c = (case c of
       DMA1_Channel5 \<Rightarrow> DMA1_Channel5_IRQHandler
     | DMA1_Channel2 \<Rightarrow> DMA1_Channel2_IRQHandler
     | DMA1_Channel3 \<Rightarrow> DMA1_Channel3_IRQHandler
     | DMA1_Channel7 \<Rightarrow> DMA1_Channel7_IRQHandler
     | _ \<Rightarrow> Ok)"

definition block_round :: "nat \<Rightarrow> 'a motor_st_scheme \<Rightarrow> (u16 list \<times> 'a motor_st_scheme) res" where
  "block_round a s =
     (let p = axis a s; c = pdma p; n = unat (CNDTR (dma s c)); h = n div 2; m = CMAR (dma s c) in
      if \<not> dma_enabled c s \<or> \<not> tim_enabled (ptim p) s \<or> n = 0 then Ok ([], s)
      else bnd (dma_vector c (dma_event (DMA1_IT_HT c) (n - h) c s)) (\<lambda>s1.
           bnd (dma_vector c (dma_event (DMA1_IT_TC c) 0 c s1)) (\<lambda>s2.
             Ok (take h (dma_memory m s) @ drop h (take n (dma_memory m s1)), s2))))"

fun rounds :: "nat \<Rightarrow> nat \<Rightarrow> 'a motor_st_scheme \<Rightarrow> (u16 list \<times> 'a motor_st_scheme) res" where
  "rounds a 0 s = Ok ([], s)"
| "rounds a (Suc k) s =
     bnd (block_round a s) (\<lambda>(w, s). bnd (rounds a k s) (\<lambda>(v, s). Ok (w @ v, s)))"

text \<open>The channel an axis is wired to.\<close>

fun axis_channel :: "nat \<Rightarrow> dma_ch" where
  "axis_channel 0 = DMA1_Channel5"
| "axis_channel (Suc 0) = DMA1_Channel2"
| "axis_channel (Suc (Suc 0)) = DMA1_Channel3"
| "axis_channel _ = DMA1_Channel7"

lemma dma_vector_axis: "a < 4 \<Longrightarrow> dma_vector (axis_channel a) = dma_channel_irq (axis_channel a) a"
  by (auto simp: less_Suc_eq numeral_eq_Suc dma_vector_def DMA1_Channel5_IRQHandler_def
      DMA1_Channel2_IRQHandler_def DMA1_Channel3_IRQHandler_def DMA1_Channel7_IRQHandler_def)

definition flags_clear :: "dma_ch \<Rightarrow> 'a hw_st_scheme \<Rightarrow> bool" where
  "flags_clear c s \<longleftrightarrow> \<not> DMA_GetITStatus (DMA1_IT_HT c) s \<and> \<not> DMA_GetITStatus (DMA1_IT_TC c) s"

lemma channel_no_less: "channel_no c < 7"
  by (cases c) simp_all

definition flag_bit :: "nat \<Rightarrow> u32" where
  "flag_bit n = push_bit n 1"

lemma bit_flag_bit [simp]: "bit (flag_bit n) k \<longleftrightarrow> k = n \<and> n < 32"
  by (auto simp: flag_bit_def bit_simps)

lemma flag_masks: "DMA1_IT_HT c = flag_bit (4 * channel_no c + 2)" "DMA1_IT_TC c = flag_bit (4 * channel_no c + 1)"
  by (cases c; simp add: DMA1_IT_HT_def DMA1_IT_TC_def flag_bit_def)+

lemma and_single: "n < 32 \<Longrightarrow> (w :: u32) AND flag_bit n \<noteq> 0 \<longleftrightarrow> bit w n"
  using word_nonzero_bit_iff[of "w AND flag_bit n"] by (auto simp: bit_and_iff)

lemma flag_status:
  "DMA_GetITStatus (DMA1_IT_HT c) s \<longleftrightarrow> bit (DMA1_ISR s) (4 * channel_no c + 2)"
  "DMA_GetITStatus (DMA1_IT_TC c) s \<longleftrightarrow> bit (DMA1_ISR s) (4 * channel_no c + 1)"
  using channel_no_less[of c] by (simp_all add: DMA_GetITStatus_def flag_masks and_single)

lemma flag_after:
  assumes "flags_clear c s"
  shows "DMA_GetITStatus (DMA1_IT_HT c) (dma_event (DMA1_IT_HT c) n c s)"
    and "\<not> DMA_GetITStatus (DMA1_IT_TC c) (dma_event (DMA1_IT_HT c) n c s)"
    and "DMA_GetITStatus (DMA1_IT_TC c) (dma_event (DMA1_IT_TC c) n c s)"
    and "\<not> DMA_GetITStatus (DMA1_IT_HT c) (dma_event (DMA1_IT_TC c) n c s)"
  using assms channel_no_less[of c]
  by (simp_all add: flags_clear_def flag_status dma_event_def) (simp_all add: flag_masks bit_or_iff)

lemma flags_cleared:
  assumes "flags_clear c s"
  shows "DMA1_ISR t = DMA1_ISR (dma_event (DMA1_IT_HT c) n c s) \<Longrightarrow>
      flags_clear c (DMA_ClearITPendingBit (DMA1_IT_HT c) t)"
    and "DMA1_ISR t = DMA1_ISR (dma_event (DMA1_IT_TC c) n c s) \<Longrightarrow>
      flags_clear c (DMA_ClearITPendingBit (DMA1_IT_TC c) t)"
  using assms channel_no_less[of c]
  by (simp_all add: flags_clear_def flag_status dma_event_def DMA_ClearITPendingBit_def write_IFCR_def)
    (simp_all add: flag_masks bit_or_iff bit_and_iff bit_not_iff)

lemma irq_half:
  assumes "flags_clear c s"
  shows "dma_channel_irq c a (dma_event (DMA1_IT_HT c) n c s) =
    bnd (hm_dma_fill_next_buf a (dma_event (DMA1_IT_HT c) n c s)) (\<lambda>t.
      let t = DMA_ClearITPendingBit (DMA1_IT_HT c) t in
      if DMA_GetITStatus (DMA1_IT_TC c) t
      then bnd (hm_dma_ck a t) (\<lambda>t. Ok (DMA_ClearITPendingBit (DMA1_IT_TC c) t)) else Ok t)"
  using flag_after[OF assms] by (simp add: dma_channel_irq_def bnd_assoc Let_def)

lemma irq_full:
  assumes "flags_clear c s"
  shows "dma_channel_irq c a (dma_event (DMA1_IT_TC c) n c s) =
    bnd (hm_dma_ck a (dma_event (DMA1_IT_TC c) n c s)) (\<lambda>t. Ok (DMA_ClearITPendingBit (DMA1_IT_TC c) t))"
  using flag_after[OF assms] by (simp add: dma_channel_irq_def)

section \<open>One round\<close>

lemma event_frame [simp]:
  "s_axis_info (dma_event it n c s) = s_axis_info s" "tim (dma_event it n c s) = tim s"
  "dma_enabled d (dma_event it n c s) = dma_enabled d s" "CMAR (dma (dma_event it n c s) d) = CMAR (dma s d)"
  "gpio (dma_event it n c s) = gpio s"
  by (simp_all add: dma_event_def dma_enabled_def)

lemma axis_event [simp]: "axis a (dma_event it n c s) = axis a s"
  by (rule axis_same) simp

lemma clear_frame [simp]:
  "tim (DMA_ClearITPendingBit it s) = tim s" "dma (DMA_ClearITPendingBit it s) = dma s"
  "gpio (DMA_ClearITPendingBit it s) = gpio s"
  by (simp_all add: DMA_ClearITPendingBit_def write_IFCR_def)

lemma playing_frame:
  "dma t = dma s \<Longrightarrow> tim t = tim s \<Longrightarrow> s_axis_info t = s_axis_info s \<Longrightarrow> hw_playing a t = hw_playing a s"
  unfolding hw_playing_def tim_enabled_def dma_enabled_def axis_def by simp

lemma hw_clear [simp]:
  "hw_playing a (DMA_ClearITPendingBit it s) = hw_playing a s"
  "hw_stopped a (DMA_ClearITPendingBit it s) = hw_stopped a s"
  by (rule playing_frame, simp_all) (simp add: hw_stopped_def tim_enabled_def dma_enabled_def)

text \<open>
  A round from a playing axis: what is sent are the words of the current block, the half transfer
  handler refills the other block, the handler of the end of the block does the rest.
\<close>

lemma block_round_playing:
  assumes ok: "axis_ok a (axis a s)" and a: "a < 4" and len: "length (s_axis_info s) = 4"
    and ch: "pdma (axis a s) = axis_channel a" and fl: "flags_clear (axis_channel a) s"
    and play: "hw_playing a s" and ne: "dma_buf_len (cur_buf (axis a s)) \<noteq> 0"
    and fill: "fill_next (axis a s) = Ok q" and okq: "axis_ok a q"
    and same: "cur_buf q = cur_buf (axis a s)" "dma_buf_idx q = dma_buf_idx (axis a s)" "pdma q = pdma (axis a s)"
    and ck: "\<And>t. s_axis_info t = (s_axis_info s)[a := q] \<Longrightarrow>
      \<exists>u. hm_dma_ck a t = Ok u \<and> s_axis_info u = (s_axis_info s)[a := r] \<and> H u \<and> DMA1_ISR u = DMA1_ISR t"
    and H: "\<And>u it. H u \<Longrightarrow> H (DMA_ClearITPendingBit it u)"
  shows "\<exists>u. block_round a s = Ok (concat (map words3 (buf_steps (cur_buf (axis a s)))), u) \<and>
    s_axis_info u = (s_axis_info s)[a := r] \<and> H u \<and> flags_clear (axis_channel a) u"
proof -
  let ?c = "axis_channel a" and ?n = "unat (dma_buf_len (cur_buf (axis a s)))"
  let ?h = "?n div 2"
  let ?s1 = "DMA_ClearITPendingBit (DMA1_IT_HT ?c) (upd_axis a (\<lambda>_. q) (dma_event (DMA1_IT_HT ?c) (?n - ?h) ?c s))"
  have n: "unat (CNDTR (dma s ?c)) = ?n" "CMAR (dma s ?c) = DmaBuf a (unat (dma_buf_idx (axis a s)))"
    and en: "dma_enabled ?c s" "tim_enabled (ptim (axis a s)) s"
    using play ch by (simp_all add: hw_playing_def Let_def)
  have fl1: "flags_clear ?c ?s1" by (rule flags_cleared(1)[OF fl]) simp
  then have "\<not> DMA_GetITStatus (DMA1_IT_TC ?c) ?s1" by (simp add: flags_clear_def)
  then have half: "dma_vector ?c (dma_event (DMA1_IT_HT ?c) (?n - ?h) ?c s) = Ok ?s1"
    using a len fill by (simp add: dma_vector_axis irq_half[OF fl] hm_dma_fill_next_buf_def upd_axis_res_def Let_def)
  have info1: "s_axis_info (dma_event (DMA1_IT_TC ?c) 0 ?c ?s1) = (s_axis_info s)[a := q]" by simp
  from ck[OF this] obtain u where u: "hm_dma_ck a (dma_event (DMA1_IT_TC ?c) 0 ?c ?s1) = Ok u"
    "s_axis_info u = (s_axis_info s)[a := r]" "H u" "DMA1_ISR u = DMA1_ISR (dma_event (DMA1_IT_TC ?c) 0 ?c ?s1)" by blast
  let ?u = "DMA_ClearITPendingBit (DMA1_IT_TC ?c) u"
  have full: "dma_vector ?c (dma_event (DMA1_IT_TC ?c) 0 ?c ?s1) = Ok ?u"
    using a u(1) by (simp add: dma_vector_axis irq_full[OF fl1])
  have flu: "flags_clear ?c ?u" by (rule flags_cleared(2)[OF fl1 u(4)])
  have mem: "dma_memory (DmaBuf a (unat (dma_buf_idx (axis a s)))) ?s1 = dma_buf (cur_buf (axis a s))"
      "dma_memory (DmaBuf a (unat (dma_buf_idx (axis a s)))) s = dma_buf (cur_buf (axis a s))"
    using same a len by (simp_all add: dma_memory_def)
  have sent: "take ?h (dma_buf (cur_buf (axis a s))) @ drop ?h (take ?n (dma_buf (cur_buf (axis a s)))) =
      concat (map words3 (buf_steps (cur_buf (axis a s))))"
  proof -
    have "take ?h (dma_buf (cur_buf (axis a s))) = take ?h (take ?n (dma_buf (cur_buf (axis a s))))"
      by (simp add: min_absorb1)
    then show ?thesis using block_words[OF axis_ok_bufs(3)[OF ok]] by simp
  qed
  have "?n \<noteq> 0" using ne by (simp add: unat_eq_0)
  then have "block_round a s = Ok (concat (map words3 (buf_steps (cur_buf (axis a s)))), ?u)"
    using en n half full by (simp add: block_round_def Let_def ch mem sent)
  then show ?thesis using u(2,3) flu H by auto
qed

lemma rounds_stopped: "hw_stopped a s \<Longrightarrow> rounds a k s = Ok ([], s)"
  by (induction k) (simp_all add: block_round_def hw_stopped_def)

section \<open>Moves\<close>

definition signed_pos :: "RUN_DIR_E \<Rightarrow> u32 \<Rightarrow> u32" where
  "signed_pos d n = (if d = rdCW then n else - n)"

lemma signed_pos_add: "signed_pos d m + signed_steps d k = signed_pos d (m + ucast k)"
  by (simp add: signed_pos_def signed_steps_def)

text \<open>
  A move of \<open>n\<close> steps from the position \<open>x\<close> that has still to play the list \<open>out\<close>: the current block,
  the other one if it is filled, then what the ramp generator would make next.
\<close>

definition pending :: "u32 \<Rightarrow> (u16 \<times> u16 \<times> u16) list \<Rightarrow> hm_step_info \<Rightarrow> bool" where
  "pending n out p \<longleftrightarrow>
     (\<exists>ds q. ramp_gen (unat n - unat (steps_taken p)) (steps_taken p) p = Ok (ds, q) \<and>
        out = buf_steps (cur_buf p) @ (if buf_valid (next_buf p) then buf_steps (next_buf p) else []) @
                map triple ds)"

definition move_inv ::
  "u32 \<Rightarrow> RUN_DIR_E \<Rightarrow> u32 \<Rightarrow> dma_ch \<Rightarrow> (u16 \<times> u16 \<times> u16) list \<Rightarrow> hm_step_info \<Rightarrow> bool" where
  "move_inv x d n c out p \<longleftrightarrow>
     steps_request p = n \<and> n \<noteq> HM_INVALID_STEP \<and> motor_dir p = d \<and> pdma p = c \<and>
     unat (steps_taken p) \<le> unat n \<and>
     pending n out p \<and>
     unat (steps_taken p) = unat (steps_actual p) + buf_count (cur_buf p) +
        (if buf_valid (next_buf p) then buf_count (next_buf p) else 0) \<and>
     buf_count (cur_buf p) = min 100 (unat n - unat (steps_actual p)) \<and>
     (buf_valid (next_buf p) \<longrightarrow>
        buf_count (next_buf p) = min 100 (unat n - unat (steps_actual p) - buf_count (cur_buf p))) \<and>
     motor_pos p = x + signed_pos d (steps_actual p)"

lemma move_inv_length:
  assumes inv: "move_inv x d n c out p"
  shows "length out = unat n - unat (steps_actual p)"
proof -
  obtain ds q where gen: "ramp_gen (unat n - unat (steps_taken p)) (steps_taken p) p = Inr (ds, q)"
    and out: "out = buf_steps (cur_buf p) @ (if buf_valid (next_buf p) then buf_steps (next_buf p) else []) @
      map triple ds"
    and taken: "unat (steps_taken p) = unat (steps_actual p) + buf_count (cur_buf p) +
        (if buf_valid (next_buf p) then buf_count (next_buf p) else 0)" "unat (steps_taken p) \<le> unat n"
    using inv unfolding move_inv_def pending_def by blast
  have "length ds = unat n - unat (steps_taken p)" using ramp_gen_frame[OF gen] by simp
  then show ?thesis using taken by (simp add: out)
qed

lemma buf_emptied [simp]:
  "buf_ok b \<Longrightarrow> buf_ok (b\<lparr>dma_buf_len := 0\<rparr>)" "buf_count (b\<lparr>dma_buf_len := 0\<rparr>) = 0"
  "buf_steps (b\<lparr>dma_buf_len := 0\<rparr>) = []"
  by (simp_all add: buf_ok_def buf_count_def buf_steps_def)

text \<open>A fill from the state of the ramp, whatever the blocks are.\<close>

lemma with_ramp_bufs:
  "with_ramp p (p\<lparr>steps_taken := t, dma_bufs := bs\<rparr>) = p\<lparr>steps_taken := t, dma_bufs := bs\<rparr>"
  "with_ramp p (p\<lparr>steps_taken := t, dma_bufs := bs, dma_fill := f\<rparr>) =
     p\<lparr>steps_taken := t, dma_bufs := bs, dma_fill := f\<rparr>"
  "with_ramp p (p\<lparr>dma_bufs := bs\<rparr>) = p\<lparr>dma_bufs := bs\<rparr>"
  by (simp_all add: with_ramp_def)

lemma with_ramp_idem [simp]: "with_ramp p p = p"
  by (simp add: with_ramp_def)

lemma move_invD:
  assumes "move_inv x d n c out p"
  shows "steps_request p = n" "n \<noteq> HM_INVALID_STEP" "motor_dir p = d" "pdma p = c"
    "unat (steps_taken p) \<le> unat n" "pending n out p"
    "unat (steps_taken p) = unat (steps_actual p) + buf_count (cur_buf p) +
        (if buf_valid (next_buf p) then buf_count (next_buf p) else 0)"
    "buf_count (cur_buf p) = min 100 (unat n - unat (steps_actual p))"
    "buf_valid (next_buf p) \<Longrightarrow>
        buf_count (next_buf p) = min 100 (unat n - unat (steps_actual p) - buf_count (cur_buf p))"
    "motor_pos p = x + signed_pos d (steps_actual p)"
  using assms unfolding move_inv_def by blast+

text \<open>What a fill leaves alone.\<close>

definition same_frame :: "hm_step_info \<Rightarrow> hm_step_info \<Rightarrow> bool" where
  "same_frame p q \<longleftrightarrow>
     dma_buf_idx q = dma_buf_idx p \<and> steps_actual q = steps_actual p \<and> motor_dir q = motor_dir p \<and>
     pdma q = pdma p \<and> ptim q = ptim p \<and> motor_pos q = motor_pos p \<and> axis_idx q = axis_idx p \<and>
     steps_request q = steps_request p \<and> HM_STEP_FRE q = HM_STEP_FRE p \<and>
     motor_hw_config q = motor_hw_config p \<and> axis_state q = axis_state p \<and> bstopping q = bstopping p"

lemma same_frameD:
  assumes "same_frame p q"
  shows "dma_buf_idx q = dma_buf_idx p" "steps_actual q = steps_actual p" "motor_dir q = motor_dir p"
    "pdma q = pdma p" "ptim q = ptim p" "motor_pos q = motor_pos p" "axis_idx q = axis_idx p"
    "steps_request q = steps_request p" "HM_STEP_FRE q = HM_STEP_FRE p"
    "motor_hw_config q = motor_hw_config p" "axis_state q = axis_state p" "next_buf_idx q = next_buf_idx p"
  using assms by (simp_all add: same_frame_def next_buf_idx_def)

lemma same_frame_refl [simp]: "same_frame p p"
  by (simp add: same_frame_def)

lemma same_frame_trans: "same_frame p q \<Longrightarrow> same_frame q r \<Longrightarrow> same_frame p r"
  by (simp add: same_frame_def)

lemma same_frame_upd [simp]:
  "same_frame (p\<lparr>dma_bufs := bs\<rparr>) q = same_frame p q" "same_frame p (q\<lparr>dma_fill := k\<rparr>) = same_frame p q"
  "same_frame p (q\<lparr>dma_bufs := bs\<rparr>) = same_frame p q" "same_frame p (q\<lparr>steps_taken := t\<rparr>) = same_frame p q"
  "same_frame (p\<lparr>steps_taken := t\<rparr>) q = same_frame p q"
  by (simp_all add: same_frame_def)

text \<open>A fill of a block takes from the list of the steps to come what fits.\<close>

lemma update_move:
  assumes req: "steps_request p = n" "n \<noteq> HM_INVALID_STEP" and le: "unat (steps_taken p) \<le> unat n"
    and gen: "ramp_gen (unat n - unat (steps_taken p)) (steps_taken p) p = Inr (ds, e)"
    and i: "i < length (dma_bufs p)" and okb: "buf_ok (dma_bufs p ! i)"
    and m: "m = min (100 - buf_count (dma_bufs p ! i)) (unat n - unat (steps_taken p))"
  shows "\<exists>q b e'. hm_dma_update i p = Ok q \<and> same_frame p q \<and> dma_bufs q = (dma_bufs p)[i := b] \<and>
    buf_ok b \<and> buf_valid b \<and> buf_steps b = buf_steps (dma_bufs p ! i) @ map triple (take m ds) \<and>
    unat (steps_taken q) = unat (steps_taken p) + m \<and>
    ramp_gen (unat n - unat (steps_taken q)) (steps_taken q) q = Inr (drop m ds, e')"
proof -
  let ?sc = "steps_taken p" and ?b = "dma_bufs p ! i"
  let ?R = "unat n - unat ?sc"
  have "m \<le> ?R" using m by simp
  then have R: "?R = m + (?R - m)" by simp
  have "ramp_gen (m + (?R - m)) ?sc p = Ok (ds, e)" unfolding R[symmetric] by (rule gen)
  then obtain d1 q1 d2 where g1: "ramp_gen m ?sc p = Inr (d1, q1)"
    and g2: "ramp_gen (?R - m) (?sc + word_of_nat m) q1 = Inr (d2, e)" and ds: "ds = d1 @ d2"
    using req by (subst (asm) ramp_gen_split) auto
  have same: "same_plan p q1" "length d1 = m" using ramp_gen_frame[OF g1] by simp_all
  have turns: "loop_turns p ?b ?sc = m" using req m by (simp add: loop_turns_def)
  have adv: "unat (advance p m ?sc) = unat ?sc + m" "advance p m ?sc = ?sc + word_of_nat m"
    using req le m advance_value[of ?sc m p] by (simp_all add: advance_def)
  define b where "b = (fold put_step (map triple d1) ?b)\<lparr>buf_valid := True\<rparr>"
  have fits: "buf_count ?b + length (map triple d1) \<le> 100" using buf_count_le[OF okb] same(2) m by simp
  have b: "buf_ok b \<and> buf_valid b \<and> buf_steps b = buf_steps ?b @ map triple (take m ds)"
    using put_steps_ok[OF okb fits] same(2) ds by (simp add: b_def)
  define q where "q = q1\<lparr>steps_taken := advance p m ?sc, dma_bufs := (dma_bufs p)[i := b]\<rparr>"
  have upd: "hm_dma_update i p = Ok q"
    using hm_dma_update_gen[OF okb turns] g1 by (simp add: q_def b_def)
  have "same_frame p q1" using same(1) by (simp add: same_frame_def same_plan_def)
  then have fr: "same_frame p q" by (simp add: q_def)
  have w: "with_ramp q1 q = q" by (simp add: with_ramp_def q_def)
  have tk: "steps_taken q = ?sc + word_of_nat m" using adv by (simp add: q_def)
  have utk: "unat (steps_taken q) = unat ?sc + m" using adv by (simp add: q_def)
  then have left: "unat n - unat (steps_taken q) = ?R - m" by simp
  have "ramp_gen (unat n - unat (steps_taken q)) (steps_taken q) q = Inr (drop m ds, with_ramp e q)"
    using ramp_gen_cong[OF w g2] left tk same(2) ds by simp
  moreover have "dma_bufs q = (dma_bufs p)[i := b]" by (simp add: q_def)
  ultimately show ?thesis using upd fr b utk by blast
qed

lemma fill_next_move:
  assumes ok: "axis_ok a p" and inv: "move_inv x d n c out p"
  shows "\<exists>q. fill_next p = Ok q \<and> axis_ok a q \<and> move_inv x d n c out q \<and> buf_valid (next_buf q) \<and>
    cur_buf q = cur_buf p \<and> dma_buf_idx q = dma_buf_idx p"
proof (cases "buf_valid (next_buf p)")
  case True
  then show ?thesis using ok inv axis_ok_bufs(2)[OF ok] by (simp add: fill_next_def)
next
  case False
  note bufs = axis_ok_bufs[OF ok] and D = move_invD[OF inv]
  let ?i = "next_buf_idx p" and ?b = "(next_buf p)\<lparr>dma_buf_len := 0\<rparr>"
  let ?p = "p\<lparr>dma_bufs := (dma_bufs p)[?i := ?b]\<rparr>"
  define m where "m = min 100 (unat n - unat (steps_taken p))"
  obtain ds e where gen: "ramp_gen (unat n - unat (steps_taken p)) (steps_taken p) p = Inr (ds, e)"
    and out: "out = buf_steps (cur_buf p) @ map triple ds"
    using D(6) False unfolding pending_def by auto
  have bi: "dma_bufs ?p ! ?i = ?b" using bufs(5) by simp
  have "\<exists>q b e'. hm_dma_update ?i ?p = Ok q \<and> same_frame ?p q \<and> dma_bufs q = (dma_bufs ?p)[?i := b] \<and>
    buf_ok b \<and> buf_valid b \<and> buf_steps b = buf_steps (dma_bufs ?p ! ?i) @ map triple (take m ds) \<and>
    unat (steps_taken q) = unat (steps_taken ?p) + m \<and>
    ramp_gen (unat n - unat (steps_taken q)) (steps_taken q) q = Inr (drop m ds, e')"
    by (rule update_move) (use D(1,2,5) ramp_gen_cong[OF with_ramp_bufs(3) gen] bufs(4,5) bi m_def in simp_all)
  then obtain q b e' where q: "hm_dma_update ?i ?p = Ok q" "same_frame p q" "dma_bufs q = (dma_bufs p)[?i := b]"
    "buf_ok b" "buf_valid b" "buf_steps b = map triple (take m ds)"
    "unat (steps_taken q) = unat (steps_taken p) + m"
    "ramp_gen (unat n - unat (steps_taken q)) (steps_taken q) q = Inr (drop m ds, e')"
    using bi by auto
  define r where "r = q\<lparr>dma_fill := dma_fill q + 1\<rparr>"
  have fill: "fill_next p = Ok r"
    using bufs(2) False q(1) by (simp add: fill_next_def r_def)
  have r: "dma_bufs r = (dma_bufs p)[?i := b]" "steps_taken r = steps_taken q" "same_frame p r"
    using q by (simp_all add: r_def)
  note fr = same_frameD[OF r(3)]
  have cur: "cur_buf r = cur_buf p" using next_idx_neq[OF bufs(6)] r fr by simp
  have nxt: "next_buf r = b" using r bufs(5) fr(12) by simp
  have okr: "axis_ok a r"
    using ok q(4) unfolding axis_ok_def r fr by (auto dest!: set_update_subset_insert[THEN subsetD])
  have len: "length ds = unat n - unat (steps_taken p)" using ramp_gen_frame[OF gen] by simp
  have count: "buf_count b = m" using arg_cong[OF q(6), of length] len by (simp add: m_def)
  have w: "with_ramp q r = r" by (simp add: with_ramp_def r_def)
  have "out = buf_steps (cur_buf r) @ (if buf_valid (next_buf r) then buf_steps (next_buf r) else []) @
      map triple (drop m ds)"
    unfolding cur nxt out using q(5,6) by (simp flip: map_append)
  with ramp_gen_cong[OF w q(8)] have pend: "pending n out r" unfolding pending_def r(2) by blast
  have sa: "unat (steps_taken p) = unat (steps_actual p) + buf_count (cur_buf p)"
    using D(7) by (simp only: False if_False add_0_right)
  have le: "unat (steps_taken r) \<le> unat n" using q(7) D(5) unfolding r(2) m_def by linarith
  have eq: "unat (steps_taken r) = unat (steps_actual r) + buf_count (cur_buf r) +
      (if buf_valid (next_buf r) then buf_count (next_buf r) else 0)"
    unfolding cur nxt r(2) q(7) fr(2) sa by (simp only: q(5) count if_True)
  have left: "buf_count (next_buf r) = min 100 (unat n - unat (steps_actual r) - buf_count (cur_buf r))"
    unfolding cur nxt count fr(2) by (simp only: m_def sa diff_diff_left)
  have "move_inv x d n c out r"
    unfolding move_inv_def using pend le eq left D(1-4,8,10) cur fr(2-4,6,8) by simp
  then show ?thesis using fill okr cur nxt q(5) fr(1) by (intro exI[of _ r]) simp
qed

text \<open>The end of a block counts its steps.\<close>

lemma unat_block_steps: "unat (ucast (dma_buf_len b div 3) :: u32) = buf_count b"
  by (simp add: buf_count_def unat_div)

lemma counted_actual:
  assumes inv: "move_inv x d n c out p"
  shows "unat (steps_actual (counted p)) = unat (steps_actual p) + buf_count (cur_buf p)"
    and "motor_pos (counted p) = x + signed_pos d (steps_actual (counted p))"
    and "length out = unat n - unat (steps_actual p)" "unat (steps_actual p) \<le> unat n"
    and "buf_count (cur_buf p) = min 100 (length out)"
proof -
  note m = move_invD[OF inv]
  show le: "unat (steps_actual p) \<le> unat n" using m(5,7) by linarith
  show len: "length out = unat n - unat (steps_actual p)" by (rule move_inv_length[OF inv])
  show "buf_count (cur_buf p) = min 100 (length out)" unfolding len by (rule m(8))
  have "unat (steps_actual p) + buf_count (cur_buf p) < 2 ^ 32"
    using m(5,7) le unat_u32_less[of n] by linarith
  then show "unat (steps_actual (counted p)) = unat (steps_actual p) + buf_count (cur_buf p)"
    using unat_add_small[of "steps_actual p" "ucast (dma_buf_len (cur_buf p) div 3)"]
    unfolding unat_block_steps counted_def by simp
  show "motor_pos (counted p) = x + signed_pos d (steps_actual (counted p))"
    by (simp add: counted_def m(3,10) signed_pos_add add.assoc)
qed

lemma more_steps_iff:
  assumes "move_inv x d n c out p"
  shows "more_steps (counted p) \<longleftrightarrow> buf_count (cur_buf p) < length out"
proof -
  have "steps_request p = n" "n \<noteq> HM_INVALID_STEP" using move_invD[OF assms] by simp_all
  then have "more_steps (counted p) \<longleftrightarrow> unat (steps_actual (counted p)) < unat n"
    by (simp add: more_steps_def word_less_nat_alt)
  then show ?thesis using counted_actual(1,3,4)[OF assms] by linarith
qed

lemma turned_bufs:
  assumes ok: "axis_ok a p"
  shows "cur_buf (block_turned p) = next_buf p" "\<not> buf_valid (next_buf (block_turned p))"
proof -
  have idx: "next_buf_idx (block_turned p) = unat (dma_buf_idx p)" "unat (dma_buf_idx (block_turned p)) = next_buf_idx p"
    using axis_ok_bufs(6)[OF ok] by (auto simp: next_idx_eq block_turned_def less_2_cases_iff next_buf_idx_def HM_DMA_BUF_BLOCK_SZ_def)
  have "dma_bufs (block_turned p) = dma_bufs (counted p)" by (simp add: block_turned_def)
  then show "cur_buf (block_turned p) = next_buf p" unfolding idx by (simp add: next_buf_counted[OF ok])
  show "\<not> buf_valid (next_buf (block_turned p))"
    unfolding idx using axis_ok_bufs(5,6)[OF ok] by (simp add: block_turned_def counted_def)
qed

lemma turned_move:
  assumes ok: "axis_ok a p" and inv: "move_inv x d n c out p" and valid: "buf_valid (next_buf p)"
  shows "move_inv x d n c (drop (buf_count (cur_buf p)) out) (block_turned p)"
proof -
  let ?q = "block_turned p"
  note b = turned_bufs[OF ok] and ct = counted_actual[OF inv]
  note m = move_invD[OF inv]
  have i7: "unat (steps_taken p) = unat (steps_actual p) + buf_count (cur_buf p) + buf_count (next_buf p)"
    using m(7) by (simp only: valid if_True)
  have q: "steps_request ?q = n" "motor_dir ?q = d" "pdma ?q = c" "steps_taken ?q = steps_taken p"
    "steps_actual ?q = steps_actual (counted p)" "motor_pos ?q = motor_pos (counted p)"
    using m(1,3,4) by (simp_all add: block_turned_def)
  obtain ds r where gen: "ramp_gen (unat n - unat (steps_taken p)) (steps_taken p) p = Inr (ds, r)"
    and out: "out = buf_steps (cur_buf p) @ buf_steps (next_buf p) @ map triple ds"
    using m(6) valid unfolding pending_def by auto
  have "with_ramp p ?q = ?q" by (simp add: with_ramp_def block_turned_def counted_def)
  from ramp_gen_cong[OF this gen] have "pending n (drop (buf_count (cur_buf p)) out) ?q"
    unfolding pending_def q b(1) using b(2) out by auto
  moreover have "unat (steps_taken p) = unat (steps_actual (counted p)) + buf_count (cur_buf ?q) +
      (if buf_valid (next_buf ?q) then buf_count (next_buf ?q) else 0)"
    using i7 unfolding b(1) ct(1) by (simp only: b(2) if_False add_0_right)
  moreover have "buf_count (cur_buf ?q) = min 100 (unat n - unat (steps_actual (counted p)))"
    unfolding b(1) m(9)[OF valid] ct(1) by (simp only: diff_diff_left)
  ultimately show ?thesis
    unfolding move_inv_def q using m(2,5) ct(2) b(2) by blast
qed

lemma stopped_move:
  assumes inv: "move_inv x d n c out p" and last: "\<not> buf_count (cur_buf p) < length out"
  shows "buf_steps (cur_buf p) = out" "motor_pos (block_stopped p) = x + signed_pos d n"
    "axis_state (block_stopped p) = asStoped"
proof -
  note ct = counted_actual[OF inv]
  have all: "buf_count (cur_buf p) = length out" using ct(5) last by simp
  obtain rest where "out = buf_steps (cur_buf p) @ rest"
    using inv unfolding move_inv_def pending_def by blast
  with all show "buf_steps (cur_buf p) = out" by (metis append_eq_conv_conj length_buf_steps take_all_iff order_refl)
  have "unat (steps_actual (counted p)) = unat n" using ct(1,3,4) all by linarith
  then have "steps_actual (counted p) = n" by (simp only: word_unat_eq_iff)
  with ct(2) show "motor_pos (block_stopped p) = x + signed_pos d n" by (simp add: block_stopped_def)
  show "axis_state (block_stopped p) = asStoped" by (simp add: block_stopped_def)
qed

text \<open>A round of a move plays the current block and either goes on with the rest or stops.\<close>

lemma move_round:
  assumes ok: "axis_ok a (axis a s)" and a: "a < 4" and len: "length (s_axis_info s) = 4"
    and fl: "flags_clear (axis_channel a) s" and play: "hw_playing a s"
    and inv: "move_inv x d n (axis_channel a) out (axis a s)" and ne: "out \<noteq> []"
  shows "\<exists>r u. block_round a s = Ok (concat (map words3 (take 100 out)), u) \<and>
    s_axis_info u = (s_axis_info s)[a := r] \<and> flags_clear (axis_channel a) u \<and>
    (if length out \<le> 100
     then hw_stopped a u \<and> motor_pos r = x + signed_pos d n \<and> axis_state r = asStoped \<and>
       axis_ok a r \<and> pdma r = axis_channel a
     else hw_playing a u \<and> axis_ok a r \<and> move_inv x d n (axis_channel a) (drop 100 out) r)"
proof -
  let ?p = "axis a s"
  obtain q where q: "fill_next ?p = Ok q" "axis_ok a q" "move_inv x d n (axis_channel a) out q"
    "buf_valid (next_buf q)" "cur_buf q = cur_buf ?p" "dma_buf_idx q = dma_buf_idx ?p"
    using fill_next_move[OF ok inv] by blast
  have pd: "pdma ?p = axis_channel a" "pdma q = pdma ?p" using move_invD(4)[OF inv] move_invD(4)[OF q(3)] by simp_all
  have cc: "buf_count (cur_buf ?p) = min 100 (length out)" by (rule counted_actual(5)[OF inv])
  have "buf_count (cur_buf ?p) \<noteq> 0" using cc ne by simp
  then have nz: "dma_buf_len (cur_buf ?p) \<noteq> 0" by (auto simp: buf_count_def)
  have cur: "buf_steps (cur_buf ?p) = take 100 out"
  proof -
    obtain rest where "out = buf_steps (cur_buf ?p) @ rest"
      using move_invD(6)[OF inv] unfolding pending_def by blast
    then show ?thesis using cc by (metis append_eq_conv_conj length_buf_steps take_all take_take min.commute
        min.cobounded1 nat_le_linear min_def)
  qed
  note round = block_round_playing[OF ok a len pd(1) fl play nz q(1,2,5,6) pd(2)]
  have more: "more_steps (counted q) \<longleftrightarrow> 100 < length out"
    using more_steps_iff[OF q(3)] cc q(5) by auto
  show ?thesis
  proof (cases "length out \<le> 100")
    case True
    have ck: "\<exists>u. hm_dma_ck a t = Ok u \<and> s_axis_info u = (s_axis_info s)[a := block_stopped q] \<and>
        hw_stopped a u \<and> DMA1_ISR u = DMA1_ISR t" if "s_axis_info t = (s_axis_info s)[a := q]" for t
    proof -
      have ax: "axis a t = q" by (rule axis_of_list[OF that]) (simp add: a len)
      show ?thesis
        by (rule hm_dma_ck_last[of a t]) (use ax q(2) a len more True that in auto)
    qed
    have st: "hw_stopped a (DMA_ClearITPendingBit it u)" if "hw_stopped a u" for u it using that by simp
    have "\<not> buf_count (cur_buf q) < length out" using cc q(5) True by simp
    moreover have "axis_ok a (block_stopped q)" by (rule axis_ok_stopped[OF q(2)])
    moreover have "pdma (block_stopped q) = axis_channel a" using pd by (simp add: block_stopped_def)
    ultimately show ?thesis using stopped_move[OF q(3)] round[of "block_stopped q" "hw_stopped a", OF ck st] True cur
      by auto
  next
    case False
    have ck: "\<exists>u. hm_dma_ck a t = Ok u \<and> s_axis_info u = (s_axis_info s)[a := block_turned q] \<and>
        hw_playing a u \<and> DMA1_ISR u = DMA1_ISR t" if "s_axis_info t = (s_axis_info s)[a := q]" for t
    proof -
      have ax: "axis a t = q" by (rule axis_of_list[OF that]) (simp add: a len)
      show ?thesis
        by (rule hm_dma_ck_more[of a t]) (use ax q(2,4) a len more False that in auto)
    qed
    have st: "hw_playing a (DMA_ClearITPendingBit it u)" if "hw_playing a u" for u it using that by simp
    have "buf_count (cur_buf q) = 100" using cc q(5) False by simp
    with turned_move[OF q(2,3,4)] have "move_inv x d n (axis_channel a) (drop 100 out) (block_turned q)" by simp
    with round[of "block_turned q" "hw_playing a", OF ck st] axis_ok_turned[OF q(2)] False cur
    show ?thesis by auto
  qed
qed

lemma move_rounds:
  assumes "axis_ok a (axis a s)" and a: "a < 4" and "length (s_axis_info s) = 4"
    and "flags_clear (axis_channel a) s" and "hw_playing a s"
    and "move_inv x d n (axis_channel a) out (axis a s)" and "out \<noteq> []"
  shows "\<exists>r u. rounds a ((length out + 99) div 100) s = Ok (concat (map words3 out), u) \<and>
    s_axis_info u = (s_axis_info s)[a := r] \<and> hw_stopped a u \<and> flags_clear (axis_channel a) u \<and>
    motor_pos r = x + signed_pos d n \<and> axis_state r = asStoped \<and> axis_ok a r \<and> pdma r = axis_channel a"
  using assms
proof (induction "length out" arbitrary: s out rule: less_induct)
  case less
  from move_round[OF less.prems] obtain r u where
    r: "block_round a s = Ok (concat (map words3 (take 100 out)), u)" "s_axis_info u = (s_axis_info s)[a := r]"
      "flags_clear (axis_channel a) u"
    and fin: "if length out \<le> 100
     then hw_stopped a u \<and> motor_pos r = x + signed_pos d n \<and> axis_state r = asStoped \<and>
       axis_ok a r \<and> pdma r = axis_channel a
     else hw_playing a u \<and> axis_ok a r \<and> move_inv x d n (axis_channel a) (drop 100 out) r" by blast
  show ?case
  proof (cases "length out \<le> 100")
    case True
    have "(length out + 99) div 100 = Suc 0" using True less.prems(7) by (cases out) simp_all
    then show ?thesis using r fin True by auto
  next
    case False
    have ax: "axis a u = r" by (rule axis_of_list[OF r(2)]) (simp add: a less.prems(3))
    have k: "(length out + 99) div 100 = Suc ((length (drop 100 out) + 99) div 100)" using False by simp
    have "\<exists>r' u'. rounds a ((length (drop 100 out) + 99) div 100) u = Ok (concat (map words3 (drop 100 out)), u') \<and>
        s_axis_info u' = (s_axis_info u)[a := r'] \<and> hw_stopped a u' \<and> flags_clear (axis_channel a) u' \<and>
        motor_pos r' = x + signed_pos d n \<and> axis_state r' = asStoped \<and> axis_ok a r' \<and> pdma r' = axis_channel a"
      by (rule less.hyps) (use False fin ax r less.prems(2,3) in simp_all)
    then obtain r' u' where IH: "rounds a ((length (drop 100 out) + 99) div 100) u = Ok (concat (map words3 (drop 100 out)), u')"
        "s_axis_info u' = (s_axis_info u)[a := r']" "hw_stopped a u'" "flags_clear (axis_channel a) u'"
        "motor_pos r' = x + signed_pos d n" "axis_state r' = asStoped" "axis_ok a r'" "pdma r' = axis_channel a"
      by blast
    have "concat (map words3 (take 100 out)) @ concat (map words3 (drop 100 out)) = concat (map words3 out)"
      by (metis append_take_drop_id concat_append map_append)
    then show ?thesis unfolding k using r IH by auto
  qed
qed

section \<open>From the start of a move to its end\<close>

text \<open>The invariant for an axis that has been prepared and has sent nothing yet.\<close>

lemma prepared_move:
  assumes req: "steps_request p = n" "n \<noteq> HM_INVALID_STEP"
    and rest: "dma_buf_idx p = 0" "steps_actual p = 0" "motor_dir p = d" "pdma p = c" "axis_idx p = word_of_nat a"
    and fr: "same_frame p r" and bufs: "length (dma_bufs r) = 2" "\<forall>b \<in> set (dma_bufs r). buf_ok b"
    and gen: "ramp_gen (unat n - unat (steps_taken r)) (steps_taken r) r = Inr (ds, e)"
    and taken: "unat (steps_taken r) \<le> unat n" "unat (steps_taken r) = buf_count (dma_bufs r ! 0) +
      (if buf_valid (dma_bufs r ! 1) then buf_count (dma_bufs r ! 1) else 0)"
    and counts: "buf_count (dma_bufs r ! 0) = min 100 (unat n)"
      "buf_valid (dma_bufs r ! 1) \<Longrightarrow> buf_count (dma_bufs r ! 1) = min 100 (unat n - buf_count (dma_bufs r ! 0))"
  shows "axis_ok a r \<and> move_inv (motor_pos p) d n c (buf_steps (dma_bufs r ! 0) @
    (if buf_valid (dma_bufs r ! 1) then buf_steps (dma_bufs r ! 1) else []) @ map triple ds) r"
proof -
  note f = same_frameD[OF fr]
  have idx: "unat (dma_buf_idx r) = 0" "next_buf_idx r = 1" using f rest(1) by (simp_all add: next_idx_eq)
  have "motor_pos r = motor_pos p + signed_pos d (steps_actual r)" using f(2,6) rest(2) by (simp add: signed_pos_def)
  moreover have "unat (steps_actual r) = 0" using f(2) rest(2) by simp
  ultimately have "move_inv (motor_pos p) d n c (buf_steps (dma_bufs r ! 0) @
      (if buf_valid (dma_bufs r ! 1) then buf_steps (dma_bufs r ! 1) else []) @ map triple ds) r"
    unfolding move_inv_def pending_def idx using req f(3,4,8) rest(3,4) gen taken counts by auto
  moreover have "axis_ok a r" unfolding axis_ok_def using f rest bufs idx by auto
  ultimately show ?thesis by blast
qed

text \<open>The blocks after a start: the first one with one step, the second one empty and not valid.\<close>

lemma fill_blocks_move:
  assumes req: "steps_request p = n" "n \<noteq> HM_INVALID_STEP" "1 \<le> unat n"
    and bufs: "length (dma_bufs p) = 2" "\<forall>b \<in> set (dma_bufs p). buf_ok b" "buf_count (dma_bufs p ! 0) = 1"
      "buf_count (dma_bufs p ! 1) = 0" "\<not> buf_valid (dma_bufs p ! 1)"
    and rest: "dma_buf_idx p = 0" "steps_actual p = 0" "motor_dir p = d" "pdma p = c" "axis_idx p = word_of_nat a"
    and gen: "ramp_gen (unat n - 1) 1 p = Inr (ds, e)"
  shows "\<exists>q. fill_blocks p = Ok q \<and> axis_ok a q \<and> same_frame p q \<and>
    move_inv (motor_pos p) d n c (buf_steps (dma_bufs p ! 0) @ map triple ds) q"
proof -
  let ?p = "p\<lparr>steps_taken := 1\<rparr>" and ?b0 = "dma_bufs p ! 0"
  define m where "m = min 99 (unat n - 1)"
  have ok01: "buf_ok (dma_bufs p ! 0)" "buf_ok (dma_bufs p ! 1)" using bufs(1,2) by simp_all
  have len: "length ds = unat n - 1" using ramp_gen_frame[OF gen] by simp
  have "with_ramp p ?p = ?p" by (simp add: with_ramp_def)
  from ramp_gen_cong[OF this gen] have gen1: "ramp_gen (unat n - 1) 1 ?p = Ok (ds, with_ramp e ?p)" .
  have "\<exists>q b e'. hm_dma_update 0 ?p = Ok q \<and> same_frame ?p q \<and> dma_bufs q = (dma_bufs ?p)[0 := b] \<and>
    buf_ok b \<and> buf_valid b \<and> buf_steps b = buf_steps (dma_bufs ?p ! 0) @ map triple (take m ds) \<and>
    unat (steps_taken q) = unat (steps_taken ?p) + m \<and>
    ramp_gen (unat n - unat (steps_taken q)) (steps_taken q) q = Inr (drop m ds, e')"
    by (rule update_move) (use req bufs ok01 gen1 m_def in simp_all)
  then obtain q b e' where q: "hm_dma_update 0 ?p = Ok q" "same_frame p q" "dma_bufs q = (dma_bufs p)[0 := b]"
    "buf_ok b" "buf_valid b" "buf_steps b = buf_steps ?b0 @ map triple (take m ds)" "unat (steps_taken q) = 1 + m"
    and gq: "ramp_gen (unat n - unat (steps_taken q)) (steps_taken q) q = Inr (drop m ds, e')" by auto
  note fq = same_frameD[OF q(2)]
  have cb: "buf_count b = 1 + m" using arg_cong[OF q(6), of length] len bufs(3) by (simp add: m_def)
  have n1: "1 + m = min 100 (unat n)" using req(3) by (auto simp: m_def)
  have leq: "unat (steps_taken q) \<le> unat n" using q(7) n1 by simp
  have bq: "dma_bufs q ! 0 = b" "dma_bufs q ! 1 = dma_bufs p ! 1" "length (dma_bufs q) = 2" using q(3) bufs(1) by simp_all
  have okq: "\<forall>b \<in> set (dma_bufs q). buf_ok b"
    using q(3,4) bufs(2) by (auto dest!: set_update_subset_insert[THEN subsetD])
  have fb: "fill_blocks p = (if run_state q \<noteq> rsSTOP then hm_dma_update 1 q else Ok q)"
    using q(1) fq rest(1) by (simp add: fill_blocks_def HM_DMA_BUF_BLOCK_SZ_def upt_rec)
  show ?thesis
  proof (cases "run_state q = rsSTOP")
    case True
    have "axis_ok a q \<and> move_inv (motor_pos p) d n c (buf_steps b @ [] @ map triple (drop m ds)) q"
      using prepared_move[OF req(1,2) rest q(2) bq(3) okq gq leq] bq bufs(5) cb n1 q(7) by simp
    moreover have "buf_steps b @ [] @ map triple (drop m ds) = buf_steps ?b0 @ map triple ds"
      by (simp add: q(6) flip: map_append)
    ultimately show ?thesis using fb True q(2) by auto
  next
    case False
    define k where "k = min 100 (unat n - unat (steps_taken q))"
    have "\<exists>r b' e''. hm_dma_update 1 q = Ok r \<and> same_frame q r \<and> dma_bufs r = (dma_bufs q)[1 := b'] \<and>
      buf_ok b' \<and> buf_valid b' \<and> buf_steps b' = buf_steps (dma_bufs q ! 1) @ map triple (take k (drop m ds)) \<and>
      unat (steps_taken r) = unat (steps_taken q) + k \<and>
      ramp_gen (unat n - unat (steps_taken r)) (steps_taken r) r = Inr (drop k (drop m ds), e'')"
      by (rule update_move) (use req bufs ok01 gq q(3) fq leq bq k_def in simp_all)
    then obtain r b' e'' where r: "hm_dma_update 1 q = Ok r" "same_frame q r" "dma_bufs r = (dma_bufs q)[1 := b']"
      "buf_ok b'" "buf_valid b'" "buf_steps b' = map triple (take k (drop m ds))"
      "unat (steps_taken r) = 1 + m + k"
      and gr: "ramp_gen (unat n - unat (steps_taken r)) (steps_taken r) r = Inr (drop k (drop m ds), e'')"
      using bq bufs(4) q(7) by (auto simp flip: length_0_conv)
    have fr: "same_frame p r" by (rule same_frame_trans[OF q(2) r(2)])
    have br: "dma_bufs r ! 0 = b" "dma_bufs r ! 1 = b'" "length (dma_bufs r) = 2" using r(3) bq by simp_all
    have okr: "\<forall>b \<in> set (dma_bufs r). buf_ok b"
      using r(3,4) okq by (auto dest!: set_update_subset_insert[THEN subsetD])
    have cb': "buf_count b' = k" using arg_cong[OF r(6), of length] len q(7) by (simp add: k_def)
    have kk: "k = min 100 (unat n - (1 + m))" using q(7) by (simp add: k_def)
    have ler: "unat (steps_taken r) \<le> unat n" using r(7) kk n1 by linarith
    have "axis_ok a r \<and> move_inv (motor_pos p) d n c (buf_steps b @ buf_steps b' @ map triple (drop k (drop m ds))) r"
      using prepared_move[OF req(1,2) rest fr br(3) okr gr ler] br r(5,7) cb cb' kk n1 by simp
    moreover have "buf_steps b @ buf_steps b' @ map triple (drop k (drop m ds)) = buf_steps ?b0 @ map triple ds"
      unfolding q(6) r(6) append_assoc map_append[symmetric] append_take_drop_id by (rule refl)
    ultimately show ?thesis using fb False r(1) fr by auto
  qed
qed

text \<open>
  The list of delays of a move, computed in one go: the parameters, the first delay, and what the ramp
  generator makes of the rest.
\<close>

definition move_delays :: "u32 \<Rightarrow> u32 \<Rightarrow> u32 \<Rightarrow> hm_step_info \<Rightarrow> u16 list res" where
  "move_delays n accel speed p =
     bnd (move_params n accel speed (move_reset speed n p)) (\<lambda>p.
     bnd (ramp_gen (unat n - 1) 1 p) (\<lambda>(ds, q). Ok (step_delay p # ds)))"

lemma ramp_start_with: "ramp_start (with_ramp p q) = with_ramp (ramp_start p) q"
  by (simp add: ramp_start_def Let_def with_ramp_upd)

lemma ramp_start_sel [simp]:
  "dma_bufs (ramp_start p) = dma_bufs p" "dma_buf_idx (ramp_start p) = dma_buf_idx p"
  "steps_actual (ramp_start p) = steps_actual p" "motor_dir (ramp_start p) = motor_dir p"
  "pdma (ramp_start p) = pdma p" "axis_idx (ramp_start p) = axis_idx p" "motor_pos (ramp_start p) = motor_pos p"
  "steps_request (ramp_start p) = steps_request p" "ptim (ramp_start p) = ptim p"
  "steps_taken (ramp_start p) = steps_taken p" "HM_STEP_FRE (ramp_start p) = HM_STEP_FRE p"
  "motor_hw_config (ramp_start p) = motor_hw_config p" "axis_state (ramp_start p) = axis_state p"
  "bstopping (ramp_start p) = bstopping p" "min_delay (ramp_start p) = min_delay p"
  by (simp_all add: ramp_start_def Let_def)

lemma move_params_frame:
  assumes "move_params n accel speed p = Inr q"
  shows "same_frame p q" "dma_bufs q = dma_bufs p" "steps_taken q = steps_taken p"
  using assms by (auto simp: move_params_def Let_def same_frame_def)

lemma move_params_with:
  assumes "HM_STEP_FRE q = HM_STEP_FRE p" and "with_ramp p q = q" and "move_params n accel speed p = Inr r"
  shows "move_params n accel speed q = Ok (with_ramp r q)"
proof -
  have m: "motor_method q = motor_method p" using arg_cong[OF assms(2), of motor_method] by simp
  obtain md sd ml where par: "min_delay_of (HM_STEP_FRE p) (ucast speed) = Inr md"
    "first_delay_of (HM_STEP_FRE p) accel = Inr sd" "max_s_lim_of (motor_method p) (ucast speed) accel = Inr ml"
    and r: "r = ramp_start (p\<lparr>min_delay := md, step_delay := sd, ramp_n2 := ml, decel_val := decel_val_of n ml,
        decel_start := n + decel_val_of n ml\<rparr>)"
    using assms(3) by (auto simp: move_params_def Let_def)
  have "(with_ramp p q)\<lparr>min_delay := md, step_delay := sd, ramp_n2 := ml, decel_val := decel_val_of n ml,
        decel_start := n + decel_val_of n ml\<rparr> =
      with_ramp (p\<lparr>min_delay := md, step_delay := sd, ramp_n2 := ml, decel_val := decel_val_of n ml,
        decel_start := n + decel_val_of n ml\<rparr>) q"
    by (simp add: with_ramp_def)
  then show ?thesis using par assms(1,2) m
    by (simp add: move_params_def Let_def r flip: ramp_start_with)
qed

lemma put_first_eq:
  assumes "length (dma_bufs p) = 2" and "buf_ok (dma_bufs p ! 0)" and "buf_count (dma_bufs p ! 0) = 0"
  shows "put_first w p = Ok (p\<lparr>dma_bufs := (dma_bufs p)[0 :=
      put_step (step_delay p - 1, w, step_delay p div 2) (dma_bufs p ! 0)]\<rparr>)"
  using assms by (simp add: put_first_def buf_at_def emit_step_room)

text \<open>Planning a move puts its list of delays into the blocks.\<close>

lemma move_plan_Ok:
  assumes ok: "axis_ok a p" and n: "n \<noteq> HM_INVALID_STEP" "1 \<le> unat n"
    and ds: "move_delays n accel speed p0 = Ok ds"
    and p: "p = move_reset speed n p1" and w: "with_ramp (move_reset speed n p0) p = p"
  shows "\<exists>q. move_plan n accel speed p = Ok q \<and> axis_ok a q \<and> same_frame p q \<and>
    move_inv (motor_pos p) (motor_dir p) n (pdma p) (map triple ds) q"
proof -
  obtain r rest e where r: "move_params n accel speed (move_reset speed n p0) = Inr r"
    and gen: "ramp_gen (unat n - 1) 1 r = Inr (rest, e)" and ds': "ds = step_delay r # rest"
    using ds by (auto simp: move_delays_def)
  have "HM_STEP_FRE p = HM_STEP_FRE (move_reset speed n p0)" by (simp add: p move_reset_def)
  from move_params_with[OF this w r] have par: "move_params n accel speed p = Ok (with_ramp r p)" .
  let ?r = "with_ramp r p"
  note fr = move_params_frame[OF par]
  have bufs: "length (dma_bufs p) = 2" "\<forall>b \<in> set (dma_bufs p). buf_ok b" "buf_count (dma_bufs p ! 0) = 0"
      "buf_count (dma_bufs p ! 1) = 0" "\<not> buf_valid (dma_bufs p ! 1)" "buf_steps (dma_bufs p ! 0) = []"
    using ok by (auto simp: axis_ok_def p move_reset_def buf_empty_def buf_count_def buf_steps_def)
  have ok01: "buf_ok (dma_bufs p ! 0)" "buf_ok (dma_bufs p ! 1)" using bufs(1,2) by simp_all
  define b where "b = put_step (triple (step_delay r)) (dma_bufs p ! 0)"
  have b: "buf_ok b" "buf_count b = 1" "buf_steps b = [triple (step_delay r)]"
    using put_step_ok[OF ok01(1), of "triple (step_delay r)"] bufs(3,6) by (simp_all add: b_def)
  define q where "q = ?r\<lparr>dma_bufs := (dma_bufs p)[0 := b]\<rparr>"
  have first: "put_first 0 ?r = Ok q"
    using put_first_eq[of ?r 0] fr(2) bufs ok01 by (simp add: q_def b_def triple_def)
  have pq: "same_frame p q" using fr(1) by (simp add: q_def)
  note fq = same_frameD[OF pq]
  have st: "steps_request p = n" "dma_buf_idx p = 0" "steps_actual p = 0" by (simp_all add: p move_reset_def)
  have "with_ramp r q = q" by (simp add: q_def with_ramp_def)
  from ramp_gen_cong[OF this gen] have gen': "ramp_gen (unat n - 1) 1 q = Ok (rest, with_ramp e q)" .
  have "\<exists>t. fill_blocks q = Ok t \<and> axis_ok a t \<and> same_frame q t \<and>
    move_inv (motor_pos q) (motor_dir p) n (pdma p) (buf_steps (dma_bufs q ! 0) @ map triple rest) t"
    by (rule fill_blocks_move)
      (use n fq st gen' ok b bufs in \<open>auto simp: q_def axis_ok_def dest!: set_update_subset_insert[THEN subsetD]\<close>)
  then obtain t where t: "fill_blocks q = Ok t" "axis_ok a t" "same_frame q t"
    "move_inv (motor_pos q) (motor_dir p) n (pdma p) (buf_steps (dma_bufs q ! 0) @ map triple rest) t" by blast
  have "buf_steps (dma_bufs q ! 0) @ map triple rest = map triple ds"
    using b(3) bufs(1) by (simp add: q_def ds')
  with t show ?thesis using par first fq(6) same_frame_trans[OF pq t(3)]
    by (auto simp: move_plan_def)
qed

section \<open>The start operation\<close>

text \<open>Registers of timers and channels untouched.\<close>

definition same_hw :: "'a hw_st_scheme \<Rightarrow> 'a hw_st_scheme \<Rightarrow> bool" where
  "same_hw s t \<longleftrightarrow> dma t = dma s \<and> tim t = tim s \<and> DMA1_ISR t = DMA1_ISR s"

lemma same_hw_refl [simp]: "same_hw s s"
  by (simp add: same_hw_def)

lemma same_hw_trans: "same_hw s t \<Longrightarrow> same_hw t u \<Longrightarrow> same_hw s u"
  by (simp add: same_hw_def)

lemma same_hw_enabled:
  "same_hw s t \<Longrightarrow> dma_enabled c t = dma_enabled c s" "same_hw s t \<Longrightarrow> tim_enabled u t = tim_enabled u s"
  "same_hw s t \<Longrightarrow> flags_clear c t = flags_clear c s"
  by (simp_all add: same_hw_def dma_enabled_def tim_enabled_def flags_clear_def DMA_GetITStatus_def)

lemma same_hw_upd [simp]:
  "same_hw s (upd_axis a f t) = same_hw s t" "same_hw s (upd_hw a g t) = same_hw s t"
  "same_hw (upd_axis a f s) t = same_hw s t"
  by (simp_all add: same_hw_def)

lemma same_hw_gpio [simp]:
  "same_hw s (GPIO_SetBits p m t) = same_hw s t" "same_hw s (GPIO_ResetBits p m t) = same_hw s t"
  by (simp_all add: same_hw_def GPIO_SetBits_def GPIO_ResetBits_def)

lemma reads_more_hw: "reads_more s t \<Longrightarrow> same_hw s t"
  unfolding reads_more_def same_hw_def
  by (metis hw_st.ext_inject hw_st.surjective hw_st.update_convs(3))

lemma run_blocked_Ok:
  assumes "a < length (s_axis_info s)"
  shows "\<exists>h t. run_blocked a s = Ok (h, t) \<and> reads_more s t"
proof -
  obtain h1 t1 where 1: "hm_motor_hit_CW a s = Ok (h1, t1)" "reads_more s t1"
    using hit_CW_Ok[OF assms] by blast
  then have "a < length (s_axis_info t1)" using assms reads_more_axis[OF 1(2)] by simp
  then obtain h2 t2 where 2: "hm_motor_hit_CCW a t1 = Ok (h2, t2)" "reads_more t1 t2"
    using hit_CCW_Ok by blast
  then have "a < length (s_axis_info t2)" using assms reads_more_axis[OF 1(2)] reads_more_axis[OF 2(2)] by simp
  then obtain h3 t3 where 3: "hm_motor_hit_Home a t2 = Ok (h3, t3)" "reads_more t2 t3"
    using hit_Home_Ok by blast
  have "run_blocked a s =
     (if h1 \<and> motor_dir (axis a t1) = rdCW then Ok (True, t1)
      else if h2 \<and> motor_dir (axis a t2) = rdCCW then Ok (True, t2)
      else Ok (h3 \<and> bdo_home (axis a t3) \<and> truth (bhome_stop_low_triger (axis a t3)), t3))"
    by (simp add: run_blocked_def 1(1) 2(1) 3(1))
  moreover have "reads_more s t2" by (rule reads_more_trans[OF 1(2) 2(2)])
  moreover from this have "reads_more s t3" by (rule reads_more_trans[OF _ 3(2)])
  ultimately show ?thesis using 1(2) by (auto split: if_split)
qed

lemma run_blocked_reads:
  "a < length (s_axis_info s) \<Longrightarrow> run_blocked a s = Inr (h, t) \<Longrightarrow> reads_more s t"
  using run_blocked_Ok[of a s] by auto

text \<open>A pin set up of an axis: its description may change, nothing else of it.\<close>

lemma enable_axis_frame:
  assumes "a < 4" and "length (s_axis_info s) = 4"
  obtains c where
    "s_axis_info (snd (hm_motor_enable_axis a on s)) = (s_axis_info s)[a := (axis a s)\<lparr>motor_hw_config := c\<rparr>]"
    "same_hw s (snd (hm_motor_enable_axis a on s))"
proof -
  consider (on) "on" "\<not> benabled (hw_of a s)" | (off) "\<not> on" "benabled (hw_of a s)" | (same) "on = benabled (hw_of a s)"
    by auto
  then show ?thesis
  proof cases
    case on
    then show ?thesis using assms by (intro that) (simp_all add: hm_motor_enable_axis_def HM_MAX_AXIS_def)
  next
    case off
    then show ?thesis using assms by (intro that) (simp_all add: hm_motor_enable_axis_def HM_MAX_AXIS_def)
  next
    case same
    then show ?thesis using assms
      by (intro that[of "hw_of a s"]) (simp_all add: hm_motor_enable_axis_def HM_MAX_AXIS_def)
  qed
qed

lemma set_dir_frame:
  assumes "a < length (s_axis_info s)"
  obtains t where "hm_motor_set_dir a v s = Ok t" "s_axis_info t = s_axis_info s" "same_hw s t"
  using assms by (simp add: hm_motor_set_dir_def)

lemma start_hw_playing:
  assumes ok: "axis_ok a (axis a s)" and a: "a < 4" and len: "length (s_axis_info s) = 4" and st: "hw_stopped a s"
  obtains t where "start_hw a s = Ok t"
    "s_axis_info t = (s_axis_info s)[a := (axis a s)\<lparr>axis_state := asRuning\<rparr>]"
    "hw_playing a t" "DMA1_ISR t = DMA1_ISR s"
proof -
  let ?p = "axis a s"
  let ?u = "DMA_Cmd (pdma ?p) True (write_CMAR (pdma ?p) (DmaBuf a (unat (dma_buf_idx ?p)))
      (write_CNDTR (pdma ?p) (ucast (dma_buf_len (cur_buf ?p))) s))"
  have su: "hm_dma_setup a True s = Ok ?u" by (rule hm_dma_setup_eq[OF ok])
  obtain t where t: "hm_tim_start a True (HM_STEP_FRE ?p) ?u = Ok t"
    "s_axis_info t = (s_axis_info ?u)[a := (axis a ?u)\<lparr>axis_state := asRuning\<rparr>]"
    "tim_enabled (ptim (axis a ?u)) t" "dma t = dma ?u" "DMA1_ISR t = DMA1_ISR ?u"
    by (rule hm_tim_start_on[of a ?u]) (use ok a len in simp_all)
  have run: "start_hw a s = Ok t" using su t(1) by (simp add: start_hw_def)
  have info: "s_axis_info t = (s_axis_info s)[a := ?p\<lparr>axis_state := asRuning\<rparr>]" using t(2) by simp
  have ax: "axis a t = ?p\<lparr>axis_state := asRuning\<rparr>" by (rule axis_of_list[OF info]) (simp add: a len)
  have "hw_playing a t"
    unfolding hw_playing_def ax using st t(3) dma_enabled_same[OF t(4)]
    by (simp add: Let_def t(4) hw_stopped_def)
  then show ?thesis using that[OF run info] t(5) by simp
qed

lemma move_inv_state [simp]: "move_inv x d n c out (p\<lparr>axis_state := st\<rparr>) = move_inv x d n c out p"
proof -
  have w: "with_ramp p (p\<lparr>axis_state := st\<rparr>) = p\<lparr>axis_state := st\<rparr>"
    "with_ramp (p\<lparr>axis_state := st\<rparr>) p = p" by (simp_all add: with_ramp_def)
  have "pending n out (p\<lparr>axis_state := st\<rparr>) = pending n out p"
    unfolding pending_def using ramp_gen_cong[OF w(1)] ramp_gen_cong[OF w(2)]
    by (simp add: next_buf_idx_def) blast
  then show ?thesis by (simp add: move_inv_def next_buf_idx_def)
qed

lemma axis_ok_upd [simp]:
  "axis_ok a (p\<lparr>axis_state := st\<rparr>) = axis_ok a p" "axis_ok a (p\<lparr>motor_hw_config := c\<rparr>) = axis_ok a p"
  "axis_ok a (set_run_dir v p) = axis_ok a p" "axis_ok a (p\<lparr>bdo_home := h\<rparr>) = axis_ok a p"
  by (simp_all add: axis_ok_def set_run_dir_def)

lemma buf_empty_ok [simp]: "length (dma_buf b) = 300 \<Longrightarrow> buf_ok (buf_empty b)"
  by (simp add: buf_empty_def buf_ok_def)

lemma axis_ok_move_reset: "axis_ok a p \<Longrightarrow> axis_ok a (move_reset speed n p)"
  by (auto simp: axis_ok_def move_reset_def buf_ok_def buf_empty_def)

end
