(* ===== verification/Motor_Moves.thy ===== *)
theory Motor_Moves
  imports Motor_Play
begin

text \<open>
  Moves and runs of an axis as a whole: a start, the rounds of its channel, a stop.
\<close>

section \<open>Moves\<close>

text \<open>An axis at rest: it may be started.\<close>

definition idle :: "nat \<Rightarrow> 'a motor_st_scheme \<Rightarrow> bool" where
  "idle a s \<longleftrightarrow> length (s_axis_info s) = 4 \<and> axis_ok a (axis a s) \<and> axis_state (axis a s) = asStoped \<and>
     pdma (axis a s) = axis_channel a \<and> hw_stopped a s \<and> flags_clear (axis_channel a) s"

definition abs_steps :: "u32 \<Rightarrow> u32" where
  "abs_steps step = (if sint step < 0 then - step else step)"

lemma abs_steps_valid: "abs_steps step \<noteq> HM_INVALID_STEP"
proof
  assume m: "abs_steps step = HM_INVALID_STEP"
  show False
  proof (cases "sint step < 0")
    case True
    then have "step = 1" using m by (simp add: abs_steps_def HM_INVALID_STEP_def)
    with True show False by simp
  next
    case False
    then have "step = - 1" using m by (simp add: abs_steps_def HM_INVALID_STEP_def)
    with False show False by simp
  qed
qed

lemma signed_abs: "signed_pos (if sint step < 0 then rdCCW else rdCW) (abs_steps step) = step"
  by (simp add: signed_pos_def abs_steps_def)

text \<open>
  The common part of the starts: from an axis at rest that is not blocked to the state in which its
  plan is made.
\<close>

lemma move_prepared:
  assumes a: "a < 4" and idle: "idle a s"
    and free: "run_blocked a (upd_axis a (set_run_dir step) s) = Ok (False, s')"
  obtains c t where
    "hm_step_motor_move a step accel decel speed s =
      bnd (if abs_steps step = 1 then upd_axis_res a move_one t
           else if abs_steps step \<noteq> 0 then upd_axis_res a (move_plan (abs_steps step) accel speed) t
           else Ok t) (\<lambda>t. bnd (start_hw a t) (\<lambda>t. Ok (True, t)))"
    "s_axis_info t = (s_axis_info s)[a :=
      move_reset speed (abs_steps step) ((set_run_dir step (axis a s))\<lparr>motor_hw_config := c\<rparr>)]"
    "same_hw s t"
proof -
  let ?n = "abs_steps step"
  let ?s0 = "upd_axis a (set_run_dir step) s"
  have len: "length (s_axis_info s) = 4" and al: "a < length (s_axis_info s)"
    and st: "hm_step_motor_state a s = rsSTOP"
    using idle a by (simp_all add: idle_def hm_step_motor_state_def)
  have rm: "reads_more ?s0 s'" by (rule run_blocked_reads[OF _ free]) (simp add: al)
  have i1: "s_axis_info s' = (s_axis_info s)[a := set_run_dir step (axis a s)]"
    using reads_more_axis[OF rm] by simp
  have len1: "length (s_axis_info s') = 4" using i1 len by simp
  have ax1: "axis a s' = set_run_dir step (axis a s)" by (rule axis_of_list[OF i1 al])
  obtain c where c: "s_axis_info (snd (hm_motor_enable_axis a True s')) = (s_axis_info s')[a := (axis a s')\<lparr>motor_hw_config := c\<rparr>]"
    "same_hw s' (snd (hm_motor_enable_axis a True s'))"
    by (rule enable_axis_frame[OF a len1])
  let ?s2 = "upd_axis a (move_reset speed ?n) (snd (hm_motor_enable_axis a True s'))"
  have ax2: "axis a (snd (hm_motor_enable_axis a True s')) = (set_run_dir step (axis a s))\<lparr>motor_hw_config := c\<rparr>"
    using axis_of_list[OF c(1)] a len1 ax1 by simp
  have i2: "s_axis_info ?s2 = (s_axis_info s)[a :=
      move_reset speed ?n ((set_run_dir step (axis a s))\<lparr>motor_hw_config := c\<rparr>)]"
    using c(1) i1 ax1 ax2 by simp
  have "a < length (s_axis_info ?s2)" using i2 al by simp
  then obtain t where t: "hm_motor_set_dir a (motor_dir (axis a ?s2) = rdCW) ?s2 = Ok t"
      "s_axis_info t = s_axis_info ?s2" "same_hw ?s2 t" by (rule set_dir_frame)
  have "hm_step_motor_move a step accel decel speed s =
      bnd (if ?n = 1 then upd_axis_res a move_one t
           else if ?n \<noteq> 0 then upd_axis_res a (move_plan ?n accel speed) t
           else Ok t) (\<lambda>t. bnd (start_hw a t) (\<lambda>t. Ok (True, t)))"
    using a st free t(1) unfolding hm_step_motor_move_def abs_steps_def
    by (simp add: HM_MAX_AXIS_def Let_def)
  moreover have "same_hw s t"
    using reads_more_hw[OF rm] c(2) t(3) by (auto intro: same_hw_trans)
  ultimately show ?thesis using that t(2) i2 by simp
qed

text \<open>The rest: from a planned axis through the start of its hardware to the end of its rounds.\<close>

lemma planned_runs:
  assumes a: "a < 4" and idle: "idle a s"
    and it: "s_axis_info t = (s_axis_info s)[a := p]" and ht: "same_hw s t"
    and p: "motor_pos p = motor_pos (axis a s)" "motor_dir p = (if sint step < 0 then rdCCW else rdCW)"
      "pdma p = axis_channel a" "ptim p = ptim (axis a s)"
    and q: "axis_ok a q" "same_frame p q"
      "move_inv (motor_pos p) (motor_dir p) (abs_steps step) (pdma p) out q"
    and out: "length out = unat (abs_steps step)" "out \<noteq> []"
  obtains s1 s2 where "start_hw a (upd_axis a (\<lambda>_. q) t) = Ok s1" "axis_state (axis a s1) = asRuning"
    "rounds a ((length out + 99) div 100) s1 = Ok (concat (map words3 out), s2)"
    "motor_pos (axis a s2) = motor_pos (axis a s) + step" "idle a s2"
proof -
  let ?n = "abs_steps step" and ?d = "if sint step < 0 then rdCCW else rdCW"
  have len: "length (s_axis_info s) = 4" and pd: "pdma (axis a s) = axis_channel a"
    and st: "hw_stopped a s" and fl: "flags_clear (axis_channel a) s"
    using idle by (simp_all add: idle_def)
  have al: "a < length (s_axis_info s)" using a len by simp
  note fq = same_frameD[OF q(2)]
  let ?u = "upd_axis a (\<lambda>_. q) t"
  have iu: "s_axis_info ?u = (s_axis_info s)[a := q]" using it by simp
  have au: "axis a ?u = q" by (rule axis_of_list[OF iu al])
  have stu: "hw_stopped a ?u"
    unfolding hw_stopped_def au fq p using st same_hw_enabled(1,2)[OF ht] pd by (simp add: hw_stopped_def)
  obtain s1 where s1: "start_hw a ?u = Ok s1" "s_axis_info s1 = (s_axis_info ?u)[a := (axis a ?u)\<lparr>axis_state := asRuning\<rparr>]"
    "hw_playing a s1" "DMA1_ISR s1 = DMA1_ISR ?u"
    by (rule start_hw_playing[of a ?u]) (use au q(1) a iu len stu in simp_all)
  have i1: "s_axis_info s1 = (s_axis_info s)[a := q\<lparr>axis_state := asRuning\<rparr>]" using s1(2) it au by simp
  have a1: "axis a s1 = q\<lparr>axis_state := asRuning\<rparr>" by (rule axis_of_list[OF i1 al])
  have fl1: "flags_clear (axis_channel a) s1"
    using fl s1(4) ht by (simp add: flags_clear_def DMA_GetITStatus_def same_hw_def)
  have inv: "move_inv (motor_pos (axis a s)) ?d ?n (axis_channel a) out (axis a s1)"
    unfolding a1 using q(3) p by simp
  have "\<exists>r s2. rounds a ((length out + 99) div 100) s1 = Ok (concat (map words3 out), s2) \<and>
    s_axis_info s2 = (s_axis_info s1)[a := r] \<and> hw_stopped a s2 \<and> flags_clear (axis_channel a) s2 \<and>
    motor_pos r = motor_pos (axis a s) + signed_pos ?d ?n \<and> axis_state r = asStoped \<and> axis_ok a r \<and>
    pdma r = axis_channel a"
    by (rule move_rounds) (use a q(1) a1 i1 len fl1 s1(3) inv out in auto)
  then obtain r s2 where r: "rounds a ((length out + 99) div 100) s1 = Ok (concat (map words3 out), s2)"
    "s_axis_info s2 = (s_axis_info s)[a := r]" "hw_stopped a s2" "flags_clear (axis_channel a) s2"
    "motor_pos r = motor_pos (axis a s) + step" "axis_state r = asStoped" "axis_ok a r" "pdma r = axis_channel a"
    unfolding signed_abs using i1 by auto
  have a2: "axis a s2 = r" by (rule axis_of_list[OF r(2) al])
  have "idle a s2" using r a2 len by (simp add: idle_def)
  then show ?thesis using that[OF s1(1) _ r(1)] r(5) a1 a2 by simp
qed

text \<open>The axis a move is planned on.\<close>

lemma move_start_axis:
  assumes "idle a s"
  shows "axis_ok a (move_reset speed n ((set_run_dir step (axis a s))\<lparr>motor_hw_config := c\<rparr>))"
    and "with_ramp (move_reset speed n (axis a s)) (move_reset speed n ((set_run_dir step (axis a s))\<lparr>motor_hw_config := c\<rparr>)) =
      move_reset speed n ((set_run_dir step (axis a s))\<lparr>motor_hw_config := c\<rparr>)"
    and "motor_pos (move_reset speed n ((set_run_dir step (axis a s))\<lparr>motor_hw_config := c\<rparr>)) = motor_pos (axis a s)"
    and "motor_dir (move_reset speed n ((set_run_dir step (axis a s))\<lparr>motor_hw_config := c\<rparr>)) =
      (if sint step < 0 then rdCCW else rdCW)"
    and "pdma (move_reset speed n ((set_run_dir step (axis a s))\<lparr>motor_hw_config := c\<rparr>)) = axis_channel a"
    and "ptim (move_reset speed n ((set_run_dir step (axis a s))\<lparr>motor_hw_config := c\<rparr>)) = ptim (axis a s)"
  using assms by (simp_all add: idle_def axis_ok_move_reset) (simp_all add: move_reset_def set_run_dir_def with_ramp_def)

lemma move_runs:
  assumes "a < 4" and "idle a s" and "2 \<le> unat (abs_steps step)"
    and "run_blocked a (upd_axis a (set_run_dir step) s) = Ok (False, s')"
    and "move_delays (abs_steps step) accel speed (axis a s) = Ok ds"
  shows "\<exists>s1 s2. hm_step_motor_move a step accel decel speed s = Ok (True, s1) \<and>
    axis_state (axis a s1) = asRuning \<and>
    rounds a ((unat (abs_steps step) + 99) div 100) s1 = Ok (concat (map (\<lambda>d. [d - 1, 0, d div 2]) ds), s2) \<and>
    length ds = unat (abs_steps step) \<and>
    motor_pos (axis a s2) = motor_pos (axis a s) + step \<and> idle a s2"
proof -
  let ?n = "abs_steps step"
  have al: "a < length (s_axis_info s)" using assms(1,2) by (simp add: idle_def)
  have n: "?n \<noteq> 0" "?n \<noteq> 1" "1 \<le> unat ?n" using assms(3) by auto
  obtain c t where t: "hm_step_motor_move a step accel decel speed s =
      bnd (if ?n = 1 then upd_axis_res a move_one t
           else if ?n \<noteq> 0 then upd_axis_res a (move_plan ?n accel speed) t
           else Ok t) (\<lambda>t. bnd (start_hw a t) (\<lambda>t. Ok (True, t)))"
    and it: "s_axis_info t = (s_axis_info s)[a :=
      move_reset speed ?n ((set_run_dir step (axis a s))\<lparr>motor_hw_config := c\<rparr>)]" (is "_ = _[a := ?p]")
    and ht: "same_hw s t"
    by (rule move_prepared[OF assms(1,2,4), of accel decel speed])
  have at: "axis a t = ?p" by (rule axis_of_list[OF it al])
  note p = move_start_axis[OF assms(2), of speed ?n c step]
  obtain q where q: "move_plan ?n accel speed ?p = Ok q" "axis_ok a q" "same_frame ?p q"
    "move_inv (motor_pos ?p) (motor_dir ?p) ?n (pdma ?p) (map triple ds) q"
    using move_plan_Ok[OF p(1) abs_steps_valid n(3) assms(5) refl p(2)] by blast
  have dl: "length ds = unat ?n"
    using assms(5) n(3) by (auto simp: move_delays_def dest!: ramp_gen_frame)
  obtain s1 s2 where s: "start_hw a (upd_axis a (\<lambda>_. q) t) = Ok s1" "axis_state (axis a s1) = asRuning"
    "rounds a ((length (map triple ds) + 99) div 100) s1 = Ok (concat (map words3 (map triple ds)), s2)"
    "motor_pos (axis a s2) = motor_pos (axis a s) + step" "idle a s2"
    by (rule planned_runs[OF assms(1,2) it ht p(3-6) q(2-4)]) (use dl n in auto)
  have "map words3 (map triple ds) = map (\<lambda>d. [d - 1, 0, d div 2]) ds"
    by (simp add: words3_def triple_def)
  note s = s[unfolded this length_map]
  show ?thesis using t n q(1) at s dl by (simp add: upd_axis_res_def)
qed

text \<open>
  C1.  A move of at least two steps from rest, not blocked by a switch, whose list of delays is
  computed without a fault (\<open>move_delays\<close>, one pass of the ramp generator): the operation starts the
  axis, and after as many rounds of its channel as blocks of a hundred steps are needed the timer has
  been sent exactly this list, three words for each step, the position has changed by exactly the
  signed number of steps, the axis has stopped by itself and is at rest again.  So cutting the list into
  two alternating blocks that are refilled by the half transfer interrupt loses, repeats and
  reorders nothing.
\<close>

theorem move_exact:
  assumes "a < 4" and "idle a s" and "2 \<le> unat (abs_steps step)"
    and "run_blocked a (upd_axis a (set_run_dir step) s) = Ok (False, s')"
    and "move_delays (abs_steps step) accel speed (axis a s) = Ok ds"
  shows "\<exists>s1 s2. hm_step_motor_move a step accel decel speed s = Ok (True, s1) \<and>
    axis_state (axis a s1) = asRuning \<and>
    rounds a ((unat (abs_steps step) + 99) div 100) s1 = Ok (concat (map (\<lambda>d. [d - 1, 0, d div 2]) ds), s2) \<and>
    length ds = unat (abs_steps step) \<and>
    motor_pos (axis a s2) = motor_pos (axis a s) + step \<and> idle a s2"
  by (rule move_runs[OF assms])

text \<open>
  A move of one step from rest is one pulse of the fixed delay 1000, whatever the speed and the
  acceleration are, with the repetition word 1 where all other steps of moves have 0; the position
  changes by one in the right direction and the axis is at rest after one round.
\<close>

theorem move_one_exact:
  assumes "a < 4" and "idle a s" and "abs_steps step = 1"
    and "run_blocked a (upd_axis a (set_run_dir step) s) = Ok (False, s')"
  shows "\<exists>s1 s2. hm_step_motor_move a step accel decel speed s = Ok (True, s1) \<and>
    axis_state (axis a s1) = asRuning \<and> rounds a 1 s1 = Ok ([999, 1, 500], s2) \<and>
    motor_pos (axis a s2) = motor_pos (axis a s) + step \<and> idle a s2"
proof -
  have al: "a < length (s_axis_info s)" using assms(1,2) by (simp add: idle_def)
  obtain c t where t: "hm_step_motor_move a step accel decel speed s =
      bnd (if abs_steps step = 1 then upd_axis_res a move_one t
           else if abs_steps step \<noteq> 0 then upd_axis_res a (move_plan (abs_steps step) accel speed) t
           else Ok t) (\<lambda>t. bnd (start_hw a t) (\<lambda>t. Ok (True, t)))"
    and it: "s_axis_info t = (s_axis_info s)[a :=
      move_reset speed (abs_steps step) ((set_run_dir step (axis a s))\<lparr>motor_hw_config := c\<rparr>)]" 
    and ht: "same_hw s t"
    by (rule move_prepared[OF assms(1,2,4), of accel decel speed])
  define p where "p = move_reset speed (abs_steps step) ((set_run_dir step (axis a s))\<lparr>motor_hw_config := c\<rparr>)"
  note it = it[folded p_def] and P = move_start_axis[OF assms(2), of speed "abs_steps step" c step, folded p_def]
  have at: "axis a t = p" by (rule axis_of_list[OF it al])
  have st: "dma_buf_idx p = 0" "steps_request p = 1" "steps_actual p = 0"
    by (simp_all add: p_def move_reset_def assms(3))
  have bufs: "length (dma_bufs p) = 2" "\<forall>b \<in> set (dma_bufs p). buf_ok b"
    using P(1) by (simp_all add: axis_ok_def)
  have empty: "buf_count (dma_bufs p ! i) = 0" "buf_steps (dma_bufs p ! i) = []" "\<not> buf_valid (dma_bufs p ! i)"
    if "i < 2" for i
    using that bufs(1) unfolding p_def by (simp_all add: move_reset_def buf_empty_def buf_count_def buf_steps_def)
  have okb: "buf_ok (dma_bufs p ! 0)" using bufs by simp
  let ?p1 = "p\<lparr>accel_count := - 1, run_state := rsDECEL, step_delay := 1000\<rparr>"
  define b where "b = (put_step (999, 1, 500) (dma_bufs p ! 0))\<lparr>buf_valid := True\<rparr>"
  have b: "buf_ok b" "buf_count b = 1" "buf_steps b = [(999, 1, 500)]" "buf_valid b"
    using put_step_ok[OF okb, of "(999, 1, 500)"] empty[of 0] by (simp_all add: b_def)
  define q where "q = ?p1\<lparr>dma_bufs := (dma_bufs p)[0 := b], steps_taken := 1\<rparr>"
  have one: "move_one p = Ok q"
    using put_first_eq[of ?p1 1] bufs okb empty[of 0] by (simp add: move_one_def q_def b_def)
  have fr: "same_frame p q" by (simp add: q_def same_frame_def)
  note fq = same_frameD[OF fr]
  have okq: "axis_ok a q" unfolding axis_ok_def fq
    using P(1) b(1) by (auto simp: q_def axis_ok_def dest!: set_update_subset_insert[THEN subsetD])
  have idx: "unat (dma_buf_idx q) = 0" "next_buf_idx q = 1" using fq(1) st(1) by (simp_all add: next_idx_eq)
  have bq: "dma_bufs q ! 0 = b" "dma_bufs q ! 1 = dma_bufs p ! 1" using bufs(1) by (simp_all add: q_def)
  have tk: "steps_taken q = 1" by (simp add: q_def)
  have "pending 1 [(999, 1, 500)] q"
    unfolding pending_def idx bq tk using b(3) empty[of 1] by simp
  then have inv: "move_inv (motor_pos p) (motor_dir p) (abs_steps step) (pdma p) [(999, 1, 500)] q"
    unfolding move_inv_def idx bq tk assms(3) using fq(2-4,6,8) st b(2) empty[of 1]
    by (simp add: signed_pos_def HM_INVALID_STEP_def)
  obtain s1 s2 where s: "start_hw a (upd_axis a (\<lambda>_. q) t) = Ok s1" "axis_state (axis a s1) = asRuning"
    "rounds a ((length [(999 :: u16, 1 :: u16, 500 :: u16)] + 99) div 100) s1 = Ok (concat (map words3 [(999, 1, 500)]), s2)"
    "motor_pos (axis a s2) = motor_pos (axis a s) + step" "idle a s2"
    by (rule planned_runs[OF assms(1,2) it ht P(3-6) okq fr inv]) (use assms(3) in auto)
  then show ?thesis using t one at assms(3) by (simp add: upd_axis_res_def words3_def)
qed

text \<open>
  A move of no step is accepted and starts the timer with an empty block: the axis counts as
  running and nothing ever stops it, since its channel has nothing to send and raises no interrupt.
\<close>

theorem move_zero_stuck:
  assumes "a < 4" and "idle a s" and "run_blocked a (upd_axis a (set_run_dir 0) s) = Ok (False, s')"
  shows "\<exists>s1. hm_step_motor_move a 0 accel decel speed s = Ok (True, s1) \<and>
    axis_state (axis a s1) = asRuning \<and> rounds a k s1 = Ok ([], s1)"
proof -
  have al: "a < length (s_axis_info s)" and len: "length (s_axis_info s) = 4" using assms(1,2) by (simp_all add: idle_def)
  have n: "abs_steps 0 = 0" by (simp add: abs_steps_def)
  obtain c t where t: "hm_step_motor_move a 0 accel decel speed s =
      bnd (if abs_steps 0 = 1 then upd_axis_res a move_one t
           else if abs_steps 0 \<noteq> 0 then upd_axis_res a (move_plan (abs_steps 0) accel speed) t
           else Ok t) (\<lambda>t. bnd (start_hw a t) (\<lambda>t. Ok (True, t)))"
    and it: "s_axis_info t = (s_axis_info s)[a :=
      move_reset speed (abs_steps 0) ((set_run_dir 0 (axis a s))\<lparr>motor_hw_config := c\<rparr>)]" (is "_ = _[a := ?p]")
    and ht: "same_hw s t"
    by (rule move_prepared[OF assms(1,2,3), of accel decel speed])
  have at: "axis a t = ?p" by (rule axis_of_list[OF it al])
  note p = move_start_axis[OF assms(2), of speed "abs_steps 0" c 0]
  have st: "hw_stopped a t"
    unfolding hw_stopped_def at p using assms(2) same_hw_enabled(1,2)[OF ht]
    by (metis hw_stopped_def idle_def)
  obtain s1 where s1: "start_hw a t = Ok s1" "s_axis_info s1 = (s_axis_info t)[a := (axis a t)\<lparr>axis_state := asRuning\<rparr>]"
    "hw_playing a s1" "DMA1_ISR s1 = DMA1_ISR t"
    by (rule start_hw_playing[of a t]) (use at p(1) assms(1) it len st in simp_all)
  have "s_axis_info s1 = (s_axis_info s)[a := ?p\<lparr>axis_state := asRuning\<rparr>]" using s1(2) it at by simp
  then have a1: "axis a s1 = ?p\<lparr>axis_state := asRuning\<rparr>" by (rule axis_of_list[OF _ al])
  have "dma_buf_len (cur_buf (axis a s1)) = 0"
    using p(1) unfolding a1 by (simp add: move_reset_def axis_ok_def buf_empty_def)
  then have "CNDTR (dma s1 (pdma (axis a s1))) = 0" using s1(3) by (simp add: hw_playing_def Let_def)
  then have "block_round a s1 = Ok ([], s1)" by (simp add: block_round_def)
  then have "rounds a k s1 = Ok ([], s1)" by (induction k) simp_all
  then show ?thesis using t n s1(1) a1 by simp
qed

section \<open>Runs without end\<close>

text \<open>A block whose steps are none of them shorter than the delay \<open>m\<close>; the first word of a step is its delay less one.\<close>

definition paced :: "u16 \<Rightarrow> hm_dma_buf_info \<Rightarrow> bool" where
  "paced m b \<longleftrightarrow> buf_count b = 100 \<and> (\<forall>t \<in> set (buf_steps b). unat m \<le> unat (fst t) + 1)"

text \<open>A run on a T-curve after at most \<open>k\<close> steps of acceleration.\<close>

definition run_inv :: "nat \<Rightarrow> u16 \<Rightarrow> RUN_DIR_E \<Rightarrow> dma_ch \<Rightarrow> hm_step_info \<Rightarrow> bool" where
  "run_inv k m d c p \<longleftrightarrow> cruise_ok k p \<and> min_delay p = m \<and> motor_dir p = d \<and> pdma p = c \<and>
     axis_state p = asRuning \<and> paced m (cur_buf p) \<and> (buf_valid (next_buf p) \<longrightarrow> paced m (next_buf p))"

lemma triple_paced: "2 \<le> unat m \<Longrightarrow> m \<le> d \<Longrightarrow> unat m \<le> unat (fst (triple d)) + 1"
proof -
  assume m: "2 \<le> unat m" "m \<le> d"
  then have "1 \<le> d" by (simp add: word_le_nat_alt)
  then have "unat (d - 1) = unat d - 1" by (simp add: unat_sub)
  then show ?thesis using m by (simp add: triple_def word_le_nat_alt)
qed

text \<open>Filling keeps the frame of the axis, whatever the plan is.\<close>

lemma update_frame:
  assumes "hm_dma_update i p = Ok q" and "i < length (dma_bufs p)" and "buf_ok (dma_bufs p ! i)"
  shows "same_frame p q" "min_delay q = min_delay p" "dma_bufs q = (dma_bufs p)[i := dma_bufs q ! i]"
    "buf_ok (dma_bufs q ! i)" "buf_valid (dma_bufs q ! i)" "motor_method q = motor_method p"
proof -
  obtain ds p1 where
    "ramp_gen (loop_turns p (dma_bufs p ! i) (steps_taken p)) (steps_taken p) p = Inr (ds, p1)"
    and q: "q = p1\<lparr>steps_taken := advance p (length ds) (steps_taken p),
             dma_bufs := (dma_bufs p)[i := dma_bufs q ! i]\<rparr>"
    and "length ds = loop_turns p (dma_bufs p ! i) (steps_taken p)"
    and b: "buf_ok (dma_bufs q ! i)" "buf_valid (dma_bufs q ! i)"
    and "buf_steps (dma_bufs q ! i) = buf_steps (dma_bufs p ! i) @ map triple ds"
    and same: "same_plan p p1"
    by (rule hm_dma_update_Ok[OF assms(2,3,1)])
  define bs where "bs = (dma_bufs p)[i := dma_bufs q ! i]"
  define t where "t = advance p (length ds) (steps_taken p)"
  have q': "q = p1\<lparr>steps_taken := t, dma_bufs := bs\<rparr>" unfolding bs_def t_def by (rule q)
  have "same_frame p p1" using same by (simp add: same_frame_def same_plan_def)
  then show "same_frame p q" by (simp add: q')
  have "min_delay p1 = min_delay p" "motor_method p1 = motor_method p" using same by (simp_all add: same_plan_def)
  then show "min_delay q = min_delay p" "motor_method q = motor_method p" by (simp_all add: q')
  have "dma_bufs q = bs" by (simp add: q')
  then show "dma_bufs q = (dma_bufs p)[i := dma_bufs q ! i]" unfolding bs_def .
  show "buf_ok (dma_bufs q ! i)" "buf_valid (dma_bufs q ! i)" by (rule b)+
qed

lemma cruise_frame [simp]:
  "cruise_ok k (p\<lparr>axis_state := st\<rparr>) = cruise_ok k p" "cruise_ok k (p\<lparr>dma_fill := f\<rparr>) = cruise_ok k p"
  "cruise_ok k (block_turned p) = cruise_ok k p"
  by (simp_all add: cruise_ok_def block_turned_def counted_def)

lemma turned_sel [simp]:
  "min_delay (block_turned p) = min_delay p" "motor_dir (block_turned p) = motor_dir p"
  "pdma (block_turned p) = pdma p" "axis_state (block_turned p) = axis_state p"
  by (simp_all add: block_turned_def counted_def)

lemma fill_next_run:
  assumes ok: "axis_ok a p" and inv: "run_inv k m d c p" and k: "k + 100 \<le> 2 ^ 28"
  shows "\<exists>q. fill_next p = Ok q \<and> axis_ok a q \<and> run_inv (k + 100) m d c q \<and> buf_valid (next_buf q) \<and>
    cur_buf q = cur_buf p \<and> dma_buf_idx q = dma_buf_idx p \<and> motor_pos q = motor_pos p"
proof (cases "buf_valid (next_buf p)")
  case True
  then show ?thesis using ok inv axis_ok_bufs(2)[OF ok] cruise_ok_mono[of k p "k + 100"]
    by (simp add: fill_next_def run_inv_def)
next
  case False
  note bufs = axis_ok_bufs[OF ok]
  let ?i = "next_buf_idx p" and ?b = "(next_buf p)\<lparr>dma_buf_len := 0\<rparr>"
  let ?p = "p\<lparr>dma_bufs := (dma_bufs p)[?i := ?b]\<rparr>"
  have bi: "dma_bufs ?p ! ?i = ?b" using bufs(5) by simp
  have il: "?i < length (dma_bufs ?p)" using bufs(5) by simp
  have okb: "buf_ok (dma_bufs ?p ! ?i)" unfolding bi using bufs(4) by simp
  have cr: "cruise_ok k ?p" and md: "min_delay p = m" "2 \<le> unat m" using inv by (auto simp: run_inv_def cruise_ok_def)
  obtain ds q where q: "hm_dma_update ?i ?p = Ok q" "cruise_ok (k + 100) q"
    "buf_steps (dma_bufs q ! ?i) = map triple ds" "length ds = 100" "\<forall>e \<in> set ds. m \<le> e"
    using cruise_fill[OF cr k il okb] unfolding bi using md by auto
  note fr = update_frame[OF q(1) il okb]
  define r where "r = q\<lparr>dma_fill := dma_fill q + 1\<rparr>"
  have fill: "fill_next p = Ok r" using bufs(2) False q(1) by (simp add: fill_next_def r_def)
  have pr: "same_frame p r" using fr(1) by (simp add: r_def)
  note f = same_frameD[OF pr]
  have db: "dma_bufs r = (dma_bufs p)[?i := dma_bufs q ! ?i]" using fr(3) by (simp add: r_def)
  have cur: "cur_buf r = cur_buf p" using next_idx_neq[OF bufs(6)] db f by simp
  have nxt: "next_buf r = dma_bufs q ! ?i" using db bufs(5) f(12) by simp
  have okr: "axis_ok a r" using ok fr(4) unfolding axis_ok_def db f by (auto dest!: set_update_subset_insert[THEN subsetD])
  have "buf_count (dma_bufs q ! ?i) = length (map triple ds)" by (simp flip: q(3))
  then have "paced m (dma_bufs q ! ?i)"
    unfolding paced_def q(3) using q(4,5) triple_paced[OF md(2)] by simp
  moreover have "min_delay r = m" using fr(2) md by (simp add: r_def)
  moreover have "cruise_ok (k + 100) r" using q(2) by (simp add: r_def)
  ultimately have "run_inv (k + 100) m d c r"
    using inv unfolding run_inv_def cur nxt by (simp add: f)
  then show ?thesis using fill okr cur nxt fr(5) f by (intro exI[of _ r]) simp
qed

lemma turned_run:
  assumes ok: "axis_ok a p" and inv: "run_inv k m d c p" and valid: "buf_valid (next_buf p)"
  shows "run_inv k m d c (block_turned p)" "more_steps (counted p)"
    "motor_pos (block_turned p) = motor_pos p + signed_pos d 100"
proof -
  have p: "steps_request p = HM_INVALID_STEP" "motor_dir p = d" "min_delay p = m" "pdma p = c" "axis_state p = asRuning"
    "buf_count (cur_buf p) = 100"
    using inv by (simp_all add: run_inv_def cruise_ok_def paced_def)
  show "run_inv k m d c (block_turned p)"
    using inv valid turned_bufs(2)[OF ok] unfolding run_inv_def turned_bufs(1)[OF ok] by simp
  show "more_steps (counted p)" using p by (simp add: more_steps_def)
  have "unat (ucast (dma_buf_len (cur_buf p) div 3) :: u32) = 100"
    unfolding unat_block_steps by (rule p(6))
  then have "ucast (dma_buf_len (cur_buf p) div 3) = (100 :: u32)" by (simp add: word_unat_eq_iff)
  then show "motor_pos (block_turned p) = motor_pos p + signed_pos d 100"
    by (simp add: block_turned_def counted_def signed_steps_def signed_pos_def p)
qed

text \<open>Rounds of a run.\<close>

lemma run_round:
  assumes ok: "axis_ok a (axis a s)" and a: "a < 4" and len: "length (s_axis_info s) = 4"
    and fl: "flags_clear (axis_channel a) s" and play: "hw_playing a s"
    and inv: "run_inv k m d (axis_channel a) (axis a s)" and k: "k + 100 \<le> 2 ^ 28"
  shows "\<exists>r u. block_round a s = Ok (concat (map words3 (buf_steps (cur_buf (axis a s)))), u) \<and>
    s_axis_info u = (s_axis_info s)[a := r] \<and> flags_clear (axis_channel a) u \<and> hw_playing a u \<and>
    axis_ok a r \<and> run_inv (k + 100) m d (axis_channel a) r \<and>
    motor_pos r = motor_pos (axis a s) + signed_pos d 100"
proof -
  let ?p = "axis a s"
  obtain q where q: "fill_next ?p = Ok q" "axis_ok a q" "run_inv (k + 100) m d (axis_channel a) q"
    "buf_valid (next_buf q)" "cur_buf q = cur_buf ?p" "dma_buf_idx q = dma_buf_idx ?p" "motor_pos q = motor_pos ?p"
    using fill_next_run[OF ok inv k] by blast
  have pd: "pdma ?p = axis_channel a" "pdma q = pdma ?p" using inv q(3) by (simp_all add: run_inv_def)
  have "buf_count (cur_buf ?p) = 100" using inv by (simp add: run_inv_def paced_def)
  then have nz: "dma_buf_len (cur_buf ?p) \<noteq> 0" by (auto simp: buf_count_def)
  note tr = turned_run[OF q(2,3,4)]
  have ck: "\<exists>u. hm_dma_ck a t = Ok u \<and> s_axis_info u = (s_axis_info s)[a := block_turned q] \<and>
      hw_playing a u \<and> DMA1_ISR u = DMA1_ISR t" if "s_axis_info t = (s_axis_info s)[a := q]" for t
  proof -
    have ax: "axis a t = q" by (rule axis_of_list[OF that]) (simp add: a len)
    show ?thesis by (rule hm_dma_ck_more[of a t]) (use ax q(2,4) a len tr(2) that in auto)
  qed
  have st: "hw_playing a (DMA_ClearITPendingBit it u)" if "hw_playing a u" for u it using that by simp
  show ?thesis
    using block_round_playing[OF ok a len pd(1) fl play nz q(1,2,5,6) pd(2), of "block_turned q" "hw_playing a", OF ck st]
      tr(1,3) axis_ok_turned[OF q(2)] q(7) by auto
qed

lemma signed_pos_plus: "signed_pos d m + signed_pos d n = signed_pos d (m + n)"
  by (simp add: signed_pos_def)

lemma run_rounds:
  assumes "axis_ok a (axis a s)" and "a < 4" and "length (s_axis_info s) = 4"
    and "flags_clear (axis_channel a) s" and "hw_playing a s"
    and "run_inv k m d (axis_channel a) (axis a s)" and "k + 100 * n \<le> 2 ^ 28"
  shows "\<exists>ts r u. rounds a n s = Ok (concat (map words3 ts), u) \<and> length ts = 100 * n \<and>
    (\<forall>t \<in> set ts. unat m \<le> unat (fst t) + 1) \<and>
    s_axis_info u = (s_axis_info s)[a := r] \<and> flags_clear (axis_channel a) u \<and> hw_playing a u \<and>
    axis_ok a r \<and> run_inv (k + 100 * n) m d (axis_channel a) r \<and>
    motor_pos r = motor_pos (axis a s) + signed_pos d (word_of_nat (100 * n))"
  using assms
proof (induction n arbitrary: s k)
  case 0
  then show ?case by (intro exI[of _ "[]"] exI[of _ "axis a s"] exI[of _ s]) (simp add: signed_pos_def)
next
  case (Suc n)
  let ?ts = "buf_steps (cur_buf (axis a s))"
  have al: "a < length (s_axis_info s)" using Suc.prems(2,3) by simp
  have "k + 100 \<le> 2 ^ 28" using Suc.prems(7) by simp
  from run_round[OF Suc.prems(1-6) this] obtain r u where
    r: "block_round a s = Ok (concat (map words3 ?ts), u)" "s_axis_info u = (s_axis_info s)[a := r]"
      "flags_clear (axis_channel a) u" "hw_playing a u" "axis_ok a r" "run_inv (k + 100) m d (axis_channel a) r"
      "motor_pos r = motor_pos (axis a s) + signed_pos d 100" by blast
  have ax: "axis a u = r" by (rule axis_of_list[OF r(2) al])
  have paced: "length ?ts = 100" "\<forall>t \<in> set ?ts. unat m \<le> unat (fst t) + 1"
    using Suc.prems(6) by (simp_all add: run_inv_def paced_def)
  have "\<exists>ts r' u'. rounds a n u = Ok (concat (map words3 ts), u') \<and> length ts = 100 * n \<and>
    (\<forall>t \<in> set ts. unat m \<le> unat (fst t) + 1) \<and>
    s_axis_info u' = (s_axis_info u)[a := r'] \<and> flags_clear (axis_channel a) u' \<and> hw_playing a u' \<and>
    axis_ok a r' \<and> run_inv (k + 100 + 100 * n) m d (axis_channel a) r' \<and>
    motor_pos r' = motor_pos (axis a u) + signed_pos d (word_of_nat (100 * n))"
    by (rule Suc.IH) (use Suc.prems r ax in simp_all)
  then obtain ts r' u' where IH: "rounds a n u = Ok (concat (map words3 ts), u')" "length ts = 100 * n"
    "\<forall>t \<in> set ts. unat m \<le> unat (fst t) + 1"
    "s_axis_info u' = (s_axis_info s)[a := r']" "flags_clear (axis_channel a) u'" "hw_playing a u'"
    "axis_ok a r'" "run_inv (k + 100 * Suc n) m d (axis_channel a) r'"
    "motor_pos r' = motor_pos r + signed_pos d (word_of_nat (100 * n))"
    using r(2) ax by (auto simp: add.assoc)
  have "motor_pos r' = motor_pos (axis a s) + signed_pos d (word_of_nat (100 * Suc n))"
    unfolding IH(9) r(7) add.assoc signed_pos_plus by simp
  moreover have "rounds a (Suc n) s = Ok (concat (map words3 (?ts @ ts)), u')" using r(1) IH(1) by simp
  moreover have "length (?ts @ ts) = 100 * Suc n" "\<forall>t \<in> set (?ts @ ts). unat m \<le> unat (fst t) + 1"
    using paced IH(2,3) by auto
  ultimately show ?case using IH(4-8) by blast
qed

text \<open>The plan of a run on a T-curve.\<close>

lemma run_params_cruise:
  assumes par: "run_params accel speed p = Inr r" and m: "motor_method p = TCurve"
    and req: "steps_request p = HM_INVALID_STEP" "ramp_rest p = 0" and md: "2 \<le> unat (min_delay r)"
  shows "cruise_ok 0 r" "same_frame p r" "dma_bufs r = dma_bufs p" "min_delay r \<le> step_delay r"
proof -
  obtain a b c where r: "r = ramp_start (p\<lparr>min_delay := a, step_delay := b, ramp_n2 := c, accel_steps := c,
      decel_start := HM_INVALID_STEP\<rparr>)"
    using par by (auto simp: run_params_def)
  show "cruise_ok 0 r" using m req md unfolding r by (auto simp: cruise_ok_def ramp_start_def Let_def)
  show "same_frame p r" "dma_bufs r = dma_bufs p" by (simp_all add: r same_frame_def)
  show "min_delay r \<le> step_delay r" by (auto simp: r ramp_start_def Let_def)
qed

lemma cruise_running: "cruise_ok k p \<Longrightarrow> run_state p \<noteq> rsSTOP"
  by (auto simp: cruise_ok_def)

lemma run_plan_Ok:
  assumes ok: "axis_ok a p" and p: "p = run_reset speed p1"
    and par: "run_params accel speed p = Inr r" and m: "motor_method p = TCurve" and md: "2 \<le> unat (min_delay r)"
  shows "\<exists>q. run_plan accel speed p = Ok q \<and> axis_ok a q \<and> same_frame p q \<and> cruise_ok 200 q \<and>
    min_delay q = min_delay r \<and> paced (min_delay r) (cur_buf q) \<and> paced (min_delay r) (next_buf q)"
proof -
  have st: "steps_request p = HM_INVALID_STEP" "ramp_rest p = 0" "dma_buf_idx p = 0" by (simp_all add: p run_reset_def)
  note c = run_params_cruise[OF par m st(1,2) md]
  have bufs: "length (dma_bufs p) = 2" "\<forall>b \<in> set (dma_bufs p). buf_ok b" using ok by (simp_all add: axis_ok_def)
  have empty: "buf_count (dma_bufs p ! i) = 0" "buf_steps (dma_bufs p ! i) = []" if "i < 2" for i
    using that bufs(1) unfolding p by (simp_all add: run_reset_def buf_empty_def buf_count_def buf_steps_def)
  have okb: "buf_ok (dma_bufs p ! 0)" "buf_ok (dma_bufs p ! 1)" using bufs by simp_all
  define b where "b = put_step (step_delay r - 1, 1, step_delay r div 2) (dma_bufs p ! 0)"
  have b: "buf_ok b" "buf_count b = 1" "buf_steps b = [(step_delay r - 1, 1, step_delay r div 2)]"
    using put_step_ok[OF okb(1), of "(step_delay r - 1, 1, step_delay r div 2)"] empty[of 0] by (simp_all add: b_def)
  define q where "q = r\<lparr>dma_bufs := (dma_bufs p)[0 := b], steps_taken := 1\<rparr>"
  have first: "put_first 1 r = Ok (r\<lparr>dma_bufs := (dma_bufs p)[0 := b]\<rparr>)"
    using put_first_eq[of r 1] c(3) bufs okb empty[of 0] by (simp add: b_def)
  have pq: "same_frame p q" using c(2) by (simp add: q_def)
  have q0: "dma_bufs q ! 0 = b" "length (dma_bufs q) = 2" "dma_bufs q ! 1 = dma_bufs p ! 1" "cruise_ok 0 q" "min_delay q = min_delay r"
    using bufs(1) c(1) by (simp_all add: q_def)
  obtain ds q1 where q1: "hm_dma_update 0 q = Ok q1" "cruise_ok 100 q1"
    "buf_steps (dma_bufs q1 ! 0) = buf_steps b @ map triple ds" "length ds = 99" "\<forall>e \<in> set ds. min_delay r \<le> e"
    using cruise_fill[of 0 q 0] q0 b by auto
  have f1: "same_frame q q1" "min_delay q1 = min_delay r" "dma_bufs q1 = (dma_bufs q)[0 := dma_bufs q1 ! 0]"
    "buf_ok (dma_bufs q1 ! 0)"
    using update_frame[OF q1(1)] q0 b by simp_all
  have l1: "length (dma_bufs q1) = 2" "dma_bufs q1 ! 1 = dma_bufs p ! 1"
    using arg_cong[OF f1(3), of length] arg_cong[OF f1(3), of "\<lambda>bs. bs ! 1"] q0 by simp_all
  obtain es q2 where q2: "hm_dma_update 1 q1 = Ok q2" "cruise_ok 200 q2"
    "buf_steps (dma_bufs q2 ! 1) = map triple es" "length es = 100" "\<forall>e \<in> set es. min_delay r \<le> e"
    using cruise_fill[of 100 q1 1] q1(2) l1 okb(2) empty[of 1] f1(2) by auto
  have f2: "same_frame q1 q2" "min_delay q2 = min_delay r" "dma_bufs q2 = (dma_bufs q1)[1 := dma_bufs q2 ! 1]"
    "buf_ok (dma_bufs q2 ! 1)"
    using update_frame[OF q2(1)] l1 okb(2) f1(2) by simp_all
  have l2: "length (dma_bufs q2) = 2" "dma_bufs q2 ! 0 = dma_bufs q1 ! 0"
    using arg_cong[OF f2(3), of length] arg_cong[OF f2(3), of "\<lambda>bs. bs ! 0"] l1 by simp_all
  have fr: "same_frame p q2" using same_frame_trans[OF pq same_frame_trans[OF f1(1) f2(1)]] .
  have idx: "unat (dma_buf_idx q2) = 0" "next_buf_idx q2 = 1" "unat (dma_buf_idx q1) = 0"
    using same_frameD(1)[OF fr] same_frameD(1)[OF same_frame_trans[OF pq f1(1)]] st(3) by (simp_all add: next_idx_eq)
  have fb: "fill_blocks (r\<lparr>dma_bufs := (dma_bufs p)[0 := b]\<rparr>) = Ok q2"
    using q1(1) q2(1) cruise_running[OF q1(2)] idx(3)
    by (simp add: fill_blocks_def q_def HM_DMA_BUF_BLOCK_SZ_def upt_rec)
  have pl: "run_plan accel speed p = Ok q2" using par first fb by (simp add: run_plan_def)
  have all2: "\<forall>b \<in> set (dma_bufs q2). buf_ok b"
    using l2 f1(4) f2(4) by (auto simp: in_set_conv_nth less_2_cases_iff)
  have okq: "axis_ok a q2"
    using ok all2 l2(1) same_frameD[OF fr] by (simp add: axis_ok_def)
  have "unat (min_delay r) \<le> unat (step_delay r - 1) + 1"
    using triple_paced[OF md c(4)] by (simp add: triple_def)
  moreover have "buf_count (dma_bufs q2 ! 0) = 100"
    using arg_cong[OF q1(3), of length] q1(4) b(2) l2(2) by simp
  ultimately have p0: "paced (min_delay r) (dma_bufs q2 ! 0)"
    unfolding paced_def l2(2) q1(3) b(3) using q1(5) triple_paced[OF md] by auto
  have "buf_count (dma_bufs q2 ! 1) = 100" using arg_cong[OF q2(3), of length] q2(4) by simp
  then have p1: "paced (min_delay r) (dma_bufs q2 ! 1)"
    unfolding paced_def q2(3) using q2(5) triple_paced[OF md] by auto
  show ?thesis using pl okq fr q2(2) f2(2) p0 p1 idx by (intro exI[of _ q2]) simp
qed

text \<open>From a run that is not blocked to the state in which its plan is made.\<close>

lemma run_prepared:
  assumes a: "a < 4" and idle: "idle a s"
    and free: "run_blocked a (upd_axis a (set_run_dir speed) s) = Ok (False, s')"
  obtains c t where
    "hm_step_motor_start_run a accel speed s =
      bnd (upd_axis_res a (run_plan accel (abs_steps speed)) t) (\<lambda>t. bnd (start_hw a t) (\<lambda>t. Ok (True, t)))"
    "s_axis_info t = (s_axis_info s)[a := run_reset (abs_steps speed)
      ((set_run_dir speed (axis a s))\<lparr>axis_state := asPreparing, motor_hw_config := c\<rparr>)]"
    "same_hw s t"
proof -
  let ?v = "abs_steps speed"
  let ?s0 = "upd_axis a (set_run_dir speed) s"
  have len: "length (s_axis_info s) = 4" and al: "a < length (s_axis_info s)"
    and st: "hm_step_motor_state a s = rsSTOP"
    using idle a by (simp_all add: idle_def hm_step_motor_state_def)
  have rm: "reads_more ?s0 s'" by (rule run_blocked_reads[OF _ free]) (simp add: al)
  have i1: "s_axis_info s' = (s_axis_info s)[a := set_run_dir speed (axis a s)]"
    using reads_more_axis[OF rm] by simp
  have al1: "a < length (s_axis_info s')" using i1 al by simp
  have ax1: "axis a s' = set_run_dir speed (axis a s)" by (rule axis_of_list[OF i1 al])
  define s2 where "s2 = upd_axis a (\<lambda>p. p\<lparr>axis_state := asPreparing\<rparr>) s'"
  have mark: "hm_mark_axis_state a asPreparing s' = Ok s2" using al1 by (simp add: hm_mark_axis_state_def s2_def)
  have i2: "s_axis_info s2 = (s_axis_info s)[a := (set_run_dir speed (axis a s))\<lparr>axis_state := asPreparing\<rparr>]"
    using i1 ax1 by (simp add: s2_def)
  have al2: "a < length (s_axis_info s2)" using i2 al by simp
  have ax2: "axis a s2 = (set_run_dir speed (axis a s))\<lparr>axis_state := asPreparing\<rparr>" by (rule axis_of_list[OF i2 al])
  obtain c3 s3 where s3: "note_home a s2 = Ok s3" "s_axis_info s3 = (s_axis_info s2)[a := (axis a s2)\<lparr>motor_hw_config := c3\<rparr>]" "same_hw s2 s3"
  proof (cases "bdo_home (axis a s2)")
    case True
    obtain h u where u: "hm_motor_hit_Home a s2 = Ok (h, u)" "reads_more s2 u" using hit_Home_Ok[OF al2] by blast
    have iu: "s_axis_info u = s_axis_info s2" by (rule reads_more_axis[OF u(2)])
    have au: "axis a u = axis a s2" by (rule axis_same[OF iu])
    show ?thesis
      by (rule that[of "upd_hw a (\<lambda>c. c\<lparr>blast_hit_home := h\<rparr>) u" "(hw_of a s2)\<lparr>blast_hit_home := h\<rparr>"])
        (use True u iu au reads_more_hw[OF u(2)] in \<open>simp_all add: note_home_def\<close>)
  next
    case False
    show ?thesis by (rule that[of s2 "hw_of a s2"]) (use False in \<open>simp_all add: note_home_def\<close>)
  qed
  have ax3: "axis a s3 = (axis a s2)\<lparr>motor_hw_config := c3\<rparr>" by (rule axis_of_list[OF s3(2) al2])
  have len3: "length (s_axis_info s3) = 4" using s3(2) i2 len by simp
  obtain c where c: "s_axis_info (snd (hm_motor_enable_axis a True s3)) = (s_axis_info s3)[a := (axis a s3)\<lparr>motor_hw_config := c\<rparr>]"
    "same_hw s3 (snd (hm_motor_enable_axis a True s3))"
    by (rule enable_axis_frame[OF a len3])
  define s4 where "s4 = snd (hm_motor_enable_axis a True s3)"
  have ax4: "axis a s4 = (set_run_dir speed (axis a s))\<lparr>axis_state := asPreparing, motor_hw_config := c\<rparr>"
    using axis_of_list[OF c(1)] a len3 ax3 ax2 by (simp add: s4_def)
  let ?s5 = "upd_axis a (run_reset ?v) s4"
  have i5: "s_axis_info ?s5 = (s_axis_info s)[a := run_reset ?v
      ((set_run_dir speed (axis a s))\<lparr>axis_state := asPreparing, motor_hw_config := c\<rparr>)]"
    using c(1) s3(2) i2 ax4 by (simp add: s4_def)
  have "a < length (s_axis_info ?s5)" using i5 al by simp
  then obtain t where t: "hm_motor_set_dir a (motor_dir (axis a ?s5) = rdCW) ?s5 = Ok t"
      "s_axis_info t = s_axis_info ?s5" "same_hw ?s5 t" by (rule set_dir_frame)
  have "hm_step_motor_start_run a accel speed s =
      bnd (upd_axis_res a (run_plan accel ?v) t) (\<lambda>t. bnd (start_hw a t) (\<lambda>t. Ok (True, t)))"
    using a st free mark s3(1) t(1) unfolding hm_step_motor_start_run_def abs_steps_def
    by (simp add: HM_MAX_AXIS_def Let_def s4_def)
  moreover have "same_hw s t"
    using reads_more_hw[OF rm] s3(3) c(2) t(3)
    by (auto intro: same_hw_trans simp: s2_def s4_def)
  ultimately show ?thesis using that t(2) i5 by simp
qed

lemma scast_small:
  assumes "unat (w :: u32) < 2 ^ 31"
  shows "(scast w :: u64) = ucast w"
proof -
  have "int (unat w) < int (2 ^ 31)" using assms by (simp only: of_nat_less_iff)
  then have lt: "uint w < 2 ^ 31" by simp
  have "signed_take_bit 31 (uint w) = uint w"
  proof (rule signed_take_bit_int_eq_self)
    show "- (2 ^ 31) \<le> uint w" by (rule order_trans[OF _ uint_ge_0]) simp
  qed (rule lt)
  then have "sint w = uint w" by (simp add: sint_uint)
  then have "word_of_int (sint w) = (word_of_int (uint w) :: u64)" by (rule arg_cong)
  then show ?thesis by (simp only: scast_eq ucast_eq)
qed

text \<open>The parameters of a run in the range of speeds and accelerations, and its start.\<close>

abbreviation top_delay :: "u32 \<Rightarrow> nat" where
  "top_delay v \<equiv> (if unat v \<le> 15 then 10000 else 1000000) div unat v"

lemma run_params_Ok:
  assumes "1 \<le> unat v" and "unat v \<le> 500000" and "213 \<le> unat accel"
    and "motor_method p = TCurve" and "HM_STEP_FRE p = tim_base_fre v"
  obtains r where "run_params accel v p = Inr r" "unat (min_delay r) = top_delay v" "2 \<le> unat (min_delay r)"
proof -
  have sc: "(scast v :: u64) = ucast v" using assms(2) by (intro scast_small) simp
  obtain md where md: "min_delay_of (tim_base_fre v) (ucast v) = Ok md" "unat md = top_delay v" "2 \<le> unat md"
    using min_delay_value[of v] assms(1,2) by auto
  obtain sd where sd: "first_delay_of (tim_base_fre v) accel = Ok sd" using first_delay_Ok[OF assms(3)] by blast
  have "accel \<noteq> 0" using assms(3) by auto
  from max_s_lim_TCurve[OF this] obtain ml where ml: "max_s_lim_of TCurve (ucast v) accel = Ok ml" by blast
  obtain r where "run_params accel v p = Inr r" "min_delay r = md"
    using md(1) sd ml assms(4,5) sc by (auto simp: run_params_def)
  then show thesis using that md(2,3) by simp
qed

lemma free_run_started:
  assumes "a < 4" and "idle a s" and "motor_method (axis a s) = TCurve"
    and "run_blocked a (upd_axis a (set_run_dir speed) (upd_axis a (\<lambda>p. p\<lparr>bdo_home := False\<rparr>) s)) = Ok (False, s')"
    and "1 \<le> unat (abs_steps speed)" and "unat (abs_steps speed) \<le> 500000" and "213 \<le> unat accel"
  obtains s1 md where "hm_step_motor_start_free_run a accel speed s = Ok (True, s1)" "unat md = top_delay (abs_steps speed)"
    "axis_ok a (axis a s1)" "length (s_axis_info s1) = 4" "flags_clear (axis_channel a) s1" "hw_playing a s1"
    "run_inv 200 md (if sint speed < 0 then rdCCW else rdCW) (axis_channel a) (axis a s1)"
    "motor_pos (axis a s1) = motor_pos (axis a s)"
proof -
  let ?v = "abs_steps speed" and ?d = "if sint speed < 0 then rdCCW else rdCW"
  let ?s = "upd_axis a (\<lambda>p. p\<lparr>bdo_home := False\<rparr>) s"
  have len: "length (s_axis_info s) = 4" and al: "a < length (s_axis_info s)"
    and ok: "axis_ok a (axis a s)" and pd: "pdma (axis a s) = axis_channel a" and st: "hw_stopped a s"
    and fl: "flags_clear (axis_channel a) s"
    using assms(1,2) by (simp_all add: idle_def)
  have idle: "idle a ?s" using assms(2) al pd st
    by (simp add: idle_def hw_stopped_def flags_clear_def DMA_GetITStatus_def)
  obtain c t where t: "hm_step_motor_start_run a accel speed ?s =
      bnd (upd_axis_res a (run_plan accel ?v) t) (\<lambda>t. bnd (start_hw a t) (\<lambda>t. Ok (True, t)))"
    and it0: "s_axis_info t = (s_axis_info ?s)[a := run_reset ?v
      ((set_run_dir speed (axis a ?s))\<lparr>axis_state := asPreparing, motor_hw_config := c\<rparr>)]"
    and ht: "same_hw ?s t"
    by (rule run_prepared[OF assms(1) idle assms(4), of accel])
  define p1 where "p1 = (set_run_dir speed ((axis a s)\<lparr>bdo_home := False\<rparr>))\<lparr>axis_state := asPreparing, motor_hw_config := c\<rparr>"
  define p where "p = run_reset ?v p1"
  have it: "s_axis_info t = (s_axis_info s)[a := p]" using it0 al by (simp add: p_def p1_def)
  have at: "axis a t = p" by (rule axis_of_list[OF it al])
  have okp: "axis_ok a p" using ok
    by (auto simp: p_def p1_def run_reset_def set_run_dir_def axis_ok_def buf_ok_def buf_empty_def)
  have fp: "motor_pos p = motor_pos (axis a s)" "motor_dir p = ?d" "pdma p = axis_channel a" "ptim p = ptim (axis a s)"
    "motor_method p = TCurve" "HM_STEP_FRE p = tim_base_fre ?v"
    using pd assms(3) by (simp_all add: p_def p1_def run_reset_def set_run_dir_def)
  obtain r where r: "run_params accel ?v p = Inr r" "unat (min_delay r) = top_delay ?v" "2 \<le> unat (min_delay r)"
    by (rule run_params_Ok[OF assms(5-7) fp(5,6)])
  obtain q where q: "run_plan accel ?v p = Ok q" "axis_ok a q" "same_frame p q" "cruise_ok 200 q"
    "min_delay q = min_delay r" "paced (min_delay r) (cur_buf q)" "paced (min_delay r) (next_buf q)"
    using run_plan_Ok[OF okp p_def r(1) fp(5) r(3)] by auto
  note fq = same_frameD[OF q(3)]
  let ?u = "upd_axis a (\<lambda>_. q) t"
  have iu: "s_axis_info ?u = (s_axis_info s)[a := q]" using it by simp
  have au: "axis a ?u = q" by (rule axis_of_list[OF iu al])
  have stu: "hw_stopped a ?u"
    unfolding hw_stopped_def au fq fp using st same_hw_enabled(1,2)[OF ht] pd by (simp add: hw_stopped_def)
  obtain s1 where s1: "start_hw a ?u = Ok s1" "s_axis_info s1 = (s_axis_info ?u)[a := (axis a ?u)\<lparr>axis_state := asRuning\<rparr>]"
    "hw_playing a s1" "DMA1_ISR s1 = DMA1_ISR ?u"
    by (rule start_hw_playing[of a ?u]) (use au q(2) assms(1) iu len stu in simp_all)
  have i1: "s_axis_info s1 = (s_axis_info s)[a := q\<lparr>axis_state := asRuning\<rparr>]" using s1(2) it au by simp
  have a1: "axis a s1 = q\<lparr>axis_state := asRuning\<rparr>" by (rule axis_of_list[OF i1 al])
  show thesis
  proof (rule that[OF _ r(2)])
    show "hm_step_motor_start_free_run a accel speed s = Ok (True, s1)"
      using al t q(1) at s1(1) by (simp add: hm_step_motor_start_free_run_def upd_axis_res_def)
    show "flags_clear (axis_channel a) s1"
      using fl s1(4) ht by (simp add: flags_clear_def DMA_GetITStatus_def same_hw_def)
    show "run_inv 200 (min_delay r) ?d (axis_channel a) (axis a s1)"
      unfolding a1 run_inv_def using q(4-7) fq fp by (simp add: next_buf_idx_def)
  qed (use i1 len a1 q(2) s1(3) fq(6) fp(1) in simp_all)
qed

text \<open>
  C9.  A run without end on a T-curve, from rest and not blocked, with a top speed from 1 to 500000
  steps per second and an acceleration of at least 213: the start succeeds, and for every number of
  rounds of the channel (up to the bound of the acceleration counter, some two and a half million
  blocks) the axis goes on running, every round sends a full block of a hundred steps, no step is
  shorter than the delay of the top speed, and the position follows the steps exactly.
\<close>

theorem free_run_exact:
  assumes "a < 4" and "idle a s" and "motor_method (axis a s) = TCurve"
    and "run_blocked a (upd_axis a (set_run_dir speed) (upd_axis a (\<lambda>p. p\<lparr>bdo_home := False\<rparr>) s)) = Ok (False, s')"
    and "1 \<le> unat (abs_steps speed)" and "unat (abs_steps speed) \<le> 500000" and "213 \<le> unat accel"
    and "200 + 100 * n \<le> 2 ^ 28"
  shows "\<exists>s1 s2 ts. hm_step_motor_start_free_run a accel speed s = Ok (True, s1) \<and>
    rounds a n s1 = Ok (concat (map (\<lambda>(x, y, z). [x, y, z]) ts), s2) \<and> length ts = 100 * n \<and>
    (\<forall>(x, y, z) \<in> set ts.
       (if unat (abs_steps speed) \<le> 15 then 10000 else 1000000) div unat (abs_steps speed) \<le> unat x + 1) \<and>
    axis_state (axis a s2) = asRuning \<and>
    motor_pos (axis a s2) =
      (if sint speed < 0 then motor_pos (axis a s) - word_of_nat (100 * n)
       else motor_pos (axis a s) + word_of_nat (100 * n))"
proof -
  let ?d = "if sint speed < 0 then rdCCW else rdCW"
  obtain s1 md where s1: "hm_step_motor_start_free_run a accel speed s = Ok (True, s1)" "unat md = top_delay (abs_steps speed)"
    "axis_ok a (axis a s1)" "length (s_axis_info s1) = 4" "flags_clear (axis_channel a) s1" "hw_playing a s1"
    "run_inv 200 md ?d (axis_channel a) (axis a s1)" "motor_pos (axis a s1) = motor_pos (axis a s)"
    by (rule free_run_started[OF assms(1-7)])
  obtain ts r s2 where R: "rounds a n s1 = Ok (concat (map words3 ts), s2)" "length ts = 100 * n"
    "\<forall>t \<in> set ts. unat md \<le> unat (fst t) + 1" "s_axis_info s2 = (s_axis_info s1)[a := r]"
    "run_inv (200 + 100 * n) md ?d (axis_channel a) r"
    "motor_pos r = motor_pos (axis a s1) + signed_pos ?d (word_of_nat (100 * n))"
    using run_rounds[OF s1(3) assms(1) s1(4-7) assms(8)] by blast
  have a2: "axis a s2 = r" by (rule axis_of_list[OF R(4)]) (use s1(4) assms(1) in simp)
  have pos: "motor_pos (axis a s2) = (if sint speed < 0 then motor_pos (axis a s) - word_of_nat (100 * n)
       else motor_pos (axis a s) + word_of_nat (100 * n))"
    unfolding a2 R(6) s1(8) by (simp add: signed_pos_def)
  have run: "axis_state (axis a s2) = asRuning" unfolding a2 using R(5) by (simp add: run_inv_def)
  have words: "words3 = (\<lambda>(x, y, z). [x, y, z])" by (simp add: words3_def)
  have "\<forall>(x, y, z) \<in> set ts. top_delay (abs_steps speed) \<le> unat x + 1" using R(3) unfolding s1(2) by auto
  with s1(1) R(1,2) run pos show ?thesis unfolding words by blast
qed

section \<open>A bench with all pins high\<close>

text \<open>Four axes at rest, nothing at the switches: the state on which the theorems are tried.\<close>

definition bench_axis :: "nat \<Rightarrow> hm_step_info" where
  "bench_axis a = axis_zero\<lparr>axis_idx := word_of_nat a, axis_state := asStoped, pdma := axis_channel a,
     motor_hw_config := limit_config a hw_config_zero\<rparr>"

definition bench :: motor_st where
  "bench = (motor_power_up 0xFFFF)\<lparr>s_axis_info := map bench_axis [0..<4]\<rparr>"

lemma bench_axes [simp]: "length (s_axis_info bench) = 4" "a < 4 \<Longrightarrow> axis a bench = bench_axis a"
  by (simp_all add: bench_def axis_def)

lemma bench_hw [simp]: "dma bench = (\<lambda>c. dma_reset)" "tim bench = (\<lambda>t. tim_reset)" "DMA1_ISR bench = 0"
  "input_reads bench = 0" "pin_level bench = (\<lambda>n p. 0xFFFF)"
  by (simp_all add: bench_def motor_power_up_def timer_st.defs motor_st.defs timer_power_up_def
      addr_power_up_def addr_st.defs msg_power_up_def msg_st.defs hw_st.defs hw_reset_def)

lemma bench_ok: "a < 4 \<Longrightarrow> axis_ok a (bench_axis a)"
  by (simp add: axis_ok_def bench_axis_def axis_zero_def)

lemma bench_idle: "a < 4 \<Longrightarrow> idle a bench"
  using bench_ok[of a]
  by (simp add: idle_def hw_stopped_def dma_enabled_def tim_enabled_def flags_clear_def DMA_GetITStatus_def
      dma_reset_def tim_reset_def) (simp add: bench_axis_def)

lemma bench_high [simp]: "low_at n p m (upd_axis a f bench) \<longleftrightarrow> 0xFFFF AND m = 0"
  by (simp add: low_at_def)

lemma axis_reads [simp]: "axis a (s\<lparr>input_reads := n\<rparr>) = axis a s"
  by (simp add: axis_def)

lemma bench_free:
  assumes "pinCW_lmt (hw_of 0 (upd_axis 0 f bench)) = 1" "pinCCW_lmt (hw_of 0 (upd_axis 0 f bench)) = 2"
    "pinHome_lmt (hw_of 0 (upd_axis 0 f bench)) = 4"
  shows "run_blocked 0 (upd_axis 0 f bench) = Ok (False, (upd_axis 0 f bench)\<lparr>input_reads := 3\<rparr>)"
  using assms by (simp add: run_blocked_def hm_motor_hit_CW_def hm_motor_hit_CCW_def hm_motor_hit_Home_def
      hit_switch_eq low_at_def)

lemma bench_pins: "pinCW_lmt (motor_hw_config (bench_axis 0)) = 1" "pinCCW_lmt (motor_hw_config (bench_axis 0)) = 2"
  "pinHome_lmt (motor_hw_config (bench_axis 0)) = 4"
  by (simp_all add: bench_axis_def limit_config_def limit_config_0_def GPIO_Pin_no_def)

lemma bench_first: "first_delay_of 1000000 1000 = Ok 30217"
proof -
  have "mysqrt 200000 = 447" by code_simp
  then show ?thesis by (simp add: first_delay_value)
qed

lemma bench_params: "move_params 3 1000 10000 (move_reset 10000 3 (bench_axis 0)) = Ok ((move_reset 10000 3 (bench_axis 0))
  \<lparr>min_delay := 100, step_delay := 30217, ramp_n2 := 50000, decel_val := - 2, decel_start := 1, run_state := rsACCEL, accel_count := 0\<rparr>)"
  by (simp add: move_params_def move_reset_def tim_base_fre_def HM_STEP_FRE_INIT_def min_delay_of_def bench_first bench_axis_def
    axis_zero_def max_s_lim_of_def udiv_res_def decel_val_of_def ramp_start_def sdiv32_def)

lemma bench_gen: "\<exists>ds q. ramp_gen (Suc (Suc 0)) 1 ((move_reset 10000 3 (bench_axis 0))
  \<lparr>min_delay := 100, step_delay := 30217, ramp_n2 := 50000, decel_val := - 2, decel_start := 1,
    run_state := rsACCEL, accel_count := 0\<rparr>) = Ok (ds, q)"
  by (simp add: ramp_next_def next_count_def ramp_step_def accel_enter_def
    accel_divs_def quot_rem_def sdiv32_def smod32_def accel_result_def at_decel_start_def HM_INVALID_STEP_def note_min_delay_def
    decel_divs_def decel_result_def move_reset_def bench_axis_def axis_zero_def Let_def)

lemma bench_delays: "\<exists>ds. move_delays 3 1000 10000 (bench_axis 0) = Ok ds"
proof -
  have two: "unat (3 :: u32) - 1 = Suc (Suc 0)" by simp
  show ?thesis unfolding move_delays_def bench_params two using bench_gen by auto
qed

lemma bench_ready: "run_blocked 0 (upd_axis 0 (set_run_dir v) bench) =
    Ok (False, (upd_axis 0 (set_run_dir v) bench)\<lparr>input_reads := 3\<rparr>)"
  by (rule bench_free) (simp_all add: bench_pins set_run_dir_def)

lemma move_exact_witness:
  "\<exists>s1 s2 ds. hm_step_motor_move 0 (- 3) 1000 0 10000 bench = Ok (True, s1) \<and>
    rounds 0 1 s1 = Ok (concat (map (\<lambda>d. [d - 1, 0, d div 2]) ds), s2) \<and> length ds = 3 \<and>
    motor_pos (axis 0 s2) = - 3 \<and> idle 0 s2"
proof -
  have n: "abs_steps (- 3) = 3" by (simp add: abs_steps_def)
  obtain ds where ds: "move_delays (abs_steps (- 3)) 1000 10000 (axis 0 bench) = Ok ds"
    using bench_delays unfolding n by auto
  have "motor_pos (axis 0 bench) = 0" by (simp add: bench_axis_def axis_zero_def)
  then show ?thesis
    using move_exact[OF _ bench_idle _ bench_ready ds, where decel = 0] unfolding n by auto
qed

lemma move_one_exact_witness:
  "\<exists>s1 s2. hm_step_motor_move 0 1 0 0 0 bench = Ok (True, s1) \<and> rounds 0 1 s1 = Ok ([999, 1, 500], s2) \<and>
    motor_pos (axis 0 s2) = 1"
proof -
  have "abs_steps 1 = 1" "motor_pos (axis 0 bench) = 0"
    by (simp_all add: abs_steps_def bench_axis_def axis_zero_def)
  then show ?thesis using move_one_exact[OF _ bench_idle _ bench_ready[of 1], where accel = 0 and decel = 0 and speed = 0] by auto
qed

lemma move_zero_stuck_witness:
  "\<exists>s1. hm_step_motor_move 0 0 1000 0 10000 bench = Ok (True, s1) \<and> axis_state (axis 0 s1) = asRuning \<and>
    rounds 0 9 s1 = Ok ([], s1)"
  using move_zero_stuck[OF _ bench_idle bench_ready, where accel = 1000 and decel = 0 and speed = 10000 and k = 9] by auto

lemma free_run_exact_witness:
  "\<exists>s1 s2 ts. hm_step_motor_start_free_run 0 1000 10000 bench = Ok (True, s1) \<and>
    rounds 0 7 s1 = Ok (concat (map (\<lambda>(x, y, z). [x, y, z]) ts), s2) \<and> length ts = 700 \<and>
    motor_pos (axis 0 s2) = 700"
proof -
  have n: "abs_steps 10000 = 10000" by (simp add: abs_steps_def)
  have b: "run_blocked 0 (upd_axis 0 (set_run_dir 10000) (upd_axis 0 (\<lambda>p. p\<lparr>bdo_home := False\<rparr>) bench)) =
      Ok (False, (upd_axis 0 (\<lambda>p. set_run_dir 10000 (p\<lparr>bdo_home := False\<rparr>)) bench)\<lparr>input_reads := 3\<rparr>)"
    unfolding upd_axis_upd_axis by (rule bench_free) (simp_all add: bench_pins set_run_dir_def)
  have "motor_method (axis 0 bench) = TCurve" "motor_pos (axis 0 bench) = 0"
    by (simp_all add: bench_axis_def axis_zero_def)
  then show ?thesis
    using free_run_exact[OF _ bench_idle _ b, where accel = 1000 and n = 7] unfolding n by auto
qed

end
