(* ===== verification/Motor_Stops.thy ===== *)
theory Motor_Stops
  imports Motor_Moves
begin

text \<open>
  The two ways to stop a running axis, \<open>hm_step_motor_stop_sundden\<close> and \<open>hm_step_motor_stop_smooth\<close>, and
  what an end-of-block interrupt that is pending at a sudden stop does.
\<close>

section \<open>The sudden stop\<close>

lemma passed_steps_eq:
  assumes "unat r \<le> unat (dma_buf_len b)"
  shows "passed_steps b r = word_of_nat ((unat (dma_buf_len b) - unat r) div 3)"
proof -
  have "int (unat (dma_buf_len b)) - int (unat r) = int (unat (dma_buf_len b) - unat r)"
    using assms by (simp only: of_nat_diff)
  then have "(int (unat (dma_buf_len b)) - int (unat r)) sdiv 3 = int ((unat (dma_buf_len b) - unat r) div 3)"
    using sdiv_nat[of "unat (dma_buf_len b) - unat r" 3] by simp
  then show ?thesis unfolding passed_steps_def by simp
qed

lemma ucast_back: "(ucast (ucast (w :: u16) :: u32) :: u16) = w"
  by (rule bit_word_eqI) (auto simp: bit_simps)

lemma hm_step_motor_stop_sundden_eq:
  assumes ok: "axis_ok a (axis a s)" and a: "a < 4" and len: "length (s_axis_info s) = 4"
  obtains t where "hm_step_motor_stop_sundden a s = Ok (True, t)"
    "s_axis_info t = (s_axis_info s)[a := (axis a s)\<lparr>bstopping := False, bdo_home := False, axis_state := asStoped,
       motor_pos := motor_pos (axis a s) + signed_steps (motor_dir (axis a s))
         (passed_steps (cur_buf (axis a s))
           (if dma_enabled (pdma (axis a s)) s then ucast (CNDTR (dma s (pdma (axis a s))))
            else dma_buf_len (cur_buf (axis a s))))\<rparr>]"
    "hw_stopped a t" "DMA1_ISR t = DMA1_ISR s"
proof -
  let ?p = "axis a s"
  let ?q = "?p\<lparr>bstopping := False\<rparr>"
  define s0 where "s0 = upd_axis a (\<lambda>p. p\<lparr>bstopping := False\<rparr>) s"
  have i0: "s_axis_info s0 = (s_axis_info s)[a := ?q]" by (simp add: s0_def)
  have a0: "axis a s0 = ?q" by (rule axis_of_list[OF i0]) (simp add: a len)
  have ok0: "axis_ok a (axis a s0)" using ok a0 by (simp add: axis_ok_def)
  define u where "u = DMA_Cmd (pdma ?p) False (write_CMAR (pdma ?p) (DmaBuf a (unat (dma_buf_idx ?p)))
      (write_CNDTR (pdma ?p) (ucast (dma_buf_len (cur_buf ?p))) s0))"
  have su: "hm_dma_setup a False s0 = Ok u" using hm_dma_setup_eq[OF ok0, of False] a0 by (simp add: u_def)
  have iu: "s_axis_info u = (s_axis_info s)[a := ?q]" using i0 by (simp add: u_def)
  have au: "axis a u = ?q" by (rule axis_of_list[OF iu]) (simp add: a len)
  obtain v where v: "hm_tim_start a False 0 u = Ok v"
    "s_axis_info v = (s_axis_info u)[a := (axis a u)\<lparr>bdo_home := False, axis_state := asStoped\<rparr>]"
    "\<not> tim_enabled (ptim (axis a u)) v" "dma v = dma u" "DMA1_ISR v = DMA1_ISR u"
    by (rule hm_tim_start_off[of a u 0]) (use ok0 a0 au a iu len in simp_all)
  let ?r = "?q\<lparr>bdo_home := False, axis_state := asStoped\<rparr>"
  have iv: "s_axis_info v = (s_axis_info s)[a := ?r]" using v(2) iu au by simp
  have av: "axis a v = ?r" by (rule axis_of_list[OF iv]) (simp add: a len)
  have okv: "axis_ok a (axis a v)" using ok unfolding av by (simp add: axis_ok_def)
  let ?left = "if dma_enabled (pdma ?p) s then ucast (CNDTR (dma s (pdma ?p))) else dma_buf_len (cur_buf ?p)"
  have cnt: "DMA_GetCurrDataCounter (pdma ?p) v = ?left"
    by (simp add: DMA_GetCurrDataCounter_def v(4) u_def s0_def ucast_back)
  have enl: "dma_enabled c v = dma_enabled c u" for c by (rule dma_enabled_same[OF v(4)])
  let ?t = "upd_axis a (\<lambda>p. p\<lparr>motor_pos := motor_pos p + signed_steps (motor_dir p) (passed_steps (cur_buf ?p) ?left)\<rparr>) v"
  have run: "hm_step_motor_stop_sundden a s = Ok (True, ?t)"
    using a su v(1) axis_ok_bufs(1)[OF okv] av cnt
    unfolding hm_step_motor_stop_sundden_def s0_def[symmetric] by (simp add: HM_MAX_AXIS_def Let_def)
  have it: "s_axis_info ?t = (s_axis_info s)[a := ?p\<lparr>bstopping := False, bdo_home := False, axis_state := asStoped,
       motor_pos := motor_pos ?p + signed_steps (motor_dir ?p) (passed_steps (cur_buf ?p) ?left)\<rparr>]"
    using iv av by simp
  have at: "axis a ?t = ?p\<lparr>bstopping := False, bdo_home := False, axis_state := asStoped,
       motor_pos := motor_pos ?p + signed_steps (motor_dir ?p) (passed_steps (cur_buf ?p) ?left)\<rparr>"
    by (rule axis_of_list[OF it]) (simp add: a len)
  have st: "hw_stopped a ?t"
    unfolding hw_stopped_def at using v(3) au by (simp add: enl) (simp add: u_def)
  show ?thesis by (rule that[OF run it st]) (simp add: v(5) u_def s0_def)
qed

text \<open>
  C8.  A sudden stop in the middle of a block: timer and channel are off at once, the axis counts as
  stopped, and the position is corrected by exactly the steps of the current block that were sent, the
  words sent divided by three.  Stopping an axis whose channel is off already changes no position.
\<close>

theorem stop_sudden_exact:
  assumes "axis_ok a (axis a s)" and "a < 4" and "length (s_axis_info s) = 4"
    and "dma_enabled (pdma (axis a s)) s \<longrightarrow>
      unat (CNDTR (dma s (pdma (axis a s)))) \<le> unat (dma_buf_len (cur_buf (axis a s)))"
  shows "\<exists>t. hm_step_motor_stop_sundden a s = Ok (True, t) \<and> hw_stopped a t \<and>
    axis_state (axis a t) = asStoped \<and>
    motor_pos (axis a t) = motor_pos (axis a s) +
      (let n = word_of_nat (if dma_enabled (pdma (axis a s)) s
                 then (unat (dma_buf_len (cur_buf (axis a s))) - unat (CNDTR (dma s (pdma (axis a s))))) div 3
                 else 0)
       in if motor_dir (axis a s) = rdCW then n else - n)"
proof -
  let ?p = "axis a s"
  let ?len = "unat (dma_buf_len (cur_buf ?p))" and ?c = "CNDTR (dma s (pdma ?p))"
  obtain t where t: "hm_step_motor_stop_sundden a s = Ok (True, t)" "hw_stopped a t"
    and it: "s_axis_info t = (s_axis_info s)[a := ?p\<lparr>bstopping := False, bdo_home := False, axis_state := asStoped,
       motor_pos := motor_pos ?p + signed_steps (motor_dir ?p)
         (passed_steps (cur_buf ?p) (if dma_enabled (pdma ?p) s then ucast ?c else dma_buf_len (cur_buf ?p)))\<rparr>]"
    by (rule hm_step_motor_stop_sundden_eq[OF assms(1-3)])
  have at: "axis a t = ?p\<lparr>bstopping := False, bdo_home := False, axis_state := asStoped,
       motor_pos := motor_pos ?p + signed_steps (motor_dir ?p)
         (passed_steps (cur_buf ?p) (if dma_enabled (pdma ?p) s then ucast ?c else dma_buf_len (cur_buf ?p)))\<rparr>"
    by (rule axis_of_list[OF it]) (simp add: assms)
  have l: "?len \<le> 300" using axis_ok_bufs(3)[OF assms(1)] by (simp add: buf_ok_def)
  let ?n = "if dma_enabled (pdma ?p) s then (?len - unat ?c) div 3 else 0"
  let ?k = "passed_steps (cur_buf ?p) (if dma_enabled (pdma ?p) s then ucast ?c else dma_buf_len (cur_buf ?p))"
  have pass: "?k = word_of_nat ?n"
  proof (cases "dma_enabled (pdma ?p) s")
    case True
    then have c: "unat ?c \<le> ?len" using assms(4) by blast
    then have u: "unat (ucast ?c :: u16) = unat ?c" using l by (intro unat_ucast_small) simp
    show ?thesis using True passed_steps_eq[of "ucast ?c" "cur_buf ?p"] c unfolding u by simp
  next
    case False
    then show ?thesis using passed_steps_eq[of "dma_buf_len (cur_buf ?p)" "cur_buf ?p"] by simp
  qed
  have uc: "(ucast (word_of_nat ?n :: u16) :: u32) = word_of_nat ?n"
  proof -
    have "?n < 65536" using l by auto
    then show ?thesis by (simp add: word_unat_eq_iff unat_of_nat del: of_nat_unat split del: if_split)
  qed
  have sg: "signed_steps (motor_dir ?p) ?k = (let n = word_of_nat ?n in if motor_dir ?p = rdCW then n else - n)"
    unfolding signed_steps_def pass uc Let_def by (rule refl)
  have "motor_pos (axis a t) = motor_pos ?p + signed_steps (motor_dir ?p) ?k" unfolding at by simp
  then have "motor_pos (axis a t) = motor_pos ?p +
      (let n = word_of_nat ?n in if motor_dir ?p = rdCW then n else - n)"
    unfolding sg .
  moreover have "axis_state (axis a t) = asStoped" by (simp add: at)
  ultimately show ?thesis using t by blast
qed

text \<open>
  C22.  The sudden stop of a run without end while the interrupt of the finished block is pending.
  The handler runs after the stop and treats the block as played: it adds the whole block to the
  position, which the stop has corrected already, and starts timer and channel once more, with the axis still marked as stopped.
\<close>

theorem stop_race:
  assumes "axis_ok a (axis a s)" and "a < 4" and "length (s_axis_info s) = 4"
    and "steps_request (axis a s) = HM_INVALID_STEP" and "buf_valid (next_buf (axis a s))"
    and "\<not> DMA_GetITStatus (DMA1_IT_HT c) s" and "DMA_GetITStatus (DMA1_IT_TC c) s"
  shows "\<exists>t u. hm_step_motor_stop_sundden a s = Ok (True, t) \<and> hw_stopped a t \<and>
    dma_channel_irq c a t = Ok u \<and> hw_playing a u \<and> axis_state (axis a u) = asStoped \<and>
    motor_pos (axis a u) = motor_pos (axis a t) + signed_steps (motor_dir (axis a s)) (dma_buf_len (cur_buf (axis a s)) div 3)"
proof -
  let ?p = "axis a s"
  obtain t where t: "hm_step_motor_stop_sundden a s = Ok (True, t)" "hw_stopped a t" "DMA1_ISR t = DMA1_ISR s"
    and it: "s_axis_info t = (s_axis_info s)[a := ?p\<lparr>bstopping := False, bdo_home := False, axis_state := asStoped,
       motor_pos := motor_pos ?p + signed_steps (motor_dir ?p)
         (passed_steps (cur_buf ?p) (if dma_enabled (pdma ?p) s then ucast (CNDTR (dma s (pdma ?p)))
            else dma_buf_len (cur_buf ?p)))\<rparr>]"
    by (rule hm_step_motor_stop_sundden_eq[OF assms(1-3)])
  define q where "q = ?p\<lparr>bstopping := False, bdo_home := False, axis_state := asStoped,
       motor_pos := motor_pos ?p + signed_steps (motor_dir ?p)
         (passed_steps (cur_buf ?p) (if dma_enabled (pdma ?p) s then ucast (CNDTR (dma s (pdma ?p)))
            else dma_buf_len (cur_buf ?p)))\<rparr>"
  have iq: "s_axis_info t = (s_axis_info s)[a := q]" using it by (simp add: q_def)
  have at: "axis a t = q" by (rule axis_of_list[OF iq]) (simp add: assms)
  have okq: "axis_ok a q" using assms(1) by (simp add: q_def axis_ok_def)
  have more: "more_steps (counted q)" using assms(4) by (simp add: more_steps_def q_def)
  have nv: "buf_valid (next_buf q)" using assms(5) by (simp add: q_def next_buf_idx_def)
  have lt: "length (s_axis_info t) = 4" using iq assms(3) by simp
  obtain u where u: "hm_dma_ck a t = Ok u" "s_axis_info u = (s_axis_info t)[a := block_turned q]" "hw_playing a u"
    using hm_dma_ck_more[of a t] okq more nv lt assms(2) unfolding at by metis
  have fl: "\<not> DMA_GetITStatus (DMA1_IT_HT c) t" "DMA_GetITStatus (DMA1_IT_TC c) t"
    using assms(6,7) t(3) by (simp_all add: DMA_GetITStatus_def)
  have irq: "dma_channel_irq c a t = Ok (DMA_ClearITPendingBit (DMA1_IT_TC c) u)"
    using fl u(1) by (simp add: dma_channel_irq_def)
  have au: "axis a u = block_turned q" by (rule axis_of_list[OF u(2)]) (simp add: lt assms)
  have "axis_state (axis a (DMA_ClearITPendingBit (DMA1_IT_TC c) u)) = asStoped" by (simp add: au q_def)
  moreover have "motor_pos (axis a (DMA_ClearITPendingBit (DMA1_IT_TC c) u)) =
      motor_pos q + signed_steps (motor_dir ?p) (dma_buf_len (cur_buf ?p) div 3)"
    by (simp add: au block_turned_def counted_def) (simp add: q_def)
  moreover have "hw_playing a (DMA_ClearITPendingBit (DMA1_IT_TC c) u)" using u(3) by simp
  ultimately show ?thesis using t irq at by blast
qed

section \<open>The smooth stop\<close>

lemma smooth_plan_sel [simp]:
  "dma_bufs (smooth_plan p) = dma_bufs p" "dma_buf_idx (smooth_plan p) = dma_buf_idx p" "pdma (smooth_plan p) = pdma p"
  "ptim (smooth_plan p) = ptim p" "steps_request (smooth_plan p) = 100" "steps_actual (smooth_plan p) = 0"
  "motor_pos (smooth_plan p) = motor_pos p" "motor_dir (smooth_plan p) = motor_dir p"
  "next_buf_idx (smooth_plan p) = next_buf_idx p" "axis_idx (smooth_plan p) = axis_idx p"
  by (simp_all add: smooth_plan_def next_buf_idx_def)

text \<open>A round of the channel that ends the run, while the next block needs no filling.\<close>

lemma last_round:
  assumes "axis_ok a (axis a t)" and "a < 4" and "length (s_axis_info t) = 4" and "pdma (axis a t) = axis_channel a"
    and "flags_clear (axis_channel a) t" and "hw_playing a t" and "dma_buf_len (cur_buf (axis a t)) \<noteq> 0"
    and "fill_next (axis a t) = Ok (axis a t)" and "\<not> more_steps (counted (axis a t))"
  obtains u where "block_round a t = Ok (concat (map words3 (buf_steps (cur_buf (axis a t)))), u)"
    "axis a u = block_stopped (axis a t)" "hw_stopped a u"
proof -
  let ?q = "axis a t"
  have ck: "\<exists>u. hm_dma_ck a v = Ok u \<and> s_axis_info u = (s_axis_info t)[a := block_stopped ?q] \<and>
      hw_stopped a u \<and> DMA1_ISR u = DMA1_ISR v" if "s_axis_info v = (s_axis_info t)[a := ?q]" for v
  proof -
    have ax: "axis a v = ?q" by (rule axis_of_list[OF that]) (simp add: assms(2,3))
    show ?thesis by (rule hm_dma_ck_last[of a v]) (use ax assms that in auto)
  qed
  have H: "hw_stopped a (DMA_ClearITPendingBit x u)" if "hw_stopped a u" for x u using that by simp
  obtain u where u: "block_round a t = Ok (concat (map words3 (buf_steps (cur_buf ?q))), u)"
    "s_axis_info u = (s_axis_info t)[a := block_stopped ?q]" "hw_stopped a u"
    using block_round_playing[OF assms(1-8) assms(1) refl refl refl, of "block_stopped ?q" "hw_stopped a", OF ck H]
    by blast
  show thesis by (rule that[OF u(1) _ u(3)], rule axis_of_list[OF u(2)]) (simp add: assms(2,3))
qed

text \<open>
  C23.  The smooth stop of a running axis whose current block is full and whose next block is filled: the
  operation asks for a deceleration of a hundred steps, but the end of the current block already counts
  a hundred, so after the rest of that block the axis stops without one step of deceleration having been
  sent.
\<close>

theorem stop_smooth_truncated:
  assumes "axis_ok a (axis a s)" and "a < 4" and "length (s_axis_info s) = 4"
    and "pdma (axis a s) = axis_channel a" and "flags_clear (axis_channel a) s" and "hw_playing a s"
    and "axis_state (axis a s) \<noteq> asStoped" and "\<not> bstopping (axis a s)"
    and "buf_count (cur_buf (axis a s)) = 100" and "buf_valid (next_buf (axis a s))"
  shows "\<exists>t u. hm_step_motor_stop_smooth a s = (True, t) \<and>
    block_round a t = Ok (concat (map words3 (buf_steps (cur_buf (axis a s)))), u) \<and>
    axis_state (axis a u) = asStoped \<and> hw_stopped a u \<and>
    motor_pos (axis a u) = motor_pos (axis a s) + (if motor_dir (axis a s) = rdCW then 100 else - 100)"
proof -
  let ?p = "axis a s"
  define t where "t = upd_axis a smooth_plan s"
  have al: "a < length (s_axis_info s)" using assms(2,3) by simp
  have op: "hm_step_motor_stop_smooth a s = (True, t)"
    using assms(2,7,8) by (simp add: hm_step_motor_stop_smooth_def hm_step_motor_state_def HM_MAX_AXIS_def t_def)
  have at: "axis a t = smooth_plan ?p" by (rule axis_of_list[OF _ al]) (simp add: t_def)
  have okt: "axis_ok a (axis a t)" using assms(1) by (simp add: axis_ok_def at)
  have hw: "dma t = dma s" "tim t = tim s" "DMA1_ISR t = DMA1_ISR s" by (simp_all add: t_def)
  have play: "hw_playing a t"
    using assms(6) by (simp add: hw_playing_def at hw Let_def dma_enabled_def tim_enabled_def)
  have fl: "flags_clear (axis_channel a) t" using assms(5) by (simp add: flags_clear_def DMA_GetITStatus_def hw)
  have fill: "fill_next (axis a t) = Ok (axis a t)" using axis_ok_bufs(2)[OF okt] assms(10) at by (simp add: fill_next_def)
  have nz: "dma_buf_len (cur_buf (axis a t)) \<noteq> 0" using assms(9) at by (auto simp: buf_count_def)
  have "unat (ucast (dma_buf_len (cur_buf ?p) div 3) :: u32) = 100" unfolding unat_block_steps by (rule assms(9))
  then have h: "ucast (dma_buf_len (cur_buf ?p) div 3) = (100 :: u32)" by (simp add: word_unat_eq_iff)
  have fin: "\<not> more_steps (counted (axis a t))" using h by (simp add: more_steps_def at counted_def HM_INVALID_STEP_def)
  have lt: "length (s_axis_info t) = 4" and pt: "pdma (axis a t) = axis_channel a"
    using assms(3,4) at by (simp_all add: t_def)
  obtain u where u: "block_round a t = Ok (concat (map words3 (buf_steps (cur_buf (axis a t)))), u)"
    "axis a u = block_stopped (axis a t)" "hw_stopped a u"
    by (rule last_round[OF okt assms(2) lt pt fl play nz fill fin])
  have "motor_pos (block_stopped (axis a t)) = motor_pos ?p + (if motor_dir ?p = rdCW then 100 else - 100)"
    using h at by (simp add: block_stopped_def counted_def signed_steps_def)
  then show ?thesis using op u at by (intro exI[of _ t] exI[of _ u]) (simp add: block_stopped_def)
qed

section \<open>A running bench\<close>

text \<open>Axis 0 of the bench in the middle of a run: both blocks full, \<open>n\<close> words of the current one left.\<close>

definition bench_running :: "u32 \<Rightarrow> motor_st" where
  "bench_running n = bench\<lparr>
     s_axis_info := (s_axis_info bench)[0 := (bench_axis 0)\<lparr>axis_state := asRuning, steps_request := HM_INVALID_STEP,
       dma_bufs := replicate 2 (buf_zero\<lparr>dma_buf_len := 300, buf_valid := True\<rparr>)\<rparr>],
     dma := (\<lambda>c. dma_reset\<lparr>CCR := 1, CNDTR := n, CMAR := DmaBuf 0 0\<rparr>), tim := (\<lambda>t. tim_reset\<lparr>CR1 := 1\<rparr>)\<rparr>"

lemma bench_running_axis [simp]:
  "axis 0 (bench_running n) = (bench_axis 0)\<lparr>axis_state := asRuning, steps_request := HM_INVALID_STEP,
       dma_bufs := replicate 2 (buf_zero\<lparr>dma_buf_len := 300, buf_valid := True\<rparr>)\<rparr>"
  "length (s_axis_info (bench_running n)) = 4" "DMA1_ISR (bench_running n) = 0"
  "dma (bench_running n) c = dma_reset\<lparr>CCR := 1, CNDTR := n, CMAR := DmaBuf 0 0\<rparr>"
  "tim (bench_running n) t = tim_reset\<lparr>CR1 := 1\<rparr>"
  by (simp_all add: bench_running_def axis_def del: axis_list)

lemma bench_running_ok: "axis_ok 0 (axis 0 (bench_running n))"
  using bench_ok[of 0] by (auto simp: axis_ok_def buf_ok_def buf_zero_def)

lemma bench_running_bufs:
  "unat (dma_buf_idx (bench_axis 0)) = 0" "motor_pos (bench_axis 0) = 0" "motor_dir (bench_axis 0) = rdCW"
  "pdma (bench_axis 0) = DMA1_Channel5" "dma_buf_idx (bench_axis 0) = 0"
  by (simp_all add: bench_axis_def axis_zero_def)

lemma stop_sudden_exact_witness:
  "\<exists>t. hm_step_motor_stop_sundden 0 (bench_running 180) = Ok (True, t) \<and> motor_pos (axis 0 t) = 40"
  using stop_sudden_exact[of 0 "bench_running 180", OF bench_running_ok]
  by (auto simp: bench_running_bufs dma_enabled_def)

lemma stop_race_witness:
  "\<exists>t u. hm_step_motor_stop_sundden 0 ((bench_running 0)\<lparr>DMA1_ISR := DMA1_IT_TC DMA1_Channel5\<rparr>) = Ok (True, t) \<and>
    dma_channel_irq DMA1_Channel5 0 t = Ok u \<and> hw_playing 0 u \<and> axis_state (axis 0 u) = asStoped"
proof -
  let ?s = "(bench_running 0)\<lparr>DMA1_ISR := DMA1_IT_TC DMA1_Channel5\<rparr>"
  have ax: "axis 0 ?s = axis 0 (bench_running 0)" by (simp add: axis_def del: axis_list)
  show ?thesis
    using stop_race[of 0 ?s DMA1_Channel5] bench_running_ok[of 0] unfolding ax
    by (auto simp: DMA_GetITStatus_def DMA1_IT_TC_def DMA1_IT_HT_def)
qed

lemma stop_smooth_truncated_witness:
  "\<exists>t u. hm_step_motor_stop_smooth 0 (bench_running 300) = (True, t) \<and>
    block_round 0 t = Ok (concat (map words3 (buf_steps (cur_buf (axis 0 (bench_running 300))))), u) \<and>
    axis_state (axis 0 u) = asStoped \<and> motor_pos (axis 0 u) = 100"
proof -
  have "hw_playing 0 (bench_running 300)"
    by (simp add: hw_playing_def bench_running_bufs dma_enabled_def tim_enabled_def)
  moreover have "flags_clear (axis_channel 0) (bench_running 300)"
    by (simp add: flags_clear_def DMA_GetITStatus_def)
  moreover have "buf_count (cur_buf (axis 0 (bench_running 300))) = 100" "\<not> bstopping (bench_axis 0)"
    by (simp_all add: buf_count_def bench_running_bufs) (simp add: bench_axis_def axis_zero_def)
  ultimately show ?thesis
    using stop_smooth_truncated[OF bench_running_ok, of 300]
    by (auto simp: bench_running_bufs)
qed

end
