(* ===== verification/Motor_Limits.thy ===== *)
theory Motor_Limits
  imports Motor_Stops
begin

text \<open>
  The switches of the axes, the second half of \<^verbatim>\<open>hm_step_motor_limit_operation.c\<close>: the interrupt
  handlers of the external lines, the search for the axis a line belongs to, and the check of all
  switches that a timer calls.

  \<open>hm_motor_limit_check_loop\<close> is empty in this build (\<open>CHECK_IN_MAIN\<close> is not defined).
\<close>

section \<open>Definitions\<close>

text \<open>The stop a switch asks for; whatever switch it is, the mode of the CW switch decides.\<close>

definition limit_stop :: "nat \<Rightarrow> 'a motor_st_scheme \<Rightarrow> 'a motor_st_scheme res" where
  "limit_stop a s =
     (if truth (bStopImmediatelyCW (hw_of a s)) then bnd (hm_step_motor_stop_sundden a s) (\<lambda>(_, s). Ok s)
      else Ok (snd (hm_step_motor_stop_smooth a s)))"

text \<open>One condition of the handler: the line is the one of the switch, and the switch is hit.\<close>

definition line_hit ::
  "bool \<Rightarrow> ('a motor_st_scheme \<Rightarrow> (bool \<times> 'a motor_st_scheme) res) \<Rightarrow> 'a motor_st_scheme \<Rightarrow>
     (bool \<times> 'a motor_st_scheme) res" where
  "line_hit mine hit s = (if mine then hit s else Ok (False, s))"

definition extern_stops ::
  "irq_fn \<Rightarrow> u32 \<Rightarrow> nat \<Rightarrow> 'a motor_st_scheme \<Rightarrow> (bool \<times> 'a motor_st_scheme) res" where
  "extern_stops fn l a s =
     (let bRunning = (axis_state (axis a s) = asRuning) in
      bnd (line_hit (irpFunCW (hw_of a s) = fn \<and> extLineCW (hw_of a s) = l) (hm_motor_hit_CW a) s) (\<lambda>(hit, s).
      let bdostop = (hit \<and> bRunning \<and> motor_dir (axis a s) = rdCW) in
      bnd (line_hit (irpFunCCW (hw_of a s) = fn \<and> extLineCCW (hw_of a s) = l) (hm_motor_hit_CCW a) s) (\<lambda>(hit, s).
      let bdostop = (bdostop \<or> hit \<and> bRunning \<and> motor_dir (axis a s) = rdCCW) in
      bnd (line_hit (irpFunHome (hw_of a s) = fn \<and> extLineHome (hw_of a s) = l) (hm_motor_hit_Home a) s) (\<lambda>(hit, s).
      Ok (bdostop \<or> hit \<and> bRunning \<and> bdo_home (axis a s), s)))))"

text \<open>The first axis that stops ends the loop.\<close>

fun extern_loop :: "irq_fn \<Rightarrow> u32 \<Rightarrow> nat list \<Rightarrow> 'a motor_st_scheme \<Rightarrow> 'a motor_st_scheme res" where
  "extern_loop fn l [] s = Ok s"
| "extern_loop fn l (a # as) s =
     bnd (extern_stops fn l a s) (\<lambda>(bdostop, s).
       if bdostop then limit_stop a s else extern_loop fn l as s)"

definition handler_extern_irq :: "irq_fn \<Rightarrow> u32 \<Rightarrow> 'a motor_st_scheme \<Rightarrow> 'a motor_st_scheme res" where
  "handler_extern_irq fn l = extern_loop fn l [0..<HM_MAX_AXIS]"

definition serve_line :: "irq_fn \<Rightarrow> u32 \<Rightarrow> 'a motor_st_scheme \<Rightarrow> 'a motor_st_scheme res" where
  "serve_line fn l s =
     (let s = disable_irq s;
          s = EXTI_ClearITPendingBit l s
      in bnd (handler_extern_irq fn l s) (\<lambda>s. Ok (enable_irq s)))"

definition EXTI0_IRQHandler :: "'a motor_st_scheme \<Rightarrow> 'a motor_st_scheme res" where
  "EXTI0_IRQHandler s =
     (if EXTI_GetITStatus (EXTI_Line_no 0) s then serve_line EXTI0_fn (EXTI_Line_no 0) s else Ok s)"

definition EXTI1_IRQHandler :: "'a motor_st_scheme \<Rightarrow> 'a motor_st_scheme res" where
  "EXTI1_IRQHandler s =
     (if EXTI_GetITStatus (EXTI_Line_no 1) s then serve_line EXTI1_fn (EXTI_Line_no 1) s else Ok s)"

definition EXTI2_IRQHandler :: "'a motor_st_scheme \<Rightarrow> 'a motor_st_scheme res" where
  "EXTI2_IRQHandler s =
     (if EXTI_GetITStatus (EXTI_Line_no 2) s then serve_line EXTI2_fn (EXTI_Line_no 2) s else Ok s)"

definition EXTI3_IRQHandler :: "'a motor_st_scheme \<Rightarrow> 'a motor_st_scheme res" where
  "EXTI3_IRQHandler s =
     (if EXTI_GetITStatus (EXTI_Line_no 3) s then serve_line EXTI3_fn (EXTI_Line_no 3) s else Ok s)"

definition EXTI4_IRQHandler :: "'a motor_st_scheme \<Rightarrow> 'a motor_st_scheme res" where
  "EXTI4_IRQHandler s =
     (if EXTI_GetITStatus (EXTI_Line_no 4) s then serve_line EXTI4_fn (EXTI_Line_no 4) s else Ok s)"

text \<open>The first pending line of a group, or the value that stands for none.\<close>

fun pending_line :: "nat list \<Rightarrow> u32 \<Rightarrow> 'a hw_st_scheme \<Rightarrow> u32" where
  "pending_line [] extline s = extline"
| "pending_line (n # ns) extline s =
     pending_line ns
       (if extline = 0xffff \<and> EXTI_GetITStatus (EXTI_Line_no n) s then EXTI_Line_no n else extline) s"

definition EXTI9_5_IRQHandler :: "'a motor_st_scheme \<Rightarrow> 'a motor_st_scheme res" where
  "EXTI9_5_IRQHandler s =
     (let extline = pending_line [5, 6, 7, 8, 9] 0xffff s in
      if extline \<noteq> 0xffff then serve_line EXTI9_5_fn extline s else Ok s)"

definition EXTI15_10_IRQHandler :: "'a motor_st_scheme \<Rightarrow> 'a motor_st_scheme res" where
  "EXTI15_10_IRQHandler s =
     (let extline = pending_line [10, 11, 12, 13, 14, 15] 0xffff s in
      if extline \<noteq> 0xffff then serve_line EXTI15_10_fn extline s else Ok s)"

text \<open>The check of one axis; the home switch stops on its level or on its edge.\<close>

definition home_check :: "nat \<Rightarrow> 'a motor_st_scheme \<Rightarrow> (bool \<times> 'a motor_st_scheme) res" where
  "home_check a s =
     (if bdo_home (axis a s)
      then bnd (hm_motor_hit_Home a s) (\<lambda>(bhitHome, s).
        Ok (bhitHome \<and> (\<not> blast_hit_home (hw_of a s) \<or> truth (bhome_stop_low_triger (axis a s))),
            upd_hw a (\<lambda>c. c\<lparr>blast_hit_home := bhitHome\<rparr>) s))
      else Ok (False, s))"

definition limit_check_axis :: "nat \<Rightarrow> 'a motor_st_scheme \<Rightarrow> 'a motor_st_scheme res" where
  "limit_check_axis a s =
     (if axis_state (axis a s) \<noteq> asRuning then Ok s
      else
        bnd (line_hit (motor_dir (axis a s) = rdCW) (hm_motor_hit_CW a) s) (\<lambda>(cw, s).
        bnd (line_hit (motor_dir (axis a s) = rdCCW) (hm_motor_hit_CCW a) s) (\<lambda>(ccw, s).
        bnd (home_check a s) (\<lambda>(home, s).
        if cw \<or> ccw \<or> home then limit_stop a s else Ok s))))"

definition hm_motor_limit_logical_check :: "'a motor_st_scheme \<Rightarrow> 'a motor_st_scheme res" where
  "hm_motor_limit_logical_check = for_each limit_check_axis [0..<HM_MAX_AXIS]"

section \<open>Which switch a line belongs to\<close>

datatype switch = SwCW | SwCCW | SwHome

fun sw_no :: "switch \<Rightarrow> nat" where
  "sw_no SwCW = 0"
| "sw_no SwCCW = 1"
| "sw_no SwHome = 2"

definition sw_line :: "nat \<Rightarrow> switch \<Rightarrow> nat" where
  "sw_line a sw = (if a < 3 then 3 * a else 10) + sw_no sw"

definition line_fn :: "nat \<Rightarrow> irq_fn" where
  "line_fn k = (if k = 0 then EXTI0_fn else if k = 1 then EXTI1_fn else if k = 2 then EXTI2_fn
     else if k = 3 then EXTI3_fn else if k = 4 then EXTI4_fn else if k < 10 then EXTI9_5_fn else EXTI15_10_fn)"

definition wired :: "nat \<Rightarrow> hm_step_motor_hw_config \<Rightarrow> bool" where
  "wired a c \<longleftrightarrow>
     irpFunCW c = line_fn (sw_line a SwCW) \<and> extLineCW c = EXTI_Line_no (sw_line a SwCW) \<and>
     irpFunCCW c = line_fn (sw_line a SwCCW) \<and> extLineCCW c = EXTI_Line_no (sw_line a SwCCW) \<and>
     irpFunHome c = line_fn (sw_line a SwHome) \<and> extLineHome c = EXTI_Line_no (sw_line a SwHome)"

definition all_wired :: "'a motor_st_scheme \<Rightarrow> bool" where
  "all_wired s \<longleftrightarrow> length (s_axis_info s) = 4 \<and> (\<forall>a < 4. wired a (hw_of a s))"

lemma less_4_cases: "a < (4 :: nat) \<Longrightarrow> a = 0 \<or> a = 1 \<or> a = 2 \<or> a = 3"
  by linarith

lemma wired_config: "a < 4 \<Longrightarrow> wired a (limit_config a c)"
  by (drule less_4_cases) (auto simp: wired_def limit_config_def limit_config_0_def limit_config_1_def
      limit_config_2_def limit_config_3_def line_fn_def sw_line_def numeral_2_eq_2)

fun sw_hit :: "switch \<Rightarrow> nat \<Rightarrow> 'a motor_st_scheme \<Rightarrow> (bool \<times> 'a motor_st_scheme) res" where
  "sw_hit SwCW = hm_motor_hit_CW"
| "sw_hit SwCCW = hm_motor_hit_CCW"
| "sw_hit SwHome = hm_motor_hit_Home"

text \<open>The axis moves towards the switch.\<close>

fun sw_toward :: "switch \<Rightarrow> hm_step_info \<Rightarrow> bool" where
  "sw_toward SwCW p \<longleftrightarrow> motor_dir p = rdCW"
| "sw_toward SwCCW p \<longleftrightarrow> motor_dir p = rdCCW"
| "sw_toward SwHome p \<longleftrightarrow> bdo_home p"

text \<open>What an edge of a switch is to do, and the switch of a line.\<close>

definition switch_event :: "nat \<Rightarrow> switch \<Rightarrow> 'a motor_st_scheme \<Rightarrow> 'a motor_st_scheme res" where
  "switch_event a sw s = bnd (sw_hit sw a s) (\<lambda>(hit, s).
     if hit \<and> axis_state (axis a s) = asRuning \<and> sw_toward sw (axis a s) then limit_stop a s else Ok s)"

definition line_switch :: "nat \<Rightarrow> (nat \<times> switch) option" where
  "line_switch k =
     (if k < 9 then Some (k div 3, [SwCW, SwCCW, SwHome] ! (k mod 3))
      else if 10 \<le> k \<and> k < 13 then Some (3, [SwCW, SwCCW, SwHome] ! (k - 10)) else None)"

definition line_event :: "nat \<Rightarrow> 'a motor_st_scheme \<Rightarrow> 'a motor_st_scheme res" where
  "line_event k s = (case line_switch k of None \<Rightarrow> Ok s | Some (a, sw) \<Rightarrow> switch_event a sw s)"

lemma EXTI_Line_no_inj: "m < 32 \<Longrightarrow> n < 32 \<Longrightarrow> EXTI_Line_no m = EXTI_Line_no n \<longleftrightarrow> m = n"
  using bit_EXTI_Line_no by metis

lemma sw_line_less: "sw_line a sw < 16"
  by (cases sw) (auto simp: sw_line_def)

lemma sw_line_inj: "a < 4 \<Longrightarrow> b < 4 \<Longrightarrow> sw_line a x = sw_line b y \<longleftrightarrow> a = b \<and> x = y"
  by (drule less_4_cases, drule less_4_cases) (cases x; cases y; auto simp: sw_line_def)

lemma line_switch_of: "a < 4 \<Longrightarrow> line_switch (sw_line a sw) = Some (a, sw)"
  by (drule less_4_cases) (cases sw; auto simp: line_switch_def sw_line_def)

lemma line_switch_iff:
  assumes "line_switch k = Some (a, sw)"
  shows "k = sw_line a sw \<and> a < 4"
proof -
  have "k < 13" using assms by (auto simp: line_switch_def split: if_splits)
  then have "k = 0 \<or> k = 1 \<or> k = 2 \<or> k = 3 \<or> k = 4 \<or> k = 5 \<or> k = 6 \<or> k = 7 \<or> k = 8 \<or> k = 9 \<or> k = 10 \<or>
      k = 11 \<or> k = 12" by presburger
  then show ?thesis using assms by (elim disjE) (auto simp: line_switch_def sw_line_def)
qed

section \<open>The search finds the axis\<close>

lemma extern_stops_one:
  assumes "a < length (s_axis_info s)"
    and "(irpFunCW (hw_of a s) = fn \<and> extLineCW (hw_of a s) = l) = (which = Some SwCW)"
    and "(irpFunCCW (hw_of a s) = fn \<and> extLineCCW (hw_of a s) = l) = (which = Some SwCCW)"
    and "(irpFunHome (hw_of a s) = fn \<and> extLineHome (hw_of a s) = l) = (which = Some SwHome)"
  shows "extern_stops fn l a s = (case which of None \<Rightarrow> Ok (False, s)
    | Some sw \<Rightarrow> bnd (sw_hit sw a s) (\<lambda>(hit, s).
        Ok (hit \<and> axis_state (axis a s) = asRuning \<and> sw_toward sw (axis a s), s)))"
proof (cases which)
  case None
  then show ?thesis
    by (simp only: extern_stops_def line_hit_def Let_def assms(2-4) option.simps if_False bnd_Ok prod.case simp_thms)
next
  case (Some sw)
  then show ?thesis
    by (cases sw) (simp_all only: extern_stops_def line_hit_def Let_def assms(2-4) option.simps if_False if_True
      bnd_Ok prod.case simp_thms switch.simps sw_hit.simps sw_toward.simps hm_motor_hit_CW_def hm_motor_hit_CCW_def
      hm_motor_hit_Home_def on_axis_in[OF assms(1)] hit_switch_eq axis_reads conj_assoc)
qed

lemma extern_stops_eq:
  assumes w: "wired a (hw_of a s)" and a: "a < length (s_axis_info s)" and k: "k < 16"
    and which: "\<And>sw. which = Some sw \<longleftrightarrow> k = sw_line a sw"
  shows "extern_stops (line_fn k) (EXTI_Line_no k) a s = (case which of None \<Rightarrow> Ok (False, s)
    | Some sw \<Rightarrow> bnd (sw_hit sw a s) (\<lambda>(hit, s).
        Ok (hit \<and> axis_state (axis a s) = asRuning \<and> sw_toward sw (axis a s), s)))"
proof -
  have mine: "(line_fn (sw_line a sw) = line_fn k \<and> EXTI_Line_no (sw_line a sw) = EXTI_Line_no k) \<longleftrightarrow> which = Some sw" for sw
    using EXTI_Line_no_inj[of "sw_line a sw" k] sw_line_less[of a sw] k which[of sw] by auto
  show ?thesis
    by (rule extern_stops_one[OF a]) (use w in \<open>unfold wired_def, simp_all only: mine\<close>)
qed

lemma extern_stops_mine:
  assumes "wired a (hw_of a s)" and "a < length (s_axis_info s)" and "a < 4"
  shows "extern_stops (line_fn (sw_line a sw)) (EXTI_Line_no (sw_line a sw)) a s = bnd (sw_hit sw a s) (\<lambda>(hit, s).
        Ok (hit \<and> axis_state (axis a s) = asRuning \<and> sw_toward sw (axis a s), s))"
  using extern_stops_eq[OF assms(1,2) sw_line_less, of "Some sw" a sw] assms(3) sw_line_inj by simp

lemma extern_stops_other:
  assumes "wired a (hw_of a s)" and "a < length (s_axis_info s)" and "k < 16" and "\<And>sw. k \<noteq> sw_line a sw"
  shows "extern_stops (line_fn k) (EXTI_Line_no k) a s = Ok (False, s)"
  using extern_stops_eq[OF assms(1-3), of None] assms(4) by simp

lemma sw_hit_reads:
  "a < length (s_axis_info s) \<Longrightarrow> \<exists>h n. sw_hit sw a s = Ok (h, s\<lparr>input_reads := n\<rparr>)"
  by (cases sw) (auto simp: hm_motor_hit_CW_def hm_motor_hit_CCW_def hm_motor_hit_Home_def hit_switch_eq)

lemma all_wired_reads [simp]: "all_wired (s\<lparr>input_reads := n\<rparr>) = all_wired s"
  by (simp add: all_wired_def)

lemma extern_loop_others:
  assumes "all_wired s" and "k < 16" and "\<And>a sw. a \<in> set as \<Longrightarrow> a < 4 \<and> k \<noteq> sw_line a sw"
  shows "extern_loop (line_fn k) (EXTI_Line_no k) (as @ bs) s = extern_loop (line_fn k) (EXTI_Line_no k) bs s"
  using assms(3)
proof (induction as)
  case Nil
  then show ?case by simp
next
  case (Cons a as)
  have "extern_stops (line_fn k) (EXTI_Line_no k) a s = Ok (False, s)"
    using assms(1,2) Cons.prems[of a] by (intro extern_stops_other) (auto simp: all_wired_def)
  then show ?case using Cons by simp
qed

lemma handler_mine:
  assumes "all_wired (s :: 'a motor_st_scheme)" and "a < 4"
  shows "handler_extern_irq (line_fn (sw_line a sw)) (EXTI_Line_no (sw_line a sw)) s = switch_event a sw s"
proof -
  let ?k = "sw_line a sw"
  let ?loop = "extern_loop (line_fn ?k) (EXTI_Line_no ?k)"
  have al: "a < length (s_axis_info s)" and w: "wired a (hw_of a s)" using assms by (simp_all add: all_wired_def)
  have ne: "b < 4 \<and> ?k \<noteq> sw_line b sw'" if "b \<in> set [0..<a] \<union> set [Suc a..<4]" for b sw'
    using that assms(2) sw_line_inj[of a b sw sw'] by auto
  have split: "[0..<4] = [0..<a] @ a # [Suc a..<4]"
    using assms(2) by (metis upt_add_eq_append upt_conv_Cons zero_le le_add_diff_inverse less_imp_le)
  have after: "?loop [Suc a..<4] t = Ok t" if "all_wired t" for t :: "'a motor_st_scheme"
    using extern_loop_others[OF that sw_line_less, of "[Suc a..<4]" a sw "[]"] ne by simp
  obtain h n where h: "sw_hit sw a s = Ok (h, s\<lparr>input_reads := n\<rparr>)" using sw_hit_reads[OF al] by blast
  have "?loop [0..<4] s = ?loop (a # [Suc a..<4]) s"
    unfolding split by (rule extern_loop_others[OF assms(1) sw_line_less]) (use ne in blast)
  also have "\<dots> = switch_event a sw s"
    using after assms extern_stops_mine[OF w al assms(2), of sw] h
    by (simp add: switch_event_def)
  finally show ?thesis by (simp add: handler_extern_irq_def HM_MAX_AXIS_def)
qed

lemma handler_none:
  assumes "all_wired s" and "k < 16" and "line_switch k = None"
  shows "handler_extern_irq (line_fn k) (EXTI_Line_no k) s = Ok s"
proof -
  have "k \<noteq> sw_line a sw" if "a < 4" for a sw using assms(3) line_switch_of[OF that] by auto
  then show ?thesis
    using extern_loop_others[OF assms(1,2), of "[0..<4]" "[]"] by (simp add: handler_extern_irq_def HM_MAX_AXIS_def)
qed

lemma handler_line:
  assumes "all_wired s" and "k < 16"
  shows "handler_extern_irq (line_fn k) (EXTI_Line_no k) s = line_event k s"
proof (cases "line_switch k")
  case None
  then show ?thesis using handler_none[OF assms] by (simp add: line_event_def)
next
  case (Some p)
  then obtain a sw where p: "line_switch k = Some (a, sw)" by (cases p) auto
  then show ?thesis using handler_mine[OF assms(1)] line_switch_iff[OF p] by (simp add: line_event_def)
qed

section \<open>The vector table\<close>

text \<open>The handler the interrupt of a line calls.\<close>

definition exti_vector :: "nat \<Rightarrow> 'a motor_st_scheme \<Rightarrow> 'a motor_st_scheme res" where
  "exti_vector k = (if k = 0 then EXTI0_IRQHandler else if k = 1 then EXTI1_IRQHandler
     else if k = 2 then EXTI2_IRQHandler else if k = 3 then EXTI3_IRQHandler else if k = 4 then EXTI4_IRQHandler
     else if k < 10 then EXTI9_5_IRQHandler else EXTI15_10_IRQHandler)"

text \<open>A line is the one that its handler serves: it is pending, and no line before it in the same handler is.\<close>

definition served :: "nat \<Rightarrow> 'a hw_st_scheme \<Rightarrow> bool" where
  "served k s \<longleftrightarrow> EXTI_GetITStatus (EXTI_Line_no k) s \<and>
     (\<forall>j \<in> {(if k < 5 then k else if k < 10 then 5 else 10)..<k}. \<not> EXTI_GetITStatus (EXTI_Line_no j) s)"

lemma EXTI_Line_no_valid: "EXTI_Line_no n \<noteq> 0xffff"
proof
  assume "EXTI_Line_no n = 0xffff"
  then have "bit (EXTI_Line_no n) 0 = bit (0xffff :: u32) 0" "bit (EXTI_Line_no n) 1 = bit (0xffff :: u32) 1" by simp_all
  then show False unfolding bit_EXTI_Line_no by simp
qed

lemma pending_line_found: "x \<noteq> 0xffff \<Longrightarrow> pending_line ns x s = x"
  by (induction ns arbitrary: x) simp_all

lemma pending_line_first:
  assumes "EXTI_GetITStatus (EXTI_Line_no k) s" and "\<And>j. j \<in> set ms \<Longrightarrow> \<not> EXTI_GetITStatus (EXTI_Line_no j) s"
  shows "pending_line (ms @ k # ns) 0xffff s = EXTI_Line_no k"
  using assms(2) by (induction ms) (simp_all add: assms(1) pending_line_found EXTI_Line_no_valid)

lemma pending_line_upt:
  assumes "m \<le> k" and "k < n" and "EXTI_GetITStatus (EXTI_Line_no k) s"
    and "\<forall>j \<in> {m..<k}. \<not> EXTI_GetITStatus (EXTI_Line_no j) s"
  shows "pending_line [m..<n] 0xffff s = EXTI_Line_no k"
proof -
  have "[m..<n] = [m..<k] @ k # [Suc k..<n]"
    using assms(1,2) by (metis upt_add_eq_append upt_conv_Cons le_add_diff_inverse less_imp_le)
  then show ?thesis using pending_line_first[of k s "[m..<k]" "[Suc k..<n]"] assms(3,4) by simp
qed

lemma exti_groups: "[5, 6, 7, 8, 9] = [5..<10]" "[10, 11, 12, 13, 14, 15] = [10..<16]"
  by (simp_all add: upt_rec)

lemma vector_serves:
  assumes "k < 16" and "served k s"
  shows "exti_vector k s = serve_line (line_fn k) (EXTI_Line_no k) s"
proof -
  have p: "EXTI_GetITStatus (EXTI_Line_no k) s" using assms(2) by (simp add: served_def)
  consider "k < 5" | "5 \<le> k" "k < 10" | "10 \<le> k" by linarith
  then show ?thesis
  proof cases
    case 1
    then have "k = 0 \<or> k = 1 \<or> k = 2 \<or> k = 3 \<or> k = 4" by presburger
    then show ?thesis using p
      by (elim disjE) (simp_all add: exti_vector_def line_fn_def EXTI0_IRQHandler_def EXTI1_IRQHandler_def
          EXTI2_IRQHandler_def EXTI3_IRQHandler_def EXTI4_IRQHandler_def)
  next
    case 2
    then have l: "pending_line [5..<10] 0xffff s = EXTI_Line_no k"
      using assms(2) by (intro pending_line_upt) (auto simp: served_def)
    have "EXTI9_5_IRQHandler s = serve_line EXTI9_5_fn (EXTI_Line_no k) s"
      unfolding EXTI9_5_IRQHandler_def exti_groups l Let_def using EXTI_Line_no_valid[of k] by simp
    then show ?thesis using 2 by (simp add: exti_vector_def line_fn_def)
  next
    case 3
    then have l: "pending_line [10..<16] 0xffff s = EXTI_Line_no k"
      using assms by (intro pending_line_upt) (auto simp: served_def)
    have "EXTI15_10_IRQHandler s = serve_line EXTI15_10_fn (EXTI_Line_no k) s"
      unfolding EXTI15_10_IRQHandler_def exti_groups l Let_def using EXTI_Line_no_valid[of k] by simp
    then show ?thesis using 3 by (simp add: exti_vector_def line_fn_def)
  qed
qed

lemma all_wired_ack [simp]:
  "all_wired (EXTI_ClearITPendingBit l (disable_irq s)) = all_wired s"
  by (simp add: all_wired_def)

lemma vector_dispatch:
  assumes "all_wired s" and "k < 16" and "served k s"
  shows "exti_vector k s =
    bnd (line_event k (EXTI_ClearITPendingBit (EXTI_Line_no k) (disable_irq s))) (\<lambda>t. Ok (enable_irq t))"
  using vector_serves[OF assms(2,3)] handler_line[of "EXTI_ClearITPendingBit (EXTI_Line_no k) (disable_irq s)" k] assms
  by (simp add: serve_line_def Let_def)

text \<open>
  C7.  With the wiring the set up makes, the search of the interrupt handlers through the table of the
  axes is a fixed map from lines to switches: the handler of a pending line acknowledges it with
  interrupts off, and then does what the one switch on this line asks for (lines 0 to 8 and 10 to 12,
  three for each axis), or nothing at all.
\<close>

theorem exti_dispatch:
  assumes "all_wired s" and "k < 16" and "served k s"
  shows "exti_vector k s =
    bnd (case line_switch k of
           None \<Rightarrow> Ok (EXTI_ClearITPendingBit (EXTI_Line_no k) (disable_irq s))
         | Some (a, sw) \<Rightarrow> switch_event a sw (EXTI_ClearITPendingBit (EXTI_Line_no k) (disable_irq s)))
      (\<lambda>t. Ok (enable_irq t))"
  using vector_dispatch[OF assms] by (simp add: line_event_def)

section \<open>A switch stops its axis\<close>

text \<open>The pins of a switch.\<close>

fun sw_low :: "switch \<Rightarrow> hm_step_motor_hw_config \<Rightarrow> nat \<Rightarrow> 'a hw_st_scheme \<Rightarrow> bool" where
  "sw_low SwCW c n s = low_at n (ptCW_lmt c) (pinCW_lmt c) s"
| "sw_low SwCCW c n s = low_at n (ptCCW_lmt c) (pinCCW_lmt c) s"
| "sw_low SwHome c n s = low_at n (ptHome_lmt c) (pinHome_lmt c) s"

lemma sw_hit_eq:
  "a < length (s_axis_info s) \<Longrightarrow> sw_hit sw a s =
    Ok (sw_low sw (hw_of a s) (input_reads s) s \<and> sw_low sw (hw_of a s) (Suc (input_reads s)) s,
        s\<lparr>input_reads := input_reads s + (if sw_low sw (hw_of a s) (input_reads s) s then 2 else 1)\<rparr>)"
  by (cases sw) (simp_all add: hm_motor_hit_CW_def hm_motor_hit_CCW_def hm_motor_hit_Home_def hit_switch_eq)

lemma sw_low_ack [simp]:
  "sw_low sw c n (EXTI_ClearITPendingBit l (disable_irq s)) = sw_low sw c n s"
  by (cases sw) (simp_all add: low_at_def EXTI_ClearITPendingBit_def disable_irq_def)

text \<open>A sudden stop is no business of the lines.\<close>

lemma exti_frame [simp]:
  "exti (GPIO_SetBits p m s) = exti s" "exti (GPIO_ResetBits p m s) = exti s" "exti (hm_led_chan k b s) = exti s"
  "exti (TIM_Cmd t b s) = exti s" "exti (DMA_Cmd c b s) = exti s" "exti (upd_tim t f s) = exti s"
  "exti (write_CNDTR c v s) = exti s" "exti (write_CMAR c r s) = exti s"
  by (simp_all add: GPIO_SetBits_def GPIO_ResetBits_def hm_led_chan_def hm_led_act_def Let_def TIM_Cmd_def
      DMA_Cmd_def upd_tim_def write_CNDTR_def write_CMAR_def)

lemma pins_frame [simp]:
  "pin_level (GPIO_SetBits p m s) = pin_level s" "pin_level (GPIO_ResetBits p m s) = pin_level s"
  "pin_level (hm_led_chan k b s) = pin_level s" "pin_level (TIM_Cmd t b s) = pin_level s"
  "pin_level (DMA_Cmd c b s) = pin_level s" "pin_level (upd_tim t f s) = pin_level s"
  "pin_level (write_CNDTR c v s) = pin_level s" "pin_level (write_CMAR c r s) = pin_level s"
  by (simp_all add: GPIO_SetBits_def GPIO_ResetBits_def hm_led_chan_def hm_led_act_def Let_def TIM_Cmd_def
      DMA_Cmd_def upd_tim_def write_CNDTR_def write_CMAR_def)

lemma reads_frame [simp]:
  "input_reads (GPIO_SetBits p m s) = input_reads s" "input_reads (GPIO_ResetBits p m s) = input_reads s"
  "input_reads (hm_led_chan k b s) = input_reads s" "input_reads (TIM_Cmd t b s) = input_reads s"
  "input_reads (DMA_Cmd c b s) = input_reads s" "input_reads (upd_tim t f s) = input_reads s"
  "input_reads (write_CNDTR c v s) = input_reads s" "input_reads (write_CMAR c r s) = input_reads s"
  by (simp_all add: GPIO_SetBits_def GPIO_ResetBits_def hm_led_chan_def hm_led_act_def Let_def TIM_Cmd_def
      DMA_Cmd_def upd_tim_def write_CNDTR_def write_CMAR_def)

lemma setup_frame:
  "hm_dma_setup a on s = Inr t \<Longrightarrow> exti t = exti s \<and> pin_level t = pin_level s \<and> input_reads t = input_reads s"
  by (auto simp: hm_dma_setup_def Let_def)

lemma tim_stop_frame:
  "hm_tim_start a False f s = Inr t \<Longrightarrow> exti t = exti s \<and> pin_level t = pin_level s \<and> input_reads t = input_reads s"
  by (auto simp: hm_tim_start_def hm_mark_axis_state_def on_axis_def Let_def split: if_splits)

lemma stop_sundden_frame:
  assumes "hm_step_motor_stop_sundden a s = Inr (r, t)"
  shows "exti t = exti s \<and> pin_level t = pin_level s \<and> input_reads t = input_reads s"
proof (cases "a \<ge> HM_MAX_AXIS")
  case True
  then show ?thesis using assms by (simp add: hm_step_motor_stop_sundden_def)
next
  case False
  then obtain u v f where u: "hm_dma_setup a False (upd_axis a (\<lambda>p. p\<lparr>bstopping := False\<rparr>) s) = Inr u"
    and v: "hm_tim_start a False 0 u = Inr v" and t: "t = upd_axis a f v"
    using assms unfolding hm_step_motor_stop_sundden_def Let_def by auto
  show ?thesis using setup_frame[OF u] tim_stop_frame[OF v] t by simp
qed

text \<open>
  C2.  A running axis that moves towards a switch, in the mode that stops at once, whose line is the
  one to be served and whose pin is low at both samples: the interrupt stops the axis.  Its timer and
  its channel are off, it counts as stopped, the line is no longer pending, and the other axes are as
  they were.
\<close>

theorem switch_stops:
  assumes "all_wired s" and "a < 4" and "axis_ok a (axis a s)" and "served (sw_line a sw) s"
    and "axis_state (axis a s) = asRuning" and "sw_toward sw (axis a s)"
    and "truth (bStopImmediatelyCW (hw_of a s))"
    and "sw_low sw (hw_of a s) (input_reads s) s" and "sw_low sw (hw_of a s) (Suc (input_reads s)) s"
  shows "\<exists>t. exti_vector (sw_line a sw) s = Ok t \<and> hw_stopped a t \<and> axis_state (axis a t) = asStoped \<and>
    \<not> EXTI_GetITStatus (EXTI_Line_no (sw_line a sw)) t \<and> (\<forall>b. b \<noteq> a \<longrightarrow> axis b t = axis b s)"
proof -
  let ?k = "sw_line a sw"
  let ?s = "EXTI_ClearITPendingBit (EXTI_Line_no ?k) (disable_irq s)"
  have al: "a < length (s_axis_info s)" and len: "length (s_axis_info s) = 4"
    using assms(1,2) by (simp_all add: all_wired_def)
  have ir: "input_reads ?s = input_reads s" by (simp add: EXTI_ClearITPendingBit_def disable_irq_def)
  define u where "u = ?s\<lparr>input_reads := Suc (Suc (input_reads s))\<rparr>"
  have iu: "s_axis_info u = s_axis_info s" by (simp add: u_def)
  have au: "axis b u = axis b s" for b by (rule axis_same[OF iu])
  have hit: "sw_hit sw a ?s = Ok (True, u)"
    using sw_hit_eq[of a ?s sw] assms(8,9) al ir by (simp add: u_def)
  obtain t where t: "hm_step_motor_stop_sundden a u = Ok (True, t)"
    "s_axis_info t = (s_axis_info u)[a := (axis a u)\<lparr>bstopping := False, bdo_home := False, axis_state := asStoped,
       motor_pos := motor_pos (axis a u) + signed_steps (motor_dir (axis a u))
         (passed_steps (cur_buf (axis a u))
           (if dma_enabled (pdma (axis a u)) u then ucast (CNDTR (dma u (pdma (axis a u))))
            else dma_buf_len (cur_buf (axis a u))))\<rparr>]"
    "hw_stopped a t" "DMA1_ISR t = DMA1_ISR u"
    by (rule hm_step_motor_stop_sundden_eq[of a u]) (use assms(2,3) au iu len in simp_all)
  have at: "axis_state (axis a t) = asStoped" using axis_of_list[OF t(2)] al iu by simp
  have ab: "axis b t = axis b s" if "b \<noteq> a" for b
    using that t(2) iu by (simp add: axis_def del: axis_list)
  have "exti t = exti ?s" using stop_sundden_frame[OF t(1)] by (simp add: u_def)
  then have pend: "\<not> EXTI_GetITStatus (EXTI_Line_no ?k) t"
    using EXTI_Clear_pending[of ?k ?k "disable_irq s"] sw_line_less[of a sw]
    by (simp add: EXTI_GetITStatus_def)
  have "line_event ?k ?s = Ok t"
    using hit assms(5-7) t(1) au line_switch_of[OF assms(2)]
    by (simp add: line_event_def switch_event_def limit_stop_def)
  then have "exti_vector ?k s = Ok (enable_irq t)"
    using vector_dispatch[OF assms(1) sw_line_less assms(4)] by simp
  moreover have "hw_stopped a (enable_irq t)" using t(3)
    by (simp add: hw_stopped_def dma_enabled_def tim_enabled_def enable_irq_def axis_def del: axis_list)
  ultimately show ?thesis using at ab pend
    by (intro exI[of _ "enable_irq t"]) (simp add: EXTI_GetITStatus_def enable_irq_def axis_def del: axis_list)
qed

section \<open>The periodic check\<close>

text \<open>The inputs do not change any more; a switch is closed.\<close>

definition steady :: "'a hw_st_scheme \<Rightarrow> bool" where
  "steady s \<longleftrightarrow> (\<forall>n \<ge> input_reads s. pin_level s n = pin_level s (input_reads s))"

definition closed_sw :: "switch \<Rightarrow> nat \<Rightarrow> 'a motor_st_scheme \<Rightarrow> bool" where
  "closed_sw sw a s \<longleftrightarrow> sw_low sw (hw_of a s) (input_reads s) s"

definition check_stops :: "nat \<Rightarrow> 'a motor_st_scheme \<Rightarrow> bool" where
  "check_stops a s \<longleftrightarrow> axis_state (axis a s) = asRuning \<and>
     (motor_dir (axis a s) = rdCW \<and> closed_sw SwCW a s \<or> motor_dir (axis a s) = rdCCW \<and> closed_sw SwCCW a s \<or>
      bdo_home (axis a s) \<and> closed_sw SwHome a s \<and>
        (\<not> blast_hit_home (hw_of a s) \<or> truth (bhome_stop_low_triger (axis a s))))"

text \<open>What the check leaves of an axis.\<close>

definition checked :: "nat \<Rightarrow> 'a motor_st_scheme \<Rightarrow> hm_step_info \<Rightarrow> bool" where
  "checked a s q \<longleftrightarrow>
     blast_hit_home (motor_hw_config q) =
       (if axis_state (axis a s) = asRuning \<and> bdo_home (axis a s) then closed_sw SwHome a s
        else blast_hit_home (hw_of a s)) \<and>
     (if \<not> check_stops a s
      then q = (axis a s)\<lparr>motor_hw_config := (hw_of a s)\<lparr>blast_hit_home := blast_hit_home (motor_hw_config q)\<rparr>\<rparr>
      else if truth (bStopImmediatelyCW (hw_of a s)) then axis_state q = asStoped
      else axis_state q = asRuning \<and> bstopping q)"

lemma low_at_reads [simp]: "low_at m p w (s\<lparr>input_reads := n\<rparr>) = low_at m p w s"
  by (simp add: low_at_def)

lemma sw_low_reads [simp]: "sw_low sw c m (s\<lparr>input_reads := n\<rparr>) = sw_low sw c m s"
  by (cases sw) simp_all

lemma steady_level: "steady s \<Longrightarrow> input_reads s \<le> n \<Longrightarrow> pin_level s n = pin_level s (input_reads s)"
  unfolding steady_def by blast

lemma steady_low:
  assumes "steady s" and "input_reads s \<le> n"
  shows "sw_low sw c n s = sw_low sw c (input_reads s) s"
  by (cases sw) (simp_all only: low_at_def sw_low.simps steady_level[OF assms])

lemma steady_reads:
  assumes "steady s" and "input_reads s \<le> n"
  shows "steady (s\<lparr>input_reads := n\<rparr>)"
proof -
  have "pin_level s m = pin_level s n" if "n \<le> m" for m
    by (rule trans[OF steady_level[OF assms(1)] steady_level[OF assms, symmetric]]) (use assms(2) that in linarith)
  then have "\<forall>m \<ge> n. pin_level s m = pin_level s n" by blast
  moreover have "steady (s\<lparr>input_reads := n\<rparr>) \<longleftrightarrow> (\<forall>m \<ge> n. pin_level s m = pin_level s n)" by (simp add: steady_def)
  ultimately show ?thesis by blast
qed

lemma sw_hit_steady:
  assumes "a < length (s_axis_info s)" and "steady s"
  obtains n where "sw_hit sw a s = Ok (closed_sw sw a s, s\<lparr>input_reads := n\<rparr>)" "input_reads s \<le> n"
proof -
  have "sw_low sw (hw_of a s) (Suc (input_reads s)) s = closed_sw sw a s"
    unfolding closed_sw_def by (rule steady_low[OF assms(2)]) simp
  moreover have "sw_low sw (hw_of a s) (input_reads s) s = closed_sw sw a s"
    by (simp add: closed_sw_def)
  ultimately have "sw_hit sw a s = Ok (closed_sw sw a s, s\<lparr>input_reads := input_reads s + (if closed_sw sw a s then 2 else 1)\<rparr>)"
    using sw_hit_eq[OF assms(1), of sw] by simp
  then show ?thesis by (rule that) simp
qed

lemma closed_sw_reads:
  assumes "steady s" and "input_reads s \<le> n"
  shows "closed_sw sw a (s\<lparr>input_reads := n\<rparr>) = closed_sw sw a s"
proof -
  have "closed_sw sw a (s\<lparr>input_reads := n\<rparr>) = sw_low sw (hw_of a s) n s" by (simp add: closed_sw_def)
  also have "\<dots> = closed_sw sw a s" unfolding closed_sw_def by (rule steady_low[OF assms])
  finally show ?thesis .
qed

lemma line_hit_steady:
  assumes "a < length (s_axis_info s)" and "steady s"
  obtains n where "line_hit b (sw_hit sw a) s = Ok (b \<and> closed_sw sw a s, s\<lparr>input_reads := n\<rparr>)" "input_reads s \<le> n"
proof (cases b)
  case True
  then show ?thesis using sw_hit_steady[OF assms, of sw] that by (auto simp: line_hit_def)
next
  case False
  have "s\<lparr>input_reads := input_reads s\<rparr> = s" by simp
  then show ?thesis using False that[of "input_reads s"] by (simp add: line_hit_def)
qed

text \<open>The conditions of the check.\<close>

lemma check_conditions:
  assumes a: "a < length (s_axis_info s)" and st: "steady s" and run: "axis_state (axis a s) = asRuning"
  obtains n where "limit_check_axis a s = (if check_stops a s then limit_stop a else Ok)
      (upd_hw a (\<lambda>c. c\<lparr>blast_hit_home := (if bdo_home (axis a s) then closed_sw SwHome a s else blast_hit_home c)\<rparr>)
        (s\<lparr>input_reads := n\<rparr>))"
    "input_reads s \<le> n"
proof -
  obtain n1 where n1: "line_hit (motor_dir (axis a s) = rdCW) (hm_motor_hit_CW a) s =
      Ok (motor_dir (axis a s) = rdCW \<and> closed_sw SwCW a s, s\<lparr>input_reads := n1\<rparr>)" "input_reads s \<le> n1"
    using line_hit_steady[OF a st, of "motor_dir (axis a s) = rdCW" SwCW] by auto
  let ?s1 = "s\<lparr>input_reads := n1\<rparr>"
  have a1: "a < length (s_axis_info ?s1)" using a by simp
  have st1: "steady ?s1" by (rule steady_reads[OF st n1(2)])
  obtain n2 where n2: "line_hit (motor_dir (axis a s) = rdCCW) (hm_motor_hit_CCW a) ?s1 =
      Ok (motor_dir (axis a s) = rdCCW \<and> closed_sw SwCCW a s, s\<lparr>input_reads := n2\<rparr>)" "n1 \<le> n2"
    using line_hit_steady[OF a1 st1, of "motor_dir (axis a s) = rdCCW" SwCCW] closed_sw_reads[OF st n1(2)]
    by auto
  let ?s2 = "s\<lparr>input_reads := n2\<rparr>"
  have a2: "a < length (s_axis_info ?s2)" and le2: "input_reads s \<le> n2" using a n1(2) n2(2) by simp_all
  have st2: "steady ?s2" by (rule steady_reads[OF st le2])
  obtain n3 where n3: "hm_motor_hit_Home a ?s2 = Ok (closed_sw SwHome a s, s\<lparr>input_reads := n3\<rparr>)" "n2 \<le> n3"
    using sw_hit_steady[OF a2 st2, of SwHome] closed_sw_reads[OF st le2] by auto
  show ?thesis
  proof (cases "bdo_home (axis a s)")
    case True
    then have "limit_check_axis a s = (if check_stops a s then limit_stop a else Ok)
      (upd_hw a (\<lambda>c. c\<lparr>blast_hit_home := (if bdo_home (axis a s) then closed_sw SwHome a s else blast_hit_home c)\<rparr>)
        (s\<lparr>input_reads := n3\<rparr>))"
      using run n1(1) n2(1) n3(1) by (auto simp add: limit_check_axis_def home_check_def check_stops_def)
    then show ?thesis using that le2 n3(2) by auto
  next
    case False
    have "upd_hw a (\<lambda>c. c\<lparr>blast_hit_home := blast_hit_home c\<rparr>) ?s2 = ?s2"
      using a by (simp add: upd_hw_def upd_axis_def)
    then have "limit_check_axis a s = (if check_stops a s then limit_stop a else Ok)
      (upd_hw a (\<lambda>c. c\<lparr>blast_hit_home := (if bdo_home (axis a s) then closed_sw SwHome a s else blast_hit_home c)\<rparr>) ?s2)"
      using False run n1(1) n2(1) by (simp add: limit_check_axis_def home_check_def check_stops_def)
    then show ?thesis using that le2 by auto
  qed
qed


text \<open>The inputs stay as they are, and nothing is switched on.\<close>

definition calm :: "'a hw_st_scheme \<Rightarrow> 'a hw_st_scheme \<Rightarrow> bool" where
  "calm s t \<longleftrightarrow> steady t \<and> pin_level t (input_reads t) = pin_level s (input_reads s) \<and>
     (\<forall>c. dma_enabled c t \<longrightarrow> dma_enabled c s) \<and> (\<forall>x. tim_enabled x t \<longrightarrow> tim_enabled x s)"

lemma calm_refl: "steady s \<Longrightarrow> calm s s"
  by (simp add: calm_def)

lemma calm_trans: "calm s t \<Longrightarrow> calm t u \<Longrightarrow> calm s u"
  unfolding calm_def by metis

lemma calm_closed:
  assumes "calm s t" and "hw_of a t = hw_of a s"
  shows "closed_sw sw a t = closed_sw sw a s"
proof -
  have "pin_level t (input_reads t) = pin_level s (input_reads s)" using assms(1) unfolding calm_def by blast
  then show ?thesis unfolding closed_sw_def assms(2) by (cases sw) (simp_all only: sw_low.simps low_at_def)
qed

lemma calm_stopped:
  assumes "calm s t" and "hw_stopped a s" and "pdma (axis a t) = pdma (axis a s)" "ptim (axis a t) = ptim (axis a s)"
  shows "hw_stopped a t"
  using assms unfolding calm_def hw_stopped_def by auto

lemma calm_same_env:
  assumes "steady s" and "pin_level t = pin_level s" and "input_reads t = input_reads s"
    and "\<And>c. dma_enabled c t \<Longrightarrow> dma_enabled c s" and "\<And>x. tim_enabled x t \<Longrightarrow> tim_enabled x s"
  shows "calm s t"
  using assms unfolding calm_def steady_def by metis

lemma calm_upd_axis: "steady s \<Longrightarrow> calm s (upd_axis a f s)"
  by (rule calm_same_env) simp_all

lemma calm_reads:
  assumes "steady s" and "input_reads s \<le> n"
  shows "calm s (s\<lparr>input_reads := n\<rparr>)"
proof -
  have "pin_level (s\<lparr>input_reads := n\<rparr>) (input_reads (s\<lparr>input_reads := n\<rparr>)) = pin_level s n" by simp
  also have "\<dots> = pin_level s (input_reads s)" by (rule steady_level[OF assms])
  finally have "pin_level (s\<lparr>input_reads := n\<rparr>) (input_reads (s\<lparr>input_reads := n\<rparr>)) = pin_level s (input_reads s)" .
  then show ?thesis using steady_reads[OF assms] by (simp add: calm_def dma_enabled_def tim_enabled_def)
qed

lemma stop_sundden_off:
  assumes "hm_step_motor_stop_sundden a s = Inr (r, t)"
  shows "(dma_enabled c t \<longrightarrow> dma_enabled c s) \<and> (tim_enabled x t \<longrightarrow> tim_enabled x s)"
proof (cases "a \<ge> HM_MAX_AXIS")
  case True
  then show ?thesis using assms by (simp add: hm_step_motor_stop_sundden_def)
next
  case False
  then obtain u v f where u: "hm_dma_setup a False (upd_axis a (\<lambda>p. p\<lparr>bstopping := False\<rparr>) s) = Inr u"
    and v: "hm_tim_start a False 0 u = Inr v" and t: "t = upd_axis a f v"
    using assms unfolding hm_step_motor_stop_sundden_def Let_def by auto
  have "(dma_enabled c u \<longrightarrow> dma_enabled c s) \<and> (tim_enabled x u \<longrightarrow> tim_enabled x s)"
    using u by (auto simp: hm_dma_setup_def Let_def split: if_splits)
  moreover have "(dma_enabled c v \<longrightarrow> dma_enabled c u) \<and> (tim_enabled x v \<longrightarrow> tim_enabled x u)"
    using v by (auto simp: hm_tim_start_def hm_mark_axis_state_def on_axis_def Let_def split: if_splits)
  ultimately show ?thesis by (simp add: t)
qed

text \<open>Either stop, on an axis that runs.\<close>

lemma limit_stop_Ok:
  assumes a: "a < 4" and len: "length (s_axis_info s) = 4" and ok: "axis_ok a (axis a s)" and st: "steady s"
    and run: "axis_state (axis a s) = asRuning"
  obtains t q where "limit_stop a s = Ok t" "s_axis_info t = (s_axis_info s)[a := q]" "calm s t"
    "motor_hw_config q = hw_of a s" "axis_ok a q"
    "if truth (bStopImmediatelyCW (hw_of a s)) then axis_state q = asStoped \<and> hw_stopped a t
     else axis_state q = asRuning \<and> bstopping q"
proof (cases "truth (bStopImmediatelyCW (hw_of a s))")
  case True
  obtain t where t: "hm_step_motor_stop_sundden a s = Ok (True, t)"
    "s_axis_info t = (s_axis_info s)[a := (axis a s)\<lparr>bstopping := False, bdo_home := False, axis_state := asStoped,
       motor_pos := motor_pos (axis a s) + signed_steps (motor_dir (axis a s))
         (passed_steps (cur_buf (axis a s))
           (if dma_enabled (pdma (axis a s)) s then ucast (CNDTR (dma s (pdma (axis a s))))
            else dma_buf_len (cur_buf (axis a s))))\<rparr>]" (is "_ = _[a := ?q]")
    "hw_stopped a t" "DMA1_ISR t = DMA1_ISR s"
    by (rule hm_step_motor_stop_sundden_eq[OF ok a len])
  have "calm s t" using stop_sundden_frame[OF t(1)] stop_sundden_off[OF t(1)] by (intro calm_same_env[OF st]) auto
  moreover have "axis_ok a ?q" using ok by (simp add: axis_ok_def)
  ultimately show ?thesis using that[of t ?q] True t by (simp add: limit_stop_def)
next
  case False
  let ?q = "if bstopping (axis a s) then axis a s else smooth_plan (axis a s)"
  have "limit_stop a s = Ok (upd_axis a (\<lambda>_. ?q) s)"
    using False a len run by (simp add: limit_stop_def hm_step_motor_stop_smooth_def HM_MAX_AXIS_def
      hm_step_motor_state_def upd_axis_def)
  moreover have "axis_ok a ?q" using ok by (simp add: axis_ok_def smooth_plan_def)
  ultimately show ?thesis using that[of "upd_axis a (\<lambda>_. ?q) s" ?q] False run calm_upd_axis[OF st]
    by (simp add: smooth_plan_def)
qed

lemma limit_check_step:
  assumes a: "a < 4" and len: "length (s_axis_info s) = 4" and ok: "axis_ok a (axis a s)" and st: "steady s"
  obtains t q where "limit_check_axis a s = Ok t" "s_axis_info t = (s_axis_info s)[a := q]" "calm s t"
    "checked a s q" "axis_ok a q" "check_stops a s \<and> truth (bStopImmediatelyCW (hw_of a s)) \<longrightarrow> hw_stopped a t"
proof (cases "axis_state (axis a s) = asRuning")
  case False
  then show ?thesis using that[of s "axis a s"] ok calm_refl[OF st]
    by (simp add: limit_check_axis_def checked_def check_stops_def)
next
  case True
  have al: "a < length (s_axis_info s)" using a len by simp
  let ?g = "\<lambda>c. c\<lparr>blast_hit_home := (if bdo_home (axis a s) then closed_sw SwHome a s else blast_hit_home c)\<rparr>"
  obtain n where n: "limit_check_axis a s = (if check_stops a s then limit_stop a else Ok) (upd_hw a ?g (s\<lparr>input_reads := n\<rparr>))"
    "input_reads s \<le> n" by (rule check_conditions[OF al st True])
  define u where "u = upd_hw a ?g (s\<lparr>input_reads := n\<rparr>)"
  let ?p = "(axis a s)\<lparr>motor_hw_config := ?g (hw_of a s)\<rparr>"
  have iu: "s_axis_info u = (s_axis_info s)[a := ?p]" by (simp add: u_def)
  have au: "axis a u = ?p" by (rule axis_of_list[OF iu al])
  have cu: "calm s u" unfolding u_def upd_hw_def
    using calm_reads[OF st n(2)] calm_upd_axis[OF steady_reads[OF st n(2)]] by (blast intro: calm_trans)
  have su: "steady u" using cu by (simp add: calm_def)
  have lu: "length (s_axis_info u) = 4" using iu len by simp
  have oku: "axis_ok a (axis a u)" using ok by (simp add: au axis_ok_def)
  show ?thesis
  proof (cases "check_stops a s")
    case False
    have "checked a s ?p" using False True by (simp add: checked_def)
    then show ?thesis using that[OF _ iu cu] n(1) False oku au by (simp add: u_def)
  next
    case stops: True
    have run: "axis_state (axis a u) = asRuning" using True by (simp add: au)
    obtain t q where t: "limit_stop a u = Ok t" "s_axis_info t = (s_axis_info u)[a := q]" "calm u t"
      "motor_hw_config q = hw_of a u" "axis_ok a q"
      "if truth (bStopImmediatelyCW (hw_of a u)) then axis_state q = asStoped \<and> hw_stopped a t
       else axis_state q = asRuning \<and> bstopping q"
      by (rule limit_stop_Ok[OF a lu oku su run])
    have it: "s_axis_info t = (s_axis_info s)[a := q]" using t(2) iu by simp
    have "checked a s q" using stops t(4,6) True by (auto simp: checked_def au)
    moreover have "limit_check_axis a s = Ok t" using n(1) stops t(1) by (simp add: u_def)
    ultimately show ?thesis using that[OF _ it calm_trans[OF cu t(3)]] t(5,6) by (auto simp: au)
  qed
qed


lemma check_stops_same:
  assumes "calm s t" and "axis a t = axis a s"
  shows "check_stops a t = check_stops a s" and "checked a t q = checked a s q"
proof -
  have c: "closed_sw sw a t = closed_sw sw a s" for sw
    by (rule calm_closed[OF assms(1)]) (simp add: assms(2))
  show e: "check_stops a t = check_stops a s" by (simp add: check_stops_def c assms(2))
  show "checked a t q = checked a s q" by (simp add: checked_def e c assms(2))
qed

lemma check_loop:
  assumes "distinct as" and "\<forall>a \<in> set as. a < 4" and "length (s_axis_info s) = 4" and "steady s"
    and "\<forall>a < 4. axis_ok a (axis a s)"
  obtains t where "for_each limit_check_axis as s = Ok t" "calm s t" "length (s_axis_info t) = 4"
    "\<forall>a < 4. a \<notin> set as \<longrightarrow> axis a t = axis a s" "\<forall>a < 4. axis_ok a (axis a t)"
    "\<forall>a \<in> set as. checked a s (axis a t) \<and> (check_stops a s \<and> truth (bStopImmediatelyCW (hw_of a s)) \<longrightarrow> hw_stopped a t)"
  using assms
proof (induction as arbitrary: s thesis)
  case Nil
  show ?case by (rule Nil.prems(1)[of s]) (use Nil.prems calm_refl in auto)
next
  case (Cons a as)
  have a: "a < 4" and ok: "axis_ok a (axis a s)" using Cons.prems by auto
  obtain t q where t: "limit_check_axis a s = Ok t" "s_axis_info t = (s_axis_info s)[a := q]" "calm s t"
    "checked a s q" "axis_ok a q" "check_stops a s \<and> truth (bStopImmediatelyCW (hw_of a s)) \<longrightarrow> hw_stopped a t"
    by (rule limit_check_step[OF a Cons.prems(4) ok Cons.prems(5)])
  have at: "axis a t = q" by (rule axis_of_list[OF t(2)]) (simp add: a Cons.prems(4))
  have bt: "axis b t = axis b s" if "b \<noteq> a" for b using that t(2) by (simp add: axis_def del: axis_list)
  have lt: "length (s_axis_info t) = 4" using t(2) Cons.prems(4) by simp
  have okt: "\<forall>b < 4. axis_ok b (axis b t)" using at bt t(5) Cons.prems(6) by metis
  obtain u where u: "for_each limit_check_axis as t = Ok u" "calm t u" "length (s_axis_info u) = 4"
    "\<forall>b < 4. b \<notin> set as \<longrightarrow> axis b u = axis b t" "\<forall>b < 4. axis_ok b (axis b u)"
    "\<forall>b \<in> set as. checked b t (axis b u) \<and> (check_stops b t \<and> truth (bStopImmediatelyCW (hw_of b t)) \<longrightarrow> hw_stopped b u)"
    using Cons.IH[of t] Cons.prems(2,3) lt t(3) okt by (auto simp: calm_def)
  have na: "a \<notin> set as" using Cons.prems(2) by simp
  have au: "axis a u = q" using u(4) na a at by simp
  have stop: "check_stops a s \<and> truth (bStopImmediatelyCW (hw_of a s)) \<longrightarrow> hw_stopped a u"
    using t(6) calm_stopped[OF u(2)] au at by auto
  have rest: "checked b s (axis b u) \<and> (check_stops b s \<and> truth (bStopImmediatelyCW (hw_of b s)) \<longrightarrow> hw_stopped b u)"
    if "b \<in> set as" for b
  proof -
    have ne: "b \<noteq> a" using that na by auto
    show ?thesis using u(6) that bt[OF ne] check_stops_same[OF t(3) bt[OF ne]] by metis
  qed
  show ?case
  proof (rule Cons.prems(1))
    show "for_each limit_check_axis (a # as) s = Ok u" using t(1) u(1) by simp
    show "\<forall>b \<in> set (a # as). checked b s (axis b u) \<and>
        (check_stops b s \<and> truth (bStopImmediatelyCW (hw_of b s)) \<longrightarrow> hw_stopped b u)"
      using rest stop t(4) au by auto
    show "\<forall>b < 4. b \<notin> set (a # as) \<longrightarrow> axis b u = axis b s" using u(4) bt by auto
  qed (use u calm_trans[OF t(3) u(2)] in auto)
qed

text \<open>One run of the check.\<close>

lemma limit_check_run:
  assumes "motor_ok s" and "steady s"
  shows "\<exists>t. hm_motor_limit_logical_check s = Ok t \<and> motor_ok t \<and>
    (\<forall>a < 4. checked a s (axis a t) \<and>
       (check_stops a s \<and> truth (bStopImmediatelyCW (hw_of a s)) \<longrightarrow> hw_stopped a t))"
proof -
  have s: "length (s_axis_info s) = 4" "\<forall>a < 4. axis_ok a (axis a s)" using assms(1) by (simp_all add: motor_ok_def)
  obtain t where t: "for_each limit_check_axis [0..<4] s = Ok t" "calm s t" "length (s_axis_info t) = 4"
    "\<forall>a < 4. a \<notin> set [0..<4] \<longrightarrow> axis a t = axis a s" "\<forall>a < 4. axis_ok a (axis a t)"
    "\<forall>a \<in> set [0..<4]. checked a s (axis a t) \<and>
       (check_stops a s \<and> truth (bStopImmediatelyCW (hw_of a s)) \<longrightarrow> hw_stopped a t)"
    by (rule check_loop[OF _ _ s(1) assms(2) s(2), of "[0..<4]"]) (simp, simp, blast)
  have "hm_motor_limit_logical_check s = Ok t"
    using t(1) by (simp only: hm_motor_limit_logical_check_def HM_MAX_AXIS_def)
  moreover have "motor_ok t" using t(3,5) by (simp add: motor_ok_def)
  ultimately show ?thesis using t(6) by (intro exI[of _ t]) auto
qed

text \<open>
  C3.  One run of the periodic check with inputs that do not change: it returns; every running axis
  that moves towards a closed switch is stopped, at once or smoothly as its mode says, a homing run on
  the edge or on the level of the home switch; every other axis keeps its state, its position and its
  plan, only the memory of the home switch is brought up to date.
\<close>

theorem limit_check_correct:
  assumes "motor_ok s" and "steady s"
  shows "\<exists>t. hm_motor_limit_logical_check s = Ok t \<and> motor_ok t \<and>
    (\<forall>a < 4. checked a s (axis a t) \<and>
       (check_stops a s \<and> truth (bStopImmediatelyCW (hw_of a s)) \<longrightarrow> hw_stopped a t))"
  by (rule limit_check_run[OF assms])

section \<open>The bench with a switch closed\<close>

text \<open>
  The four axes of the bench, axis 0 running into its CW switch: the pin is low, line 0 is pending and
  enabled.
\<close>

definition bench_hit :: motor_st where
  "bench_hit = (bench_running 180)\<lparr>pin_level := (\<lambda>n p. 0xFFFE), exti := \<lparr>IMR = 1, EMR = 0, RTSR = 0, FTSR = 1, PR = 1\<rparr>\<rparr>"

lemma bench_hit_axis: "axis a bench_hit = axis a (bench_running 180)" "length (s_axis_info bench_hit) = 4"
  by (simp_all add: bench_hit_def axis_def del: axis_list)

lemma bench_running_hw: "a < 4 \<Longrightarrow> motor_hw_config (axis a (bench_running n)) = limit_config a hw_config_zero"
  by (drule less_4_cases) (auto simp: bench_running_def axis_def bench_def bench_axis_def upt_rec numeral_2_eq_2 numeral_3_eq_3
      simp del: axis_list)

lemma bench_hit_wired: "all_wired bench_hit"
  by (simp add: all_wired_def bench_hit_axis bench_running_hw wired_config)

lemma bench_hit_state: "axis_state (axis 0 bench_hit) = asRuning" "motor_dir (axis 0 bench_hit) = rdCW"
  "truth (bStopImmediatelyCW (hw_of 0 bench_hit))" "ptCW_lmt (hw_of 0 bench_hit) = GPIOD" "pinCW_lmt (hw_of 0 bench_hit) = 1"
  by (simp_all add: bench_hit_axis bench_running_bufs)
    (simp_all add: bench_axis_def limit_config_def limit_config_0_def GPIO_Pin_no_def truth_def)

lemma bench_hit_low: "low_at n GPIOD 1 bench_hit"
  by (simp add: low_at_def bench_hit_def)

lemma bench_hit_served: "served 0 bench_hit"
  by (simp add: served_def EXTI_GetITStatus_def bench_hit_def EXTI_Line_no_def)

lemma exti_dispatch_witness:
  "exti_vector 0 bench_hit = bnd (switch_event 0 SwCW (EXTI_ClearITPendingBit (EXTI_Line_no 0) (disable_irq bench_hit)))
     (\<lambda>t. Ok (enable_irq t))"
  using exti_dispatch[OF bench_hit_wired _ bench_hit_served] by (simp add: line_switch_def)

lemma switch_stops_witness:
  "\<exists>t. exti_vector 0 bench_hit = Ok t \<and> hw_stopped 0 t \<and> axis_state (axis 0 t) = asStoped"
  using switch_stops[OF bench_hit_wired, of 0 SwCW] bench_running_ok bench_hit_served bench_hit_state bench_hit_low
  by (auto simp: sw_line_def bench_hit_axis)

lemma bench_hit_ok: "motor_ok bench_hit"
proof -
  have "axis_ok a (axis a bench_hit)" if a: "a < 4" for a
  proof (cases "a = 0")
    case True
    then show ?thesis using bench_running_ok by (simp only: bench_hit_axis)
  next
    case False
    then have "axis a bench_hit = bench_axis a" using a bench_axes(2)[OF a]
      by (simp add: bench_hit_def bench_running_def axis_def del: axis_list)
    then show ?thesis using bench_ok[OF a] by simp
  qed
  then show ?thesis by (simp add: motor_ok_def bench_hit_axis)
qed

lemma limit_check_correct_witness:
  "\<exists>t. hm_motor_limit_logical_check bench_hit = Ok t \<and> hw_stopped 0 t \<and> axis_state (axis 0 t) = asStoped"
proof -
  have st: "steady bench_hit" by (simp add: steady_def bench_hit_def)
  have "check_stops 0 bench_hit"
    using bench_hit_state bench_hit_low by (simp add: check_stops_def closed_sw_def)
  then show ?thesis using limit_check_correct[OF bench_hit_ok st] bench_hit_state by (auto simp: checked_def)
qed

end
