(* ===== verification/Motor_Init.thy ===== *)
theory Motor_Init
  imports Motor_Limits
begin

text \<open>
  The set up of the motors at power up: the rest of \<^verbatim>\<open>hm_step_motor.c\<close>.  Every axis gets the pins of its
  switches, its timer, its channel; all of them end at rest, which is where the theorems on moves and
  runs start.

  The priorities and enables of the interrupt controller are not modelled.
\<close>

section \<open>Definitions\<close>

definition RCC_AHBPeriph_DMA1 :: u32 where "RCC_AHBPeriph_DMA1 = 0x1"
definition RCC_APB2Periph_GPIOA :: u32 where "RCC_APB2Periph_GPIOA = 0x4"
definition RCC_APB2Periph_TIM1 :: u32 where "RCC_APB2Periph_TIM1 = 0x800"
definition RCC_APB1Periph_TIM2 :: u32 where "RCC_APB1Periph_TIM2 = 0x1"
definition RCC_APB1Periph_TIM3 :: u32 where "RCC_APB1Periph_TIM3 = 0x2"
definition RCC_APB1Periph_TIM4 :: u32 where "RCC_APB1Periph_TIM4 = 0x4"
definition GPIO_FullRemap_TIM1 :: u32 where "GPIO_FullRemap_TIM1 = 0x001600C0"

definition hw_info_common :: "nat \<Rightarrow> hm_step_info \<Rightarrow> hm_step_info" where
  "hw_info_common a p = p\<lparr>rcc_mod := 0, rcc_mod1 := 0, rcc_mod2 := 0, nhw_ch := 1, remap := 0,
     axis_idx := word_of_nat a, motor_method := TCurve\<rparr>"

definition hw_info_axis :: "nat \<Rightarrow> hm_step_info \<Rightarrow> hm_step_info" where
  "hw_info_axis a p =
     (if a = 0 then p\<lparr>port_pul := GPIOE, ptim := TIM1, pul_pin := GPIO_Pin_no 9, pdma := DMA1_Channel5,
        rcc_mod2 := ucast (RCC_APB2Periph_TIM1 OR RCC_APB2Periph_GPIOA OR RCC_APB2Periph_GPIOE OR RCC_APB2Periph_AFIO),
        rcc_mod := ucast RCC_AHBPeriph_DMA1, remap := GPIO_FullRemap_TIM1, nhw_ch := 1\<rparr>
      else if a = 1 then p\<lparr>port_pul := GPIOA, ptim := TIM2, pdma := DMA1_Channel2, pul_pin := GPIO_Pin_no 0,
        rcc_mod2 := ucast RCC_APB2Periph_GPIOA, rcc_mod1 := ucast RCC_APB1Periph_TIM2,
        rcc_mod := ucast RCC_AHBPeriph_DMA1, nhw_ch := 1\<rparr>
      else if a = 2 then p\<lparr>port_pul := GPIOA, ptim := TIM3, pdma := DMA1_Channel3, pul_pin := GPIO_Pin_no 6,
        rcc_mod1 := ucast RCC_APB1Periph_TIM3, rcc_mod := ucast RCC_AHBPeriph_DMA1\<rparr>
      else if a = 3 then p\<lparr>port_pul := GPIOB, ptim := TIM4, pdma := DMA1_Channel7, pul_pin := GPIO_Pin_no 6,
        rcc_mod1 := ucast RCC_APB1Periph_TIM4, rcc_mod := ucast RCC_AHBPeriph_DMA1,
        rcc_mod2 := ucast RCC_APB2Periph_GPIOB\<rparr>
      else p)"

definition hw_info_clocks :: "hm_step_info \<Rightarrow> hm_step_info" where
  "hw_info_clocks p = p\<lparr>rcc_mod1 := rcc_mod1 p OR hw_rcc_mod1 (motor_hw_config p),
     rcc_mod2 := rcc_mod2 p OR hw_rcc_mod2 (motor_hw_config p)\<rparr>"

definition hm_motor_hw_info_init :: "nat \<Rightarrow> 'a motor_st_scheme \<Rightarrow> 'a motor_st_scheme res" where
  "hm_motor_hw_info_init a s =
     bnd (hm_motor_hw_limit_config a s) (\<lambda>s.
       let s = upd_axis a (hw_info_common a) s;
           s = hm_step_motor_set_home_stop_mode a 1 s;
           s = upd_axis a (hw_info_axis a) s
       in Ok (upd_axis a hw_info_clocks s))"

definition data_init :: "hm_step_info \<Rightarrow> hm_step_info" where
  "data_init p = p\<lparr>run_state := rsSTOP, motor_dir := rdCW, motor_pos := 0, HM_STEP_FRE := HM_STEP_FRE_INIT,
     stop_accel := HM_STOP_ACCEL_VALUE, dma_fill := 0, dma_bufs := map buf_empty (dma_bufs p), dma_buf_idx := 0\<rparr>"

definition hm_motor_data_init :: "nat \<Rightarrow> 'a motor_st_scheme \<Rightarrow> 'a motor_st_scheme res" where
  "hm_motor_data_init a s =
     bnd (hm_mark_axis_state a asStoped s) (\<lambda>s. Ok (upd_axis a data_init s))"

definition tim_init_clocks :: "hm_step_info \<Rightarrow> 'a hw_st_scheme \<Rightarrow> 'a hw_st_scheme" where
  "tim_init_clocks p s =
     (let s = (if truth (rcc_mod p) then RCC_AHBPeriphClockCmd (ucast (rcc_mod p)) ENABLE s else s);
          s = (if truth (rcc_mod2 p) then RCC_APB2PeriphClockCmd (ucast (rcc_mod2 p)) ENABLE s else s);
          s = (if truth (rcc_mod2 p) then RCC_APB1PeriphClockCmd (ucast (rcc_mod1 p)) ENABLE s else s)
      in if truth (remap p) then GPIO_PinRemapConfig (remap p) ENABLE s else s)"

definition tim_init_pin :: "hm_step_info \<Rightarrow> 'a hw_st_scheme \<Rightarrow> 'a hw_st_scheme" where
  "tim_init_pin p = GPIO_Init (port_pul p)
     (GPIO_StructInit\<lparr>GPIO_Pin := pul_pin p, GPIO_Mode := GPIO_Mode_AF_PP, GPIO_Speed := GPIO_Speed_50MHz\<rparr>)"

definition tim_init_base :: "u64 \<Rightarrow> TIM_TimeBaseInitTypeDef" where
  "tim_init_base q = TIM_TimeBaseStructInit\<lparr>TIM_Period := 0xFFFF, TIM_Prescaler := ucast q - 1,
     TIM_ClockDivision := 0, TIM_CounterMode := 0\<rparr>"

definition tim_init_oc :: TIM_OCInitTypeDef where
  "tim_init_oc = TIM_OCStructInit\<lparr>TIM_OCMode := 0x0060, TIM_OutputState := 0x0001, TIM_Pulse := 0xFFF\<rparr>"

definition tim_init_dma :: "nat \<Rightarrow> hm_step_info \<Rightarrow> DMA_InitTypeDef" where
  "tim_init_dma a p = \<lparr>DMA_PeripheralBaseAddr = TimDmar (ptim p), DMA_MemoryBaseAddr = DmaBuf a 0,
     DMA_DIR = 0x10, DMA_BufferSize = word_of_nat (HM_DMA_BUF_UNIT_SIZE * HM_DMA_BUF_SIZE),
     DMA_PeripheralInc = 0, DMA_MemoryInc = 0x80, DMA_PeripheralDataSize = 0x100, DMA_MemoryDataSize = 0x400,
     DMA_Mode = 0, DMA_Priority = 0x2000, DMA_M2M = 0\<rparr>"

definition tim_init_timer :: "hm_step_info \<Rightarrow> u64 \<Rightarrow> 'a hw_st_scheme \<Rightarrow> 'a hw_st_scheme" where
  "tim_init_timer p q s =
     (let t = ptim p;
          s = TIM_DeInit t s;
          s = TIM_TimeBaseInit t (tim_init_base q) s;
          s = (if nhw_ch p = 1 then TIM_OC1Init t tim_init_oc s
               else if nhw_ch p = 2 then TIM_OC2Init t tim_init_oc s
               else if nhw_ch p = 3 then TIM_OC3Init t tim_init_oc s
               else if nhw_ch p = 4 then TIM_OC4Init t tim_init_oc s
               else s);
          s = TIM_ARRPreloadConfig t DISABLE s;
          s = TIM_DMAConfig t 0x000B 0x0200 s;
          s = TIM_DMACmd t 0x0100 ENABLE s
      in TIM_CtrlPWMOutputs t ENABLE s)"

definition tim_init_channel :: "nat \<Rightarrow> hm_step_info \<Rightarrow> 'a hw_st_scheme \<Rightarrow> 'a hw_st_scheme" where
  "tim_init_channel a p s =
     (let s = DMA_DeInit (pdma p) s;
          s = DMA_Init (pdma p) (tim_init_dma a p) s
      in DMA_ITConfig (pdma p) (0x2 OR 0x4) ENABLE s)"

definition tim_init_one :: "nat \<Rightarrow> 'a motor_st_scheme \<Rightarrow> 'a motor_st_scheme res" where
  "tim_init_one a s =
     (let p = axis a s;
          s = tim_init_clocks p s;
          s = tim_init_pin p s
      in bnd (udiv_res (ucast SystemCoreClock) (HM_STEP_FRE p)) (\<lambda>q.
           hm_motor_hw_limit_init a (tim_init_channel a p (tim_init_timer p q s))))"

definition hm_motor_tim_init :: "'a motor_st_scheme \<Rightarrow> 'a motor_st_scheme res" where
  "hm_motor_tim_init = for_each tim_init_one [0..<HM_MAX_AXIS]"

definition hm_step_motor_init :: "'a motor_st_scheme \<Rightarrow> 'a motor_st_scheme res" where
  "hm_step_motor_init s =
     bnd (for_each (\<lambda>a s. bnd (hm_motor_hw_info_init a s) (hm_motor_data_init a)) [0..<HM_MAX_AXIS] s)
       hm_motor_tim_init"


section \<open>The description of an axis\<close>

definition init_axis :: "nat \<Rightarrow> hm_step_info \<Rightarrow> hm_step_info" where
  "init_axis a p = data_init ((hw_info_clocks (hw_info_axis a
     ((hw_info_common a (p\<lparr>motor_hw_config := limit_config a (motor_hw_config p)\<rparr>))
        \<lparr>bhome_stop_low_triger := 1\<rparr>)))\<lparr>axis_state := asStoped\<rparr>)"

lemma info_data_init:
  assumes "a < 4" and "length (s_axis_info s) = 4"
  shows "bnd (hm_motor_hw_info_init a s) (hm_motor_data_init a) = Ok (upd_axis a (init_axis a) s)"
  using assms by (simp add: hm_motor_hw_info_init_def hm_motor_hw_limit_config_def hm_motor_data_init_def
      hm_mark_axis_state_def hm_step_motor_set_home_stop_mode_def HM_MAX_AXIS_def upd_hw_def init_axis_def [abs_def] Let_def)

lemma for_each_upd_axis:
  assumes "distinct as" and "\<forall>a \<in> set as. a < 4" and "length (s_axis_info s) = 4"
    and "\<And>a s. a \<in> set as \<Longrightarrow> length (s_axis_info s) = 4 \<Longrightarrow> f a s = Ok (upd_axis a (g a) s)"
  shows "\<exists>t. for_each f as s = Ok t \<and> length (s_axis_info t) = 4 \<and> exti t = exti s \<and>
    (\<forall>a. axis a t = (if a \<in> set as then g a (axis a s) else axis a s))"
  using assms
proof (induction as arbitrary: s)
  case Nil
  then show ?case by simp
next
  case (Cons a as)
  let ?u = "upd_axis a (g a) s"
  have len: "length (s_axis_info ?u) = 4" using Cons.prems(3) by simp
  obtain t where t: "for_each f as ?u = Ok t" "length (s_axis_info t) = 4" "exti t = exti ?u"
    "\<forall>b. axis b t = (if b \<in> set as then g b (axis b ?u) else axis b ?u)"
    using Cons.IH[OF _ _ len] Cons.prems by auto
  have "axis b t = (if b \<in> set (a # as) then g b (axis b s) else axis b s)" for b
    using t(4) Cons.prems(1-3) by auto
  then show ?case using t(1-3) Cons.prems(3,4) by (intro exI[of _ t]) simp
qed

lemma init_axis_sel [simp]:
  "motor_pos (init_axis a p) = 0" "axis_state (init_axis a p) = asStoped" "motor_method (init_axis a p) = TCurve"
  "bhome_stop_low_triger (init_axis a p) = 1" "motor_hw_config (init_axis a p) = limit_config a (motor_hw_config p)"
  "axis_idx (init_axis a p) = word_of_nat a" "dma_bufs (init_axis a p) = map buf_empty (dma_bufs p)"
  "dma_buf_idx (init_axis a p) = 0" "HM_STEP_FRE (init_axis a p) = 1000000" "run_state (init_axis a p) = rsSTOP"
  by (simp_all add: init_axis_def data_init_def hw_info_clocks_def hw_info_axis_def hw_info_common_def
      HM_STEP_FRE_INIT_def)

lemma init_axis_wires:
  "a < 4 \<Longrightarrow> pdma (init_axis a p) = axis_channel a"
  "a < 4 \<Longrightarrow> ptim (init_axis a p) = [TIM1, TIM2, TIM3, TIM4] ! a" "nhw_ch (init_axis a p) = 1"
  by (drule less_4_cases; auto simp: init_axis_def data_init_def hw_info_clocks_def hw_info_axis_def
      hw_info_common_def numeral_2_eq_2 numeral_3_eq_3)+
    (simp_all add: init_axis_def data_init_def hw_info_clocks_def hw_info_axis_def hw_info_common_def)

section \<open>Hardware\<close>

text \<open>Nothing is switched on and no flag is raised.\<close>

definition quiet :: "'a hw_st_scheme \<Rightarrow> 'a hw_st_scheme \<Rightarrow> bool" where
  "quiet s t \<longleftrightarrow> (\<forall>c. dma_enabled c t \<longrightarrow> dma_enabled c s) \<and> (\<forall>x. tim_enabled x t \<longrightarrow> tim_enabled x s) \<and>
     (\<forall>k. bit (DMA1_ISR t) k \<longrightarrow> bit (DMA1_ISR s) k)"

lemma quiet_trans: "quiet s t \<Longrightarrow> quiet t u \<Longrightarrow> quiet s u"
  by (simp add: quiet_def)

lemma same_hw_quiet: "same_hw s t \<Longrightarrow> quiet s t"
  using same_hw_enabled[of s t] by (simp add: quiet_def) (simp add: same_hw_def)

lemma quiet_flags: "quiet s t \<Longrightarrow> flags_clear c s \<Longrightarrow> flags_clear c t"
  unfolding quiet_def flags_clear_def flag_status by blast

lemma same_hw_drivers [simp]:
  "same_hw s (RCC_AHBPeriphClockCmd m b t) = same_hw s t" "same_hw s (RCC_APB1PeriphClockCmd m b t) = same_hw s t"
  "same_hw s (RCC_APB2PeriphClockCmd m b t) = same_hw s t" "same_hw s (GPIO_Init p i t) = same_hw s t"
  "same_hw s (GPIO_EXTILineConfig x y t) = same_hw s t" "same_hw s (EXTI_Init ei t) = same_hw s t"
  by (simp_all add: same_hw_def RCC_AHBPeriphClockCmd_def RCC_APB1PeriphClockCmd_def RCC_APB2PeriphClockCmd_def
      GPIO_Init_def GPIO_EXTILineConfig_def EXTI_Init_def Let_def)

lemma remap_frame [simp]:
  "same_hw s (GPIO_PinRemapConfig r b t) = same_hw s t" "exti (GPIO_PinRemapConfig r b t) = exti t"
  "gpio (GPIO_PinRemapConfig r b t) = gpio t" "s_axis_info (GPIO_PinRemapConfig r b u) = s_axis_info u"
  by (simp_all add: same_hw_def GPIO_PinRemapConfig_def Let_def)

lemma axis_clock_cmds [simp]:
  "s_axis_info (RCC_AHBPeriphClockCmd m b s) = s_axis_info s" "s_axis_info (RCC_APB1PeriphClockCmd m b s) = s_axis_info s"
  "s_axis_info (RCC_APB2PeriphClockCmd m b s) = s_axis_info s"
  by (simp_all add: RCC_AHBPeriphClockCmd_def RCC_APB1PeriphClockCmd_def RCC_APB2PeriphClockCmd_def)

lemma exti_clock_cmds [simp]:
  "exti (RCC_AHBPeriphClockCmd m b s) = exti s" "exti (RCC_APB1PeriphClockCmd m b s) = exti s"
  "exti (RCC_APB2PeriphClockCmd m b s) = exti s" "exti (GPIO_Init p i s) = exti s"
  "exti (GPIO_EXTILineConfig x y s) = exti s"
  by (simp_all add: RCC_AHBPeriphClockCmd_def RCC_APB1PeriphClockCmd_def RCC_APB2PeriphClockCmd_def GPIO_Init_def
      GPIO_EXTILineConfig_def Let_def)

lemma clocks_frame: "same_hw s (tim_init_clocks p s)" "exti (tim_init_clocks p s) = exti s"
    "s_axis_info (tim_init_clocks p s') = s_axis_info s'"
  by (simp_all add: tim_init_clocks_def Let_def)

lemma pin_frame: "same_hw s (tim_init_pin p s)" "exti (tim_init_pin p s) = exti s"
    "s_axis_info (tim_init_pin p s') = s_axis_info s'"
  by (simp_all add: tim_init_pin_def)

text \<open>The timer of the axis is off after its set up, the others are untouched.\<close>

lemma tim_op_frame [simp]:
  "dma (TIM_DeInit x s) = dma s" "dma (TIM_TimeBaseInit x i s) = dma s" "dma (TIM_OC1Init x j s) = dma s"
  "dma (TIM_OC2Init x j s) = dma s" "dma (TIM_OC3Init x j s) = dma s" "dma (TIM_OC4Init x j s) = dma s"
  "dma (TIM_ARRPreloadConfig x b s) = dma s" "dma (TIM_DMAConfig x v w s) = dma s" "dma (TIM_DMACmd x v b s) = dma s"
  "dma (TIM_CtrlPWMOutputs x b s) = dma s"
  by (simp_all add: TIM_DeInit_def TIM_TimeBaseInit_def TIM_OC1Init_def TIM_OC2Init_def
      TIM_OC3Init_def TIM_OC4Init_def TIM_ARRPreloadConfig_def TIM_DMAConfig_def TIM_DMACmd_def TIM_CtrlPWMOutputs_def)

lemma upd_tim_ISR [simp]: "DMA1_ISR (upd_tim x f s) = DMA1_ISR s" "exti (upd_tim x f s) = exti s"
    "gpio (upd_tim x f s) = gpio s" "EXTICR (upd_tim x f s) = EXTICR s"
  by (simp_all add: upd_tim_def)

lemma tim_op_frame2 [simp]:
  "DMA1_ISR (TIM_DeInit x s) = DMA1_ISR s" "DMA1_ISR (TIM_TimeBaseInit x i s) = DMA1_ISR s" "DMA1_ISR (TIM_OC1Init x j s) = DMA1_ISR s"
  "DMA1_ISR (TIM_OC2Init x j s) = DMA1_ISR s" "DMA1_ISR (TIM_OC3Init x j s) = DMA1_ISR s" "DMA1_ISR (TIM_OC4Init x j s) = DMA1_ISR s"
  "DMA1_ISR (TIM_ARRPreloadConfig x b s) = DMA1_ISR s" "DMA1_ISR (TIM_DMAConfig x v w s) = DMA1_ISR s"
  "DMA1_ISR (TIM_DMACmd x v b s) = DMA1_ISR s" "DMA1_ISR (TIM_CtrlPWMOutputs x b s) = DMA1_ISR s"
  "exti (TIM_DeInit x s) = exti s" "exti (TIM_TimeBaseInit x i s) = exti s" "exti (TIM_OC1Init x j s) = exti s"
  "exti (TIM_OC2Init x j s) = exti s" "exti (TIM_OC3Init x j s) = exti s" "exti (TIM_OC4Init x j s) = exti s"
  "exti (TIM_ARRPreloadConfig x b s) = exti s" "exti (TIM_DMAConfig x v w s) = exti s"
  "exti (TIM_DMACmd x v b s) = exti s" "exti (TIM_CtrlPWMOutputs x b s) = exti s"
  by (simp_all add: TIM_DeInit_def TIM_TimeBaseInit_def TIM_OC1Init_def TIM_OC2Init_def
      TIM_OC3Init_def TIM_OC4Init_def TIM_ARRPreloadConfig_def TIM_DMAConfig_def TIM_DMACmd_def TIM_CtrlPWMOutputs_def)

lemma tim_op_axes [simp]:
  "s_axis_info (TIM_DeInit x s) = s_axis_info s" "s_axis_info (TIM_TimeBaseInit x i s) = s_axis_info s" "s_axis_info (TIM_OC1Init x j s) = s_axis_info s"
  "s_axis_info (TIM_OC2Init x j s) = s_axis_info s" "s_axis_info (TIM_OC3Init x j s) = s_axis_info s" "s_axis_info (TIM_OC4Init x j s) = s_axis_info s"
  "s_axis_info (TIM_ARRPreloadConfig x b s) = s_axis_info s" "s_axis_info (TIM_DMAConfig x v w s) = s_axis_info s"
  "s_axis_info (TIM_DMACmd x v b s) = s_axis_info s" "s_axis_info (TIM_CtrlPWMOutputs x b s) = s_axis_info s"
  by (simp_all add: TIM_DeInit_def TIM_TimeBaseInit_def TIM_OC1Init_def TIM_OC2Init_def
      TIM_OC3Init_def TIM_OC4Init_def TIM_ARRPreloadConfig_def TIM_DMAConfig_def TIM_DMACmd_def TIM_CtrlPWMOutputs_def)

lemma tim_op_enabled [simp]:
  "tim_enabled y (TIM_DeInit x s) \<longleftrightarrow> y \<noteq> x \<and> tim_enabled y s"
  "tim_enabled y (TIM_TimeBaseInit x (tim_init_base q) s) = tim_enabled y s"
  "tim_enabled y (TIM_OC1Init x j s) = tim_enabled y s" "tim_enabled y (TIM_OC2Init x j s) = tim_enabled y s"
  "tim_enabled y (TIM_OC3Init x j s) = tim_enabled y s" "tim_enabled y (TIM_OC4Init x j s) = tim_enabled y s"
  "tim_enabled y (TIM_ARRPreloadConfig x b s) = tim_enabled y s" "tim_enabled y (TIM_DMAConfig x v w s) = tim_enabled y s"
  "tim_enabled y (TIM_DMACmd x v b s) = tim_enabled y s" "tim_enabled y (TIM_CtrlPWMOutputs x b s) = tim_enabled y s"
  by (simp_all add: tim_enabled_def upd_tim_def TIM_DeInit_def TIM_TimeBaseInit_def TIM_OC1Init_def TIM_OC2Init_def
      TIM_OC3Init_def TIM_OC4Init_def TIM_ARRPreloadConfig_def TIM_DMAConfig_def TIM_DMACmd_def TIM_CtrlPWMOutputs_def
      Let_def split_beta tim_reset_def tim_init_base_def TIM_TimeBaseStructInit_def bit_simps)

lemma timer_frame: "dma (tim_init_timer p q s) = dma s" "DMA1_ISR (tim_init_timer p q s) = DMA1_ISR s"
    "exti (tim_init_timer p q s) = exti s" "s_axis_info (tim_init_timer p q s') = s_axis_info s'"
    "tim_enabled y (tim_init_timer p q s) \<longleftrightarrow> y \<noteq> ptim p \<and> tim_enabled y s"
  by (simp_all add: tim_init_timer_def Let_def)

text \<open>The channel of the axis is off and its flags are clear.\<close>

lemma channel_frame: "tim (tim_init_channel a p s) = tim s" "exti (tim_init_channel a p s) = exti s"
    "s_axis_info (tim_init_channel a p s') = s_axis_info s'"
    "dma_enabled c (tim_init_channel a p s) \<longleftrightarrow> c \<noteq> pdma p \<and> dma_enabled c s"
    "DMA1_ISR (tim_init_channel a p s) = DMA1_ISR s AND NOT (DMA1_Channel_IT_Mask (pdma p))"
  by (simp_all add: tim_init_channel_def Let_def DMA_DeInit_def DMA_Init_def DMA_ITConfig_def write_IFCR_def
      dma_enabled_def tim_init_dma_def bit_simps)

text \<open>The lines of the three switches are enabled on the falling edge only.\<close>

definition lines :: "hm_step_motor_hw_config \<Rightarrow> nat \<Rightarrow> bool" where
  "lines c n \<longleftrightarrow> bit (extLineCW c) n \<or> bit (extLineCCW c) n \<or> bit (extLineHome c) n"

definition armed :: "(nat \<Rightarrow> bool) \<Rightarrow> exti_regs \<Rightarrow> exti_regs \<Rightarrow> bool" where
  "armed L r r' \<longleftrightarrow> (\<forall>n. (bit (IMR r') n \<longleftrightarrow> L n \<or> bit (IMR r) n) \<and> (bit (FTSR r') n \<longleftrightarrow> L n \<or> bit (FTSR r) n) \<and>
     (bit (RTSR r') n \<longleftrightarrow> bit (RTSR r) n \<and> \<not> L n))"

lemma armed_none: "armed (\<lambda>n. False) r r"
  by (simp add: armed_def)

lemma armed_trans: "armed L r r' \<Longrightarrow> armed M r' r'' \<Longrightarrow> armed (\<lambda>n. L n \<or> M n) r r''"
  unfolding armed_def by blast

lemma armed_exti: "armed (bit l) (exti s) (exti (EXTI_Init (limit_exti True l) s))"
  using EXTI_Init_enables[of "limit_exti True l" s] EXTI_Init_falling[of "limit_exti True l" s]
  by (simp add: armed_def limit_exti_def)

lemma armed_limits: "armed (lines c) (exti s) (exti (limit_exti_all True c s))"
proof -
  have "armed (\<lambda>n. (bit (extLineCW c) n \<or> bit (extLineCCW c) n) \<or> bit (extLineHome c) n)
      (exti s) (exti (limit_exti_all True c s))"
    unfolding limit_exti_all_def Let_def by (rule armed_trans[OF armed_trans[OF armed_exti armed_exti] armed_exti])
  moreover have "(\<lambda>n. (bit (extLineCW c) n \<or> bit (extLineCCW c) n) \<or> bit (extLineHome c) n) = lines c"
    by (auto simp: lines_def)
  ultimately show ?thesis by simp
qed

lemma enable_config:
  assumes "a < 4" and "length (s_axis_info s) = 4"
  obtains t where "snd (hm_motor_enable_axis a True s) = t" "exti t = exti s" "same_hw s t"
    "s_axis_info t = (s_axis_info s)[a := (axis a s)\<lparr>motor_hw_config := (hw_of a s)\<lparr>benabled := True\<rparr>\<rparr>]"
proof (cases "benabled (hw_of a s)")
  case True
  then have same: "(axis a s)\<lparr>motor_hw_config := (hw_of a s)\<lparr>benabled := True\<rparr>\<rparr> = axis a s" by simp
  show ?thesis
  proof (rule that)
    show "snd (hm_motor_enable_axis a True s) = s" using assms True by (simp add: hm_motor_enable_axis_def HM_MAX_AXIS_def)
    show "s_axis_info s = (s_axis_info s)[a := (axis a s)\<lparr>motor_hw_config := (hw_of a s)\<lparr>benabled := True\<rparr>\<rparr>]"
      unfolding same by simp
  qed simp_all
next
  case False
  then show ?thesis using assms
    by (intro that[of "snd (hm_motor_enable_axis a True s)"]) (simp_all add: hm_motor_enable_axis_def HM_MAX_AXIS_def)
qed

lemma limits_frame: "same_hw s (limit_gpio c s)" "same_hw s (limit_mux c s)" "same_hw s (limit_exti_all b c s)"
    "exti (limit_gpio c s) = exti s" "exti (limit_mux c s) = exti s"
    "s_axis_info (limit_gpio c s') = s_axis_info s'" "s_axis_info (limit_mux c s') = s_axis_info s'"
    "s_axis_info (limit_exti_all b c s') = s_axis_info s'"
  by (simp_all add: limit_gpio_def limit_mux_def limit_exti_all_def Let_def)

lemma tim_init_one_Ok:
  assumes a: "a < 4" and len: "length (s_axis_info s) = 4" and f: "HM_STEP_FRE (axis a s) = 1000000"
  obtains t where "tim_init_one a s = Ok t"
    "s_axis_info t = (s_axis_info s)[a := (axis a s)\<lparr>motor_hw_config := (hw_of a s)\<lparr>benabled := True\<rparr>\<rparr>]"
    "quiet s t" "\<not> dma_enabled (pdma (axis a s)) t" "\<not> tim_enabled (ptim (axis a s)) t"
    "flags_clear (pdma (axis a s)) t" "armed (lines (hw_of a s)) (exti s) (exti t)"
proof -
  let ?p = "axis a s"
  obtain q where q: "udiv_res (ucast SystemCoreClock) (HM_STEP_FRE ?p) = Ok q" using f by (simp add: udiv_res_def)
  define u where "u = tim_init_channel a ?p (tim_init_timer ?p q (tim_init_pin ?p (tim_init_clocks ?p s)))"
  have iu: "s_axis_info u = s_axis_info s" by (simp add: u_def clocks_frame pin_frame timer_frame channel_frame)
  have eu: "exti u = exti s" by (simp add: u_def clocks_frame pin_frame timer_frame channel_frame)
  define v where "v = limit_exti_all True (hw_of a s) (limit_mux (hw_of a s) (limit_gpio (hw_of a s) u))"
  have iv: "s_axis_info v = s_axis_info s" by (simp add: v_def limits_frame iu)
  have uv: "same_hw u v" unfolding v_def
    by (rule same_hw_trans[OF same_hw_trans[OF limits_frame(1) limits_frame(2)] limits_frame(3)])
  have ev: "armed (lines (hw_of a s)) (exti s) (exti v)"
    using armed_limits[of "hw_of a s" "limit_mux (hw_of a s) (limit_gpio (hw_of a s) u)"]
    by (simp add: v_def limits_frame eu)
  have lv: "length (s_axis_info v) = 4" using iv len by simp
  obtain t where t: "snd (hm_motor_enable_axis a True v) = t" "exti t = exti v" "same_hw v t"
    "s_axis_info t = (s_axis_info v)[a := (axis a v)\<lparr>motor_hw_config := (hw_of a v)\<lparr>benabled := True\<rparr>\<rparr>]"
    by (rule enable_config[OF a lv])
  have au: "axis a u = ?p" "axis a v = ?p" by (rule axis_same, rule iu, rule axis_same, rule iv)
  have "hm_motor_hw_limit_init a u = Ok t"
    using a len iu t(1) by (simp add: hm_motor_hw_limit_init_def Let_def au v_def)
  then have run: "tim_init_one a s = Ok t"
    unfolding tim_init_one_def Let_def q bnd_Ok u_def .
  have sc: "same_hw s (tim_init_pin ?p (tim_init_clocks ?p s))"
    by (rule same_hw_trans[OF clocks_frame(1) pin_frame(1)])
  have ut: "same_hw u t" by (rule same_hw_trans[OF uv t(3)])
  have d: "dma_enabled c t \<longleftrightarrow> c \<noteq> pdma ?p \<and> dma_enabled c s" for c
    using same_hw_enabled(1)[OF ut] same_hw_enabled(1)[OF sc]
    by (simp add: u_def channel_frame dma_enabled_same[OF timer_frame(1)])
  have e: "tim_enabled x t \<longleftrightarrow> x \<noteq> ptim ?p \<and> tim_enabled x s" for x
  proof -
    have "tim_enabled x (tim_init_channel a ?p w) = tim_enabled x w" for w :: "'a motor_st_scheme"
      by (simp add: tim_enabled_def channel_frame)
    then show ?thesis using same_hw_enabled(2)[OF ut] same_hw_enabled(2)[OF sc] by (simp add: u_def timer_frame)
  qed
  have i: "DMA1_ISR t = DMA1_ISR s AND NOT (DMA1_Channel_IT_Mask (pdma ?p))"
    using ut sc by (simp add: same_hw_def u_def channel_frame timer_frame)
  have "flags_clear (pdma ?p) t"
    unfolding flags_clear_def flag_status i DMA1_Channel_IT_Mask_def by (cases "pdma ?p") (simp_all add: bit_simps)
  moreover have "quiet s t" using d e i by (simp add: quiet_def bit_simps)
  moreover have "s_axis_info t = (s_axis_info s)[a := ?p\<lparr>motor_hw_config := (hw_of a s)\<lparr>benabled := True\<rparr>\<rparr>]"
    using t(4) iv au by simp
  ultimately show ?thesis using that[OF run] d e ev t(2) by simp
qed


lemma tim_init_loop:
  assumes "distinct as" and "\<forall>a \<in> set as. a < 4" and "length (s_axis_info s) = 4"
    and "\<forall>a \<in> set as. HM_STEP_FRE (axis a s) = 1000000"
  shows "\<exists>t. for_each tim_init_one as s = Ok t \<and> length (s_axis_info t) = 4 \<and> quiet s t \<and>
    armed (\<lambda>n. \<exists>a \<in> set as. lines (hw_of a s) n) (exti s) (exti t) \<and>
    (\<forall>a. axis a t = (if a \<in> set as then (axis a s)\<lparr>motor_hw_config := (hw_of a s)\<lparr>benabled := True\<rparr>\<rparr> else axis a s)) \<and>
    (\<forall>a \<in> set as. \<not> dma_enabled (pdma (axis a s)) t \<and> \<not> tim_enabled (ptim (axis a s)) t \<and>
       flags_clear (pdma (axis a s)) t)"
  using assms
proof (induction as arbitrary: s)
  case Nil
  then show ?case by (simp add: quiet_def armed_none)
next
  case (Cons a as)
  have a: "a < 4" and f: "HM_STEP_FRE (axis a s) = 1000000" and na: "a \<notin> set as" using Cons.prems by auto
  obtain u where u: "tim_init_one a s = Ok u"
    "s_axis_info u = (s_axis_info s)[a := (axis a s)\<lparr>motor_hw_config := (hw_of a s)\<lparr>benabled := True\<rparr>\<rparr>]"
    "quiet s u" "\<not> dma_enabled (pdma (axis a s)) u" "\<not> tim_enabled (ptim (axis a s)) u"
    "flags_clear (pdma (axis a s)) u" "armed (lines (hw_of a s)) (exti s) (exti u)"
    by (rule tim_init_one_Ok[OF a Cons.prems(3) f])
  have au: "axis a u = (axis a s)\<lparr>motor_hw_config := (hw_of a s)\<lparr>benabled := True\<rparr>\<rparr>"
    by (rule axis_of_list[OF u(2)]) (simp add: a Cons.prems(3))
  have bu: "axis b u = axis b s" if "b \<noteq> a" for b using that u(2) by (simp add: axis_def del: axis_list)
  have bs: "axis b u = axis b s" if "b \<in> set as" for b using bu that na by metis
  obtain t where t: "for_each tim_init_one as u = Ok t" "length (s_axis_info t) = 4" "quiet u t"
    "armed (\<lambda>n. \<exists>b \<in> set as. lines (hw_of b u) n) (exti u) (exti t)"
    "\<forall>b. axis b t = (if b \<in> set as then (axis b u)\<lparr>motor_hw_config := (hw_of b u)\<lparr>benabled := True\<rparr>\<rparr> else axis b u)"
    "\<forall>b \<in> set as. \<not> dma_enabled (pdma (axis b u)) t \<and> \<not> tim_enabled (ptim (axis b u)) t \<and> flags_clear (pdma (axis b u)) t"
    using Cons.IH[of u] Cons.prems u(2) bs by auto
  have L: "(\<lambda>n. lines (hw_of a s) n \<or> (\<exists>b \<in> set as. lines (hw_of b u) n)) =
      (\<lambda>n. \<exists>b \<in> set (a # as). lines (hw_of b s) n)" using bs by auto
  have "armed (\<lambda>n. \<exists>b \<in> set (a # as). lines (hw_of b s) n) (exti s) (exti t)"
    using armed_trans[OF u(7) t(4)] unfolding L .
  moreover have "axis b t = (if b \<in> set (a # as) then (axis b s)\<lparr>motor_hw_config := (hw_of b s)\<lparr>benabled := True\<rparr>\<rparr> else axis b s)" for b
    using t(5) na au bu[of b] bs[of b] by auto
  moreover have "\<not> dma_enabled (pdma (axis b s)) t \<and> \<not> tim_enabled (ptim (axis b s)) t \<and> flags_clear (pdma (axis b s)) t"
    if "b \<in> set (a # as)" for b
  proof (cases "b = a")
    case True
    then show ?thesis using u(4-6) t(3) quiet_flags[OF t(3) u(6)] by (auto simp: quiet_def)
  next
    case False
    then show ?thesis using that t(6) bs by auto
  qed
  ultimately show ?case using u(1) t(1,2) quiet_trans[OF u(3) t(3)] by auto
qed

lemma wired_benabled [simp]: "wired a (c\<lparr>benabled := b\<rparr>) = wired a c"
  by (simp add: wired_def)

lemma lines_wired: "wired a c \<Longrightarrow> lines c n \<longleftrightarrow> (\<exists>sw. n = sw_line a sw)"
proof -
  assume w: "wired a c"
  have "(\<exists>sw. n = sw_line a sw) \<longleftrightarrow> n = sw_line a SwCW \<or> n = sw_line a SwCCW \<or> n = sw_line a SwHome"
    by (metis switch.exhaust)
  moreover have "sw_line a sw < 32" for sw using sw_line_less[of a sw] by linarith
  ultimately show ?thesis using w by (auto simp: lines_def wired_def)
qed

text \<open>The set up as a whole, with the table it leaves.\<close>

lemma init_table:
  assumes "length (s_axis_info s) = 4"
    and "\<forall>a < 4. length (dma_bufs (axis a s)) = 2 \<and> (\<forall>b \<in> set (dma_bufs (axis a s)). length (dma_buf b) = 300)"
  shows "\<exists>t. hm_step_motor_init s = Ok t \<and> all_wired t \<and> length (s_axis_info t) = 4 \<and>
    (\<forall>a < 4. axis a t = (init_axis a (axis a s))\<lparr>motor_hw_config := (limit_config a (hw_of a s))\<lparr>benabled := True\<rparr>\<rparr>) \<and>
    (\<forall>a < 4. idle a t \<and> motor_pos (axis a t) = 0 \<and> motor_method (axis a t) = TCurve \<and> benabled (hw_of a t) \<and>
       truth (bStopImmediatelyCW (hw_of a t))) \<and>
    (\<forall>n. (bit (IMR (exti t)) n \<longleftrightarrow> line_switch n \<noteq> None \<or> bit (IMR (exti s)) n) \<and>
         (line_switch n \<noteq> None \<longrightarrow> bit (FTSR (exti t)) n \<and> \<not> bit (RTSR (exti t)) n))"
proof -
  let ?f = "\<lambda>a s. bnd (hm_motor_hw_info_init a s) (hm_motor_data_init a)"
  obtain u where u: "for_each ?f [0..<4] s = Ok u" "length (s_axis_info u) = 4" "exti u = exti s"
    "\<forall>a. axis a u = (if a \<in> set [0..<4] then init_axis a (axis a s) else axis a s)"
    using for_each_upd_axis[of "[0..<4]" s ?f init_axis] assms(1) info_data_init by auto
  have au: "axis a u = init_axis a (axis a s)" if "a < 4" for a using u(4) that by simp
  obtain t where t: "for_each tim_init_one [0..<4] u = Ok t" "length (s_axis_info t) = 4"
    "armed (\<lambda>n. \<exists>a \<in> set [0..<4]. lines (hw_of a u) n) (exti u) (exti t)"
    "\<forall>a. axis a t = (if a \<in> set [0..<4] then (axis a u)\<lparr>motor_hw_config := (hw_of a u)\<lparr>benabled := True\<rparr>\<rparr> else axis a u)"
    "\<forall>a \<in> set [0..<4]. \<not> dma_enabled (pdma (axis a u)) t \<and> \<not> tim_enabled (ptim (axis a u)) t \<and> flags_clear (pdma (axis a u)) t"
    using tim_init_loop[of "[0..<4]" u] u(2) au by auto
  have run: "hm_step_motor_init s = Ok t"
    unfolding hm_step_motor_init_def hm_motor_tim_init_def HM_MAX_AXIS_def u(1) bnd_Ok by (rule t(1))
  have at: "axis a t = (init_axis a (axis a s))\<lparr>motor_hw_config := (limit_config a (hw_of a s))\<lparr>benabled := True\<rparr>\<rparr>"
    if "a < 4" for a using t(4) au that by simp
  have w: "wired a (hw_of a u)" if "a < 4" for a using au[OF that] wired_config[OF that] by simp
  have "idle a t" if a: "a < 4" for a
  proof -
    have "axis_ok a (axis a t)"
      using a assms(2) unfolding at[OF a] by (auto simp: axis_ok_def buf_ok_def buf_empty_def)
    moreover have "\<not> dma_enabled (pdma (axis a u)) t \<and> \<not> tim_enabled (ptim (axis a u)) t \<and> flags_clear (pdma (axis a u)) t"
      using t(5) a by simp
    ultimately show ?thesis using t(2) init_axis_wires(1)[OF a]
      unfolding idle_def hw_stopped_def at[OF a] au[OF a] by simp
  qed
  moreover have "all_wired t" using t(2) at wired_config by (simp add: all_wired_def)
  moreover have "truth (bStopImmediatelyCW (limit_config a c))" for a c by (simp add: limit_config_def Let_def truth_def)
  moreover have "(\<exists>a \<in> set [0..<4]. lines (hw_of a u) n) \<longleftrightarrow> line_switch n \<noteq> None" for n
  proof
    assume "\<exists>a \<in> set [0..<4]. lines (hw_of a u) n"
    then obtain a where "a < 4" "lines (hw_of a u) n" by auto
    then show "line_switch n \<noteq> None" using lines_wired[OF w] line_switch_of by auto
  next
    assume "line_switch n \<noteq> None"
    then obtain a sw where "line_switch n = Some (a, sw)" by auto
    then have "n = sw_line a sw" "a < 4" using line_switch_iff by blast+
    then show "\<exists>a \<in> set [0..<4]. lines (hw_of a u) n" using lines_wired[OF w] by force
  qed
  ultimately show ?thesis using run t(2,3) at u(3) unfolding armed_def by (intro exI[of _ t]) simp
qed

text \<open>
  C19.  After power up every axis is at rest at position zero on a T-curve, its driver enabled, its timer
  and its channel off and its flags clear: it may be moved.  The table of the axes is wired, and of the
  interrupt lines exactly those of the twelve switches are enabled in addition, on the falling edge.
\<close>

theorem init_ready:
  assumes "length (s_axis_info s) = 4"
    and "\<forall>a < 4. length (dma_bufs (axis a s)) = 2 \<and> (\<forall>b \<in> set (dma_bufs (axis a s)). length (dma_buf b) = 300)"
  shows "\<exists>t. hm_step_motor_init s = Ok t \<and> all_wired t \<and>
    (\<forall>a < 4. idle a t \<and> motor_pos (axis a t) = 0 \<and> motor_method (axis a t) = TCurve \<and> benabled (hw_of a t) \<and>
       truth (bStopImmediatelyCW (hw_of a t))) \<and>
    (\<forall>n. (bit (IMR (exti t)) n \<longleftrightarrow> line_switch n \<noteq> None \<or> bit (IMR (exti s)) n) \<and>
         (line_switch n \<noteq> None \<longrightarrow> bit (FTSR (exti t)) n \<and> \<not> bit (RTSR (exti t)) n))"
  using init_table[OF assms] by blast

lemma init_ready_witness:
  "\<exists>t. hm_step_motor_init (motor_power_up 0xFFFF) = Ok t \<and> idle 3 t \<and> bit (IMR (exti t)) 12"
proof -
  have "s_axis_info (motor_power_up 0xFFFF) = replicate 4 axis_zero"
    by (simp add: motor_power_up_def timer_st.defs motor_st.defs)
  then show ?thesis
    using init_ready[of "motor_power_up 0xFFFF"]
    by (auto simp: axis_def axis_zero_def buf_zero_def line_switch_def simp del: axis_list)
qed

end
