(* ===== verification/Motor_Board.thy ===== *)
theory Motor_Board
  imports Motor_Init
begin

text \<open>
  What never changes once the motor driver is set up: the table of the axes keeps its four entries, every
  axis its number, timer, channel, pins and lines, and both of its step blocks stay well formed.  Every
  operation and every interrupt of the driver keeps this, whatever its arguments are, as long as it does
  not end in a fault.
\<close>

section \<open>The invariant\<close>

text \<open>A configuration without the fields that settings, the enable pin and the home switch change.\<close>

definition wiring :: "hm_step_motor_hw_config \<Rightarrow> hm_step_motor_hw_config" where
  "wiring c = c\<lparr>benabled := False, bStopImmediatelyCW := 0, bStopImmediatelyCCW := 0,
     bStopImmediatelyHome := 0, blast_hit_home := False\<rparr>"

definition fixed_part :: "hm_step_info \<Rightarrow> u32 \<times> tim_id \<times> dma_ch \<times> hm_step_motor_hw_config" where
  "fixed_part p = (axis_idx p, ptim p, pdma p, wiring (motor_hw_config p))"

definition bufs_ok :: "hm_step_info \<Rightarrow> bool" where
  "bufs_ok p \<longleftrightarrow> length (dma_bufs p) = 2 \<and> (\<forall>b \<in> set (dma_bufs p). buf_ok b) \<and> unat (dma_buf_idx p) < 2"

definition board_axis :: "nat \<Rightarrow> hm_step_info \<Rightarrow> bool" where
  "board_axis a p \<longleftrightarrow> bufs_ok p \<and> fixed_part p = fixed_part (init_axis a axis_zero)"

definition board_ok :: "'a motor_st_scheme \<Rightarrow> bool" where
  "board_ok s \<longleftrightarrow> length (s_axis_info s) = 4 \<and> (\<forall>a < 4. board_axis a (axis a s))"

lemma wiring_upd [simp]:
  "wiring (c\<lparr>benabled := b\<rparr>) = wiring c" "wiring (c\<lparr>blast_hit_home := b\<rparr>) = wiring c"
  "wiring (c\<lparr>bStopImmediatelyCW := w\<rparr>) = wiring c" "wiring (c\<lparr>bStopImmediatelyCCW := w\<rparr>) = wiring c"
  "wiring (c\<lparr>bStopImmediatelyHome := w\<rparr>) = wiring c"
  by (simp_all add: wiring_def)

lemma fixed_idx: "axis_idx (init_axis a p) = word_of_nat a"
  by (simp add: init_axis_def data_init_def hw_info_clocks_def hw_info_axis_def hw_info_common_def)

lemma init_axis_board:
  assumes "a < 4" and "length (dma_bufs p) = 2" and "\<forall>b \<in> set (dma_bufs p). length (dma_buf b) = 300"
  shows "board_axis a (init_axis a p)"
proof -
  have fx: "fixed_part (init_axis a p) = fixed_part (init_axis a axis_zero)"
    using less_4_cases[OF assms(1)]
    by (elim disjE) (simp_all add: fixed_part_def init_axis_def data_init_def hw_info_clocks_def hw_info_axis_def hw_info_common_def
      limit_config_def limit_config_0_def limit_config_1_def limit_config_2_def limit_config_3_def wiring_def)
  have "bufs_ok (init_axis a p)"
    using assms(2,3) by (auto simp: bufs_ok_def init_axis_def data_init_def hw_info_clocks_def hw_info_axis_def hw_info_common_def
        buf_ok_def buf_empty_def)
  then show ?thesis using fx by (simp add: board_axis_def)
qed

section \<open>One axis\<close>

lemma board_axis_upd [simp]:
  "board_axis a (p\<lparr>motor_dir := d\<rparr>) = board_axis a p" "board_axis a (p\<lparr>axis_state := x\<rparr>) = board_axis a p"
  "board_axis a (p\<lparr>bdo_home := b\<rparr>) = board_axis a p" "board_axis a (p\<lparr>bstopping := b\<rparr>) = board_axis a p"
  "board_axis a (p\<lparr>motor_pos := w\<rparr>) = board_axis a p" "board_axis a (p\<lparr>motor_method := m\<rparr>) = board_axis a p"
  "board_axis a (p\<lparr>bhome_stop_low_triger := w\<rparr>) = board_axis a p" "board_axis a (p\<lparr>dma_irq_idx := w\<rparr>) = board_axis a p"
  "board_axis a (p\<lparr>steps_tim_irq := w\<rparr>) = board_axis a p" "board_axis a (p\<lparr>dma_fill := v\<rparr>) = board_axis a p"
  "board_axis a (p\<lparr>accel_count := w\<rparr>) = board_axis a p" "board_axis a (p\<lparr>run_state := r\<rparr>) = board_axis a p"
  "board_axis a (p\<lparr>step_delay := v\<rparr>) = board_axis a p" "board_axis a (p\<lparr>steps_taken := w\<rparr>) = board_axis a p"
  "board_axis a (p\<lparr>steps_actual := w\<rparr>) = board_axis a p" "board_axis a (p\<lparr>min_delay := v\<rparr>) = board_axis a p"
  "board_axis a (p\<lparr>ramp_n2 := w\<rparr>) = board_axis a p" "board_axis a (p\<lparr>accel_steps := w\<rparr>) = board_axis a p"
  "board_axis a (p\<lparr>decel_start := w\<rparr>) = board_axis a p" "board_axis a (p\<lparr>decel_val := w\<rparr>) = board_axis a p"
  "board_axis a (p\<lparr>ramp_rest := w\<rparr>) = board_axis a p" "board_axis a (p\<lparr>steps_request := w\<rparr>) = board_axis a p"
  "board_axis a (p\<lparr>min_step_delay := v\<rparr>) = board_axis a p" "board_axis a (p\<lparr>HM_STEP_FRE := f\<rparr>) = board_axis a p"
  "wiring c = wiring (motor_hw_config p) \<Longrightarrow> board_axis a (p\<lparr>motor_hw_config := c\<rparr>) = board_axis a p"
  by (simp_all add: board_axis_def fixed_part_def bufs_ok_def)

lemma board_axis_bufs:
  assumes "board_axis a p" and "\<forall>b \<in> set bs. buf_ok b" and "length bs = 2"
  shows "board_axis a (p\<lparr>dma_bufs := bs\<rparr>)" "unat i < 2 \<Longrightarrow> board_axis a (p\<lparr>dma_buf_idx := i, dma_bufs := bs\<rparr>)"
  using assms by (simp_all add: board_axis_def fixed_part_def bufs_ok_def)

lemma board_axis_idx: "board_axis a p \<Longrightarrow> unat i < 2 \<Longrightarrow> board_axis a (p\<lparr>dma_buf_idx := i\<rparr>)"
  by (simp add: board_axis_def fixed_part_def bufs_ok_def)

lemma board_axisD:
  assumes "board_axis a p"
  shows "length (dma_bufs p) = 2" "i < 2 \<Longrightarrow> buf_ok (dma_bufs p ! i)" "unat (dma_buf_idx p) < 2"
    "\<forall>b \<in> set (dma_bufs p). buf_ok b" "axis_idx p = word_of_nat a"
  using assms by (auto simp: board_axis_def bufs_ok_def fixed_part_def fixed_idx)

lemma board_axis_put:
  assumes "board_axis a p" and "buf_ok b"
  shows "board_axis a (p\<lparr>dma_bufs := (dma_bufs p)[i := b]\<rparr>)"
  by (rule board_axis_bufs(1)[OF assms(1)])
    (use board_axisD(1,4)[OF assms(1)] assms(2) in \<open>auto dest!: set_update_subset_insert[THEN subsetD]\<close>)

lemma board_axis_empty: "board_axis a p \<Longrightarrow> board_axis a (p\<lparr>dma_bufs := map buf_empty (dma_bufs p), dma_buf_idx := 0\<rparr>)"
  by (auto simp: board_axis_def fixed_part_def bufs_ok_def buf_ok_def buf_empty_def)

lemma same_plan_board: "same_plan p q \<Longrightarrow> board_axis a q = board_axis a p"
  by (simp add: same_plan_def board_axis_def fixed_part_def bufs_ok_def)

lemma dma_update_board:
  assumes "board_axis a p" and "i < 2" and "hm_dma_update i p = Inr q"
  shows "board_axis a q"
proof -
  note b = board_axisD[OF assms(1)]
  have i: "i < length (dma_bufs p)" "buf_ok (dma_bufs p ! i)" using b(1) b(2)[OF assms(2)] assms(2) by simp_all
  obtain ds :: "u16 list" and p1 where q: "q = p1\<lparr>steps_taken := advance p (length ds) (steps_taken p),
             dma_bufs := (dma_bufs p)[i := dma_bufs q ! i]\<rparr>"
    and ok: "buf_ok (dma_bufs q ! i)" and same: "same_plan p p1"
    by (rule hm_dma_update_Ok[OF i assms(3)]) (rule that; assumption)
  have "board_axis a p1" using same_plan_board[OF same] assms(1) by simp
  moreover have "dma_bufs p1 = dma_bufs p" using same by (simp add: same_plan_def)
  ultimately have "board_axis a (p1\<lparr>steps_taken := advance p (length ds) (steps_taken p),
             dma_bufs := (dma_bufs p)[i := dma_bufs q ! i]\<rparr>)"
    using board_axis_put[of a "p1\<lparr>steps_taken := advance p (length ds) (steps_taken p)\<rparr>" "dma_bufs q ! i" i] ok by simp
  then show ?thesis by (simp only: q[symmetric])
qed

lemma emit_step_ok:
  assumes "buf_ok b" and "emit_step w0 w1 w2 b = Inr c"
  shows "buf_ok c"
proof -
  have "unat (dma_buf_len b) + 3 \<le> 300" using emit_step_len[OF assms(2)] by simp
  then have "buf_count b < 100" using assms(1) by (auto simp: buf_ok_def buf_count_def)
  then show ?thesis using emit_step_room[of b w0 w1 w2] put_step_ok[of b "(w0, w1, w2)"] assms by auto
qed

text \<open>A fallible step on one axis that keeps the description of the axis \<open>a\<close>.\<close>

definition axis_safe :: "nat \<Rightarrow> hm_step_info res \<Rightarrow> bool" where
  "axis_safe a m \<longleftrightarrow> (\<forall>q. m = Inr q \<longrightarrow> board_axis a q)"

lemma axis_safe_simps [simp]: "axis_safe a (Fault e)" "axis_safe a (Ok q) \<longleftrightarrow> board_axis a q"
  by (simp_all add: axis_safe_def)

lemma axis_safe_bnd: "axis_safe a m \<Longrightarrow> (\<And>q. board_axis a q \<Longrightarrow> axis_safe a (f q)) \<Longrightarrow> axis_safe a (bnd m f)"
  by (auto simp: axis_safe_def)

lemma axis_safe_word: "(\<And>w. axis_safe a (f w)) \<Longrightarrow> axis_safe a (bnd m f)"
  by (auto simp: axis_safe_def)

lemma axis_safe_if: "(b \<Longrightarrow> axis_safe a x) \<Longrightarrow> (\<not> b \<Longrightarrow> axis_safe a y) \<Longrightarrow> axis_safe a (if b then x else y)"
  by simp

lemma axis_safe_buf: "board_axis a p \<Longrightarrow> (\<And>b. buf_ok b \<Longrightarrow> axis_safe a (f b)) \<Longrightarrow> axis_safe a (bnd (buf_at i p) f)"
  using board_axisD(1)[of a p] board_axisD(2)[of a p i] by (auto simp: axis_safe_def buf_at_def split: if_splits)

lemma axis_safe_update: "board_axis a p \<Longrightarrow> i < 2 \<Longrightarrow> axis_safe a (hm_dma_update i p)"
  using dma_update_board by (auto simp: axis_safe_def)

lemma axis_safe_first: "board_axis a p \<Longrightarrow> axis_safe a (put_first w p)"
  unfolding put_first_def
  by (rule axis_safe_buf) (auto simp: axis_safe_def intro!: board_axis_put dest: emit_step_ok)

lemma axis_safe_fill:
  assumes "board_axis a p"
  shows "axis_safe a (fill_blocks p)"
  unfolding fill_blocks_def
proof (rule axis_safe_bnd)
  show "axis_safe a (hm_dma_update 0 (p\<lparr>steps_taken := 1\<rparr>))" using assms by (intro axis_safe_update) simp_all
  fix q
  assume q: "board_axis a q"
  show "axis_safe a (for_each (\<lambda>i p. if run_state p \<noteq> rsSTOP then hm_dma_update i p else Ok p)
      [unat (dma_buf_idx q) + 1..<HM_DMA_BUF_BLOCK_SZ] q)"
    unfolding axis_safe_def
  proof (intro allI impI)
    fix r
    assume "for_each (\<lambda>i p. if run_state p \<noteq> rsSTOP then hm_dma_update i p else Ok p)
        [unat (dma_buf_idx q) + 1..<HM_DMA_BUF_BLOCK_SZ] q = Inr r"
    then show "board_axis a r"
      by (rule for_each_inv[where P = "board_axis a", OF _ q])
        (auto simp: HM_DMA_BUF_BLOCK_SZ_def split: if_splits intro: dma_update_board)
  qed
qed

lemma ramp_start_board [simp]: "board_axis a (ramp_start p) = board_axis a p"
  by (simp add: ramp_start_def Let_def)

lemma axis_safe_run: "board_axis a p \<Longrightarrow> axis_safe a (run_plan accel speed p)"
  unfolding run_plan_def run_params_def bnd_assoc
  by (rule axis_safe_word, rule axis_safe_word, rule axis_safe_word)
    (simp add: axis_safe_bnd axis_safe_first axis_safe_fill)

lemma axis_safe_move: "board_axis a p \<Longrightarrow> axis_safe a (move_plan n accel speed p)"
  unfolding move_plan_def move_params_def bnd_assoc Let_def
  by (rule axis_safe_word, rule axis_safe_word, rule axis_safe_word)
    (simp add: axis_safe_bnd axis_safe_first axis_safe_fill)

lemma axis_safe_one: "board_axis a p \<Longrightarrow> axis_safe a (move_one p)"
  unfolding move_one_def
proof (rule axis_safe_bnd)
  assume p: "board_axis a p"
  show "axis_safe a (put_first 1 (p\<lparr>accel_count := - 1, run_state := rsDECEL, step_delay := 1000\<rparr>))"
    using p by (intro axis_safe_first) simp
  fix q
  assume q: "board_axis a q"
  show "axis_safe a (Ok (q\<lparr>dma_bufs := (dma_bufs q)[0 := (dma_bufs q ! 0)\<lparr>buf_valid := True\<rparr>], steps_taken := 1\<rparr>))"
    using board_axis_put[OF q, of "(dma_bufs q ! 0)\<lparr>buf_valid := True\<rparr>" 0] board_axisD(2)[OF q, of 0]
    by (simp add: buf_ok_def)
qed

lemma axis_safe_next:
  assumes "board_axis a p"
  shows "axis_safe a (fill_next p)"
  unfolding fill_next_def
proof (intro axis_safe_buf[OF assms] axis_safe_if)
  fix b
  assume "buf_ok b"
  then have "buf_ok (b\<lparr>dma_buf_len := 0\<rparr>)" by (simp add: buf_ok_def)
  then have "board_axis a (p\<lparr>dma_bufs := (dma_bufs p)[next_buf_idx p := b\<lparr>dma_buf_len := 0\<rparr>]\<rparr>)"
    by (rule board_axis_put[OF assms])
  then show "axis_safe a (bnd (hm_dma_update (next_buf_idx p)
      (p\<lparr>dma_bufs := (dma_bufs p)[next_buf_idx p := b\<lparr>dma_buf_len := 0\<rparr>]\<rparr>))
      (\<lambda>p. Ok (p\<lparr>dma_fill := dma_fill p + 1\<rparr>)))"
    by (intro axis_safe_bnd[OF axis_safe_update]) simp_all
qed (simp add: assms)

lemma axis_safe_count:
  assumes "board_axis a p"
  shows "axis_safe a (count_block p)"
  unfolding count_block_def Let_def
proof (intro axis_safe_buf[OF assms])
  fix b
  assume "buf_ok b"
  then have "buf_ok (b\<lparr>buf_valid := False\<rparr>)" by (simp add: buf_ok_def)
  then have "board_axis a (p\<lparr>dma_bufs := (dma_bufs p)[unat (dma_buf_idx p) := b\<lparr>buf_valid := False\<rparr>]\<rparr>)"
    by (rule board_axis_put[OF assms])
  then show "axis_safe a (Ok (p\<lparr>motor_pos := motor_pos p + signed_steps (motor_dir p) (dma_buf_len b div 3),
      dma_bufs := (dma_bufs p)[unat (dma_buf_idx p) := b\<lparr>buf_valid := False\<rparr>],
      steps_actual := steps_actual p + ucast (dma_buf_len b div 3)\<rparr>))"
    by (simp add: board_axis_def fixed_part_def bufs_ok_def)
qed

lemma board_axis_resets:
  assumes "board_axis a p"
  shows "board_axis a (run_reset speed p)" "board_axis a (move_reset speed n p)" "board_axis a (set_run_dir v p)"
    "board_axis a (smooth_plan p)" "board_axis a (p\<lparr>dma_buf_idx := word_of_nat (next_buf_idx p)\<rparr>)"
proof -
  note e = board_axis_empty[OF assms]
  show "board_axis a (run_reset speed p)" "board_axis a (move_reset speed n p)"
    using e by (simp_all add: run_reset_def move_reset_def board_axis_def fixed_part_def bufs_ok_def)
  show "board_axis a (set_run_dir v p)" "board_axis a (smooth_plan p)"
    using assms by (simp_all add: set_run_dir_def smooth_plan_def)
  show "board_axis a (p\<lparr>dma_buf_idx := word_of_nat (next_buf_idx p)\<rparr>)"
    using assms by (intro board_axis_idx) simp_all
qed

section \<open>The board\<close>

definition board_safe :: "('x \<Rightarrow> 'a motor_st_scheme) \<Rightarrow> 'x res \<Rightarrow> bool" where
  "board_safe g m \<longleftrightarrow> (\<forall>x. m = Inr x \<longrightarrow> board_ok (g x))"

lemma board_safe_simps [simp]: "board_safe g (Fault e)" "board_safe g (Ok x) \<longleftrightarrow> board_ok (g x)"
  by (simp_all add: board_safe_def)

lemma board_safe_bnd: "board_safe g m \<Longrightarrow> (\<And>x. board_ok (g x) \<Longrightarrow> board_safe h (f x)) \<Longrightarrow> board_safe h (bnd m f)"
  by (auto simp: board_safe_def)

lemma board_safe_pair:
  "board_safe snd m \<Longrightarrow> (\<And>x t. board_ok t \<Longrightarrow> board_safe h (f x t)) \<Longrightarrow> board_safe h (bnd m (\<lambda>(x, t). f x t))"
  by (auto simp: board_safe_def)

lemma board_safe_word: "(\<And>x. m = Inr x \<Longrightarrow> board_safe h (f x)) \<Longrightarrow> board_safe h (bnd m f)"
  by (auto simp: board_safe_def)

lemma board_safe_if: "(b \<Longrightarrow> board_safe g x) \<Longrightarrow> (\<not> b \<Longrightarrow> board_safe g y) \<Longrightarrow> board_safe g (if b then x else y)"
  by simp

lemma board_safe_on: "(a < length (s_axis_info s) \<Longrightarrow> board_safe g m) \<Longrightarrow> board_safe g (on_axis a s m)"
  by (simp add: on_axis_def)

lemma board_safe_each:
  assumes "board_ok s" and "\<And>i s. i \<in> set is \<Longrightarrow> board_ok s \<Longrightarrow> board_safe id (f i s)"
  shows "board_safe id (for_each f is s)"
  unfolding board_safe_def
proof (intro allI impI)
  fix t
  assume "for_each f is s = Ok t"
  then show "board_ok (id t)"
    using for_each_inv[of f "is" s t board_ok] assms by (auto simp: board_safe_def)
qed

lemma board_ok_same: "s_axis_info t = s_axis_info s \<Longrightarrow> board_ok s \<Longrightarrow> board_ok t"
  by (simp add: board_ok_def axis_def del: axis_list)

lemma board_ok_upd:
  assumes "board_ok s" and "a < 4 \<Longrightarrow> board_axis a (axis a s) \<Longrightarrow> board_axis a (f (axis a s))"
  shows "board_ok (upd_axis a f s)"
proof (cases "a < 4")
  case True
  then show ?thesis using assms by (auto simp: board_ok_def)
next
  case False
  then have "upd_axis a f s = s" using assms(1) by (simp add: board_ok_def upd_axis_def list_update_beyond)
  then show ?thesis using assms(1) by simp
qed

lemma board_okD:
  assumes "board_ok s" and "a < length (s_axis_info s)"
  shows "a < 4" "board_axis a (axis a s)" "unat (axis_idx (axis a s)) = a"
proof -
  show a: "a < 4" and b: "board_axis a (axis a s)" using assms by (simp_all add: board_ok_def)
  show "unat (axis_idx (axis a s)) = a" using board_axisD(5)[OF b] a by (simp add: unat_of_nat)
qed

lemma board_ok_hw:
  assumes "board_ok s" and "\<And>c. wiring (f c) = wiring c"
  shows "board_ok (upd_hw a f s)"
  unfolding upd_hw_def using assms by (intro board_ok_upd) simp_all

lemma board_ok_drivers [simp]:
  "board_ok (GPIO_SetBits pt mk s) = board_ok s" "board_ok (GPIO_ResetBits pt mk s) = board_ok s"
  "board_ok (hm_led_chan k b s) = board_ok s" "board_ok (TIM_Cmd t b s) = board_ok s" "board_ok (DMA_Cmd c b s) = board_ok s"
  "board_ok (upd_tim t r s) = board_ok s" "board_ok (write_CNDTR c v s) = board_ok s" "board_ok (write_CMAR c rf s) = board_ok s"
  "board_ok (enable_irq s) = board_ok s" "board_ok (disable_irq s) = board_ok s"
  "board_ok (snd (hit_switch pt mk s)) = board_ok s" "board_ok (snd (GPIO_ReadInputDataBit pt mk s)) = board_ok s"
  "board_ok (EXTI_ClearITPendingBit l s) = board_ok s" "board_ok (DMA_ClearITPendingBit l s) = board_ok s"
  by (simp_all del: axis_list add: board_ok_def axis_def GPIO_SetBits_def GPIO_ResetBits_def hm_led_chan_def hm_led_act_def Let_def TIM_Cmd_def
      DMA_Cmd_def upd_tim_def write_CNDTR_def write_CMAR_def enable_irq_def disable_irq_def hit_switch_eq
      GPIO_ReadInputDataBit_def EXTI_ClearITPendingBit_def DMA_ClearITPendingBit_def write_IFCR_def)

lemma safe_hits:
  assumes "board_ok s"
  shows "board_safe snd (hm_motor_hit_CW a s)" "board_safe snd (hm_motor_hit_CCW a s)" "board_safe snd (hm_motor_hit_Home a s)"
  unfolding hm_motor_hit_CW_def hm_motor_hit_CCW_def hm_motor_hit_Home_def
  using assms by (intro board_safe_on; simp)+

lemma safe_mark: "board_ok s \<Longrightarrow> board_safe id (hm_mark_axis_state a e s)"
  unfolding hm_mark_axis_state_def by (intro board_safe_on) (simp add: board_ok_upd)

lemma safe_set_dir: "board_ok s \<Longrightarrow> board_safe id (hm_motor_set_dir a b s)"
  unfolding hm_motor_set_dir_def by (intro board_safe_on) simp

lemma safe_enable: "board_ok s \<Longrightarrow> board_ok (snd (hm_motor_enable_axis a b s))"
  by (simp add: hm_motor_enable_axis_def board_ok_hw)

lemma safe_upd_res:
  assumes "board_ok s" and "a < length (s_axis_info s)" and "board_axis a (axis a s) \<Longrightarrow> axis_safe a (f (axis a s))"
  shows "board_safe id (upd_axis_res a f s)"
  unfolding upd_axis_res_def
  using assms board_okD[OF assms(1,2)] by (auto simp: board_safe_def axis_safe_def intro!: board_ok_upd)

lemma safe_setup: "board_ok s \<Longrightarrow> board_safe id (hm_dma_setup a b s)"
  unfolding hm_dma_setup_def Let_def by (rule board_safe_word) simp

lemma safe_tim_start: "board_ok s \<Longrightarrow> board_safe id (hm_tim_start a b f s)"
  unfolding hm_tim_start_def Let_def by (intro board_safe_if safe_mark board_ok_upd) simp_all

lemma safe_start_hw: "board_ok s \<Longrightarrow> board_safe id (start_hw a s)"
  unfolding start_hw_def by (rule board_safe_bnd[OF safe_setup]) (simp_all add: safe_tim_start)

lemma safe_note_home: "board_ok s \<Longrightarrow> board_safe id (note_home a s)"
  unfolding note_home_def by (intro board_safe_if board_safe_pair[OF safe_hits(3)]) (simp_all add: board_ok_hw)

lemma safe_blocked: "board_ok s \<Longrightarrow> board_safe snd (run_blocked a s)"
  unfolding run_blocked_def
  by (intro board_safe_pair[OF safe_hits(1)] board_safe_if board_safe_pair[OF safe_hits(2)] board_safe_pair[OF safe_hits(3)])
    simp_all

lemma board_ok_len: "board_ok s \<Longrightarrow> length (s_axis_info s) = 4"
  by (simp add: board_ok_def)

lemma safe_start_run: "board_ok s \<Longrightarrow> board_safe snd (hm_step_motor_start_run a accel speed s)"
  unfolding hm_step_motor_start_run_def Let_def
  by (intro board_safe_if board_safe_pair[OF safe_blocked] board_safe_bnd[OF safe_mark] board_safe_bnd[OF safe_note_home]
      board_safe_bnd[OF safe_set_dir] board_safe_bnd[OF safe_upd_res] board_safe_bnd[OF safe_start_hw])
    (simp_all add: board_ok_upd board_axis_resets safe_enable axis_safe_run board_ok_len HM_MAX_AXIS_def)

lemma safe_move: "board_ok s \<Longrightarrow> board_safe snd (hm_step_motor_move a step accel decel speed s)"
  unfolding hm_step_motor_move_def Let_def
  by (intro board_safe_if board_safe_pair[OF safe_blocked] board_safe_bnd[OF safe_set_dir] board_safe_bnd[where g = id]
      safe_upd_res safe_start_hw)
    (simp_all add: board_ok_upd board_axis_resets safe_enable axis_safe_move axis_safe_one board_ok_len HM_MAX_AXIS_def)

lemma safe_runs:
  "board_ok s \<Longrightarrow> board_safe snd (hm_step_motor_start_homing a accel speed s)"
  "board_ok s \<Longrightarrow> board_safe snd (hm_step_motor_start_free_run a accel speed s)"
  unfolding hm_step_motor_start_homing_def hm_step_motor_start_free_run_def
  by (intro board_safe_on safe_start_run; simp add: board_ok_upd)+

lemma safe_smooth: "board_ok s \<Longrightarrow> board_ok (snd (hm_step_motor_stop_smooth a s))"
  by (simp add: hm_step_motor_stop_smooth_def board_ok_upd board_axis_resets)

lemma safe_sudden: "board_ok s \<Longrightarrow> board_safe snd (hm_step_motor_stop_sundden a s)"
  unfolding hm_step_motor_stop_sundden_def Let_def
  by (intro board_safe_if board_safe_bnd[OF safe_setup] board_safe_bnd[OF safe_tim_start] board_safe_word)
    (simp_all add: board_ok_upd)

lemma safe_settings:
  assumes "board_ok s"
  shows "board_ok (hm_step_motor_set_cur_pos a v s)" "board_ok (hm_step_motor_set_home_stop_mode a v s)"
    "board_ok (hm_motor_set_stop_mode a m1 m2 m3 m4 s)" "board_ok (hm_step_motor_set_axis_curve a e s)"
  using assms by (simp_all add: hm_step_motor_set_cur_pos_def hm_step_motor_set_home_stop_mode_def
      hm_motor_set_stop_mode_def hm_step_motor_set_axis_curve_def board_ok_upd board_ok_hw)

section \<open>Interrupts and the check of the switches\<close>

lemma safe_fill_next: "board_ok s \<Longrightarrow> board_safe id (hm_dma_fill_next_buf a s)"
  unfolding hm_dma_fill_next_buf_def by (intro board_safe_on safe_upd_res axis_safe_next) simp_all

lemma safe_dma_ck:
  assumes "board_ok s"
  shows "board_safe id (hm_dma_ck a s)"
  unfolding hm_dma_ck_def Let_def
  using assms by (intro board_safe_on board_safe_bnd[OF safe_upd_res] board_safe_bnd[where g = id] board_safe_if board_safe_word
      board_safe_bnd[OF safe_setup] board_safe_bnd[OF safe_tim_start] safe_setup axis_safe_count)
    (simp_all add: board_ok_upd board_axis_resets hm_tim_pause_resume_def)

lemma safe_channel:
  assumes "board_ok s"
  shows "board_safe id (dma_channel_irq c a s)"
  unfolding dma_channel_irq_def
  using assms by (intro board_safe_bnd[where g = id] board_safe_if board_safe_bnd[OF safe_fill_next] board_safe_bnd[OF safe_dma_ck])
    simp_all

lemma safe_limit_stop: "board_ok s \<Longrightarrow> board_safe id (limit_stop a s)"
  unfolding limit_stop_def by (intro board_safe_if board_safe_pair[OF safe_sudden]) (simp_all add: safe_smooth)

lemma safe_line_hit: "board_ok s \<Longrightarrow> (board_ok s \<Longrightarrow> board_safe snd (hit s)) \<Longrightarrow> board_safe snd (line_hit b hit s)"
  by (simp add: line_hit_def)

lemma safe_extern_stops: "board_ok s \<Longrightarrow> board_safe snd (extern_stops fn l a s)"
  unfolding extern_stops_def Let_def
  by (intro board_safe_pair[OF safe_line_hit] safe_hits) simp_all

lemma safe_extern_loop: "board_ok s \<Longrightarrow> board_safe id (extern_loop fn l as s)"
proof (induction "as" arbitrary: s)
  case (Cons a "as")
  show ?case unfolding extern_loop.simps
    by (intro board_safe_pair[OF safe_extern_stops[OF Cons.prems]] board_safe_if safe_limit_stop Cons.IH)
qed simp

lemma safe_serve: "board_ok s \<Longrightarrow> board_safe id (serve_line fn l s)"
  unfolding serve_line_def Let_def handler_extern_irq_def
  by (intro board_safe_bnd[OF safe_extern_loop]) simp_all

lemma if_applied: "(if b then f else g) x = (if b then f x else g x)"
  by simp

lemma safe_exti: "board_ok s \<Longrightarrow> board_safe id (exti_vector k s)"
  unfolding exti_vector_def EXTI0_IRQHandler_def EXTI1_IRQHandler_def EXTI2_IRQHandler_def EXTI3_IRQHandler_def
    EXTI4_IRQHandler_def EXTI9_5_IRQHandler_def EXTI15_10_IRQHandler_def Let_def
  unfolding if_applied
  by (intro board_safe_if safe_serve) simp_all

lemma safe_home_check: "board_ok s \<Longrightarrow> board_safe snd (home_check a s)"
  unfolding home_check_def by (intro board_safe_if board_safe_pair[OF safe_hits(3)]) (simp_all add: board_ok_hw)

lemma safe_check: "board_ok s \<Longrightarrow> board_safe id (hm_motor_limit_logical_check s)"
  unfolding hm_motor_limit_logical_check_def limit_check_axis_def
  by (intro board_safe_each board_safe_if board_safe_pair[OF safe_line_hit] safe_hits board_safe_pair[OF safe_home_check]
      safe_limit_stop) simp_all

section \<open>What it implies\<close>

lemma board_motor_ok: "board_ok s \<Longrightarrow> motor_ok s"
  by (auto simp: board_ok_def motor_ok_def axis_ok_def dest: board_axisD)

lemma board_wired:
  assumes "board_ok s"
  shows "all_wired s"
  unfolding all_wired_def
proof (intro conjI allI impI)
  show "length (s_axis_info s) = 4" by (rule board_ok_len[OF assms])
  fix a :: nat
  assume a: "a < 4"
  have "wiring (hw_of a s) = wiring (limit_config a (motor_hw_config axis_zero))"
    using assms a by (simp add: board_ok_def board_axis_def fixed_part_def)
  moreover have "wired a c = wired a (wiring c)" for c by (simp add: wired_def wiring_def)
  ultimately show "wired a (hw_of a s)" using wired_config[OF a] by metis
qed

lemma board_wires:
  assumes "board_ok s" and "a < 4"
  shows "pdma (axis a s) = axis_channel a" "ptim (axis a s) = [TIM1, TIM2, TIM3, TIM4] ! a"
  using assms init_axis_wires(1,2)[OF assms(2)] by (simp_all add: board_ok_def board_axis_def fixed_part_def)

text \<open>The set up of the driver establishes it.\<close>

lemma board_init:
  assumes "length (s_axis_info s) = 4"
    and "\<forall>a < 4. length (dma_bufs (axis a s)) = 2 \<and> (\<forall>b \<in> set (dma_bufs (axis a s)). length (dma_buf b) = 300)"
    and "hm_step_motor_init s = Inr t"
  shows "board_ok t"
proof -
  have len: "length (s_axis_info t) = 4" and at: "\<forall>a < 4. axis a t =
      (init_axis a (axis a s))\<lparr>motor_hw_config := (limit_config a (hw_of a s))\<lparr>benabled := True\<rparr>\<rparr>"
    using init_table[OF assms(1,2)] assms(3) by auto
  have "board_axis a (axis a t)" if a: "a < 4" for a
  proof -
    have "board_axis a (init_axis a (axis a s))" using assms(2) a by (intro init_axis_board) auto
    then show ?thesis using at a by simp
  qed
  then show ?thesis using len by (simp add: board_ok_def)
qed

end
