(* ===== verification/Board_Temp.thy ===== *)
theory Board_Temp
  imports Hw_Gpio
begin

text \<open>
  The temperature sensor, \<^verbatim>\<open>hm_temperature.c\<close>: a one wire bus on pin 0 of port B, driven by hand.
  The sensor is switched off in this build (\<open>TMP_ENABLE\<close> is not defined), so \<open>DS18B20_Init\<close> and
  \<open>DS18B20_Get_Temp\<close> return constants; the operations on the bus are modelled all the same.

  On the bus the times matter, so an operation also returns what it does there: the levels it drives and
  the delays in between.
\<close>

section \<open>The bus\<close>

datatype bus_act = DQ_LOW | DQ_HIGH | Delay_us u32

type_synonym 'a bus = "bus_act list \<times> 'a"

definition DS18B20_DQ_OUT_HIGH :: "'a hw_st_scheme \<Rightarrow> 'a hw_st_scheme" where
  "DS18B20_DQ_OUT_HIGH = GPIO_SetBits GPIOB (GPIO_Pin_no 0)"

definition DS18B20_DQ_OUT_LOW :: "'a hw_st_scheme \<Rightarrow> 'a hw_st_scheme" where
  "DS18B20_DQ_OUT_LOW = GPIO_ResetBits GPIOB (GPIO_Pin_no 0)"

definition DS18B20_DQ_IN :: "'a hw_st_scheme \<Rightarrow> u8 \<times> 'a hw_st_scheme" where
  "DS18B20_DQ_IN = GPIO_ReadInputDataBit GPIOB (GPIO_Pin_no 0)"

text \<open>Low for \<open>t0\<close> microseconds, then high for \<open>t1\<close>.\<close>

definition dq_pulse :: "u32 \<Rightarrow> u32 \<Rightarrow> 'a hw_st_scheme \<Rightarrow> 'a hw_st_scheme bus" where
  "dq_pulse t0 t1 s = ([DQ_LOW, Delay_us t0, DQ_HIGH, Delay_us t1], DS18B20_DQ_OUT_HIGH (DS18B20_DQ_OUT_LOW s))"

definition DS18B20_Rst :: "'a hw_st_scheme \<Rightarrow> 'a hw_st_scheme bus" where
  "DS18B20_Rst = dq_pulse 750 15"

text \<open>
  A wait while the bus has the level \<open>lvl\<close>, for \<open>n\<close> turns of a microsecond at most; the result is the
  number of turns left.
\<close>

primrec dq_wait :: "bool \<Rightarrow> nat \<Rightarrow> 'a hw_st_scheme \<Rightarrow> (nat \<times> 'a hw_st_scheme) bus" where
  "dq_wait lvl 0 s = (let (v, s) = DS18B20_DQ_IN s in ([], 0, s))"
| "dq_wait lvl (Suc n) s =
     (let (v, s) = DS18B20_DQ_IN s in
      if truth v = lvl then (let (w, r) = dq_wait lvl n s in (Delay_us 1 # w, r)) else ([], Suc n, s))"

definition DS18B20_Check :: "'a hw_st_scheme \<Rightarrow> (u8 \<times> 'a hw_st_scheme) bus" where
  "DS18B20_Check s =
     (let (w1, n, s) = dq_wait True 200 s in
      if n = 0 then (w1, 1, s)
      else let (w2, n, s) = dq_wait False 240 s in (w1 @ w2, if n = 0 then 1 else 0, s))"

definition DS18B20_Init :: u8 where
  "DS18B20_Init = 1"

section \<open>Bytes\<close>

definition write_bit :: "bool \<Rightarrow> 'a hw_st_scheme \<Rightarrow> 'a hw_st_scheme bus" where
  "write_bit b = (if b then dq_pulse 2 60 else dq_pulse 60 2)"

primrec write_bits :: "nat \<Rightarrow> u8 \<Rightarrow> 'a hw_st_scheme \<Rightarrow> 'a hw_st_scheme bus" where
  "write_bits 0 dat s = ([], s)"
| "write_bits (Suc n) dat s =
     (let (w, s) = write_bit (truth (dat AND 1)) s;
          (v, s) = write_bits n (drop_bit 1 dat) s
      in (w @ v, s))"

definition DS18B20_Write_Byte :: "u8 \<Rightarrow> 'a hw_st_scheme \<Rightarrow> 'a hw_st_scheme bus" where
  "DS18B20_Write_Byte = write_bits 8"

definition DS18B20_Start :: "'a hw_st_scheme \<Rightarrow> 'a hw_st_scheme bus" where
  "DS18B20_Start s =
     (let (w1, s) = DS18B20_Rst s;
          (w2, r, s) = DS18B20_Check s;
          (w3, s) = DS18B20_Write_Byte 0xcc s;
          (w4, s) = DS18B20_Write_Byte 0x44 s
      in (w1 @ w2 @ w3 @ w4, s))"

definition DS18B20_Read_Bit :: "'a hw_st_scheme \<Rightarrow> (u8 \<times> 'a hw_st_scheme) bus" where
  "DS18B20_Read_Bit s =
     (let (w, s) = dq_pulse 2 12 s;
          (v, s) = DS18B20_DQ_IN s
      in (w @ [Delay_us 50], if truth v then 1 else 0, s))"

primrec read_bits :: "nat \<Rightarrow> u8 \<Rightarrow> 'a hw_st_scheme \<Rightarrow> (u8 \<times> 'a hw_st_scheme) bus" where
  "read_bits 0 dat s = ([], dat, s)"
| "read_bits (Suc n) dat s =
     (let (w, j, s) = DS18B20_Read_Bit s;
          (v, r) = read_bits n (push_bit 7 j OR drop_bit 1 dat) s
      in (w @ v, r))"

definition DS18B20_Read_Byte :: "'a hw_st_scheme \<Rightarrow> (u8 \<times> 'a hw_st_scheme) bus" where
  "DS18B20_Read_Byte = read_bits 8 0"

definition DS18B20_Get_Temp :: u16 where
  "DS18B20_Get_Temp = 0"

section \<open>The two directions of the bus\<close>

text \<open>
  A listener on the bus takes a low pulse shorter than 15 microseconds for a one and a longer one for a
  zero, and collects the least bit first.
\<close>

fun listen :: "bus_act list \<Rightarrow> bool list" where
  "listen (DQ_LOW # Delay_us t # DQ_HIGH # Delay_us u # w) = (t < 15) # listen w"
| "listen w = []"

lemma truth_and_1: "truth ((w :: u8) AND 1) = bit w 0"
proof -
  have "w AND 1 = of_bool (bit w 0)" by (simp add: and_one_eq bit_0 odd_iff_mod_2_eq_one)
  then show ?thesis by (simp add: truth_def)
qed

lemma listen_bit: "listen (fst (write_bit b s) @ w) = b # listen w"
  by (simp add: write_bit_def dq_pulse_def)

lemma listen_bits: "listen (fst (write_bits n dat s)) = map (bit dat) [0..<n]"
proof (induction n arbitrary: dat s)
  case 0
  then show ?case by simp
next
  case (Suc n)
  have "listen (fst (write_bits (Suc n) dat s)) = bit dat 0 # map (bit (drop_bit 1 dat)) [0..<n]"
    using Suc.IH[of "drop_bit 1 dat" "snd (write_bit (bit dat 0) s)"]
    by (simp add: split_beta Let_def truth_and_1 listen_bit)
  also have "\<dots> = map (bit dat) [0..<Suc n]"
    unfolding upt_conv_Cons[OF zero_less_Suc] map_Suc_upt[symmetric] by (simp add: bit_simps)
  finally show ?case .
qed

text \<open>The level the \<open>k\<close>-th read of the bus sees.\<close>

definition dq_level :: "nat \<Rightarrow> 'a hw_st_scheme \<Rightarrow> bool" where
  "dq_level k s \<longleftrightarrow> bit (pin_level s k GPIOB) 0"

lemma read_bit_eq:
  "DS18B20_Read_Bit s = ([DQ_LOW, Delay_us 2, DQ_HIGH, Delay_us 12, Delay_us 50],
     if dq_level (input_reads s) s then 1 else 0,
     (DS18B20_DQ_OUT_HIGH (DS18B20_DQ_OUT_LOW s))\<lparr>input_reads := Suc (input_reads s)\<rparr>)"
proof -
  have "bit ((w :: u16) AND GPIO_Pin_no 0) k \<longleftrightarrow> k = 0 \<and> bit w 0" for w k
    by (auto simp: bit_simps)
  then have "(w :: u16) AND GPIO_Pin_no 0 \<noteq> 0 \<longleftrightarrow> bit w 0" for w
    using word_nonzero_bit_iff[of "w AND GPIO_Pin_no 0"] by auto
  then show ?thesis
    by (simp add: DS18B20_Read_Bit_def dq_pulse_def DS18B20_DQ_IN_def GPIO_ReadInputDataBit_def dq_level_def
        DS18B20_DQ_OUT_HIGH_def DS18B20_DQ_OUT_LOW_def GPIO_SetBits_def GPIO_ResetBits_def truth_def)
qed

lemma read_bits_bit:
  assumes "n \<le> 8" and "j < 8"
  shows "bit (fst (snd (read_bits n dat s))) j =
    (if j + n < 8 then bit dat (j + n) else dq_level (input_reads s + (j + n - 8)) s)"
  using assms(1)
proof (induction n arbitrary: dat s)
  case 0
  then show ?case using assms(2) by simp
next
  case (Suc n)
  let ?v = "if dq_level (input_reads s) s then 1 else 0 :: u8"
  let ?t = "(DS18B20_DQ_OUT_HIGH (DS18B20_DQ_OUT_LOW s))\<lparr>input_reads := Suc (input_reads s)\<rparr>"
  have lev: "dq_level k ?t = dq_level k s" for k
    by (simp add: dq_level_def DS18B20_DQ_OUT_HIGH_def DS18B20_DQ_OUT_LOW_def GPIO_SetBits_def GPIO_ResetBits_def)
  have "fst (snd (read_bits (Suc n) dat s)) = fst (snd (read_bits n (push_bit 7 ?v OR drop_bit 1 dat) ?t))"
    by (simp add: read_bit_eq split_beta)
  also have "bit \<dots> j = (if j + n < 8 then bit (push_bit 7 ?v OR drop_bit 1 dat) (j + n)
      else dq_level (input_reads ?t + (j + n - 8)) ?t)"
    using Suc by simp
  also have "\<dots> = (if j + Suc n < 8 then bit dat (j + Suc n) else dq_level (input_reads s + (j + Suc n - 8)) s)"
  proof (cases "j + n < 8")
    case True
    have "bit (push_bit 7 ?v OR drop_bit 1 dat) (j + n) =
        (if j + n = 7 then dq_level (input_reads s) s else bit dat (Suc (j + n)))"
    proof (cases "j + n = 7")
      case seven: True
      have "\<not> bit dat 8" using bit_imp_le_length[of dat 8] by auto
      then show ?thesis using seven by (auto simp: bit_simps)
    next
      case False
      then show ?thesis using True by (auto simp: bit_simps)
    qed
    then show ?thesis using True by auto
  next
    case False
    then have "Suc (input_reads s) + (j + n - 8) = input_reads s + (j + Suc n - 8)" by simp
    then show ?thesis using False lev by simp
  qed
  finally show ?case .
qed

text \<open>
  C40.  The two directions of the bus agree on the order of the bits and the meaning of the pulses: when
  the levels of the next eight reads are the ones a listener takes from the pulses of a written byte,
  the byte read is the byte written.
\<close>

theorem ds18b20_byte_roundtrip:
  assumes "\<forall>k < 8. dq_level (input_reads t + k) t = listen (fst (DS18B20_Write_Byte b s)) ! k"
  shows "fst (snd (DS18B20_Read_Byte t)) = b"
proof (rule bit_word_eqI)
  fix j :: nat
  assume "j < LENGTH(8)"
  then have j: "j < 8" by simp
  then have "bit (fst (snd (DS18B20_Read_Byte t))) j = dq_level (input_reads t + j) t"
    using read_bits_bit[of 8 j 0 t] by (simp add: DS18B20_Read_Byte_def)
  also have "\<dots> = bit b j"
    using assms j unfolding DS18B20_Write_Byte_def listen_bits by simp
  finally show "bit (fst (snd (DS18B20_Read_Byte t))) j = bit b j" .
qed

lemma ds18b20_byte_roundtrip_witness:
  "fst (snd (DS18B20_Read_Byte (hw_reset\<lparr>pin_level := (\<lambda>n p. if bit (0xA5 :: u8) n then 1 else 0)\<rparr>))) = 0xA5"
proof (rule ds18b20_byte_roundtrip[of _ "0xA5" hw_reset])
  show "\<forall>k < 8. dq_level (input_reads (hw_reset\<lparr>pin_level := (\<lambda>n p. if bit (0xA5 :: u8) n then 1 else 0)\<rparr>) + k)
      (hw_reset\<lparr>pin_level := (\<lambda>n p. if bit (0xA5 :: u8) n then 1 else 0)\<rparr>) =
      listen (fst (DS18B20_Write_Byte 0xA5 hw_reset)) ! k"
    unfolding DS18B20_Write_Byte_def listen_bits by (simp add: dq_level_def hw_reset_def)
qed

end
