(* ===== verification/Cmd_State.thy ===== *)
theory Cmd_State
  imports Motor_Init Board_Temp
begin

text \<open>
  The data of the command layer: a request frame (\<^verbatim>\<open>hm_cmd_type_def.h\<close>), the pool of requests and the
  table of commands of \<^verbatim>\<open>hm_cmd_inter_netwk.c\<close>, and the bytes of a frame.

  The build uses the network (\<open>HM_CMD_METHOD_NETWK\<close>).  The network stack itself is not modelled: a
  packet buffer and a connection are numbers, the calls of the stack are written to the list
  \<open>net_out\<close>, and the results of its allocations are read from the stream \<open>net_alloc\<close>.  The store
  \<open>net_bufs\<close> holds the payload of each packet buffer and the bytes of the buffers chained to it.
\<close>

section \<open>Bytes\<close>

text \<open>The core is little endian; the inputs of the commands are read through casts of byte buffers.\<close>

definition get_u8 :: "nat \<Rightarrow> u8 list \<Rightarrow> u8" where
  "get_u8 i b = b ! i"

definition get_u16 :: "nat \<Rightarrow> u8 list \<Rightarrow> u16" where
  "get_u16 i b = ucast (b ! i) OR push_bit 8 (ucast (b ! (i + 1)))"

definition get_u32 :: "nat \<Rightarrow> u8 list \<Rightarrow> u32" where
  "get_u32 i b = ucast (b ! i) OR push_bit 8 (ucast (b ! (i + 1))) OR
     push_bit 16 (ucast (b ! (i + 2))) OR push_bit 24 (ucast (b ! (i + 3)))"

definition put_u8 :: "nat \<Rightarrow> u8 \<Rightarrow> u8 list \<Rightarrow> u8 list" where
  "put_u8 i v b = b[i := v]"

definition put_u16 :: "nat \<Rightarrow> u16 \<Rightarrow> u8 list \<Rightarrow> u8 list" where
  "put_u16 i v b = b[i := ucast v, i + 1 := ucast (drop_bit 8 v)]"

definition put_u32 :: "nat \<Rightarrow> u32 \<Rightarrow> u8 list \<Rightarrow> u8 list" where
  "put_u32 i v b = b[i := ucast v, i + 1 := ucast (drop_bit 8 v),
     i + 2 := ucast (drop_bit 16 v), i + 3 := ucast (drop_bit 24 v)]"

lemma length_put [simp]: "length (put_u8 i v b) = length b" "length (put_u16 i w b) = length b"
    "length (put_u32 i x b) = length b"
  by (simp_all add: put_u8_def put_u16_def put_u32_def)

lemma get_put_u16: "i + 1 < length b \<Longrightarrow> get_u16 i (put_u16 i v b) = v"
  by (rule bit_word_eqI) (auto simp: get_u16_def put_u16_def nth_list_update_if bit_simps)

lemma get_put_u32:
  assumes "i + 3 < length b"
  shows "get_u32 i (put_u32 i v b) = v"
proof (rule bit_word_eqI)
  fix n :: nat
  assume "n < LENGTH(32)"
  then have n: "n < 32" by simp
  have "n < 8 \<or> 8 \<le> n \<and> n < 16 \<or> 16 \<le> n \<and> n < 24 \<or> 24 \<le> n \<and> n < 32" using n by linarith
  then show "bit (get_u32 i (put_u32 i v b)) n = bit v n" using assms
    by (elim disjE) (auto simp: get_u32_def put_u32_def nth_list_update_if bit_simps)
qed

lemma get_put_other:
  "j + 3 < i \<or> i + 3 < j \<Longrightarrow> get_u32 j (put_u32 i v b) = get_u32 j b"
  "j < i \<or> i + 3 < j \<Longrightarrow> get_u8 j (put_u32 i v b) = get_u8 j b"
  by (auto simp: get_u32_def put_u32_def get_u8_def)

section \<open>Requests\<close>

definition HM_CMD_MAX_INPUT_SIZE :: nat where "HM_CMD_MAX_INPUT_SIZE = 24"
definition HM_CMD_MARK1 :: u8 where "HM_CMD_MARK1 = 0x98"
definition HM_CMD_MARK2 :: u8 where "HM_CMD_MARK2 = 0x76"
definition HM_CMD_INVALID :: u8 where "HM_CMD_INVALID = 0xFF"
definition HM_CMD_OWER_CLIENT :: u8 where "HM_CMD_OWER_CLIENT = 9"

record hm_cmd_req =
  req_input :: "u8 list"
  input_len :: u8
  ncmd :: u8
  req_ret :: u8
  mark1 :: u8
  mark2 :: u8
  req_owner :: u8

text \<open>The frame as it is on the wire: the structure has byte fields only, so no padding.\<close>

definition sizeof_req :: nat where
  "sizeof_req = HM_CMD_MAX_INPUT_SIZE + 6"

definition req_of_bytes :: "u8 list \<Rightarrow> hm_cmd_req" where
  "req_of_bytes b = \<lparr>req_input = take 24 b, input_len = b ! 24, ncmd = b ! 25, req_ret = b ! 26,
     mark1 = b ! 27, mark2 = b ! 28, req_owner = b ! 29\<rparr>"

definition bytes_of_req :: "hm_cmd_req \<Rightarrow> u8 list" where
  "bytes_of_req r = req_input r @ [input_len r, ncmd r, req_ret r, mark1 r, mark2 r, req_owner r]"

definition req_wf :: "hm_cmd_req \<Rightarrow> bool" where
  "req_wf r \<longleftrightarrow> length (req_input r) = 24"

lemma req_of_bytes_wf: "length b = 30 \<Longrightarrow> req_wf (req_of_bytes b)"
  by (simp add: req_wf_def req_of_bytes_def)

lemma bytes_of_req_length: "req_wf r \<Longrightarrow> length (bytes_of_req r) = 30"
  by (simp add: req_wf_def bytes_of_req_def)

lemma req_of_bytes_of_req: "req_wf r \<Longrightarrow> req_of_bytes (bytes_of_req r) = r"
  by (simp add: req_wf_def req_of_bytes_def bytes_of_req_def nth_append)

lemma bytes_of_req_of_bytes: "length b = 30 \<Longrightarrow> bytes_of_req (req_of_bytes b) = b"
  by (rule nth_equalityI) (auto simp: req_of_bytes_def bytes_of_req_def nth_append nth_Cons'
      numeral_eq_Suc less_Suc_eq)

section \<open>State\<close>

datatype cmd_item_state = hmCmdStIdle | hmCmdStPushed | hmCmdStCalling

record hm_cmd_item =
  cmd_req :: hm_cmd_req
  item_state :: cmd_item_state
  item_pbuf :: "nat option"
  item_upcb :: "nat option"

text \<open>The callbacks of the command table; the firmware has one.\<close>

datatype cmd_ck = CK_hm_cmd_exc_ck

record hm_cmd_ck_pair =
  pair_ncmd :: u8
  pair_ck :: "cmd_ck option"

text \<open>
  The calls of the network stack and of its driver.  The two receive callbacks of the firmware are both
  named \<open>udp_server_callback\<close>, one in \<^verbatim>\<open>hm_cmd_inter_netwk.c\<close> and one in \<^verbatim>\<open>server.c\<close>.
\<close>

datatype udp_ck = CK_command_server | CK_echo_server

datatype net_act =
    mem_init | memp_init | netif_add "u8 list" "u8 list" "u8 list"
  | netif_set_default | netif_set_up | etharp_tmr
  | udp_bind "nat option" u16 | udp_recv "nat option" udp_ck | udp_connect "nat option" u32 u16
  | udp_send "nat option" "nat option" "u8 list" | udp_disconnect "nat option"
  | udp_remove "nat option" | pbuf_free "nat option"

record hm_debug =
  bdebug_on :: u32
  debug_pbuf :: "nat option"
  debug_upcb :: "nat option"
  debug_nport :: u16
  debug_paddr :: u32

record cmd_st = motor_st +
  s_debug_off :: u32
  s_cmd_queue :: "hm_cmd_item list"
  s_cmd_table :: "hm_cmd_ck_pair list"
  s_queue_idx :: u32
  s_debug :: hm_debug
  net_alloc :: "nat \<Rightarrow> nat option"
  net_allocs :: nat
  net_bufs :: "nat \<Rightarrow> u8 list \<times> u8 list"
  net_out :: "net_act list"

definition net_do :: "net_act \<Rightarrow> 'a cmd_st_scheme \<Rightarrow> 'a cmd_st_scheme" where
  "net_do x s = s\<lparr>net_out := net_out s @ [x]\<rparr>"

text \<open>\<open>udp_new\<close> and \<open>pbuf_alloc\<close>: null when there is no memory.\<close>

definition net_new :: "'a cmd_st_scheme \<Rightarrow> nat option \<times> 'a cmd_st_scheme" where
  "net_new s = (net_alloc s (net_allocs s), s\<lparr>net_allocs := net_allocs s + 1\<rparr>)"

section \<open>Debug output\<close>

definition HM_UDP_PORT :: u16 where "HM_UDP_PORT = 5987"
definition HM_UDP_PORT_LOG :: u16 where "HM_UDP_PORT_LOG = 5988"

definition hm_uart_debug_off :: "u32 \<Rightarrow> 'a cmd_st_scheme \<Rightarrow> 'a cmd_st_scheme" where
  "hm_uart_debug_off boff s = s\<lparr>s_debug_off := boff\<rparr>"

definition hm_uart_is_debug_off :: "'a cmd_st_scheme \<Rightarrow> u32" where
  "hm_uart_is_debug_off s = s_debug_off s"

definition upd_debug :: "(hm_debug \<Rightarrow> hm_debug) \<Rightarrow> 'a cmd_st_scheme \<Rightarrow> 'a cmd_st_scheme" where
  "upd_debug f s = s\<lparr>s_debug := f (s_debug s)\<rparr>"

definition hm_cmd_net_init_debug :: "u32 \<Rightarrow> u16 \<Rightarrow> 'a cmd_st_scheme \<Rightarrow> 'a cmd_st_scheme" where
  "hm_cmd_net_init_debug on nport s =
     (let s = upd_debug (\<lambda>d. d\<lparr>bdebug_on := on\<rparr>) s in
      if truth on then
        let s = (if debug_upcb (s_debug s) = None then
                   let (pb, s) = net_new s;
                       s = upd_debug (\<lambda>d. d\<lparr>debug_pbuf := pb\<rparr>) s;
                       (pcb, s) = net_new s;
                       s = upd_debug (\<lambda>d. d\<lparr>debug_upcb := pcb\<rparr>) s
                   in net_do (udp_bind pcb HM_UDP_PORT_LOG) s
                 else s);
            s = upd_debug (\<lambda>d. d\<lparr>debug_nport := nport\<rparr>) s
        in net_do (udp_connect (debug_upcb (s_debug s)) (debug_paddr (s_debug s)) nport) s
      else
        let s = net_do (pbuf_free (debug_pbuf (s_debug s))) s;
            s = net_do (udp_remove (debug_upcb (s_debug s))) s
        in upd_debug (\<lambda>d. d\<lparr>debug_pbuf := None, debug_upcb := None\<rparr>) s)"

definition hm_net_isdebugon :: "'a cmd_st_scheme \<Rightarrow> u32" where
  "hm_net_isdebugon s = bdebug_on (s_debug s)"

section \<open>A board for trials\<close>

text \<open>The command layer as it is loaded, all zero, on a given board; the network has memory for ever.\<close>

definition req_zero :: hm_cmd_req where
  "req_zero = \<lparr>req_input = replicate 24 0, input_len = 0, ncmd = 0, req_ret = 0, mark1 = 0, mark2 = 0, req_owner = 0\<rparr>"

definition cmd_on :: "motor_st \<Rightarrow> cmd_st" where
  "cmd_on m = motor_st.extend m (cmd_st.fields 0
     (replicate 20 \<lparr>cmd_req = req_zero, item_state = hmCmdStIdle, item_pbuf = None, item_upcb = None\<rparr>)
     (replicate 20 \<lparr>pair_ncmd = 0, pair_ck = None\<rparr>) 0
     \<lparr>bdebug_on = 0, debug_pbuf = None, debug_upcb = None, debug_nport = 0, debug_paddr = 0\<rparr> Some 0 (\<lambda>_. ([], [])) [])"

lemma cmd_on_sel [simp]:
  "s_axis_info (cmd_on m) = s_axis_info m" "dma (cmd_on m) = dma m" "tim (cmd_on m) = tim m"
  "DMA1_ISR (cmd_on m) = DMA1_ISR m" "input_reads (cmd_on m) = input_reads m" "pin_level (cmd_on m) = pin_level m"
  "axis a (cmd_on m) = axis a m" "exti (cmd_on m) = exti m" "gpio (cmd_on m) = gpio m"
  by (simp_all add: cmd_on_def motor_st.defs cmd_st.defs axis_def del: axis_list)

end
