(* ===== verification/Cmd_Exec.thy ===== *)
theory Cmd_Exec
  imports Cmd_State
begin

text \<open>
  The commands of the host, \<^verbatim>\<open>hm_cmd_execute.c\<close>: one callback reads a command and its input from the
  request, calls the driver, and writes the results back into the request.  The layouts of the inputs are
  those of \<^verbatim>\<open>hm_cmds_def.h\<close> and \<^verbatim>\<open>hm_struct_public.h\<close>.

  An operation here returns the result code, the input bytes with the results in them, and the state.
\<close>

section \<open>Command numbers and input sizes\<close>

definition hmCmdFixMove :: u8 where "hmCmdFixMove = 0"
definition hmCmdKeepMove :: u8 where "hmCmdKeepMove = 1"
definition hmCmdStopMove :: u8 where "hmCmdStopMove = 2"
definition hmCmdEnableAxis :: u8 where "hmCmdEnableAxis = 3"
definition hmCmdGetAxisStatus :: u8 where "hmCmdGetAxisStatus = 4"
definition hmCmdGetAxisSetting :: u8 where "hmCmdGetAxisSetting = 5"
definition hmCmdCmdLed :: u8 where "hmCmdCmdLed = 6"
definition hmCmdSetPos :: u8 where "hmCmdSetPos = 7"
definition hmCmdGetSystemInfo :: u8 where "hmCmdGetSystemInfo = 8"
definition hmCmdIo :: u8 where "hmCmdIo = 9"
definition hmGetVersion :: u8 where "hmGetVersion = 10"
definition hmResetBoard :: u8 where "hmResetBoard = 11"
definition hmDebugOpe :: u8 where "hmDebugOpe = 12"
definition hmResetForLoad :: u8 where "hmResetForLoad = 13"

lemmas cmd_nos = hmCmdFixMove_def hmCmdKeepMove_def hmCmdStopMove_def hmCmdEnableAxis_def
  hmCmdGetAxisStatus_def hmCmdGetAxisSetting_def hmCmdCmdLed_def hmCmdSetPos_def hmCmdGetSystemInfo_def
  hmCmdIo_def hmGetVersion_def hmResetBoard_def hmDebugOpe_def hmResetForLoad_def

definition SW_VERSION :: u16 where "SW_VERSION = push_bit 8 2 OR 7"

section \<open>The commands\<close>

type_synonym 'a cmd_res = "(u8 \<times> u8 list \<times> 'a) res"

definition exec_fix_move :: "u8 list \<Rightarrow> 'a cmd_st_scheme \<Rightarrow> 'a cmd_st_scheme cmd_res" where
  "exec_fix_move i s =
     bnd (hm_step_motor_move (unat (get_u32 0 i)) (get_u32 4 i) (get_u32 8 i) (get_u32 12 i) (get_u32 16 i) s)
       (\<lambda>(r, s). Ok (of_truth r, i, s))"

definition exec_keep_move :: "u8 list \<Rightarrow> 'a cmd_st_scheme \<Rightarrow> 'a cmd_st_scheme cmd_res" where
  "exec_keep_move i s =
     (let axis = unat (get_u32 0 i); accel = get_u32 4 i; speed = get_u32 12 i in
      bnd (if truth (get_u32 16 i) then hm_step_motor_start_homing axis accel speed s
           else hm_step_motor_start_free_run axis accel speed s) (\<lambda>(r, s). Ok (of_truth r, i, s)))"

definition exec_set_pos :: "u8 list \<Rightarrow> 'a cmd_st_scheme \<Rightarrow> 'a cmd_st_scheme cmd_res" where
  "exec_set_pos i s = Ok (1, i, hm_step_motor_set_cur_pos (unat (get_u32 0 i)) (get_u32 4 i) s)"

definition exec_enable_axis :: "u8 list \<Rightarrow> 'a cmd_st_scheme \<Rightarrow> 'a cmd_st_scheme cmd_res" where
  "exec_enable_axis i s =
     (let (r, s) = hm_motor_enable_axis (unat (get_u32 0 i)) (truth (get_u32 4 i)) s in Ok (of_truth r, i, s))"

definition exec_system_info :: "u8 list \<Rightarrow> 'a cmd_st_scheme \<Rightarrow> 'a cmd_st_scheme cmd_res" where
  "exec_system_info i s =
     (if truth (get_u32 4 i) then Ok (1, i, hm_uart_debug_off (get_u32 0 i) s)
      else let i = put_u32 0 (hm_uart_is_debug_off s) i in Ok (1, put_u16 8 DS18B20_Get_Temp i, s))"

definition exec_stop_move :: "u8 list \<Rightarrow> 'a cmd_st_scheme \<Rightarrow> 'a cmd_st_scheme cmd_res" where
  "exec_stop_move i s =
     (if truth (get_u8 4 i)
      then (let (r, s) = hm_step_motor_stop_smooth (unat (get_u32 0 i)) s in Ok (of_truth r, i, s))
      else bnd (hm_step_motor_stop_sundden (unat (get_u32 0 i)) s) (\<lambda>(r, s). Ok (of_truth r, i, s)))"

text \<open>
  The flags of an axis setting.  When the axis does not exist the four locals of the source keep no
  value, but then no setter looks at them either; they are zero here.
\<close>

definition hmsHomeTriger :: u8 where "hmsHomeTriger = 0x01"
definition hmsStopModeCW :: u8 where "hmsStopModeCW = 0x02"
definition hmsStopModeCCW :: u8 where "hmsStopModeCCW = 0x04"
definition hmsStopModeHome :: u8 where "hmsStopModeHome = 0x08"
definition hmsCurve :: u8 where "hmsCurve = 0x10"

definition setting_get :: "u8 list \<Rightarrow> 'a cmd_st_scheme \<Rightarrow> u8 list" where
  "setting_get i s =
     (let axis = unat (get_u32 0 i);
          i = (if truth (get_u8 20 i AND hmsHomeTriger) then put_u32 4 (hm_step_motor_get_home_stop_mode axis s) i else i)
      in case hm_motor_get_stop_mode axis s of
           None \<Rightarrow> i
         | Some (cw, ccw, home, tc) \<Rightarrow> put_u8 22 tc (put_u32 16 home (put_u32 12 ccw (put_u32 8 cw i))))"

definition setting_set :: "u8 list \<Rightarrow> 'a cmd_st_scheme \<Rightarrow> 'a cmd_st_scheme" where
  "setting_set i s =
     (let axis = unat (get_u32 0 i); flag = get_u8 20 i;
          (bstopModeCW, bstopModeCCW, bstopModeHome, bTCurve) =
            (case hm_motor_get_stop_mode axis s of None \<Rightarrow> (0, 0, 0, 0) | Some x \<Rightarrow> x);
          s = (if truth (flag AND hmsHomeTriger)
               then hm_step_motor_set_home_stop_mode axis (get_u32 4 i) s else s);
          s = (if truth (flag AND hmsStopModeCW)
               then hm_motor_set_stop_mode axis (get_u32 8 i) bstopModeCCW bstopModeHome (ucast bTCurve) s else s);
          s = (if truth (flag AND hmsStopModeCCW)
               then hm_motor_set_stop_mode axis bstopModeCCW (get_u32 12 i) bstopModeHome (ucast bTCurve) s else s);
          s = (if truth (flag AND hmsStopModeHome)
               then hm_motor_set_stop_mode axis bstopModeCCW bstopModeCCW (get_u32 16 i) (ucast bTCurve) s else s)
      in if truth (flag AND hmsCurve)
         then hm_motor_set_stop_mode axis bstopModeCCW bstopModeCCW bstopModeHome (ucast (get_u8 22 i)) s else s)"

definition exec_axis_setting :: "u8 list \<Rightarrow> 'a cmd_st_scheme \<Rightarrow> 'a cmd_st_scheme cmd_res" where
  "exec_axis_setting i s =
     (if truth (get_u8 21 i) then Ok (1, setting_get i s, s) else Ok (1, i, setting_set i s))"

definition hmsStoped :: u32 where "hmsStoped = 0x01"
definition hmsHitCW :: u32 where "hmsHitCW = 0x02"
definition hmsHitCCW :: u32 where "hmsHitCCW = 0x04"
definition hmsHitHome :: u32 where "hmsHitHome = 0x08"
definition hmsEnabled :: u32 where "hmsEnabled = 0x10"

definition flag_if :: "bool \<Rightarrow> u32 \<Rightarrow> u8 list \<Rightarrow> u8 list" where
  "flag_if b f i = (if b then put_u32 8 (get_u32 8 i OR f) i else i)"

definition exec_axis_status :: "u8 list \<Rightarrow> 'a cmd_st_scheme \<Rightarrow> 'a cmd_st_scheme cmd_res" where
  "exec_axis_status i s =
     (let axis = unat (get_u32 0 i); i = put_u32 8 0 i in
      bnd (hm_step_motor_get_cur_pos axis s) (\<lambda>pos.
      let i = put_u32 4 pos i in
      bnd (hm_step_motor_get_curr_speed axis s) (\<lambda>speed.
      let i = put_u32 12 speed i in
      bnd (on_axis axis s (Ok (hm_step_motor_state axis s))) (\<lambda>st.
      let i = flag_if (st = rsSTOP) hmsStoped i in
      bnd (hm_motor_hit_CW axis s) (\<lambda>(cw, s).
      let i = flag_if cw hmsHitCW i in
      bnd (hm_motor_hit_CCW axis s) (\<lambda>(ccw, s).
      let i = flag_if ccw hmsHitCCW i in
      bnd (hm_motor_hit_Home axis s) (\<lambda>(home, s).
      let i = flag_if home hmsHitHome i in
      bnd (hm_motor_is_enable axis s) (\<lambda>en.
      Ok (1, flag_if (truth en) hmsEnabled i, s)))))))))"

definition exec_led :: "u8 list \<Rightarrow> 'a cmd_st_scheme \<Rightarrow> 'a cmd_st_scheme cmd_res" where
  "exec_led i s =
     (let idx = get_u32 0 i; bon = truth (get_u32 4 i);
          s = (if idx = 1 then hm_led_act ltCh1 bon s else s);
          s = (if idx = 2 then hm_led_act ltCh2 bon s else s);
          s = (if idx = 3 then hm_led_act ltCh3 bon s else s);
          s = (if idx = 4 then hm_led_act ltCh4 bon s else s)
      in Ok (1, i, s))"

definition exec_io :: "u8 list \<Rightarrow> 'a cmd_st_scheme \<Rightarrow> 'a cmd_st_scheme cmd_res" where
  "exec_io i s =
     (let idx = get_u32 0 i;
          i = put_u32 16 0 i;
          (i, s) =
            (if truth (get_u32 8 i) then
               (if truth (get_u32 4 i) then (put_u32 16 (hm_gpio_get_out_bit idx s) i, s)
                else (i, snd (hm_gpio_out_bit idx (get_u32 12 i) s)))
             else let (v, s) = hm_gpio_in_bit idx s in (put_u32 16 v i, s))
      in Ok (if get_u32 16 i = 0xffff then 0 else 1, i, s))"

definition exec_version :: "u8 list \<Rightarrow> 'a cmd_st_scheme \<Rightarrow> 'a cmd_st_scheme cmd_res" where
  "exec_version i s = Ok (1, put_u16 0 SW_VERSION i, s)"

definition exec_debug :: "u8 list \<Rightarrow> 'a cmd_st_scheme \<Rightarrow> 'a cmd_st_scheme cmd_res" where
  "exec_debug i s = Ok (1, i, hm_cmd_net_init_debug (get_u32 0 i) (get_u16 4 i) s)"

definition exec_reset_for_load :: "u8 list \<Rightarrow> 'a cmd_st_scheme \<Rightarrow> 'a cmd_st_scheme cmd_res" where
  "exec_reset_for_load i s = Ok (0, i, snd (hm_msg_queue_add (Some CK_hm_cmd_reboot_ck) NoParam s))"

definition exec_reset_board :: "u8 list \<Rightarrow> 'a cmd_st_scheme \<Rightarrow> 'a cmd_st_scheme cmd_res" where
  "exec_reset_board i s =
     (let s = fold (\<lambda>k s. snd (hm_gpio_out_bit (word_of_nat k) 0 s)) [0..<HM_MAX_GPIO_OUT] s;
          s = fold (\<lambda>a s. hm_step_motor_set_cur_pos a 0 (snd (hm_step_motor_stop_smooth a s))) [0..<HM_MAX_AXIS] s
      in Ok (1, i, s))"

section \<open>The callback\<close>

text \<open>A command whose input has not the size of its structure is refused.\<close>

definition sized ::
  "nat \<Rightarrow> hm_cmd_req \<Rightarrow> (u8 list \<Rightarrow> 'a cmd_st_scheme \<Rightarrow> 'a cmd_st_scheme cmd_res) \<Rightarrow> 'a cmd_st_scheme \<Rightarrow>
     'a cmd_st_scheme cmd_res" where
  "sized n r f s = (if unat (input_len r) \<noteq> n then Ok (0, req_input r, s) else f (req_input r) s)"

definition exec_cmd :: "hm_cmd_req \<Rightarrow> 'a cmd_st_scheme \<Rightarrow> 'a cmd_st_scheme cmd_res" where
  "exec_cmd r s =
     (let c = ncmd r in
      if c = hmCmdFixMove then sized 20 r exec_fix_move s
      else if c = hmCmdKeepMove then sized 20 r exec_keep_move s
      else if c = hmCmdSetPos then exec_set_pos (req_input r) s
      else if c = hmCmdEnableAxis then exec_enable_axis (req_input r) s
      else if c = hmCmdGetSystemInfo then exec_system_info (req_input r) s
      else if c = hmCmdStopMove then sized 8 r exec_stop_move s
      else if c = hmCmdGetAxisSetting then sized 24 r exec_axis_setting s
      else if c = hmCmdGetAxisStatus then sized 16 r exec_axis_status s
      else if c = hmCmdCmdLed then sized 8 r exec_led s
      else if c = hmCmdIo then sized 20 r exec_io s
      else if c = hmGetVersion then sized 2 r exec_version s
      else if c = hmDebugOpe then sized 8 r exec_debug s
      else if c = hmResetForLoad then exec_reset_for_load (req_input r) s
      else if c = hmResetBoard then exec_reset_board (req_input r) s
      else Ok (0, req_input r, s))"

definition hm_cmd_exc_ck :: "hm_cmd_req \<Rightarrow> 'a cmd_st_scheme \<Rightarrow> (hm_cmd_req \<times> 'a cmd_st_scheme) res" where
  "hm_cmd_exc_ck r s =
     bnd (exec_cmd r s) (\<lambda>(ret, i, s). Ok (r\<lparr>req_input := i, req_ret := ret\<rparr>, s))"


section \<open>Refusals\<close>

text \<open>The sizes of the inputs that are checked.\<close>

definition checked_sizes :: "(u8 \<times> nat) list" where
  "checked_sizes = [(hmCmdFixMove, 20), (hmCmdKeepMove, 20), (hmCmdStopMove, 8), (hmCmdGetAxisSetting, 24),
     (hmCmdGetAxisStatus, 16), (hmCmdCmdLed, 8), (hmCmdIo, 20), (hmGetVersion, 2), (hmDebugOpe, 8)]"

lemma req_same: "r\<lparr>req_input := req_input r, req_ret := v\<rparr> = r\<lparr>req_ret := v\<rparr>"
  by simp

text \<open>
  A request with an unknown command number, or with an input length that is not the size of the
  structure of its command, is answered with the result 0 and changes nothing.
\<close>

theorem exec_refused:
  assumes "13 < unat (ncmd r) \<or> (\<exists>n. (ncmd r, n) \<in> set checked_sizes \<and> unat (input_len r) \<noteq> n)"
  shows "hm_cmd_exc_ck r s = Ok (r\<lparr>req_ret := 0\<rparr>, s)"
proof -
  have "exec_cmd r s = Ok (0, req_input r, s)"
    using assms
  proof
    assume "13 < unat (ncmd r)"
    then have "ncmd r \<noteq> c" if "unat c \<le> 13" for c using that by auto
    then show ?thesis by (simp add: exec_cmd_def cmd_nos)
  next
    assume "\<exists>n. (ncmd r, n) \<in> set checked_sizes \<and> unat (input_len r) \<noteq> n"
    then show ?thesis by (auto simp: checked_sizes_def exec_cmd_def cmd_nos sized_def)
  qed
  then show ?thesis by (simp add: hm_cmd_exc_ck_def)
qed

definition demo_req :: "u8 \<Rightarrow> u8 \<Rightarrow> hm_cmd_req" where
  "demo_req c n = \<lparr>req_input = replicate 24 0, input_len = n, ncmd = c, req_ret = 7,
     mark1 = HM_CMD_MARK1, mark2 = HM_CMD_MARK2, req_owner = HM_CMD_OWER_CLIENT\<rparr>"

lemma exec_refused_witness:
  "hm_cmd_exc_ck (demo_req hmCmdFixMove 19) (cmd_on bench) = Ok ((demo_req hmCmdFixMove 19)\<lparr>req_ret := 0\<rparr>, cmd_on bench)"
  by (rule exec_refused) (simp add: demo_req_def checked_sizes_def cmd_nos)

section \<open>The status of an axis\<close>

lemma hits_steady:
  assumes "a < length (s_axis_info s)" and "steady s"
  shows "\<exists>n. hm_motor_hit_CW a s = Ok (closed_sw SwCW a s, s\<lparr>input_reads := n\<rparr>) \<and> input_reads s \<le> n"
    and "\<exists>n. hm_motor_hit_CCW a s = Ok (closed_sw SwCCW a s, s\<lparr>input_reads := n\<rparr>) \<and> input_reads s \<le> n"
    and "\<exists>n. hm_motor_hit_Home a s = Ok (closed_sw SwHome a s, s\<lparr>input_reads := n\<rparr>) \<and> input_reads s \<le> n"
proof -
  have hit: "\<exists>n. sw_hit sw a s = Ok (closed_sw sw a s, s\<lparr>input_reads := n\<rparr>) \<and> input_reads s \<le> n" for sw
    by (rule sw_hit_steady[OF assms, of sw]) blast
  show "\<exists>n. hm_motor_hit_CW a s = Ok (closed_sw SwCW a s, s\<lparr>input_reads := n\<rparr>) \<and> input_reads s \<le> n"
    using hit[of SwCW] unfolding sw_hit.simps .
  show "\<exists>n. hm_motor_hit_CCW a s = Ok (closed_sw SwCCW a s, s\<lparr>input_reads := n\<rparr>) \<and> input_reads s \<le> n"
    using hit[of SwCCW] unfolding sw_hit.simps .
  show "\<exists>n. hm_motor_hit_Home a s = Ok (closed_sw SwHome a s, s\<lparr>input_reads := n\<rparr>) \<and> input_reads s \<le> n"
    using hit[of SwHome] unfolding sw_hit.simps .
qed

lemma flag_if_bytes:
  assumes "length i = 24"
  shows "length (flag_if b f i) = 24" "get_u32 0 (flag_if b f i) = get_u32 0 i" "get_u32 4 (flag_if b f i) = get_u32 4 i"
    "get_u32 12 (flag_if b f i) = get_u32 12 i" "get_u32 8 (flag_if b f i) = get_u32 8 i OR (if b then f else 0)"
  using assms by (simp_all add: flag_if_def get_put_other get_put_u32)

definition status_word :: "bool \<Rightarrow> bool \<Rightarrow> bool \<Rightarrow> bool \<Rightarrow> bool \<Rightarrow> u32" where
  "status_word st cw ccw home en = of_truth st OR push_bit 1 (of_truth cw) OR push_bit 2 (of_truth ccw) OR
     push_bit 3 (of_truth home) OR push_bit 4 (of_truth en)"

lemma exec_axis_status_eq:
  assumes a: "unat (get_u32 0 i) < 4" and len: "length (s_axis_info s) = 4" and i: "length i = 24" and st: "steady s"
    and pos: "hm_step_motor_get_cur_pos (unat (get_u32 0 i)) s = Ok pos"
    and speed: "hm_step_motor_get_curr_speed (unat (get_u32 0 i)) s = Ok speed"
  shows "\<exists>i' n. exec_axis_status i s = Ok (1, i', s\<lparr>input_reads := n\<rparr>) \<and> length i' = 24 \<and>
    get_u32 0 i' = get_u32 0 i \<and> get_u32 4 i' = pos \<and> get_u32 12 i' = speed \<and>
    get_u32 8 i' = (let a = unat (get_u32 0 i) in status_word (axis_state (axis a s) = asStoped)
      (closed_sw SwCW a s) (closed_sw SwCCW a s) (closed_sw SwHome a s) (benabled (hw_of a s)))"
proof -
  let ?a = "unat (get_u32 0 i)"
  have al: "?a < length (s_axis_info s)" using a len by simp
  obtain n1 where n1: "hm_motor_hit_CW ?a s = Ok (closed_sw SwCW ?a s, s\<lparr>input_reads := n1\<rparr>)" "input_reads s \<le> n1"
    using hits_steady(1)[OF al st] by blast
  have st1: "steady (s\<lparr>input_reads := n1\<rparr>)" by (rule steady_reads[OF st n1(2)])
  obtain n2 where n2: "hm_motor_hit_CCW ?a (s\<lparr>input_reads := n1\<rparr>) = Ok (closed_sw SwCCW ?a s, s\<lparr>input_reads := n2\<rparr>)" "n1 \<le> n2"
    using hits_steady(2)[OF _ st1, of ?a] al closed_sw_reads[OF st n1(2)] by auto
  have le2: "input_reads s \<le> n2" using n1(2) n2(2) by simp
  have st2: "steady (s\<lparr>input_reads := n2\<rparr>)" by (rule steady_reads[OF st le2])
  obtain n3 where n3: "hm_motor_hit_Home ?a (s\<lparr>input_reads := n2\<rparr>) = Ok (closed_sw SwHome ?a s, s\<lparr>input_reads := n3\<rparr>)"
    using hits_steady(3)[OF _ st2, of ?a] al closed_sw_reads[OF st le2] by auto
  let ?i0 = "put_u32 12 speed (put_u32 4 pos (put_u32 8 0 i))"
  let ?i' = "flag_if (benabled (hw_of ?a s)) hmsEnabled (flag_if (closed_sw SwHome ?a s) hmsHitHome
    (flag_if (closed_sw SwCCW ?a s) hmsHitCCW (flag_if (closed_sw SwCW ?a s) hmsHitCW
      (flag_if (axis_state (axis ?a s) = asStoped) hmsStoped ?i0))))"
  have "exec_axis_status i s = Ok (1, ?i', s\<lparr>input_reads := n3\<rparr>)"
    unfolding exec_axis_status_def Let_def pos bnd_Ok speed
    using al n1(1) n2(1) n3 by (simp add: hm_motor_is_enable_def hm_step_motor_state_def)
  moreover have "get_u32 0 ?i0 = get_u32 0 i" "get_u32 4 ?i0 = pos" "get_u32 8 ?i0 = 0" "get_u32 12 ?i0 = speed" "length ?i0 = 24"
    using i by (simp_all add: get_put_other get_put_u32)
  moreover have "0 OR (if b0 then hmsStoped else 0) OR (if b1 then hmsHitCW else 0) OR (if b2 then hmsHitCCW else 0) OR
      (if b3 then hmsHitHome else 0) OR (if b4 then hmsEnabled else 0) = status_word b0 b1 b2 b3 b4" for b0 b1 b2 b3 b4
    by (simp add: status_word_def hmsStoped_def hmsHitCW_def hmsHitCCW_def hmsHitHome_def hmsEnabled_def of_truth_def)
  ultimately show ?thesis
    by (intro exI[of _ ?i'] exI[of _ n3]) (simp add: flag_if_bytes Let_def or.assoc)
qed

text \<open>
  The status of an axis, with inputs that do not change.  For an axis of the board the answer holds its
  position, its speed, and one bit each for stopped, the three closed switches, and enabled; the axes are
  as they were.  The axis number is not checked by the command: any other number reads outside the array.
\<close>

theorem axis_status_exact:
  assumes "ncmd r = hmCmdGetAxisStatus" and "input_len r = 16" and "req_wf r"
    and "length (s_axis_info s) = 4" and "steady s"
    and "a = unat (get_u32 0 (req_input r))"
    and "hm_step_motor_get_cur_pos a s = Ok pos" and "hm_step_motor_get_curr_speed a s = Ok speed"
  shows "if a < 4 then
      \<exists>r' t. hm_cmd_exc_ck r s = Ok (r', t) \<and> req_ret r' = 1 \<and> s_axis_info t = s_axis_info s \<and>
        get_u32 4 (req_input r') = pos \<and> get_u32 12 (req_input r') = speed \<and>
        get_u32 8 (req_input r') = status_word (axis_state (axis a s) = asStoped)
          (closed_sw SwCW a s) (closed_sw SwCCW a s) (closed_sw SwHome a s) (benabled (hw_of a s))
    else hm_cmd_exc_ck r s = Fault OutOfBounds"
proof (cases "a < 4")
  case True
  have cmd: "exec_cmd r s = exec_axis_status (req_input r) s"
    using assms(1,2) by (simp add: exec_cmd_def cmd_nos sized_def)
  obtain i' n where "exec_axis_status (req_input r) s = Ok (1, i', s\<lparr>input_reads := n\<rparr>)"
    "get_u32 4 i' = pos" "get_u32 12 i' = speed"
    "get_u32 8 i' = status_word (axis_state (axis a s) = asStoped)
      (closed_sw SwCW a s) (closed_sw SwCCW a s) (closed_sw SwHome a s) (benabled (hw_of a s))"
    using exec_axis_status_eq[of "req_input r" s pos speed] assms True by (auto simp: req_wf_def Let_def)
  then show ?thesis using True cmd by (simp add: hm_cmd_exc_ck_def)
next
  case False
  have "exec_cmd r s = exec_axis_status (req_input r) s"
    using assms(1,2) by (simp add: exec_cmd_def cmd_nos sized_def)
  also have "\<dots> = Fault OutOfBounds"
    unfolding exec_axis_status_def Let_def assms(6)[symmetric] assms(7,8) bnd_Ok
    using False assms(4) by (simp add: on_axis_def)
  finally show ?thesis using False by (simp add: hm_cmd_exc_ck_def)
qed

section \<open>Settings\<close>

text \<open>What the callbacks do to the settings of an axis, seen from its fields.\<close>

lemma modes_eq:
  assumes "a < 4" and "length (s_axis_info s) = 4"
  shows "axis a (hm_motor_set_stop_mode a cw ccw home tc s) =
      (axis a s)\<lparr>motor_hw_config := (hw_of a s)\<lparr>bStopImmediatelyCW := cw, bStopImmediatelyCCW := ccw,
          bStopImmediatelyHome := home\<rparr>, motor_method := (if truth tc then TCurve else sCurve)\<rparr>"
    and "axis a (hm_step_motor_set_home_stop_mode a v s) = (axis a s)\<lparr>bhome_stop_low_triger := v\<rparr>"
    and "length (s_axis_info (hm_motor_set_stop_mode a cw ccw home tc s)) = 4"
    and "length (s_axis_info (hm_step_motor_set_home_stop_mode a v s)) = 4"
  using assms by (simp_all add: hm_motor_set_stop_mode_def hm_step_motor_set_home_stop_mode_def HM_MAX_AXIS_def)

lemma truth_ucast_of_truth [simp]: "truth (ucast (of_truth b :: u8) :: u32) = b"
  by (simp add: of_truth_def truth_def)

text \<open>
  The modes of an axis after a setting command with any combination of flags.  A flag sets its own
  mode, but the later setters put back values they read before the first one, and all but the first put
  the old CCW mode into the CW mode: setting any other mode, or the curve, also changes the one mode that
  decides how an axis stops at its switches.
\<close>

theorem axis_setting_modes:
  assumes "a = unat (get_u32 0 i)" and "a < 4" and "length (s_axis_info s) = 4" and "get_u8 21 i = 0"
  shows "\<exists>t. exec_axis_setting i s = Ok (1, i, t) \<and>
    (let f = get_u8 20 i; c = hw_of a s; d = hw_of a t;
         home = truth (f AND hmsHomeTriger); cw = truth (f AND hmsStopModeCW);
         ccw = truth (f AND hmsStopModeCCW); hm = truth (f AND hmsStopModeHome); curve = truth (f AND hmsCurve)
     in bStopImmediatelyCW d =
          (if ccw \<or> hm \<or> curve then bStopImmediatelyCCW c else if cw then get_u32 8 i else bStopImmediatelyCW c) \<and>
        bStopImmediatelyCCW d = (if \<not> hm \<and> \<not> curve \<and> ccw then get_u32 12 i else bStopImmediatelyCCW c) \<and>
        bStopImmediatelyHome d = (if \<not> curve \<and> hm then get_u32 16 i else bStopImmediatelyHome c) \<and>
        motor_method (axis a t) =
          (if curve then (if truth (get_u8 22 i) then TCurve else sCurve) else motor_method (axis a s)) \<and>
        bhome_stop_low_triger (axis a t) = (if home then get_u32 4 i else bhome_stop_low_triger (axis a s)))"
proof -
  have get: "hm_motor_get_stop_mode a s = Some (bStopImmediatelyCW (hw_of a s), bStopImmediatelyCCW (hw_of a s),
      bStopImmediatelyHome (hw_of a s), of_truth (motor_method (axis a s) = TCurve))"
    using assms(2) by (simp add: hm_motor_get_stop_mode_def HM_MAX_AXIS_def)
  have m: "e \<noteq> TCurve \<longrightarrow> sCurve = e" for e by (cases e) auto
  have uc: "truth (ucast v :: u32) = truth v" for v :: u8
  proof -
    have "unat (ucast v :: u32) = unat v" using unsigned_less[of v, where 'a = nat] by (intro unat_ucast_small) simp
    then show ?thesis unfolding truth_def using unat_eq_0 by metis
  qed
  show ?thesis
    unfolding exec_axis_setting_def setting_set_def Let_def assms(1)[symmetric] get
    using assms(2-4)
    by (cases "truth (get_u8 20 i AND hmsHomeTriger)"; cases "truth (get_u8 20 i AND hmsStopModeCW)";
        cases "truth (get_u8 20 i AND hmsStopModeCCW)"; cases "truth (get_u8 20 i AND hmsStopModeHome)";
        cases "truth (get_u8 20 i AND hmsCurve)"; simp add: modes_eq uc truth_def[of 0] m)
qed

text \<open>The flag of the CCW mode alone.\<close>

lemma axis_setting_modes_witness:
  "\<exists>t. exec_axis_setting (put_u8 20 4 (replicate 24 0)) (cmd_on bench) = Ok (1, put_u8 20 4 (replicate 24 0), t)"
  using axis_setting_modes[of 0 "put_u8 20 4 (replicate 24 0)" "cmd_on bench"]
  by (auto simp: get_u32_def get_u8_def put_u8_def)

lemma demo_req_sel [simp]:
  "ncmd (demo_req c n) = c" "input_len (demo_req c n) = n" "req_input (demo_req c n) = replicate 24 0" "req_wf (demo_req c n)"
  by (simp_all add: demo_req_def req_wf_def)

lemma get_u32_zeros [simp]: "k < 21 \<Longrightarrow> get_u32 k (replicate 24 0) = 0"
  by (simp add: get_u32_def)

lemma axis_status_exact_witness:
  "\<exists>r' t. hm_cmd_exc_ck (demo_req hmCmdGetAxisStatus 16) (cmd_on bench) = Ok (r', t) \<and> req_ret r' = 1 \<and>
    get_u32 4 (req_input r') = 0 \<and> get_u32 8 (req_input r') = 1"
proof -
  have st: "steady (cmd_on bench)" by (simp add: steady_def)
  have zero: "axis_state (axis 0 (cmd_on bench)) = asStoped" "motor_pos (axis 0 (cmd_on bench)) = 0"
    "\<not> benabled (hw_of 0 (cmd_on bench))"
    by (simp_all add: bench_axis_def axis_zero_def limit_config_def limit_config_0_def hw_config_zero_def)
  have p: "hm_step_motor_get_cur_pos 0 (cmd_on bench) = Ok 0" "hm_step_motor_get_curr_speed 0 (cmd_on bench) = Ok 0"
    using zero by (simp_all add: hm_step_motor_get_cur_pos_def hm_step_motor_get_curr_speed_def hm_step_motor_state_def
        HM_MAX_AXIS_def)
  have "closed_sw sw 0 (cmd_on bench) = False" for sw
    by (cases sw) (simp_all add: closed_sw_def low_at_def bench_pins)
  then show ?thesis
    using axis_status_exact[of "demo_req hmCmdGetAxisStatus 16" "cmd_on bench" 0 0 0, OF _ _ _ _ st _ p] zero
    by (auto simp: status_word_def of_truth_def)
qed

section \<open>A move of the host\<close>

text \<open>
  C13.  A move command of the host for an axis at rest, with at least two steps: the answer is 1, and the
  timer of this axis is then sent exactly the planned pulses, the position changes by exactly the
  signed number of steps of the request, and the axis is at rest again.
\<close>

theorem move_command_exact:
  assumes "ncmd r = hmCmdFixMove" and "input_len r = 20"
    and "a = unat (get_u32 0 (req_input r))" and "step = get_u32 4 (req_input r)"
    and "a < 4" and "idle a s" and "2 \<le> unat (abs_steps step)"
    and "run_blocked a (upd_axis a (set_run_dir step) s) = Ok (False, s')"
    and "move_delays (abs_steps step) (get_u32 8 (req_input r)) (get_u32 16 (req_input r)) (axis a s) = Ok ds"
  shows "\<exists>t u. hm_cmd_exc_ck r s = Ok (r\<lparr>req_ret := 1\<rparr>, t) \<and>
    rounds a ((unat (abs_steps step) + 99) div 100) t = Ok (concat (map (\<lambda>d. [d - 1, 0, d div 2]) ds), u) \<and>
    motor_pos (axis a u) = motor_pos (axis a s) + step \<and> idle a u"
proof -
  obtain t u where t: "hm_step_motor_move a step (get_u32 8 (req_input r)) (get_u32 12 (req_input r))
      (get_u32 16 (req_input r)) s = Ok (True, t)"
    "rounds a ((unat (abs_steps step) + 99) div 100) t = Ok (concat (map (\<lambda>d. [d - 1, 0, d div 2]) ds), u)"
    "motor_pos (axis a u) = motor_pos (axis a s) + step" "idle a u"
    using move_runs[OF assms(5-9), where decel = "get_u32 12 (req_input r)"] by blast
  have "exec_cmd r s = Ok (1, req_input r, t)"
    using assms(1,2) t(1) assms(3,4) by (simp add: exec_cmd_def cmd_nos sized_def exec_fix_move_def of_truth_def)
  then show ?thesis using t(2-4) by (simp add: hm_cmd_exc_ck_def)
qed

text \<open>Three steps forward at 10000 steps per second.\<close>

definition demo_move_req :: hm_cmd_req where
  "demo_move_req = (demo_req hmCmdFixMove 20)\<lparr>req_input :=
     put_u32 16 10000 (put_u32 8 1000 (put_u32 4 3 (replicate 24 0)))\<rparr>"

lemma demo_move_fields:
  "get_u32 0 (req_input demo_move_req) = 0" "get_u32 4 (req_input demo_move_req) = 3"
  "get_u32 8 (req_input demo_move_req) = 1000" "get_u32 16 (req_input demo_move_req) = 10000"
  by (simp_all add: demo_move_req_def get_put_u32 get_put_other)

lemma cmd_on_idle: "idle a m \<Longrightarrow> idle a (cmd_on m)"
  by (auto simp: idle_def hw_stopped_def dma_enabled_def tim_enabled_def flags_clear_def DMA_GetITStatus_def)

lemma cmd_bench_ready:
  "run_blocked 0 (upd_axis 0 (set_run_dir v) (cmd_on bench)) =
    Ok (False, (upd_axis 0 (set_run_dir v) (cmd_on bench))\<lparr>input_reads := 3\<rparr>)"
  by (simp add: run_blocked_def hm_motor_hit_CW_def hm_motor_hit_CCW_def hm_motor_hit_Home_def hit_switch_eq low_at_def
      bench_pins set_run_dir_def)

lemma move_command_exact_witness:
  "\<exists>t u ds. hm_cmd_exc_ck demo_move_req (cmd_on bench) = Ok (demo_move_req\<lparr>req_ret := 1\<rparr>, t) \<and>
    rounds 0 1 t = Ok (concat (map (\<lambda>d. [d - 1, 0, d div 2]) ds), u) \<and> motor_pos (axis 0 u) = 3"
proof -
  have n: "abs_steps 3 = 3" by (simp add: abs_steps_def)
  obtain ds where ds: "move_delays (abs_steps 3) 1000 10000 (axis 0 (cmd_on bench)) = Ok ds"
    using bench_delays unfolding n by auto
  have "motor_pos (axis 0 (cmd_on bench)) = 0" by (simp add: bench_axis_def axis_zero_def)
  moreover have "ncmd demo_move_req = hmCmdFixMove" "input_len demo_move_req = 20" by (simp_all add: demo_move_req_def)
  moreover have "idle 0 (cmd_on bench)" by (rule cmd_on_idle, rule bench_idle) simp
  ultimately show ?thesis
    using move_command_exact[of demo_move_req 0 3 "cmd_on bench" _ ds] demo_move_fields cmd_bench_ready[of 3] ds
    by (fastforce simp: n)
qed

section \<open>The reset command\<close>

lemma out_bits_zero:
  assumes "set ks \<subseteq> {0..<12}" and "j < 12"
  shows "hm_gpio_get_out_bit (word_of_nat j) (fold (\<lambda>k s. snd (hm_gpio_out_bit (word_of_nat k) 0 s)) ks s) =
    (if j \<in> set ks then 0 else hm_gpio_get_out_bit (word_of_nat j) s)"
  using assms(1)
proof (induction ks arbitrary: s)
  case Nil
  then show ?case by simp
next
  case (Cons k ks)
  have k: "k < 12" using Cons.prems by auto
  have u: "unat (word_of_nat m :: u32) = m" if "m < 12" for m using that by (simp add: unat_of_nat)
  have eq: "(word_of_nat k :: u32) = word_of_nat j \<longleftrightarrow> k = j" using u[OF k] u[OF assms(2)] by metis
  have "hm_gpio_get_out_bit (word_of_nat j) (snd (hm_gpio_out_bit (word_of_nat k) 0 s)) =
      (if k = j then 0 else hm_gpio_get_out_bit (word_of_nat j) s)"
    using out_bit_cells[of "word_of_nat j" "word_of_nat k" 0 s] u[OF assms(2)] assms(2) eq
    by (simp add: of_truth_def truth_def)
  then show ?case using Cons by auto
qed

definition reset_axis :: "hm_step_info \<Rightarrow> hm_step_info" where
  "reset_axis p = (if axis_state p = asStoped \<or> bstopping p then p else smooth_plan p)\<lparr>motor_pos := 0\<rparr>"

lemma reset_one:
  assumes "a < 4" and "length (s_axis_info s) = 4"
  shows "hm_step_motor_set_cur_pos a 0 (snd (hm_step_motor_stop_smooth a s)) = upd_axis a reset_axis s"
  using assms by (simp add: hm_step_motor_set_cur_pos_def hm_step_motor_stop_smooth_def HM_MAX_AXIS_def
      hm_step_motor_state_def reset_axis_def) (simp add: upd_axis_def reset_axis_def axis_def del: axis_list)

lemma reset_axes:
  assumes "distinct as" and "\<forall>a \<in> set as. a < 4" and "length (s_axis_info s) = 4"
  shows "(let t = fold (\<lambda>a s. hm_step_motor_set_cur_pos a 0 (snd (hm_step_motor_stop_smooth a s))) as s
    in gpio t = gpio s \<and> length (s_axis_info t) = 4 \<and>
       (\<forall>a. axis a t = (if a \<in> set as then reset_axis (axis a s) else axis a s)))"
  using assms
proof (induction as arbitrary: s)
  case Nil
  then show ?case by simp
next
  case (Cons a as)
  have len: "length (s_axis_info (upd_axis a reset_axis s)) = 4" using Cons.prems(3) by simp
  show ?case using Cons.IH[OF _ _ len] Cons.prems by (auto simp: Let_def reset_one)
qed

lemma out_bit_axes: "s_axis_info (snd (hm_gpio_out_bit k v s)) = s_axis_info s"
  by (simp add: hm_gpio_out_bit_def Let_def)

lemma out_bits_axes: "s_axis_info (fold (\<lambda>k s. snd (hm_gpio_out_bit (f k) v s)) ks s) = s_axis_info s"
  by (induction ks arbitrary: s) (simp_all add: out_bit_axes)

text \<open>
  The reset command switches all twelve outputs off, sets every position to zero, and asks every
  axis that is not at rest for a smooth stop.  It does not wait: the steps a running axis still makes
  are counted from the new zero.
\<close>

theorem reset_board_correct:
  assumes "ncmd r = hmResetBoard" and "length (s_axis_info s) = 4"
  shows "\<exists>t. hm_cmd_exc_ck r s = Ok (r\<lparr>req_ret := 1\<rparr>, t) \<and>
    (\<forall>j < 12. hm_gpio_get_out_bit (word_of_nat j) t = 0) \<and>
    (\<forall>a < 4. motor_pos (axis a t) = 0 \<and> axis_state (axis a t) = axis_state (axis a s) \<and>
       (axis_state (axis a s) \<noteq> asStoped \<longrightarrow> bstopping (axis a t)))"
proof -
  let ?s = "fold (\<lambda>k s. snd (hm_gpio_out_bit (word_of_nat k) 0 s)) [0..<12] s"
  let ?t = "fold (\<lambda>a s. hm_step_motor_set_cur_pos a 0 (snd (hm_step_motor_stop_smooth a s))) [0..<4] ?s"
  have cmd: "exec_cmd r s = Ok (1, req_input r, ?t)"
    using assms(1) by (simp only: exec_cmd_def cmd_nos exec_reset_board_def HM_MAX_GPIO_OUT_def HM_MAX_AXIS_def Let_def) simp
  have info: "s_axis_info ?s = s_axis_info s" by (rule out_bits_axes)
  have len: "length (s_axis_info ?s) = 4" using info assms(2) by (rule ssubst)
  have t: "gpio ?t = gpio ?s \<and> (\<forall>a. axis a ?t = (if a \<in> set [0..<4] then reset_axis (axis a ?s) else axis a ?s))"
    using reset_axes[OF _ _ len, of "[0..<4]"] unfolding Let_def by auto
  have out: "hm_gpio_get_out_bit (word_of_nat j) ?t = 0" if "j < 12" for j
  proof -
    have "hm_gpio_get_out_bit w ?t = hm_gpio_get_out_bit w ?s" for w
      using t unfolding hm_gpio_get_out_bit_def GPIO_ReadOutputDataBit_def by simp
    then show ?thesis using out_bits_zero[of "[0..<12]" j s] that by simp
  qed
  have ax: "axis a ?t = reset_axis (axis a s)" if "a < 4" for a
    using t that axis_same[OF info, of a] by simp
  have run: "hm_cmd_exc_ck r s = Ok (r\<lparr>req_ret := 1\<rparr>, ?t)" unfolding hm_cmd_exc_ck_def cmd by simp
  show ?thesis
    by (intro exI[of _ ?t] conjI allI impI run) (use out ax in \<open>auto simp only: reset_axis_def smooth_plan_def, simp_all\<close>)
qed

lemma reset_board_correct_witness:
  "\<exists>t. hm_cmd_exc_ck (demo_req hmResetBoard 0) (cmd_on (bench_running 180)) = Ok ((demo_req hmResetBoard 0)\<lparr>req_ret := 1\<rparr>, t) \<and>
    bstopping (axis 0 t) \<and> motor_pos (axis 0 t) = 0"
  using reset_board_correct[of "demo_req hmResetBoard 0" "cmd_on (bench_running 180)"] by fastforce

end
