(* ===== verification/Cmd_Pool.thy ===== *)
theory Cmd_Pool
  imports Cmd_Exec
begin

text \<open>
  What the two command interfaces share: a pool of slots that is searched for an idle one, as an
  interface, and the fact that executing a command leaves the pool of the network server alone.
\<close>

section \<open>A pool of slots\<close>

text \<open>A search that finds an idle slot exactly if there is one.\<close>

locale slot_pool =
  fixes idle_at :: "nat \<Rightarrow> 's \<Rightarrow> bool"
    and slots :: nat
    and find_idle :: "'s \<Rightarrow> nat option"
  assumes found: "find_idle s = Some i \<Longrightarrow> i < slots \<and> idle_at i s"
    and not_found: "find_idle s = None \<Longrightarrow> i < slots \<Longrightarrow> \<not> idle_at i s"
begin

definition free :: "'s \<Rightarrow> nat" where
  "free s = card {i. i < slots \<and> idle_at i s}"

lemma free_le: "free s \<le> slots"
proof -
  have "card {i. i < slots \<and> idle_at i s} \<le> card {i. i < slots}" by (intro card_mono) auto
  then show ?thesis by (simp add: free_def)
qed

lemma free_none: "free s = 0 \<longleftrightarrow> find_idle s = None"
proof -
  have "free s = 0 \<longleftrightarrow> (\<forall>i < slots. \<not> idle_at i s)" by (auto simp: free_def)
  also have "\<dots> \<longleftrightarrow> find_idle s = None"
  proof (cases "find_idle s")
    case None
    then show ?thesis using not_found by auto
  next
    case (Some i)
    then show ?thesis using found by auto
  qed
  finally show ?thesis .
qed

text \<open>Giving a slot back, and taking one.\<close>

lemma free_given:
  assumes "i < slots" and "idle_at i t" and "\<not> idle_at i s"
    and "\<And>j. j < slots \<Longrightarrow> j \<noteq> i \<Longrightarrow> idle_at j t \<longleftrightarrow> idle_at j s"
  shows "free t = Suc (free s)"
proof -
  have "{j. j < slots \<and> idle_at j t} = insert i {j. j < slots \<and> idle_at j s}"
    using assms by auto
  then show ?thesis using assms(3) by (simp add: free_def)
qed

lemma free_taken:
  assumes "find_idle s = Some i" and "\<And>j. j < slots \<Longrightarrow> idle_at j t \<longleftrightarrow> idle_at j s \<and> j \<noteq> i"
  shows "free s = Suc (free t)"
  using found[OF assms(1)] assms(2) by (intro free_given[of i]) auto

lemma free_same: "(\<And>j. j < slots \<Longrightarrow> idle_at j t \<longleftrightarrow> idle_at j s) \<Longrightarrow> free t = free s"
  unfolding free_def by (rule arg_cong[where f = card]) auto

text \<open>A sequence of steps, some of which take a slot each, as long as there is one.\<close>

lemma accounting:
  fixes I :: "'s \<Rightarrow> bool" and f :: "'x \<Rightarrow> 's \<Rightarrow> 's res"
  assumes "\<And>x s t. I s \<Longrightarrow> f x s = Inr t \<Longrightarrow> I t \<and> free t = free s - (if takes x then 1 else 0)"
    and "I s" and "for_each f xs s = Inr t"
  shows "I t \<and> free t = free s - length (filter takes xs)"
  using assms(2,3)
proof (induction xs arbitrary: s)
  case (Cons x xs)
  then obtain u where u: "f x s = Inr u" "for_each f xs u = Inr t" by auto
  then show ?case using assms(1)[OF Cons.prems(1) u(1)] Cons.IH[of u] by auto
qed simp

end

section \<open>What a command leaves alone\<close>

text \<open>
  A part of the state that no driver operation reaches from a command: an observation that does not see
  the fields the drivers write.  Both command interfaces keep such a part, their pool and their table.
  One command talks to the network, and one adds a message to the queue of the main loop; the observations of
  \<open>axis_frame\<close> may see both, those of \<open>drv_frame\<close> not the network, and those of \<open>cmd_frame\<close> neither.
\<close>

locale axis_frame =
  fixes obs :: "'a cmd_st_scheme \<Rightarrow> 'o"
  assumes obs_hw [simp]: "obs (s\<lparr>gpio := g\<rparr>) = obs s" "obs (s\<lparr>input_reads := n\<rparr>) = obs s"
      "obs (s\<lparr>primask := b\<rparr>) = obs s" "obs (s\<lparr>tim := r\<rparr>) = obs s" "obs (s\<lparr>dma := d\<rparr>) = obs s"
    and obs_axis [simp]: "obs (s\<lparr>s_axis_info := i\<rparr>) = obs s"
    and obs_net [simp]: "obs (s\<lparr>s_debug_off := w\<rparr>) = obs s" "obs (s\<lparr>s_debug := e\<rparr>) = obs s"
      "obs (s\<lparr>net_allocs := n\<rparr>) = obs s"
begin

definition kept :: "('x \<Rightarrow> 'a cmd_st_scheme) \<Rightarrow> 'x res \<Rightarrow> 'o \<Rightarrow> bool" where
  "kept g m p \<longleftrightarrow> (\<forall>x. m = Inr x \<longrightarrow> obs (g x) = p)"

lemma kept_Fault [simp]: "kept g (Fault e) p"
  by (simp add: kept_def)

lemma kept_Ok [simp]: "kept g (Ok x) p \<longleftrightarrow> obs (g x) = p"
  by (simp add: kept_def)

lemma kept_bnd: "kept g m p \<Longrightarrow> (\<And>x. obs (g x) = p \<Longrightarrow> kept h (f x) p) \<Longrightarrow> kept h (bnd m f) p"
  by (auto simp: kept_def)

lemma kept_bnd_pair:
  "kept snd m p \<Longrightarrow> (\<And>x t. obs t = p \<Longrightarrow> kept h (f x t) p) \<Longrightarrow> kept h (bnd m (\<lambda>(x, t). f x t)) p"
  by (auto simp: kept_def)

lemma kept_word: "(\<And>x. m = Inr x \<Longrightarrow> kept h (f x) p) \<Longrightarrow> kept h (bnd m f) p"
  by (auto simp: kept_def)

lemma kept_if: "(b \<Longrightarrow> kept g x p) \<Longrightarrow> (\<not> b \<Longrightarrow> kept g y p) \<Longrightarrow> kept g (if b then x else y) p"
  by simp

lemma kept_on_axis: "kept g m p \<Longrightarrow> kept g (on_axis a s m) p"
  by (simp add: on_axis_def)

lemma obs_drivers [simp]:
  "obs (GPIO_SetBits pt mk s) = obs s" "obs (GPIO_ResetBits pt mk s) = obs s" "obs (hm_led_act l b s) = obs s"
  "obs (hm_led_chan k b s) = obs s" "obs (TIM_Cmd t b s) = obs s" "obs (DMA_Cmd c b s) = obs s"
  "obs (upd_tim t f s) = obs s" "obs (write_CNDTR c v s) = obs s" "obs (write_CMAR c rf s) = obs s"
  "obs (upd_axis a q s) = obs s" "obs (upd_hw a h s) = obs s"
  "obs (enable_irq s) = obs s" "obs (disable_irq s) = obs s" "obs (upd_debug df s) = obs s"
  "obs (hm_uart_debug_off v' s) = obs s" "obs (snd (net_new s)) = obs s"
  "obs (snd (GPIO_ReadInputDataBit pt mk s)) = obs s"
  by (simp_all add: GPIO_SetBits_def GPIO_ResetBits_def hm_led_chan_def hm_led_act_def Let_def TIM_Cmd_def
      DMA_Cmd_def upd_tim_def write_CNDTR_def write_CMAR_def upd_axis_def upd_hw_def enable_irq_def disable_irq_def
      upd_debug_def hm_uart_debug_off_def net_new_def GPIO_ReadInputDataBit_def)

lemma obs_board [simp]:
  "obs (snd (hm_gpio_out_bit k v s)) = obs s"
  "obs (snd (hm_motor_enable_axis a b s)) = obs s" "obs (hm_step_motor_set_cur_pos a v s) = obs s"
  "obs (snd (hm_step_motor_stop_smooth a s)) = obs s" "obs (hm_motor_set_stop_mode a m1 m2 m3 m4 s) = obs s"
  "obs (hm_step_motor_set_home_stop_mode a v s) = obs s"
  by (simp_all add: hm_gpio_out_bit_def hm_motor_enable_axis_def hm_step_motor_set_cur_pos_def
    hm_step_motor_stop_smooth_def hm_motor_set_stop_mode_def hm_step_motor_set_home_stop_mode_def Let_def)

lemma obs_in_bit_loop: "obs (snd (in_bit_loop n p m v s)) = obs s"
proof (induction n arbitrary: v s)
  case (Suc n)
  then show ?case using obs_drivers(17)[of p m s] by (simp add: split_beta del: obs_drivers)
qed simp

lemma obs_gpio_in [simp]: "obs (snd (hm_gpio_in_bit k s)) = obs s"
  using obs_drivers(17) obs_in_bit_loop by (simp add: hm_gpio_in_bit_def Let_def split_beta del: obs_drivers)

lemma kept_hits:
  "obs s = p \<Longrightarrow> kept snd (hm_motor_hit_CW a s) p" "obs s = p \<Longrightarrow> kept snd (hm_motor_hit_CCW a s) p"
  "obs s = p \<Longrightarrow> kept snd (hm_motor_hit_Home a s) p"
  by (auto simp: hm_motor_hit_CW_def hm_motor_hit_CCW_def hm_motor_hit_Home_def hit_switch_eq intro!: kept_on_axis)

lemma kept_steps:
  "obs s = p \<Longrightarrow> kept id (hm_mark_axis_state a e s) p"
  "obs s = p \<Longrightarrow> kept id (hm_motor_set_dir a b s) p"
  "obs s = p \<Longrightarrow> kept id (upd_axis_res a f s) p"
  "obs s = p \<Longrightarrow> kept id (hm_dma_setup a b s) p"
  by (auto simp: hm_mark_axis_state_def hm_motor_set_dir_def upd_axis_res_def hm_dma_setup_def Let_def kept_def
      on_axis_def)

lemma kept_tim_start: "obs s = p \<Longrightarrow> kept id (hm_tim_start a b f s) p"
  by (simp add: hm_tim_start_def Let_def kept_steps)

lemma kept_start_hw: "obs s = p \<Longrightarrow> kept id (start_hw a s) p"
  unfolding start_hw_def by (rule kept_bnd[OF kept_steps(4)]) (simp_all add: kept_tim_start)

lemma kept_note_home: "obs s = p \<Longrightarrow> kept id (note_home a s) p"
  unfolding note_home_def by (intro kept_if kept_bnd_pair[OF kept_hits(3)]) simp_all

lemma kept_blocked: "obs s = p \<Longrightarrow> kept snd (run_blocked a s) p"
  unfolding run_blocked_def
  by (intro kept_bnd_pair[OF kept_hits(1)] kept_if kept_bnd_pair[OF kept_hits(2)] kept_bnd_pair[OF kept_hits(3)])
    simp_all

lemma kept_start_run: "obs s = p \<Longrightarrow> kept snd (hm_step_motor_start_run a accel speed s) p"
  unfolding hm_step_motor_start_run_def Let_def
  by (intro kept_if kept_bnd_pair[OF kept_blocked] kept_bnd[OF kept_steps(1)] kept_bnd[OF kept_note_home]
      kept_bnd[OF kept_steps(2)] kept_bnd[OF kept_steps(3)] kept_bnd[OF kept_start_hw]) simp_all

lemma kept_move: "obs s = p \<Longrightarrow> kept snd (hm_step_motor_move a step accel decel speed s) p"
  unfolding hm_step_motor_move_def Let_def
  by (intro kept_if kept_bnd_pair[OF kept_blocked] kept_bnd[OF kept_steps(2)] kept_bnd[where g = id]
      kept_steps(3) kept_start_hw) simp_all

lemma kept_stop: "obs s = p \<Longrightarrow> kept snd (hm_step_motor_stop_sundden a s) p"
  unfolding hm_step_motor_stop_sundden_def Let_def
  by (intro kept_if kept_bnd[OF kept_steps(4)] kept_bnd[OF kept_tim_start]) (auto simp: kept_def)

lemma kept_runs:
  "obs s = p \<Longrightarrow> kept snd (hm_step_motor_start_homing a accel speed s) p"
  "obs s = p \<Longrightarrow> kept snd (hm_step_motor_start_free_run a accel speed s) p"
  unfolding hm_step_motor_start_homing_def hm_step_motor_start_free_run_def
  by (intro kept_on_axis kept_start_run; simp)+

text \<open>No command reaches the observed part.\<close>

definition st_of :: "u8 \<times> u8 list \<times> 'a cmd_st_scheme \<Rightarrow> 'a cmd_st_scheme" where
  "st_of x = snd (snd x)"

lemma st_of [simp]: "st_of (r, i, s) = s"
  by (simp add: st_of_def)

lemma kept_sized: "obs s = p \<Longrightarrow> kept st_of (f (req_input r) s) p \<Longrightarrow> kept st_of (sized n r f s) p"
  by (simp add: sized_def)

lemma kept_moves:
  assumes "obs s = p"
  shows "kept st_of (exec_fix_move i s) p" "kept st_of (exec_keep_move i s) p" "kept st_of (exec_stop_move i s) p"
  unfolding exec_fix_move_def exec_keep_move_def exec_stop_move_def Let_def
  using assms by (intro kept_bnd_pair kept_if kept_move kept_runs kept_stop; simp add: split_beta)+

lemma kept_status: "obs s = p \<Longrightarrow> kept st_of (exec_axis_status i s) p"
  unfolding exec_axis_status_def Let_def
  by (intro kept_bnd[where g = "\<lambda>_. s"] kept_bnd_pair[OF kept_hits(1)] kept_bnd_pair[OF kept_hits(2)]
      kept_bnd_pair[OF kept_hits(3)]) (auto simp: kept_def)

lemma kept_status_set: "obs s = p \<Longrightarrow> kept st_of (exec_axis_setting i s) p"
  by (auto simp: exec_axis_setting_def setting_set_def Let_def split: option.splits)

lemma kept_io: "obs s = p \<Longrightarrow> kept st_of (exec_io i s) p"
  by (simp add: exec_io_def Let_def split_beta)

lemma kept_others:
  assumes "obs s = p"
  shows "kept st_of (exec_set_pos i s) p" "kept st_of (exec_enable_axis i s) p" "kept st_of (exec_system_info i s) p"
    "kept st_of (exec_led i s) p" "kept st_of (exec_version i s) p"
  using assms by (simp_all add: exec_set_pos_def exec_enable_axis_def exec_system_info_def exec_led_def
      exec_version_def Let_def split_beta)

lemma kept_reset: "obs s = p \<Longrightarrow> kept st_of (exec_reset_board i s) p"
  by (simp add: exec_reset_board_def Let_def fold_same[where g = obs] del: upt_rec_numeral)

text \<open>Every command but the one that talks to the network and the one that adds a message.\<close>

lemma kept_exec_two:
  assumes "obs s = p" and "ncmd r = hmDebugOpe \<Longrightarrow> kept st_of (exec_debug (req_input r) s) p"
    and "kept st_of (exec_reset_for_load (req_input r) s) p"
  shows "kept st_of (exec_cmd r s) p"
  unfolding exec_cmd_def Let_def
  by (intro kept_if kept_sized kept_moves kept_status kept_status_set kept_io kept_others kept_reset)
    (simp_all add: assms)

text \<open>The check of the switches, and the interrupts as far as they do not touch their flags.\<close>

lemma kept_smooth: "obs s = p \<Longrightarrow> obs (snd (hm_step_motor_stop_smooth a s)) = p"
  by simp

lemma kept_limit_stop: "obs s = p \<Longrightarrow> kept id (limit_stop a s) p"
  unfolding limit_stop_def by (intro kept_if kept_bnd_pair[OF kept_stop]) simp_all

lemma kept_line_hit: "obs s = p \<Longrightarrow> kept snd (hit s) p \<Longrightarrow> kept snd (line_hit b hit s) p"
  by (simp add: line_hit_def)

lemma kept_home_check: "obs s = p \<Longrightarrow> kept snd (home_check a s) p"
  unfolding home_check_def by (intro kept_if kept_bnd_pair[OF kept_hits(3)]) simp_all

lemma kept_check_axis: "obs s = p \<Longrightarrow> kept id (limit_check_axis a s) p"
  unfolding limit_check_axis_def
  by (intro kept_if kept_bnd_pair[OF kept_line_hit] kept_hits kept_bnd_pair[OF kept_home_check] kept_limit_stop) simp_all

lemma kept_check:
  assumes "hm_motor_limit_logical_check s = Inr t"
  shows "obs t = obs s"
proof (rule for_each_inv[OF assms[unfolded hm_motor_limit_logical_check_def], of "\<lambda>u. obs u = obs s"])
  fix a u v
  assume "obs u = obs s" "limit_check_axis a u = Ok v"
  then show "obs v = obs s" using kept_check_axis[of u "obs s" a] by (simp add: kept_def)
qed simp

lemma kept_extern_stops: "obs s = p \<Longrightarrow> kept snd (extern_stops fn l a s) p"
  unfolding extern_stops_def Let_def by (intro kept_bnd_pair[OF kept_line_hit] kept_hits) simp_all

lemma kept_extern_loop: "obs s = p \<Longrightarrow> kept id (extern_loop fn l as s) p"
proof (induction "as" arbitrary: s)
  case (Cons a "as")
  show ?case unfolding extern_loop.simps
    by (intro kept_bnd_pair[OF kept_extern_stops[OF Cons.prems]] kept_if kept_limit_stop Cons.IH)
qed simp

lemma kept_fill_next: "obs s = p \<Longrightarrow> kept id (hm_dma_fill_next_buf a s) p"
  unfolding hm_dma_fill_next_buf_def by (intro kept_on_axis kept_steps(3))

lemma kept_dma_ck: "obs s = p \<Longrightarrow> kept id (hm_dma_ck a s) p"
  unfolding hm_dma_ck_def Let_def
proof (intro kept_on_axis kept_bnd[OF kept_steps(3)], assumption, rule kept_bnd[where g = id], intro kept_if)
  fix u
  assume u: "obs (id u) = p"
  show "kept id (bnd (buf_at (next_buf_idx (axis a u)) (axis a u)) (\<lambda>b. if \<not> buf_valid b then Fault Hang
      else bnd (hm_dma_setup a True (hm_tim_pause_resume a True
             (upd_axis a (\<lambda>p. p\<lparr>dma_buf_idx := word_of_nat (next_buf_idx p)\<rparr>) u)))
           (\<lambda>s. Ok (hm_tim_pause_resume a False s)))) p"
    using u by (intro kept_word kept_if kept_bnd[OF kept_steps(4)]) (simp_all add: hm_tim_pause_resume_def)
  show "kept id (bnd (hm_tim_start a False 0 (upd_axis a (\<lambda>p. p\<lparr>bstopping := False\<rparr>) u)) (hm_dma_setup a False)) p"
    using u by (intro kept_bnd[OF kept_tim_start] kept_steps(4)) simp_all
qed simp

end

locale drv_frame = axis_frame +
  assumes obs_out [simp]: "obs (s\<lparr>net_out := out\<rparr>) = obs s"
begin

lemma obs_net_do [simp]: "obs (net_do x s) = obs s"
  by (simp add: net_do_def)

lemma obs_debug [simp]: "obs (hm_cmd_net_init_debug on nport s) = obs s"
  by (simp add: hm_cmd_net_init_debug_def Let_def split_beta)

text \<open>Every command but one that adds a message.\<close>

lemma kept_exec_load:
  "obs s = p \<Longrightarrow> kept st_of (exec_reset_for_load (req_input r) s) p \<Longrightarrow> kept st_of (exec_cmd r s) p"
  by (rule kept_exec_two) (simp_all add: exec_debug_def Let_def)

end

locale cmd_frame = drv_frame +
  assumes obs_msg [simp]: "obs (s\<lparr>msg_array := m\<rparr>) = obs s" "obs (s\<lparr>nwrite := w\<rparr>) = obs s"
      "obs (s\<lparr>nmin := w\<rparr>) = obs s"
begin

lemma obs_msg_steps [simp]:
  "obs (msg_fill i ck cp s) = obs s" "obs (snd (msg_get_move_next_write s)) = obs s"
  by (simp_all add: msg_fill_def msg_get_move_next_write_def Let_def enable_irq_def disable_irq_def)

lemma obs_queue_add [simp]: "obs (snd (hm_msg_queue_add f p s)) = obs s"
  using obs_msg_steps(2)[of s] by (cases "msg_get_move_next_write s") (auto simp: hm_msg_queue_add_def split: option.splits)

lemma kept_exec: "obs s = p \<Longrightarrow> kept st_of (exec_cmd r s) p"
  by (rule kept_exec_load) (simp_all add: exec_reset_for_load_def)

lemma exc_ck_obs:
  assumes "hm_cmd_exc_ck r s = Inr (r', t)"
  shows "obs t = obs s"
  using assms kept_exec[of s "obs s" r] by (auto simp: hm_cmd_exc_ck_def kept_def)

end

section \<open>What a command leaves of its request\<close>

text \<open>The header and the length of the input; only the input bytes and the result are written.\<close>

lemma exc_ck_header:
  assumes "hm_cmd_exc_ck r s = Inr (r', t)"
  shows "input_len r' = input_len r \<and> ncmd r' = ncmd r \<and> mark1 r' = mark1 r \<and> mark2 r' = mark2 r \<and>
    req_owner r' = req_owner r"
  using assms by (auto simp: hm_cmd_exc_ck_def)

text \<open>The input keeps its size.\<close>

definition same_len :: "nat \<Rightarrow> 'a cmd_st_scheme cmd_res \<Rightarrow> bool" where
  "same_len n m \<longleftrightarrow> (\<forall>r i s. m = Inr (r, i, s) \<longrightarrow> length i = n)"

lemma same_len_Ok [simp]: "same_len n (Ok (r, i, s)) \<longleftrightarrow> length i = n"
  by (simp add: same_len_def)

lemma same_len_bnd: "(\<And>x. same_len n (f x)) \<Longrightarrow> same_len n (bnd m f)"
  by (auto simp: same_len_def)

lemma same_len_if: "(b \<Longrightarrow> same_len n x) \<Longrightarrow> (\<not> b \<Longrightarrow> same_len n y) \<Longrightarrow> same_len n (if b then x else y)"
  by simp

lemma length_flag_if [simp]: "length (flag_if b f i) = length i"
  by (simp add: flag_if_def)

lemma same_len_execs:
  "same_len (length i) (exec_fix_move i s)" "same_len (length i) (exec_keep_move i s)"
  "same_len (length i) (exec_set_pos i s)" "same_len (length i) (exec_enable_axis i s)"
  "same_len (length i) (exec_system_info i s)" "same_len (length i) (exec_stop_move i s)"
  "same_len (length i) (exec_axis_setting i s)" "same_len (length i) (exec_led i s)"
  "same_len (length i) (exec_version i s)" "same_len (length i) (exec_debug i s)"
  "same_len (length i) (exec_reset_for_load i s)" "same_len (length i) (exec_reset_board i s)"
  "same_len (length i) (exec_io i s)"
  by (auto simp: exec_fix_move_def exec_keep_move_def exec_set_pos_def exec_enable_axis_def exec_system_info_def
      exec_stop_move_def exec_axis_setting_def setting_get_def exec_led_def exec_version_def exec_debug_def
      exec_reset_for_load_def exec_reset_board_def exec_io_def Let_def split_beta
      split: option.split intro!: same_len_bnd simp del: upt_rec_numeral)

lemma same_len_status: "same_len (length i) (exec_axis_status i s)"
  unfolding exec_axis_status_def Let_def split_beta by (intro same_len_bnd) simp

lemma exc_ck_wf:
  assumes "hm_cmd_exc_ck r s = Inr (r', t)" and "req_wf r"
  shows "req_wf r'"
proof -
  have "same_len (length (req_input r)) (exec_cmd r s)"
    unfolding exec_cmd_def Let_def sized_def
    by (intro same_len_if same_len_execs same_len_status) simp_all
  then show ?thesis using assms by (auto simp: hm_cmd_exc_ck_def same_len_def req_wf_def)
qed

end
