(* ===== verification/Cmd_Net.thy ===== *)
theory Cmd_Net
  imports Cmd_Pool
begin

text \<open>
  The command server on the network, \<^verbatim>\<open>hm_cmd_inter_netwk.c\<close>, and the registration of the
  commands, \<open>hm_cmd_exec_init\<close> of \<^verbatim>\<open>hm_cmd_execute.c\<close>: a datagram is checked, copied into an idle
  slot of the pool, executed, and answered in its own packet buffer.
\<close>

section \<open>The pool and the table\<close>

definition HM_CMD_MAX_CMD_ITEM :: nat where "HM_CMD_MAX_CMD_ITEM = 20"
definition HM_CMD_MAX_CMD_MAP :: nat where "HM_CMD_MAX_CMD_MAP = 20"

definition upd_item :: "nat \<Rightarrow> (hm_cmd_item \<Rightarrow> hm_cmd_item) \<Rightarrow> 'a cmd_st_scheme \<Rightarrow> 'a cmd_st_scheme" where
  "upd_item i f s = s\<lparr>s_cmd_queue := (s_cmd_queue s)[i := f (s_cmd_queue s ! i)]\<rparr>"

definition upd_pair :: "nat \<Rightarrow> (hm_cmd_ck_pair \<Rightarrow> hm_cmd_ck_pair) \<Rightarrow> 'a cmd_st_scheme \<Rightarrow> 'a cmd_st_scheme" where
  "upd_pair i f s = s\<lparr>s_cmd_table := (s_cmd_table s)[i := f (s_cmd_table s ! i)]\<rparr>"

definition hm_cmd_item_init :: "hm_cmd_req \<Rightarrow> hm_cmd_req" where
  "hm_cmd_item_init r = r\<lparr>ncmd := HM_CMD_INVALID, input_len := 0, mark1 := 0, mark2 := 0\<rparr>"

definition hm_cmd_queue_item_init :: "hm_cmd_item \<Rightarrow> hm_cmd_item" where
  "hm_cmd_queue_item_init x =
     x\<lparr>item_state := hmCmdStIdle, item_pbuf := None, item_upcb := None, cmd_req := hm_cmd_item_init (cmd_req x)\<rparr>"

definition hm_cmd_find_idle :: "'a cmd_st_scheme \<Rightarrow> nat option \<times> 'a cmd_st_scheme" where
  "hm_cmd_find_idle s =
     (case List.find (\<lambda>i. item_state (s_cmd_queue s ! i) = hmCmdStIdle) [0..<HM_CMD_MAX_CMD_ITEM] of
        None \<Rightarrow> (None, s)
      | Some i \<Rightarrow> (Some i, s\<lparr>s_queue_idx := word_of_nat i\<rparr>))"

definition hm_cmd_find_cmd_table :: "u8 \<Rightarrow> 'a cmd_st_scheme \<Rightarrow> nat option" where
  "hm_cmd_find_cmd_table c s =
     List.find (\<lambda>i. pair_ncmd (s_cmd_table s ! i) = c) [0..<HM_CMD_MAX_CMD_ITEM]"

definition hm_cmd_net_register :: "u8 \<Rightarrow> cmd_ck option \<Rightarrow> 'a cmd_st_scheme \<Rightarrow> 'a cmd_st_scheme" where
  "hm_cmd_net_register c f s =
     (case List.find (\<lambda>i. pair_ncmd (s_cmd_table s ! i) = HM_CMD_INVALID) [0..<HM_CMD_MAX_CMD_MAP] of
        None \<Rightarrow> s
      | Some i \<Rightarrow> upd_pair i (\<lambda>_. \<lparr>pair_ncmd = c, pair_ck = f\<rparr>) s)"

definition hm_cmd_net_init :: "'a cmd_st_scheme \<Rightarrow> 'a cmd_st_scheme" where
  "hm_cmd_net_init s =
     (let (upcb, s) = net_new s;
          s = net_do (udp_bind upcb HM_UDP_PORT) s;
          s = net_do (udp_recv upcb CK_command_server) s;
          s = fold (\<lambda>i. upd_item i hm_cmd_queue_item_init) [0..<HM_CMD_MAX_CMD_ITEM] s;
          s = fold (\<lambda>i. upd_pair i (\<lambda>_. \<lparr>pair_ncmd = HM_CMD_INVALID, pair_ck = None\<rparr>)) [0..<HM_CMD_MAX_CMD_MAP] s
      in upd_debug (\<lambda>d. d\<lparr>bdebug_on := 0, debug_nport := 0\<rparr>) s)"

definition hm_cmd_exec_init :: "'a cmd_st_scheme \<Rightarrow> 'a cmd_st_scheme" where
  "hm_cmd_exec_init s =
     fold (\<lambda>c. hm_cmd_net_register c (Some CK_hm_cmd_exc_ck))
       [hmCmdFixMove, hmCmdKeepMove, hmCmdStopMove, hmCmdGetAxisStatus, hmCmdCmdLed, hmCmdIo, hmCmdEnableAxis,
        hmCmdGetAxisSetting, hmCmdSetPos, hmCmdGetSystemInfo, hmGetVersion, hmResetBoard, hmResetForLoad, hmDebugOpe]
       (hm_cmd_net_init s)"

section \<open>Executing a request\<close>

definition run_cmd_ck :: "cmd_ck \<Rightarrow> hm_cmd_req \<Rightarrow> 'a cmd_st_scheme \<Rightarrow> (hm_cmd_req \<times> 'a cmd_st_scheme) res" where
  "run_cmd_ck c r s = (case c of CK_hm_cmd_exc_ck \<Rightarrow> hm_cmd_exc_ck r s)"

definition bytescopy :: "u8 list \<Rightarrow> u8 list \<Rightarrow> nat \<Rightarrow> u8 list" where
  "bytescopy des src num = take num src @ drop num des"

text \<open>The bytes of a packet, with the buffers chained to it; a null buffer has none.\<close>

definition pbuf_bytes :: "nat option \<Rightarrow> 'a cmd_st_scheme \<Rightarrow> u8 list" where
  "pbuf_bytes p s = (case p of None \<Rightarrow> [] | Some b \<Rightarrow> fst (net_bufs s b) @ snd (net_bufs s b))"

definition upd_payload :: "nat \<Rightarrow> (u8 list \<Rightarrow> u8 list) \<Rightarrow> 'a cmd_st_scheme \<Rightarrow> 'a cmd_st_scheme" where
  "upd_payload b f s = s\<lparr>net_bufs := (net_bufs s)(b := (f (fst (net_bufs s b)), snd (net_bufs s b)))\<rparr>"

definition hm_cmd_msg_ck :: "nat \<Rightarrow> 'a cmd_st_scheme \<Rightarrow> 'a cmd_st_scheme res" where
  "hm_cmd_msg_ck i s =
     (case hm_cmd_find_cmd_table (ncmd (cmd_req (s_cmd_queue s ! i))) s of
        None \<Rightarrow> Ok s
      | Some k \<Rightarrow>
          (case pair_ck (s_cmd_table s ! k) of
             None \<Rightarrow> Ok s
           | Some f \<Rightarrow>
               let s = upd_item i (\<lambda>x. x\<lparr>item_state := hmCmdStCalling\<rparr>) s
               in bnd (run_cmd_ck f (cmd_req (s_cmd_queue s ! i)) s) (\<lambda>(r, s).
                  let s = upd_item i (\<lambda>x. x\<lparr>cmd_req := r\<rparr>) s;
                      x = s_cmd_queue s ! i
                  in case item_pbuf x of
                       None \<Rightarrow> Fault OutOfBounds
                     | Some b \<Rightarrow>
                         let s = upd_payload b (\<lambda>d. bytescopy d (bytes_of_req (cmd_req x)) sizeof_req) s;
                             s = net_do (udp_send (item_upcb x) (item_pbuf x) (pbuf_bytes (item_pbuf x) s)) s;
                             s = net_do (udp_disconnect (item_upcb x)) s;
                             s = net_do (pbuf_free (item_pbuf x)) s
                         in Ok (upd_item i hm_cmd_queue_item_init s))))"

text \<open>A datagram in the buffer \<open>b\<close>; the frame is read from the payload of its first buffer.\<close>

definition bad_mark :: "hm_cmd_req \<Rightarrow> bool" where
  "bad_mark r \<longleftrightarrow> mark1 r \<noteq> HM_CMD_MARK1 \<or> mark2 r \<noteq> HM_CMD_MARK2 \<or> req_owner r \<noteq> HM_CMD_OWER_CLIENT"

definition udp_server_callback ::
  "nat option \<Rightarrow> nat \<Rightarrow> u32 \<Rightarrow> u16 \<Rightarrow> 'a cmd_st_scheme \<Rightarrow> 'a cmd_st_scheme res" where
  "udp_server_callback upcb b addr port s =
     (let s = net_do (udp_connect upcb addr port) s;
          payload = fst (net_bufs s b);
          bfree = (length payload \<noteq> sizeof_req);
          preq = req_of_bytes payload;
          bfree = (bfree \<or> bad_mark preq);
          (item, s) = (if bfree then (None, s) else hm_cmd_find_idle s)
      in case item of
           None \<Rightarrow>
             let s = net_do (udp_send upcb (Some b) (pbuf_bytes (Some b) s)) s;
                 s = net_do (udp_disconnect upcb) s
             in Ok (net_do (pbuf_free (Some b)) s)
         | Some i \<Rightarrow>
             let s = upd_item i (\<lambda>x. x\<lparr>item_pbuf := Some b, item_upcb := upcb, item_state := hmCmdStPushed,
                       cmd_req := req_of_bytes payload\<rparr>) s;
                 s = upd_debug (\<lambda>d. d\<lparr>debug_paddr := addr\<rparr>) s
             in hm_cmd_msg_ck i s)"

section \<open>The pool of the server\<close>

lemma find_upt_Some: "List.find P [0..<n] = Some i \<longleftrightarrow> i < n \<and> P i \<and> (\<forall>j < i. \<not> P j)"
  by (auto simp: find_Some_iff)

lemma find_upt_None: "List.find P [0..<n] = None \<longleftrightarrow> (\<forall>i < n. \<not> P i)"
  by (auto simp: find_None_iff)

definition slot_idle :: "nat \<Rightarrow> 'a cmd_st_scheme \<Rightarrow> bool" where
  "slot_idle i s \<longleftrightarrow> item_state (s_cmd_queue s ! i) = hmCmdStIdle"

lemma find_idle_eq:
  "hm_cmd_find_idle s = (case List.find (\<lambda>i. slot_idle i s) [0..<20] of
     None \<Rightarrow> (None, s) | Some i \<Rightarrow> (Some i, s\<lparr>s_queue_idx := word_of_nat i\<rparr>))"
  by (simp add: hm_cmd_find_idle_def slot_idle_def HM_CMD_MAX_CMD_ITEM_def del: upt_rec_numeral)

interpretation netpool: slot_pool slot_idle 20 "\<lambda>s. fst (hm_cmd_find_idle s)"
proof
  fix s :: "'a cmd_st_scheme" and i
  show "fst (hm_cmd_find_idle s) = Some i \<Longrightarrow> i < 20 \<and> slot_idle i s"
    by (auto simp: find_idle_eq find_upt_Some split: option.splits simp del: upt_rec_numeral)
  show "fst (hm_cmd_find_idle s) = None \<Longrightarrow> i < 20 \<Longrightarrow> \<not> slot_idle i s"
    by (auto simp: find_idle_eq find_upt_None split: option.splits simp del: upt_rec_numeral)
qed

text \<open>No command touches the pool, the table, or the packet buffers.\<close>

definition server_part :: "'a cmd_st_scheme \<Rightarrow>
    hm_cmd_item list \<times> hm_cmd_ck_pair list \<times> (nat \<Rightarrow> u8 list \<times> u8 list)" where
  "server_part s = (s_cmd_queue s, s_cmd_table s, net_bufs s)"

interpretation netframe: cmd_frame server_part
  by unfold_locales (simp_all add: server_part_def)

lemma exc_ck_server:
  assumes "hm_cmd_exc_ck r s = Inr (r', t)"
  shows "s_cmd_queue t = s_cmd_queue s \<and> s_cmd_table t = s_cmd_table s \<and> net_bufs t = net_bufs s"
  using netframe.exc_ck_obs[OF assms] by (simp add: server_part_def)

section \<open>The table of commands\<close>

text \<open>What the table holds for a command.\<close>

definition registered :: "'a cmd_st_scheme \<Rightarrow> u8 \<Rightarrow> cmd_ck option" where
  "registered s c =
     (case hm_cmd_find_cmd_table c s of None \<Rightarrow> None | Some k \<Rightarrow> pair_ck (s_cmd_table s ! k))"

definition no_pair :: hm_cmd_ck_pair where
  "no_pair = \<lparr>pair_ncmd = HM_CMD_INVALID, pair_ck = None\<rparr>"

lemma table_upd_pair: "s_cmd_table (upd_pair i f s) = (s_cmd_table s)[i := f (s_cmd_table s ! i)]"
  by (simp add: upd_pair_def)

lemma register_next:
  assumes "s_cmd_table s = ps @ replicate (Suc n) no_pair" and "length ps + Suc n = 20"
    and "\<forall>p \<in> set ps. pair_ncmd p \<noteq> HM_CMD_INVALID"
  shows "s_cmd_table (hm_cmd_net_register c f s) = (ps @ [\<lparr>pair_ncmd = c, pair_ck = f\<rparr>]) @ replicate n no_pair"
proof -
  have "List.find (\<lambda>i. pair_ncmd (s_cmd_table s ! i) = HM_CMD_INVALID) [0..<20] = Some (length ps)"
    unfolding find_upt_Some using assms by (auto simp: nth_append no_pair_def)
  then show ?thesis
    using assms by (simp add: hm_cmd_net_register_def HM_CMD_MAX_CMD_MAP_def table_upd_pair list_update_append
        del: upt_rec_numeral)
qed

lemma register_all:
  assumes "s_cmd_table s = ps @ replicate (length cs + n) no_pair" and "length ps + length cs + n = 20"
    and "\<forall>p \<in> set ps. pair_ncmd p \<noteq> HM_CMD_INVALID" and "HM_CMD_INVALID \<notin> set cs"
  shows "s_cmd_table (fold (\<lambda>c. hm_cmd_net_register c f) cs s) =
    ps @ map (\<lambda>c. \<lparr>pair_ncmd = c, pair_ck = f\<rparr>) cs @ replicate n no_pair"
  using assms
proof (induction cs arbitrary: s ps)
  case Nil
  then show ?case by simp
next
  case (Cons c cs)
  have "s_cmd_table (hm_cmd_net_register c f s) =
      (ps @ [\<lparr>pair_ncmd = c, pair_ck = f\<rparr>]) @ replicate (length cs + n) no_pair"
    by (rule register_next) (use Cons.prems in auto)
  from Cons.IH[OF this] show ?case using Cons.prems by auto
qed

lemma registered_list:
  assumes "s_cmd_table s = map (\<lambda>c. \<lparr>pair_ncmd = c, pair_ck = f\<rparr>) cs @ replicate n no_pair"
    and "length cs + n = 20" and "HM_CMD_INVALID \<notin> set cs"
  shows "registered s c = (if c \<in> set cs then f else None)"
proof -
  have nth: "s_cmd_table s ! k = (if k < length cs then \<lparr>pair_ncmd = cs ! k, pair_ck = f\<rparr> else no_pair)" if "k < 20" for k
    using assms(1,2) that by (simp add: nth_append)
  show ?thesis
  proof (cases "hm_cmd_find_cmd_table c s")
    case None
    then have none: "\<forall>k < 20. pair_ncmd (s_cmd_table s ! k) \<noteq> c"
      by (simp add: hm_cmd_find_cmd_table_def HM_CMD_MAX_CMD_ITEM_def find_upt_None del: upt_rec_numeral)
    have "c \<noteq> cs ! k" if "k < length cs" for k
      using none[rule_format, of k] nth[of k] that assms(2) by auto
    then have "c \<notin> set cs" by (auto simp: in_set_conv_nth)
    then show ?thesis using None by (simp add: registered_def)
  next
    case (Some k)
    then have k: "k < 20" "pair_ncmd (s_cmd_table s ! k) = c"
      by (simp_all add: hm_cmd_find_cmd_table_def HM_CMD_MAX_CMD_ITEM_def find_upt_Some del: upt_rec_numeral)
    then show ?thesis
      using Some nth[OF k(1)] assms(3) by (auto simp: registered_def no_pair_def split: if_splits)
  qed
qed

section \<open>Initialisation\<close>

lemma fold_upd_pair:
  "length (s_cmd_table s) = n \<Longrightarrow> s_cmd_table (fold (\<lambda>i. upd_pair i (\<lambda>_. p)) [0..<n] s) = replicate n p"
proof -
  assume n: "length (s_cmd_table s) = n"
  have "s_cmd_table (fold (\<lambda>i. upd_pair i (\<lambda>_. p)) [0..<k] s) = replicate k p @ drop k (s_cmd_table s)"
    if "k \<le> n" for k
    using that
  proof (induction k)
    case (Suc k)
    then show ?case using n
      by (simp add: table_upd_pair list_update_append Cons_nth_drop_Suc[symmetric] replicate_append_same)
  qed simp
  from this[of n] n show ?thesis by simp
qed

lemma upd_item_sel [simp]:
  "s_cmd_table (upd_item i f s) = s_cmd_table s" "net_bufs (upd_item i f s) = net_bufs s"
  "length (s_cmd_queue (upd_item i f s)) = length (s_cmd_queue s)" "net_out (upd_item i f s) = net_out s"
  by (simp_all add: upd_item_def)

lemma upd_pair_sel [simp]: "s_cmd_queue (upd_pair i f s) = s_cmd_queue s"
  by (simp add: upd_pair_def)

lemma net_do_sel [simp]:
  "s_cmd_table (net_do x s) = s_cmd_table s" "s_cmd_queue (net_do x s) = s_cmd_queue s"
  "net_bufs (net_do x s) = net_bufs s" "net_out (net_do x s) = net_out s @ [x]"
  by (simp_all add: net_do_def)

lemma upd_debug_sel [simp]:
  "s_cmd_table (upd_debug f s) = s_cmd_table s" "s_cmd_queue (upd_debug f s) = s_cmd_queue s"
  "net_bufs (upd_debug f s) = net_bufs s" "net_out (upd_debug f s) = net_out s"
  by (simp_all add: upd_debug_def)

lemma fold_upd_pair_queue: "s_cmd_queue (fold (\<lambda>i. upd_pair i f) is s) = s_cmd_queue s"
  by (induction "is" arbitrary: s) simp_all

lemma fold_upd_item_table: "s_cmd_table (fold (\<lambda>i. upd_item i f) is s) = s_cmd_table s"
  by (induction "is" arbitrary: s) simp_all

lemma fold_upd_item:
  assumes "\<And>x. item_state (f x) = hmCmdStIdle"
  shows "length (s_cmd_queue (fold (\<lambda>i. upd_item i f) is s)) = length (s_cmd_queue s) \<and>
    (\<forall>i < length (s_cmd_queue s). i \<in> set is \<longrightarrow> slot_idle i (fold (\<lambda>i. upd_item i f) is s))"
proof -
  have keep: "slot_idle j (fold (\<lambda>i. upd_item i f) is s)"
    if "j < length (s_cmd_queue s)" "slot_idle j s" for j "is" and s :: "'a cmd_st_scheme"
    using that
  proof (induction "is" arbitrary: s)
    case (Cons i "is")
    have "slot_idle j (upd_item i f s)"
      using Cons.prems assms by (cases "i = j") (auto simp: slot_idle_def upd_item_def)
    then show ?case using Cons by simp
  qed simp
  show ?thesis
  proof (induction "is" arbitrary: s)
    case (Cons i "is")
    have "slot_idle i (upd_item i f s)" if "i < length (s_cmd_queue s)"
      using that assms by (simp add: slot_idle_def upd_item_def)
    then have "slot_idle i (fold (\<lambda>i. upd_item i f) (i # is) s)" if "i < length (s_cmd_queue s)"
      using that keep[of i "upd_item i f s" "is"] by simp
    then show ?case using Cons[of "upd_item i f s"] by auto
  qed simp
qed

text \<open>The server after its initialisation: an idle pool and exactly the fourteen commands.\<close>

definition server_ready :: "'a cmd_st_scheme \<Rightarrow> bool" where
  "server_ready s \<longleftrightarrow> length (s_cmd_queue s) = 20 \<and>
     (\<forall>c. registered s c = (if unat c \<le> 13 then Some CK_hm_cmd_exc_ck else None))"

lemma net_init_state:
  assumes "length (s_cmd_queue s) = 20" and "length (s_cmd_table s) = 20"
  shows "length (s_cmd_queue (hm_cmd_net_init s)) = 20" "s_cmd_table (hm_cmd_net_init s) = replicate 20 no_pair"
    "\<forall>i < 20. slot_idle i (hm_cmd_net_init s)"
    "net_out (hm_cmd_net_init s) = net_out s @
       [udp_bind (fst (net_new s)) HM_UDP_PORT, udp_recv (fst (net_new s)) CK_command_server]"
proof -
  let ?s1 = "net_do (udp_recv (fst (net_new s)) CK_command_server) (net_do (udp_bind (fst (net_new s)) HM_UDP_PORT) (snd (net_new s)))"
  let ?s2 = "fold (\<lambda>i. upd_item i hm_cmd_queue_item_init) [0..<20] ?s1"
  let ?s3 = "fold (\<lambda>i. upd_pair i (\<lambda>_. no_pair)) [0..<20] ?s2"
  have init: "hm_cmd_net_init s = upd_debug (\<lambda>d. d\<lparr>bdebug_on := 0, debug_nport := 0\<rparr>) ?s3"
    by (simp add: hm_cmd_net_init_def Let_def split_beta HM_CMD_MAX_CMD_ITEM_def HM_CMD_MAX_CMD_MAP_def no_pair_def
        del: upt_rec_numeral)
  have idle: "item_state (hm_cmd_queue_item_init x) = hmCmdStIdle" for x by (simp add: hm_cmd_queue_item_init_def)
  have s1: "length (s_cmd_queue ?s1) = 20" "length (s_cmd_table ?s1) = 20" using assms by (simp_all add: net_new_def)
  note q = fold_upd_item[of hm_cmd_queue_item_init "[0..<20]" ?s1, OF idle, unfolded s1]
  have t2: "length (s_cmd_table ?s2) = 20" using s1(2) by (simp only: fold_upd_item_table)
  have q3: "s_cmd_queue ?s3 = s_cmd_queue ?s2" by (rule fold_upd_pair_queue)
  show "length (s_cmd_queue (hm_cmd_net_init s)) = 20" unfolding init using q q3 by simp
  show "s_cmd_table (hm_cmd_net_init s) = replicate 20 no_pair" unfolding init using fold_upd_pair[OF t2] by simp
  show "\<forall>i < 20. slot_idle i (hm_cmd_net_init s)" unfolding init using q q3 by (simp add: slot_idle_def)
  have out: "net_out (fold (\<lambda>i. upd_item i f) is s) = net_out s" "net_out (fold (\<lambda>i. upd_pair i g) is s) = net_out s"
    for f g "is" and s :: "'a cmd_st_scheme"
    by (induction "is" arbitrary: s) (simp_all add: upd_pair_def)
  show "net_out (hm_cmd_net_init s) = net_out s @
       [udp_bind (fst (net_new s)) HM_UDP_PORT, udp_recv (fst (net_new s)) CK_command_server]"
    unfolding init by (simp add: out net_new_def del: upt_rec_numeral)
qed

lemma register_sel:
  "s_cmd_queue (hm_cmd_net_register c f s) = s_cmd_queue s" "net_out (hm_cmd_net_register c f s) = net_out s"
  by (simp_all add: hm_cmd_net_register_def upd_pair_def split: option.split)

lemma register_fold_sel:
  "s_cmd_queue (fold (\<lambda>c. hm_cmd_net_register c f) cs s) = s_cmd_queue s"
  "net_out (fold (\<lambda>c. hm_cmd_net_register c f) cs s) = net_out s"
  by (induction cs arbitrary: s) (simp_all add: register_sel)

definition all_cmds :: "u8 list" where
  "all_cmds = [hmCmdFixMove, hmCmdKeepMove, hmCmdStopMove, hmCmdGetAxisStatus, hmCmdCmdLed, hmCmdIo, hmCmdEnableAxis,
     hmCmdGetAxisSetting, hmCmdSetPos, hmCmdGetSystemInfo, hmGetVersion, hmResetBoard, hmResetForLoad, hmDebugOpe]"

lemma in_all_cmds: "c \<in> set all_cmds \<longleftrightarrow> unat c \<le> 13"
proof -
  have "unat c \<le> 13 \<longleftrightarrow> unat c \<in> unat ` set all_cmds"
    by (simp add: all_cmds_def cmd_nos) arith
  also have "\<dots> \<longleftrightarrow> c \<in> set all_cmds" by (auto simp flip: word_unat_eq_iff)
  finally show ?thesis ..
qed

lemma exec_init_all: "hm_cmd_exec_init s = fold (\<lambda>c. hm_cmd_net_register c (Some CK_hm_cmd_exc_ck)) all_cmds (hm_cmd_net_init s)"
  by (simp only: hm_cmd_exec_init_def all_cmds_def)

lemma exec_init_ready:
  assumes "length (s_cmd_queue s) = 20" and "length (s_cmd_table s) = 20"
  shows "server_ready (hm_cmd_exec_init s)" "netpool.free (hm_cmd_exec_init s) = 20"
proof -
  note i = net_init_state[OF assms]
  have "s_cmd_table (hm_cmd_exec_init s) =
      [] @ map (\<lambda>c. \<lparr>pair_ncmd = c, pair_ck = Some CK_hm_cmd_exc_ck\<rparr>) all_cmds @ replicate 6 no_pair"
    unfolding exec_init_all
    by (rule register_all) (simp_all add: i(2) all_cmds_def cmd_nos HM_CMD_INVALID_def flip: replicate_add)
  then have "registered (hm_cmd_exec_init s) c = (if c \<in> set all_cmds then Some CK_hm_cmd_exc_ck else None)" for c
    by (intro registered_list) (simp_all add: all_cmds_def cmd_nos HM_CMD_INVALID_def)
  then show "server_ready (hm_cmd_exec_init s)"
    using i(1) by (simp add: server_ready_def in_all_cmds exec_init_all register_fold_sel)
  have "slot_idle j (hm_cmd_exec_init s)" if "j < 20" for j
    using i(3) that by (simp add: slot_idle_def exec_init_all register_fold_sel)
  then have "{j. j < 20 \<and> slot_idle j (hm_cmd_exec_init s)} = {..<20}" by auto
  then show "netpool.free (hm_cmd_exec_init s) = 20" by (simp add: netpool.free_def)
qed

text \<open>
  After its initialisation the server listens on one port with one callback, has all twenty slots
  idle, and answers exactly the commands 0 to 13.
\<close>

theorem command_server_init:
  assumes "length (s_cmd_queue s) = 20" and "length (s_cmd_table s) = 20"
  shows "server_ready (hm_cmd_exec_init s) \<and> netpool.free (hm_cmd_exec_init s) = 20 \<and>
    net_out (hm_cmd_exec_init s) = net_out s @
      [udp_bind (net_alloc s (net_allocs s)) HM_UDP_PORT, udp_recv (net_alloc s (net_allocs s)) CK_command_server]"
  using exec_init_ready[OF assms] net_init_state(4)[OF assms]
  by (simp add: exec_init_all register_fold_sel net_new_def)

lemma command_server_init_witness:
  "server_ready (hm_cmd_exec_init (cmd_on bench))"
  using command_server_init[of "cmd_on bench"] by (simp add: cmd_on_def motor_st.defs cmd_st.defs)

section \<open>A datagram\<close>

text \<open>What the server makes of the payload of a datagram.\<close>

definition valid_frame :: "u8 list \<Rightarrow> bool" where
  "valid_frame d \<longleftrightarrow> length d = 30 \<and> d ! 27 = 0x98 \<and> d ! 28 = 0x76 \<and> d ! 29 = 9"

definition echo :: "nat option \<Rightarrow> nat \<Rightarrow> u32 \<Rightarrow> u16 \<Rightarrow> 'a cmd_st_scheme \<Rightarrow> 'a cmd_st_scheme" where
  "echo upcb b addr port s = s\<lparr>net_out := net_out s @ [udp_connect upcb addr port,
     udp_send upcb (Some b) (pbuf_bytes (Some b) s), udp_disconnect upcb, pbuf_free (Some b)]\<rparr>"

lemma sizeof_req_30: "sizeof_req = 30"
  by (simp add: sizeof_req_def HM_CMD_MAX_INPUT_SIZE_def)

lemma valid_frame_iff: "valid_frame d \<longleftrightarrow> \<not> (length d \<noteq> sizeof_req \<or> bad_mark (req_of_bytes d))"
  by (auto simp: valid_frame_def sizeof_req_30 bad_mark_def req_of_bytes_def HM_CMD_MARK1_def HM_CMD_MARK2_def
      HM_CMD_OWER_CLIENT_def)

text \<open>The request is in the slot \<open>i\<close>, ready to be executed.\<close>

definition accepted ::
  "nat option \<Rightarrow> nat \<Rightarrow> u32 \<Rightarrow> u16 \<Rightarrow> nat \<Rightarrow> 'a cmd_st_scheme \<Rightarrow> 'a cmd_st_scheme" where
  "accepted upcb b addr port i s =
     upd_debug (\<lambda>d. d\<lparr>debug_paddr := addr\<rparr>)
       (upd_item i (\<lambda>x. x\<lparr>item_pbuf := Some b, item_upcb := upcb, item_state := hmCmdStPushed,
           cmd_req := req_of_bytes (fst (net_bufs s b))\<rparr>)
         ((net_do (udp_connect upcb addr port) s)\<lparr>s_queue_idx := word_of_nat i\<rparr>))"

lemma find_idle_net_do: "hm_cmd_find_idle (net_do x s) =
    (case fst (hm_cmd_find_idle s) of None \<Rightarrow> (None, net_do x s)
     | Some i \<Rightarrow> (Some i, (net_do x s)\<lparr>s_queue_idx := word_of_nat i\<rparr>))"
  by (simp add: hm_cmd_find_idle_def split: option.split del: upt_rec_numeral)

lemma callback_cases:
  "udp_server_callback upcb b addr port s =
     (if valid_frame (fst (net_bufs s b))
      then (case fst (hm_cmd_find_idle s) of
              None \<Rightarrow> Ok (echo upcb b addr port s)
            | Some i \<Rightarrow> hm_cmd_msg_ck i (accepted upcb b addr port i s))
      else Ok (echo upcb b addr port s))"
proof -
  have echo: "net_do (pbuf_free (Some b)) (net_do (udp_disconnect upcb) (net_do (udp_send upcb (Some b)
      (pbuf_bytes (Some b) (net_do (udp_connect upcb addr port) s))) (net_do (udp_connect upcb addr port) s))) =
      echo upcb b addr port s"
    by (simp add: echo_def net_do_def pbuf_bytes_def)
  have bufs: "net_bufs (s\<lparr>s_queue_idx := w\<rparr>) = net_bufs s" for w and s :: "'a cmd_st_scheme" by simp
  show ?thesis
    unfolding valid_frame_iff udp_server_callback_def Let_def find_idle_net_do accepted_def
    by (cases "fst (hm_cmd_find_idle s)") (simp_all add: echo)
qed

section \<open>Serving\<close>

definition calling ::
  "nat option \<Rightarrow> nat \<Rightarrow> u32 \<Rightarrow> u16 \<Rightarrow> nat \<Rightarrow> 'a cmd_st_scheme \<Rightarrow> 'a cmd_st_scheme" where
  "calling upcb b addr port i s = upd_item i (\<lambda>x. x\<lparr>item_state := hmCmdStCalling\<rparr>) (accepted upcb b addr port i s)"

lemma accepted_sel [simp]:
  "s_cmd_table (accepted upcb b addr port i s) = s_cmd_table s" "net_bufs (accepted upcb b addr port i s) = net_bufs s"
  "length (s_cmd_queue (accepted upcb b addr port i s)) = length (s_cmd_queue s)"
  by (simp_all add: accepted_def)

lemma accepted_item:
  "i < length (s_cmd_queue s) \<Longrightarrow> s_cmd_queue (accepted upcb b addr port i s) ! i =
    \<lparr>cmd_req = req_of_bytes (fst (net_bufs s b)), item_state = hmCmdStPushed, item_pbuf = Some b, item_upcb = upcb\<rparr>"
  by (simp add: accepted_def upd_item_def)

lemma accepted_other: "j \<noteq> i \<Longrightarrow> s_cmd_queue (accepted upcb b addr port i s) ! j = s_cmd_queue s ! j"
  by (simp add: accepted_def upd_item_def)

lemma registered_table: "s_cmd_table t = s_cmd_table s \<Longrightarrow> registered t c = registered s c"
  by (simp add: registered_def hm_cmd_find_cmd_table_def split: option.split)

lemma msg_ck_unknown:
  "registered s (ncmd (cmd_req (s_cmd_queue s ! i))) = None \<Longrightarrow> hm_cmd_msg_ck i s = Ok s"
  by (auto simp: hm_cmd_msg_ck_def registered_def split: option.splits)

lemma msg_ck_known:
  assumes "registered s (ncmd (cmd_req (s_cmd_queue s ! i))) = Some CK_hm_cmd_exc_ck"
  shows "hm_cmd_msg_ck i s =
    bnd (hm_cmd_exc_ck (cmd_req (s_cmd_queue (upd_item i (\<lambda>x. x\<lparr>item_state := hmCmdStCalling\<rparr>) s) ! i))
        (upd_item i (\<lambda>x. x\<lparr>item_state := hmCmdStCalling\<rparr>) s)) (\<lambda>(r, s).
      let s = upd_item i (\<lambda>x. x\<lparr>cmd_req := r\<rparr>) s; x = s_cmd_queue s ! i
      in case item_pbuf x of None \<Rightarrow> Fault OutOfBounds
         | Some b \<Rightarrow>
             let s = upd_payload b (\<lambda>d. bytescopy d (bytes_of_req (cmd_req x)) sizeof_req) s;
                 s = net_do (udp_send (item_upcb x) (item_pbuf x) (pbuf_bytes (item_pbuf x) s)) s;
                 s = net_do (udp_disconnect (item_upcb x)) s;
                 s = net_do (pbuf_free (item_pbuf x)) s
             in Ok (upd_item i hm_cmd_queue_item_init s))"
  using assms by (auto simp: hm_cmd_msg_ck_def registered_def run_cmd_ck_def Let_def split: option.splits)

text \<open>What is left when a request has been answered with \<open>r\<close>: its slot is idle again.\<close>

definition answered ::
  "nat option \<Rightarrow> nat \<Rightarrow> nat \<Rightarrow> hm_cmd_req \<Rightarrow> 'a cmd_st_scheme \<Rightarrow> 'a cmd_st_scheme" where
  "answered upcb b i r t = t\<lparr>
     s_cmd_queue := (s_cmd_queue t)[i := \<lparr>cmd_req = hm_cmd_item_init r, item_state = hmCmdStIdle,
        item_pbuf = None, item_upcb = None\<rparr>],
     net_bufs := (net_bufs t)(b := (bytes_of_req r, snd (net_bufs t b))),
     net_out := net_out t @ [udp_send upcb (Some b) (bytes_of_req r @ snd (net_bufs t b)),
        udp_disconnect upcb, pbuf_free (Some b)]\<rparr>"

lemma serve:
  assumes "server_ready s" and "valid_frame (fst (net_bufs s b))" and "fst (hm_cmd_find_idle s) = Some i"
    and "unat (ncmd (req_of_bytes (fst (net_bufs s b)))) \<le> 13"
  shows "udp_server_callback upcb b addr port s =
    bnd (hm_cmd_exc_ck (req_of_bytes (fst (net_bufs s b))) (calling upcb b addr port i s))
      (\<lambda>(r, t). Ok (answered upcb b i r t))"
proof -
  let ?a = "accepted upcb b addr port i s"
  let ?r = "req_of_bytes (fst (net_bufs s b))"
  have i: "i < 20" "length (s_cmd_queue s) = 20" using netpool.found[OF assms(3)] assms(1) by (simp_all add: server_ready_def)
  then have item: "s_cmd_queue ?a ! i = \<lparr>cmd_req = ?r, item_state = hmCmdStPushed, item_pbuf = Some b, item_upcb = upcb\<rparr>"
    by (intro accepted_item) simp
  have item2: "s_cmd_queue (calling upcb b addr port i s) ! i =
      \<lparr>cmd_req = ?r, item_state = hmCmdStCalling, item_pbuf = Some b, item_upcb = upcb\<rparr>"
    using i item by (simp add: calling_def upd_item_def)
  have len2: "length (s_cmd_queue (calling upcb b addr port i s)) = 20" using i by (simp add: calling_def)
  have wf: "req_wf ?r" and len: "length (fst (net_bufs s b)) = 30"
    using assms(2) by (simp_all add: valid_frame_def req_of_bytes_wf)
  have "registered ?a (ncmd (cmd_req (s_cmd_queue ?a ! i))) = Some CK_hm_cmd_exc_ck"
    using assms(1,4) registered_table[of ?a s] by (simp add: item server_ready_def)
  note run = msg_ck_known[OF this, folded calling_def, unfolded item2 hm_cmd_item.simps]
  have after: "(let s = upd_item i (\<lambda>x. x\<lparr>cmd_req := r\<rparr>) t; x = s_cmd_queue s ! i
      in case item_pbuf x of None \<Rightarrow> Fault OutOfBounds
         | Some b \<Rightarrow>
             let s = upd_payload b (\<lambda>d. bytescopy d (bytes_of_req (cmd_req x)) sizeof_req) s;
                 s = net_do (udp_send (item_upcb x) (item_pbuf x) (pbuf_bytes (item_pbuf x) s)) s;
                 s = net_do (udp_disconnect (item_upcb x)) s;
                 s = net_do (pbuf_free (item_pbuf x)) s
             in Ok (upd_item i hm_cmd_queue_item_init s)) = Ok (answered upcb b i r t)"
    if "hm_cmd_exc_ck ?r (calling upcb b addr port i s) = Inr (r, t)" for r t
  proof -
    have q: "s_cmd_queue t ! i = \<lparr>cmd_req = ?r, item_state = hmCmdStCalling, item_pbuf = Some b, item_upcb = upcb\<rparr>"
      "length (s_cmd_queue t) = 20" "net_bufs t = net_bufs s"
      using exc_ck_server[OF that] item2 len2 by (simp_all add: calling_def)
    have "length (bytes_of_req r) = 30" by (rule bytes_of_req_length[OF exc_ck_wf[OF that wf]])
    then have "bytescopy (fst (net_bufs t b)) (bytes_of_req r) sizeof_req = bytes_of_req r"
      using len q(3) by (simp add: bytescopy_def sizeof_req_30)
    then show ?thesis
      using q i(1) by (simp add: Let_def upd_item_def upd_payload_def net_do_def pbuf_bytes_def answered_def
          hm_cmd_queue_item_init_def)
  qed
  show ?thesis
    unfolding callback_cases assms(3) option.case run
    using assms(2) after by (auto intro!: bnd_cong)
qed

lemma calling_sel [simp]:
  "s_cmd_table (calling upcb b addr port i s) = s_cmd_table s" "net_bufs (calling upcb b addr port i s) = net_bufs s"
  "length (s_cmd_queue (calling upcb b addr port i s)) = length (s_cmd_queue s)"
  by (simp_all add: calling_def)

lemma calling_other: "j \<noteq> i \<Longrightarrow> slot_idle j (calling upcb b addr port i s) = slot_idle j s"
  by (simp add: slot_idle_def calling_def upd_item_def accepted_other)

text \<open>After an answered request the pool is as free as before.\<close>

lemma answered_pool:
  assumes "server_ready s" and "fst (hm_cmd_find_idle s) = Some i"
    and "hm_cmd_exc_ck r0 (calling upcb b addr port i s) = Inr (r, t)"
  shows "server_ready (answered upcb b i r t) \<and> netpool.free (answered upcb b i r t) = netpool.free s"
proof -
  have t: "s_cmd_queue t = s_cmd_queue (calling upcb b addr port i s)" "s_cmd_table t = s_cmd_table s"
    using exc_ck_server[OF assms(3)] by simp_all
  have i: "i < 20" "length (s_cmd_queue s) = 20" "slot_idle i s"
    using netpool.found[OF assms(2)] assms(1) by (simp_all add: server_ready_def)
  have idle: "slot_idle j (answered upcb b i r t) = slot_idle j s" if "j < 20" for j
    using t i calling_other[of j i upcb b addr port s] by (cases "j = i") (simp_all add: answered_def slot_idle_def)
  have "registered (answered upcb b i r t) c = registered s c" for c
    by (rule registered_table) (simp add: answered_def t)
  then show ?thesis
    using assms(1) t(1) idle by (auto simp: server_ready_def answered_def intro!: netpool.free_same)
qed

lemma accepted_pool:
  assumes "server_ready s" and "fst (hm_cmd_find_idle s) = Some i"
  shows "server_ready (accepted upcb b addr port i s) \<and>
    netpool.free s = Suc (netpool.free (accepted upcb b addr port i s))"
proof
  have i: "i < 20" "length (s_cmd_queue s) = 20"
    using netpool.found[OF assms(2)] assms(1) by (simp_all add: server_ready_def)
  have "registered (accepted upcb b addr port i s) c = registered s c" for c
    by (rule registered_table) simp
  then show "server_ready (accepted upcb b addr port i s)" using assms(1) by (simp add: server_ready_def)
  show "netpool.free s = Suc (netpool.free (accepted upcb b addr port i s))"
  proof (rule netpool.free_taken[OF assms(2)])
    fix j :: nat
    assume "j < 20"
    show "slot_idle j (accepted upcb b addr port i s) \<longleftrightarrow> slot_idle j s \<and> j \<noteq> i"
      using i by (cases "j = i") (simp_all add: slot_idle_def accepted_item accepted_other)
  qed
qed

text \<open>
  C10.  A valid frame with a command of the board, when a slot is idle.  The command runs on the request,
  and if it does not fault its result is written into the packet it came in and sent back over the
  same connection, with the command number, the input length and the three marks of the request; the
  packet is freed, the connection closed, and the server is as ready as before.
\<close>

theorem request_served:
  assumes "server_ready s" and "netpool.free s > 0"
    and "d = fst (net_bufs s b)" and "valid_frame d" and "unat (d ! 25) \<le> 13"
  shows "\<exists>i. i < 20 \<and> udp_server_callback upcb b addr port s =
      bnd (hm_cmd_exc_ck (req_of_bytes d) (calling upcb b addr port i s)) (\<lambda>(r, t). Ok (answered upcb b i r t)) \<and>
    (\<forall>r t. hm_cmd_exc_ck (req_of_bytes d) (calling upcb b addr port i s) = Ok (r, t) \<longrightarrow>
       length (bytes_of_req r) = 30 \<and> (\<forall>k \<in> {24, 25, 27, 28, 29}. bytes_of_req r ! k = d ! k) \<and>
       net_out (answered upcb b i r t) = net_out t @ [udp_send upcb (Some b) (bytes_of_req r @ snd (net_bufs s b)),
         udp_disconnect upcb, pbuf_free (Some b)] \<and>
       server_ready (answered upcb b i r t) \<and> netpool.free (answered upcb b i r t) = netpool.free s)"
proof -
  obtain i where i: "fst (hm_cmd_find_idle s) = Some i"
    using assms(2) netpool.free_none[of s] by auto
  have i20: "i < 20" using netpool.found[OF i] by simp
  have n: "unat (ncmd (req_of_bytes (fst (net_bufs s b)))) \<le> 13"
    using assms(3-5) by (simp add: req_of_bytes_def)
  note run = serve[OF assms(1) assms(4)[unfolded assms(3)] i n, of upcb addr port, folded assms(3)]
  have len: "length d = 30" using assms(4) by (simp add: valid_frame_def)
  have ok: "length (bytes_of_req r) = 30 \<and> (\<forall>k \<in> {24, 25, 27, 28, 29}. bytes_of_req r ! k = d ! k) \<and>
       net_out (answered upcb b i r t) = net_out t @ [udp_send upcb (Some b) (bytes_of_req r @ snd (net_bufs s b)),
         udp_disconnect upcb, pbuf_free (Some b)] \<and>
       server_ready (answered upcb b i r t) \<and> netpool.free (answered upcb b i r t) = netpool.free s"
    if x: "hm_cmd_exc_ck (req_of_bytes d) (calling upcb b addr port i s) = Ok (r, t)" for r t
  proof -
    have wf: "req_wf r" by (rule exc_ck_wf[OF x req_of_bytes_wf[OF len]])
    have out: "net_out (answered upcb b i r t) = net_out t @ [udp_send upcb (Some b) (bytes_of_req r @ snd (net_bufs s b)),
         udp_disconnect upcb, pbuf_free (Some b)]"
      using exc_ck_server[OF x] by (simp add: answered_def)
    have hd: "\<forall>k \<in> {24, 25, 27, 28, 29}. bytes_of_req r ! k = d ! k"
      using exc_ck_header[OF x] wf by (simp add: bytes_of_req_def req_wf_def nth_append req_of_bytes_def)
    show ?thesis using bytes_of_req_length[OF wf] out hd answered_pool[OF assms(1) i x] by blast
  qed
  show ?thesis by (intro exI[of _ i] conjI i20 run allI impI ok)
qed

text \<open>
  Every other datagram - a wrong length, a wrong mark, a wrong owner, or no idle slot - is sent
  back as it is, whatever command it holds, and nothing else of the state changes.
\<close>

theorem other_datagrams_echoed:
  assumes "\<not> valid_frame (fst (net_bufs s b)) \<or> netpool.free s = 0"
  shows "udp_server_callback upcb b addr port s = Ok (s\<lparr>net_out := net_out s @
    [udp_connect upcb addr port, udp_send upcb (Some b) (fst (net_bufs s b) @ snd (net_bufs s b)),
     udp_disconnect upcb, pbuf_free (Some b)]\<rparr>)"
  using assms netpool.free_none[of s] by (auto simp: callback_cases echo_def pbuf_bytes_def)

section \<open>Datagrams one after the other\<close>

record datagram =
  dg_upcb :: "nat option"
  dg_buf :: nat
  dg_addr :: u32
  dg_port :: u16
  dg_bytes :: "u8 list"
  dg_rest :: "u8 list"

text \<open>The stack puts the datagram into a buffer and calls the server.\<close>

definition received :: "datagram \<Rightarrow> 'a cmd_st_scheme \<Rightarrow> 'a cmd_st_scheme" where
  "received x s = s\<lparr>net_bufs := (net_bufs s)(dg_buf x := (dg_bytes x, dg_rest x))\<rparr>"

definition deliver :: "datagram \<Rightarrow> 'a cmd_st_scheme \<Rightarrow> 'a cmd_st_scheme res" where
  "deliver x s = udp_server_callback (dg_upcb x) (dg_buf x) (dg_addr x) (dg_port x) (received x s)"

text \<open>A valid frame with a command the board does not have.\<close>

definition leaks :: "datagram \<Rightarrow> bool" where
  "leaks x \<longleftrightarrow> valid_frame (dg_bytes x) \<and> 13 < unat (dg_bytes x ! 25)"

lemma pool_received:
  "netpool.free (s\<lparr>net_bufs := f\<rparr>) = netpool.free s" "server_ready (s\<lparr>net_bufs := f\<rparr>) = server_ready s"
proof -
  show "netpool.free (s\<lparr>net_bufs := f\<rparr>) = netpool.free s"
    by (rule netpool.free_same) (simp add: slot_idle_def)
  have "registered (s\<lparr>net_bufs := f\<rparr>) c = registered s c" for c by (rule registered_table) simp
  then show "server_ready (s\<lparr>net_bufs := f\<rparr>) = server_ready s" by (simp add: server_ready_def)
qed

lemma pool_out:
  "netpool.free (s\<lparr>net_out := out\<rparr>) = netpool.free s" "server_ready (s\<lparr>net_out := out\<rparr>) = server_ready s"
proof -
  show "netpool.free (s\<lparr>net_out := out\<rparr>) = netpool.free s"
    by (rule netpool.free_same) (simp add: slot_idle_def)
  have "registered (s\<lparr>net_out := out\<rparr>) c = registered s c" for c by (rule registered_table) simp
  then show "server_ready (s\<lparr>net_out := out\<rparr>) = server_ready s" by (simp add: server_ready_def)
qed

lemma deliver_unknown:
  assumes "server_ready s" and "leaks x" and "fst (hm_cmd_find_idle s) = Some i"
  shows "deliver x s = Ok (accepted (dg_upcb x) (dg_buf x) (dg_addr x) (dg_port x) i (received x s))"
proof -
  have s: "server_ready (received x s)" using assms(1) by (simp add: received_def pool_received)
  have i: "i < length (s_cmd_queue (received x s))"
    using netpool.found[OF assms(3)] assms(1) by (simp add: server_ready_def received_def)
  have idle: "fst (hm_cmd_find_idle (received x s)) = Some i"
    using assms(3) by (simp add: find_idle_eq slot_idle_def received_def split: option.splits del: upt_rec_numeral)
  let ?a = "accepted (dg_upcb x) (dg_buf x) (dg_addr x) (dg_port x) i (received x s)"
  have "ncmd (cmd_req (s_cmd_queue ?a ! i)) = dg_bytes x ! 25"
    by (simp only: accepted_item[OF i] hm_cmd_item.simps) (simp add: received_def req_of_bytes_def)
  then have "registered ?a (ncmd (cmd_req (s_cmd_queue ?a ! i))) = None"
    using s assms(2) registered_table[of ?a "received x s"] by (simp add: server_ready_def leaks_def)
  then show ?thesis
    using assms(2) msg_ck_unknown by (simp add: deliver_def callback_cases idle leaks_def) (simp add: received_def)
qed

lemma deliver_pool:
  assumes "server_ready s" and "deliver x s = Inr t"
  shows "server_ready t \<and> netpool.free t = netpool.free s - (if leaks x then 1 else 0)"
proof -
  let ?s = "received x s"
  have s: "server_ready ?s" "netpool.free ?s = netpool.free s" "fst (net_bufs ?s (dg_buf x)) = dg_bytes x"
    using assms(1) by (simp_all add: received_def pool_received)
  show ?thesis
  proof (cases "valid_frame (dg_bytes x) \<and> netpool.free s > 0")
    case False
    then have "deliver x s = Ok (echo (dg_upcb x) (dg_buf x) (dg_addr x) (dg_port x) ?s)"
      using netpool.free_none[of ?s] s(2,3) by (auto simp: deliver_def callback_cases)
    then have "t = echo (dg_upcb x) (dg_buf x) (dg_addr x) (dg_port x) ?s" using assms(2) by simp
    then show ?thesis using s False by (auto simp: echo_def pool_out leaks_def)
  next
    case True
    then obtain i where i: "fst (hm_cmd_find_idle s) = Some i" "fst (hm_cmd_find_idle ?s) = Some i"
      using netpool.free_none[of s]
      by (auto simp: find_idle_eq slot_idle_def received_def split: option.splits simp del: upt_rec_numeral)
    show ?thesis
    proof (cases "leaks x")
      case leak: True
      have "t = accepted (dg_upcb x) (dg_buf x) (dg_addr x) (dg_port x) i ?s"
        using deliver_unknown[OF assms(1) leak i(1)] assms(2) by simp
      then show ?thesis
        using accepted_pool[OF s(1) i(2), of "dg_upcb x" "dg_buf x" "dg_addr x" "dg_port x"] s(2) leak by simp
    next
      case False
      then have n: "unat (ncmd (req_of_bytes (fst (net_bufs ?s (dg_buf x))))) \<le> 13"
        using True s(3) by (simp add: leaks_def req_of_bytes_def)
      note run = serve[OF s(1) _ i(2) n, of "dg_upcb x" "dg_addr x" "dg_port x", unfolded s(3)]
      obtain r u where "hm_cmd_exc_ck (req_of_bytes (dg_bytes x))
          (calling (dg_upcb x) (dg_buf x) (dg_addr x) (dg_port x) i ?s) = Inr (r, u)" "t = answered (dg_upcb x) (dg_buf x) i r u"
        using run True assms(2) by (auto simp: deliver_def)
      then show ?thesis using answered_pool[OF s(1) i(2)] s(2) False by simp
    qed
  qed
qed

text \<open>
  C11.  The slots of the server over any sequence of datagrams: every valid frame with an unknown
  command costs one slot for ever (the slot is filled, the command is not found, and the function
  returns without giving the slot back), everything else costs none.
\<close>

theorem slots_accounted:
  assumes "server_ready s" and "for_each deliver xs s = Ok t"
  shows "server_ready t \<and> netpool.free t = netpool.free s - length (filter leaks xs)"
  by (rule netpool.accounting[where I = server_ready and f = deliver and takes = leaks])
    (use assms deliver_pool in auto)

text \<open>An unknown command never faults, so it can be sent as often as one likes.\<close>

lemma deliver_leak_total:
  assumes "server_ready s" and "leaks x"
  shows "\<exists>t. deliver x s = Ok t"
proof (cases "fst (hm_cmd_find_idle s)")
  case None
  then have "netpool.free (received x s) = 0" using netpool.free_none[of s] by (simp add: received_def pool_received)
  then show ?thesis using netpool.free_none[of "received x s"] by (simp add: deliver_def callback_cases)
next
  case (Some i)
  show ?thesis using deliver_unknown[OF assms Some] by blast
qed

lemma deliver_leaks_total:
  assumes "server_ready s" and "leaks x"
  shows "\<exists>t. for_each deliver (replicate k x) s = Ok t"
  using assms(1)
proof (induction k arbitrary: s)
  case (Suc k)
  obtain u where u: "deliver x s = Ok u" using deliver_leak_total[OF Suc.prems assms(2)] by blast
  moreover have "server_ready u" using deliver_pool[OF Suc.prems u] by simp
  ultimately show ?case using Suc.IH[of u] by simp
qed simp

text \<open>
  C12.  Twenty such frames, in whatever traffic since the start, and the server executes nothing any
  more: it sends back every datagram as it came, valid ones with a command of the board included.
\<close>

theorem server_starved:
  assumes "length (s_cmd_queue s) = 20" and "length (s_cmd_table s) = 20"
    and "for_each deliver xs (hm_cmd_exec_init s) = Ok t" and "20 \<le> length (filter leaks xs)"
  shows "deliver x t = Ok (received x t\<lparr>net_out := net_out t @
    [udp_connect (dg_upcb x) (dg_addr x) (dg_port x), udp_send (dg_upcb x) (Some (dg_buf x)) (dg_bytes x @ dg_rest x),
     udp_disconnect (dg_upcb x), pbuf_free (Some (dg_buf x))]\<rparr>)"
proof -
  note init = exec_init_ready[OF assms(1,2)]
  have "netpool.free t = netpool.free (hm_cmd_exec_init s) - length (filter leaks xs)"
    using netpool.accounting[where I = server_ready and f = deliver and takes = leaks, OF deliver_pool init(1) assms(3)]
    by blast
  then have "netpool.free (received x t) = 0" using init(2) assms(4) by (simp add: received_def pool_received)
  then have "fst (hm_cmd_find_idle (received x t)) = None" using netpool.free_none[of "received x t"] by simp
  then show ?thesis
    by (simp add: deliver_def callback_cases echo_def pbuf_bytes_def) (simp add: received_def)
qed

section \<open>Traffic for the board\<close>

definition frame_of :: "u8 \<Rightarrow> u8 \<Rightarrow> u8 list" where
  "frame_of c n = replicate 24 0 @ [n, c, 0, 0x98, 0x76, 9]"

definition dg_of :: "u8 \<Rightarrow> u8 \<Rightarrow> datagram" where
  "dg_of c n = \<lparr>dg_upcb = Some 0, dg_buf = 1, dg_addr = 1, dg_port = 5000, dg_bytes = frame_of c n, dg_rest = []\<rparr>"

definition server_bench :: cmd_st where
  "server_bench = hm_cmd_exec_init (cmd_on bench)"

lemma cmd_on_sizes [simp]: "length (s_cmd_queue (cmd_on m)) = 20" "length (s_cmd_table (cmd_on m)) = 20"
  by (simp_all add: cmd_on_def motor_st.defs cmd_st.defs)

lemma server_bench_ready: "server_ready server_bench" "netpool.free server_bench = 20"
  unfolding server_bench_def by (rule exec_init_ready; simp)+

lemma frame_of_fields [simp]:
  "valid_frame (frame_of c n)" "frame_of c n ! 25 = c" "frame_of c n ! 24 = n" "length (frame_of c n) = 30"
  "input_len (req_of_bytes (frame_of c n)) = n" "ncmd (req_of_bytes (frame_of c n)) = c"
  "req_input (req_of_bytes (frame_of c n)) = replicate 24 0"
  by (simp_all add: frame_of_def valid_frame_def nth_append req_of_bytes_def)

lemma request_served_witness:
  "\<exists>u. deliver (dg_of hmGetVersion 2) server_bench = Ok u \<and> server_ready u \<and> netpool.free u = 20"
proof -
  let ?s = "received (dg_of hmGetVersion 2) server_bench"
  let ?d = "frame_of hmGetVersion 2"
  have s: "server_ready ?s" "netpool.free ?s = 20" "?d = fst (net_bufs ?s 1)"
    by (simp_all add: received_def pool_received server_bench_ready dg_of_def)
  have pre: "netpool.free ?s > 0" "valid_frame ?d" by (simp_all add: s(2))
  have n: "unat (?d ! 25) \<le> 13" by (simp add: hmGetVersion_def)
  obtain i where i: "udp_server_callback (Some 0) 1 1 5000 ?s =
      bnd (hm_cmd_exc_ck (req_of_bytes ?d) (calling (Some 0) 1 1 5000 i ?s)) (\<lambda>(r, t). Ok (answered (Some 0) 1 i r t))"
    "\<And>r t. hm_cmd_exc_ck (req_of_bytes ?d) (calling (Some 0) 1 1 5000 i ?s) = Ok (r, t) \<Longrightarrow>
      server_ready (answered (Some 0) 1 i r t) \<and> netpool.free (answered (Some 0) 1 i r t) = netpool.free ?s"
    using request_served[OF s(1) pre(1) s(3) pre(2) n, of "Some 0" 1 5000] by blast
  have "\<exists>r t. hm_cmd_exc_ck (req_of_bytes ?d) z = Ok (r, t)" for z :: cmd_st
    by (simp add: hm_cmd_exc_ck_def exec_cmd_def cmd_nos sized_def exec_version_def)
  then obtain r t where x: "hm_cmd_exc_ck (req_of_bytes ?d) (calling (Some 0) 1 1 5000 i ?s) = Ok (r, t)" by blast
  have "deliver (dg_of hmGetVersion 2) server_bench = Ok (answered (Some 0) 1 i r t)"
    using i(1) x by (simp add: deliver_def dg_of_def)
  then show ?thesis using i(2)[OF x] s(2) by auto
qed

lemma other_datagrams_echoed_witness:
  "deliver ((dg_of 0 20)\<lparr>dg_bytes := []\<rparr>) server_bench \<noteq> Fault OutOfBounds"
  using other_datagrams_echoed[of "received ((dg_of 0 20)\<lparr>dg_bytes := []\<rparr>) server_bench" 1 "Some 0" 1 5000]
  by (simp add: deliver_def dg_of_def received_def valid_frame_def)

lemma unknown_leaks: "leaks (dg_of 14 0)"
  by (simp add: leaks_def dg_of_def)

lemma slots_accounted_witness:
  "\<exists>t. for_each deliver (replicate 3 (dg_of 14 0)) server_bench = Ok t \<and> netpool.free t = 17"
proof -
  obtain t where t: "for_each deliver (replicate 3 (dg_of 14 0)) server_bench = Ok t"
    using deliver_leaks_total[OF server_bench_ready(1) unknown_leaks] by blast
  then show ?thesis using slots_accounted[OF server_bench_ready(1) t] server_bench_ready(2) unknown_leaks by simp
qed

lemma server_starved_witness:
  "\<exists>t u. for_each deliver (replicate 20 (dg_of 14 0)) server_bench = Ok t \<and>
    deliver (dg_of hmCmdFixMove 20) t = Ok u \<and> s_axis_info u = s_axis_info t"
proof -
  obtain t where t: "for_each deliver (replicate 20 (dg_of 14 0)) server_bench = Ok t"
    using deliver_leaks_total[OF server_bench_ready(1) unknown_leaks] by blast
  have "length (filter leaks (replicate 20 (dg_of 14 0))) = 20" using unknown_leaks by simp
  then show ?thesis
    using server_starved[OF _ _ t[unfolded server_bench_def], of "dg_of hmCmdFixMove 20"] t
    by (simp add: received_def)
qed

end
