(* ===== verification/Cmd_Uart.thy ===== *)
theory Cmd_Uart
  imports Cmd_Net
begin

text \<open>
  The serial command interface, \<^verbatim>\<open>hm_cmd_inter_uart.c\<close> and the callback table of \<^verbatim>\<open>hm_uart.c\<close>:
  the receive interrupt hands every byte to the registered callbacks, \<open>hm_cmd_uart_ck\<close> puts
  the bytes of a frame together in a slot of a pool, and a message to the main loop executes the frame.
  This is the interface of a build with \<open>HM_CMD_METHOD_UART\<close>; the static functions that carry the same
  names as those of \<^verbatim>\<open>hm_cmd_inter_netwk.c\<close> are named \<open>uart_\<dots>\<close> here.

  A byte that is sent is appended to \<open>usart2_out\<close>; the wait for the transmitter is not modelled, and
  neither are the debug messages.
\<close>

section \<open>State\<close>

datatype uart_item_state = uStIdle | uStFilling | uStPushed | uStCalling

record uart_item =
  buf_idx :: u32
  cmd_buf :: "u8 list"
  ui_state :: uart_item_state

text \<open>The receive callbacks; the firmware has one.\<close>

datatype uart_ck = UCK_hm_cmd_uart_ck

record hm_uart_ck_info =
  uck_func :: "uart_ck option"
  uck_ch :: u8

record uart_st = cmd_st +
  u_queue :: "uart_item list"
  u_table :: "hm_cmd_ck_pair list"
  u_queue_idx :: u32
  s_cks :: u32
  sl_last_tim :: u32
  s_uart_cks :: "hm_uart_ck_info list"
  usart2_out :: "u8 list"

definition HM_CMD_INVALID_IDX :: u32 where "HM_CMD_INVALID_IDX = 0xFFFF"
definition HM_TIM_INVALID_COUNT :: u32 where "HM_TIM_INVALID_COUNT = 0xFFFF"
definition HM_UART_MAX_CK_SIZE :: nat where "HM_UART_MAX_CK_SIZE = 20"

definition upd_uitem :: "nat \<Rightarrow> (uart_item \<Rightarrow> uart_item) \<Rightarrow> 'a uart_st_scheme \<Rightarrow> 'a uart_st_scheme" where
  "upd_uitem i f s = s\<lparr>u_queue := (u_queue s)[i := f (u_queue s ! i)]\<rparr>"

definition uitem :: "nat \<Rightarrow> 'a uart_st_scheme \<Rightarrow> uart_item" where
  "uitem i s = u_queue s ! i"

section \<open>The callback table of the receiver\<close>

definition upd_uck :: "nat \<Rightarrow> (hm_uart_ck_info \<Rightarrow> hm_uart_ck_info) \<Rightarrow> 'a uart_st_scheme \<Rightarrow> 'a uart_st_scheme" where
  "upd_uck i f s = s\<lparr>s_uart_cks := (s_uart_cks s)[i := f (s_uart_cks s ! i)]\<rparr>"

definition hm_uart_init :: "'a uart_st_scheme \<Rightarrow> 'a uart_st_scheme" where
  "hm_uart_init s =
     RCC_APB2PeriphClockCmd (0x00000004 OR 0x00000020 OR 0x00000001) ENABLE
       (fold (\<lambda>i. upd_uck i (\<lambda>c. c\<lparr>uck_func := None\<rparr>)) [0..<HM_UART_MAX_CK_SIZE] s)"

text \<open>The handle is the index of the entry; the search ends at an entry that has the function already.\<close>

definition hm_reg_uart_rev_ck :: "uart_ck option \<Rightarrow> 'a uart_st_scheme \<Rightarrow> nat option \<times> 'a uart_st_scheme" where
  "hm_reg_uart_rev_ck f s =
     (if f = None \<or> (\<exists>i \<in> set [0..<HM_UART_MAX_CK_SIZE]. uck_func (s_uart_cks s ! i) = f) then (None, s)
      else case List.find (\<lambda>i. uck_func (s_uart_cks s ! i) = None) [0..<HM_UART_MAX_CK_SIZE] of
             None \<Rightarrow> (None, s)
           | Some i \<Rightarrow> (Some i, upd_uck i (\<lambda>c. c\<lparr>uck_func := f\<rparr>) s))"

definition hm_unreg_uart_rev_ck :: "nat \<Rightarrow> 'a uart_st_scheme \<Rightarrow> 'a uart_st_scheme" where
  "hm_unreg_uart_rev_ck i s = upd_uck i (\<lambda>c. c\<lparr>uck_func := None\<rparr>) s"

definition hm_uart_send_cmd :: "u8 list \<Rightarrow> nat \<Rightarrow> 'a uart_st_scheme \<Rightarrow> 'a uart_st_scheme" where
  "hm_uart_send_cmd pbuf len s = fold (\<lambda>i s. s\<lparr>usart2_out := usart2_out s @ [pbuf ! i]\<rparr>) [0..<len] s"

section \<open>The pool and the table\<close>

text \<open>The request is the bytes of the slot: the item is initialised through a cast of the buffer.\<close>

definition uart_item_init :: "u8 list \<Rightarrow> u8 list" where
  "uart_item_init b = b[25 := HM_CMD_INVALID, 24 := 0, 27 := 0, 28 := 0]"

definition uart_queue_item_init :: "uart_item \<Rightarrow> uart_item" where
  "uart_queue_item_init x = x\<lparr>buf_idx := 0, ui_state := uStIdle, cmd_buf := uart_item_init (cmd_buf x)\<rparr>"

definition uart_find_idle :: "'a uart_st_scheme \<Rightarrow> nat option \<times> 'a uart_st_scheme" where
  "uart_find_idle s =
     (case List.find (\<lambda>i. ui_state (u_queue s ! i) = uStIdle) [0..<HM_CMD_MAX_CMD_ITEM] of
        None \<Rightarrow> (None, s)
      | Some i \<Rightarrow> (Some i, s\<lparr>u_queue_idx := word_of_nat i\<rparr>))"

definition uart_find_cmd_table :: "u8 \<Rightarrow> 'a uart_st_scheme \<Rightarrow> nat option" where
  "uart_find_cmd_table c s = List.find (\<lambda>i. pair_ncmd (u_table s ! i) = c) [0..<HM_CMD_MAX_CMD_ITEM]"

definition upd_upair :: "nat \<Rightarrow> (hm_cmd_ck_pair \<Rightarrow> hm_cmd_ck_pair) \<Rightarrow> 'a uart_st_scheme \<Rightarrow> 'a uart_st_scheme" where
  "upd_upair i f s = s\<lparr>u_table := (u_table s)[i := f (u_table s ! i)]\<rparr>"

definition hm_cmd_register :: "u8 \<Rightarrow> cmd_ck option \<Rightarrow> 'a uart_st_scheme \<Rightarrow> 'a uart_st_scheme" where
  "hm_cmd_register c f s =
     (case List.find (\<lambda>i. pair_ncmd (u_table s ! i) = HM_CMD_INVALID) [0..<HM_CMD_MAX_CMD_MAP] of
        None \<Rightarrow> s
      | Some i \<Rightarrow> upd_upair i (\<lambda>_. \<lparr>pair_ncmd = c, pair_ck = f\<rparr>) s)"

definition hm_cmd_init :: "'a uart_st_scheme \<Rightarrow> 'a uart_st_scheme" where
  "hm_cmd_init s =
     (let s = fold (\<lambda>i. upd_uitem i uart_queue_item_init) [0..<HM_CMD_MAX_CMD_ITEM] s;
          s = fold (\<lambda>i. upd_upair i (\<lambda>_. \<lparr>pair_ncmd = HM_CMD_INVALID, pair_ck = None\<rparr>)) [0..<HM_CMD_MAX_CMD_MAP] s;
          s = snd (hm_reg_uart_rev_ck (Some UCK_hm_cmd_uart_ck) s)
      in s\<lparr>u_queue_idx := HM_CMD_INVALID_IDX\<rparr>)"

definition uart_exec_init :: "'a uart_st_scheme \<Rightarrow> 'a uart_st_scheme" where
  "uart_exec_init s =
     fold (\<lambda>c. hm_cmd_register c (Some CK_hm_cmd_exc_ck))
       [hmCmdFixMove, hmCmdKeepMove, hmCmdStopMove, hmCmdGetAxisStatus, hmCmdCmdLed] (hm_cmd_init s)"

section \<open>A byte\<close>

text \<open>The slot the byte goes to: the one that is being filled, or an idle one.\<close>

definition uart_pick :: "'a uart_st_scheme \<Rightarrow> (nat option \<times> 'a uart_st_scheme) res" where
  "uart_pick s =
     (let i = unat (u_queue_idx s) in
      if u_queue_idx s \<noteq> HM_CMD_INVALID_IDX \<and> i \<ge> HM_CMD_MAX_CMD_ITEM then Fault OutOfBounds
      else if u_queue_idx s = HM_CMD_INVALID_IDX \<or> ui_state (uitem i s) \<noteq> uStFilling then
        (case uart_find_idle s of
           (None, s) \<Rightarrow> Ok (None, hm_led_act ltError True s)
         | (Some j, s) \<Rightarrow> Ok (Some j, upd_uitem j (\<lambda>x. x\<lparr>ui_state := uStFilling\<rparr>) s))
      else Ok (Some i, s))"

text \<open>More than 300 ms since the last byte.\<close>

definition uart_late :: "'a uart_st_scheme \<Rightarrow> bool" where
  "uart_late s \<longleftrightarrow> sl_last_tim s \<noteq> HM_TIM_INVALID_COUNT \<and> hm_tim_diff (sl_last_tim s) (hm_get_cur_time s) > 300"

definition uart_bad_mark :: "u8 list \<Rightarrow> bool" where
  "uart_bad_mark b \<longleftrightarrow> mark1 (req_of_bytes b) \<noteq> HM_CMD_MARK1 \<or> mark2 (req_of_bytes b) \<noteq> HM_CMD_MARK2"

definition uart_complete :: "nat \<Rightarrow> 'a uart_st_scheme \<Rightarrow> 'a uart_st_scheme" where
  "uart_complete i s =
     (if unat (buf_idx (uitem i s)) = sizeof_req then
        if uart_bad_mark (cmd_buf (uitem i s))
        then upd_uitem i uart_queue_item_init (hm_led_act ltError True s)
        else snd (hm_msg_queue_add (Some CK_hm_cmd_msg_ck) (CmdItem i)
               (upd_uitem i (\<lambda>x. x\<lparr>ui_state := uStPushed\<rparr>) s))
      else s)"

definition hm_cmd_uart_ck :: "u8 \<Rightarrow> 'a uart_st_scheme \<Rightarrow> 'a uart_st_scheme res" where
  "hm_cmd_uart_ck ch s =
     bnd (uart_pick (s\<lparr>s_cks := s_cks s + 1\<rparr>)) (\<lambda>(item, s).
       case item of
         None \<Rightarrow> Ok s
       | Some i \<Rightarrow>
           let s = (if uart_late s then upd_uitem i (\<lambda>x. x\<lparr>buf_idx := 0, ui_state := uStFilling\<rparr>) s else s)
           in if unat (buf_idx (uitem i s)) \<ge> sizeof_req then Fault OutOfBounds
              else
                let s = upd_uitem i (\<lambda>x. x\<lparr>cmd_buf := (cmd_buf x)[unat (buf_idx x) := ch], buf_idx := buf_idx x + 1\<rparr>) s;
                    s = uart_complete i s
                in Ok (s\<lparr>sl_last_tim := hm_get_cur_time s\<rparr>))"

text \<open>The receive interrupt, with the byte that is read from the data register.\<close>

definition run_uart_ck :: "uart_ck \<Rightarrow> u8 \<Rightarrow> 'a uart_st_scheme \<Rightarrow> 'a uart_st_scheme res" where
  "run_uart_ck f ch s = (case f of UCK_hm_cmd_uart_ck \<Rightarrow> hm_cmd_uart_ck ch s)"

definition USART2_IRQHandler :: "bool \<Rightarrow> u8 \<Rightarrow> 'a uart_st_scheme \<Rightarrow> 'a uart_st_scheme res" where
  "USART2_IRQHandler rxne temp1 s =
     (if rxne then
        for_each (\<lambda>i s. case uck_func (s_uart_cks s ! i) of
                          None \<Rightarrow> Ok s
                        | Some f \<Rightarrow> run_uart_ck f temp1 (upd_uck i (\<lambda>c. c\<lparr>uck_ch := temp1\<rparr>) s))
          [0..<HM_UART_MAX_CK_SIZE] s
      else Ok s)"

section \<open>Executing a frame\<close>

definition uart_msg_ck :: "nat \<Rightarrow> 'a uart_st_scheme \<Rightarrow> 'a uart_st_scheme res" where
  "uart_msg_ck i s =
     (case uart_find_cmd_table (ncmd (req_of_bytes (cmd_buf (uitem i s)))) s of
        None \<Rightarrow> Ok s
      | Some k \<Rightarrow>
          (case pair_ck (u_table s ! k) of
             None \<Rightarrow> Ok s
           | Some f \<Rightarrow>
               let s = upd_uitem i (\<lambda>x. x\<lparr>ui_state := uStCalling\<rparr>) s
               in bnd (run_cmd_ck f (req_of_bytes (cmd_buf (uitem i s))) s) (\<lambda>(r, s).
                  let s = upd_uitem i (\<lambda>x. x\<lparr>cmd_buf := bytes_of_req r\<rparr>) s;
                      s = hm_uart_send_cmd (cmd_buf (uitem i s)) sizeof_req s
                  in Ok (upd_uitem i uart_queue_item_init s))))"

section \<open>The pool of the serial interface\<close>

definition uslot_idle :: "nat \<Rightarrow> 'a uart_st_scheme \<Rightarrow> bool" where
  "uslot_idle i s \<longleftrightarrow> ui_state (uitem i s) = uStIdle"

lemma uart_find_idle_eq:
  "uart_find_idle s = (case List.find (\<lambda>i. uslot_idle i s) [0..<20] of
     None \<Rightarrow> (None, s) | Some i \<Rightarrow> (Some i, s\<lparr>u_queue_idx := word_of_nat i\<rparr>))"
  by (simp add: uart_find_idle_def uslot_idle_def uitem_def HM_CMD_MAX_CMD_ITEM_def del: upt_rec_numeral)

interpretation uartpool: slot_pool uslot_idle 20 "\<lambda>s. fst (uart_find_idle s)"
proof
  fix s :: "'a uart_st_scheme" and i
  show "fst (uart_find_idle s) = Some i \<Longrightarrow> i < 20 \<and> uslot_idle i s"
    by (auto simp: uart_find_idle_eq find_upt_Some split: option.splits simp del: upt_rec_numeral)
  show "fst (uart_find_idle s) = None \<Longrightarrow> i < 20 \<Longrightarrow> \<not> uslot_idle i s"
    by (auto simp: uart_find_idle_eq find_upt_None split: option.splits simp del: upt_rec_numeral)
qed

text \<open>The part of the state that only this interface writes.\<close>

definition uart_part :: "'a uart_st_scheme \<Rightarrow>
    uart_item list \<times> hm_cmd_ck_pair list \<times> u32 \<times> u32 \<times> hm_uart_ck_info list \<times> u8 list" where
  "uart_part s = (u_queue s, u_table s, u_queue_idx s, sl_last_tim s, s_uart_cks s, usart2_out s)"

interpretation uartframe: cmd_frame uart_part
  by unfold_locales (simp_all add: uart_part_def)

lemma uart_part_led [simp]: "uart_part (hm_led_act l b s) = uart_part s"
  by (rule uartframe.obs_drivers)

lemma uart_part_add [simp]: "uart_part (snd (hm_msg_queue_add f p s)) = uart_part s"
  by (rule uartframe.obs_queue_add)

lemma same_part:
  assumes "uart_part t = uart_part s"
  shows "u_queue t = u_queue s" "u_table t = u_table s" "u_queue_idx t = u_queue_idx s" "sl_last_tim t = sl_last_tim s"
    "usart2_out t = usart2_out s" "uitem i t = uitem i s" "uslot_idle i t = uslot_idle i s" "s_uart_cks t = s_uart_cks s"
  using assms by (simp_all add: uart_part_def uitem_def uslot_idle_def)

lemma upd_uitem_sel [simp]:
  "u_queue_idx (upd_uitem i f s) = u_queue_idx s" "sl_last_tim (upd_uitem i f s) = sl_last_tim s"
  "length (u_queue (upd_uitem i f s)) = length (u_queue s)" "u_table (upd_uitem i f s) = u_table s"
  "usart2_out (upd_uitem i f s) = usart2_out s" "queued (upd_uitem i f s) = queued s" "s_tim_count (upd_uitem i f s) = s_tim_count s"
  "msg_wf (upd_uitem i f s) = msg_wf s" "s_uart_cks (upd_uitem i f s) = s_uart_cks s"
  by (simp_all add: upd_uitem_def queued_def msgs_def msg_wf_def ring_wf_def msg_at_def msg_count_def cong: list.map_cong)

lemma uitem_upd [simp]:
  "j < length (u_queue s) \<Longrightarrow> uitem j (upd_uitem i f s) = (if j = i then f (uitem i s) else uitem j s)"
  by (auto simp: upd_uitem_def uitem_def nth_list_update)

section \<open>The receiver\<close>

text \<open>
  The receiver as a machine on the bytes of the frame it has so far: after a pause of more than 300 ms it starts
  over, and with the thirtieth byte the frame is delivered if its two marks are right, or dropped.
\<close>

definition rx_step :: "bool \<Rightarrow> u8 \<Rightarrow> u8 list \<Rightarrow> u8 list \<times> u8 list list" where
  "rx_step late b p =
     (let q = (if late then [] else p) @ [b]
      in if length q = 30 then ([], if uart_bad_mark q then [] else [q]) else (q, []))"

text \<open>What the state holds of it: the partial frame, and the frames that wait for the main loop.\<close>

definition filling :: "'a uart_st_scheme \<Rightarrow> bool" where
  "filling s \<longleftrightarrow> u_queue_idx s \<noteq> HM_CMD_INVALID_IDX \<and> ui_state (uitem (unat (u_queue_idx s)) s) = uStFilling"

definition got :: "nat \<Rightarrow> 'a uart_st_scheme \<Rightarrow> u8 list" where
  "got i s = take (unat (buf_idx (uitem i s))) (cmd_buf (uitem i s))"

definition partial :: "'a uart_st_scheme \<Rightarrow> u8 list" where
  "partial s = (if filling s then got (unat (u_queue_idx s)) s else [])"

definition frame_of_msg :: "'a uart_st_scheme \<Rightarrow> ck_func \<times> ck_param \<Rightarrow> u8 list list" where
  "frame_of_msg s m =
     (if fst m = CK_hm_cmd_msg_ck then case snd m of CmdItem i \<Rightarrow> [cmd_buf (uitem i s)] | NoParam \<Rightarrow> [] else [])"

definition frames :: "'a uart_st_scheme \<Rightarrow> u8 list list" where
  "frames s = concat (map (frame_of_msg s) (queued s))"

text \<open>The slots: idle ones are empty, at most the current one is being filled, queued ones are complete.\<close>

definition slot_ok :: "u32 \<Rightarrow> nat \<Rightarrow> uart_item \<Rightarrow> bool" where
  "slot_ok idx i x \<longleftrightarrow> length (cmd_buf x) = 30 \<and> (ui_state x = uStIdle \<longrightarrow> buf_idx x = 0) \<and>
     (ui_state x = uStFilling \<longrightarrow> unat idx = i \<and> unat (buf_idx x) < 30)"

definition refs_ok :: "'a uart_st_scheme \<Rightarrow> bool" where
  "refs_ok s \<longleftrightarrow> (\<forall>m \<in> set (queued s). fst m = CK_hm_cmd_msg_ck \<longrightarrow>
     (\<exists>i < 20. snd m = CmdItem i \<and> ui_state (uitem i s) = uStPushed))"

definition uart_wf :: "'a uart_st_scheme \<Rightarrow> bool" where
  "uart_wf s \<longleftrightarrow> length (u_queue s) = 20 \<and> (\<forall>i < 20. slot_ok (u_queue_idx s) i (uitem i s)) \<and>
     (u_queue_idx s = HM_CMD_INVALID_IDX \<or> unat (u_queue_idx s) < 20) \<and> msg_wf s \<and> refs_ok s"

text \<open>The frames the pool has room for.\<close>

definition room :: "'a uart_st_scheme \<Rightarrow> nat" where
  "room s = uartpool.free s + (if filling s then 1 else 0)"

definition fills :: "nat \<Rightarrow> 'a uart_st_scheme \<Rightarrow> bool" where
  "fills i s \<longleftrightarrow> i < 20 \<and> unat (u_queue_idx s) = i \<and> ui_state (uitem i s) = uStFilling"

lemma fills_filling: "fills i s \<Longrightarrow> filling s"
  by (auto simp: fills_def filling_def HM_CMD_INVALID_IDX_def)

lemma fills_partial: "fills i s \<Longrightarrow> partial s = got i s"
  using fills_filling[of i s] by (auto simp: partial_def fills_def)

lemma filling_fills: "uart_wf s \<Longrightarrow> filling s \<Longrightarrow> fills (unat (u_queue_idx s)) s"
  by (auto simp: uart_wf_def filling_def fills_def)

lemma frames_upd:
  assumes "refs_ok s" and "length (u_queue s) = 20" and "ui_state (uitem i s) \<noteq> uStPushed"
  shows "frames (upd_uitem i f s) = frames s" "refs_ok (upd_uitem i f s)"
proof -
  have "frame_of_msg (upd_uitem i f s) m = frame_of_msg s m" if "m \<in> set (queued s)" for m
    using assms that unfolding frame_of_msg_def refs_ok_def by (fastforce split: ck_param.split)
  then show "frames (upd_uitem i f s) = frames s" by (simp add: frames_def cong: list.map_cong)
  show "refs_ok (upd_uitem i f s)" using assms unfolding refs_ok_def by (fastforce simp: upd_uitem_sel)
qed

lemma uart_wf_upd:
  assumes "uart_wf s" and "i < 20" and "ui_state (uitem i s) \<noteq> uStPushed" and "slot_ok (u_queue_idx s) i (f (uitem i s))"
  shows "uart_wf (upd_uitem i f s)"
  using assms frames_upd(2)[of s i f] by (auto simp: uart_wf_def)

text \<open>The index of a pool slot is a small word.\<close>

lemma unat_slot: "i < 20 \<Longrightarrow> unat (word_of_nat i :: u32) = i"
  by (simp add: unat_of_nat)

lemma pick_filling: "fills i s \<Longrightarrow> uart_pick s = Ok (Some i, s)"
  by (auto simp: uart_pick_def fills_def HM_CMD_INVALID_IDX_def HM_CMD_MAX_CMD_ITEM_def)

lemma set_idx_sel [simp]:
  "uitem i (s\<lparr>u_queue_idx := w\<rparr>) = uitem i s" "queued (s\<lparr>u_queue_idx := w\<rparr>) = queued s"
  "msg_wf (s\<lparr>u_queue_idx := w\<rparr>) = msg_wf s" "uslot_idle i (s\<lparr>u_queue_idx := w\<rparr>) = uslot_idle i s"
  by (simp_all add: uitem_def queued_def msgs_def msg_wf_def ring_wf_def msg_at_def msg_count_def uslot_idle_def
      cong: list.map_cong)

lemma not_filling:
  assumes "uart_wf s" and "\<not> filling s" and "i < 20"
  shows "ui_state (uitem i s) \<noteq> uStFilling"
proof
  assume f: "ui_state (uitem i s) = uStFilling"
  then have "unat (u_queue_idx s) = i" using assms(1,3) by (auto simp: uart_wf_def slot_ok_def)
  then have "filling s" using f assms(3) by (auto simp: filling_def HM_CMD_INVALID_IDX_def)
  then show False using assms(2) by simp
qed

lemma uslot_idle_upd:
  "j < length (u_queue s) \<Longrightarrow>
    uslot_idle j (upd_uitem i f s) = (if j = i then ui_state (f (uitem i s)) = uStIdle else uslot_idle j s)"
  by (simp add: uslot_idle_def)

lemma find_idle_Some: "fst (uart_find_idle s) = Some i \<Longrightarrow> uart_find_idle s = (Some i, s\<lparr>u_queue_idx := word_of_nat i\<rparr>)"
  unfolding uart_find_idle_eq
  by (cases "List.find (\<lambda>i. uslot_idle i s) [0..<20]") (simp_all only: option.case fst_conv option.distinct option.inject)

lemma uart_wfD:
  assumes "uart_wf s"
  shows "length (u_queue s) = 20" "i < 20 \<Longrightarrow> slot_ok (u_queue_idx s) i (uitem i s)" "msg_wf s" "refs_ok s"
  using assms by (simp_all add: uart_wf_def)

lemma pick_idle:
  assumes wf: "uart_wf s" and nf: "\<not> filling s" and i: "fst (uart_find_idle s) = Some i"
  defines "t \<equiv> upd_uitem i (\<lambda>x. x\<lparr>ui_state := uStFilling\<rparr>) (s\<lparr>u_queue_idx := word_of_nat i\<rparr>)"
  shows "uart_pick s = Ok (Some i, t)" "fills i t" "uart_wf t" "got i t = []" "frames t = frames s"
    "uartpool.free s = Suc (uartpool.free t)"
proof -
  let ?u = "s\<lparr>u_queue_idx := word_of_nat i :: u32\<rparr>"
  have i20: "i < 20" and idle: "uslot_idle i s" using uartpool.found[OF i] by simp_all
  have len: "length (u_queue s) = 20" using wf by (simp add: uart_wf_def)
  have find: "uart_find_idle s = (Some i, ?u)" by (rule find_idle_Some[OF i])
  have g: "\<not> (u_queue_idx s \<noteq> HM_CMD_INVALID_IDX \<and> unat (u_queue_idx s) \<ge> HM_CMD_MAX_CMD_ITEM)"
    using wf by (auto simp: uart_wf_def HM_CMD_MAX_CMD_ITEM_def)
  have c: "u_queue_idx s = HM_CMD_INVALID_IDX \<or> ui_state (uitem (unat (u_queue_idx s)) s) \<noteq> uStFilling"
    using nf by (auto simp: filling_def)
  show "uart_pick s = Ok (Some i, t)" using g c find by (simp add: uart_pick_def t_def Let_def)
  have st: "ui_state (uitem i ?u) = uStIdle" using idle by (simp add: uslot_idle_def)
  have bi: "buf_idx (uitem i s) = 0" using wf i20 st by (simp add: uart_wf_def slot_ok_def)
  have refs: "refs_ok ?u" using wf by (simp add: uart_wf_def refs_ok_def)
  have "slot_ok (u_queue_idx ?u) j (uitem j ?u)" if "j < 20" for j
    using wf that not_filling[OF wf nf that] by (simp add: uart_wf_def slot_ok_def)
  then have wfu: "uart_wf ?u" using wf refs unat_slot[OF i20] i20 by (simp add: uart_wf_def)
  have ok: "slot_ok (u_queue_idx ?u) i (uitem i ?u\<lparr>ui_state := uStFilling\<rparr>)"
    using wf i20 unat_slot[OF i20] bi by (simp add: uart_wf_def slot_ok_def)
  show "uart_wf t" unfolding t_def using uart_wf_upd[OF wfu i20, of "\<lambda>x. x\<lparr>ui_state := uStFilling\<rparr>"] st ok by simp
  show "fills i t" using i20 len unat_slot[OF i20] by (simp add: fills_def t_def)
  show "got i t = []" using i20 len bi by (simp add: got_def t_def)
  have "frames t = frames ?u"
    unfolding t_def by (rule frames_upd(1)[OF refs]) (use len st in simp_all)
  also have "\<dots> = frames s"
  proof -
    have "frame_of_msg ?u = frame_of_msg s" by (intro ext) (simp add: frame_of_msg_def split: ck_param.split)
    then show ?thesis by (simp add: frames_def)
  qed
  finally show "frames t = frames s" .
  show "uartpool.free s = Suc (uartpool.free t)"
    by (rule uartpool.free_taken[OF i]) (use len in \<open>simp add: t_def uslot_idle_upd\<close>)
qed

text \<open>The reset after a pause.\<close>

lemma late_reset:
  assumes "uart_wf s" and "fills i s"
  defines "t \<equiv> upd_uitem i (\<lambda>x. x\<lparr>buf_idx := 0, ui_state := uStFilling\<rparr>) s"
  shows "fills i t" "uart_wf t" "got i t = []" "frames t = frames s" "uartpool.free t = uartpool.free s"
proof -
  have f: "i < 20" "ui_state (uitem i s) = uStFilling" "unat (u_queue_idx s) = i" using assms(2) by (simp_all add: fills_def)
  have len: "length (u_queue s) = 20" using assms(1) by (simp add: uart_wf_def)
  show "fills i t" "got i t = []" using f len by (simp_all add: fills_def t_def got_def)
  note ok = uart_wfD(2)[OF assms(1) f(1)]
  show "uart_wf t" unfolding t_def by (rule uart_wf_upd[OF assms(1) f(1)]) (use ok f(2,3) in \<open>simp_all add: slot_ok_def\<close>)
  show "frames t = frames s"
    unfolding t_def by (rule frames_upd(1)[OF uart_wfD(4)[OF assms(1)] len]) (simp add: f(2))
  show "uartpool.free t = uartpool.free s"
    by (rule uartpool.free_same) (use len f in \<open>simp add: t_def uslot_idle_upd uslot_idle_def\<close>)
qed

section \<open>One byte\<close>

lemma take_put: "n < length b \<Longrightarrow> take (Suc n) (b[n := c]) = take n b @ [c]"
  by (simp add: take_Suc_conv_app_nth)

lemma unat_inc: "unat (w :: u32) < 30 \<Longrightarrow> unat (w + 1) = Suc (unat w)"
  by (simp add: unat_word_ariths unat_u32_less)

definition put_byte :: "u8 \<Rightarrow> uart_item \<Rightarrow> uart_item" where
  "put_byte ch x = x\<lparr>cmd_buf := (cmd_buf x)[unat (buf_idx x) := ch], buf_idx := buf_idx x + 1\<rparr>"

lemma upd_uitem_twice: "upd_uitem i g (upd_uitem i f s) = upd_uitem i (\<lambda>x. g (f x)) s"
  by (cases "i < length (u_queue s)") (simp_all add: upd_uitem_def list_update_beyond not_less)

lemma got_put:
  assumes "slot_ok idx i x" and "ui_state x = uStFilling"
  shows "take (unat (buf_idx (put_byte ch x))) (cmd_buf (put_byte ch x)) = take (unat (buf_idx x)) (cmd_buf x) @ [ch]"
    "unat (buf_idx (put_byte ch x)) = Suc (unat (buf_idx x))" "length (cmd_buf (put_byte ch x)) = 30"
    "ui_state (put_byte ch x) = uStFilling"
  using assms by (simp_all add: slot_ok_def put_byte_def unat_inc take_put)

lemma led_keeps [simp]:
  "queued (hm_led_act l b s) = queued s" "msg_wf (hm_led_act l b s) = msg_wf s" "s_tim_count (hm_led_act l b (s' :: 'a timer_st_scheme)) = s_tim_count s'"
  by (simp_all add: hm_led_act_def GPIO_SetBits_def GPIO_ResetBits_def queued_def msgs_def msg_wf_def ring_wf_def msg_at_def
      msg_count_def cong: list.map_cong)

lemma led_uart [simp]:
  "u_queue (hm_led_act l b s) = u_queue s" "u_queue_idx (hm_led_act l b s) = u_queue_idx s"
  "uitem i (hm_led_act l b s) = uitem i s" "uslot_idle i (hm_led_act l b s) = uslot_idle i s"
  "upd_uitem i f (hm_led_act l b s) = hm_led_act l b (upd_uitem i f s)"
  using same_part[OF uart_part_led[of l b s]]
  by (simp_all add: upd_uitem_def hm_led_act_def GPIO_SetBits_def GPIO_ResetBits_def)

lemma led_frames [simp]:
  "frames (hm_led_act l b s) = frames s" "uart_wf (hm_led_act l b s) = uart_wf s" "filling (hm_led_act l b s) = filling s"
  "uartpool.free (hm_led_act l b s) = uartpool.free s" "got i (hm_led_act l b s) = got i s"
proof -
  have "frame_of_msg (hm_led_act l b s) = frame_of_msg s" by (intro ext) (simp add: frame_of_msg_def split: ck_param.split)
  then show "frames (hm_led_act l b s) = frames s" by (simp add: frames_def)
  show "uart_wf (hm_led_act l b s) = uart_wf s" by (simp add: uart_wf_def refs_ok_def)
  show "uartpool.free (hm_led_act l b s) = uartpool.free s" by (rule uartpool.free_same) simp
qed (simp_all add: filling_def got_def)

text \<open>What a byte that goes into the slot in use does, in the terms of the receiver machine.\<close>

definition completes :: "u8 \<Rightarrow> nat \<Rightarrow> 'a uart_st_scheme \<Rightarrow> 'a uart_st_scheme \<Rightarrow> bool" where
  "completes ch i s t \<longleftrightarrow> uart_wf t \<and> frames t = frames s @ snd (rx_step False ch (got i s)) \<and>
    partial t = fst (rx_step False ch (got i s)) \<and>
    room t + length (snd (rx_step False ch (got i s))) = room s \<and>
    length (queued t) = length (queued s) + length (snd (rx_step False ch (got i s)))"

lemma byte_in:
  assumes wf: "uart_wf s" and f: "fills i s"
  shows "i < 20" "ui_state (uitem i s) = uStFilling" "unat (u_queue_idx s) = i" "length (u_queue s) = 20"
    "slot_ok (u_queue_idx s) i (uitem i s)" "msg_wf s" "refs_ok s" "ui_state (uitem i s) \<noteq> uStPushed"
    "room s = Suc (uartpool.free s)"
proof -
  show i: "i < 20" and st: "ui_state (uitem i s) = uStFilling" and "unat (u_queue_idx s) = i"
    using f by (simp_all add: fills_def)
  show len: "length (u_queue s) = 20" and ok: "slot_ok (u_queue_idx s) i (uitem i s)" and "msg_wf s" "refs_ok s"
    using uart_wfD[OF wf] i by blast+
  show "ui_state (uitem i s) \<noteq> uStPushed" using st by simp
  show "room s = Suc (uartpool.free s)" using fills_filling[OF f] by (simp add: room_def)
qed

lemma byte_put:
  assumes wf: "uart_wf s" and f: "fills i s"
  shows "uitem i (upd_uitem i (put_byte ch) s) = put_byte ch (uitem i s)"
    "take (unat (buf_idx (put_byte ch (uitem i s)))) (cmd_buf (put_byte ch (uitem i s))) = got i s @ [ch]"
    "length (got i s @ [ch]) = unat (buf_idx (put_byte ch (uitem i s)))"
proof -
  note b = byte_in[OF wf f]
  note g = got_put[OF b(5,2), of ch, folded got_def]
  show "uitem i (upd_uitem i (put_byte ch) s) = put_byte ch (uitem i s)" using b(1,4) by simp
  show "take (unat (buf_idx (put_byte ch (uitem i s)))) (cmd_buf (put_byte ch (uitem i s))) = got i s @ [ch]"
    using g(1) by simp
  show "length (got i s @ [ch]) = unat (buf_idx (put_byte ch (uitem i s)))"
    using g(2) b(2,5) by (simp add: got_def slot_ok_def)
qed

lemma taken_free:
  assumes "uart_wf s" and "fills i s" and "ui_state (h (uitem i s)) \<noteq> uStIdle"
  shows "uartpool.free (upd_uitem i h s) = uartpool.free s"
  by (rule uartpool.free_same) (use byte_in[OF assms(1,2)] assms(3) in \<open>simp add: uslot_idle_upd uslot_idle_def\<close>)

lemma complete_more:
  fixes ch :: u8 and s :: "'a uart_st_scheme"
  assumes wf: "uart_wf s" and f: "fills i s" and more: "length (got i s @ [ch]) \<noteq> 30"
  shows "completes ch i s (uart_complete i (upd_uitem i (put_byte ch) s))"
proof -
  note b = byte_in[OF wf f]
  note c = byte_put[OF wf f, of ch]
  note g = got_put[OF b(5,2), of ch, folded got_def]
  let ?t = "upd_uitem i (put_byte ch) s"
  have t: "uart_complete i ?t = ?t" using more c(3) by (simp add: uart_complete_def c(1) sizeof_req_30)
  have lt: "unat (buf_idx (put_byte ch (uitem i s))) < 30" using b(2,5) c(3) g(2) more by (simp add: slot_ok_def)
  have "uart_wf ?t" by (rule uart_wf_upd[OF wf b(1,8)]) (use g(3,4) lt b(3) in \<open>simp add: slot_ok_def\<close>)
  moreover have ft: "fills i ?t" using b(1,3) c(1) g(4) by (simp add: fills_def)
  have "partial ?t = got i s @ [ch]" using fills_partial[OF ft] c(2) unfolding got_def c(1) by simp
  moreover have "frames ?t = frames s" by (rule frames_upd(1)[OF b(7,4,8)])
  moreover have "room ?t = room s" using fills_filling[OF ft] b(9) taken_free[OF wf f, of "put_byte ch"] g(4) by (simp add: room_def)
  ultimately show ?thesis using more unfolding t completes_def by (simp add: rx_step_def Let_def)
qed

lemma complete_bad:
  fixes ch :: u8 and s :: "'a uart_st_scheme"
  assumes wf: "uart_wf s" and f: "fills i s" and bad: "length (got i s @ [ch]) = 30" "uart_bad_mark (got i s @ [ch])"
  shows "completes ch i s (uart_complete i (upd_uitem i (put_byte ch) s))"
proof -
  note b = byte_in[OF wf f]
  note c = byte_put[OF wf f, of ch]
  note g = got_put[OF b(5,2), of ch, folded got_def]
  let ?f = "\<lambda>x. uart_queue_item_init (put_byte ch x)"
  define t where "t = uart_complete i (upd_uitem i (put_byte ch) s)"
  have full: "cmd_buf (put_byte ch (uitem i s)) = got i s @ [ch]" using c(2,3) g(3) bad(1) by simp
  have t: "t = hm_led_act ltError True (upd_uitem i ?f s)"
    using bad c(3) by (simp add: t_def uart_complete_def c(1) sizeof_req_30 full upd_uitem_twice)
  have nf: "\<not> filling (upd_uitem i ?f s)" using b(1,3,4) by (simp add: filling_def uart_queue_item_init_def)
  have "uart_wf t" unfolding t led_frames
    by (rule uart_wf_upd[OF wf b(1,8)]) (use g(3) in \<open>simp add: slot_ok_def uart_queue_item_init_def uart_item_init_def\<close>)
  moreover have "frames t = frames s" unfolding t led_frames by (rule frames_upd(1)[OF b(7,4,8)])
  moreover have "partial t = []" using nf by (simp add: t partial_def)
  moreover have "uartpool.free (upd_uitem i ?f s) = Suc (uartpool.free s)"
    by (rule uartpool.free_given[OF b(1)])
      (use b(1,2,4) in \<open>simp_all add: uslot_idle_upd uslot_idle_def uart_queue_item_init_def\<close>)
  ultimately show ?thesis using bad b(9) nf unfolding t_def[symmetric] completes_def
    by (simp add: rx_step_def Let_def t room_def)
qed

lemma complete_good:
  fixes ch :: u8 and s :: "'a uart_st_scheme"
  assumes wf: "uart_wf s" and f: "fills i s" and room: "length (queued s) < 79"
    and good: "length (got i s @ [ch]) = 30" "\<not> uart_bad_mark (got i s @ [ch])"
  shows "completes ch i s (uart_complete i (upd_uitem i (put_byte ch) s))"
proof -
  note b = byte_in[OF wf f]
  note c = byte_put[OF wf f, of ch]
  note g = got_put[OF b(5,2), of ch, folded got_def]
  let ?f = "\<lambda>x. (put_byte ch x)\<lparr>ui_state := uStPushed\<rparr>"
  let ?u = "upd_uitem i ?f s"
  define t where "t = uart_complete i (upd_uitem i (put_byte ch) s)"
  have full: "cmd_buf (put_byte ch (uitem i s)) = got i s @ [ch]" using c(2,3) g(3) good(1) by simp
  have t: "t = snd (hm_msg_queue_add (Some CK_hm_cmd_msg_ck) (CmdItem i) ?u)"
    using good c(3) by (simp add: t_def uart_complete_def c(1) sizeof_req_30 full upd_uitem_twice)
  have wfu: "uart_wf ?u" by (rule uart_wf_upd[OF wf b(1,8)]) (use g(3) in \<open>simp add: slot_ok_def\<close>)
  have part: "uart_part t = uart_part ?u" unfolding t by (rule uart_part_add)
  note p = same_part[OF part]
  have q: "queued t = queued s @ [(CK_hm_cmd_msg_ck, CmdItem i)]"
    unfolding t using queued_add[of ?u] uart_wfD(3)[OF wfu] room by simp
  have it: "uitem i t = ?f (uitem i s)" using p(6)[of i] b(1,4) by simp
  have "msg_wf t" unfolding t by (rule add_msg_wf[OF uart_wfD(3)[OF wfu]])
  moreover have "refs_ok t" using uart_wfD(4)[OF wfu] q p(6) it b(1) by (auto simp: refs_ok_def)
  ultimately have wft: "uart_wf t" using wfu unfolding uart_wf_def p(1) p(3) p(6) by blast
  have "frame_of_msg t m = frame_of_msg ?u m" for m using p(6) by (simp add: frame_of_msg_def split: ck_param.split)
  then have "frame_of_msg t = frame_of_msg ?u" by (rule ext)
  then have "frames t = frames ?u @ frame_of_msg t (CK_hm_cmd_msg_ck, CmdItem i)" by (simp add: frames_def q)
  also have "\<dots> = frames s @ [got i s @ [ch]]"
    using frames_upd(1)[OF b(7,4,8)] it full by (simp add: frame_of_msg_def)
  finally have fr: "frames t = frames s @ [got i s @ [ch]]" .
  have nf: "\<not> filling t" using it b(3) p(3) by (simp add: filling_def)
  have "uartpool.free t = uartpool.free ?u" by (rule uartpool.free_same) (simp add: p(7))
  then have "uartpool.free t = uartpool.free s" using taken_free[OF wf f, of ?f] by simp
  then show ?thesis using good b(9) nf wft fr q unfolding t_def[symmetric] completes_def
    by (simp add: rx_step_def Let_def room_def partial_def)
qed

lemma complete_cases:
  fixes ch :: u8 and s :: "'a uart_st_scheme"
  assumes "uart_wf s" and "fills i s" and "length (queued s) < 79"
  shows "completes ch i s (uart_complete i (upd_uitem i (put_byte ch) s))"
  using complete_more[OF assms(1,2), of ch] complete_bad[OF assms(1,2), of ch] complete_good[OF assms, of ch] by blast

lemma complete_sel:
  "s_tim_count (uart_complete i s) = s_tim_count s" "s_uart_cks (uart_complete i s) = s_uart_cks s"
  "u_table (uart_complete i s) = u_table s" "usart2_out (uart_complete i s) = usart2_out s"
proof -
  have add: "s_tim_count (snd (hm_msg_queue_add f p z)) = s_tim_count z" for f p and z :: "'a uart_st_scheme"
    by (simp add: hm_msg_queue_add_def msg_get_move_next_write_def msg_fill_def Let_def disable_irq_def enable_irq_def
        split: option.split)
  show "s_tim_count (uart_complete i s) = s_tim_count s" by (simp add: uart_complete_def add)
  have part: "u_table z' = u_table z \<and> usart2_out z' = usart2_out z \<and> s_uart_cks z' = s_uart_cks z"
    if "uart_part z' = uart_part z" for z z' :: "'a uart_st_scheme"
    using same_part[OF that] by simp
  show "s_uart_cks (uart_complete i s) = s_uart_cks s" "u_table (uart_complete i s) = u_table s"
    "usart2_out (uart_complete i s) = usart2_out s"
    using part[OF uart_part_add] part[OF uart_part_led] by (simp_all add: uart_complete_def)
qed

text \<open>The view of the receiver is a view of the pool, the index and the queue.\<close>

lemma same_view:
  fixes s t :: "'a uart_st_scheme"
  assumes "u_queue t = u_queue s" and "u_queue_idx t = u_queue_idx s" and "queued t = queued s" and "msg_wf t = msg_wf s"
  shows "uart_wf t = uart_wf s" "frames t = frames s" "partial t = partial s" "room t = room s"
proof -
  have it: "uitem i t = uitem i s" for i using assms(1) by (simp add: uitem_def)
  have "frame_of_msg t = frame_of_msg s" by (intro ext) (simp add: frame_of_msg_def it split: ck_param.split)
  then show "frames t = frames s" by (simp only: frames_def assms(3))
  show "uart_wf t = uart_wf s" unfolding uart_wf_def refs_ok_def by (simp only: assms it)
  have f: "filling t = filling s" by (simp only: filling_def assms it)
  then show "partial t = partial s" by (simp only: partial_def got_def assms it)
  have "uartpool.free t = uartpool.free s" by (rule uartpool.free_same) (simp only: uslot_idle_def it)
  then show "room t = room s" by (simp only: room_def f)
qed

lemma queue_same:
  assumes "msg_array t = msg_array s" and "nwrite t = nwrite s" and "nread t = nread s" and "nmin t = nmin s"
  shows "queued t = queued s" "msg_wf t = msg_wf s"
  by (simp_all add: queued_def msgs_def msg_wf_def ring_wf_def msg_at_def msg_count_def assms)

lemma small_sel [simp]:
  "uart_wf (s\<lparr>s_cks := c\<rparr>) = uart_wf s" "frames (s\<lparr>s_cks := c\<rparr>) = frames s" "partial (s\<lparr>s_cks := c\<rparr>) = partial s"
  "room (s\<lparr>s_cks := c\<rparr>) = room s" "queued (s\<lparr>s_cks := c\<rparr>) = queued s"
  by (intro same_view queue_same; simp)+

lemma count_last [simp]: "msg_count (s\<lparr>sl_last_tim := w\<rparr>) = msg_count s" "msg_count (s\<lparr>s_tim_count := w\<rparr>) = msg_count s"
  "msg_count (upd_uck i f s) = msg_count s"
  by (simp_all add: msg_count_def upd_uck_def)

lemma small_sel2 [simp]:
  "uart_wf (s\<lparr>sl_last_tim := w\<rparr>) = uart_wf s" "frames (s\<lparr>sl_last_tim := w\<rparr>) = frames s"
  "partial (s\<lparr>sl_last_tim := w\<rparr>) = partial s" "room (s\<lparr>sl_last_tim := w\<rparr>) = room s"
  "queued (s\<lparr>sl_last_tim := w\<rparr>) = queued s"
  by (intro same_view queue_same; simp)+

lemma small_sel3 [simp]:
  "uart_wf (s\<lparr>s_tim_count := w\<rparr>) = uart_wf s" "frames (s\<lparr>s_tim_count := w\<rparr>) = frames s"
  "partial (s\<lparr>s_tim_count := w\<rparr>) = partial s" "room (s\<lparr>s_tim_count := w\<rparr>) = room s"
  "queued (s\<lparr>s_tim_count := w\<rparr>) = queued s"
  by (intro same_view queue_same; simp)+

lemma small_sel4 [simp]:
  "uart_wf (upd_uck i f s) = uart_wf s" "frames (upd_uck i f s) = frames s"
  "partial (upd_uck i f s) = partial s" "room (upd_uck i f s) = room s" "queued (upd_uck i f s) = queued s"
  by (intro same_view queue_same; simp add: upd_uck_def)+

definition late_at :: "u32 \<Rightarrow> u32 \<Rightarrow> bool" where
  "late_at prev tm \<longleftrightarrow> prev \<noteq> HM_TIM_INVALID_COUNT \<and> hm_tim_diff prev tm > 300"

lemma uart_late_at: "uart_late s = late_at (sl_last_tim s) (s_tim_count s)"
  by (simp add: uart_late_def late_at_def hm_get_cur_time_def)

lemma rx_late: "rx_step late b p = rx_step False b (if late then [] else p)"
  by (simp add: rx_step_def)

lemma room_pos: "room s > 0 \<Longrightarrow> filling s \<or> (\<exists>i. fst (uart_find_idle s) = Some i)"
  using uartpool.free_none[of s] by (auto simp: room_def split: if_splits)

text \<open>A byte, with a slot and a message free: the machine makes its step.\<close>

lemma byte_step:
  assumes "uart_wf s" and "room s > 0" and "length (queued s) < 79"
  shows "\<exists>t. hm_cmd_uart_ck b s = Ok t \<and> uart_wf t \<and>
    partial t = fst (rx_step (uart_late s) b (partial s)) \<and>
    frames t = frames s @ snd (rx_step (uart_late s) b (partial s)) \<and>
    room t + length (snd (rx_step (uart_late s) b (partial s))) = room s \<and>
    length (queued t) = length (queued s) + length (snd (rx_step (uart_late s) b (partial s))) \<and>
    sl_last_tim t = s_tim_count s \<and> s_tim_count t = s_tim_count s \<and> s_uart_cks t = s_uart_cks s"
proof -
  let ?s = "s\<lparr>s_cks := s_cks s + 1\<rparr>"
  have wf: "uart_wf ?s" using assms(1) by simp
  obtain i u where u: "uart_pick ?s = Ok (Some i, u)" "fills i u" "uart_wf u" "got i u = partial s" "frames u = frames s"
    "queued u = queued s" "room u = room s" "sl_last_tim u = sl_last_tim s" "s_tim_count u = s_tim_count s"
    "s_uart_cks u = s_uart_cks s"
  proof (cases "filling ?s")
    case True
    note f = filling_fills[OF wf True]
    have "got (unat (u_queue_idx ?s)) ?s = partial s" using fills_partial[OF f] by simp
    then show ?thesis using that[OF pick_filling[OF f] f wf] by simp
  next
    case False
    have rm: "room ?s > 0" using assms(2) by simp
    obtain i where i: "fst (uart_find_idle ?s) = Some i" using room_pos[OF rm] False by blast
    note k = pick_idle[OF wf False i]
    have p: "partial ?s = []" using False by (simp add: partial_def)
    then have p2: "partial s = []" by simp
    have r: "room (upd_uitem i (\<lambda>x. x\<lparr>ui_state := uStFilling\<rparr>) (?s\<lparr>u_queue_idx := word_of_nat i\<rparr>)) = room ?s"
      using k(6) fills_filling[OF k(2)] False by (simp add: room_def)
    have q: "queued (upd_uitem i (\<lambda>x. x\<lparr>ui_state := uStFilling\<rparr>) (?s\<lparr>u_queue_idx := word_of_nat i\<rparr>)) = queued ?s"
      by (simp only: upd_uitem_sel set_idx_sel)
    show ?thesis by (rule that[OF k(1-3)]) (use k(4,5) p2 r q in simp_all)
  qed
  have late: "uart_late u = uart_late s" using u(8,9) by (simp add: uart_late_at)
  define v where "v = (if uart_late u then upd_uitem i (\<lambda>x. x\<lparr>buf_idx := 0, ui_state := uStFilling\<rparr>) u else u)"
  note l = late_reset[OF u(3,2)]
  have rl: "room (upd_uitem i (\<lambda>x. x\<lparr>buf_idx := 0, ui_state := uStFilling\<rparr>) u) = room u"
    using l(5) fills_filling[OF l(1)] fills_filling[OF u(2)] by (simp add: room_def)
  have v: "fills i v" "uart_wf v" "got i v = (if uart_late s then [] else partial s)" "frames v = frames s"
    "queued v = queued s" "room v = room s" "s_tim_count v = s_tim_count s" "s_uart_cks v = s_uart_cks s"
    using u l rl by (simp_all add: v_def late)
  have i: "i < 20" "ui_state (uitem i v) = uStFilling" using v(1) by (simp_all add: fills_def)
  have lt: "\<not> unat (buf_idx (uitem i v)) \<ge> sizeof_req"
    using uart_wfD(2)[OF v(2) i(1)] i(2) by (simp add: slot_ok_def sizeof_req_30)
  let ?w = "uart_complete i (upd_uitem i (put_byte b) v)"
  have q: "length (queued v) < 79" using assms(3) v(5) by simp
  note c = complete_cases[unfolded completes_def, OF v(2,1) q, of b, unfolded v(3-6), folded rx_late]
  have run: "hm_cmd_uart_ck b s = Ok (?w\<lparr>sl_last_tim := s_tim_count ?w\<rparr>)"
    unfolding hm_cmd_uart_ck_def u(1) bnd_Ok prod.case option.case
    unfolding v_def[symmetric] Let_def
    using lt by (simp add: put_byte_def[abs_def] hm_get_cur_time_def)
  show ?thesis
    unfolding run using c v(7,8) by (simp add: complete_sel)
qed

section \<open>The receive interrupt\<close>

text \<open>The table of receive callbacks as \<open>hm_cmd_init\<close> leaves it.\<close>

definition cks_ok :: "'a uart_st_scheme \<Rightarrow> bool" where
  "cks_ok s \<longleftrightarrow> length (s_uart_cks s) = 20 \<and> uck_func (s_uart_cks s ! 0) = Some UCK_hm_cmd_uart_ck \<and>
     (\<forall>i < 20. 0 < i \<longrightarrow> uck_func (s_uart_cks s ! i) = None)"

lemma cks_ok_same: "s_uart_cks t = s_uart_cks s \<Longrightarrow> cks_ok t = cks_ok s"
  by (simp add: cks_ok_def)

lemma no_callbacks:
  "(\<forall>i \<in> set is. uck_func (s_uart_cks s ! i) = None) \<Longrightarrow>
    for_each (\<lambda>i s. case uck_func (s_uart_cks s ! i) of None \<Rightarrow> Ok s | Some f \<Rightarrow> g f i s) is s = Ok s"
  by (induction "is") simp_all

lemma irq_byte:
  assumes "cks_ok s" and "hm_cmd_uart_ck b (upd_uck 0 (\<lambda>c. c\<lparr>uck_ch := b\<rparr>) s) = Ok t"
    and "s_uart_cks t = s_uart_cks (upd_uck 0 (\<lambda>c. c\<lparr>uck_ch := b\<rparr>) s)"
  shows "USART2_IRQHandler True b s = Ok t" "cks_ok t"
proof -
  show ok: "cks_ok t" using assms(1,3) by (auto simp: cks_ok_def upd_uck_def nth_list_update)
  then have rest: "\<forall>i \<in> set [1..<20]. uck_func (s_uart_cks t ! i) = None" by (auto simp: cks_ok_def)
  have all: "[0..<HM_UART_MAX_CK_SIZE] = 0 # [1..<20]"
    unfolding HM_UART_MAX_CK_SIZE_def by (simp add: upt_conv_Cons del: upt_rec_numeral)
  have first: "uck_func (s_uart_cks s ! 0) = Some UCK_hm_cmd_uart_ck" using assms(1) by (simp add: cks_ok_def)
  show "USART2_IRQHandler True b s = Ok t"
    unfolding USART2_IRQHandler_def all
    using no_callbacks[OF rest, where g = "\<lambda>f i s. run_uart_ck f b (upd_uck i (\<lambda>c. c\<lparr>uck_ch := b\<rparr>) s)"]
    by (simp add: first run_uart_ck_def assms(2) del: upt_rec_numeral)
qed

section \<open>A stream of bytes\<close>

text \<open>A byte with the time of the millisecond counter at its interrupt.\<close>

definition arrive :: "u32 \<times> u8 \<Rightarrow> 'a uart_st_scheme \<Rightarrow> 'a uart_st_scheme res" where
  "arrive x s = USART2_IRQHandler True (snd x) (s\<lparr>s_tim_count := fst x\<rparr>)"

fun rx_run :: "u32 \<Rightarrow> (u32 \<times> u8) list \<Rightarrow> u8 list \<Rightarrow> u8 list \<times> u8 list list" where
  "rx_run prev [] p = (p, [])"
| "rx_run prev ((tm, b) # xs) p =
     (let (q, fs) = rx_step (late_at prev tm) b p; (r, gs) = rx_run tm xs q in (r, fs @ gs))"

lemma arrive_step:
  assumes "uart_wf s" and "cks_ok s" and "room s > 0" and "length (queued s) < 79"
    and "rx_step (late_at (sl_last_tim s) tm) b (partial s) = (q, fs)"
  shows "\<exists>t. arrive (tm, b) s = Ok t \<and> uart_wf t \<and> cks_ok t \<and> partial t = q \<and> frames t = frames s @ fs \<and>
    room t + length fs = room s \<and> length (queued t) = length (queued s) + length fs \<and> sl_last_tim t = tm"
proof -
  let ?s = "s\<lparr>s_tim_count := tm\<rparr>"
  let ?u = "upd_uck 0 (\<lambda>c. c\<lparr>uck_ch := b\<rparr>) ?s"
  have late: "uart_late ?u = late_at (sl_last_tim s) tm" by (simp add: uart_late_at upd_uck_def)
  have tim: "s_tim_count ?u = tm" by (simp add: upd_uck_def)
  have pre: "uart_wf ?u" "room ?u > 0" "length (queued ?u) < 79" using assms(1,3,4) by simp_all
  obtain t where t: "hm_cmd_uart_ck b ?u = Ok t" "uart_wf t" "partial t = q" "frames t = frames s @ fs"
    "room t + length fs = room s" "length (queued t) = length (queued s) + length fs" "sl_last_tim t = tm"
    "s_uart_cks t = s_uart_cks ?u"
    using byte_step[OF pre, of b] assms(5) by (auto simp: late tim)
  have ok: "cks_ok ?s" using assms(2) by (simp add: cks_ok_def)
  show ?thesis using irq_byte[OF ok t(1,8)] t by (auto simp: arrive_def)
qed

lemma arrive_all:
  assumes "uart_wf s" and "cks_ok s" and "rx_run (sl_last_tim s) xs (partial s) = (p, fs)"
    and "length fs < room s" and "length (queued s) + length fs < 79"
  shows "\<exists>t. for_each arrive xs s = Ok t \<and> uart_wf t \<and> cks_ok t \<and> partial t = p \<and> frames t = frames s @ fs"
  using assms
proof (induction xs arbitrary: s fs)
  case Nil
  then show ?case by simp
next
  case (Cons x xs)
  obtain tm b where x: "x = (tm, b)" by (cases x)
  obtain q f1 where st: "rx_step (late_at (sl_last_tim s) tm) b (partial s) = (q, f1)" by fastforce
  obtain f2 where rest: "rx_run tm xs q = (p, f2)" "fs = f1 @ f2"
    using Cons.prems(3) by (auto simp: x st split: prod.splits)
  obtain u where u: "arrive x s = Ok u" "uart_wf u" "cks_ok u" "partial u = q" "frames u = frames s @ f1"
    "room u + length f1 = room s" "length (queued u) = length (queued s) + length f1" "sl_last_tim u = tm"
    using arrive_step[OF Cons.prems(1,2) _ _ st] Cons.prems(4,5) x by auto
  have "\<exists>t. for_each arrive xs u = Ok t \<and> uart_wf t \<and> cks_ok t \<and> partial t = p \<and> frames t = frames u @ f2"
    by (rule Cons.IH) (use u rest Cons.prems(4,5) in auto)
  then show ?case using u(1,5) rest(2) by auto
qed

section \<open>Initialisation\<close>

definition uregistered :: "'a uart_st_scheme \<Rightarrow> u8 \<Rightarrow> cmd_ck option" where
  "uregistered s c = (case uart_find_cmd_table c s of None \<Rightarrow> None | Some k \<Rightarrow> pair_ck (u_table s ! k))"

lemma uregistered_table: "u_table t = u_table s \<Longrightarrow> uregistered t c = uregistered s c"
  by (simp add: uregistered_def uart_find_cmd_table_def split: option.split)

text \<open>The table of this interface is searched and filled like that of the network server.\<close>

definition as_table :: "hm_cmd_ck_pair list \<Rightarrow> cmd_st" where
  "as_table ps = (cmd_on bench)\<lparr>s_cmd_table := ps\<rparr>"

lemma as_table_sel [simp]: "s_cmd_table (as_table ps) = ps"
  by (simp add: as_table_def)

lemma uregistered_as: "uregistered s c = registered (as_table (u_table s)) c"
  by (simp add: uregistered_def registered_def uart_find_cmd_table_def hm_cmd_find_cmd_table_def split: option.split)

lemma register_as: "u_table (hm_cmd_register c f s) = s_cmd_table (hm_cmd_net_register c f (as_table (u_table s)))"
  by (simp add: hm_cmd_register_def hm_cmd_net_register_def upd_upair_def upd_pair_def as_table_def split: option.split)

lemma net_register_table:
  "s_cmd_table t = s_cmd_table s \<Longrightarrow> s_cmd_table (hm_cmd_net_register c f t) = s_cmd_table (hm_cmd_net_register c f s)"
  by (auto simp: hm_cmd_net_register_def upd_pair_def split: option.splits)

lemma register_fold_as:
  "s_cmd_table z = u_table s \<Longrightarrow> u_table (fold (\<lambda>c. hm_cmd_register c f) cs s) =
    s_cmd_table (fold (\<lambda>c. hm_cmd_net_register c f) cs z)"
proof (induction cs arbitrary: s z)
  case (Cons c cs)
  have "s_cmd_table (hm_cmd_net_register c f z) = u_table (hm_cmd_register c f s)"
    unfolding register_as by (rule net_register_table) (simp add: Cons.prems)
  then show ?case using Cons.IH by simp
qed simp

definition uart_cmds :: "u8 list" where
  "uart_cmds = [hmCmdFixMove, hmCmdKeepMove, hmCmdStopMove, hmCmdGetAxisStatus, hmCmdCmdLed]"

text \<open>The serial interface as its initialisation leaves it.\<close>

definition uart_ready :: "'a uart_st_scheme \<Rightarrow> bool" where
  "uart_ready s \<longleftrightarrow> uart_wf s \<and> cks_ok s \<and>
     (\<forall>c. uregistered s c = (if c \<in> set uart_cmds then Some CK_hm_cmd_exc_ck else None))"

lemma fold_upd_uck:
  "s_uart_cks (fold (\<lambda>i. upd_uck i f) [0..<k] s) = map f (take k (s_uart_cks s)) @ drop k (s_uart_cks s)"
  if "k \<le> length (s_uart_cks s)"
  using that
proof (induction k)
  case (Suc k)
  then show ?case
    by (simp add: upd_uck_def list_update_append take_Suc_conv_app_nth nth_append Cons_nth_drop_Suc[symmetric])
qed simp

lemma fold_upd_uitem:
  "u_queue (fold (\<lambda>i. upd_uitem i f) [0..<k] s) = map f (take k (u_queue s)) @ drop k (u_queue s)"
  if "k \<le> length (u_queue s)"
  using that
proof (induction k)
  case (Suc k)
  then show ?case
    by (simp add: upd_uitem_def list_update_append take_Suc_conv_app_nth nth_append Cons_nth_drop_Suc[symmetric])
qed simp

lemma fold_upd_upair:
  "u_table (fold (\<lambda>i. upd_upair i (\<lambda>_. p)) [0..<k] s) = replicate k p @ drop k (u_table s)"
  if "k \<le> length (u_table s)"
  using that
proof (induction k)
  case (Suc k)
  then show ?case
    by (simp add: upd_upair_def list_update_append Cons_nth_drop_Suc[symmetric] replicate_append_same)
qed simp

lemma fold_uart_frame:
  "s_uart_cks (fold (\<lambda>i. upd_uitem i f) is s) = s_uart_cks s" "u_table (fold (\<lambda>i. upd_uitem i f) is s) = u_table s"
  "queued (fold (\<lambda>i. upd_uitem i f) is s) = queued s" "msg_wf (fold (\<lambda>i. upd_uitem i f) is s) = msg_wf s"
  "s_uart_cks (fold (\<lambda>i. upd_upair i g) is s) = s_uart_cks s" "u_queue (fold (\<lambda>i. upd_upair i g) is s) = u_queue s"
  "queued (fold (\<lambda>i. upd_upair i g) is s) = queued s" "msg_wf (fold (\<lambda>i. upd_upair i g) is s) = msg_wf s"
proof -
  have m: "queued (upd_upair i g s) = queued s" "msg_wf (upd_upair i g s) = msg_wf s" for i and s :: "'c uart_st_scheme"
    by (rule queue_same; simp add: upd_upair_def)+
  have u: "u_queue (upd_upair i g s) = u_queue s" "s_uart_cks (upd_upair i g s) = s_uart_cks s" for i and s :: "'c uart_st_scheme"
    by (simp_all add: upd_upair_def)
  show "s_uart_cks (fold (\<lambda>i. upd_uitem i f) is s) = s_uart_cks s" "u_table (fold (\<lambda>i. upd_uitem i f) is s) = u_table s"
    "queued (fold (\<lambda>i. upd_uitem i f) is s) = queued s" "msg_wf (fold (\<lambda>i. upd_uitem i f) is s) = msg_wf s"
    "s_uart_cks (fold (\<lambda>i. upd_upair i g) is s) = s_uart_cks s" "u_queue (fold (\<lambda>i. upd_upair i g) is s) = u_queue s"
    "queued (fold (\<lambda>i. upd_upair i g) is s) = queued s" "msg_wf (fold (\<lambda>i. upd_upair i g) is s) = msg_wf s"
    by (induction "is" arbitrary: s) (simp_all only: fold.simps o_apply id_apply upd_uitem_sel u m)
qed

lemma register_frame:
  "u_queue (fold (\<lambda>c. hm_cmd_register c f) cs s) = u_queue s" "s_uart_cks (fold (\<lambda>c. hm_cmd_register c f) cs s) = s_uart_cks s"
  "queued (fold (\<lambda>c. hm_cmd_register c f) cs s) = queued s" "msg_wf (fold (\<lambda>c. hm_cmd_register c f) cs s) = msg_wf s"
  "u_queue_idx (fold (\<lambda>c. hm_cmd_register c f) cs s) = u_queue_idx s"
proof -
  have r: "hm_cmd_register c f s = s \<or> (\<exists>i g. hm_cmd_register c f s = upd_upair i g s)" for c and s :: "'b uart_st_scheme"
    by (auto simp: hm_cmd_register_def split: option.split)
  have m: "queued (hm_cmd_register c f s) = queued s" "msg_wf (hm_cmd_register c f s) = msg_wf s"
    "u_queue (hm_cmd_register c f s) = u_queue s" "s_uart_cks (hm_cmd_register c f s) = s_uart_cks s"
    "u_queue_idx (hm_cmd_register c f s) = u_queue_idx s" for c and s :: "'b uart_st_scheme"
    using r[of c s] queue_same[of "hm_cmd_register c f s" s] by (auto simp: upd_upair_def)
  show "u_queue (fold (\<lambda>c. hm_cmd_register c f) cs s) = u_queue s" "s_uart_cks (fold (\<lambda>c. hm_cmd_register c f) cs s) = s_uart_cks s"
    "queued (fold (\<lambda>c. hm_cmd_register c f) cs s) = queued s" "msg_wf (fold (\<lambda>c. hm_cmd_register c f) cs s) = msg_wf s"
    "u_queue_idx (fold (\<lambda>c. hm_cmd_register c f) cs s) = u_queue_idx s"
    by (induction cs arbitrary: s) (simp_all only: fold.simps o_apply id_apply m)
qed

lemma reg_first:
  assumes "\<forall>i < 20. uck_func (s_uart_cks s ! i) = None"
  shows "hm_reg_uart_rev_ck (Some f) s = (Some 0, upd_uck 0 (\<lambda>c. c\<lparr>uck_func := Some f\<rparr>) s)"
proof -
  have "List.find (\<lambda>i. uck_func (s_uart_cks s ! i) = None) [0..<20] = Some 0"
    using assms by (simp only: find_upt_Some) simp
  then show ?thesis
    using assms by (auto simp: hm_reg_uart_rev_ck_def HM_UART_MAX_CK_SIZE_def simp del: upt_rec_numeral)
qed

text \<open>The arrays of a state that is loaded, whatever they hold.\<close>

definition uart_sized :: "'a uart_st_scheme \<Rightarrow> bool" where
  "uart_sized s \<longleftrightarrow> length (u_queue s) = 20 \<and> (\<forall>x \<in> set (u_queue s). length (cmd_buf x) = 30) \<and>
     length (u_table s) = 20 \<and> length (s_uart_cks s) = 20 \<and> msg_wf s \<and>
     (\<forall>m \<in> set (queued s). fst m \<noteq> CK_hm_cmd_msg_ck)"

lemma uart_init_sel:
  "length (s_uart_cks s) = 20 \<Longrightarrow> s_uart_cks (hm_uart_init s) = map (\<lambda>c. c\<lparr>uck_func := None\<rparr>) (s_uart_cks s)"
  "u_queue (hm_uart_init s) = u_queue s" "u_table (hm_uart_init s) = u_table s"
  "queued (hm_uart_init s) = queued s" "msg_wf (hm_uart_init s) = msg_wf s"
proof -
  let ?f = "\<lambda>c :: hm_uart_ck_info. c\<lparr>uck_func := None\<rparr>"
  have rcc: "s_uart_cks (RCC_APB2PeriphClockCmd m b z) = s_uart_cks z" "u_queue (RCC_APB2PeriphClockCmd m b z) = u_queue z"
    "u_table (RCC_APB2PeriphClockCmd m b z) = u_table z" for m b and z :: "'a uart_st_scheme"
    by (simp_all add: RCC_APB2PeriphClockCmd_def)
  have rcq: "queued (RCC_APB2PeriphClockCmd m b z) = queued z" "msg_wf (RCC_APB2PeriphClockCmd m b z) = msg_wf z"
    for m b and z :: "'a uart_st_scheme"
    by (rule queue_same; simp add: RCC_APB2PeriphClockCmd_def)+
  have ck: "u_queue (upd_uck i f z) = u_queue z" "u_table (upd_uck i f z) = u_table z" for i f and z :: "'a uart_st_scheme"
    by (simp_all add: upd_uck_def)
  have ckq: "queued (upd_uck i f z) = queued z" "msg_wf (upd_uck i f z) = msg_wf z" for i f and z :: "'a uart_st_scheme"
    by (rule queue_same; simp add: upd_uck_def)+
  have fr: "u_queue (fold (\<lambda>i. upd_uck i ?f) is z) = u_queue z" "u_table (fold (\<lambda>i. upd_uck i ?f) is z) = u_table z"
    "queued (fold (\<lambda>i. upd_uck i ?f) is z) = queued z" "msg_wf (fold (\<lambda>i. upd_uck i ?f) is z) = msg_wf z"
    for "is" and z :: "'a uart_st_scheme"
    by (induction "is" arbitrary: z) (simp_all only: fold.simps o_apply id_apply ck ckq)
  show "s_uart_cks (hm_uart_init s) = map ?f (s_uart_cks s)" if "length (s_uart_cks s) = 20"
    using fold_upd_uck[of 20 s ?f] that
    by (simp add: hm_uart_init_def rcc HM_UART_MAX_CK_SIZE_def del: upt_rec_numeral)
  show "u_queue (hm_uart_init s) = u_queue s" "u_table (hm_uart_init s) = u_table s"
    "queued (hm_uart_init s) = queued s" "msg_wf (hm_uart_init s) = msg_wf s"
    by (simp_all only: hm_uart_init_def rcc rcq fr)
qed

lemma uart_init_all:
  assumes "uart_sized s"
  defines "t \<equiv> uart_exec_init (hm_uart_init s)"
  shows "uart_ready t" "partial t = []" "frames t = []" "room t = 20" "queued t = queued s"
    "i < 20 \<Longrightarrow> ui_state (uitem i t) = uStIdle"
proof -
  let ?s0 = "hm_uart_init s"
  let ?s1 = "fold (\<lambda>i. upd_uitem i uart_queue_item_init) [0..<20] ?s0"
  let ?s2 = "fold (\<lambda>i. upd_upair i (\<lambda>_. no_pair)) [0..<20] ?s1"
  let ?s3 = "upd_uck 0 (\<lambda>c. c\<lparr>uck_func := Some UCK_hm_cmd_uart_ck\<rparr>) ?s2"
  let ?s4 = "?s3\<lparr>u_queue_idx := HM_CMD_INVALID_IDX\<rparr>"
  have sz: "length (u_queue s) = 20" "length (u_table s) = 20" "length (s_uart_cks s) = 20" "msg_wf s"
    using assms(1) by (simp_all add: uart_sized_def)
  note i0 = uart_init_sel(1)[OF sz(3)] uart_init_sel(2-5)[of s]
  have cks2: "s_uart_cks ?s2 = map (\<lambda>c. c\<lparr>uck_func := None\<rparr>) (s_uart_cks s)"
    by (simp only: fold_uart_frame i0)
  have none: "\<forall>i < 20. uck_func (s_uart_cks ?s2 ! i) = None" using sz(3) by (simp add: cks2)
  have init: "hm_cmd_init ?s0 = ?s4"
    using reg_first[OF none] by (simp only: hm_cmd_init_def Let_def HM_CMD_MAX_CMD_ITEM_def HM_CMD_MAX_CMD_MAP_def
        no_pair_def[symmetric] snd_conv)
  have t: "t = fold (\<lambda>c. hm_cmd_register c (Some CK_hm_cmd_exc_ck)) uart_cmds ?s4"
    by (simp only: t_def uart_exec_init_def uart_cmds_def init)
  have q4: "u_queue ?s4 = map uart_queue_item_init (u_queue s)"
    using fold_upd_uitem[of 20 ?s0 uart_queue_item_init] sz(1)
    by (simp add: upd_uck_def fold_uart_frame i0 del: upt_rec_numeral)
  have t4: "u_table ?s4 = replicate 20 no_pair"
    using fold_upd_upair[of 20 ?s1 no_pair] sz(2) by (simp add: upd_uck_def fold_uart_frame i0 del: upt_rec_numeral)
  have c4: "s_uart_cks ?s4 = (s_uart_cks ?s2)[0 := (s_uart_cks ?s2 ! 0)\<lparr>uck_func := Some UCK_hm_cmd_uart_ck\<rparr>]"
    by (simp add: upd_uck_def del: upt_rec_numeral)
  have m4: "queued ?s4 = queued s" "msg_wf ?s4 = msg_wf s"
  proof -
    have m3: "queued ?s3 = queued ?s2" "msg_wf ?s3 = msg_wf ?s2" by (rule queue_same; simp add: upd_uck_def)+
    show "queued ?s4 = queued s" "msg_wf ?s4 = msg_wf s" by (simp_all only: set_idx_sel m3 fold_uart_frame i0)
  qed
  have queue: "u_queue t = map uart_queue_item_init (u_queue s)" unfolding t register_frame by (rule q4)
  have cks: "s_uart_cks t = s_uart_cks ?s4" unfolding t register_frame ..
  show que: "queued t = queued s" unfolding t register_frame by (rule m4)
  have idx: "u_queue_idx t = HM_CMD_INVALID_IDX" unfolding t register_frame by simp
  have mwf: "msg_wf t" unfolding t register_frame m4 by (rule sz)
  have item: "ui_state (uitem i t) = uStIdle" "buf_idx (uitem i t) = 0" "length (cmd_buf (uitem i t)) = 30" if "i < 20" for i
    using assms(1) that sz(1) by (simp_all add: uitem_def queue uart_queue_item_init_def uart_item_init_def uart_sized_def)
  show "i < 20 \<Longrightarrow> ui_state (uitem i t) = uStIdle" by (rule item(1))
  have nm: "fst m \<noteq> CK_hm_cmd_msg_ck" if "m \<in> set (queued t)" for m using assms(1) that unfolding que uart_sized_def by blast
  have wf: "uart_wf t" using item nm mwf idx sz(1) by (auto simp: uart_wf_def slot_ok_def refs_ok_def queue)
  have ck: "cks_ok t" using sz(3) none by (auto simp: cks_ok_def cks c4 nth_list_update cks2)
  have "u_table t = [] @ map (\<lambda>c. \<lparr>pair_ncmd = c, pair_ck = Some CK_hm_cmd_exc_ck\<rparr>) uart_cmds @ replicate 15 no_pair"
    unfolding t register_fold_as[where z = "as_table (u_table ?s4)", OF as_table_sel]
    by (rule register_all) (simp_all add: t4 uart_cmds_def cmd_nos HM_CMD_INVALID_def flip: replicate_add)
  then have "uregistered t c = (if c \<in> set uart_cmds then Some CK_hm_cmd_exc_ck else None)" for c
    unfolding uregistered_as by (intro registered_list) (simp_all add: uart_cmds_def cmd_nos HM_CMD_INVALID_def)
  then show "uart_ready t" using wf ck by (simp add: uart_ready_def)
  have nf: "\<not> filling t" using idx by (simp add: filling_def)
  show "partial t = []" using nf by (simp add: partial_def)
  have "frame_of_msg t m = []" if "m \<in> set (queued t)" for m using nm[OF that] by (simp add: frame_of_msg_def)
  then show "frames t = []" by (simp add: frames_def)
  have "{j. j < 20 \<and> uslot_idle j t} = {..<20}" using item(1) by (auto simp: uslot_idle_def)
  then show "room t = 20" using nf by (simp add: room_def uartpool.free_def)
qed

section \<open>A frame is executed\<close>

definition ucalling :: "nat \<Rightarrow> 'a uart_st_scheme \<Rightarrow> 'a uart_st_scheme" where
  "ucalling i s = upd_uitem i (\<lambda>x. x\<lparr>ui_state := uStCalling\<rparr>) s"

definition uanswered :: "nat \<Rightarrow> hm_cmd_req \<Rightarrow> 'a uart_st_scheme \<Rightarrow> 'a uart_st_scheme" where
  "uanswered i r t = t\<lparr>
     usart2_out := usart2_out t @ bytes_of_req r,
     u_queue := (u_queue t)[i := \<lparr>buf_idx = 0, cmd_buf = uart_item_init (bytes_of_req r), ui_state = uStIdle\<rparr>]\<rparr>"

lemma send_cmd_eq: "hm_uart_send_cmd p n s = s\<lparr>usart2_out := usart2_out s @ map ((!) p) [0..<n]\<rparr>"
  unfolding hm_uart_send_cmd_def by (induction n) simp_all

lemma send_all: "hm_uart_send_cmd p (length p) s = s\<lparr>usart2_out := usart2_out s @ p\<rparr>"
  by (simp add: send_cmd_eq map_nth)

lemma item_init_buf:
  "uart_queue_item_init (x\<lparr>cmd_buf := b\<rparr>) = \<lparr>buf_idx = 0, cmd_buf = uart_item_init b, ui_state = uStIdle\<rparr>"
  by (cases x) (simp add: uart_queue_item_init_def)

lemma msg_ck_served:
  assumes "uregistered s (ncmd (req_of_bytes (cmd_buf (uitem i s)))) = Some CK_hm_cmd_exc_ck"
    and "i < length (u_queue s)" and "length (cmd_buf (uitem i s)) = 30"
  shows "uart_msg_ck i s = bnd (hm_cmd_exc_ck (req_of_bytes (cmd_buf (uitem i s))) (ucalling i s))
    (\<lambda>(r, t). Ok (uanswered i r t))"
proof -
  let ?r = "req_of_bytes (cmd_buf (uitem i s))"
  have run: "uart_msg_ck i s = bnd (hm_cmd_exc_ck (req_of_bytes (cmd_buf (uitem i (ucalling i s)))) (ucalling i s)) (\<lambda>(r, s).
      let s = upd_uitem i (\<lambda>x. x\<lparr>cmd_buf := bytes_of_req r\<rparr>) s;
          s = hm_uart_send_cmd (cmd_buf (uitem i s)) sizeof_req s
      in Ok (upd_uitem i uart_queue_item_init s))"
    using assms(1) by (auto simp: uart_msg_ck_def uregistered_def run_cmd_ck_def ucalling_def Let_def split: option.splits)
  have item: "cmd_buf (uitem i (ucalling i s)) = cmd_buf (uitem i s)" using assms(2) by (simp add: ucalling_def)
  have after: "(let s = upd_uitem i (\<lambda>x. x\<lparr>cmd_buf := bytes_of_req r\<rparr>) t;
        s = hm_uart_send_cmd (cmd_buf (uitem i s)) sizeof_req s
      in Ok (upd_uitem i uart_queue_item_init s)) = Ok (uanswered i r t)"
    if x: "hm_cmd_exc_ck ?r (ucalling i s) = Inr (r, t)" for r t
  proof -
    have "uart_part t = uart_part (ucalling i s)" by (rule uartframe.exc_ck_obs[OF x])
    then have len: "i < length (u_queue t)" using assms(2) by (simp add: uart_part_def ucalling_def)
    have wf: "req_wf r" by (rule exc_ck_wf[OF x req_of_bytes_wf[OF assms(3)]])
    let ?u = "upd_uitem i (\<lambda>x. x\<lparr>cmd_buf := bytes_of_req r\<rparr>) t"
    have buf: "cmd_buf (uitem i ?u) = bytes_of_req r" using len by simp
    have sz: "sizeof_req = length (bytes_of_req r)" by (simp only: bytes_of_req_length[OF wf] sizeof_req_30)
    have "hm_uart_send_cmd (cmd_buf (uitem i ?u)) sizeof_req ?u = ?u\<lparr>usart2_out := usart2_out ?u @ bytes_of_req r\<rparr>"
      unfolding buf sz by (rule send_all)
    moreover have "upd_uitem i uart_queue_item_init (?u\<lparr>usart2_out := usart2_out ?u @ bytes_of_req r\<rparr>) = uanswered i r t"
      using len by (simp add: upd_uitem_def uanswered_def item_init_buf)
    ultimately show ?thesis by (simp only: Let_def)
  qed
  show ?thesis unfolding run item using after by (auto intro!: bnd_cong)
qed

lemma msg_ck_lost:
  "uregistered s (ncmd (req_of_bytes (cmd_buf (uitem i s)))) = None \<Longrightarrow> uart_msg_ck i s = Ok s"
  by (auto simp: uart_msg_ck_def uregistered_def split: option.splits)

section \<open>Properties\<close>

text \<open>
  C14.  Bytes that arrive at the receive interrupt, at any times.  As long as the pool and the message
  queue have room for the frames, the interrupt handlers never write outside a buffer, and what they queue
  for the main loop is exactly what the receiver machine delivers: the thirty byte frames with right marks,
  cut out of the stream after pauses of more than 300 ms.
\<close>

theorem uart_receiver_refines:
  assumes "uart_sized s" and "s0 = uart_exec_init (hm_uart_init s)"
    and "rx_run (sl_last_tim s0) xs [] = (p, fs)" and "length fs < 20" and "length (queued s) + length fs < 79"
  shows "\<exists>t. for_each arrive xs s0 = Ok t \<and> partial t = p \<and> frames t = fs \<and> uart_wf t"
proof -
  note i = uart_init_all[OF assms(1), folded assms(2)]
  have r: "uart_wf s0" "cks_ok s0" using i(1) by (simp_all add: uart_ready_def)
  have a: "rx_run (sl_last_tim s0) xs (partial s0) = (p, fs)" "length fs < room s0"
    "length (queued s0) + length fs < 79"
    using assms(3-5) i(2,4,5) by (simp_all only:)
  show ?thesis using arrive_all[OF r a] by (auto simp: i(3))
qed

text \<open>
  C20.  The main loop serves a complete frame.  A command that this interface registers runs on it, and
  the thirty bytes sent back carry its result with the command, the length and the marks of the frame; the
  slot is idle again.  A frame with any other command is not answered, and its slot is never idle again.
\<close>

theorem uart_frame_executed:
  assumes "uart_ready s" and "i < 20" and "ui_state (uitem i s) = uStPushed" and "f = cmd_buf (uitem i s)"
  shows "if f ! 25 \<in> set uart_cmds then
      uart_msg_ck i s = bnd (hm_cmd_exc_ck (req_of_bytes f) (ucalling i s)) (\<lambda>(r, t). Ok (uanswered i r t)) \<and>
      (\<forall>r t. hm_cmd_exc_ck (req_of_bytes f) (ucalling i s) = Ok (r, t) \<longrightarrow>
         usart2_out (uanswered i r t) = usart2_out s @ bytes_of_req r \<and> uslot_idle i (uanswered i r t) \<and>
         length (bytes_of_req r) = 30 \<and> (\<forall>k \<in> {24, 25, 27, 28, 29}. bytes_of_req r ! k = f ! k))
    else uart_msg_ck i s = Ok s \<and> \<not> uslot_idle i s"
proof -
  have wf: "uart_wf s" and reg: "uregistered s c = (if c \<in> set uart_cmds then Some CK_hm_cmd_exc_ck else None)" for c
    using assms(1) by (simp_all add: uart_ready_def)
  have len: "length (u_queue s) = 20" "length f = 30"
    using uart_wfD(1)[OF wf] uart_wfD(2)[OF wf assms(2)] assms(4) by (simp_all add: slot_ok_def)
  have c: "ncmd (req_of_bytes f) = f ! 25" by (simp add: req_of_bytes_def)
  show ?thesis
  proof (cases "f ! 25 \<in> set uart_cmds")
    case True
    have run: "uart_msg_ck i s = bnd (hm_cmd_exc_ck (req_of_bytes f) (ucalling i s)) (\<lambda>(r, t). Ok (uanswered i r t))"
      unfolding assms(4) by (rule msg_ck_served) (use reg c True len assms(2,4) in simp_all)
    have out: "usart2_out (uanswered i r t) = usart2_out s @ bytes_of_req r \<and> uslot_idle i (uanswered i r t) \<and>
         length (bytes_of_req r) = 30 \<and> (\<forall>k \<in> {24, 25, 27, 28, 29}. bytes_of_req r ! k = f ! k)"
      if x: "hm_cmd_exc_ck (req_of_bytes f) (ucalling i s) = Ok (r, t)" for r t
    proof -
      have part: "uart_part t = uart_part (ucalling i s)" by (rule uartframe.exc_ck_obs[OF x])
      have wfr: "req_wf r" by (rule exc_ck_wf[OF x req_of_bytes_wf[OF len(2)]])
      have "usart2_out t = usart2_out s" "i < length (u_queue t)"
        using part len(1) assms(2) by (simp_all add: uart_part_def ucalling_def)
      moreover have "\<forall>k \<in> {24, 25, 27, 28, 29}. bytes_of_req r ! k = f ! k"
        using exc_ck_header[OF x] wfr by (simp add: bytes_of_req_def req_wf_def nth_append req_of_bytes_def)
      ultimately show ?thesis
        using bytes_of_req_length[OF wfr] by (simp add: uanswered_def uslot_idle_def uitem_def)
    qed
    show ?thesis using True run out by simp
  next
    case False
    then show ?thesis using msg_ck_lost[of s i] reg c assms(3,4) by (simp add: uslot_idle_def)
  qed
qed

section \<open>Bytes for the board\<close>

definition uart_on :: "cmd_st \<Rightarrow> uart_st" where
  "uart_on m = cmd_st.extend m (uart_st.fields
     (replicate 20 \<lparr>buf_idx = 0, cmd_buf = replicate 30 0, ui_state = uStIdle\<rparr>)
     (replicate 20 \<lparr>pair_ncmd = 0, pair_ck = None\<rparr>) 0 0 HM_TIM_INVALID_COUNT
     (replicate 20 \<lparr>uck_func = None, uck_ch = 0\<rparr>) [])"

definition uart_bench :: uart_st where
  "uart_bench = hm_msg_queue_init (uart_on (cmd_on bench))"

lemma uart_bench_sized: "uart_sized uart_bench" "queued uart_bench = []" "sl_last_tim uart_bench = HM_TIM_INVALID_COUNT"
proof -
  have "length (msg_array (uart_on (cmd_on bench))) = 80"
    by (simp add: uart_on_def cmd_on_def cmd_st.defs uart_st.defs motor_st.defs bench_def motor_power_up_def timer_st.defs
        timer_power_up_def addr_power_up_def addr_st.defs msg_power_up_def msg_st.defs hw_st.defs hw_reset_def)
  note q = msg_init_wf[OF this, folded uart_bench_def]
  show "queued uart_bench = []" using q by simp
  show "sl_last_tim uart_bench = HM_TIM_INVALID_COUNT"
    by (simp add: uart_bench_def hm_msg_queue_init_def uart_on_def cmd_st.defs uart_st.defs)
  show "uart_sized uart_bench"
    using q by (simp add: uart_sized_def uart_bench_def hm_msg_queue_init_def uart_on_def cmd_st.defs uart_st.defs)
qed

lemma rx_run_first: "rx_run prev xs [] = rx_run prev' xs []"
  by (cases xs) (auto simp: rx_step_def)

lemma late_same: "\<not> late_at 5 5"
  by (simp add: late_at_def hm_tim_diff_def)

definition demo_bytes :: "(u32 \<times> u8) list" where
  "demo_bytes = map (Pair 5) (frame_of hmCmdCmdLed 8)"

lemma replicate_24: "replicate 24 x = [x, x, x, x, x, x, x, x, x, x, x, x, x, x, x, x, x, x, x, x, x, x, x, x]"
  by (simp add: numeral_eq_Suc)

lemma demo_run: "rx_run prev demo_bytes [] = ([], [frame_of hmCmdCmdLed 8])"
proof -
  have "rx_run 5 demo_bytes [] = ([], [frame_of hmCmdCmdLed 8])"
    by (simp add: demo_bytes_def frame_of_def replicate_24 rx_step_def late_same uart_bad_mark_def req_of_bytes_def HM_CMD_MARK1_def
        HM_CMD_MARK2_def)
  then show ?thesis using rx_run_first by metis
qed

lemma uart_receiver_refines_witness:
  "\<exists>t. for_each arrive demo_bytes (uart_exec_init (hm_uart_init uart_bench)) = Ok t \<and>
    frames t = [frame_of hmCmdCmdLed 8] \<and> partial t = []"
  using uart_receiver_refines[OF uart_bench_sized(1) refl demo_run] uart_bench_sized(2) by auto

text \<open>A board with a complete frame in its first slot.\<close>

definition uart_full :: uart_st where
  "uart_full = upd_uitem 0 (\<lambda>x. \<lparr>buf_idx = 30, cmd_buf = frame_of hmCmdCmdLed 8, ui_state = uStPushed\<rparr>)
     (uart_exec_init (hm_uart_init uart_bench))"

lemma uart_full_ready: "uart_ready uart_full"
    "uitem 0 uart_full = \<lparr>buf_idx = 30, cmd_buf = frame_of hmCmdCmdLed 8, ui_state = uStPushed\<rparr>"
proof -
  let ?s = "uart_exec_init (hm_uart_init uart_bench)"
  note i = uart_init_all[OF uart_bench_sized(1)]
  have wf: "uart_wf ?s" and ck: "cks_ok ?s" using i(1) by (simp_all add: uart_ready_def)
  have np: "ui_state (uitem 0 ?s) \<noteq> uStPushed" using i(6)[of 0] by simp
  have wfu: "uart_wf uart_full"
    unfolding uart_full_def by (rule uart_wf_upd[OF wf _ np]) (simp_all add: slot_ok_def)
  have ck2: "cks_ok uart_full" using ck cks_ok_same[of uart_full ?s] by (simp add: uart_full_def)
  have "uregistered uart_full c = uregistered ?s c" for c
    by (rule uregistered_table) (simp add: uart_full_def)
  then show "uart_ready uart_full" using i(1) wfu ck2 by (simp add: uart_ready_def)
  show "uitem 0 uart_full = \<lparr>buf_idx = 30, cmd_buf = frame_of hmCmdCmdLed 8, ui_state = uStPushed\<rparr>"
    using uart_wfD(1)[OF wf] by (simp add: uart_full_def)
qed

lemma uart_frame_executed_witness:
  "\<exists>u. uart_msg_ck 0 uart_full = Ok u \<and> uslot_idle 0 u"
proof -
  let ?f = "frame_of hmCmdCmdLed 8"
  have pre: "(0::nat) < 20" "ui_state (uitem 0 uart_full) = uStPushed" "?f = cmd_buf (uitem 0 uart_full)"
    by (simp_all add: uart_full_ready)
  have c: "?f ! 25 \<in> set uart_cmds" by (simp add: uart_cmds_def)
  obtain r t where x: "hm_cmd_exc_ck (req_of_bytes ?f) (ucalling 0 uart_full) = Ok (r, t)"
    by (simp add: hm_cmd_exc_ck_def exec_cmd_def cmd_nos sized_def exec_led_def Let_def)
  show ?thesis
    using uart_frame_executed[OF uart_full_ready(1) pre] c x by auto
qed

end
