(* ===== verification/Eth_Driver.thy ===== *)
theory Eth_Driver
  imports Hw_Regs
begin

text \<open>
  The driver of the Ethernet peripheral, \<^verbatim>\<open>stm32_eth.c\<close>, what the firmware calls of it: the set up of
  the external transceiver and of the registers (\<open>ETH_Init\<close>), the switches of the transmitter and the
  receiver, and the chains of descriptors through which frames travel.

  The record \<open>eth_hw\<close> holds the registers, the descriptors and buffers of the port and the pointers the
  driver keeps.  An address of a descriptor is its index in its table, an address of a buffer the offset
  in its array.  The transceiver is in the environment: \<open>phy k\<close> says how many reads the \<open>k\<close>-th access
  to it stays busy, and what it answers.  The two descriptors the hardware works on are fields too.
\<close>

section \<open>State\<close>

text \<open>A descriptor, shared by the driver and the hardware.\<close>

record eth_desc =
  Status :: u32
  ControlBufferSize :: u32
  Buffer1Addr :: nat
  Buffer2NextDescAddr :: nat

record eth_hw =
  AHBRSTR :: u32
  MACCR :: u32
  MACFFR :: u32
  MACHTHR :: u32
  MACHTLR :: u32
  MACMIIAR :: u32
  MACMIIDR :: u32
  MACFCR :: u32
  MACVLANTR :: u32
  MACA0HR :: u32
  MACA0LR :: u32
  DMABMR :: u32
  DMASR :: u32
  DMAOMR :: u32
  DMAIER :: u32
  DMATDLAR :: nat
  DMARDLAR :: nat
  rx_demands :: nat
  tx_demands :: nat
  HCLK_Frequency :: u32
  phy :: "nat \<Rightarrow> nat \<times> u16"
  phy_ops :: nat
  phy_log :: "(u16 \<times> u16) list"
  sr_reads :: "nat \<Rightarrow> bool"
  MACaddr :: "u8 list"
  DMARxDscrTab :: "eth_desc list"
  DMATxDscrTab :: "eth_desc list"
  Rx_Buff :: "u8 list"
  Tx_Buff :: "u8 list"
  DMARxDescToGet :: nat
  DMATxDescToSet :: nat
  rx_dma :: nat
  tx_dma :: nat
  pbuf_chain :: "nat \<Rightarrow> u16 \<Rightarrow> nat list option"
  pbuf_chains :: nat
  if_hwaddr :: "u8 list"
  if_mtu :: u16
  if_flags :: u8

definition ETH_MAX_PACKET_SIZE :: nat where "ETH_MAX_PACKET_SIZE = 1520"

text \<open>What the program hands to \<open>ETH_Init\<close>.\<close>

record eth_init =
  ETH_AutoNegotiation :: u32
  ETH_Watchdog :: u32
  ETH_Jabber :: u32
  ETH_InterFrameGap :: u32
  ETH_CarrierSense :: u32
  ETH_Speed :: u32
  ETH_ReceiveOwn :: u32
  ETH_LoopbackMode :: u32
  ETH_Mode :: u32
  ETH_ChecksumOffload :: u32
  ETH_RetryTransmission :: u32
  ETH_AutomaticPadCRCStrip :: u32
  ETH_BackOffLimit :: u32
  ETH_DeferralCheck :: u32
  ETH_ReceiveAll :: u32
  ETH_SourceAddrFilter :: u32
  ETH_PassControlFrames :: u32
  ETH_BroadcastFramesReception :: u32
  ETH_DestinationAddrFilter :: u32
  ETH_PromiscuousMode :: u32
  ETH_MulticastFramesFilter :: u32
  ETH_UnicastFramesFilter :: u32
  ETH_HashTableHigh :: u32
  ETH_HashTableLow :: u32
  ETH_PauseTime :: u32
  ETH_ZeroQuantaPause :: u32
  ETH_PauseLowThreshold :: u32
  ETH_UnicastPauseFrameDetect :: u32
  ETH_ReceiveFlowControl :: u32
  ETH_TransmitFlowControl :: u32
  ETH_VLANTagComparison :: u32
  ETH_VLANTagIdentifier :: u32
  ETH_DropTCPIPChecksumErrorFrame :: u32
  ETH_ReceiveStoreForward :: u32
  ETH_FlushReceivedFrame :: u32
  ETH_TransmitStoreForward :: u32
  ETH_TransmitThresholdControl :: u32
  ETH_ForwardErrorFrames :: u32
  ETH_ForwardUndersizedGoodFrames :: u32
  ETH_ReceiveThresholdControl :: u32
  ETH_SecondFrameOperate :: u32
  ETH_AddressAlignedBeats :: u32
  ETH_FixedBurst :: u32
  ETH_RxDMABurstLength :: u32
  ETH_TxDMABurstLength :: u32
  ETH_DescriptorSkipLength :: u32
  ETH_DMAArbitration :: u32
text \<open>Every member is set, so what the structure held before does not matter.\<close>

definition ETH_StructInit :: eth_init where
  "ETH_StructInit = \<lparr>
     ETH_AutoNegotiation = 0, ETH_Watchdog = 0, ETH_Jabber = 0, ETH_InterFrameGap = 0,
     ETH_CarrierSense = 0, ETH_Speed = 0, ETH_ReceiveOwn = 0, ETH_LoopbackMode = 0, ETH_Mode = 0,
     ETH_ChecksumOffload = 0, ETH_RetryTransmission = 0, ETH_AutomaticPadCRCStrip = 0,
     ETH_BackOffLimit = 0, ETH_DeferralCheck = 0, ETH_ReceiveAll = 0, ETH_SourceAddrFilter = 0,
     ETH_PassControlFrames = 0x40, ETH_BroadcastFramesReception = 0x20, ETH_DestinationAddrFilter = 0,
     ETH_PromiscuousMode = 0, ETH_MulticastFramesFilter = 0, ETH_UnicastFramesFilter = 0,
     ETH_HashTableHigh = 0, ETH_HashTableLow = 0, ETH_PauseTime = 0, ETH_ZeroQuantaPause = 0x80,
     ETH_PauseLowThreshold = 0, ETH_UnicastPauseFrameDetect = 0, ETH_ReceiveFlowControl = 0,
     ETH_TransmitFlowControl = 0, ETH_VLANTagComparison = 0, ETH_VLANTagIdentifier = 0,
     ETH_DropTCPIPChecksumErrorFrame = 0x4000000, ETH_ReceiveStoreForward = 0x2000000,
     ETH_FlushReceivedFrame = 0x1000000, ETH_TransmitStoreForward = 0x200000,
     ETH_TransmitThresholdControl = 0, ETH_ForwardErrorFrames = 0, ETH_ForwardUndersizedGoodFrames = 0,
     ETH_ReceiveThresholdControl = 0, ETH_SecondFrameOperate = 0, ETH_AddressAlignedBeats = 0x2000000,
     ETH_FixedBurst = 0, ETH_RxDMABurstLength = 0x20000, ETH_TxDMABurstLength = 0x100,
     ETH_DescriptorSkipLength = 0, ETH_DMAArbitration = 0\<rparr>"

section \<open>The transceiver\<close>

text \<open>The turns a poll takes at most, and the parts of the address register.\<close>

definition PHY_READ_TO :: nat where "PHY_READ_TO = 0x0004FFFF"
definition PHY_WRITE_TO :: nat where "PHY_WRITE_TO = 0x0004FFFF"
definition MACMIIAR_CR_MASK :: u32 where "MACMIIAR_CR_MASK = 0xFFFFFFE3"

definition PHY_BCR :: u16 where "PHY_BCR = 0"
definition PHY_BSR :: u16 where "PHY_BSR = 1"
definition PHY_SR :: u16 where "PHY_SR = 16"
definition PHY_Reset :: u16 where "PHY_Reset = 0x8000"
definition PHY_AutoNegotiation :: u16 where "PHY_AutoNegotiation = 0x1000"
definition PHY_Linked_Status :: u16 where "PHY_Linked_Status = 0x0004"
definition PHY_AutoNego_Complete :: u16 where "PHY_AutoNego_Complete = 0x0020"
definition PHY_Duplex_Status :: u16 where "PHY_Duplex_Status = 0x0004"
definition PHY_Speed_Status :: u16 where "PHY_Speed_Status = 0x0002"

definition mii_address :: "u16 \<Rightarrow> u16 \<Rightarrow> bool \<Rightarrow> eth_hw \<Rightarrow> u32" where
  "mii_address PHYAddress PHYReg write h =
     (let tmpreg = MACMIIAR h AND NOT MACMIIAR_CR_MASK;
          tmpreg = tmpreg OR (push_bit 11 (ucast PHYAddress) AND 0x0000F800);
          tmpreg = tmpreg OR (push_bit 6 (ucast PHYReg) AND 0x000007C0);
          tmpreg = (if write then tmpreg OR 0x00000002 else tmpreg AND NOT 0x00000002)
      in tmpreg OR 0x00000001)"

text \<open>
  \<open>do timeout++; while (busy and timeout < limit)\<close>, where the first \<open>b\<close> reads see the busy bit.  The
  counter stays below the limit, so it never wraps.
\<close>

function mii_poll :: "nat \<Rightarrow> nat \<Rightarrow> nat \<Rightarrow> nat" where
  "mii_poll b limit timeout =
     (let timeout = timeout + 1 in if timeout \<le> b \<and> timeout < limit then mii_poll b limit timeout else timeout)"
  by pat_completeness auto

termination
  by (relation "measure (\<lambda>(b, limit, timeout). limit - timeout)") auto

declare mii_poll.simps [simp del]

definition ETH_ReadPHYRegister :: "u16 \<Rightarrow> u16 \<Rightarrow> eth_hw \<Rightarrow> u16 \<times> eth_hw" where
  "ETH_ReadPHYRegister PHYAddress PHYReg h =
     (let (b, data) = phy h (phy_ops h);
          h = h\<lparr>MACMIIAR := mii_address PHYAddress PHYReg False h, phy_ops := phy_ops h + 1\<rparr>;
          timeout = mii_poll b PHY_READ_TO 0
      in if timeout = PHY_READ_TO then (0, h)
         else (data, h\<lparr>MACMIIDR := ucast data\<rparr>))"

definition ETH_WritePHYRegister :: "u16 \<Rightarrow> u16 \<Rightarrow> u16 \<Rightarrow> eth_hw \<Rightarrow> u32 \<times> eth_hw" where
  "ETH_WritePHYRegister PHYAddress PHYReg PHYValue h =
     (let (b, _) = phy h (phy_ops h);
          h = h\<lparr>MACMIIDR := ucast PHYValue, MACMIIAR := mii_address PHYAddress PHYReg True h, phy_ops := phy_ops h + 1,
                phy_log := phy_log h @ [(PHYReg, PHYValue)]\<rparr>;
          timeout = mii_poll b PHY_WRITE_TO 0
      in if timeout = PHY_WRITE_TO then (0, h) else (1, h))"

text \<open>The loops that wait for a bit of the status register.\<close>

function phy_poll :: "u16 \<Rightarrow> u16 \<Rightarrow> nat \<Rightarrow> eth_hw \<Rightarrow> nat \<times> eth_hw" where
  "phy_poll PHYAddress status timeout h =
     (let timeout = timeout + 1;
          (v, h) = ETH_ReadPHYRegister PHYAddress PHY_BSR h
      in if v AND status = 0 \<and> timeout < PHY_READ_TO then phy_poll PHYAddress status timeout h else (timeout, h))"
  by pat_completeness auto

termination
  by (relation "measure (\<lambda>(a, st, timeout, h). PHY_READ_TO - timeout)") auto

declare phy_poll.simps [simp del]

section \<open>Set up of the peripheral\<close>

text \<open>What a reset of the peripheral, by its line or by its own bit, leaves in the registers.\<close>

definition eth_regs_reset :: "eth_hw \<Rightarrow> eth_hw" where
  "eth_regs_reset h = h\<lparr>MACCR := 0x00008000, MACFFR := 0, MACHTHR := 0, MACHTLR := 0, MACMIIAR := 0, MACMIIDR := 0,
     MACFCR := 0, MACVLANTR := 0, MACA0HR := 0x8000FFFF, MACA0LR := 0xFFFFFFFF, DMABMR := 0x00020101, DMASR := 0,
     DMAOMR := 0, DMAIER := 0, DMATDLAR := 0, DMARDLAR := 0\<rparr>"

definition ETH_DeInit :: "eth_hw \<Rightarrow> eth_hw" where
  "ETH_DeInit h =
     (let h = eth_regs_reset (h\<lparr>AHBRSTR := AHBRSTR h OR 0x00004000\<rparr>)
      in h\<lparr>AHBRSTR := AHBRSTR h AND NOT 0x00004000\<rparr>)"

text \<open>The reset bit of the bus mode register reads as set while \<open>sr_reads\<close> says so.\<close>

definition ETH_SoftwareReset :: "eth_hw \<Rightarrow> eth_hw" where
  "ETH_SoftwareReset h = eth_regs_reset (h\<lparr>DMABMR := DMABMR h OR 0x00000001\<rparr>)"

definition ETH_GetSoftwareResetStatus :: "nat \<Rightarrow> eth_hw \<Rightarrow> bool" where
  "ETH_GetSoftwareResetStatus k h = (if sr_reads h k then True else False)"

text \<open>\<open>RCC_GetClocksFreq\<close> gives the clock of the core.\<close>

definition csr_clock :: "eth_hw \<Rightarrow> eth_hw" where
  "csr_clock h =
     (let tmpreg = MACMIIAR h AND MACMIIAR_CR_MASK;
          hclk = HCLK_Frequency h;
          tmpreg = (if hclk \<ge> 20000000 \<and> hclk < 35000000 then tmpreg OR 0x00000008
                    else if hclk \<ge> 35000000 \<and> hclk < 60000000 then tmpreg OR 0x0000000C
                    else tmpreg OR 0x00000000)
      in h\<lparr>MACMIIAR := tmpreg\<rparr>)"

text \<open>
  Waits for the link and for the end of the negotiation and takes over the mode and the speed it found.
  The result is 0 when a poll ran out of turns.
\<close>

definition auto_negotiate :: "u16 \<Rightarrow> eth_init \<Rightarrow> eth_hw \<Rightarrow> u32 \<times> eth_init \<times> eth_hw" where
  "auto_negotiate PHYAddress i h =
     (let (timeout, h) = phy_poll PHYAddress PHY_Linked_Status 0 h
      in if timeout = PHY_READ_TO then (0, i, h)
         else let (ok, h) = ETH_WritePHYRegister PHYAddress PHY_BCR PHY_AutoNegotiation h
           in if ok = 0 then (0, i, h)
              else let (timeout, h) = phy_poll PHYAddress PHY_AutoNego_Complete 0 h
                in if timeout = PHY_READ_TO then (0, i, h)
                   else let (RegValue, h) = ETH_ReadPHYRegister PHYAddress PHY_SR h;
                            i = i\<lparr>ETH_Mode := (if RegValue AND PHY_Duplex_Status \<noteq> 0 then 0x00000800 else 0)\<rparr>;
                            i = i\<lparr>ETH_Speed := (if RegValue AND PHY_Speed_Status \<noteq> 0 then 0 else 0x00004000)\<rparr>
                     in (1, i, h))"

definition MACCR_CLEAR_MASK :: u32 where "MACCR_CLEAR_MASK = 0xFF20810F"
definition MACFCR_CLEAR_MASK :: u32 where "MACFCR_CLEAR_MASK = 0x0000FF41"
definition DMAOMR_CLEAR_MASK :: u32 where "DMAOMR_CLEAR_MASK = 0xF8DE3F23"

definition mac_config :: "eth_init \<Rightarrow> eth_hw \<Rightarrow> eth_hw" where
  "mac_config i h =
     (let tmpreg = MACCR h AND MACCR_CLEAR_MASK;
          tmpreg = tmpreg OR (ETH_Watchdog i OR ETH_Jabber i OR ETH_InterFrameGap i OR ETH_CarrierSense i OR
                     ETH_Speed i OR ETH_ReceiveOwn i OR ETH_LoopbackMode i OR ETH_Mode i OR ETH_ChecksumOffload i OR
                     ETH_RetryTransmission i OR ETH_AutomaticPadCRCStrip i OR ETH_BackOffLimit i OR
                     ETH_DeferralCheck i);
          h = h\<lparr>MACCR := tmpreg\<rparr>;
          h = h\<lparr>MACFFR := ETH_ReceiveAll i OR ETH_SourceAddrFilter i OR ETH_PassControlFrames i OR
                     ETH_BroadcastFramesReception i OR ETH_DestinationAddrFilter i OR ETH_PromiscuousMode i OR
                     ETH_MulticastFramesFilter i OR ETH_UnicastFramesFilter i\<rparr>;
          h = h\<lparr>MACHTHR := ETH_HashTableHigh i\<rparr>;
          h = h\<lparr>MACHTLR := ETH_HashTableLow i\<rparr>;
          tmpreg = MACFCR h AND MACFCR_CLEAR_MASK;
          tmpreg = tmpreg OR (push_bit 16 (ETH_PauseTime i) OR ETH_ZeroQuantaPause i OR ETH_PauseLowThreshold i OR
                     ETH_UnicastPauseFrameDetect i OR ETH_ReceiveFlowControl i OR ETH_TransmitFlowControl i);
          h = h\<lparr>MACFCR := tmpreg\<rparr>
      in h\<lparr>MACVLANTR := ETH_VLANTagComparison i OR ETH_VLANTagIdentifier i\<rparr>)"

definition dma_config :: "eth_init \<Rightarrow> eth_hw \<Rightarrow> eth_hw" where
  "dma_config i h =
     (let tmpreg = DMAOMR h AND DMAOMR_CLEAR_MASK;
          tmpreg = tmpreg OR (ETH_DropTCPIPChecksumErrorFrame i OR ETH_ReceiveStoreForward i OR
                     ETH_FlushReceivedFrame i OR ETH_TransmitStoreForward i OR ETH_TransmitThresholdControl i OR
                     ETH_ForwardErrorFrames i OR ETH_ForwardUndersizedGoodFrames i OR ETH_ReceiveThresholdControl i OR
                     ETH_SecondFrameOperate i);
          h = h\<lparr>DMAOMR := tmpreg\<rparr>
      in h\<lparr>DMABMR := ETH_AddressAlignedBeats i OR ETH_FixedBurst i OR ETH_RxDMABurstLength i OR
             ETH_TxDMABurstLength i OR push_bit 2 (ETH_DescriptorSkipLength i) OR ETH_DMAArbitration i OR
             0x00800000\<rparr>)"

text \<open>The delays, which only count down, and the checks of the parameters, switched off, are left out.\<close>

definition ETH_Init :: "eth_init \<Rightarrow> u16 \<Rightarrow> eth_hw \<Rightarrow> u32 \<times> eth_init \<times> eth_hw" where
  "ETH_Init i PHYAddress h =
     (let h = csr_clock h;
          (ok, h) = ETH_WritePHYRegister PHYAddress PHY_BCR PHY_Reset h
      in if ok = 0 then (0, i, h)
         else let (ok, i, h) =
                (if ETH_AutoNegotiation i \<noteq> 0 then auto_negotiate PHYAddress i h
                 else let (ok, h) = ETH_WritePHYRegister PHYAddress PHY_BCR
                            (ucast (drop_bit 3 (ETH_Mode i)) OR ucast (drop_bit 1 (ETH_Speed i))) h
                      in (ok, i, h))
           in if ok = 0 then (0, i, h) else (1, i, dma_config i (mac_config i h)))"

section \<open>Switches\<close>

definition ETH_MACTransmissionCmd :: "bool \<Rightarrow> eth_hw \<Rightarrow> eth_hw" where
  "ETH_MACTransmissionCmd on h = h\<lparr>MACCR := (if on then MACCR h OR 0x00000008 else MACCR h AND NOT 0x00000008)\<rparr>"

definition ETH_MACReceptionCmd :: "bool \<Rightarrow> eth_hw \<Rightarrow> eth_hw" where
  "ETH_MACReceptionCmd on h = h\<lparr>MACCR := (if on then MACCR h OR 0x00000004 else MACCR h AND NOT 0x00000004)\<rparr>"

definition ETH_FlushTransmitFIFO :: "eth_hw \<Rightarrow> eth_hw" where
  "ETH_FlushTransmitFIFO h = h\<lparr>DMAOMR := DMAOMR h OR 0x00100000\<rparr>"

definition ETH_DMATransmissionCmd :: "bool \<Rightarrow> eth_hw \<Rightarrow> eth_hw" where
  "ETH_DMATransmissionCmd on h = h\<lparr>DMAOMR := (if on then DMAOMR h OR 0x00002000 else DMAOMR h AND NOT 0x00002000)\<rparr>"

definition ETH_DMAReceptionCmd :: "bool \<Rightarrow> eth_hw \<Rightarrow> eth_hw" where
  "ETH_DMAReceptionCmd on h = h\<lparr>DMAOMR := (if on then DMAOMR h OR 0x00000002 else DMAOMR h AND NOT 0x00000002)\<rparr>"

definition ETH_Start :: "eth_hw \<Rightarrow> eth_hw" where
  "ETH_Start h =
     (let h = ETH_MACTransmissionCmd ENABLE h;
          h = ETH_FlushTransmitFIFO h;
          h = ETH_MACReceptionCmd ENABLE h;
          h = ETH_DMATransmissionCmd ENABLE h
      in ETH_DMAReceptionCmd ENABLE h)"

definition ETH_DMAITConfig :: "u32 \<Rightarrow> bool \<Rightarrow> eth_hw \<Rightarrow> eth_hw" where
  "ETH_DMAITConfig its on h = h\<lparr>DMAIER := (if on then DMAIER h OR its else DMAIER h AND NOT its)\<rparr>"

text \<open>The bits of the status register are cleared by writing ones.\<close>

definition write_DMASR :: "u32 \<Rightarrow> eth_hw \<Rightarrow> eth_hw" where
  "write_DMASR w h = h\<lparr>DMASR := DMASR h AND NOT w\<rparr>"

definition ETH_DMAClearITPendingBit :: "u32 \<Rightarrow> eth_hw \<Rightarrow> eth_hw" where
  "ETH_DMAClearITPendingBit it h = write_DMASR it h"

definition ETH_MACAddressConfig :: "u8 list \<Rightarrow> eth_hw \<Rightarrow> eth_hw" where
  "ETH_MACAddressConfig Addr h =
     (let tmpreg = push_bit 8 (ucast (Addr ! 5)) OR ucast (Addr ! 4);
          h = h\<lparr>MACA0HR := tmpreg\<rparr>;
          tmpreg = push_bit 24 (ucast (Addr ! 3)) OR push_bit 16 (ucast (Addr ! 2)) OR push_bit 8 (ucast (Addr ! 1)) OR
                     ucast (Addr ! 0)
      in h\<lparr>MACA0LR := tmpreg\<rparr>)"

section \<open>Chains of descriptors\<close>

abbreviation ETH_DMARxDesc_OWN :: u32 where "ETH_DMARxDesc_OWN \<equiv> 0x80000000"
abbreviation ETH_DMARxDesc_FL :: u32 where "ETH_DMARxDesc_FL \<equiv> 0x3FFF0000"
abbreviation ETH_DMARxDesc_ES :: u32 where "ETH_DMARxDesc_ES \<equiv> 0x00008000"
abbreviation ETH_DMARxDesc_FS :: u32 where "ETH_DMARxDesc_FS \<equiv> 0x00000200"
abbreviation ETH_DMARxDesc_LS :: u32 where "ETH_DMARxDesc_LS \<equiv> 0x00000100"
abbreviation ETH_DMARxDesc_DIC :: u32 where "ETH_DMARxDesc_DIC \<equiv> 0x80000000"
abbreviation ETH_DMARxDesc_RCH :: u32 where "ETH_DMARxDesc_RCH \<equiv> 0x00004000"
abbreviation ETH_DMATxDesc_OWN :: u32 where "ETH_DMATxDesc_OWN \<equiv> 0x80000000"
abbreviation ETH_DMATxDesc_LS :: u32 where "ETH_DMATxDesc_LS \<equiv> 0x20000000"
abbreviation ETH_DMATxDesc_FS :: u32 where "ETH_DMATxDesc_FS \<equiv> 0x10000000"
abbreviation ETH_DMATxDesc_TCH :: u32 where "ETH_DMATxDesc_TCH \<equiv> 0x00100000"
abbreviation ETH_DMATxDesc_TBS1 :: u32 where "ETH_DMATxDesc_TBS1 \<equiv> 0x00001FFF"

definition upd_rxd :: "nat \<Rightarrow> (eth_desc \<Rightarrow> eth_desc) \<Rightarrow> eth_hw \<Rightarrow> eth_hw" where
  "upd_rxd d f h = h\<lparr>DMARxDscrTab := (DMARxDscrTab h)[d := f (DMARxDscrTab h ! d)]\<rparr>"

definition upd_txd :: "nat \<Rightarrow> (eth_desc \<Rightarrow> eth_desc) \<Rightarrow> eth_hw \<Rightarrow> eth_hw" where
  "upd_txd d f h = h\<lparr>DMATxDscrTab := (DMATxDscrTab h)[d := f (DMATxDscrTab h ! d)]\<rparr>"

text \<open>The write of the address of a list sets the place where the hardware goes on, too.\<close>

definition ETH_DMATxDescChainInit :: "nat \<Rightarrow> eth_hw \<Rightarrow> eth_hw" where
  "ETH_DMATxDescChainInit TxBuffCount h =
     (let h = h\<lparr>DMATxDescToSet := 0\<rparr>;
          h = fold (\<lambda>i. upd_txd i (\<lambda>d. d\<lparr>Status := ETH_DMATxDesc_TCH, Buffer1Addr := i * ETH_MAX_PACKET_SIZE,
                Buffer2NextDescAddr := (if i < TxBuffCount - 1 then i + 1 else 0)\<rparr>)) [0..<TxBuffCount] h
      in h\<lparr>DMATDLAR := 0, tx_dma := 0\<rparr>)"

definition ETH_DMARxDescChainInit :: "nat \<Rightarrow> eth_hw \<Rightarrow> eth_hw" where
  "ETH_DMARxDescChainInit RxBuffCount h =
     (let h = h\<lparr>DMARxDescToGet := 0\<rparr>;
          h = fold (\<lambda>i. upd_rxd i (\<lambda>d. d\<lparr>Status := ETH_DMARxDesc_OWN,
                ControlBufferSize := ETH_DMARxDesc_RCH OR word_of_nat ETH_MAX_PACKET_SIZE,
                Buffer1Addr := i * ETH_MAX_PACKET_SIZE,
                Buffer2NextDescAddr := (if i < RxBuffCount - 1 then i + 1 else 0)\<rparr>)) [0..<RxBuffCount] h
      in h\<lparr>DMARDLAR := 0, rx_dma := 0\<rparr>)"

definition ETH_DMARxDescReceiveITConfig :: "nat \<Rightarrow> bool \<Rightarrow> eth_hw \<Rightarrow> eth_hw" where
  "ETH_DMARxDescReceiveITConfig i on =
     upd_rxd i (\<lambda>d. d\<lparr>ControlBufferSize := (if on then ControlBufferSize d AND NOT ETH_DMARxDesc_DIC
                                            else ControlBufferSize d OR ETH_DMARxDesc_DIC)\<rparr>)"

definition ETH_DMATxDescChecksumInsertionConfig :: "nat \<Rightarrow> u32 \<Rightarrow> eth_hw \<Rightarrow> eth_hw" where
  "ETH_DMATxDescChecksumInsertionConfig i cic = upd_txd i (\<lambda>d. d\<lparr>Status := Status d OR cic\<rparr>)"

definition ETH_GetDMARxDescFrameLength :: "eth_desc \<Rightarrow> u32" where
  "ETH_GetDMARxDescFrameLength d = drop_bit 16 (Status d AND ETH_DMARxDesc_FL)"

definition ETH_GetRxPktSize :: "eth_hw \<Rightarrow> u32" where
  "ETH_GetRxPktSize h =
     (let d = DMARxDscrTab h ! DMARxDescToGet h in
      if Status d AND ETH_DMARxDesc_OWN = 0 \<and> Status d AND ETH_DMARxDesc_ES = 0 \<and>
         Status d AND ETH_DMARxDesc_LS \<noteq> 0 \<and> Status d AND ETH_DMARxDesc_FS \<noteq> 0
      then ETH_GetDMARxDescFrameLength d else 0)"

end
