(* ===== verification/Eth_Port.thy ===== *)
theory Eth_Port
  imports Eth_Driver
begin

text \<open>
  The port of the network stack to the Ethernet driver, \<^verbatim>\<open>ethernetif.c\<close>: it sets up the descriptors, copies
  a packet of the stack into a buffer to be sent and a received frame into a chain of packet buffers.

  The packet buffers belong to the stack.  \<open>pbuf_chain k len\<close> is the answer to the \<open>k\<close>-th request for
  \<open>len\<close> bytes: the sizes of the links of the chain, or no memory.  A chain of packet buffers is the list of
  the contents of its links.
\<close>

section \<open>Set up\<close>

definition ETH_RXBUFNB :: nat where "ETH_RXBUFNB = 4"
definition ETH_TXBUFNB :: nat where "ETH_TXBUFNB = 2"

definition Set_MAC_Address :: "u8 list \<Rightarrow> eth_hw \<Rightarrow> eth_hw" where
  "Set_MAC_Address macadd h =
     (let h = h\<lparr>MACaddr := [macadd ! 0, macadd ! 1, macadd ! 2, macadd ! 3, macadd ! 4, macadd ! 5]\<rparr>
      in ETH_MACAddressConfig macadd h)"

text \<open>The flags of the interface are broadcast, address resolution and link up.\<close>

definition low_level_init :: "eth_hw \<Rightarrow> eth_hw" where
  "low_level_init h =
     (let h = h\<lparr>if_hwaddr := MACaddr h\<rparr>;
          h = h\<lparr>if_mtu := 1500\<rparr>;
          h = h\<lparr>if_flags := 0x02 OR 0x20 OR 0x10\<rparr>;
          h = ETH_DMATxDescChainInit ETH_TXBUFNB h;
          h = ETH_DMARxDescChainInit ETH_RXBUFNB h;
          h = fold (\<lambda>i. ETH_DMARxDescReceiveITConfig i ENABLE) [0..<ETH_RXBUFNB] h;
          h = fold (\<lambda>i. ETH_DMATxDescChecksumInsertionConfig i 0x00C00000) [0..<ETH_TXBUFNB] h
      in ETH_Start h)"

text \<open>\<open>mem_malloc\<close> answers null when there is no memory for the private data of the interface.\<close>

definition ethernetif_init :: "bool \<Rightarrow> eth_hw \<Rightarrow> u8 \<times> eth_hw" where
  "ethernetif_init mem h = (if \<not> mem then (0xFF, h) else (0, low_level_init h))"

section \<open>Reception\<close>

record frame =
  frame_length :: u32
  frame_buffer :: "nat option"
  frame_descriptor :: "nat option"

text \<open>When no buffer was free for the hardware, it is told to go on.\<close>

definition clear_RBUS :: "eth_hw \<Rightarrow> eth_hw" where
  "clear_RBUS h =
     (if DMASR h AND 0x00000080 \<noteq> 0
      then (write_DMASR 0x00000080 h)\<lparr>rx_demands := rx_demands h + 1\<rparr> else h)"

definition ETH_RxPkt_ChainMode :: "eth_hw \<Rightarrow> frame \<times> eth_hw" where
  "ETH_RxPkt_ChainMode h =
     (let frame = \<lparr>frame_length = 0, frame_buffer = None, frame_descriptor = None\<rparr>;
          d = DMARxDscrTab h ! DMARxDescToGet h
      in if Status d AND ETH_DMARxDesc_OWN \<noteq> 0
         then (frame\<lparr>frame_length := 0\<rparr>, clear_RBUS h)
         else
           let (framelength, frame) =
                 (if Status d AND ETH_DMARxDesc_ES = 0 \<and> Status d AND ETH_DMARxDesc_LS \<noteq> 0 \<and>
                     Status d AND ETH_DMARxDesc_FS \<noteq> 0
                  then (drop_bit 16 (Status d AND ETH_DMARxDesc_FL) - 4, frame\<lparr>frame_buffer := Some (Buffer1Addr d)\<rparr>)
                  else (0, frame));
               frame = frame\<lparr>frame_length := framelength\<rparr>;
               frame = frame\<lparr>frame_descriptor := Some (DMARxDescToGet h)\<rparr>
           in (frame, h\<lparr>DMARxDescToGet := Buffer2NextDescAddr d\<rparr>))"

text \<open>\<open>memcpy\<close> out of an array at an address: the null address has nothing to read.\<close>

definition copy_out :: "nat option \<Rightarrow> nat \<Rightarrow> nat \<Rightarrow> u8 list \<Rightarrow> u8 list res" where
  "copy_out adr l n mem =
     (case adr of
        None \<Rightarrow> if n = 0 then Ok [] else Fault OutOfBounds
      | Some b \<Rightarrow> if b + l + n \<le> length mem then Ok (take n (drop (b + l) mem)) else Fault OutOfBounds)"

text \<open>The loop over the links of the chain, whose sizes are given.\<close>

fun copy_chain :: "nat list \<Rightarrow> nat \<Rightarrow> nat option \<Rightarrow> u8 list \<Rightarrow> u8 list list res" where
  "copy_chain [] l adr mem = Ok []"
| "copy_chain (n # ns) l adr mem =
     bnd (copy_out adr l n mem) (\<lambda>payload.
       bnd (copy_chain ns (l + n) adr mem) (\<lambda>rest. Ok (payload # rest)))"

definition low_level_input :: "eth_hw \<Rightarrow> (u8 list list option \<times> eth_hw) res" where
  "low_level_input h =
     (let (frame, h) = ETH_RxPkt_ChainMode h;
          len = ucast (frame_length frame) :: u16;
          p = pbuf_chain h (pbuf_chains h) len;
          h = h\<lparr>pbuf_chains := pbuf_chains h + 1\<rparr>
      in bnd (case p of
                None \<Rightarrow> Ok None
              | Some ns \<Rightarrow> bnd (copy_chain ns 0 (frame_buffer frame) (Rx_Buff h)) (\<lambda>q. Ok (Some q)))
           (\<lambda>p. case frame_descriptor frame of
              None \<Rightarrow> Fault OutOfBounds
            | Some d \<Rightarrow> Ok (p, clear_RBUS (upd_rxd d (\<lambda>x. x\<lparr>Status := ETH_DMARxDesc_OWN\<rparr>) h))))"

section \<open>Transmission\<close>

definition ETH_GetCurrentTxBuffer :: "eth_hw \<Rightarrow> nat" where
  "ETH_GetCurrentTxBuffer h = Buffer1Addr (DMATxDscrTab h ! DMATxDescToSet h)"

definition ETH_TxPkt_ChainMode :: "u16 \<Rightarrow> eth_hw \<Rightarrow> u32 \<times> eth_hw" where
  "ETH_TxPkt_ChainMode FrameLength h =
     (let i = DMATxDescToSet h
      in if Status (DMATxDscrTab h ! i) AND ETH_DMATxDesc_OWN \<noteq> 0 then (0, h)
         else
           let h = upd_txd i (\<lambda>d. d\<lparr>ControlBufferSize := ucast FrameLength AND ETH_DMATxDesc_TBS1\<rparr>) h;
               h = upd_txd i (\<lambda>d. d\<lparr>Status := Status d OR (ETH_DMATxDesc_LS OR ETH_DMATxDesc_FS)\<rparr>) h;
               h = upd_txd i (\<lambda>d. d\<lparr>Status := Status d OR ETH_DMATxDesc_OWN\<rparr>) h;
               h = (if DMASR h AND 0x00000004 \<noteq> 0
                    then (write_DMASR 0x00000004 h)\<lparr>tx_demands := tx_demands h + 1\<rparr> else h)
           in (1, h\<lparr>DMATxDescToSet := Buffer2NextDescAddr (DMATxDscrTab h ! i)\<rparr>))"

definition copy_in :: "nat \<Rightarrow> u8 list \<Rightarrow> u8 list \<Rightarrow> u8 list res" where
  "copy_in b q mem =
     (if b + length q \<le> length mem then Ok (take b mem @ q @ drop (b + length q) mem) else Fault OutOfBounds)"

fun copy_packet :: "u8 list list \<Rightarrow> nat \<Rightarrow> nat \<Rightarrow> u8 list \<Rightarrow> (nat \<times> u8 list) res" where
  "copy_packet [] b l mem = Ok (l, mem)"
| "copy_packet (q # qs) b l mem =
     bnd (copy_in (b + l) q mem) (\<lambda>mem. copy_packet qs b (l + length q) mem)"

text \<open>The result of the call that hands the buffer over is not looked at.\<close>

definition low_level_output :: "u8 list list \<Rightarrow> eth_hw \<Rightarrow> (u8 \<times> eth_hw) res" where
  "low_level_output p h =
     (let buffer = ETH_GetCurrentTxBuffer h
      in bnd (copy_packet p buffer 0 (Tx_Buff h)) (\<lambda>(l, mem).
           let h = h\<lparr>Tx_Buff := mem\<rparr>;
               (_, h) = ETH_TxPkt_ChainMode (word_of_nat l) h
           in Ok (0, h)))"

end
