(* ===== verification/Eth_Setup.thy ===== *)
theory Eth_Setup
  imports Eth_Driver
begin

text \<open>
  What \<open>ETH_Init\<close> does: when it succeeds, what it leaves in the registers, and that a failure leaves them
  alone.  It always returns, since its polls are bounded.
\<close>

section \<open>The management interface\<close>

text \<open>Everything but the registers of the management interface and the record of its use.\<close>

definition mii_free :: "eth_hw \<Rightarrow> eth_hw" where
  "mii_free h = h\<lparr>MACMIIAR := 0, MACMIIDR := 0, phy_ops := 0, phy_log := []\<rparr>"

lemma mii_freeD:
  assumes "mii_free t = mii_free h"
  shows "MACCR t = MACCR h" "MACFFR t = MACFFR h" "MACFCR t = MACFCR h" "DMAOMR t = DMAOMR h" "DMABMR t = DMABMR h"
    "DMASR t = DMASR h" "DMAIER t = DMAIER h" "phy t = phy h" "DMARxDscrTab t = DMARxDscrTab h" "DMATxDscrTab t = DMATxDscrTab h"
    "Rx_Buff t = Rx_Buff h" "Tx_Buff t = Tx_Buff h" "rx_dma t = rx_dma h" "tx_dma t = tx_dma h" "pbuf_chain t = pbuf_chain h"
  using arg_cong[OF assms, of MACCR] arg_cong[OF assms, of MACFFR] arg_cong[OF assms, of MACFCR]
    arg_cong[OF assms, of DMAOMR] arg_cong[OF assms, of DMABMR] arg_cong[OF assms, of DMASR]
    arg_cong[OF assms, of DMAIER] arg_cong[OF assms, of phy] arg_cong[OF assms, of DMARxDscrTab]
    arg_cong[OF assms, of DMATxDscrTab] arg_cong[OF assms, of Rx_Buff] arg_cong[OF assms, of Tx_Buff]
    arg_cong[OF assms, of rx_dma] arg_cong[OF assms, of tx_dma] arg_cong[OF assms, of pbuf_chain]
  by (simp_all add: mii_free_def)

lemma mii_poll_result: "timeout < limit \<Longrightarrow> mii_poll b limit timeout = min limit (max (Suc timeout) (Suc b))"
  by (induction b limit timeout rule: mii_poll.induct) (subst mii_poll.simps, auto simp: Let_def)

text \<open>The answer of the transceiver to an access, none when it stays busy for too long.\<close>

definition phy_reply :: "eth_hw \<Rightarrow> nat \<Rightarrow> u16 option" where
  "phy_reply h k = (if fst (phy h k) + 1 < PHY_READ_TO then Some (snd (phy h k)) else None)"

lemma read_phy:
  "fst (ETH_ReadPHYRegister a r h) = (case phy_reply h (phy_ops h) of None \<Rightarrow> 0 | Some v \<Rightarrow> v)"
  "mii_free (snd (ETH_ReadPHYRegister a r h)) = mii_free h"
  "phy_ops (snd (ETH_ReadPHYRegister a r h)) = phy_ops h + 1" "phy_log (snd (ETH_ReadPHYRegister a r h)) = phy_log h"
proof -
  have "mii_poll b PHY_READ_TO 0 = PHY_READ_TO \<longleftrightarrow> \<not> b + 1 < PHY_READ_TO" for b
    by (simp add: mii_poll_result PHY_READ_TO_def min_def)
  then show "fst (ETH_ReadPHYRegister a r h) = (case phy_reply h (phy_ops h) of None \<Rightarrow> 0 | Some v \<Rightarrow> v)"
    "mii_free (snd (ETH_ReadPHYRegister a r h)) = mii_free h"
    "phy_ops (snd (ETH_ReadPHYRegister a r h)) = phy_ops h + 1" "phy_log (snd (ETH_ReadPHYRegister a r h)) = phy_log h"
    by (auto simp: ETH_ReadPHYRegister_def phy_reply_def mii_free_def Let_def split_beta)
qed

lemma write_phy:
  "fst (ETH_WritePHYRegister a r v h) = (if phy_reply h (phy_ops h) = None then 0 else 1)"
  "mii_free (snd (ETH_WritePHYRegister a r v h)) = mii_free h"
  "phy_ops (snd (ETH_WritePHYRegister a r v h)) = phy_ops h + 1"
  "phy_log (snd (ETH_WritePHYRegister a r v h)) = phy_log h @ [(r, v)]"
proof -
  have "mii_poll b PHY_WRITE_TO 0 = PHY_WRITE_TO \<longleftrightarrow> \<not> b + 1 < PHY_READ_TO" for b
    by (simp add: mii_poll_result PHY_READ_TO_def PHY_WRITE_TO_def min_def)
  then show "fst (ETH_WritePHYRegister a r v h) = (if phy_reply h (phy_ops h) = None then 0 else 1)"
    "mii_free (snd (ETH_WritePHYRegister a r v h)) = mii_free h"
    "phy_ops (snd (ETH_WritePHYRegister a r v h)) = phy_ops h + 1"
    "phy_log (snd (ETH_WritePHYRegister a r v h)) = phy_log h @ [(r, v)]"
    by (auto simp: ETH_WritePHYRegister_def phy_reply_def mii_free_def Let_def split_beta)
qed

text \<open>The bit is seen at an access that is answered.\<close>

definition phy_up :: "u16 \<Rightarrow> eth_hw \<Rightarrow> nat \<Rightarrow> bool" where
  "phy_up st h k \<longleftrightarrow> (case phy_reply h k of None \<Rightarrow> False | Some v \<Rightarrow> v AND st \<noteq> 0)"

lemma phy_up_same: "mii_free t = mii_free h \<Longrightarrow> phy_up st t k = phy_up st h k \<and> phy_reply t k = phy_reply h k"
  using mii_freeD(8)[of t h] by (simp add: phy_up_def phy_reply_def)

text \<open>The poll ends at the first access that sees the bit, or at its limit.\<close>

lemma phy_poll_result:
  assumes "\<forall>k < n. \<not> phy_up st h (phy_ops h + k)" and "timeout + n < PHY_READ_TO"
    and "phy_up st h (phy_ops h + n) \<or> timeout + n + 1 = PHY_READ_TO"
  shows "\<exists>t. phy_poll a st timeout h = (timeout + n + 1, t) \<and> mii_free t = mii_free h \<and> phy_ops t = phy_ops h + n + 1 \<and>
    phy_log t = phy_log h"
  using assms
proof (induction n arbitrary: timeout h)
  case (0 timeout h)
  note r = read_phy[of a PHY_BSR h]
  have "fst (ETH_ReadPHYRegister a PHY_BSR h) AND st \<noteq> 0 \<longleftrightarrow> phy_up st h (phy_ops h)"
    unfolding r(1) by (simp add: phy_up_def split: option.split)
  then have "phy_poll a st timeout h = (timeout + 1, snd (ETH_ReadPHYRegister a PHY_BSR h))"
    using "0.prems" by (subst phy_poll.simps) (auto simp: Let_def split_beta)
  then show ?case using r by simp
next
  case (Suc n timeout h)
  let ?u = "snd (ETH_ReadPHYRegister a PHY_BSR h)"
  note r = read_phy[of a PHY_BSR h]
  have "fst (ETH_ReadPHYRegister a PHY_BSR h) AND st \<noteq> 0 \<longleftrightarrow> phy_up st h (phy_ops h)"
    unfolding r(1) by (simp add: phy_up_def split: option.split)
  then have run: "phy_poll a st timeout h = phy_poll a st (timeout + 1) ?u"
    using Suc.prems(1)[rule_format, of 0] Suc.prems(2) by (subst phy_poll.simps) (simp add: Let_def split_beta)
  have "\<forall>k < n. \<not> phy_up st ?u (phy_ops ?u + k)" using Suc.prems(1) phy_up_same[OF r(2)] r(3) by auto
  moreover have "phy_up st ?u (phy_ops ?u + n) \<or> timeout + 1 + n + 1 = PHY_READ_TO"
    using Suc.prems(3) phy_up_same[OF r(2)] r(3) by auto
  ultimately show ?case using Suc.IH[of ?u "timeout + 1"] Suc.prems(2) run r by auto
qed

lemma phy_poll_free: "mii_free (snd (phy_poll a st timeout h)) = mii_free h"
proof (induction a st timeout h rule: phy_poll.induct)
  case (1 a st timeout h)
  obtain v u where r: "ETH_ReadPHYRegister a PHY_BSR h = (v, u)" by fastforce
  then have "mii_free u = mii_free h" using read_phy(2)[of a PHY_BSR h] by simp
  then show ?case using "1.IH"[OF refl r[symmetric]] by (subst phy_poll.simps) (simp add: r Let_def)
qed

lemma csr_clock_free: "mii_free (csr_clock h) = mii_free h" "phy_ops (csr_clock h) = phy_ops h" "phy_log (csr_clock h) = phy_log h"
  by (simp_all add: csr_clock_def mii_free_def Let_def)

section \<open>The outcome of the set up\<close>

definition duplex_of :: "u16 \<Rightarrow> u32" where
  "duplex_of v = (if v AND PHY_Duplex_Status \<noteq> 0 then 0x00000800 else 0)"

definition speed_of :: "u16 \<Rightarrow> u32" where
  "speed_of v = (if v AND PHY_Speed_Status \<noteq> 0 then 0 else 0x00004000)"

text \<open>Either nothing but the management interface changed, or everything was configured.\<close>

lemma ETH_Init_cases:
  assumes auto: "ETH_AutoNegotiation i \<noteq> 0" and run: "ETH_Init i a h = (r, j, t)"
  obtains (failed) "r = 0" "j = i" "mii_free t = mii_free h"
  | (up) v u where "r = 1" "j = i\<lparr>ETH_Mode := duplex_of v, ETH_Speed := speed_of v\<rparr>" "mii_free u = mii_free h"
      "t = dma_config j (mac_config j u)"
proof -
  let ?c = "csr_clock h"
  obtain ok1 h1 where w1: "ETH_WritePHYRegister a PHY_BCR PHY_Reset ?c = (ok1, h1)" by fastforce
  have f1: "mii_free h1 = mii_free h" using write_phy(2)[of a PHY_BCR PHY_Reset ?c] w1 csr_clock_free(1)[of h] by simp
  show thesis
  proof (cases "ok1 = 0")
    case True
    then show ?thesis using run failed f1 by (simp add: ETH_Init_def w1)
  next
    case False
    obtain n h2 where p1: "phy_poll a PHY_Linked_Status 0 h1 = (n, h2)" by fastforce
    have f2: "mii_free h2 = mii_free h" using phy_poll_free[of a PHY_Linked_Status 0 h1] p1 f1 by simp
    obtain ok2 h3 where w2: "ETH_WritePHYRegister a PHY_BCR PHY_AutoNegotiation h2 = (ok2, h3)" by fastforce
    have f3: "mii_free h3 = mii_free h" using write_phy(2)[of a PHY_BCR PHY_AutoNegotiation h2] w2 f2 by simp
    obtain m h4 where p2: "phy_poll a PHY_AutoNego_Complete 0 h3 = (m, h4)" by fastforce
    have f4: "mii_free h4 = mii_free h" using phy_poll_free[of a PHY_AutoNego_Complete 0 h3] p2 f3 by simp
    obtain v h5 where r5: "ETH_ReadPHYRegister a PHY_SR h4 = (v, h5)" by fastforce
    have f5: "mii_free h5 = mii_free h" using read_phy(2)[of a PHY_SR h4] r5 f4 by simp
    note neg = auto_negotiate_def p1 w2 p2 r5 Let_def
    show ?thesis
    proof (cases "n = PHY_READ_TO \<or> ok2 = 0 \<or> m = PHY_READ_TO")
      case True
      then have "\<exists>u. auto_negotiate a i h1 = (0, i, u) \<and> mii_free u = mii_free h" using f2 f3 f4 by (auto simp: neg)
      then show ?thesis using run auto False failed by (auto simp: ETH_Init_def w1)
    next
      case ok: False
      then have "auto_negotiate a i h1 = (1, i\<lparr>ETH_Mode := duplex_of v, ETH_Speed := speed_of v\<rparr>, h5)"
        by (simp add: neg duplex_of_def speed_of_def)
      then show ?thesis using run auto False up[OF _ _ f5, of v] by (auto simp: ETH_Init_def w1)
    qed
  qed
qed

text \<open>The negotiation succeeds: the link at the \<open>n\<close>-th look at the status, its end at the \<open>m\<close>-th.\<close>

lemma ETH_Init_up:
  assumes auto: "ETH_AutoNegotiation i \<noteq> 0" and p: "phy_ops h = p"
    and reset: "phy_reply h p \<noteq> None"
    and link: "n + 1 < PHY_READ_TO" "phy_up PHY_Linked_Status h (p + 1 + n)" "\<forall>k < n. \<not> phy_up PHY_Linked_Status h (p + 1 + k)"
    and start: "phy_reply h (p + 2 + n) \<noteq> None"
    and neg: "m + 1 < PHY_READ_TO" "phy_up PHY_AutoNego_Complete h (p + 3 + n + m)"
      "\<forall>k < m. \<not> phy_up PHY_AutoNego_Complete h (p + 3 + n + k)"
  defines "v \<equiv> case phy_reply h (p + 4 + n + m) of None \<Rightarrow> 0 | Some v \<Rightarrow> v"
  defines "j \<equiv> i\<lparr>ETH_Mode := duplex_of v, ETH_Speed := speed_of v\<rparr>"
  shows "\<exists>u. ETH_Init i a h = (1, j, dma_config j (mac_config j u)) \<and> mii_free u = mii_free h \<and>
    phy_ops u = p + 5 + n + m \<and> phy_log u = phy_log h @ [(PHY_BCR, PHY_Reset), (PHY_BCR, PHY_AutoNegotiation)]"
proof -
  define c where "c = csr_clock h"
  have c: "mii_free c = mii_free h" "phy_ops c = p" "phy_log c = phy_log h" by (simp_all add: c_def csr_clock_free p)
  obtain h1 where w1: "ETH_WritePHYRegister a PHY_BCR PHY_Reset c = (1, h1)" "mii_free h1 = mii_free h" "phy_ops h1 = p + 1"
    "phy_log h1 = phy_log h @ [(PHY_BCR, PHY_Reset)]"
    using write_phy[of a PHY_BCR PHY_Reset c] reset c phy_up_same[OF c(1)] by (metis add_0 add.commute prod.collapse)
  obtain h2 where p1: "phy_poll a PHY_Linked_Status 0 h1 = (n + 1, h2)" "mii_free h2 = mii_free h" "phy_ops h2 = p + 2 + n"
    "phy_log h2 = phy_log h1"
    using phy_poll_result[of n PHY_Linked_Status h1 0 a] link phy_up_same[OF w1(2)] w1(2,3) by auto
  obtain h3 where w2: "ETH_WritePHYRegister a PHY_BCR PHY_AutoNegotiation h2 = (1, h3)" "mii_free h3 = mii_free h"
    "phy_ops h3 = p + 3 + n" "phy_log h3 = phy_log h2 @ [(PHY_BCR, PHY_AutoNegotiation)]"
    using write_phy[of a PHY_BCR PHY_AutoNegotiation h2] start p1 phy_up_same[OF p1(2)]
    by (cases "ETH_WritePHYRegister a PHY_BCR PHY_AutoNegotiation h2") auto
  obtain h4 where p2: "phy_poll a PHY_AutoNego_Complete 0 h3 = (m + 1, h4)" "mii_free h4 = mii_free h" "phy_ops h4 = p + 4 + n + m"
    "phy_log h4 = phy_log h3"
    using phy_poll_result[of m PHY_AutoNego_Complete h3 0 a] neg phy_up_same[OF w2(2)] w2(2,3) by auto
  obtain h5 where r: "ETH_ReadPHYRegister a PHY_SR h4 = (v, h5)" "mii_free h5 = mii_free h" "phy_ops h5 = p + 5 + n + m"
    "phy_log h5 = phy_log h4"
    using read_phy[of a PHY_SR h4] p2 phy_up_same[OF p2(2)]
    by (cases "ETH_ReadPHYRegister a PHY_SR h4") (auto simp: v_def)
  have "auto_negotiate a i h1 = (1, j, h5)"
    using link(1) neg(1) by (simp add: auto_negotiate_def p1(1) w2(1) p2(1) r(1) Let_def j_def duplex_of_def speed_of_def)
  then have "ETH_Init i a h = (1, j, dma_config j (mac_config j h5))"
    using auto by (simp add: ETH_Init_def w1(1) flip: c_def)
  then show ?thesis using r p2 w2 p1 w1 by auto
qed

lemma ETH_Init_no_link:
  assumes auto: "ETH_AutoNegotiation i \<noteq> 0" and down: "\<forall>k. \<not> phy_up PHY_Linked_Status h k"
  shows "\<exists>t. ETH_Init i a h = (0, i, t) \<and> mii_free t = mii_free h"
proof -
  define c where "c = csr_clock h"
  obtain ok h1 where w1: "ETH_WritePHYRegister a PHY_BCR PHY_Reset c = (ok, h1)" by fastforce
  have f1: "mii_free h1 = mii_free h"
    using write_phy(2)[of a PHY_BCR PHY_Reset c] w1 csr_clock_free(1)[of h] by (simp add: c_def)
  have "\<exists>t. phy_poll a PHY_Linked_Status 0 h1 = (PHY_READ_TO, t) \<and> mii_free t = mii_free h"
    using phy_poll_result[of "PHY_READ_TO - 1" PHY_Linked_Status h1 0 a] down phy_up_same[OF f1] f1 by (auto simp: PHY_READ_TO_def)
  then show ?thesis using auto f1 by (auto simp: ETH_Init_def w1 auto_negotiate_def Let_def simp flip: c_def)
qed

section \<open>The set up of the board\<close>

text \<open>
  The structure as \<^verbatim>\<open>stm32f107.c\<close> fills it.  The assignment of \<open>ETH_ChecksumOffload\<close> stands behind
  \<open>CHECKSUM_BY_HARDWARE\<close>, which \<^verbatim>\<open>lwipopts.h\<close> defines and this file does not include.
\<close>

definition eth_config :: eth_init where
  "eth_config = ETH_StructInit\<lparr>
     ETH_AutoNegotiation := 1, ETH_LoopbackMode := 0, ETH_RetryTransmission := 0x200,
     ETH_AutomaticPadCRCStrip := 0, ETH_ReceiveAll := 0, ETH_BroadcastFramesReception := 0,
     ETH_PromiscuousMode := 0, ETH_MulticastFramesFilter := 0, ETH_UnicastFramesFilter := 0,
     ETH_DropTCPIPChecksumErrorFrame := 0, ETH_ReceiveStoreForward := 0x2000000,
     ETH_TransmitStoreForward := 0x200000, ETH_ForwardErrorFrames := 0, ETH_ForwardUndersizedGoodFrames := 0,
     ETH_SecondFrameOperate := 4, ETH_AddressAlignedBeats := 0x2000000, ETH_FixedBurst := 0x10000,
     ETH_RxDMABurstLength := 0x400000, ETH_TxDMABurstLength := 0x2000, ETH_DMAArbitration := 0x4000\<rparr>"

definition PHY_ADDRESS :: u16 where "PHY_ADDRESS = 0x01"

lemma eth_config_sel:
  "ETH_AutoNegotiation eth_config = 1"
  "mac_config (eth_config\<lparr>ETH_Mode := m, ETH_Speed := sp\<rparr>) h =
     h\<lparr>MACCR := (MACCR h AND MACCR_CLEAR_MASK) OR (sp OR (m OR 0x200)), MACFFR := 0x40, MACHTHR := 0, MACHTLR := 0,
       MACFCR := (MACFCR h AND MACFCR_CLEAR_MASK) OR 0x80, MACVLANTR := 0\<rparr>"
  "dma_config (eth_config\<lparr>ETH_Mode := m, ETH_Speed := sp\<rparr>) h =
     h\<lparr>DMAOMR := (DMAOMR h AND DMAOMR_CLEAR_MASK) OR 0x03200004, DMABMR := 0x02C16000\<rparr>"
  by (simp_all add: eth_config_def ETH_StructInit_def mac_config_def dma_config_def Let_def)

lemma MACCR_unchecked: "((w AND MACCR_CLEAR_MASK) OR (speed_of v OR (duplex_of v OR 0x200))) AND 0x0400 = 0"
proof -
  have "MACCR_CLEAR_MASK AND 0x0400 = 0" "speed_of v AND 0x0400 = 0" "duplex_of v AND 0x0400 = 0"
    by (simp_all add: MACCR_CLEAR_MASK_def speed_of_def duplex_of_def)
  then show ?thesis unfolding bit.conj_disj_distrib2 and.assoc by simp
qed

text \<open>
  C29.  When the transceiver answers, its link comes up and the negotiation ends, each before the limit of
  the polls, \<open>ETH_Init\<close> succeeds.  It has reset the transceiver and started the negotiation, has given it
  no other order, and the duplex mode and the speed of the receiver are those the transceiver reports.
  The filters let through frames for the board and broadcasts, frames are stored before they are
  forwarded, and the bit that checks the checksums of received packets is off.  Without a link it
  fails and leaves the registers alone.
\<close>

theorem ETH_Init_outcome:
  assumes "phy_reply h (phy_ops h) \<noteq> None"
    and "n + 1 < PHY_READ_TO" and "phy_up PHY_Linked_Status h (phy_ops h + 1 + n)"
    and "\<forall>k < n. \<not> phy_up PHY_Linked_Status h (phy_ops h + 1 + k)"
    and "phy_reply h (phy_ops h + 2 + n) \<noteq> None"
    and "m + 1 < PHY_READ_TO" and "phy_up PHY_AutoNego_Complete h (phy_ops h + 3 + n + m)"
    and "\<forall>k < m. \<not> phy_up PHY_AutoNego_Complete h (phy_ops h + 3 + n + k)"
    and "phy_reply h (phy_ops h + 4 + n + m) = Some v"
    and "\<forall>k. \<not> phy_up PHY_Linked_Status d k"
  shows "(\<exists>j t. ETH_Init eth_config PHY_ADDRESS h = (1, j, t) \<and>
      MACCR t = (MACCR h AND MACCR_CLEAR_MASK) OR (speed_of v OR (duplex_of v OR 0x200)) \<and> MACCR t AND 0x0400 = 0 \<and>
      MACFFR t = 0x40 \<and> DMAOMR t AND 0x02200000 = 0x02200000 \<and>
      phy_log t = phy_log h @ [(PHY_BCR, PHY_Reset), (PHY_BCR, PHY_AutoNegotiation)]) \<and>
    (\<exists>t. ETH_Init eth_config PHY_ADDRESS d = (0, eth_config, t) \<and> MACCR t = MACCR d \<and> MACFFR t = MACFFR d \<and>
      DMAOMR t = DMAOMR d)"
proof -
  have auto: "ETH_AutoNegotiation eth_config \<noteq> 0" by (simp add: eth_config_sel)
  obtain u where u: "ETH_Init eth_config PHY_ADDRESS h = (1, eth_config\<lparr>ETH_Mode := duplex_of v, ETH_Speed := speed_of v\<rparr>,
      dma_config (eth_config\<lparr>ETH_Mode := duplex_of v, ETH_Speed := speed_of v\<rparr>)
        (mac_config (eth_config\<lparr>ETH_Mode := duplex_of v, ETH_Speed := speed_of v\<rparr>) u))" "mii_free u = mii_free h"
      "phy_log u = phy_log h @ [(PHY_BCR, PHY_Reset), (PHY_BCR, PHY_AutoNegotiation)]"
    using ETH_Init_up[OF auto refl assms(1-8), of PHY_ADDRESS] assms(9) by auto
  have t: "MACCR (dma_config (eth_config\<lparr>ETH_Mode := duplex_of v, ETH_Speed := speed_of v\<rparr>)
        (mac_config (eth_config\<lparr>ETH_Mode := duplex_of v, ETH_Speed := speed_of v\<rparr>) u)) =
      (MACCR h AND MACCR_CLEAR_MASK) OR (speed_of v OR (duplex_of v OR 0x200))"
    by (simp add: eth_config_sel mii_freeD(1)[OF u(2)])
  note c = MACCR_unchecked
  have d: "((w AND DMAOMR_CLEAR_MASK) OR 0x03200004) AND 0x02200000 = (0x02200000 :: u32)" for w
    unfolding bit.conj_disj_distrib2 and.assoc by (simp add: DMAOMR_CLEAR_MASK_def)
  obtain t where "ETH_Init eth_config PHY_ADDRESS d = (0, eth_config, t)" "mii_free t = mii_free d"
    using ETH_Init_no_link[OF auto assms(10)] by blast
  moreover note mii_freeD[OF this(2)]
  ultimately show ?thesis unfolding u(1) prod.inject using t c d u(3) by (simp add: eth_config_sel)
qed

text \<open>A transceiver that answers at once, with the link up, the negotiation done, full duplex at 100 Mbit.\<close>

definition eth_zero :: eth_hw where
  "eth_zero = eth_hw.make 0 0 0 0 0 0 0 0 0 0 0 0 0 0 0 0 0 0 0 72000000 (\<lambda>k. (0, 0x0024)) 0 [] (\<lambda>k. False) []
     (replicate 4 \<lparr>Status = 0, ControlBufferSize = 0, Buffer1Addr = 0, Buffer2NextDescAddr = 0\<rparr>)
     (replicate 2 \<lparr>Status = 0, ControlBufferSize = 0, Buffer1Addr = 0, Buffer2NextDescAddr = 0\<rparr>)
     (replicate 6080 0) (replicate 3040 0) 0 0 0 0 (\<lambda>k n. Some [unat n]) 0 [] 0 0"

lemma eth_zero_sel:
  "phy eth_zero = (\<lambda>k. (0, 0x0024))" "phy_ops eth_zero = 0" "phy_log eth_zero = []" "MACCR eth_zero = 0"
  by (simp_all add: eth_zero_def eth_hw.defs)

lemma ETH_Init_outcome_witness:
  "\<exists>j t. ETH_Init eth_config PHY_ADDRESS eth_zero = (1, j, t) \<and> MACCR t = 0x4A00 \<and>
    phy_log t = [(PHY_BCR, PHY_Reset), (PHY_BCR, PHY_AutoNegotiation)]"
proof -
  have r: "phy_reply eth_zero k = Some 0x0024" for k by (simp add: phy_reply_def eth_zero_sel PHY_READ_TO_def)
  have up: "phy_up PHY_Linked_Status eth_zero k" "phy_up PHY_AutoNego_Complete eth_zero k" for k
    by (simp_all add: phy_up_def r PHY_Linked_Status_def PHY_AutoNego_Complete_def)
  have down: "\<forall>k. \<not> phy_up PHY_Linked_Status (eth_zero\<lparr>phy := \<lambda>k. (0, 0)\<rparr>) k" by (simp add: phy_up_def phy_reply_def split: option.split)
  show ?thesis
    using ETH_Init_outcome[of eth_zero 0 0 "0x0024" "eth_zero\<lparr>phy := \<lambda>k. (0, 0)\<rparr>", OF _ _ _ _ _ _ _ _ _ down] r up
    by (simp add: PHY_READ_TO_def eth_zero_sel speed_of_def duplex_of_def PHY_Speed_Status_def PHY_Duplex_Status_def) blast
qed

end
