(* ===== verification/Eth_Ring.thy ===== *)
theory Eth_Ring
  imports Eth_Port Msg_Queue
begin

text \<open>
  The chains of descriptors between the port and the hardware, with the hardware as an environment: it
  stores a received frame into the descriptors it owns and sends the frames of those it was given.  The
  ring of four reception descriptors is a bounded queue of frames, in the terms of the interface
  \<open>bounded_fifo\<close>; the ring of two transmission descriptors is one only while a descriptor is free.
\<close>

section \<open>The hardware\<close>

definition rx_running :: "eth_hw \<Rightarrow> bool" where
  "rx_running h \<longleftrightarrow> MACCR h AND 0x00000004 \<noteq> 0 \<and> DMAOMR h AND 0x00000002 \<noteq> 0"

definition mem_put :: "nat \<Rightarrow> u8 list \<Rightarrow> u8 list \<Rightarrow> u8 list" where
  "mem_put b q mem = take b mem @ q @ drop (b + length q) mem"

definition dma_store :: "u8 list \<Rightarrow> u32 \<Rightarrow> eth_hw \<Rightarrow> eth_hw" where
  "dma_store piece w h =
     (let d = DMARxDscrTab h ! rx_dma h
      in (upd_rxd (rx_dma h) (\<lambda>d. d\<lparr>Status := w\<rparr>) h)\<lparr>Rx_Buff := mem_put (Buffer1Addr d) piece (Rx_Buff h),
            rx_dma := Buffer2NextDescAddr d\<rparr>)"

text \<open>
  A frame goes into as many descriptors as it needs.  The first and the last are marked; the last one has
  the length and the summary of the errors.  Without a descriptor the rest is lost.
\<close>

definition piece_status :: "nat \<Rightarrow> bool \<Rightarrow> bool \<Rightarrow> bool \<Rightarrow> u32" where
  "piece_status flen es beg fin =
     (if beg then ETH_DMARxDesc_FS else 0) OR
     (if fin then ETH_DMARxDesc_LS OR (push_bit 16 (word_of_nat flen) AND ETH_DMARxDesc_FL) OR
        (if es then ETH_DMARxDesc_ES else 0) else 0)"

function dma_pieces :: "nat \<Rightarrow> bool \<Rightarrow> bool \<Rightarrow> u8 list \<Rightarrow> eth_hw \<Rightarrow> eth_hw" where
  "dma_pieces flen es beg bs h =
     (if Status (DMARxDscrTab h ! rx_dma h) AND ETH_DMARxDesc_OWN = 0
      then h\<lparr>DMASR := DMASR h OR 0x00008080\<rparr>
      else if length bs \<le> ETH_MAX_PACKET_SIZE
      then (dma_store bs (piece_status flen es beg True) h)\<lparr>DMASR := DMASR h OR 0x00010040\<rparr>
      else dma_pieces flen es False (drop ETH_MAX_PACKET_SIZE bs)
             (dma_store (take ETH_MAX_PACKET_SIZE bs) (piece_status flen es beg False) h))"
  by pat_completeness auto

termination
  by (relation "measure (\<lambda>(flen, es, first, bs, h). length bs)") (auto simp: ETH_MAX_PACKET_SIZE_def)

declare dma_pieces.simps [simp del]

definition dma_receive :: "bool \<Rightarrow> u8 list \<Rightarrow> eth_hw \<Rightarrow> eth_hw" where
  "dma_receive es bs h = (if rx_running h then dma_pieces (length bs) es True bs h else h)"

text \<open>The transmission sends the next frame it owns, and gives the descriptor back.\<close>

definition tx_bytes :: "nat \<Rightarrow> eth_hw \<Rightarrow> u8 list" where
  "tx_bytes i h =
     (let d = DMATxDscrTab h ! i
      in take (unat (ControlBufferSize d AND ETH_DMATxDesc_TBS1)) (drop (Buffer1Addr d) (Tx_Buff h)))"

definition dma_transmit :: "eth_hw \<Rightarrow> u8 list option \<times> eth_hw" where
  "dma_transmit h =
     (let i = tx_dma h; d = DMATxDscrTab h ! i
      in if Status d AND ETH_DMATxDesc_OWN = 0 then (None, h\<lparr>DMASR := DMASR h OR 0x00000004\<rparr>)
         else (Some (tx_bytes i h),
               (upd_txd i (\<lambda>d. d\<lparr>Status := Status d AND NOT ETH_DMATxDesc_OWN\<rparr>) h)\<lparr>tx_dma := Buffer2NextDescAddr d\<rparr>))"

section \<open>Buffers that do not overlap\<close>

lemma length_mem_put [simp]: "b + length q \<le> length mem \<Longrightarrow> length (mem_put b q mem) = length mem"
  by (simp add: mem_put_def)

lemma mem_put_same: "b + length q \<le> length mem \<Longrightarrow> take (length q) (drop b (mem_put b q mem)) = q"
  by (simp add: mem_put_def)

lemma mem_put_other:
  assumes "b + length q \<le> length mem" and "c + n \<le> b \<or> b + length q \<le> c"
  shows "take n (drop c (mem_put b q mem)) = take n (drop c mem)"
  using assms(2)
proof
  assume c: "c + n \<le> b"
  then have "take n (drop c (take b mem @ r)) = take n (drop c mem)" for r
    using assms(1) by (auto simp: drop_take min_def)
  then show ?thesis by (simp only: mem_put_def)
next
  assume c: "b + length q \<le> c"
  then have "drop c (mem_put b q mem) = drop c mem" using assms(1) by (simp add: mem_put_def min_absorb2)
  then show ?thesis by simp
qed

lemma copy_in_put: "copy_in b q mem = (if b + length q \<le> length mem then Ok (mem_put b q mem) else Fault OutOfBounds)"
  by (simp add: copy_in_def mem_put_def)

lemma mem_put_append:
  "b + length p + length q \<le> length mem \<Longrightarrow> mem_put (b + length p) q (mem_put b p mem) = mem_put b (p @ q) mem"
  by (cases p) (auto simp: mem_put_def min_def ac_simps)

lemma copy_packet_put:
  "b + l + length (concat p) \<le> length mem \<Longrightarrow> length acc = l \<Longrightarrow>
    copy_packet p b l (mem_put b acc mem) = Ok (l + length (concat p), mem_put b (acc @ concat p) mem)"
proof (induction p arbitrary: l acc)
  case (Cons q p)
  then have "copy_in (b + l) q (mem_put b acc mem) = Ok (mem_put b (acc @ q) mem)"
    by (auto simp: copy_in_put mem_put_append)
  then show ?case using Cons.IH[of "l + length q" "acc @ q"] Cons.prems by simp
qed simp

section \<open>The reception ring\<close>

text \<open>The descriptor \<open>k\<close> places behind the one to read next, and how many hold something.\<close>

definition rx_at :: "nat \<Rightarrow> eth_hw \<Rightarrow> eth_desc" where
  "rx_at k h = DMARxDscrTab h ! ((DMARxDescToGet h + k) mod 4)"

definition rx_pending :: "eth_hw \<Rightarrow> nat" where
  "rx_pending h = length (takeWhile (\<lambda>k. Status (rx_at k h) AND ETH_DMARxDesc_OWN = 0) [0..<4])"

definition rx_good :: "eth_desc \<Rightarrow> bool" where
  "rx_good d \<longleftrightarrow> Status d AND ETH_DMARxDesc_ES = 0 \<and> Status d AND ETH_DMARxDesc_LS \<noteq> 0 \<and> Status d AND ETH_DMARxDesc_FS \<noteq> 0"

definition rx_bytes :: "eth_desc \<Rightarrow> eth_hw \<Rightarrow> u8 list" where
  "rx_bytes d h = take (unat (ETH_GetDMARxDescFrameLength d)) (drop (Buffer1Addr d) (Rx_Buff h))"

definition rx_chain :: "eth_hw \<Rightarrow> bool" where
  "rx_chain h \<longleftrightarrow> length (DMARxDscrTab h) = 4 \<and> length (Rx_Buff h) = 6080 \<and> DMARxDescToGet h < 4 \<and>
     (\<forall>i < 4. Buffer2NextDescAddr (DMARxDscrTab h ! i) = (i + 1) mod 4 \<and> Buffer1Addr (DMARxDscrTab h ! i) = i * 1520)"

text \<open>The stack gives a chain with as many bytes as it was asked for.\<close>

definition pbufs_exact :: "eth_hw \<Rightarrow> bool" where
  "pbufs_exact h \<longleftrightarrow> (\<forall>k len ns. pbuf_chain h k len = Some ns \<longrightarrow> sum_list ns = unat len)"

definition rx_wf :: "eth_hw \<Rightarrow> bool" where
  "rx_wf h \<longleftrightarrow> rx_chain h \<and> rx_running h \<and> pbufs_exact h \<and>
     (\<forall>k < rx_pending h. rx_good (rx_at k h) \<and> ETH_GetDMARxDescFrameLength (rx_at k h) \<in> {5..1520}) \<and>
     (\<forall>k. rx_pending h \<le> k \<and> k < 4 \<longrightarrow> Status (rx_at k h) AND ETH_DMARxDesc_OWN \<noteq> 0) \<and>
     rx_dma h = (DMARxDescToGet h + rx_pending h) mod 4"

text \<open>A frame with its checksum of four bytes that goes into one buffer.\<close>

typedef wire_frame = "{bs :: u8 list. 4 < length bs \<and> length bs \<le> 1520}"
  by (rule exI[of _ "replicate 64 0"]) simp

definition rx_frames :: "eth_hw \<Rightarrow> wire_frame list" where
  "rx_frames h = map (\<lambda>k. Abs_wire_frame (rx_bytes (rx_at k h) h)) [0..<rx_pending h]"

lemma rx_pendingI:
  assumes "n \<le> 4" and "\<forall>k < n. Status (rx_at k h) AND ETH_DMARxDesc_OWN = 0"
    and "n < 4 \<Longrightarrow> Status (rx_at n h) AND ETH_DMARxDesc_OWN \<noteq> 0"
  shows "rx_pending h = n"
proof -
  let ?P = "\<lambda>k. Status (rx_at k h) AND ETH_DMARxDesc_OWN = 0"
  have "[0..<4] = [0..<n] @ [n..<4]" using assms(1) upt_add_eq_append[of 0 n "4 - n"] by simp
  moreover have "takeWhile ?P ([0..<n] @ [n..<4]) = [0..<n] @ takeWhile ?P [n..<4]"
    by (rule takeWhile_append2) (use assms(2) in simp)
  moreover have "takeWhile ?P [n..<4] = []"
    using assms(1,3) by (cases "n < 4") (simp_all add: upt_conv_Cons)
  ultimately show ?thesis by (simp add: rx_pending_def)
qed

lemma rx_pending_le: "rx_pending h \<le> 4"
  unfolding rx_pending_def using length_takeWhile_le[of _ "[0..<4]"] by (metis diff_zero length_upt)

lemma rx_pendingD: "k < rx_pending h \<Longrightarrow> Status (rx_at k h) AND ETH_DMARxDesc_OWN = 0"
proof -
  assume k: "k < rx_pending h"
  let ?P = "\<lambda>k. Status (rx_at k h) AND ETH_DMARxDesc_OWN = 0"
  have "takeWhile ?P [0..<4] ! k = k"
    using k rx_pending_le[of h] takeWhile_nth[of k ?P "[0..<4]"] by (simp add: rx_pending_def)
  then show ?thesis using nth_mem[of k "takeWhile ?P [0..<4]"] k set_takeWhileD[of k ?P "[0..<4]"]
    by (simp add: rx_pending_def)
qed

lemma rx_frame_in: "k < rx_pending h \<Longrightarrow> rx_wf h \<Longrightarrow> rx_bytes (rx_at k h) h \<in> {bs. 4 < length bs \<and> length bs \<le> 1520}"
proof -
  assume k: "k < rx_pending h" and wf: "rx_wf h"
  let ?i = "(DMARxDescToGet h + k) mod 4"
  have "?i < 4" by simp
  then have "Buffer1Addr (rx_at k h) = ?i * 1520" "length (Rx_Buff h) = 6080"
    using wf unfolding rx_wf_def rx_chain_def rx_at_def by blast+
  moreover have "?i * 1520 + 1520 \<le> 6080" using \<open>?i < 4\<close> by simp
  moreover have "ETH_GetDMARxDescFrameLength (rx_at k h) \<in> {5..1520}" using wf k by (simp add: rx_wf_def)
  then have "5 \<le> unat (ETH_GetDMARxDescFrameLength (rx_at k h))" "unat (ETH_GetDMARxDescFrameLength (rx_at k h)) \<le> 1520"
    by (simp_all add: word_le_nat_alt)
  ultimately show ?thesis by (simp add: rx_bytes_def)
qed

section \<open>Storing a frame\<close>

lemma frame_length_field:
  fixes w :: u32
  assumes "w \<le> 1520"
  shows "drop_bit 16 ((x OR (push_bit 16 w AND ETH_DMARxDesc_FL)) AND ETH_DMARxDesc_FL) = drop_bit 16 (x AND ETH_DMARxDesc_FL) OR w"
proof -
  have "take_bit 14 w = w"
  proof -
    have "unat (take_bit 14 w) = unat w" using assms by (simp add: word_le_nat_alt unsigned_take_bit_eq take_bit_nat_eq_self_iff)
    then show ?thesis by (rule word_unat_eq_iff[THEN iffD2])
  qed
  then have le: "bit w k \<Longrightarrow> k < 14" for k by (metis bit_take_bit_iff)
  have m: "(0x3FFF0000 :: u32) = push_bit 16 (mask 14)" by (simp add: push_bit_eq_mult mask_eq_exp_minus_1)
  show ?thesis unfolding m
    by (rule bit_eqI) (auto simp: bit_simps dest: le)
qed

lemma good_status:
  assumes "length bs \<le> 1520"
  defines "w \<equiv> piece_status (length bs) False True True"
  shows "w AND ETH_DMARxDesc_OWN = 0" "w AND ETH_DMARxDesc_ES = 0" "w AND ETH_DMARxDesc_LS \<noteq> 0" "w AND ETH_DMARxDesc_FS \<noteq> 0"
    "drop_bit 16 (w AND ETH_DMARxDesc_FL) = word_of_nat (length bs)"
proof -
  have w: "w = 0x300 OR (push_bit 16 (word_of_nat (length bs)) AND ETH_DMARxDesc_FL)"
    by (simp add: w_def piece_status_def or.assoc[symmetric])
  have f: "(x AND ETH_DMARxDesc_FL) AND y = x AND (ETH_DMARxDesc_FL AND y)" for x y :: u32 by (rule and.assoc)
  show "w AND ETH_DMARxDesc_OWN = 0" "w AND ETH_DMARxDesc_ES = 0" "w AND ETH_DMARxDesc_LS \<noteq> 0" "w AND ETH_DMARxDesc_FS \<noteq> 0"
    unfolding w bit.conj_disj_distrib2 f by simp_all
  have "(word_of_nat (length bs) :: u32) \<le> 1520"
    using assms(1) by (simp add: word_le_nat_alt unsigned_of_nat le_trans[OF take_bit_nat_less_eq_self])
  then show "drop_bit 16 (w AND ETH_DMARxDesc_FL) = word_of_nat (length bs)"
    by (simp only: w frame_length_field) simp
qed

lemma ring_inj:
  fixes g k j m :: nat
  assumes "k < m" "j < m"
  shows "(g + k) mod m = (g + j) mod m \<longleftrightarrow> k = j"
  using mod_eq_dvd_iff_nat[of "g + k" "g + j" m] mod_eq_dvd_iff_nat[of "g + j" "g + k" m] assms
  by (cases "k \<le> j") (auto dest: dvd_imp_le)

lemma mod4_next: "((g + k) mod 4 + 1) mod 4 = (g + Suc k) mod (4 :: nat)"
  by presburger

text \<open>The parts of a well formed ring.\<close>

lemma rx_wfD:
  assumes "rx_wf h"
  shows "length (DMARxDscrTab h) = 4" "length (Rx_Buff h) = 6080" "DMARxDescToGet h < 4" "rx_running h" "pbufs_exact h"
    "rx_dma h = (DMARxDescToGet h + rx_pending h) mod 4"
    "Buffer2NextDescAddr (rx_at k h) = (DMARxDescToGet h + Suc k) mod 4"
    "Buffer1Addr (rx_at k h) = (DMARxDescToGet h + k) mod 4 * 1520"
    "k < rx_pending h \<Longrightarrow> rx_good (rx_at k h)"
    "k < rx_pending h \<Longrightarrow> ETH_GetDMARxDescFrameLength (rx_at k h) \<in> {5..1520}"
    "rx_pending h \<le> k \<Longrightarrow> k < 4 \<Longrightarrow> Status (rx_at k h) AND ETH_DMARxDesc_OWN \<noteq> 0"
  using assms mod4_next[of "DMARxDescToGet h" k] by (simp_all add: rx_wf_def rx_chain_def rx_at_def)

lemma rx_chain_same:
  assumes "rx_chain h" and "length (DMARxDscrTab t) = 4" and "length (Rx_Buff t) = 6080" and "DMARxDescToGet t < 4"
    and "\<And>i. i < 4 \<Longrightarrow> Buffer2NextDescAddr (DMARxDscrTab t ! i) = Buffer2NextDescAddr (DMARxDscrTab h ! i)"
    and "\<And>i. i < 4 \<Longrightarrow> Buffer1Addr (DMARxDscrTab t ! i) = Buffer1Addr (DMARxDscrTab h ! i)"
  shows "rx_chain t"
  using assms by (simp add: rx_chain_def)

lemma buffers_apart:
  fixes i j :: nat
  assumes "i \<noteq> j" and "n \<le> 1520" and "m \<le> 1520"
  shows "i * 1520 + n \<le> j * 1520 \<or> j * 1520 + m \<le> i * 1520"
  using assms by (cases "i < j") auto

lemma receive_stored:
  assumes wf: "rx_wf h" and bs: "4 < length bs" "length bs \<le> 1520" and room: "rx_pending h < 4"
  defines "t \<equiv> dma_receive False bs h"
  shows "rx_wf t" "rx_pending t = Suc (rx_pending h)" "rx_bytes (rx_at (rx_pending h) t) t = bs"
    "k < rx_pending h \<Longrightarrow> rx_bytes (rx_at k t) t = rx_bytes (rx_at k h) h"
proof -
  let ?n = "rx_pending h" and ?g = "DMARxDescToGet h"
  let ?w = "piece_status (length bs) False True True"
  note w = rx_wfD[OF wf]
  have dma: "DMARxDscrTab h ! rx_dma h = rx_at ?n h" by (simp add: w(6) rx_at_def)
  have i: "rx_dma h < 4" by (simp add: w(6))
  have t: "t = (dma_store bs ?w h)\<lparr>DMASR := DMASR h OR 0x00010040\<rparr>"
    using w(4) w(11)[of ?n] room bs(2)
    by (simp add: t_def dma_receive_def dma_pieces.simps dma ETH_MAX_PACKET_SIZE_def)
  have sel: "DMARxDescToGet t = ?g" "DMARxDscrTab t = (DMARxDscrTab h)[rx_dma h := (rx_at ?n h)\<lparr>Status := ?w\<rparr>]"
    "Rx_Buff t = mem_put (rx_dma h * 1520) bs (Rx_Buff h)" "rx_dma t = (?g + Suc ?n) mod 4" "rx_running t" "pbufs_exact t"
    using w(4,5) w(7)[of ?n] w(8)[of ?n]
    by (simp_all add: t dma_store_def Let_def upd_rxd_def dma rx_running_def pbufs_exact_def)
      (simp_all add: w(6))
  have at: "rx_at k t = (if k = ?n then (rx_at ?n h)\<lparr>Status := ?w\<rparr> else rx_at k h)" if "k < 4" for k
    using ring_inj[OF that room, of ?g] i w(1) by (auto simp: rx_at_def sel w(6) nth_list_update_if)
  note good = good_status[OF bs(2)]
  show pend: "rx_pending t = Suc ?n"
  proof (rule rx_pendingI)
    show "\<forall>k < Suc ?n. Status (rx_at k t) AND ETH_DMARxDesc_OWN = 0"
      using room at good(1) rx_pendingD[of _ h] by (auto simp: less_Suc_eq)
    show "Status (rx_at (Suc ?n) t) AND ETH_DMARxDesc_OWN \<noteq> 0" if "Suc ?n < 4"
      using at[OF that] w(11)[of "Suc ?n"] that by simp
  qed (use room in simp)
  have len: "rx_dma h * 1520 + length bs \<le> length (Rx_Buff h)" using i bs(2) w(2) by linarith
  have "ETH_GetDMARxDescFrameLength ((rx_at ?n h)\<lparr>Status := ?w\<rparr>) = word_of_nat (length bs)"
    using good(5) by (simp add: ETH_GetDMARxDescFrameLength_def)
  moreover have u: "unat (word_of_nat (length bs) :: u32) = length bs"
    using bs(2) by (simp add: unsigned_of_nat take_bit_nat_eq_self_iff)
  ultimately show "rx_bytes (rx_at ?n t) t = bs"
    using at[OF room] w(8)[of ?n] mem_put_same[OF len] by (simp add: rx_bytes_def sel w(6))
  have fl: "ETH_GetDMARxDescFrameLength (rx_at k t) \<in> {5..1520}" "rx_good (rx_at k t)" if "k < Suc ?n" for k
  proof -
    have "(5 :: u32) \<le> word_of_nat (length bs)" "(word_of_nat (length bs) :: u32) \<le> 1520"
      using bs u by (simp_all add: word_le_nat_alt)
    then show "ETH_GetDMARxDescFrameLength (rx_at k t) \<in> {5..1520}" "rx_good (rx_at k t)"
      using that room at[of k] w(9,10)[of k] good
      by (auto simp: less_Suc_eq rx_good_def ETH_GetDMARxDescFrameLength_def split: if_splits)
  qed
  show "rx_bytes (rx_at k t) t = rx_bytes (rx_at k h) h" if "k < ?n"
  proof -
    have a: "rx_at k t = rx_at k h" using at[of k] that room by simp
    have "(?g + k) mod 4 \<noteq> rx_dma h" using ring_inj[of k 4 ?n ?g] that room by (simp add: w(6))
    moreover have "unat (ETH_GetDMARxDescFrameLength (rx_at k h)) \<le> 1520" using w(10)[OF that] by (simp add: word_le_nat_alt)
    ultimately show ?thesis
      using buffers_apart[of "(?g + k) mod 4" "rx_dma h" _ "length bs"] bs(2)
      by (simp add: rx_bytes_def a sel w(8) mem_put_other[OF len])
  qed
  have tab: "DMARxDscrTab t = (DMARxDscrTab h)[rx_dma h := (DMARxDscrTab h ! rx_dma h)\<lparr>Status := ?w\<rparr>]" using sel(2) dma by simp
  have "rx_chain t"
    by (rule rx_chain_same[of h]) (use wf w(1-3) i len in \<open>auto simp: rx_wf_def sel(1,3) tab nth_list_update_if\<close>)
  moreover have "Status (rx_at k t) AND ETH_DMARxDesc_OWN \<noteq> 0" if "Suc ?n \<le> k" "k < 4" for k
    using at[OF that(2)] w(11)[of k] that by simp
  ultimately show "rx_wf t" using sel fl pend by (simp add: rx_wf_def)
qed

text \<open>What does not touch the ring leaves it as it was.\<close>

lemma rx_same:
  assumes "DMARxDscrTab t = DMARxDscrTab h" and "Rx_Buff t = Rx_Buff h" and "DMARxDescToGet t = DMARxDescToGet h"
    and "rx_dma t = rx_dma h" and "MACCR t = MACCR h" and "DMAOMR t = DMAOMR h" and "pbuf_chain t = pbuf_chain h"
  shows "rx_wf t = rx_wf h" "rx_pending t = rx_pending h" "rx_frames t = rx_frames h" "rx_at k t = rx_at k h"
proof -
  show at: "rx_at k t = rx_at k h" for k by (simp add: rx_at_def assms)
  show pend: "rx_pending t = rx_pending h" by (simp add: rx_pending_def at)
  show "rx_frames t = rx_frames h" by (simp add: rx_frames_def at pend rx_bytes_def assms)
  show "rx_wf t = rx_wf h" by (simp add: rx_wf_def rx_chain_def rx_running_def pbufs_exact_def at pend assms)
qed

lemma receive_full:
  assumes "rx_wf h" and "rx_pending h = 4"
  shows "dma_receive False bs h = h\<lparr>DMASR := DMASR h OR 0x00008080\<rparr>"
proof -
  have "DMARxDscrTab h ! rx_dma h = rx_at 0 h" using rx_wfD(3,6)[OF assms(1)] assms(2) by (simp add: rx_at_def)
  then show ?thesis
    using rx_wfD(4)[OF assms(1)] rx_pendingD[of 0 h] assms(2) by (simp add: dma_receive_def dma_pieces.simps)
qed

section \<open>Taking a frame\<close>

fun chop :: "nat list \<Rightarrow> 'a list \<Rightarrow> 'a list list" where
  "chop [] bs = []"
| "chop (n # ns) bs = take n bs # chop ns (drop n bs)"

lemma concat_chop: "concat (chop ns bs) = take (sum_list ns) bs"
  by (induction ns arbitrary: bs) (simp_all add: take_add)

lemma chop_take: "sum_list ns \<le> m \<Longrightarrow> chop ns (take m bs) = chop ns bs"
  by (induction ns arbitrary: m bs) (simp_all add: drop_take)

lemma copy_chain_chop:
  "b + l + sum_list ns \<le> length mem \<Longrightarrow> copy_chain ns l (Some b) mem = Ok (chop ns (drop (b + l) mem))"
  by (induction ns arbitrary: l) (simp_all add: copy_out_def ac_simps)

lemma clear_RBUS_sel [simp]:
  "DMARxDscrTab (clear_RBUS h) = DMARxDscrTab h" "Rx_Buff (clear_RBUS h) = Rx_Buff h"
  "DMARxDescToGet (clear_RBUS h) = DMARxDescToGet h" "rx_dma (clear_RBUS h) = rx_dma h" "MACCR (clear_RBUS h) = MACCR h"
  "DMAOMR (clear_RBUS h) = DMAOMR h" "pbuf_chain (clear_RBUS h) = pbuf_chain h" "pbuf_chains (clear_RBUS h) = pbuf_chains h"
  by (simp_all add: clear_RBUS_def write_DMASR_def)

text \<open>The next frame without its checksum, in the links the stack gives for it.\<close>

definition rx_answer :: "nat \<Rightarrow> eth_hw \<Rightarrow> wire_frame \<Rightarrow> u8 list list option" where
  "rx_answer k h f = (let bs = Rep_wire_frame f; n = length bs - 4
     in map_option (\<lambda>ns. chop ns (take n bs)) (pbuf_chain h k (word_of_nat n)))"

definition rx_popped :: "eth_hw \<Rightarrow> eth_hw" where
  "rx_popped h = clear_RBUS (upd_rxd (DMARxDescToGet h) (\<lambda>x. x\<lparr>Status := ETH_DMARxDesc_OWN\<rparr>)
     (h\<lparr>DMARxDescToGet := (DMARxDescToGet h + 1) mod 4, pbuf_chains := pbuf_chains h + 1\<rparr>))"

lemma rx_length:
  assumes "rx_wf h" and "k < rx_pending h"
  shows "unat (ETH_GetDMARxDescFrameLength (rx_at k h)) = length (rx_bytes (rx_at k h) h)"
    "4 < length (rx_bytes (rx_at k h) h)" "length (rx_bytes (rx_at k h) h) \<le> 1520"
  using rx_frame_in[OF assms(2,1)] rx_wfD(10)[OF assms]
proof -
  have "(DMARxDescToGet h + k) mod 4 < 4" by simp
  then have "(DMARxDescToGet h + k) mod 4 * 1520 + 1520 \<le> 6080" by linarith
  moreover have "unat (ETH_GetDMARxDescFrameLength (rx_at k h)) \<le> 1520" using rx_wfD(10)[OF assms] by (simp add: word_le_nat_alt)
  ultimately show "unat (ETH_GetDMARxDescFrameLength (rx_at k h)) = length (rx_bytes (rx_at k h) h)"
    using rx_wfD(2,8)[OF assms(1)] by (simp add: rx_bytes_def)
qed simp_all

lemma input_pops:
  assumes wf: "rx_wf h" and some: "0 < rx_pending h"
  shows "low_level_input h = Ok (rx_answer (pbuf_chains h) h (Abs_wire_frame (rx_bytes (rx_at 0 h) h)), rx_popped h)"
proof -
  let ?d = "rx_at 0 h" and ?fl = "ETH_GetDMARxDescFrameLength (rx_at 0 h)"
  let ?bs = "rx_bytes ?d h"
  note w = rx_wfD[OF wf] and l = rx_length[OF wf some]
  have d: "DMARxDscrTab h ! DMARxDescToGet h = ?d" using w(3) by (simp add: rx_at_def)
  have rep: "Rep_wire_frame (Abs_wire_frame ?bs) = ?bs" by (rule Abs_wire_frame_inverse[OF rx_frame_in[OF some wf]])
  have u: "unat (?fl - 4) = length ?bs - 4" using l by (simp add: unat_sub word_le_nat_alt)
  then have len: "ucast (?fl - 4) = (word_of_nat (length ?bs - 4) :: u16)"
    by (metis of_nat_unat u)
  have rx: "ETH_RxPkt_ChainMode h =
      (\<lparr>frame_length = ?fl - 4, frame_buffer = Some (Buffer1Addr ?d), frame_descriptor = Some (DMARxDescToGet h)\<rparr>,
       h\<lparr>DMARxDescToGet := (DMARxDescToGet h + 1) mod 4\<rparr>)"
    using w(9)[OF some] rx_pendingD[OF some] w(7)[of 0]
    by (simp add: ETH_RxPkt_ChainMode_def d rx_good_def Let_def ETH_GetDMARxDescFrameLength_def)
  have copy: "copy_chain ns 0 (Some (Buffer1Addr ?d)) (Rx_Buff h) = Ok (chop ns (take (length ?bs - 4) ?bs))"
    if "pbuf_chain h (pbuf_chains h) (word_of_nat (length ?bs - 4)) = Some ns" for ns
  proof -
    have "sum_list ns = unat (word_of_nat (length ?bs - 4) :: u16)" using w(5) that by (simp add: pbufs_exact_def)
    then have sum: "sum_list ns = length ?bs - 4" using l(3) by (simp add: unsigned_of_nat take_bit_nat_eq_self_iff)
    have "?bs = take (length ?bs) (drop (Buffer1Addr ?d) (Rx_Buff h))" using l(1) by (simp add: rx_bytes_def)
    then have "chop ns (take (length ?bs - 4) ?bs) = chop ns (take (length ?bs) (drop (Buffer1Addr ?d) (Rx_Buff h)))"
      using sum by (simp add: chop_take)
    also have "\<dots> = chop ns (drop (Buffer1Addr ?d) (Rx_Buff h))" using sum by (simp add: chop_take)
    finally show ?thesis
      using copy_chain_chop[of "Buffer1Addr ?d" 0 ns "Rx_Buff h"] sum l(3) w(2,3) w(8)[of 0] by simp
  qed
  show ?thesis
    unfolding low_level_input_def rx prod.case Let_def
    using copy by (simp add: len rx_answer_def rep rx_popped_def Let_def split: option.split)
qed

lemma rx_popped_ring:
  assumes wf: "rx_wf h" and some: "0 < rx_pending h"
  shows "rx_wf (rx_popped h)" "rx_pending (rx_popped h) = rx_pending h - 1"
    "k < rx_pending h - 1 \<Longrightarrow> rx_bytes (rx_at k (rx_popped h)) (rx_popped h) = rx_bytes (rx_at (Suc k) h) h"
proof -
  let ?t = "rx_popped h" and ?g = "DMARxDescToGet h"
  note w = rx_wfD[OF wf]
  have sel: "DMARxDscrTab ?t = (DMARxDscrTab h)[?g := (DMARxDscrTab h ! ?g)\<lparr>Status := ETH_DMARxDesc_OWN\<rparr>]"
    "Rx_Buff ?t = Rx_Buff h" "DMARxDescToGet ?t = (?g + 1) mod 4" "rx_dma ?t = rx_dma h" "rx_running ?t" "pbufs_exact ?t"
    using w(4,5) by (simp_all add: rx_popped_def upd_rxd_def rx_running_def pbufs_exact_def)
  have at: "rx_at k ?t = (if k = 3 then (DMARxDscrTab h ! ?g)\<lparr>Status := ETH_DMARxDesc_OWN\<rparr> else rx_at (Suc k) h)" if "k < 4" for k
  proof -
    have i: "((?g + 1) mod 4 + k) mod 4 = (?g + Suc k) mod 4" by (simp add: mod_add_left_eq)
    have a: "rx_at k ?t = (DMARxDscrTab h)[?g := (DMARxDscrTab h ! ?g)\<lparr>Status := ETH_DMARxDesc_OWN\<rparr>] ! ((?g + Suc k) mod 4)"
      by (simp only: rx_at_def sel i)
    have "(?g + Suc k) mod 4 = ?g \<longleftrightarrow> k = 3" using ring_inj[of "Suc k" 4 0 ?g] w(3) that by (cases "k = 3") auto
    then show ?thesis unfolding a by (cases "k = 3") (simp_all add: rx_at_def w(1,3))
  qed
  show pend: "rx_pending ?t = rx_pending h - 1"
  proof (rule rx_pendingI)
    show "rx_pending h - 1 \<le> 4" using rx_pending_le[of h] by simp
    show "\<forall>k < rx_pending h - 1. Status (rx_at k ?t) AND ETH_DMARxDesc_OWN = 0"
      using at rx_pendingD[of _ h] rx_pending_le[of h] by auto
    show "Status (rx_at (rx_pending h - 1) ?t) AND ETH_DMARxDesc_OWN \<noteq> 0" if "rx_pending h - 1 < 4"
      using at[OF that] w(11)[of "rx_pending h"] some rx_pending_le[of h] by (simp split: if_splits)
  qed
  have same: "rx_at k ?t = rx_at (Suc k) h" if "k < rx_pending h - 1" for k
    using at[of k] that rx_pending_le[of h] by auto
  then show "k < rx_pending h - 1 \<Longrightarrow> rx_bytes (rx_at k ?t) ?t = rx_bytes (rx_at (Suc k) h) h"
    by (simp add: rx_bytes_def sel)
  have "Status (rx_at k ?t) AND ETH_DMARxDesc_OWN \<noteq> 0" if "rx_pending h - 1 \<le> k" "k < 4" for k
    using at[OF that(2)] w(11)[of "Suc k"] that by simp
  moreover have "rx_dma ?t = (DMARxDescToGet ?t + rx_pending ?t) mod 4"
    using some by (cases "rx_pending h") (simp_all add: sel pend w(6) mod_add_left_eq)
  moreover have "rx_chain ?t"
    by (rule rx_chain_same[of h]) (use wf w(1-3) in \<open>auto simp: rx_wf_def sel nth_list_update_if\<close>)
  ultimately show "rx_wf ?t" using sel same pend w(9,10) by (simp add: rx_wf_def)
qed

lemma upt_Suc_shift: "0 < n \<Longrightarrow> map f [0..<n] = f 0 # map (\<lambda>k. f (Suc k)) [0..<n - 1]"
  by (cases n) (simp_all add: upt_conv_Cons map_Suc_upt[symmetric] comp_def del: upt_Suc map_Suc_upt)

lemma rx_popped_frames: "rx_wf h \<Longrightarrow> 0 < rx_pending h \<Longrightarrow> rx_frames (rx_popped h) = tl (rx_frames h)"
  by (simp add: rx_frames_def rx_popped_ring(2,3) upt_Suc_shift[of "rx_pending h"] cong: map_cong)

lemma rx_size:
  assumes "rx_wf h"
  shows "ETH_GetRxPktSize h \<noteq> 0 \<longleftrightarrow> 0 < rx_pending h"
proof -
  note w = rx_wfD[OF assms]
  have d: "DMARxDscrTab h ! DMARxDescToGet h = rx_at 0 h" using w(3) by (simp add: rx_at_def)
  show ?thesis
  proof (cases "0 < rx_pending h")
    case True
    have "ETH_GetDMARxDescFrameLength (rx_at 0 h) \<noteq> 0" using w(10)[OF True] by auto
    then show ?thesis using True w(9)[OF True] rx_pendingD[OF True]
      by (simp add: ETH_GetRxPktSize_def d rx_good_def Let_def)
  next
    case False
    then show ?thesis using w(11)[of 0] by (simp add: ETH_GetRxPktSize_def d Let_def)
  qed
qed

text \<open>The interface of the bounded queue: the hardware adds, the port takes.\<close>

definition rx_put :: "wire_frame \<Rightarrow> eth_hw \<Rightarrow> bool \<times> eth_hw" where
  "rx_put f h = (Status (DMARxDscrTab h ! rx_dma h) AND ETH_DMARxDesc_OWN \<noteq> 0, dma_receive False (Rep_wire_frame f) h)"

definition rx_front :: "eth_hw \<Rightarrow> wire_frame option" where
  "rx_front h = (if ETH_GetRxPktSize h = 0 then None
     else Some (Abs_wire_frame (rx_bytes (DMARxDscrTab h ! DMARxDescToGet h) h)))"

definition rx_take :: "eth_hw \<Rightarrow> eth_hw" where
  "rx_take h = (case low_level_input h of Inl e \<Rightarrow> h | Inr (p, h) \<Rightarrow> h)"

lemma length_rx_frames [simp]: "length (rx_frames h) = rx_pending h"
  by (simp add: rx_frames_def)

interpretation rx_ring: bounded_fifo rx_wf rx_frames 4 rx_put rx_front rx_take
proof
  fix h :: eth_hw and f :: wire_frame
  assume wf: "rx_wf h"
  have f: "4 < length (Rep_wire_frame f)" "length (Rep_wire_frame f) \<le> 1520" using Rep_wire_frame[of f] by simp_all
  note st = receive_stored[OF wf f] and w = rx_wfD[OF wf]
  have le: "rx_pending h \<le> 4" by (rule rx_pending_le)
  have dma: "DMARxDscrTab h ! rx_dma h = rx_at (rx_pending h) h" by (simp add: w(6) rx_at_def)
  have full: "rx_wf (dma_receive False (Rep_wire_frame f) h) \<and> rx_frames (dma_receive False (Rep_wire_frame f) h) = rx_frames h"
    if "\<not> rx_pending h < 4"
  proof -
    have "dma_receive False (Rep_wire_frame f) h = h\<lparr>DMASR := DMASR h OR 0x00008080\<rparr>"
      by (rule receive_full[OF wf]) (use le that in simp)
    then show ?thesis using rx_same[of "h\<lparr>DMASR := DMASR h OR 0x00008080\<rparr>" h] wf by simp
  qed
  show "rx_wf (snd (rx_put f h))" using st(1) full by (cases "rx_pending h < 4") (simp_all add: rx_put_def)
  have "rx_pending h = 4 \<Longrightarrow> rx_at 4 h = rx_at 0 h" by (simp add: rx_at_def)
  then show "fst (rx_put f h) \<longleftrightarrow> length (rx_frames h) < 4"
    using le w(11)[of "rx_pending h"] rx_pendingD[of 0 h] by (cases "rx_pending h < 4") (auto simp: rx_put_def dma)
  show "rx_frames (snd (rx_put f h)) = (if length (rx_frames h) < 4 then rx_frames h @ [f] else rx_frames h)"
    using st(2-4) full
    by (cases "rx_pending h < 4") (simp_all add: rx_put_def rx_frames_def Rep_wire_frame_inverse cong: map_cong)
  have d: "DMARxDscrTab h ! DMARxDescToGet h = rx_at 0 h" using w(3) by (simp add: rx_at_def)
  show "rx_front h = (case rx_frames h of [] \<Rightarrow> None | m # ms \<Rightarrow> Some m)"
    using rx_size[OF wf] by (auto simp: rx_front_def rx_frames_def d upt_Suc_shift split: list.split)
  show "length (rx_frames h) \<le> 4" using le by simp
next
  fix h :: eth_hw
  assume wf: "rx_wf h" and "rx_frames h \<noteq> []"
  then have some: "0 < rx_pending h" by (auto simp: rx_frames_def)
  show "rx_wf (rx_take h)" "rx_frames (rx_take h) = tl (rx_frames h)"
    using input_pops[OF wf some] rx_popped_ring(1)[OF wf some] rx_popped_frames[OF wf some] by (simp_all add: rx_take_def)
qed

section \<open>A descriptor that is never given back\<close>

text \<open>The next descriptor holds a frame with an error, or a part of a frame.\<close>

definition rx_stuck :: "eth_hw \<Rightarrow> bool" where
  "rx_stuck h \<longleftrightarrow> (let d = DMARxDscrTab h ! DMARxDescToGet h in Status d AND ETH_DMARxDesc_OWN = 0 \<and> \<not> rx_good d)"

lemma stuck_size: "rx_stuck h \<Longrightarrow> ETH_GetRxPktSize h = 0"
  by (auto simp: rx_stuck_def ETH_GetRxPktSize_def rx_good_def Let_def)

lemma stuck_same: "DMARxDscrTab t = DMARxDscrTab h \<Longrightarrow> DMARxDescToGet t = DMARxDescToGet h \<Longrightarrow> rx_stuck t = rx_stuck h"
  by (simp add: rx_stuck_def)

text \<open>The hardware only writes descriptors it owns.\<close>

lemma pieces_keep:
  "Status (DMARxDscrTab h ! j) AND ETH_DMARxDesc_OWN = 0 \<Longrightarrow>
    DMARxDscrTab (dma_pieces flen es beg bs h) ! j = DMARxDscrTab h ! j \<and>
    DMARxDescToGet (dma_pieces flen es beg bs h) = DMARxDescToGet h"
proof (induction flen es beg bs h rule: dma_pieces.induct)
  case (1 flen es beg bs h)
  have st: "DMARxDscrTab (dma_store p w h) ! j = DMARxDscrTab h ! j \<and> DMARxDescToGet (dma_store p w h) = DMARxDescToGet h"
    if "Status (DMARxDscrTab h ! rx_dma h) AND ETH_DMARxDesc_OWN \<noteq> 0" for p w
    using that "1.prems" by (cases "j = rx_dma h") (auto simp: dma_store_def upd_rxd_def Let_def nth_list_update)
  show ?case
    using "1.IH" "1.prems" st by (subst (1 2) dma_pieces.simps) auto
qed

lemma stuck_receive: "rx_stuck h \<Longrightarrow> rx_stuck (dma_receive es bs h)"
  using pieces_keep[of h "DMARxDescToGet h" "length bs" es True bs] by (simp add: rx_stuck_def dma_receive_def Let_def)

lemma receive_sticks:
  assumes wf: "rx_wf h" and empty: "rx_frames h = []" and bad: "es \<or> 1520 < length bs"
  shows "rx_stuck (dma_receive es bs h)"
proof -
  let ?g = "DMARxDescToGet h"
  note w = rx_wfD[OF wf]
  have p: "rx_pending h = 0" using empty length_rx_frames[of h] by simp
  have dma: "rx_dma h = ?g" using w(3,6) p by simp
  have own: "Status (DMARxDscrTab h ! ?g) AND ETH_DMARxDesc_OWN \<noteq> 0" using w(3) w(11)[of 0] p by (simp add: rx_at_def)
  have head: "DMARxDscrTab (dma_store q x h) ! ?g = (DMARxDscrTab h ! ?g)\<lparr>Status := x\<rparr>"
    "DMARxDescToGet (dma_store q x h) = ?g" for q x
    using w(1,3) by (simp_all add: dma_store_def upd_rxd_def Let_def dma)
  show ?thesis
  proof (cases "length bs \<le> 1520")
    case True
    let ?x = "piece_status (length bs) es True True"
    have "?x = 0x8300 OR (push_bit 16 (word_of_nat (length bs)) AND ETH_DMARxDesc_FL)"
      using bad True by (simp add: piece_status_def ac_simps) (simp flip: or.assoc)
    then have "?x AND ETH_DMARxDesc_OWN = 0" "?x AND ETH_DMARxDesc_ES \<noteq> 0" by (simp_all add: bit.conj_disj_distrib2 and.assoc)
    then show ?thesis using w(4) own True
      by (simp add: dma_receive_def dma_pieces.simps dma ETH_MAX_PACKET_SIZE_def rx_stuck_def head rx_good_def)
  next
    case False
    let ?x = "piece_status (length bs) es True False"
    let ?u = "dma_store (take 1520 bs) ?x h"
    have x: "?x AND ETH_DMARxDesc_OWN = 0" "?x AND ETH_DMARxDesc_LS = 0" by (simp_all add: piece_status_def)
    have "dma_receive es bs h = dma_pieces (length bs) es False (drop 1520 bs) ?u"
      using w(4) own False by (simp add: dma_receive_def dma_pieces.simps[of _ _ True] dma ETH_MAX_PACKET_SIZE_def)
    moreover have "Status (DMARxDscrTab ?u ! ?g) AND ETH_DMARxDesc_OWN = 0" using x(1) by (simp add: head)
    note pieces_keep[OF this, of "length bs" es False "drop 1520 bs"]
    ultimately show ?thesis using x by (simp add: rx_stuck_def head rx_good_def)
  qed
qed

section \<open>The rings after the set up\<close>

lemma fold_upd_rxd:
  assumes "n \<le> length (DMARxDscrTab h)"
  shows "fold (\<lambda>i. upd_rxd i (f i)) [0..<n] h =
    h\<lparr>DMARxDscrTab := map (\<lambda>i. f i (DMARxDscrTab h ! i)) [0..<n] @ drop n (DMARxDscrTab h)\<rparr>"
  using assms
proof (induction n)
  case (Suc n)
  then have "drop n (DMARxDscrTab h) = DMARxDscrTab h ! n # drop (Suc n) (DMARxDscrTab h)" by (simp add: Cons_nth_drop_Suc)
  then show ?case using Suc by (simp add: upd_rxd_def list_update_append nth_append)
qed simp

lemma fold_upd_txd:
  assumes "n \<le> length (DMATxDscrTab h)"
  shows "fold (\<lambda>i. upd_txd i (f i)) [0..<n] h =
    h\<lparr>DMATxDscrTab := map (\<lambda>i. f i (DMATxDscrTab h ! i)) [0..<n] @ drop n (DMATxDscrTab h)\<rparr>"
  using assms
proof (induction n)
  case (Suc n)
  then have "drop n (DMATxDscrTab h) = DMATxDscrTab h ! n # drop (Suc n) (DMATxDscrTab h)" by (simp add: Cons_nth_drop_Suc)
  then show ?case using Suc by (simp add: upd_txd_def list_update_append nth_append)
qed simp

text \<open>What the set up needs of the loaded image, and the rings it leaves.\<close>

definition eth_loaded :: "eth_hw \<Rightarrow> bool" where
  "eth_loaded h \<longleftrightarrow> length (DMARxDscrTab h) = 4 \<and> length (DMATxDscrTab h) = 2 \<and> length (Rx_Buff h) = 6080 \<and>
     length (Tx_Buff h) = 3040 \<and> pbufs_exact h"

lemma low_level_init_sel:
  assumes "eth_loaded h"
  defines "t \<equiv> low_level_init h"
  shows "DMARxDscrTab t = map (\<lambda>i. (DMARxDscrTab h ! i)\<lparr>Status := ETH_DMARxDesc_OWN, ControlBufferSize := 0x45F0,
      Buffer1Addr := i * 1520, Buffer2NextDescAddr := (i + 1) mod 4\<rparr>) [0..<4]"
    "DMATxDscrTab t = map (\<lambda>i. (DMATxDscrTab h ! i)\<lparr>Status := 0x00D00000, Buffer1Addr := i * 1520,
      Buffer2NextDescAddr := (i + 1) mod 2\<rparr>) [0..<2]"
    "DMARxDescToGet t = 0" "DMATxDescToSet t = 0" "Rx_Buff t = Rx_Buff h" "Tx_Buff t = Tx_Buff h" "rx_dma t = 0"
    "tx_dma t = 0" "pbuf_chain t = pbuf_chain h" "MACCR t = MACCR h OR 0x0C" "rx_running t" "DMAIER t = DMAIER h"
    "MACA0HR t = MACA0HR h" "MACA0LR t = MACA0LR h" "if_hwaddr t = MACaddr h"
proof -
  have len: "length (DMARxDscrTab h) = 4" "length (DMATxDscrTab h) = 2" using assms(1) by (simp_all add: eth_loaded_def)
  note defs = t_def low_level_init_def ETH_DMATxDescChainInit_def ETH_DMARxDescChainInit_def ETH_DMARxDescReceiveITConfig_def
    ETH_DMATxDescChecksumInsertionConfig_def ETH_Start_def ETH_MACTransmissionCmd_def ETH_FlushTransmitFIFO_def
    ETH_MACReceptionCmd_def ETH_DMATransmissionCmd_def ETH_DMAReceptionCmd_def Let_def ETH_RXBUFNB_def ETH_TXBUFNB_def
    ETH_MAX_PACKET_SIZE_def fold_upd_rxd fold_upd_txd len
  have last: "x \<in> {0..<n} \<Longrightarrow> \<not> x < n - 1 \<Longrightarrow> Suc x = n" for x n :: nat by simp
  let ?rx = "map (\<lambda>i. (DMARxDscrTab h ! i)\<lparr>Status := ETH_DMARxDesc_OWN, ControlBufferSize := 0x45F0,
      Buffer1Addr := i * 1520, Buffer2NextDescAddr := (i + 1) mod 4\<rparr>) [0..<4]"
  let ?tx = "map (\<lambda>i. (DMATxDscrTab h ! i)\<lparr>Status := 0x00D00000, Buffer1Addr := i * 1520,
      Buffer2NextDescAddr := (i + 1) mod 2\<rparr>) [0..<2]"
  have t: "t = h\<lparr>if_hwaddr := MACaddr h, if_mtu := 1500, if_flags := 0x32, DMATxDscrTab := ?tx, DMATxDescToSet := 0,
      DMATDLAR := 0, tx_dma := 0, DMARxDscrTab := ?rx, DMARxDescToGet := 0, DMARDLAR := 0, rx_dma := 0, MACCR := (MACCR h OR 0x08) OR 0x04,
      DMAOMR := ((DMAOMR h OR 0x00100000) OR 0x2000) OR 0x02\<rparr>"
    by (simp add: defs del: upt_rec_numeral)
      (rule eth_hw.equality; (simp; fail | (simp del: upt_rec_numeral, intro ballI impI, drule last, simp_all)))
  show "DMARxDscrTab t = ?rx" "DMATxDscrTab t = ?tx" unfolding t by simp_all
  show "DMARxDescToGet t = 0" "DMATxDescToSet t = 0" "Rx_Buff t = Rx_Buff h" "Tx_Buff t = Tx_Buff h" "rx_dma t = 0"
    "tx_dma t = 0" "pbuf_chain t = pbuf_chain h" "DMAIER t = DMAIER h" "MACA0HR t = MACA0HR h" "MACA0LR t = MACA0LR h"
    "if_hwaddr t = MACaddr h"
    unfolding t by simp_all
  show "MACCR t = MACCR h OR 0x0C" unfolding t by (simp add: or.assoc)
  show "rx_running t" unfolding t by (simp add: rx_running_def bit.conj_disj_distrib2 or.assoc)
qed

lemma rx_set_up:
  assumes "eth_loaded h"
  shows "rx_wf (low_level_init h)" "rx_frames (low_level_init h) = []"
proof -
  let ?t = "low_level_init h"
  note t = low_level_init_sel[OF assms]
  have at: "Status (rx_at k ?t) = ETH_DMARxDesc_OWN" for k by (simp add: rx_at_def t(1) del: upt_rec_numeral)
  have p: "rx_pending ?t = 0" by (rule rx_pendingI) (simp_all add: at)
  then show "rx_frames ?t = []" by (simp add: rx_frames_def)
  have "rx_chain ?t" using assms by (simp add: rx_chain_def t eth_loaded_def del: upt_rec_numeral)
  moreover have "pbufs_exact ?t" "rx_dma ?t = 0" using assms by (simp_all add: eth_loaded_def pbufs_exact_def t)
  ultimately show "rx_wf ?t" using p t(3,11) at by (simp add: rx_wf_def)
qed

end
