(* ===== verification/Eth_Send.thy ===== *)
theory Eth_Send
  imports Eth_Ring Eth_Setup
begin

text \<open>
  Sending: the port copies a packet into the buffer of the next transmission descriptor and hands it
  over.  While a descriptor is free the two descriptors are a queue of frames; when none is, the
  copy goes into the buffer of a frame that still waits.
\<close>

section \<open>The frames that wait\<close>

definition tx_at :: "nat \<Rightarrow> eth_hw \<Rightarrow> eth_desc" where
  "tx_at k h = DMATxDscrTab h ! ((tx_dma h + k) mod 2)"

definition tx_pending :: "eth_hw \<Rightarrow> nat" where
  "tx_pending h = (if Status (tx_at 0 h) AND ETH_DMATxDesc_OWN = 0 then 0
     else if Status (tx_at 1 h) AND ETH_DMATxDesc_OWN = 0 then 1 else 2)"

definition tx_chain :: "eth_hw \<Rightarrow> bool" where
  "tx_chain h \<longleftrightarrow> length (DMATxDscrTab h) = 2 \<and> length (Tx_Buff h) = 3040 \<and> tx_dma h < 2 \<and>
     (\<forall>i < 2. Buffer2NextDescAddr (DMATxDscrTab h ! i) = (i + 1) mod 2 \<and> Buffer1Addr (DMATxDscrTab h ! i) = i * 1520)"

definition tx_size :: "eth_desc \<Rightarrow> nat" where
  "tx_size d = unat (ControlBufferSize d AND ETH_DMATxDesc_TBS1)"

definition tx_wf :: "eth_hw \<Rightarrow> bool" where
  "tx_wf h \<longleftrightarrow> tx_chain h \<and> DMATxDescToSet h = (tx_dma h + tx_pending h) mod 2 \<and>
     (tx_pending h = 0 \<longrightarrow> Status (tx_at 1 h) AND ETH_DMATxDesc_OWN = 0) \<and>
     (\<forall>k < tx_pending h. tx_size (tx_at k h) \<le> 1520)"

definition tx_queue :: "eth_hw \<Rightarrow> u8 list list" where
  "tx_queue h = map (\<lambda>k. tx_bytes ((tx_dma h + k) mod 2) h) [0..<tx_pending h]"

lemma length_tx_queue [simp]: "length (tx_queue h) = tx_pending h"
  by (simp add: tx_queue_def)

lemma tx_pending_le: "tx_pending h \<le> 2"
  by (simp add: tx_pending_def)

lemma tx_cases:
  assumes "tx_wf h"
  obtains (none) "tx_pending h = 0" "Status (tx_at 0 h) AND ETH_DMATxDesc_OWN = 0" "Status (tx_at 1 h) AND ETH_DMATxDesc_OWN = 0"
  | (one) "tx_pending h = 1" "Status (tx_at 0 h) AND ETH_DMATxDesc_OWN \<noteq> 0" "Status (tx_at 1 h) AND ETH_DMATxDesc_OWN = 0"
  | (two) "tx_pending h = 2" "Status (tx_at 0 h) AND ETH_DMATxDesc_OWN \<noteq> 0" "Status (tx_at 1 h) AND ETH_DMATxDesc_OWN \<noteq> 0"
proof -
  have z: "tx_pending h = 0 \<Longrightarrow> Status (tx_at 1 h) AND ETH_DMATxDesc_OWN = 0" using assms by (simp only: tx_wf_def)
  show thesis
  proof (cases "Status (tx_at 0 h) AND ETH_DMATxDesc_OWN = 0")
    case True
    then show ?thesis using none z by (simp add: tx_pending_def)
  next
    case False
    then show ?thesis using one two by (cases "Status (tx_at 1 h) AND ETH_DMATxDesc_OWN = 0") (simp_all add: tx_pending_def)
  qed
qed

lemma tx_pendingI:
  assumes "n \<le> 2" and "\<And>k. k < n \<Longrightarrow> Status (tx_at k h) AND ETH_DMATxDesc_OWN \<noteq> 0"
    and "n < 2 \<Longrightarrow> Status (tx_at n h) AND ETH_DMATxDesc_OWN = 0"
  shows "tx_pending h = n"
proof -
  consider "n = 0" | "n = 1" | "n = 2" using assms(1) by linarith
  then show ?thesis
  proof cases
    case 1
    then show ?thesis using assms(3) by (simp add: tx_pending_def)
  next
    case 2
    then show ?thesis using assms(2)[of 0] assms(3) by (simp add: tx_pending_def)
  next
    case 3
    then show ?thesis using assms(2)[of 0] assms(2)[of 1] by (simp add: tx_pending_def)
  qed
qed

lemma tx_owned:
  assumes "tx_wf h" and "k < 2"
  shows "Status (tx_at k h) AND ETH_DMATxDesc_OWN = 0 \<longleftrightarrow> tx_pending h \<le> k"
proof -
  have k: "k = 0 \<or> k = 1" using assms(2) by auto
  show ?thesis using assms(1)
  proof (cases rule: tx_cases)
    case none
    then show ?thesis using k by auto
  next
    case one
    then show ?thesis using k by auto
  next
    case two
    then show ?thesis using k by auto
  qed
qed

text \<open>The two states of the pointer of the hardware.\<close>

lemma tx_parts:
  assumes "tx_wf h"
  shows "length (DMATxDscrTab h) = 2" "length (Tx_Buff h) = 3040" "tx_dma h = 0 \<or> tx_dma h = 1"
    "Buffer2NextDescAddr (DMATxDscrTab h ! 0) = 1" "Buffer1Addr (DMATxDscrTab h ! 0) = 0"
    "Buffer2NextDescAddr (DMATxDscrTab h ! 1) = 0" "Buffer1Addr (DMATxDscrTab h ! 1) = 1520"
    "DMATxDescToSet h = (tx_dma h + tx_pending h) mod 2"
    "k < tx_pending h \<Longrightarrow> tx_size (tx_at k h) \<le> 1520"
  using assms by (auto simp: tx_wf_def tx_chain_def)

section \<open>One packet\<close>

lemma output_copied:
  assumes "tx_wf h" and "length (concat p) \<le> 1520"
  shows "low_level_output p h = Ok (0, snd (ETH_TxPkt_ChainMode (word_of_nat (length (concat p)))
      (h\<lparr>Tx_Buff := mem_put (DMATxDescToSet h * 1520) (concat p) (Tx_Buff h)\<rparr>)))"
proof -
  note x = tx_parts[OF assms(1)]
  have i: "DMATxDescToSet h = 0 \<or> DMATxDescToSet h = 1" using x(8) by auto
  then have b: "ETH_GetCurrentTxBuffer h = DMATxDescToSet h * 1520" using x(5,7) by (auto simp: ETH_GetCurrentTxBuffer_def)
  have "copy_packet p (DMATxDescToSet h * 1520) 0 (mem_put (DMATxDescToSet h * 1520) [] (Tx_Buff h)) =
      Ok (length (concat p), mem_put (DMATxDescToSet h * 1520) (concat p) (Tx_Buff h))"
    using copy_packet_put[of "DMATxDescToSet h * 1520" 0 p "Tx_Buff h" "[]"] i x(2) assms(2) by auto
  moreover have "mem_put c [] mem = mem" for c and mem :: "u8 list" by (simp add: mem_put_def)
  ultimately show ?thesis by (simp add: low_level_output_def b split_beta)
qed

lemma tx_sized:
  assumes "n \<le> 1520"
  shows "unat ((ucast (word_of_nat n :: u16) AND ETH_DMATxDesc_TBS1) AND ETH_DMATxDesc_TBS1) = n"
proof -
  have m: "(ETH_DMATxDesc_TBS1 :: u32) = mask 13" by (simp add: mask_eq_exp_minus_1)
  have "unat (ucast (word_of_nat n :: u16) AND ETH_DMATxDesc_TBS1) = n"
    unfolding m using assms
    by (simp add: unsigned_take_bit_eq unsigned_of_nat take_bit_nat_eq_self_iff flip: take_bit_eq_mask)
  then show ?thesis by (simp add: and.assoc)
qed

text \<open>The descriptor a packet goes to, and what is left of the other one.\<close>

lemma handed_over:
  fixes len :: u16
  assumes "DMATxDescToSet h = i" and "i < 2" and "length (DMATxDscrTab h) = 2"
    and "Status (DMATxDscrTab h ! i) AND ETH_DMATxDesc_OWN = 0"
  defines "t \<equiv> snd (ETH_TxPkt_ChainMode len h)"
  shows "DMATxDscrTab t = (DMATxDscrTab h)[i := (DMATxDscrTab h ! i)\<lparr>ControlBufferSize := ucast len AND ETH_DMATxDesc_TBS1,
      Status := (Status (DMATxDscrTab h ! i) OR 0x30000000) OR ETH_DMATxDesc_OWN\<rparr>]"
    "Tx_Buff t = Tx_Buff h" "tx_dma t = tx_dma h" "DMATxDescToSet t = Buffer2NextDescAddr (DMATxDscrTab h ! i)"
  using assms by (simp_all add: ETH_TxPkt_ChainMode_def Let_def upd_txd_def write_DMASR_def)

lemma or_own: "(x OR ETH_DMATxDesc_OWN) AND ETH_DMATxDesc_OWN \<noteq> (0 :: u32)"
  by (simp add: bit.conj_disj_distrib2)

lemma output_room:
  assumes wf: "tx_wf h" and room: "tx_pending h < 2" and len: "length (concat p) \<le> 1520"
  shows "\<exists>t. low_level_output p h = Ok (0, t) \<and> tx_wf t \<and> tx_queue t = tx_queue h @ [concat p]"
proof -
  let ?n = "tx_pending h" and ?i = "DMATxDescToSet h" and ?bs = "concat p"
  let ?h = "h\<lparr>Tx_Buff := mem_put (?i * 1520) ?bs (Tx_Buff h)\<rparr>"
  define t where "t = snd (ETH_TxPkt_ChainMode (word_of_nat (length ?bs)) ?h)"
  note x = tx_parts[OF wf]
  have i: "?i < 2" "?i = (tx_dma h + ?n) mod 2" using x(8) by simp_all
  have free: "Status (DMATxDscrTab h ! ?i) AND ETH_DMATxDesc_OWN = 0"
    using tx_owned[OF wf room] by (simp add: tx_at_def x(8))
  let ?d = "(DMATxDscrTab h ! ?i)\<lparr>ControlBufferSize := ucast (word_of_nat (length ?bs) :: u16) AND ETH_DMATxDesc_TBS1,
      Status := (Status (DMATxDscrTab h ! ?i) OR 0x30000000) OR ETH_DMATxDesc_OWN\<rparr>"
  have t: "DMATxDscrTab t = (DMATxDscrTab h)[?i := ?d]" "Tx_Buff t = mem_put (?i * 1520) ?bs (Tx_Buff h)" "tx_dma t = tx_dma h"
    "DMATxDescToSet t = Buffer2NextDescAddr (DMATxDscrTab h ! ?i)"
    using handed_over[of ?h ?i] i(1) x(1) free by (simp_all add: t_def)
  have put: "?i * 1520 + length ?bs \<le> length (Tx_Buff h)" using i(1) x(2) len by linarith
  have at: "tx_at k t = (if k = ?n then ?d else tx_at k h)" if "k < 2" for k
  proof -
    have "(tx_dma h + k) mod 2 = ?i \<longleftrightarrow> k = ?n" unfolding i(2) by (rule ring_inj[OF that room])
    then show ?thesis using i(1) x(1) by (cases "k = ?n") (simp_all add: tx_at_def t)
  qed
  have own: "Status ?d AND ETH_DMATxDesc_OWN \<noteq> 0" by (simp add: or_own)
  have pend: "tx_pending t = Suc ?n"
  proof (rule tx_pendingI)
    show "Status (tx_at k t) AND ETH_DMATxDesc_OWN \<noteq> 0" if "k < Suc ?n" for k
      using at[of k] tx_owned[OF wf, of k] own room that by (cases "k = ?n") simp_all
    show "Status (tx_at (Suc ?n) t) AND ETH_DMATxDesc_OWN = 0" if "Suc ?n < 2"
      using at[OF that] tx_owned[OF wf that] by simp
  qed (use room in simp)
  have size: "tx_size ?d = length ?bs" using tx_sized[OF len] by (simp add: tx_size_def and.assoc)
  have buf: "Buffer1Addr (DMATxDscrTab h ! j) = j * 1520" if "j < 2" for j
    using that x(5,7) by (auto simp: less_2_cases_iff)
  have new: "tx_bytes ((tx_dma h + ?n) mod 2) t = ?bs"
    using mem_put_same[OF put] i(1) x(1) buf[OF i(1)] size unfolding i(2)[symmetric] by (simp add: tx_bytes_def t tx_size_def Let_def)
  have old: "tx_bytes ((tx_dma h + k) mod 2) t = tx_bytes ((tx_dma h + k) mod 2) h" if "k < ?n" for k
  proof -
    let ?j = "(tx_dma h + k) mod 2"
    have "?j \<noteq> ?i" using ring_inj[of k 2 ?n "tx_dma h"] that room by (simp add: i(2))
    then show ?thesis
      using x(9)[OF that] buffers_apart[of ?j ?i _ "length ?bs"] len buf[of ?j]
      by (simp add: tx_bytes_def t Let_def mem_put_other[OF put] tx_at_def tx_size_def)
  qed
  have queue: "tx_queue t = tx_queue h @ [?bs]" using new old by (simp add: tx_queue_def pend t(3))
  have "tx_chain t" using wf i(1) put by (auto simp: tx_wf_def tx_chain_def t nth_list_update)
  moreover have "Buffer2NextDescAddr (DMATxDscrTab h ! ?i) = (?i + 1) mod 2" using i(1) x(4,6) by (auto simp: less_2_cases_iff)
  then have "DMATxDescToSet t = (tx_dma t + tx_pending t) mod 2" by (simp add: t pend x(8) mod_Suc_eq)
  moreover have "tx_size (tx_at k t) \<le> 1520" if "k < tx_pending t" for k
    using that room x(9)[of k] at[of k] size len by (auto simp: pend less_Suc_eq)
  ultimately have "tx_wf t" by (simp add: tx_wf_def pend)
  then show ?thesis using output_copied[OF wf len] queue by (simp add: t_def)
qed

text \<open>
  With both descriptors taken the copy still happens: the frame that waits longest gets the bytes of the
  new packet, as far as they reach, and the packet is not sent.  The caller is told that it was.
\<close>

lemma tx_same:
  assumes "DMATxDscrTab t = DMATxDscrTab h" and "length (Tx_Buff t) = length (Tx_Buff h)" and "tx_dma t = tx_dma h"
    and "DMATxDescToSet t = DMATxDescToSet h"
  shows "tx_wf t = tx_wf h" "tx_pending t = tx_pending h"
  using assms by (simp_all add: tx_wf_def tx_chain_def tx_pending_def tx_at_def)

lemma output_full:
  assumes wf: "tx_wf h" and full: "tx_pending h = 2" and len: "length (concat p) \<le> 1520"
  shows "\<exists>t old next. low_level_output p h = Ok (0, t) \<and> tx_wf t \<and> tx_queue h = [old, next] \<and>
    tx_queue t = [take (length old) (concat p @ drop (length (concat p)) old), next]"
proof -
  let ?i = "tx_dma h" and ?bs = "concat p"
  let ?t = "h\<lparr>Tx_Buff := mem_put (?i * 1520) ?bs (Tx_Buff h)\<rparr>"
  note x = tx_parts[OF wf]
  have i: "?i < 2" "DMATxDescToSet h = ?i" using x(3,8) full by auto
  have put: "?i * 1520 + length ?bs \<le> length (Tx_Buff h)" using i(1) x(2) len by linarith
  have "Status (DMATxDscrTab h ! ?i) AND ETH_DMATxDesc_OWN \<noteq> 0" using tx_owned[OF wf, of 0] full i(1) by (simp add: tx_at_def)
  then have out: "low_level_output p h = Ok (0, ?t)" using output_copied[OF wf len] i(2) by (simp add: ETH_TxPkt_ChainMode_def)
  have same: "tx_wf ?t" "tx_pending ?t = 2" using tx_same[of ?t h] put wf full by simp_all
  have buf: "Buffer1Addr (DMATxDscrTab h ! j) = j * 1520" if "j < 2" for j
    using that x(5,7) by (auto simp: less_2_cases_iff)
  have size: "tx_size (DMATxDscrTab h ! ((?i + k) mod 2)) \<le> 1520" if "k < 2" for k
    using x(9)[of k] that full by (simp add: tx_at_def)
  let ?n = "tx_size (DMATxDscrTab h ! ?i)" and ?mem = "drop (?i * 1520) (Tx_Buff h)"
  have n: "?n \<le> length ?mem" using size[of 0] i(1) x(2) by simp
  have "drop (?i * 1520) (Tx_Buff ?t) = ?bs @ drop (length ?bs) ?mem" using put by (simp add: mem_put_def add.commute)
  then have "tx_bytes ?i ?t = take ?n (?bs @ drop (length ?bs) (tx_bytes ?i h))"
    using n by (simp add: tx_bytes_def Let_def buf[OF i(1)] drop_take min_def flip: tx_size_def)
  moreover have "length (tx_bytes ?i h) = ?n" using n by (simp add: tx_bytes_def Let_def buf[OF i(1)] flip: tx_size_def)
  moreover have "tx_bytes ((?i + 1) mod 2) ?t = tx_bytes ((?i + 1) mod 2) h"
  proof -
    have "(?i + 1) mod 2 \<noteq> ?i" using x(3) by auto
    then show ?thesis using buffers_apart[of "(?i + 1) mod 2" ?i _ "length ?bs"] size[of 1] len buf[of "(?i + 1) mod 2"]
      by (simp add: tx_bytes_def Let_def mem_put_other[OF put] flip: tx_size_def)
  qed
  moreover have "tx_queue h = [tx_bytes ?i h, tx_bytes ((?i + 1) mod 2) h]" "tx_queue ?t = [tx_bytes ?i ?t, tx_bytes ((?i + 1) mod 2) ?t]"
    using full same(2) i(1) by (simp_all add: tx_queue_def upt_rec)
  ultimately show ?thesis using out same(1) by simp
qed

lemma transmitted:
  assumes wf: "tx_wf h" and queue: "tx_queue h = q # qs"
  shows "\<exists>t. dma_transmit h = (Some q, t) \<and> tx_wf t \<and> tx_queue t = qs"
proof -
  let ?i = "tx_dma h" and ?n = "tx_pending h"
  note x = tx_parts[OF wf]
  have n: "?n = Suc (length qs)" using queue length_tx_queue[of h] by simp
  have own: "Status (DMATxDscrTab h ! ?i) AND ETH_DMATxDesc_OWN \<noteq> 0" using tx_owned[OF wf, of 0] n x(3) by (auto simp: tx_at_def)
  define t where "t = snd (dma_transmit h)"
  have run: "dma_transmit h = (Some (tx_bytes ?i h), t)" using own by (simp add: t_def dma_transmit_def Let_def)
  have t: "DMATxDscrTab t = (DMATxDscrTab h)[?i := (DMATxDscrTab h ! ?i)\<lparr>Status := Status (DMATxDscrTab h ! ?i) AND NOT ETH_DMATxDesc_OWN\<rparr>]"
    "tx_dma t = (?i + 1) mod 2" "Tx_Buff t = Tx_Buff h" "DMATxDescToSet t = DMATxDescToSet h"
    using own x(3,4,6) by (auto simp: t_def dma_transmit_def Let_def upd_txd_def)
  have at: "tx_at k t = (if k = 1 then (DMATxDscrTab h ! ?i)\<lparr>Status := Status (DMATxDscrTab h ! ?i) AND NOT ETH_DMATxDesc_OWN\<rparr>
      else tx_at (Suc k) h)" if "k < 2" for k
  proof -
    have i: "((?i + 1) mod 2 + k) mod 2 = (?i + Suc k) mod 2" by (simp add: mod_add_left_eq)
    have "(?i + Suc k) mod 2 = ?i \<longleftrightarrow> k = 1" using x(3) that by (auto simp: less_2_cases_iff)
    then show ?thesis using x(1,3) by (auto simp: tx_at_def t i nth_list_update_if)
  qed
  have cleared: "(w AND NOT ETH_DMATxDesc_OWN) AND ETH_DMATxDesc_OWN = 0" for w :: u32 by (simp add: and.assoc)
  have le: "length qs < 2" using n tx_pending_le[of h] by simp
  have pend: "tx_pending t = length qs"
  proof (rule tx_pendingI)
    show "Status (tx_at k t) AND ETH_DMATxDesc_OWN \<noteq> 0" if "k < length qs" for k
      using at[of k] tx_owned[OF wf, of "Suc k"] n that le by simp
    show "Status (tx_at (length qs) t) AND ETH_DMATxDesc_OWN = 0"
      using at[OF le] tx_owned[OF wf, of 1] n le cleared[of "Status (DMATxDscrTab h ! ?i)"]
      by (cases "length qs = 1") (simp_all add: less_2_cases_iff)
  qed (use le in simp)
  have bytes: "tx_bytes j t = tx_bytes j h" for j
  proof -
    have "?i < 2" using x(3) by auto
    then show ?thesis using x(1) t(1,3) by (cases "j = ?i") (simp_all add: tx_bytes_def Let_def)
  qed
  have shift: "tx_bytes ((tx_dma t + k) mod 2) t = tx_bytes ((?i + Suc k) mod 2) h" for k
    by (simp add: t(2) bytes mod_add_left_eq)
  have "tx_queue t = tl (tx_queue h)" 
    by (simp add: tx_queue_def shift pend n upt_Suc_shift[of "Suc (length qs)"] del: upt_Suc)
  moreover have "q = tx_bytes ?i h" using queue x(3) by (auto simp: tx_queue_def n upt_Suc_shift simp del: upt_Suc)
  moreover have "tx_chain t" using wf x(3) by (auto simp: tx_wf_def tx_chain_def t nth_list_update)
  moreover have "DMATxDescToSet t = (tx_dma t + tx_pending t) mod 2" by (simp add: t pend x(8) n mod_add_left_eq)
  moreover have "Status (tx_at 1 t) AND ETH_DMATxDesc_OWN = 0" using at[of 1] cleared by simp
  moreover have "tx_size (tx_at k t) \<le> 1520" if "k < tx_pending t" for k
    using at[of k] x(9)[of "Suc k"] that n le pend by simp
  ultimately show ?thesis using run queue by (simp add: tx_wf_def)
qed

lemma nothing_to_send:
  assumes "tx_wf h" and "tx_queue h = []"
  shows "\<exists>t. dma_transmit h = (None, t) \<and> tx_wf t \<and> tx_queue t = []"
proof -
  have p: "tx_pending h = 0" using assms(2) length_tx_queue[of h] by simp
  then have "Status (DMATxDscrTab h ! tx_dma h) AND ETH_DMATxDesc_OWN = 0"
    using tx_owned[OF assms(1), of 0] tx_parts(3)[OF assms(1)] by (auto simp: tx_at_def)
  then show ?thesis using tx_same[of "h\<lparr>DMASR := DMASR h OR 0x00000004\<rparr>" h] assms(1) p
    by (simp add: dma_transmit_def Let_def tx_queue_def)
qed

section \<open>Packets and the wire\<close>

text \<open>The stack sends packets, the hardware moves frames to the wire; \<open>tx_run\<close> gives what went out.\<close>

datatype tx_event = Packet "u8 list list" | Transmit

fun tx_run :: "tx_event list \<Rightarrow> eth_hw \<Rightarrow> (u8 list list \<times> eth_hw) res" where
  "tx_run [] h = Ok ([], h)"
| "tx_run (Packet p # es) h = bnd (low_level_output p h) (\<lambda>(_, h). tx_run es h)"
| "tx_run (Transmit # es) h =
     (let (f, h) = dma_transmit h
      in bnd (tx_run es h) (\<lambda>(out, h). Ok ((case f of None \<Rightarrow> out | Some f \<Rightarrow> f # out), h)))"

text \<open>Packets that fit a buffer, and never more than two of them ahead of the hardware.\<close>

fun tx_room :: "nat \<Rightarrow> tx_event list \<Rightarrow> bool" where
  "tx_room n [] = True"
| "tx_room n (Packet p # es) = (n < 2 \<and> length (concat p) \<le> 1520 \<and> tx_room (n + 1) es)"
| "tx_room n (Transmit # es) = tx_room (n - 1) es"

fun packets :: "tx_event list \<Rightarrow> u8 list list" where
  "packets [] = []"
| "packets (Packet p # es) = concat p # packets es"
| "packets (Transmit # es) = packets es"

lemma tx_run_fifo:
  "tx_wf h \<Longrightarrow> tx_room (length (tx_queue h)) es \<Longrightarrow>
    \<exists>out t. tx_run es h = Ok (out, t) \<and> tx_wf t \<and> out @ tx_queue t = tx_queue h @ packets es"
proof (induction es arbitrary: h)
  case (Cons e es)
  show ?case
  proof (cases e)
    case (Packet p)
    then obtain u where u: "low_level_output p h = Ok (0, u)" "tx_wf u" "tx_queue u = tx_queue h @ [concat p]"
      using output_room[OF Cons.prems(1), of p] Cons.prems(2) by auto
    then show ?thesis using Cons.IH[OF u(2)] Cons.prems(2) Packet u(3)[THEN arg_cong[where f = length]] by simp
  next
    case Transmit
    show ?thesis
    proof (cases "tx_queue h")
      case Nil
      then obtain u where u: "dma_transmit h = (None, u)" "tx_wf u" "tx_queue u = []"
        using nothing_to_send[OF Cons.prems(1)] by blast
      then show ?thesis using Cons.IH[OF u(2)] Cons.prems(2) Transmit Nil by simp
    next
      case q: (Cons q qs)
      then obtain u where u: "dma_transmit h = (Some q, u)" "tx_wf u" "tx_queue u = qs"
        using transmitted[OF Cons.prems(1)] by blast
      have "tx_room (length (tx_queue u)) es" using Cons.prems(2) Transmit q u(3) by (simp del: length_tx_queue)
      then show ?thesis using Cons.IH[OF u(2)] Transmit q u by auto
    qed
  qed
qed simp

section \<open>What the stack gets\<close>

lemma tx_set_up:
  assumes "eth_loaded h"
  shows "tx_wf (low_level_init h)" "tx_queue (low_level_init h) = []"
proof -
  let ?t = "low_level_init h"
  note t = low_level_init_sel[OF assms]
  have at: "Status (tx_at k ?t) = 0x00D00000" for k by (simp add: tx_at_def t(2) del: upt_rec_numeral)
  then have p: "tx_pending ?t = 0" by (simp add: tx_pending_def)
  then show "tx_queue ?t = []" by (simp add: tx_queue_def)
  have "tx_chain ?t" using assms by (simp add: tx_chain_def t eth_loaded_def del: upt_rec_numeral)
  then show "tx_wf ?t" using p at assms by (simp add: tx_wf_def t(4,8) eth_loaded_def)
qed

text \<open>
  C27.  As long as the stack hands over packets of at most 1520 bytes and is never more than two ahead of the
  hardware, every call succeeds and the bytes on the wire are those of the packets, whole and in the order
  of the calls, with what still waits at the end.
\<close>

theorem sent_in_order:
  assumes "tx_wf h" and "tx_room (length (tx_queue h)) es"
  shows "\<exists>out t. tx_run es h = Ok (out, t) \<and> tx_wf t \<and> out @ tx_queue t = tx_queue h @ packets es"
  by (rule tx_run_fifo[OF assms])

lemma eth_zero_loaded: "eth_loaded eth_zero"
  by (simp add: eth_loaded_def pbufs_exact_def eth_zero_def eth_hw.defs)

lemma sent_in_order_witness:
  "\<exists>out t. tx_run [Packet [[1, 2], [3]], Packet [[4]], Transmit, Packet [[5]], Transmit] (low_level_init eth_zero) = Ok (out, t) \<and>
    out @ tx_queue t = [[1, 2, 3], [4], [5]]"
  using sent_in_order[OF tx_set_up(1)[OF eth_zero_loaded], of "[Packet [[1, 2], [3]], Packet [[4]], Transmit, Packet [[5]], Transmit]"]
    tx_set_up(2)[OF eth_zero_loaded] by (simp del: length_tx_queue) blast

text \<open>
  C28.  A packet handed over while both descriptors still wait for the hardware is lost, and its bytes
  overwrite those of the frame that goes out next, as far as that one reaches; the call reports success.
\<close>

theorem send_overruns:
  assumes "tx_wf h" and "tx_queue h = [old, next_frame]" and "length (concat p) \<le> 1520"
  shows "\<exists>t. low_level_output p h = Ok (0, t) \<and>
    tx_queue t = [take (length old) (concat p @ drop (length (concat p)) old), next_frame]"
proof -
  have "tx_pending h = 2" using assms(2) length_tx_queue[of h] by simp
  then show ?thesis using output_full[OF assms(1) _ assms(3)] assms(2) by auto
qed

lemma send_overruns_witness:
  "\<exists>h t. tx_queue h = [[1, 2, 3], [4]] \<and> low_level_output [[9, 9]] h = Ok (0, t) \<and> tx_queue t = [[9, 9, 3], [4]]"
proof -
  note z = tx_set_up[OF eth_zero_loaded]
  have "\<exists>out t. tx_run [Packet [[1, 2, 3]], Packet [[4]]] (low_level_init eth_zero) = Ok (out, t) \<and> tx_wf t \<and>
      out @ tx_queue t = tx_queue (low_level_init eth_zero) @ packets [Packet [[1, 2, 3]], Packet [[4]]]"
    by (rule tx_run_fifo[OF z(1)]) (simp add: z(2) del: length_tx_queue)
  then obtain h where h: "tx_wf h" "tx_queue h = [[1, 2, 3], [4]]" using z(2) by auto
  show ?thesis using send_overruns[OF h, of "[[9, 9]]"] h(2) by auto
qed

end
