(* ===== verification/Fw_Net.thy ===== *)
theory Fw_Net
  imports Cmd_Uart Eth_Port Eth_Setup
begin

text \<open>
  The board support around the network: \<^verbatim>\<open>stm32f107.c\<close> (clocks, pins and the Ethernet peripheral),
  \<^verbatim>\<open>netconf.c\<close> (the set up of the network stack and its periodic work), \<^verbatim>\<open>server.c\<close> (an echo server),
  the receive interrupt of \<^verbatim>\<open>stm32f10x_it.c\<close>, and the watchdog \<^verbatim>\<open>hm_iwdg.c\<close>, which this build
  does not start.

  The Ethernet peripheral with its driver and its port is the field \<open>eth\<close>; \<open>eth_ticks\<close> are the ticks that
  pass during the calls of \<open>ETH_Init\<close>.  The network stack is not modelled: its calls are recorded, and a
  received frame is given here by the callback the stack hands it to (\<open>Fw_Eth\<close> has the handler that takes
  the frames out of the ring).  The waiting loops poll a register; \<open>spin_fuel\<close> bounds their turns, and
  a loop that uses it up hangs.
\<close>

section \<open>State\<close>

record fw_st = uart_st +
  RCC_CFGR2 :: u32
  rcc_PLL3ON :: bool
  rcc_LSION :: bool
  rcc_MCO :: u8
  rcc_RMVF :: bool
  rcc_status :: "nat \<Rightarrow> u32 \<times> u32 \<times> u32"
  rcc_reads :: nat
  iwdg_KR :: "u16 list"
  iwdg_PR :: u8
  iwdg_RLR :: u16
  eth :: eth_hw
  eth_ticks :: "nat list"
  eth_mem :: bool
  ARPTimer :: u32
  s_count :: u32
  led_i :: u32
  led_net_i :: u32
  spin_fuel :: nat
  delay_reads :: "nat \<Rightarrow> u32"

section \<open>Clock control\<close>

definition RCC_PLL3Config :: "u32 \<Rightarrow> 'a fw_st_scheme \<Rightarrow> 'a fw_st_scheme" where
  "RCC_PLL3Config mul s = s\<lparr>RCC_CFGR2 := (RCC_CFGR2 s AND NOT 0x0000F000) OR mul\<rparr>"

definition RCC_PLL3Cmd :: "bool \<Rightarrow> 'a fw_st_scheme \<Rightarrow> 'a fw_st_scheme" where
  "RCC_PLL3Cmd on s = s\<lparr>rcc_PLL3ON := on\<rparr>"

definition RCC_MCOConfig :: "u8 \<Rightarrow> 'a fw_st_scheme \<Rightarrow> 'a fw_st_scheme" where
  "RCC_MCOConfig mco s = s\<lparr>rcc_MCO := mco\<rparr>"

definition RCC_LSICmd :: "bool \<Rightarrow> 'a fw_st_scheme \<Rightarrow> 'a fw_st_scheme" where
  "RCC_LSICmd on s = s\<lparr>rcc_LSION := on\<rparr>"

definition RCC_ClearFlag :: "'a fw_st_scheme \<Rightarrow> 'a fw_st_scheme" where
  "RCC_ClearFlag s = s\<lparr>rcc_RMVF := True\<rparr>"

text \<open>The registers \<open>CR\<close>, \<open>BDCR\<close> and \<open>CSR\<close> as the reads in turn see them.\<close>

definition RCC_GetFlagStatus :: "u8 \<Rightarrow> 'a fw_st_scheme \<Rightarrow> bool \<times> 'a fw_st_scheme" where
  "RCC_GetFlagStatus flag s =
     (let (CR, BDCR, CSR) = rcc_status s (rcc_reads s);
          tmp = drop_bit 5 flag;
          statusreg = (if tmp = 1 then CR else if tmp = 2 then BDCR else CSR);
          tmp = flag AND 0x1F
      in (statusreg AND push_bit (unat tmp) 1 \<noteq> 0, s\<lparr>rcc_reads := rcc_reads s + 1\<rparr>))"

definition RCC_FLAG_PLL3RDY :: u8 where "RCC_FLAG_PLL3RDY = 0x3D"
definition RCC_FLAG_LSIRDY :: u8 where "RCC_FLAG_LSIRDY = 0x61"
definition RCC_FLAG_IWDGRST :: u8 where "RCC_FLAG_IWDGRST = 0x7D"

text \<open>\<open>while (RCC_GetFlagStatus(flag) == RESET) {}\<close>\<close>

fun wait_flag :: "nat \<Rightarrow> u8 \<Rightarrow> 'a fw_st_scheme \<Rightarrow> 'a fw_st_scheme res" where
  "wait_flag 0 flag s = Fault Hang"
| "wait_flag (Suc n) flag s =
     (let (b, s) = RCC_GetFlagStatus flag s in if b then Ok s else wait_flag n flag s)"

definition GPIO_ETH_MediaInterfaceConfig :: "bool \<Rightarrow> 'a hw_st_scheme \<Rightarrow> 'a hw_st_scheme" where
  "GPIO_ETH_MediaInterfaceConfig rmii s =
     s\<lparr>MAPR := (if rmii then MAPR s OR push_bit 23 1 else MAPR s AND NOT (push_bit 23 1))\<rparr>"

section \<open>The watchdog\<close>

definition IWDG_WriteAccessCmd :: "u16 \<Rightarrow> 'a fw_st_scheme \<Rightarrow> 'a fw_st_scheme" where
  "IWDG_WriteAccessCmd k s = s\<lparr>iwdg_KR := iwdg_KR s @ [k]\<rparr>"

definition IWDG_SetPrescaler :: "u8 \<Rightarrow> 'a fw_st_scheme \<Rightarrow> 'a fw_st_scheme" where
  "IWDG_SetPrescaler p s = s\<lparr>iwdg_PR := p\<rparr>"

definition IWDG_SetReload :: "u16 \<Rightarrow> 'a fw_st_scheme \<Rightarrow> 'a fw_st_scheme" where
  "IWDG_SetReload r s = s\<lparr>iwdg_RLR := r\<rparr>"

definition IWDG_ReloadCounter :: "'a fw_st_scheme \<Rightarrow> 'a fw_st_scheme" where
  "IWDG_ReloadCounter s = s\<lparr>iwdg_KR := iwdg_KR s @ [0xAAAA]\<rparr>"

definition IWDG_Enable :: "'a fw_st_scheme \<Rightarrow> 'a fw_st_scheme" where
  "IWDG_Enable s = s\<lparr>iwdg_KR := iwdg_KR s @ [0xCCCC]\<rparr>"

definition LsiFreq :: u32 where "LsiFreq = 40000"

definition hm_iwdg_init :: "'a fw_st_scheme \<Rightarrow> (bool \<times> 'a fw_st_scheme) res" where
  "hm_iwdg_init s =
     (let (b, s) = RCC_GetFlagStatus RCC_FLAG_IWDGRST s;
          s = (if b then RCC_ClearFlag s else s);
          s = RCC_LSICmd ENABLE s
      in bnd (wait_flag (spin_fuel s) RCC_FLAG_LSIRDY s) (\<lambda>s.
           let s = IWDG_WriteAccessCmd 0x5555 s;
               s = IWDG_SetPrescaler 0x03 s;
               s = IWDG_SetReload (ucast (LsiFreq div 64)) s;
               s = IWDG_ReloadCounter s;
               s = IWDG_Enable s
           in Ok (b, s)))"

definition hm_iwdg_feed :: "'a fw_st_scheme \<Rightarrow> 'a fw_st_scheme" where
  "hm_iwdg_feed s = IWDG_ReloadCounter s"

section \<open>The network stack\<close>

definition ARP_TMR_INTERVAL :: u32 where "ARP_TMR_INTERVAL = 5000"

text \<open>
  \<open>netif_add\<close> calls the set up of the port, which asks for memory for its private data.  The debug messages
  with the addresses are left out.
\<close>

definition LwIP_Init :: "'a fw_st_scheme \<Rightarrow> 'a fw_st_scheme" where
  "LwIP_Init s =
     (let s = snd (hm_addr_init s);
          s = net_do mem_init s;
          s = net_do memp_init s;
          ipaddr = hm_ip_addr s;
          netmask = [255, 255, 255, 0];
          gw = [192, 168, 1, 1];
          s = s\<lparr>eth := Set_MAC_Address (hm_mac_addr s) (eth s)\<rparr>;
          s = net_do (netif_add ipaddr netmask gw) s;
          s = s\<lparr>eth := snd (ethernetif_init (eth_mem s) (eth s))\<rparr>;
          s = net_do netif_set_default s
      in net_do netif_set_up s)"

definition LwIP_Periodic_Handle :: "u32 \<Rightarrow> 'a fw_st_scheme \<Rightarrow> 'a fw_st_scheme" where
  "LwIP_Periodic_Handle localtime s =
     (if localtime - ARPTimer s \<ge> ARP_TMR_INTERVAL
      then net_do etharp_tmr (s\<lparr>ARPTimer := localtime\<rparr>)
      else s)"

section \<open>The echo server\<close>

definition UDP_SERVER_PORT :: u16 where "UDP_SERVER_PORT = 5123"

definition server_init :: "'a cmd_st_scheme \<Rightarrow> 'a cmd_st_scheme" where
  "server_init s =
     (let (upcb, s) = net_new s;
          s = net_do (udp_bind upcb UDP_SERVER_PORT) s
      in net_do (udp_recv upcb CK_echo_server) s)"

definition echo_server_callback ::
  "nat option \<Rightarrow> nat \<Rightarrow> u32 \<Rightarrow> u16 \<Rightarrow> 'a cmd_st_scheme \<Rightarrow> 'a cmd_st_scheme" where
  "echo_server_callback upcb b addr port s =
     (let s = net_do (udp_connect upcb addr port) s;
          s = net_do (udp_send upcb (Some b) (pbuf_bytes (Some b) s)) s;
          s = net_do (pbuf_free (Some b)) s
      in net_do (udp_disconnect upcb) s)"

section \<open>Received frames\<close>

text \<open>
  What the stack makes of a frame: a datagram for one of the two servers, nothing for the firmware, or an
  error, after which the port frees the packet.
\<close>

datatype eth_frame = CmdFrame datagram | EchoFrame datagram | OtherFrame | RefusedFrame nat

definition frame_input :: "eth_frame \<Rightarrow> 'a cmd_st_scheme \<Rightarrow> 'a cmd_st_scheme res" where
  "frame_input f s = (case f of
       CmdFrame x \<Rightarrow> deliver x s
     | EchoFrame x \<Rightarrow> Ok (echo_server_callback (dg_upcb x) (dg_buf x) (dg_addr x) (dg_port x) (received x s))
     | OtherFrame \<Rightarrow> Ok s
     | RefusedFrame b \<Rightarrow> Ok (net_do (pbuf_free (Some b)) s))"

definition frame_handled :: "eth_frame \<Rightarrow> 'a fw_st_scheme \<Rightarrow> 'a fw_st_scheme res" where
  "frame_handled f s = bnd (frame_input f s) (\<lambda>s. Ok (s\<lparr>s_count := s_count s + 1\<rparr>))"

text \<open>The frames that wait, one after the other.\<close>

definition frames_handled :: "eth_frame list \<Rightarrow> 'a fw_st_scheme \<Rightarrow> 'a fw_st_scheme res" where
  "frames_handled = for_each frame_handled"

section \<open>Setting up the Ethernet peripheral\<close>

definition GPIO_Remap_ETH :: u32 where "GPIO_Remap_ETH = 0x00200020"

definition gpio_cfg :: "gpio_port \<Rightarrow> u16 \<Rightarrow> GPIOMode \<Rightarrow> 'a hw_st_scheme \<Rightarrow> 'a hw_st_scheme" where
  "gpio_cfg pt mk mode = GPIO_Init pt \<lparr>GPIO_Pin = mk, GPIO_Speed = GPIO_Speed_50MHz, GPIO_Mode = mode\<rparr>"

definition GPIO_Configuration :: "'a hw_st_scheme \<Rightarrow> 'a hw_st_scheme" where
  "GPIO_Configuration s =
     (let s = gpio_cfg GPIOA (GPIO_Pin_no 2) GPIO_Mode_AF_PP s;
          s = gpio_cfg GPIOC (GPIO_Pin_no 1) GPIO_Mode_AF_PP s;
          s = gpio_cfg GPIOB (GPIO_Pin_no 11 OR GPIO_Pin_no 12 OR GPIO_Pin_no 13) GPIO_Mode_AF_PP s;
          s = GPIO_PinRemapConfig GPIO_Remap_ETH ENABLE s;
          s = gpio_cfg GPIOA (GPIO_Pin_no 1) GPIO_Mode_IN_FLOATING s;
          s = gpio_cfg GPIOD (GPIO_Pin_no 8 OR GPIO_Pin_no 9 OR GPIO_Pin_no 10) GPIO_Mode_IN_FLOATING s
      in gpio_cfg GPIOA (GPIO_Pin_no 8) GPIO_Mode_AF_PP s)"

definition led_ck_net :: "'a fw_st_scheme \<Rightarrow> 'a fw_st_scheme" where
  "led_ck_net s =
     (let s = hm_led_act ltError (led_net_i s mod 2 = 0) s in s\<lparr>led_net_i := led_net_i s + 1\<rparr>)"

text \<open>\<open>while (ETH_GetSoftwareResetStatus() == SET);\<close>, from the \<open>k\<close>-th read on.\<close>

fun wait_reset :: "nat \<Rightarrow> nat \<Rightarrow> eth_hw \<Rightarrow> unit res" where
  "wait_reset 0 k h = Fault Hang"
| "wait_reset (Suc n) k h = (if ETH_GetSoftwareResetStatus k h then wait_reset n (k + 1) h else Ok ())"

text \<open>
  The loop over \<open>ETH_Init\<close>; the list has the ticks that pass during each call.  The first failure starts a
  timer for the error lamp, whose handle is \<open>tmer\<close>.  The callbacks of the timers are the parameter \<open>run\<close>.
\<close>

fun eth_init_loop ::
  "(ck_func \<Rightarrow> ck_param \<Rightarrow> 'a fw_st_scheme \<Rightarrow> 'a fw_st_scheme res) \<Rightarrow> nat list \<Rightarrow> eth_init \<Rightarrow> bool \<Rightarrow> nat option \<Rightarrow>
     'a fw_st_scheme \<Rightarrow> (nat option \<times> 'a fw_st_scheme) res" where
  "eth_init_loop run [] i bfirst tmer s = Fault Hang"
| "eth_init_loop run (n # ns) i bfirst tmer s =
     bnd (run_ticks run n s) (\<lambda>s.
       let (ret, i, h) = ETH_Init i PHY_ADDRESS (eth s);
           s = s\<lparr>eth := h\<rparr>
       in if ret \<noteq> 0 then Ok (tmer, s)
          else if bfirst then
            (let (tmer, s) = hm_timer_register 100 (Some CK_led_ck_net) NoParam False True s
             in eth_init_loop run ns i False tmer s)
          else eth_init_loop run ns i bfirst tmer s)"

definition Ethernet_Configuration ::
  "(ck_func \<Rightarrow> ck_param \<Rightarrow> 'a fw_st_scheme \<Rightarrow> 'a fw_st_scheme res) \<Rightarrow> 'a fw_st_scheme \<Rightarrow> 'a fw_st_scheme res" where
  "Ethernet_Configuration run s =
     (let s = GPIO_ETH_MediaInterfaceConfig True s;
          s = RCC_PLL3Config 0x00008000 s;
          s = RCC_PLL3Cmd ENABLE s
      in bnd (wait_flag (spin_fuel s) RCC_FLAG_PLL3RDY s) (\<lambda>s.
         let s = RCC_MCOConfig 0x0B s;
             s = s\<lparr>eth := ETH_DeInit (eth s)\<rparr>;
             s = s\<lparr>eth := ETH_SoftwareReset (eth s)\<rparr>
         in bnd (wait_reset (spin_fuel s) 0 (eth s)) (\<lambda>_.
            bnd (eth_init_loop run (eth_ticks s) eth_config True None s) (\<lambda>(tmer, s).
              let s = hm_led_act ltError False s;
                  s = hm_timer_unregister tmer s
              in Ok (s\<lparr>eth := ETH_DMAITConfig (0x00010000 OR 0x00000040) ENABLE (eth s)\<rparr>)))))"

definition System_Setup ::
  "(ck_func \<Rightarrow> ck_param \<Rightarrow> 'a fw_st_scheme \<Rightarrow> 'a fw_st_scheme res) \<Rightarrow> 'a fw_st_scheme \<Rightarrow> 'a fw_st_scheme res" where
  "System_Setup run s =
     (let s = RCC_APB1PeriphClockCmd 0x00020000 ENABLE s;
          s = RCC_AHBPeriphClockCmd (0x00004000 OR 0x00008000 OR 0x00010000) ENABLE s;
          s = RCC_APB2PeriphClockCmd (RCC_APB2Periph_GPIOA OR RCC_APB2Periph_GPIOB OR RCC_APB2Periph_GPIOC OR
                RCC_APB2Periph_GPIOD OR RCC_APB2Periph_GPIOE OR RCC_APB2Periph_AFIO OR 0x00000200) ENABLE s;
          s = GPIO_Configuration s
      in Ethernet_Configuration run s)"

end
