(* ===== verification/Firmware.thy ===== *)
theory Firmware
  imports Fw_Net
begin

text \<open>
  The program as a whole, \<^verbatim>\<open>main.c\<close>: the set up, the callbacks by name, and the events that
  drive it afterwards - ticks, interrupts, received frames, turns of the main loop and changes of the
  hardware.  An event is one step: an interrupt that comes while a handler runs is not modelled here
  (\<open>msg_add_interrupted\<close> is about that case for the message queue).
\<close>

section \<open>The program\<close>

definition led_ck :: "'a fw_st_scheme \<Rightarrow> 'a fw_st_scheme" where
  "led_ck s = (let s = hm_led_act ltRun (led_i s mod 2 = 0) s in s\<lparr>led_i := led_i s + 1\<rparr>)"

definition netwk_ck :: "'a fw_st_scheme \<Rightarrow> 'a fw_st_scheme" where
  "netwk_ck s = LwIP_Periodic_Handle (hm_get_cur_time s) s"

text \<open>The reset ends the program; the counter values that the delay reads are those of the environment.\<close>

definition hm_cmd_reboot_ck :: "'a fw_st_scheme \<Rightarrow> 'a fw_st_scheme res" where
  "hm_cmd_reboot_ck s =
     (case hm_delay (spin_fuel s) (delay_reads s) 500 of
        None \<Rightarrow> Fault Hang
      | Some k \<Rightarrow> Fault SystemReset)"

text \<open>A call through a pointer to a callback.\<close>

definition run_ck :: "ck_func \<Rightarrow> ck_param \<Rightarrow> 'a fw_st_scheme \<Rightarrow> 'a fw_st_scheme res" where
  "run_ck f p s = (case f of
       CK_led_ck \<Rightarrow> Ok (led_ck s)
     | CK_led_ck_net \<Rightarrow> Ok (led_ck_net s)
     | CK_netwk_ck \<Rightarrow> Ok (netwk_ck s)
     | CK_hm_iwdg_feed \<Rightarrow> Ok (hm_iwdg_feed s)
     | CK_hm_motor_limit_logical_check \<Rightarrow> hm_motor_limit_logical_check s
     | CK_hm_cmd_msg_ck \<Rightarrow> (case p of NoParam \<Rightarrow> Fault OutOfBounds | CmdItem i \<Rightarrow> uart_msg_ck i s)
     | CK_hm_cmd_reboot_ck \<Rightarrow> hm_cmd_reboot_ck s)"

definition enable_all_Ports :: "'a hw_st_scheme \<Rightarrow> 'a hw_st_scheme" where
  "enable_all_Ports =
     RCC_APB2PeriphClockCmd (RCC_APB2Periph_GPIOA OR RCC_APB2Periph_GPIOB OR RCC_APB2Periph_GPIOC OR
       RCC_APB2Periph_GPIOD OR RCC_APB2Periph_GPIOE OR RCC_APB2Periph_AFIO) ENABLE"

text \<open>\<open>main\<close> up to its loop; \<open>DS18B20_Init\<close> does nothing in this build.\<close>

definition main_drivers :: "'a fw_st_scheme \<Rightarrow> 'a fw_st_scheme res" where
  "main_drivers s =
     bnd (hm_timer_init (enable_all_Ports s)) (\<lambda>s.
     bnd (System_Setup run_ck (hm_led_init s)) (\<lambda>s.
       let s = hm_gpio_init s;
           s = hm_msg_queue_init s;
           (_, s) = hm_timer_register 500 (Some CK_led_ck) NoParam False True s
       in hm_step_motor_init s))"

definition main_network :: "'a fw_st_scheme \<Rightarrow> 'a fw_st_scheme" where
  "main_network s =
     (let s = hm_uart_init s;
          s = LwIP_Init s;
          s = server_init s;
          (_, s) = hm_timer_register 1000 (Some CK_netwk_ck) NoParam False False s;
          s = hm_led_act ltRun True s;
          s = hm_cmd_exec_init s;
          (_, s) = hm_timer_register 100 (Some CK_hm_motor_limit_logical_check) NoParam False True s
      in s)"

definition main_init :: "'a fw_st_scheme \<Rightarrow> 'a fw_st_scheme res" where
  "main_init s = bnd (main_drivers s) (\<lambda>s. Ok (main_network s))"

text \<open>One turn of the loop; \<open>hm_motor_limit_check_loop\<close> is empty in this build.\<close>

definition main_turn :: "'a fw_st_scheme \<Rightarrow> 'a fw_st_scheme res" where
  "main_turn = hm_msg_queue_main run_ck"

section \<open>Events\<close>

text \<open>
  What happens to the running program.  \<open>EvHw\<close> is the hardware alone: pins change their level, lines
  become pending, channels and timers move on.  \<open>EvEth\<close> changes the Ethernet peripheral and its rings, and
  \<open>EvFrames\<close> are the frames that its interrupt takes out of them.
\<close>

datatype fw_event =
    EvTick
  | EvTurn
  | EvLine nat
  | EvDma dma_ch
  | EvTim1
  | EvFrames "eth_frame list"
  | EvEth eth_hw
  | EvHw "nat \<Rightarrow> gpio_port \<Rightarrow> u16" exti_regs "tim_id \<Rightarrow> tim_regs" "dma_ch \<Rightarrow> dma_regs" u32

fun fw_step :: "fw_event \<Rightarrow> 'a fw_st_scheme \<Rightarrow> 'a fw_st_scheme res" where
  "fw_step EvTick s = SysTick_Handler run_ck s"
| "fw_step EvTurn s = main_turn s"
| "fw_step (EvLine k) s = exti_vector k s"
| "fw_step (EvDma c) s = dma_vector c s"
| "fw_step EvTim1 s = Ok (TIM1_UP_IRQHandler s)"
| "fw_step (EvFrames fs) s = frames_handled fs s"
| "fw_step (EvEth h) s = Ok (s\<lparr>eth := h\<rparr>)"
| "fw_step (EvHw lv ex tm dm isr) s = Ok (s\<lparr>pin_level := lv, exti := ex, tim := tm, dma := dm, DMA1_ISR := isr\<rparr>)"

definition fw_run :: "fw_event list \<Rightarrow> 'a fw_st_scheme \<Rightarrow> 'a fw_st_scheme res" where
  "fw_run = for_each fw_step"

end
