(* ===== verification/Fw_Safety.thy ===== *)
theory Fw_Safety
  imports Firmware Motor_Board
begin

text \<open>
  What stays true of the running firmware, whatever happens to it: the table of the axes, the message
  queue, the command server and the table of timers keep their form through every event.
\<close>

section \<open>What interrupts and frames leave alone\<close>

text \<open>Observations that do not see the flags of the interrupts, nor the buffers of the server.\<close>

locale irq_frame = drv_frame +
  assumes obs_irq [simp]: "obs (s\<lparr>exti := e\<rparr>) = obs s" "obs (s\<lparr>DMA1_ISR := w\<rparr>) = obs s"
begin

lemma obs_flags [simp]: "obs (EXTI_ClearITPendingBit l s) = obs s" "obs (DMA_ClearITPendingBit l s) = obs s"
  by (simp_all add: EXTI_ClearITPendingBit_def DMA_ClearITPendingBit_def write_IFCR_def)

lemma kept_option:
  "(m = None \<Longrightarrow> kept g x p) \<Longrightarrow> (\<And>y. m = Some y \<Longrightarrow> kept g (f y) p) \<Longrightarrow>
    kept g (case m of None \<Rightarrow> x | Some y \<Rightarrow> f y) p"
  by (cases m) simp_all

lemma kept_serve: "obs s = p \<Longrightarrow> kept id (serve_line fn l s) p"
  unfolding serve_line_def Let_def handler_extern_irq_def
  by (intro kept_bnd[OF kept_extern_loop]) simp_all

lemma kept_exti: "obs s = p \<Longrightarrow> kept id (exti_vector k s) p"
  unfolding exti_vector_def EXTI0_IRQHandler_def EXTI1_IRQHandler_def EXTI2_IRQHandler_def EXTI3_IRQHandler_def
    EXTI4_IRQHandler_def EXTI9_5_IRQHandler_def EXTI15_10_IRQHandler_def Let_def
  unfolding if_applied
  by (intro kept_if kept_serve) simp_all

lemma kept_channel: "obs s = p \<Longrightarrow> kept id (dma_channel_irq c a s) p"
  unfolding dma_channel_irq_def
  by (intro kept_bnd[where g = id] kept_if kept_bnd[OF kept_fill_next] kept_bnd[OF kept_dma_ck]) simp_all

lemma kept_dma_vector: "obs s = p \<Longrightarrow> kept id (dma_vector c s) p"
  by (cases c) (simp_all add: dma_vector_def DMA1_Channel5_IRQHandler_def DMA1_Channel2_IRQHandler_def
      DMA1_Channel3_IRQHandler_def DMA1_Channel7_IRQHandler_def kept_channel)

lemma obs_tim1 [simp]: "obs (TIM1_UP_IRQHandler s) = obs s"
  by (simp add: TIM1_UP_IRQHandler_def)

end

text \<open>A value of the observation that the commands keep.\<close>

locale frame_obs = irq_frame obs for obs :: "'a cmd_st_scheme \<Rightarrow> 'o" +
  fixes good :: 'o
  assumes obs_pool [simp]: "obs (s\<lparr>s_cmd_queue := q\<rparr>) = obs s" "obs (s\<lparr>s_queue_idx := j\<rparr>) = obs s"
      "obs (s\<lparr>net_bufs := bf\<rparr>) = obs s"
    and obs_exec: "obs s = good \<Longrightarrow> kept st_of (exec_cmd r s) good"
begin

lemma obs_server [simp]:
  "obs (upd_item i f s) = obs s" "obs (snd (hm_cmd_find_idle s)) = obs s" "obs (upd_payload b g s) = obs s"
  "obs (received x s) = obs s"
  by (simp_all add: upd_item_def hm_cmd_find_idle_def upd_payload_def received_def split: option.split)

lemma kept_exc_ck: "obs s = good \<Longrightarrow> kept snd (hm_cmd_exc_ck r s) good"
  using obs_exec[of s r] by (auto simp: hm_cmd_exc_ck_def kept_def)

lemma kept_msg_ck: "obs s = good \<Longrightarrow> kept id (hm_cmd_msg_ck i s) good"
proof -
  assume s: "obs s = good"
  have run: "kept snd (run_cmd_ck f (cmd_req (s_cmd_queue u ! i)) u) good" if "obs u = good" for f u
    using kept_exc_ck[OF that] by (cases f) (simp add: run_cmd_ck_def)
  show ?thesis
    unfolding hm_cmd_msg_ck_def Let_def using s
    by (intro kept_option kept_bnd_pair[OF run]) simp_all
qed

lemma kept_callback: "obs s = good \<Longrightarrow> kept id (udp_server_callback upcb b addr port s) good"
proof -
  assume s: "obs s = good"
  define u where "u = net_do (udp_connect upcb addr port) s"
  have u: "obs u = good" using s by (simp add: u_def)
  let ?bad = "length (fst (net_bufs u b)) \<noteq> sizeof_req \<or> bad_mark (req_of_bytes (fst (net_bufs u b)))"
  obtain i v where iv: "(if ?bad then (None, u) else hm_cmd_find_idle u) = (i, v)" by force
  have v: "obs v = good" using iv obs_server(2)[of u] u by (auto split: if_splits simp del: obs_server)
  show ?thesis
    unfolding udp_server_callback_def Let_def u_def[symmetric] iv prod.case
    by (intro kept_option kept_msg_ck) (simp_all add: v)
qed

lemma kept_deliver: "obs s = good \<Longrightarrow> kept id (deliver x s) good"
  unfolding deliver_def by (rule kept_callback) simp

lemma kept_input: "obs s = good \<Longrightarrow> kept id (frame_input f s) good"
  by (cases f) (simp_all add: frame_input_def kept_deliver echo_server_callback_def Let_def)

end

section \<open>The timers and the queue\<close>

definition timer_part :: "'a cmd_st_scheme \<Rightarrow> hm_timer list \<times> u32" where
  "timer_part s = (s_timers s, s_tim_count s)"

interpretation timerframe: cmd_frame timer_part
  by unfold_locales (simp_all add: timer_part_def)

interpretation timerobs: frame_obs timer_part p for p
  by unfold_locales (simp_all add: timer_part_def timerframe.kept_exec)

text \<open>The network build only ever queues two callbacks.\<close>

definition queue_ok :: "'a msg_st_scheme \<Rightarrow> bool" where
  "queue_ok s \<longleftrightarrow> msg_wf s \<and> fst ` set (queued s) \<subseteq> {CK_netwk_ck, CK_hm_cmd_reboot_ck}"

lemma queue_kept:
  assumes "msg_array t = msg_array s" and "nwrite t = nwrite s" and "nread t = nread s" and "nmin t = nmin s"
  shows "queue_ok t = queue_ok s" "msg_wf t = msg_wf s" "queued t = queued s"
  using assms by (simp_all add: queue_ok_def queued_def msgs_def msg_wf_def ring_wf_def msg_at_def msg_count_def cong: list.map_cong)

lemma queue_add:
  assumes "queue_ok s" and "f \<in> {CK_netwk_ck, CK_hm_cmd_reboot_ck}"
  shows "queue_ok (snd (hm_msg_queue_add (Some f) p s))"
  using assms add_msg_wf[of s "Some f" p] queued_add[of s f p] by (auto simp: queue_ok_def)

interpretation queueirq: irq_frame queue_ok
  by unfold_locales (rule queue_kept; simp)+

interpretation queueobs: frame_obs queue_ok True
proof
  fix s :: "'a cmd_st_scheme" and q j bf r
  show "queue_ok (s\<lparr>s_cmd_queue := q\<rparr>) = queue_ok s" "queue_ok (s\<lparr>s_queue_idx := j\<rparr>) = queue_ok s"
    "queue_ok (s\<lparr>net_bufs := bf\<rparr>) = queue_ok s" by (rule queue_kept; simp)+
  assume "queue_ok s = True"
  then show "queueirq.kept queueirq.st_of (exec_cmd r s) True"
    by (intro queueirq.kept_exec_load) (simp_all add: exec_reset_for_load_def queue_add)
qed

interpretation serverirq: irq_frame server_part
  by unfold_locales (simp_all add: server_part_def)

section \<open>The table of timers\<close>

definition repeats :: "ck_func \<Rightarrow> u32 \<Rightarrow> bool \<Rightarrow> hm_timer \<Rightarrow> bool" where
  "repeats f p dir t \<longleftrightarrow> tm_func t = Some f \<and> tm_period t = p \<and> \<not> tm_once t \<and> tm_call_direct t = dir \<and>
     0 < unat (tm_ms t) \<and> unat (tm_ms t) \<le> unat p"

text \<open>The three timers of the firmware, in the slots \<open>main\<close> gets for them.\<close>

definition fw_timers :: "hm_timer list \<Rightarrow> bool" where
  "fw_timers ts \<longleftrightarrow> length ts = 10 \<and> repeats CK_led_ck 500 True (ts ! 0) \<and> repeats CK_netwk_ck 1000 False (ts ! 1) \<and>
     repeats CK_hm_motor_limit_logical_check 100 True (ts ! 2) \<and> (\<forall>i. 3 \<le> i \<and> i < 10 \<longrightarrow> tm_func (ts ! i) = None)"

definition ms_left :: "nat \<Rightarrow> 'a timer_st_scheme \<Rightarrow> nat" where
  "ms_left i s = unat (tm_ms (s_timers s ! i))"

text \<open>A tick on which the slot \<open>j\<close> fires, with a callback that leaves the table alone.\<close>

definition ticked :: "nat \<Rightarrow> 'a timer_st_scheme \<Rightarrow> 'a timer_st_scheme" where
  "ticked j s = s\<lparr>s_tim_count := s_tim_count s + 1,
     s_timers := (dec_below j (s_timers s))[j := (s_timers s ! j)\<lparr>tm_ms := tm_period (s_timers s ! j)\<rparr>]\<rparr>"

lemma tick_fires:
  assumes len: "length (s_timers s) = 10" and j: "j < 10" "\<forall>i < j. \<not> due (s_timers s ! i)" "due (s_timers s ! j)"
    and rep: "repeats f p dir (s_timers s ! j)"
    and keep: "\<And>t. dir \<Longrightarrow> run f (tm_param (s_timers s ! j)) (ticked j s) = Ok t \<Longrightarrow> s_timers t = s_timers (ticked j s)"
  shows "SysTick_Handler run s = (if dir then run f (tm_param (s_timers s ! j)) (ticked j s)
    else Ok (snd (hm_msg_queue_add (Some f) (tm_param (s_timers s ! j)) (ticked j s))))"
proof -
  have f: "tm_func (s_timers s ! j) = Some f" "tm_ms (s_timers s ! j) = 1" "\<not> tm_once (s_timers s ! j)"
    "tm_call_direct (s_timers s ! j) = dir" using rep j(3) by (auto simp: repeats_def due_def)
  let ?u = "s\<lparr>s_tim_count := s_tim_count s + 1,
      s_timers := (dec_below j (s_timers s))[j := (s_timers s ! j)\<lparr>tm_ms := 0\<rparr>]\<rparr>"
  have u: "upd_timer j (\<lambda>t. t\<lparr>tm_ms := tm_period t\<rparr>) ?u = ticked j s"
    using len j(1) by (simp add: upd_timer_def ticked_def)
  have tj: "s_timers (ticked j s) ! j = (s_timers s ! j)\<lparr>tm_ms := tm_period (s_timers s ! j)\<rparr>"
    using len j(1) by (simp add: ticked_def)
  have "SysTick_Handler run s = timer_fire run j f ?u" by (rule tick_due[OF len j(2,1) f(1,2)])
  also have "\<dots> = (if dir then run f (tm_param (s_timers s ! j)) (ticked j s)
    else Ok (snd (hm_msg_queue_add (Some f) (tm_param (s_timers s ! j)) (ticked j s))))"
  proof (cases dir)
    case True
    then show ?thesis
      by (cases "run f (tm_param (s_timers s ! j)) (ticked j s)")
        (use f keep tj in \<open>simp_all add: timer_fire_def u Let_def\<close>)
  next
    case False
    then show ?thesis using f tj by (simp add: timer_fire_def u Let_def)
  qed
  finally show ?thesis .
qed

lemma led_act_timers [simp]: "s_timers (hm_led_act l b s) = s_timers s"
  by (simp add: hm_led_act_def GPIO_SetBits_def GPIO_ResetBits_def)

lemma led_timers [simp]: "s_timers (led_ck s) = s_timers s" "s_timers (led_ck_net s) = s_timers s"
  "s_timers (netwk_ck s) = s_timers s"
  by (simp_all add: led_ck_def led_ck_net_def netwk_ck_def LwIP_Periodic_Handle_def net_do_def Let_def)

lemma check_timers: "hm_motor_limit_logical_check s = Inr t \<Longrightarrow> s_timers t = s_timers s"
  for s t :: "'a cmd_st_scheme"
  using timerframe.kept_check[of s t] by (simp add: timer_part_def)

text \<open>One tick of the firmware: which of the three timers fires, and what is left of the others.\<close>

lemma unat_one_iff: "unat (w :: u32) = Suc 0 \<longleftrightarrow> w = 1"
  by (metis One_nat_def unat_1 word_unat_eq_iff)

lemma fw_due:
  assumes "fw_timers (s_timers s)" and "i < 10"
  shows "due (s_timers s ! i) \<longleftrightarrow> i < 3 \<and> ms_left i s = 1"
proof (cases "i < 3")
  case True
  then have "i = 0 \<or> i = 1 \<or> i = 2" by linarith
  then show ?thesis using assms(1) by (auto simp: fw_timers_def repeats_def due_def ms_left_def unat_one_iff)
next
  case False
  then show ?thesis using assms by (simp add: fw_timers_def due_def)
qed

lemma fw_tick_eq:
  assumes ts: "fw_timers (s_timers s)"
  shows "SysTick_Handler run_ck s =
    (if ms_left 0 s = 1 then Ok (led_ck (ticked 0 s))
     else if ms_left 1 s = 1 then Ok (snd (hm_msg_queue_add (Some CK_netwk_ck) (tm_param (s_timers s ! 1)) (ticked 1 s)))
     else if ms_left 2 s = 1 then hm_motor_limit_logical_check (ticked 2 s)
     else Ok (s\<lparr>s_tim_count := s_tim_count s + 1, s_timers := map dec_active (s_timers s)\<rparr>))"
proof -
  have len: "length (s_timers s) = 10" using ts by (simp add: fw_timers_def)
  note due = fw_due[OF ts]
  have rep: "repeats CK_led_ck 500 True (s_timers s ! 0)" "repeats CK_netwk_ck 1000 False (s_timers s ! 1)"
    "repeats CK_hm_motor_limit_logical_check 100 True (s_timers s ! 2)" using ts by (simp_all add: fw_timers_def)
  consider "ms_left 0 s = 1" | "ms_left 0 s \<noteq> 1" "ms_left 1 s = 1" | "ms_left 0 s \<noteq> 1" "ms_left 1 s \<noteq> 1" "ms_left 2 s = 1"
    | "ms_left 0 s \<noteq> 1" "ms_left 1 s \<noteq> 1" "ms_left 2 s \<noteq> 1" by blast
  then show ?thesis
  proof cases
    case 1
    have "SysTick_Handler run_ck s = (if True then run_ck CK_led_ck (tm_param (s_timers s ! 0)) (ticked 0 s)
        else Ok (snd (hm_msg_queue_add (Some CK_led_ck) (tm_param (s_timers s ! 0)) (ticked 0 s))))"
      by (rule tick_fires[OF len _ _ _ rep(1)]) (use 1 due[of 0] in \<open>auto simp: run_ck_def\<close>)
    then show ?thesis using 1 by (simp add: run_ck_def)
  next
    case 2
    have "\<forall>i < 1. \<not> due (s_timers s ! i)" using 2 due[of 0] by simp
    then have "SysTick_Handler run_ck s = (if False then run_ck CK_netwk_ck (tm_param (s_timers s ! 1)) (ticked 1 s)
        else Ok (snd (hm_msg_queue_add (Some CK_netwk_ck) (tm_param (s_timers s ! 1)) (ticked 1 s))))"
      by (intro tick_fires[OF len _ _ _ rep(2)]) (use 2 due[of 1] in auto)
    then show ?thesis using 2 by simp
  next
    case 3
    have "\<forall>i < 2. \<not> due (s_timers s ! i)" using 3 due by (auto simp: less_2_cases_iff)
    then have "SysTick_Handler run_ck s =
        (if True then run_ck CK_hm_motor_limit_logical_check (tm_param (s_timers s ! 2)) (ticked 2 s) else
         Ok (snd (hm_msg_queue_add (Some CK_hm_motor_limit_logical_check) (tm_param (s_timers s ! 2)) (ticked 2 s))))"
      by (intro tick_fires[OF len _ _ _ rep(3)]) (use 3 due[of 2] in \<open>auto simp: run_ck_def check_timers\<close>)
    then show ?thesis using 3 by (simp add: run_ck_def)
  next
    case 4
    have "\<forall>i < 10. \<not> due (s_timers s ! i)"
    proof (intro allI impI)
      fix i :: nat
      assume "i < 10"
      moreover have "i < 3 \<Longrightarrow> i = 0 \<or> i = 1 \<or> i = 2" by linarith
      ultimately show "\<not> due (s_timers s ! i)" using due[of i] 4 by auto
    qed
    then show ?thesis using 4 tick_none[OF len, of run_ck] by simp
  qed
qed

lemma fw_tick:
  assumes ts: "fw_timers (s_timers s)" and step: "SysTick_Handler run_ck s = Inr t"
  obtains
    (led) "ms_left 0 s = 1" "t = led_ck (ticked 0 s)"
  | (net) "ms_left 0 s \<noteq> 1" "ms_left 1 s = 1"
      "t = snd (hm_msg_queue_add (Some CK_netwk_ck) (tm_param (s_timers s ! 1)) (ticked 1 s))"
  | (check) "ms_left 0 s \<noteq> 1" "ms_left 1 s \<noteq> 1" "ms_left 2 s = 1" "hm_motor_limit_logical_check (ticked 2 s) = Inr t"
  | (none) "ms_left 0 s \<noteq> 1" "ms_left 1 s \<noteq> 1" "ms_left 2 s \<noteq> 1"
      "t = s\<lparr>s_tim_count := s_tim_count s + 1, s_timers := map dec_active (s_timers s)\<rparr>"
  using step unfolding fw_tick_eq[OF ts] by (simp split: if_splits)

lemma nth_ticked:
  assumes "length (s_timers s) = 10" and "i < 10" and "j < 10"
  shows "s_timers (ticked j s) ! i = (if i = j then (s_timers s ! j)\<lparr>tm_ms := tm_period (s_timers s ! j)\<rparr>
    else if i < j then dec_active (s_timers s ! i) else s_timers s ! i)"
  using assms by (auto simp: ticked_def nth_dec_below)

lemma repeats_dec:
  assumes "repeats f p dir t" and "unat (tm_ms t) \<noteq> 1"
  shows "repeats f p dir (dec_active t)" "unat (tm_ms (dec_active t)) = unat (tm_ms t) - 1"
proof -
  have "tm_ms t \<noteq> 0" using assms(1) by (auto simp: repeats_def)
  then have "unat (tm_ms t - 1) = unat (tm_ms t) - 1" by (rule unat_minus_one)
  then show "repeats f p dir (dec_active t)" "unat (tm_ms (dec_active t)) = unat (tm_ms t) - 1"
    using assms by (auto simp: repeats_def dec_active_def)
qed

lemma repeats_reload: "repeats f p dir t \<Longrightarrow> repeats f p dir (t\<lparr>tm_ms := tm_period t\<rparr>)"
  by (auto simp: repeats_def)

lemma fw_timersD:
  assumes "fw_timers (s_timers s)"
  shows "length (s_timers s) = 10" "repeats CK_led_ck 500 True (s_timers s ! 0)"
    "repeats CK_netwk_ck 1000 False (s_timers s ! 1)"
    "repeats CK_hm_motor_limit_logical_check 100 True (s_timers s ! 2)"
    "3 \<le> i \<Longrightarrow> i < 10 \<Longrightarrow> tm_func (s_timers s ! i) = None"
  using assms by (simp_all add: fw_timers_def)

text \<open>The table after a tick that fires the slot \<open>j\<close>, and after one that fires none.\<close>

lemma fw_ticked:
  assumes ts: "fw_timers (s_timers s)" and j: "j < 3" and before: "\<forall>i < j. ms_left i s \<noteq> 1"
  shows "fw_timers (s_timers (ticked j s))"
    "i < 3 \<Longrightarrow> ms_left i (ticked j s) = (if i = j then [500, 1000, 100] ! j else if i < j then ms_left i s - 1 else ms_left i s)"
proof -
  note d = fw_timersD[OF ts]
  have n: "s_timers (ticked j s) ! i = (if i = j then (s_timers s ! j)\<lparr>tm_ms := tm_period (s_timers s ! j)\<rparr>
    else if i < j then dec_active (s_timers s ! i) else s_timers s ! i)" if "i < 10" for i
    using nth_ticked[OF d(1) that, of j] j by simp
  have c: "j = 0 \<or> j = 1 \<or> j = 2" using j by linarith
  have m: "unat (tm_ms (s_timers s ! i)) \<noteq> 1" if "i < j" for i using before that by (simp add: ms_left_def)
  have len: "length (s_timers (ticked j s)) = 10" using d(1) by (simp add: ticked_def)
  have rep: "repeats f p dir (s_timers (ticked j s) ! i)" if "repeats f p dir (s_timers s ! i)" "i < 3" for f p dir i
    using that n[of i] m[of i] repeats_dec(1)[OF that(1)] repeats_reload[OF that(1)] by auto
  have none: "tm_func (s_timers (ticked j s) ! i) = None" if "3 \<le> i" "i < 10" for i
    using n[of i] d(5)[of i] that j by simp
  show "fw_timers (s_timers (ticked j s))"
    unfolding fw_timers_def using len none rep[OF d(2)] rep[OF d(3)] rep[OF d(4)] by simp
  have p: "tm_period (s_timers s ! 0) = 500" "tm_period (s_timers s ! 1) = 1000" "tm_period (s_timers s ! 2) = 100"
    using d by (simp_all add: repeats_def)
  have r: "\<exists>f p dir. repeats f p dir (s_timers s ! i)" if "i < 3" for i
  proof -
    have "i = 0 \<or> i = 1 \<or> i = 2" using that by linarith
    then show ?thesis using d(2-4) by blast
  qed
  assume i: "i < 3"
  obtain f q dir where q: "repeats f q dir (s_timers s ! i)" using r[OF i] by blast
  show "ms_left i (ticked j s) = (if i = j then [500, 1000, 100] ! j else if i < j then ms_left i s - 1 else ms_left i s)"
    using n[of i] i m[of i] repeats_dec(2)[OF q] p c by (auto simp: ms_left_def)
qed

lemma fw_idle_tick:
  assumes ts: "fw_timers (s_timers s)" and none: "ms_left 0 s \<noteq> 1" "ms_left 1 s \<noteq> 1" "ms_left 2 s \<noteq> 1"
    and t: "s_timers t = map dec_active (s_timers s)"
  shows "fw_timers (s_timers t)" "i < 3 \<Longrightarrow> ms_left i t = ms_left i s - 1"
proof -
  note d = fw_timersD[OF ts]
  have n: "s_timers t ! i = dec_active (s_timers s ! i)" if "i < 10" for i using t d(1) that by simp
  have m: "unat (tm_ms (s_timers s ! 0)) \<noteq> 1" "unat (tm_ms (s_timers s ! 1)) \<noteq> 1" "unat (tm_ms (s_timers s ! 2)) \<noteq> 1"
    using none by (simp_all add: ms_left_def)
  have "tm_func (s_timers t ! i) = None" if "3 \<le> i" "i < 10" for i
    using n[OF that(2)] d(5)[OF that] by (simp add: dec_active_def)
  then show "fw_timers (s_timers t)"
    unfolding fw_timers_def using t d(1) n m repeats_dec(1)[OF d(2)] repeats_dec(1)[OF d(3)] repeats_dec(1)[OF d(4)] by simp
  assume i: "i < 3"
  then have "i = 0 \<or> i = 1 \<or> i = 2" by linarith
  then show "ms_left i t = ms_left i s - 1"
    using n[of i] m repeats_dec(2)[OF d(2)] repeats_dec(2)[OF d(3)] repeats_dec(2)[OF d(4)] by (auto simp: ms_left_def)
qed

section \<open>The board under commands\<close>

lemma in_bit_loop_axes [simp]: "s_axis_info (snd (in_bit_loop n p m v s)) = s_axis_info s"
  by (induction n arbitrary: v s) (simp_all add: split_beta GPIO_ReadInputDataBit_def)

lemma in_bit_axes: "s_axis_info (snd (hm_gpio_in_bit k s)) = s_axis_info s"
  by (simp add: hm_gpio_in_bit_def Let_def split_beta GPIO_ReadInputDataBit_def)

lemma cmd_axes [simp]:
  "s_axis_info (net_do x s) = s_axis_info s" "s_axis_info (upd_debug f s) = s_axis_info s"
  "s_axis_info (snd (net_new s)) = s_axis_info s" "s_axis_info (hm_uart_debug_off v s) = s_axis_info s"
  "s_axis_info (upd_item i g s) = s_axis_info s" "s_axis_info (upd_payload b h s) = s_axis_info s"
  "s_axis_info (received d s) = s_axis_info s" "s_axis_info (snd (hm_cmd_find_idle s)) = s_axis_info s"
  by (simp_all add: net_do_def upd_debug_def net_new_def hm_uart_debug_off_def upd_item_def upd_payload_def received_def
      hm_cmd_find_idle_def split: option.split)

lemma debug_axes [simp]: "s_axis_info (hm_cmd_net_init_debug on nport s) = s_axis_info s"
  by (simp add: hm_cmd_net_init_debug_def Let_def split_beta)

lemma add_axes [simp]: "s_axis_info (snd (hm_msg_queue_add f p s)) = s_axis_info s"
  by (auto simp: hm_msg_queue_add_def msg_get_move_next_write_def msg_fill_def hm_led_act_def
      GPIO_SetBits_def GPIO_ResetBits_def disable_irq_def enable_irq_def Let_def
      split: option.splits prod.splits)

lemma board_ok_quiet [simp]:
  "board_ok (snd (hm_gpio_out_bit k v s)) = board_ok s" "board_ok (snd (hm_gpio_in_bit k s)) = board_ok s"
  "board_ok (hm_led_act l b s) = board_ok s" "board_ok (snd (hm_msg_queue_add f p s)) = board_ok s"
  by (auto intro!: iffI elim!: board_ok_same[rotated] simp: out_bit_axes in_bit_axes)

lemma board_ok_cmd [simp]:
  "board_ok (net_do x s) = board_ok s" "board_ok (upd_debug f s) = board_ok s"
  "board_ok (hm_uart_debug_off v s) = board_ok s" "board_ok (hm_cmd_net_init_debug on nport s) = board_ok s"
  "board_ok (upd_item i g s) = board_ok s" "board_ok (upd_payload b h s) = board_ok s"
  "board_ok (received d s) = board_ok s" "board_ok (snd (hm_cmd_find_idle s)) = board_ok s"
  by (auto intro!: iffI elim!: board_ok_same[rotated])

abbreviation exec_st :: "u8 \<times> u8 list \<times> 'a cmd_st_scheme \<Rightarrow> 'a cmd_st_scheme" where
  "exec_st x \<equiv> snd (snd x)"

lemma safe_sized: "board_ok s \<Longrightarrow> board_safe exec_st (f (req_input r) s) \<Longrightarrow> board_safe exec_st (sized n r f s)"
  by (simp add: sized_def)

lemma safe_exec_moves:
  assumes "board_ok s"
  shows "board_safe exec_st (exec_fix_move i s)" "board_safe exec_st (exec_keep_move i s)" "board_safe exec_st (exec_stop_move i s)"
  unfolding exec_fix_move_def exec_keep_move_def exec_stop_move_def Let_def
  using assms by (intro board_safe_pair board_safe_if safe_move safe_runs safe_sudden; simp add: split_beta safe_smooth)+

lemma safe_exec_status: "board_ok s \<Longrightarrow> board_safe exec_st (exec_axis_status i s)"
  unfolding exec_axis_status_def Let_def
  by (rule board_safe_word, rule board_safe_word, rule board_safe_word)
    (intro board_safe_pair[OF safe_hits(1)] board_safe_pair[OF safe_hits(2)]
      board_safe_pair[OF safe_hits(3)] board_safe_word; simp)

lemma safe_exec_setting: "board_ok s \<Longrightarrow> board_safe exec_st (exec_axis_setting i s)"
  by (auto simp: exec_axis_setting_def setting_set_def Let_def safe_settings split: option.splits)

lemma board_ok_fold: "(\<And>x s. board_ok s \<Longrightarrow> board_ok (f x s)) \<Longrightarrow> board_ok s \<Longrightarrow> board_ok (fold f xs s)"
  by (induction xs arbitrary: s) simp_all

lemma safe_exec_others:
  assumes "board_ok s"
  shows "board_safe exec_st (exec_set_pos i s)" "board_safe exec_st (exec_enable_axis i s)" "board_safe exec_st (exec_system_info i s)"
    "board_safe exec_st (exec_led i s)" "board_safe exec_st (exec_version i s)" "board_safe exec_st (exec_debug i s)"
    "board_safe exec_st (exec_io i s)" "board_safe exec_st (exec_reset_for_load i s)"
    "board_safe exec_st (exec_reset_board i s)"
  using assms by (simp_all add: exec_set_pos_def exec_enable_axis_def exec_system_info_def exec_led_def
      exec_version_def exec_debug_def exec_io_def exec_reset_for_load_def exec_reset_board_def Let_def split_beta safe_settings
      safe_enable board_ok_fold safe_smooth del: upt_rec_numeral)

lemma safe_exec: "board_ok s \<Longrightarrow> board_safe exec_st (exec_cmd r s)"
  unfolding exec_cmd_def Let_def
  by (intro board_safe_if safe_sized safe_exec_moves safe_exec_status safe_exec_setting safe_exec_others) simp_all

lemma safe_deliver:
  assumes "board_ok s"
  shows "board_safe id (deliver x s)"
proof -
  have run: "board_safe snd (run_cmd_ck f (cmd_req (s_cmd_queue u ! i)) u)" if "board_ok u" for f i and u :: "'a cmd_st_scheme"
    using safe_exec[OF that] by (cases f) (auto simp: run_cmd_ck_def hm_cmd_exc_ck_def board_safe_def)
  have msg: "board_safe id (hm_cmd_msg_ck i u)" if "board_ok u" for i and u :: "'a cmd_st_scheme"
    unfolding hm_cmd_msg_ck_def Let_def using that
    by (auto split: option.split intro!: board_safe_pair[OF run])
  define u where "u = net_do (udp_connect (dg_upcb x) (dg_addr x) (dg_port x)) (received x s)"
  have u: "board_ok u" using assms by (simp add: u_def)
  let ?d = "fst (net_bufs u (dg_buf x))"
  let ?bad = "length ?d \<noteq> sizeof_req \<or> bad_mark (req_of_bytes ?d)"
  obtain i v where iv: "(if ?bad then (None, u) else hm_cmd_find_idle u) = (i, v)" by force
  have v: "board_ok v" using iv board_ok_cmd(8)[of u] u by (auto split: if_splits simp del: board_ok_cmd)
  show ?thesis
    unfolding deliver_def udp_server_callback_def Let_def u_def[symmetric] iv prod.case
    using v by (auto split: option.split intro!: msg)
qed

section \<open>The invariant of the firmware\<close>

definition fw_ok :: "'a fw_st_scheme \<Rightarrow> bool" where
  "fw_ok s \<longleftrightarrow> board_ok s \<and> queue_ok s \<and> server_ready s \<and> fw_timers (s_timers s)"

lemma server_same:
  assumes "s_cmd_queue t = s_cmd_queue s" and "s_cmd_table t = s_cmd_table s"
  shows "server_ready t = server_ready s"
proof -
  have "registered t c = registered s c" for c by (rule registered_table[OF assms(2)])
  then show ?thesis using assms(1) by (simp add: server_ready_def)
qed

lemma server_part_same: "server_part t = server_part s \<Longrightarrow> server_ready t = server_ready s"
  by (rule server_same) (simp_all add: server_part_def)

lemma fw_ok_same:
  assumes "fw_ok s" and "s_axis_info t = s_axis_info s" and "server_part t = server_part s" and "queue_ok t"
    and "fw_timers (s_timers t)"
  shows "fw_ok t"
  using assms board_ok_same[OF assms(2)] server_part_same[OF assms(3)] by (simp add: fw_ok_def)

text \<open>An event that has the three frames.\<close>

lemma fw_ok_framed:
  assumes s: "fw_ok s" and t: "m = Inr t"
    and b: "board_safe id m" and q: "queueirq.kept id m True" and v: "netframe.kept id m (server_part s)"
    and tm: "timerframe.kept id m (timer_part s)"
  shows "fw_ok t"
proof -
  have "board_ok t" using b t by (simp add: board_safe_def)
  moreover have "queue_ok t" using q t by (simp add: queueirq.kept_def)
  moreover have "server_part t = server_part s" using v t by (simp add: netframe.kept_def)
  moreover have "s_timers t = s_timers s" using tm t by (simp add: timerframe.kept_def timer_part_def)
  ultimately show ?thesis using s server_part_same[of t s] by (simp add: fw_ok_def)
qed

lemma queue_upd [simp]:
  "queue_ok (s\<lparr>s_tim_count := c\<rparr>) = queue_ok s" "queue_ok (s\<lparr>s_timers := ts\<rparr>) = queue_ok s"
  "queue_ok (u\<lparr>led_i := w\<rparr>) = queue_ok u" "queue_ok (u\<lparr>ARPTimer := w\<rparr>) = queue_ok u"
  "queue_ok (u\<lparr>s_count := w\<rparr>) = queue_ok u"
  by (rule queue_kept; simp)+

lemma server_part_upd [simp]:
  "server_part (s\<lparr>s_tim_count := c\<rparr>) = server_part s" "server_part (s\<lparr>s_timers := ts\<rparr>) = server_part s"
  "server_part (u\<lparr>led_i := w\<rparr>) = server_part u" "server_part (u\<lparr>ARPTimer := w\<rparr>) = server_part u"
  "server_part (u\<lparr>s_count := w\<rparr>) = server_part u"
  by (simp_all add: server_part_def)

lemma fw_tick_ok:
  assumes s: "fw_ok s" and step: "SysTick_Handler run_ck s = Inr t"
  shows "fw_ok t"
proof -
  have ts: "fw_timers (s_timers s)" and q: "queue_ok s" using s by (simp_all add: fw_ok_def)
  have tick: "fw_ok (ticked j s)" if "j < 3" "\<forall>i < j. ms_left i s \<noteq> 1" for j
    by (rule fw_ok_same[OF s])
      (use q fw_ticked(1)[OF ts that] in \<open>simp_all add: ticked_def\<close>)
  show ?thesis
  proof (rule fw_tick[OF ts step])
    assume "t = led_ck (ticked 0 s)"
    moreover have u: "fw_ok (ticked 0 s)" using tick[of 0] by simp
    ultimately show ?thesis
      by (intro fw_ok_same[OF u]) (simp_all add: fw_ok_def led_ck_def Let_def)
  next
    assume a: "ms_left 0 s \<noteq> 1" and t: "t = snd (hm_msg_queue_add (Some CK_netwk_ck) (tm_param (s_timers s ! 1)) (ticked 1 s))"
    have u: "fw_ok (ticked 1 s)" using tick[of 1] a by simp
    show ?thesis unfolding t
      by (rule fw_ok_same[OF u]) (use u in \<open>simp_all add: netframe.obs_queue_add queue_add fw_ok_def\<close>)
  next
    assume a: "ms_left 0 s \<noteq> 1" "ms_left 1 s \<noteq> 1" and t: "hm_motor_limit_logical_check (ticked 2 s) = Inr t"
    have u: "fw_ok (ticked 2 s)" using tick[of 2] a by (simp add: less_2_cases_iff)
    show ?thesis
    proof (rule fw_ok_framed[OF u t])
      show "board_safe id (hm_motor_limit_logical_check (ticked 2 s))" using u by (intro safe_check) (simp add: fw_ok_def)
    qed (use u queueirq.kept_check netframe.kept_check timerframe.kept_check in
        \<open>auto simp: queueirq.kept_def netframe.kept_def timerframe.kept_def fw_ok_def\<close>)
  next
    assume a: "ms_left 0 s \<noteq> 1" "ms_left 1 s \<noteq> 1" "ms_left 2 s \<noteq> 1"
      and t: "t = s\<lparr>s_tim_count := s_tim_count s + 1, s_timers := map dec_active (s_timers s)\<rparr>"
    show ?thesis
      by (rule fw_ok_same[OF s]) (use t q fw_idle_tick(1)[OF ts a, of t] in simp_all)
  qed
qed

lemma popped_axes [simp]:
  "s_axis_info (ring_popped s) = s_axis_info s" "server_part (ring_popped u) = server_part u"
  "s_timers (ring_popped v) = s_timers v"
  by (simp_all add: ring_popped_def server_part_def enable_irq_def disable_irq_def)

lemma queue_popped:
  assumes "queue_ok s" and "queued s \<noteq> []"
  shows "queue_ok (ring_popped s)"
proof -
  have wf: "msg_wf s" using assms(1) by (simp add: queue_ok_def)
  have ne: "msg_count s \<noteq> 0" using assms(2) unfolding queued_Nil_iff .
  have q: "queued (ring_popped s) = tl (queued s)"
    unfolding queued_def msgs_popped[OF msg_wf_ring[OF wf] ne] by (rule map_tl)
  have "set (queued (ring_popped s)) \<subseteq> set (queued s)" unfolding q by (metis list.set_sel(2) subsetI tl_Nil)
  then have "fst ` set (queued (ring_popped s)) \<subseteq> fst ` set (queued s)" by (rule image_mono)
  then have "fst ` set (queued (ring_popped s)) \<subseteq> {CK_netwk_ck, CK_hm_cmd_reboot_ck}"
    by (rule subset_trans) (use assms(1) in \<open>simp add: queue_ok_def\<close>)
  then show ?thesis unfolding queue_ok_def using popped_msg_wf[OF wf ne] by (rule conjI[rotated])
qed

lemma queued_upd [simp]: "queued (u\<lparr>ARPTimer := w\<rparr>) = queued u" "queued (net_do x v) = queued v"
  by (rule queue_kept(3); simp add: net_do_def)+

lemma netwk_same:
  "s_axis_info (netwk_ck s) = s_axis_info s" "server_part (netwk_ck s) = server_part s" "queue_ok (netwk_ck s) = queue_ok s"
  "nread (netwk_ck s) = nread s" "queued (netwk_ck s) = queued s"
  by (simp_all add: netwk_ck_def LwIP_Periodic_Handle_def) (simp add: net_do_def)

text \<open>A turn of the main loop: nothing waits, or the periodic network work, or the board is reset.\<close>

lemma fw_turn:
  assumes s: "fw_ok s"
  obtains (none) "queued s = []" "main_turn s = Ok s"
  | (net) p ms where "queued s = (CK_netwk_ck, p) # ms" "main_turn s = Ok (ring_popped (netwk_ck s))"
  | (reboot) p ms where "queued s = (CK_hm_cmd_reboot_ck, p) # ms"
      "main_turn s = Fault (if hm_delay (spin_fuel s) (delay_reads s) 500 = None then Hang else SystemReset)"
proof (cases "queued s")
  case Nil
  have "main_turn s = Ok s" unfolding main_turn_def
    by (rule msg_main_idle) (use s Nil in \<open>simp_all add: fw_ok_def queue_ok_def\<close>)
  then show thesis by (rule none[OF Nil])
next
  case (Cons m ms)
  obtain f p where m: "m = (f, p)" by (cases m)
  have wf: "msg_wf s" and f: "f = CK_netwk_ck \<or> f = CK_hm_cmd_reboot_ck"
    using s Cons m by (auto simp: fw_ok_def queue_ok_def)
  have run: "main_turn s = bnd (run_ck f p s) (msg_move_next_read (unat (nread s)))"
    unfolding main_turn_def by (rule msg_main_runs[OF wf]) (simp add: Cons m)
  show thesis
  proof (cases "f = CK_netwk_ck")
    case True
    have "main_turn s = Ok (ring_popped (netwk_ck s))"
      using run True msg_move_next_read_eq[of "netwk_ck s"] by (simp add: run_ck_def netwk_same)
    then show thesis using net Cons m True by simp
  next
    case False
    then have "f = CK_hm_cmd_reboot_ck" using f by simp
    then show thesis using run reboot[of p ms] Cons m
      by (cases "hm_delay (spin_fuel s) (delay_reads s) 500") (simp_all add: run_ck_def hm_cmd_reboot_ck_def)
  qed
qed

lemma fw_turn_ok:
  assumes s: "fw_ok s" and t: "main_turn s = Inr t"
  shows "fw_ok t"
  using s
proof (cases rule: fw_turn)
  case none
  then show ?thesis using s t by simp
next
  case (net p ms)
  have t: "t = ring_popped (netwk_ck s)" using t net by simp
  show ?thesis unfolding t
    by (rule fw_ok_same[OF s]) (use s net in \<open>simp_all add: netwk_same queue_popped fw_ok_def\<close>)
next
  case (reboot p ms)
  then show ?thesis using t by simp
qed

lemma safe_dma_vector: "board_ok s \<Longrightarrow> board_safe id (dma_vector c s)"
  by (cases c) (simp_all add: dma_vector_def DMA1_Channel5_IRQHandler_def DMA1_Channel2_IRQHandler_def
      DMA1_Channel3_IRQHandler_def DMA1_Channel7_IRQHandler_def safe_channel)

lemma fw_ok_frame:
  assumes s: "fw_ok s" and step: "frame_handled f s = Inr t"
  shows "fw_ok t"
proof -
  obtain u where u: "frame_input f s = Inr u" and t: "t = u\<lparr>s_count := s_count u + 1\<rparr>"
    using step by (auto simp: frame_handled_def)
  have b: "board_ok u" using s u safe_deliver[of s]
    by (cases f) (auto simp: frame_input_def fw_ok_def board_safe_def echo_server_callback_def Let_def)
  have q: "queue_ok u" using s u queueobs.kept_input[of s f] by (simp add: queueirq.kept_def fw_ok_def)
  have tm: "s_timers u = s_timers s" using u timerobs.kept_input[of s "timer_part s" f]
    by (simp add: timerframe.kept_def timer_part_def)
  have "server_ready u"
  proof (cases f)
    case (CmdFrame x)
    then show ?thesis using deliver_pool[of s x u] s u by (simp add: frame_input_def fw_ok_def)
  next
    case (EchoFrame x)
    then have "s_cmd_queue u = s_cmd_queue s" "s_cmd_table u = s_cmd_table s"
      using u by (auto simp: frame_input_def echo_server_callback_def net_do_def received_def Let_def)
    then show ?thesis using server_same[of u s] s by (simp add: fw_ok_def)
  next
    case (RefusedFrame b)
    then have "s_cmd_queue u = s_cmd_queue s" "s_cmd_table u = s_cmd_table s" using u by (auto simp: frame_input_def net_do_def)
    then show ?thesis using server_same[of u s] s by (simp add: fw_ok_def)
  qed (use s u in \<open>simp add: frame_input_def fw_ok_def\<close>)
  then have "fw_ok u" using b q tm s by (simp add: fw_ok_def)
  then show ?thesis by (rule fw_ok_same) (simp_all add: t q tm, use s in \<open>simp add: fw_ok_def\<close>)
qed

lemma fw_step_ok:
  assumes s: "fw_ok s" and step: "fw_step e s = Inr t"
  shows "fw_ok t"
proof (cases e)
  case EvTick
  then show ?thesis using fw_tick_ok[OF s] step by simp
next
  case EvTurn
  then show ?thesis using fw_turn_ok[OF s] step by simp
next
  case (EvLine k)
  then have t: "exti_vector k s = Inr t" using step by simp
  show ?thesis
    by (rule fw_ok_framed[OF s t])
      (use s in \<open>simp_all add: safe_exti queueirq.kept_exti serverirq.kept_exti timerobs.kept_exti fw_ok_def\<close>)
next
  case (EvDma c)
  then have t: "dma_vector c s = Inr t" using step by simp
  show ?thesis
    by (rule fw_ok_framed[OF s t])
      (use s in \<open>simp_all add: safe_dma_vector queueirq.kept_dma_vector serverirq.kept_dma_vector
         timerobs.kept_dma_vector fw_ok_def\<close>)
next
  case EvTim1
  then have t: "t = TIM1_UP_IRQHandler s" using step by simp
  have "board_ok t" unfolding t TIM1_UP_IRQHandler_def using s by (intro board_ok_upd) (simp_all add: fw_ok_def)
  moreover have "queue_ok t" using s by (simp add: t queueirq.obs_tim1 fw_ok_def)
  moreover have "server_ready t = server_ready s" by (rule server_same) (simp_all add: t TIM1_UP_IRQHandler_def upd_axis_def)
  moreover have "s_timers t = s_timers s" by (simp add: t TIM1_UP_IRQHandler_def upd_axis_def)
  ultimately show ?thesis using s by (simp add: fw_ok_def)
next
  case (EvFrames fs)
  then have "for_each frame_handled fs s = Ok t" using step by (simp add: frames_handled_def)
  then show ?thesis by (rule for_each_inv[where P = fw_ok, OF _ s]) (rule fw_ok_frame)
next
  case (EvEth h)
  then have t: "t = s\<lparr>eth := h\<rparr>" using step by simp
  have "queue_ok t = queue_ok s" unfolding t by (rule queue_kept) simp_all
  then show ?thesis using s by (intro fw_ok_same[OF s]) (simp_all add: t server_part_def fw_ok_def)
next
  case (EvHw lv ex tm dm isr)
  then have t: "t = s\<lparr>pin_level := lv, exti := ex, tim := tm, dma := dm, DMA1_ISR := isr\<rparr>" using step by simp
  have "queue_ok t = queue_ok s" unfolding t by (rule queue_kept) simp_all
  then show ?thesis using s by (intro fw_ok_same[OF s]) (simp_all add: t server_part_def fw_ok_def)
qed

lemma fw_run_ok:
  assumes "fw_run evs s = Ok t" and "fw_ok s"
  shows "fw_ok t"
  by (rule for_each_inv[OF assms(1)[unfolded fw_run_def], of fw_ok, OF assms(2)]) (rule fw_step_ok)

section \<open>The check of the switches is in time\<close>

lemma fw_step_timers:
  assumes s: "fw_ok s" and step: "fw_step e s = Inr t" and e: "e \<noteq> EvTick"
  shows "s_timers t = s_timers s"
proof (cases e)
  case EvTurn
  then have t: "main_turn s = Inr t" using step by simp
  show ?thesis by (rule fw_turn[OF s]) (use t in auto)
next
  case (EvLine k)
  then show ?thesis using step timerobs.kept_exti[of s "timer_part s" k] by (simp add: timerframe.kept_def timer_part_def)
next
  case (EvDma c)
  then show ?thesis using step timerobs.kept_dma_vector[of s "timer_part s" c]
    by (simp add: timerframe.kept_def timer_part_def)
next
  case (EvFrames fs)
  then have "for_each frame_handled fs s = Ok t" using step by (simp add: frames_handled_def)
  then show ?thesis
  proof (rule for_each_inv[where P = "\<lambda>u. s_timers u = s_timers s"])
    fix f u v
    assume u: "s_timers u = s_timers s" and "frame_handled f u = Ok v"
    then show "s_timers v = s_timers s" using timerobs.kept_input[of u "timer_part u" f]
      by (auto simp: frame_handled_def timerframe.kept_def timer_part_def)
  qed simp
qed (use step e in \<open>auto simp: TIM1_UP_IRQHandler_def upd_axis_def\<close>)

definition is_tick :: "fw_event \<Rightarrow> bool" where
  "is_tick e \<longleftrightarrow> (case e of EvTick \<Rightarrow> True | _ \<Rightarrow> False)"

lemma is_tick [simp]: "is_tick EvTick" "\<not> is_tick EvTurn" "e \<noteq> EvTick \<Longrightarrow> \<not> is_tick e"
  by (cases e; simp add: is_tick_def)+

text \<open>
  The ticks until the check runs: those it still counts, and one for each of the two timers in front of
  it that fires before.
\<close>

definition wait_left :: "nat \<Rightarrow> 'a timer_st_scheme \<Rightarrow> nat" where
  "wait_left b s = ms_left 2 s + (if ms_left 0 s \<le> b then 1 else 0) + (if ms_left 1 s \<le> b then 1 else 0)"

lemma ms_left_pos: "fw_timers (s_timers s) \<Longrightarrow> i < 3 \<Longrightarrow> 0 < ms_left i s"
proof -
  assume "fw_timers (s_timers s)" and "i < 3"
  moreover from \<open>i < 3\<close> have "i = 0 \<or> i = 1 \<or> i = 2" by linarith
  ultimately show ?thesis by (auto simp: fw_timers_def repeats_def ms_left_def)
qed

lemma wait_tick:
  assumes s: "fw_ok s" and step: "SysTick_Handler run_ck s = Inr t" and b: "wait_left (Suc b) s \<le> Suc b" "b < 102"
  shows "hm_motor_limit_logical_check (ticked 2 s) = Inr t \<or> wait_left b t \<le> b"
proof -
  have ts: "fw_timers (s_timers s)" using s by (simp add: fw_ok_def)
  note pos = ms_left_pos[OF ts]
  show ?thesis
  proof (rule fw_tick[OF ts step])
    assume a: "ms_left 0 s = 1" and t: "t = led_ck (ticked 0 s)"
    have "ms_left i t = (if i = 0 then 500 else ms_left i s)" if "i < 3" for i
    proof -
      have "ms_left i t = ms_left i (ticked 0 s)" by (simp add: t ms_left_def)
      then show ?thesis using fw_ticked(2)[OF ts _ _ that, of 0] by simp
    qed
    then show ?thesis using a b by (auto simp: wait_left_def split: if_splits)
  next
    assume a: "ms_left 0 s \<noteq> 1" "ms_left 1 s = 1"
      and t: "t = snd (hm_msg_queue_add (Some CK_netwk_ck) (tm_param (s_timers s ! 1)) (ticked 1 s))"
    have "ms_left i t = (if i = 1 then 1000 else if i < 1 then ms_left i s - 1 else ms_left i s)" if "i < 3" for i
    proof -
      have "ms_left i t = ms_left i (ticked 1 s)" by (simp add: t ms_left_def)
      then show ?thesis using fw_ticked(2)[OF ts _ _ that, of 1] a by simp
    qed
    then show ?thesis using a b pos[of 0] by (auto simp: wait_left_def split: if_splits)
  next
    assume a: "ms_left 0 s \<noteq> 1" "ms_left 1 s \<noteq> 1" "ms_left 2 s \<noteq> 1"
      and t: "t = s\<lparr>s_tim_count := s_tim_count s + 1, s_timers := map dec_active (s_timers s)\<rparr>"
    have "ms_left i t = ms_left i s - 1" if "i < 3" for i
      by (rule fw_idle_tick(2)[OF ts a _ that]) (simp add: t)
    then show ?thesis using a b pos[of 0] pos[of 1] pos[of 2] by (auto simp: wait_left_def split: if_splits)
  qed simp
qed

lemma check_comes:
  assumes "fw_ok s" and "fw_run evs s = Ok t" and "b \<le> length (filter is_tick evs)" and "wait_left b s \<le> b" and "b \<le> 102"
  shows "\<exists>es rest u v. evs = es @ EvTick # rest \<and> length (filter is_tick es) < b \<and> fw_run es s = Ok u \<and> fw_ok u \<and>
    fw_step EvTick u = Ok v \<and> hm_motor_limit_logical_check (ticked 2 u) = Ok v"
  using assms
proof (induction evs arbitrary: s b)
  case Nil
  have "0 < ms_left 2 s" using ms_left_pos[of s 2] Nil.prems(1) by (simp add: fw_ok_def)
  then show ?case using Nil.prems(3,4) by (simp add: wait_left_def)
next
  case (Cons e evs)
  obtain w where w: "fw_step e s = Ok w" and rest: "fw_run evs w = Ok t" using Cons.prems(2) by (auto simp: fw_run_def)
  have okw: "fw_ok w" by (rule fw_step_ok[OF Cons.prems(1) w])
  have ext: "?case" if "\<exists>es rest u v. evs = es @ EvTick # rest \<and> length (filter is_tick (e # es)) < b \<and> fw_run es w = Ok u \<and>
      fw_ok u \<and> fw_step EvTick u = Ok v \<and> hm_motor_limit_logical_check (ticked 2 u) = Ok v"
  proof -
    obtain es rest u v where x: "evs = es @ EvTick # rest" "length (filter is_tick (e # es)) < b" "fw_run es w = Ok u"
      "fw_ok u" "fw_step EvTick u = Ok v" "hm_motor_limit_logical_check (ticked 2 u) = Ok v" using \<open>\<exists>es rest u v. _\<close> by blast
    have "fw_run (e # es) s = Ok u" using w x(3) by (simp add: fw_run_def)
    then show ?thesis using x by (intro exI[of _ "e # es"] exI[of _ rest] exI[of _ u] exI[of _ v]) simp
  qed
  have pos: "0 < b" using ms_left_pos[of s 2] Cons.prems(1,4) by (simp add: fw_ok_def wait_left_def)
  then obtain b' where b': "b = Suc b'" by (cases b) auto
  show ?case
  proof (cases "e = EvTick")
    case True
    then have tick: "SysTick_Handler run_ck s = Inr w" using w by simp
    show ?thesis
    proof (cases "hm_motor_limit_logical_check (ticked 2 s) = Inr w")
      case check: True
      show ?thesis
        by (rule exI[of _ "[]"], rule exI[of _ evs], rule exI[of _ s], rule exI[of _ w])
          (use True check w pos Cons.prems(1) in \<open>simp add: fw_run_def\<close>)
    next
      case False
      then have "wait_left b' w \<le> b'" using wait_tick[OF Cons.prems(1) tick, of b'] Cons.prems(4,5) b' by simp
      then show ?thesis using Cons.IH[OF okw rest, of b'] Cons.prems(3,5) b' True by (intro ext) simp
    qed
  next
    case False
    have "s_timers w = s_timers s" by (rule fw_step_timers[OF Cons.prems(1) w False])
    then have "wait_left b w = wait_left b s" by (simp add: wait_left_def ms_left_def)
    then show ?thesis using Cons.IH[OF okw rest, of b] Cons.prems(3-5) False by (intro ext) simp
  qed
qed

lemma ticked_sel [simp]:
  "s_axis_info (ticked j s) = s_axis_info s" "input_reads (ticked j s') = input_reads s'" "pin_level (ticked j s') = pin_level s'"
  by (simp_all add: ticked_def)

lemma ticked_check:
  "axis a (ticked j s) = axis a s" "steady (ticked j s) = steady s" "check_stops a (ticked j s) = check_stops a s"
  "checked a (ticked j s) q = checked a s q"
proof -
  show ax: "axis a (ticked j s) = axis a s" by (rule axis_same) simp
  show "steady (ticked j s) = steady s" by (simp add: steady_def)
  have "sw_low sw c m (ticked j s) = sw_low sw c m s" for sw c m by (cases sw) (simp_all add: low_at_def)
  then have "closed_sw sw a (ticked j s) = closed_sw sw a s" for sw by (simp add: closed_sw_def ax)
  then show e: "check_stops a (ticked j s) = check_stops a s" and "checked a (ticked j s) q = checked a s q"
    unfolding checked_def ax by (simp_all add: check_stops_def ax)
qed

text \<open>With inputs that never change, ticks alone do not end in a fault.\<close>

definition quiet :: "'a hw_st_scheme \<Rightarrow> bool" where
  "quiet s \<longleftrightarrow> (\<forall>n. pin_level s n = pin_level s 0)"

interpretation pinframe: drv_frame pin_level
  by unfold_locales simp_all

lemma msg_add_pins: "pin_level (snd (hm_msg_queue_add f p s)) = pin_level s"
  by (simp add: hm_msg_queue_add_def ismsg_full_def msg_get_move_next_write_def msg_fill_def Let_def
      enable_irq_def disable_irq_def split: option.split)

lemma quiet_tick:
  assumes s: "fw_ok s" and q: "quiet s"
  shows "\<exists>t. SysTick_Handler run_ck s = Ok t \<and> fw_ok t \<and> quiet t"
proof -
  have ts: "fw_timers (s_timers s)" using s by (simp add: fw_ok_def)
  have st: "steady (ticked 2 s)" using q by (simp add: ticked_check steady_def quiet_def) metis
  have b: "board_ok s" using s by (simp add: fw_ok_def)
  have "board_ok (ticked 2 s)" by (rule board_ok_same[OF _ b]) (simp add: ticked_def)
  then obtain v where v: "hm_motor_limit_logical_check (ticked 2 s) = Ok v"
    using limit_check_run[OF board_motor_ok st] by blast
  obtain t where t: "SysTick_Handler run_ck s = Ok t" using fw_tick_eq[OF ts] v by (simp split: if_splits)
  have "pin_level t = pin_level s"
  proof (rule fw_tick[OF ts t])
    assume "t = led_ck (ticked 0 s)"
    then show ?thesis by (simp add: led_ck_def Let_def hm_led_act_def GPIO_SetBits_def GPIO_ResetBits_def)
  next
    assume "hm_motor_limit_logical_check (ticked 2 s) = Inr t"
    then show ?thesis using pinframe.kept_check[of "ticked 2 s" t] by simp
  qed (simp_all add: msg_add_pins)
  then show ?thesis using t q fw_tick_ok[OF s t] by (simp add: quiet_def)
qed

lemma quiet_ticks:
  "fw_ok s \<Longrightarrow> quiet s \<Longrightarrow> \<exists>t. fw_run (replicate n EvTick) s = Ok t"
proof (induction n arbitrary: s)
  case (Suc n)
  then show ?case using quiet_tick[of s] by (auto simp: fw_run_def)
qed (simp add: fw_run_def)

end
