(* ===== verification/Fw_Boot.thy ===== *)
theory Fw_Boot
  imports Fw_Safety Eth_Send
begin

text \<open>
  The set up of the firmware in \<^verbatim>\<open>main.c\<close>, from the loaded image to the loop: it ends in a state
  where the invariant of \<open>Fw_Safety\<close> holds, and with it what the running firmware promises.
\<close>

section \<open>What the set up of a driver leaves alone\<close>

locale hw_frame =
  fixes obs :: "'a fw_st_scheme \<Rightarrow> 'o"
  assumes obs_regs [simp]: "obs (s\<lparr>gpio := g\<rparr>) = obs s" "obs (s\<lparr>input_reads := n\<rparr>) = obs s" "obs (s\<lparr>MAPR := w\<rparr>) = obs s"
      "obs (s\<lparr>MAPR2 := w\<rparr>) = obs s" "obs (s\<lparr>EXTICR := ws\<rparr>) = obs s" "obs (s\<lparr>exti := e\<rparr>) = obs s"
      "obs (s\<lparr>tim := r\<rparr>) = obs s" "obs (s\<lparr>dma := d\<rparr>) = obs s" "obs (s\<lparr>DMA1_ISR := w\<rparr>) = obs s"
      "obs (s\<lparr>AHBENR := w\<rparr>) = obs s" "obs (s\<lparr>APB1ENR := w\<rparr>) = obs s" "obs (s\<lparr>APB2ENR := w\<rparr>) = obs s"
    and obs_rcc [simp]: "obs (s\<lparr>RCC_CFGR2 := w\<rparr>) = obs s" "obs (s\<lparr>rcc_PLL3ON := b\<rparr>) = obs s"
      "obs (s\<lparr>rcc_MCO := v\<rparr>) = obs s" "obs (s\<lparr>rcc_reads := n\<rparr>) = obs s"
begin

lemma obs_clocks [simp]:
  "obs (RCC_AHBPeriphClockCmd m b s) = obs s" "obs (RCC_APB1PeriphClockCmd m b s) = obs s"
  "obs (RCC_APB2PeriphClockCmd m b s) = obs s" "obs (RCC_PLL3Config w s) = obs s" "obs (RCC_PLL3Cmd b s) = obs s"
  "obs (RCC_MCOConfig v s) = obs s" "obs (enable_all_Ports s) = obs s"
  by (simp_all add: RCC_AHBPeriphClockCmd_def RCC_APB1PeriphClockCmd_def RCC_APB2PeriphClockCmd_def RCC_PLL3Config_def
      RCC_PLL3Cmd_def RCC_MCOConfig_def enable_all_Ports_def)

lemma obs_pins [simp]:
  "obs (GPIO_Init p i s) = obs s" "obs (GPIO_SetBits p m s) = obs s" "obs (GPIO_ResetBits p m s) = obs s"
  "obs (GPIO_EXTILineConfig x y s) = obs s" "obs (GPIO_PinRemapConfig w b s) = obs s" "obs (EXTI_Init ei s) = obs s"
  "obs (GPIO_ETH_MediaInterfaceConfig b s) = obs s" "obs (hm_led_act l b s) = obs s"
  "obs (snd (GPIO_ReadInputDataBit p m s)) = obs s"
  by (simp_all add: GPIO_Init_def GPIO_SetBits_def GPIO_ResetBits_def GPIO_EXTILineConfig_def GPIO_PinRemapConfig_def
      EXTI_Init_def GPIO_ETH_MediaInterfaceConfig_def hm_led_act_def GPIO_ReadInputDataBit_def Let_def split_beta)

lemma obs_board_init [simp]:
  "obs (hm_led_init s) = obs s" "obs (hm_gpio_init s) = obs s" "obs (GPIO_Configuration s) = obs s"
  "obs (gpio_in_init_one io s) = obs s"
  by (simp_all add: hm_led_init_def led_init_one_def hm_gpio_init_def gpio_out_init_one_def gpio_in_init_one_def
      GPIO_Configuration_def gpio_cfg_def Let_def fold_same[where g = obs])

lemma obs_timer_chan [simp]:
  "obs (upd_tim t f s) = obs s" "obs (tim_init_timer p q s) = obs s" "obs (tim_init_channel a p s) = obs s"
  "obs (tim_init_clocks p s) = obs s" "obs (tim_init_pin p s) = obs s"
  "obs (limit_gpio c s) = obs s" "obs (limit_mux c s) = obs s" "obs (limit_exti_all b c s) = obs s"
proof -
  show u: "obs (upd_tim t f s) = obs s" for t f s by (simp add: upd_tim_def)
  show "obs (tim_init_timer p q s) = obs s"
    by (simp add: tim_init_timer_def Let_def TIM_DeInit_def TIM_TimeBaseInit_def TIM_OC1Init_def TIM_OC2Init_def
      TIM_OC3Init_def TIM_OC4Init_def TIM_ARRPreloadConfig_def TIM_DMAConfig_def TIM_DMACmd_def TIM_CtrlPWMOutputs_def u)
qed (simp_all add: tim_init_channel_def DMA_DeInit_def DMA_Init_def DMA_ITConfig_def write_IFCR_def tim_init_clocks_def
    tim_init_pin_def limit_gpio_def limit_mux_def limit_exti_all_def Let_def)

lemma obs_wait: "wait_flag n flag s = Inr t \<Longrightarrow> obs t = obs s"
  by (induction n arbitrary: s) (auto simp: RCC_GetFlagStatus_def Let_def split_beta split: if_splits)

end

locale init_frame = hw_frame +
  assumes obs_table [simp]: "obs (s\<lparr>s_axis_info := i\<rparr>) = obs s"
begin

lemma obs_upd_axis [simp]: "obs (upd_axis a f s) = obs s" "obs (upd_hw a h s) = obs s"
  by (simp_all add: upd_axis_def upd_hw_def)

lemma obs_enable [simp]: "obs (snd (hm_motor_enable_axis a b s)) = obs s"
  by (simp add: hm_motor_enable_axis_def)

lemma obs_info_data:
  "hm_motor_hw_info_init a s = Inr t \<Longrightarrow> obs t = obs s" "hm_motor_data_init a s = Inr t \<Longrightarrow> obs t = obs s"
  by (auto simp: hm_motor_hw_info_init_def hm_motor_hw_limit_config_def hm_motor_data_init_def hm_mark_axis_state_def
      hm_step_motor_set_home_stop_mode_def Let_def on_axis_def split: if_splits)

lemma obs_tim_one: "tim_init_one a s = Inr t \<Longrightarrow> obs t = obs s"
  by (auto simp: tim_init_one_def hm_motor_hw_limit_init_def Let_def on_axis_def split: if_splits)

lemma obs_motor_init:
  assumes "hm_step_motor_init s = Inr t"
  shows "obs t = obs s"
proof -
  obtain u where u: "for_each (\<lambda>a s. bnd (hm_motor_hw_info_init a s) (hm_motor_data_init a)) [0..<HM_MAX_AXIS] s = Ok u"
    and t: "for_each tim_init_one [0..<HM_MAX_AXIS] u = Ok t"
    using assms by (auto simp: hm_step_motor_init_def hm_motor_tim_init_def)
  have "obs u = obs s" by (rule for_each_inv[OF u, of "\<lambda>v. obs v = obs s"]) (auto dest!: obs_info_data)
  moreover have "obs t = obs u" by (rule for_each_inv[OF t, of "\<lambda>v. obs v = obs u"]) (auto dest!: obs_tim_one)
  ultimately show ?thesis by simp
qed

end

section \<open>Registering the timers\<close>

lemma register_at:
  assumes "length (s_timers s) = 10" and "k < 10" and "\<forall>i < k. tm_func (s_timers s ! i) \<noteq> None"
    and "tm_func (s_timers s ! k) = None" and "\<forall>i < 10. tm_func (s_timers s ! i) \<noteq> Some f"
  shows "hm_timer_register ms (Some f) p once dir s =
    (Some k, upd_timer k (\<lambda>t. \<lparr>tm_func = Some f, tm_param = p, tm_period = ms, tm_ms = ms,
       tm_once = once, tm_call_direct = dir\<rparr>) s)"
proof -
  have "free_slot (s_timers s) = Some k"
    unfolding free_slot_def using assms(1-4) by (auto simp: find_Some_iff intro!: exI[of _ k])
  moreover have "\<not> timer_dup (s_timers s) (Some f) ms"
    using assms(1,5) by (auto simp: timer_dup_def in_set_conv_nth)
  ultimately show ?thesis using hm_timer_register_eq[OF assms(1), of ms "Some f" p once dir] by simp
qed

definition no_timers :: "hm_timer list \<Rightarrow> bool" where
  "no_timers ts \<longleftrightarrow> length ts = 10 \<and> (\<forall>i < 10. tm_func (ts ! i) = None)"

lemma timers_cleared:
  assumes "length (s_timers s) = 10"
  shows "no_timers (s_timers (fold (\<lambda>i. upd_timer i (\<lambda>t. t\<lparr>tm_func := None\<rparr>)) [0..<HM_MAX_TIMER] s))"
proof -
  let ?f = "\<lambda>i. upd_timer i (\<lambda>t. t\<lparr>tm_func := None\<rparr>)"
  have "length (s_timers (fold ?f [0..<n] s)) = 10 \<and> (\<forall>i < n. tm_func (s_timers (fold ?f [0..<n] s) ! i) = None)"
    if "n \<le> 10" for n
    using that
  proof (induction n)
    case (Suc n)
    then show ?case by (auto simp: upd_timer_def nth_list_update less_Suc_eq)
  qed (simp add: assms)
  from this[of 10] show ?thesis by (simp add: no_timers_def HM_MAX_TIMER_def del: upt_rec_numeral)
qed

section \<open>The Ethernet peripheral comes up\<close>

text \<open>While it does not, at most one timer runs, which makes the error lamp blink.\<close>

definition net_timers :: "hm_timer list \<Rightarrow> bool" where
  "net_timers ts \<longleftrightarrow> length ts = 10 \<and> (tm_func (ts ! 0) \<noteq> None \<longrightarrow> repeats CK_led_ck_net 100 True (ts ! 0)) \<and>
     (\<forall>i. 1 \<le> i \<and> i < 10 \<longrightarrow> tm_func (ts ! i) = None)"

text \<open>What the delay of the program depends on.\<close>

definition delay_env :: "'a fw_st_scheme \<Rightarrow> nat \<times> (nat \<Rightarrow> u32)" where
  "delay_env s = (spin_fuel s, delay_reads s)"

text \<open>The part of the state that waiting for the peripheral and setting up the pins does not change.\<close>

definition boot_rest :: "'a fw_st_scheme \<Rightarrow>
    hm_step_info list \<times> (msg_queue_slot list \<times> u32) \<times> (hm_cmd_item list \<times> hm_cmd_ck_pair list) \<times>
    ((nat \<Rightarrow> nat option) \<times> nat \<times> net_act list) \<times> (nat \<times> (nat \<Rightarrow> u32))" where
  "boot_rest s = (s_axis_info s, (msg_array s, nread s), (s_cmd_queue s, s_cmd_table s),
     (net_alloc s, net_allocs s, net_out s), (spin_fuel s, delay_reads s))"

text \<open>The Ethernet peripheral, and whether its port gets memory.\<close>

definition eth_part :: "'a fw_st_scheme \<Rightarrow> eth_hw \<times> bool" where
  "eth_part s = (eth s, eth_mem s)"

lemma led_net_rest [simp]: "boot_rest (led_ck_net s) = boot_rest s" "eth_part (led_ck_net s) = eth_part s"
  by (simp_all add: boot_rest_def eth_part_def led_ck_net_def Let_def hm_led_act_def GPIO_SetBits_def GPIO_ResetBits_def)

lemma ticked_rest [simp]: "boot_rest (ticked j s) = boot_rest s" "eth_part (ticked j s) = eth_part s"
  by (simp_all add: boot_rest_def eth_part_def ticked_def)

lemma net_tick:
  assumes ts: "net_timers (s_timers s)"
  shows "\<exists>t. SysTick_Handler run_ck s = Ok t \<and> net_timers (s_timers t) \<and> boot_rest t = boot_rest s \<and>
    eth_part t = eth_part s \<and> tm_func (s_timers t ! 0) = tm_func (s_timers s ! 0)"
proof -
  have len: "length (s_timers s) = 10" using ts by (simp add: net_timers_def)
  have others: "\<not> due (s_timers s ! i)" if "1 \<le> i" "i < 10" for i
    using ts that by (simp add: net_timers_def due_def)
  show ?thesis
  proof (cases "due (s_timers s ! 0)")
    case True
    then have rep: "repeats CK_led_ck_net 100 True (s_timers s ! 0)" using ts by (simp add: net_timers_def due_def)
    have "SysTick_Handler run_ck s = (if True then run_ck CK_led_ck_net (tm_param (s_timers s ! 0)) (ticked 0 s)
        else Ok (snd (hm_msg_queue_add (Some CK_led_ck_net) (tm_param (s_timers s ! 0)) (ticked 0 s))))"
      by (rule tick_fires[OF len _ _ True rep]) (auto simp: run_ck_def)
    then have run: "SysTick_Handler run_ck s = Ok (led_ck_net (ticked 0 s))" by (simp add: run_ck_def)
    have n: "s_timers (led_ck_net (ticked 0 s)) ! i =
        (if i = 0 then (s_timers s ! 0)\<lparr>tm_ms := tm_period (s_timers s ! 0)\<rparr> else s_timers s ! i)" if "i < 10" for i
      using nth_ticked[OF len that, of 0] by simp
    have "net_timers (s_timers (led_ck_net (ticked 0 s)))"
      unfolding net_timers_def using n ts len repeats_reload[OF rep] by (simp add: ticked_def net_timers_def)
    moreover have "boot_rest (led_ck_net (ticked 0 s)) = boot_rest s" "eth_part (led_ck_net (ticked 0 s)) = eth_part s" by simp_all
    ultimately show ?thesis using run n[of 0] by simp
  next
    case False
    let ?t = "s\<lparr>s_tim_count := s_tim_count s + 1, s_timers := map dec_active (s_timers s)\<rparr>"
    have "\<forall>i < 10. \<not> due (s_timers s ! i)"
    proof (intro allI impI)
      fix i :: nat
      assume "i < 10"
      then show "\<not> due (s_timers s ! i)" using others[of i] False by (cases "i = 0") simp_all
    qed
    then have run: "SysTick_Handler run_ck s = Ok ?t" by (rule tick_none[OF len])
    have "repeats CK_led_ck_net 100 True (dec_active (s_timers s ! 0))" if "tm_func (s_timers s ! 0) \<noteq> None"
    proof (rule repeats_dec(1))
      show "repeats CK_led_ck_net 100 True (s_timers s ! 0)" using ts that by (simp add: net_timers_def)
      show "unat (tm_ms (s_timers s ! 0)) \<noteq> 1" using False that by (auto simp: due_def unat_one_iff)
    qed
    then have "net_timers (s_timers ?t)" using ts by (auto simp: net_timers_def dec_active_def)
    then show ?thesis using run len by (simp add: boot_rest_def eth_part_def dec_active_def)
  qed
qed

lemma net_ticks:
  assumes "net_timers (s_timers s)"
  shows "\<exists>t. run_ticks run_ck n s = Ok t \<and> net_timers (s_timers t) \<and> boot_rest t = boot_rest s \<and>
    eth_part t = eth_part s \<and> tm_func (s_timers t ! 0) = tm_func (s_timers s ! 0)"
proof (induction n)
  case 0
  then show ?case using assms by simp
next
  case (Suc n)
  then obtain u where u: "run_ticks run_ck n s = Ok u" "net_timers (s_timers u)" "boot_rest u = boot_rest s"
    "eth_part u = eth_part s" "tm_func (s_timers u ! 0) = tm_func (s_timers s ! 0)" by blast
  show ?case using net_tick[OF u(2)] u by auto
qed

lemma no_timers_net: "no_timers ts \<Longrightarrow> net_timers ts"
  by (simp add: no_timers_def net_timers_def)

text \<open>One of the calls succeeds, of those that start with the peripheral in the state \<open>h\<close>.\<close>

fun init_succeeds :: "nat list \<Rightarrow> eth_hw \<Rightarrow> bool" where
  "init_succeeds [] h = False"
| "init_succeeds (n # ns) h = (let (ret, i, h) = ETH_Init eth_config PHY_ADDRESS h in ret \<noteq> 0 \<or> init_succeeds ns h)"

definition eth_base :: "eth_hw \<Rightarrow> bool" where
  "eth_base h \<longleftrightarrow> eth_loaded h \<and> DMAIER h = 0"

text \<open>Configured, with the check of the checksums off; then with its interrupts on.\<close>

definition eth_configured :: "eth_hw \<Rightarrow> bool" where
  "eth_configured h \<longleftrightarrow> eth_base h \<and> MACCR h AND 0x0400 = 0"

definition eth_on :: "bool \<Rightarrow> eth_hw \<times> bool \<Rightarrow> bool" where
  "eth_on m p \<longleftrightarrow> snd p = m \<and> (\<exists>h. eth_configured h \<and> fst p = ETH_DMAITConfig 0x00010040 ENABLE h)"

lemma ETH_Init_keeps:
  assumes run: "ETH_Init eth_config PHY_ADDRESS h = (r, j, t)" and base: "eth_base h"
  shows "eth_base t" "r = 0 \<Longrightarrow> j = eth_config" "r \<noteq> 0 \<Longrightarrow> eth_configured t"
proof -
  have auto: "ETH_AutoNegotiation eth_config \<noteq> 0" by (simp add: eth_config_sel)
  have same: "eth_base u" if "mii_free u = mii_free h" for u
    using base mii_freeD[OF that] by (simp add: eth_base_def eth_loaded_def pbufs_exact_def)
  have "eth_base t \<and> (r = 0 \<longrightarrow> j = eth_config) \<and> (r \<noteq> 0 \<longrightarrow> MACCR t AND 0x0400 = 0)"
  proof (rule ETH_Init_cases[OF auto run])
    assume "r = 0" "j = eth_config" "mii_free t = mii_free h"
    then show ?thesis using same by simp
  next
    fix v u
    assume u: "r = 1" "j = eth_config\<lparr>ETH_Mode := duplex_of v, ETH_Speed := speed_of v\<rparr>" "mii_free u = mii_free h"
      "t = dma_config j (mac_config j u)"
    have "eth_base t" using same[OF u(3)]
      by (simp add: u(2,4) eth_config_sel eth_base_def eth_loaded_def pbufs_exact_def)
    moreover have "MACCR t AND 0x0400 = 0" by (simp add: u(2,4) eth_config_sel MACCR_unchecked)
    ultimately show ?thesis using u(1) by simp
  qed
  then show "eth_base t" "r = 0 \<Longrightarrow> j = eth_config" "r \<noteq> 0 \<Longrightarrow> eth_configured t" by (simp_all add: eth_configured_def)
qed

lemma eth_loop_Ok:
  assumes "net_timers (s_timers s)" and "init_succeeds ns (eth s)" and "eth_base (eth s)"
    and "if bfirst then tmer = None \<and> no_timers (s_timers s) else tmer = Some 0"
  shows "\<exists>h t. eth_init_loop run_ck ns eth_config bfirst tmer s = Ok (h, t) \<and> boot_rest t = boot_rest s \<and>
    eth_mem t = eth_mem s \<and> eth_configured (eth t) \<and> no_timers (s_timers (hm_timer_unregister h t))"
  using assms
proof (induction ns arbitrary: bfirst tmer s)
  case Nil
  then show ?case by simp
next
  case (Cons n ns)
  obtain u where u: "run_ticks run_ck n s = Ok u" "net_timers (s_timers u)" "boot_rest u = boot_rest s"
    "eth_part u = eth_part s" "tm_func (s_timers u ! 0) = tm_func (s_timers s ! 0)" using net_ticks[OF Cons.prems(1)] by blast
  obtain ret j h where run: "ETH_Init eth_config PHY_ADDRESS (eth s) = (ret, j, h)" by (metis prod_cases3)
  note keeps = ETH_Init_keeps[OF run Cons.prems(3)]
  let ?u = "u\<lparr>eth := h\<rparr>"
  have eu: "eth u = eth s" "eth_mem u = eth_mem s" "boot_rest ?u = boot_rest s" using u(3,4) by (simp_all add: eth_part_def boot_rest_def)
  have none: "no_timers (s_timers u)" if bfirst
  proof -
    have "tm_func (s_timers u ! 0) = None" using u(5) Cons.prems(4) that by (simp add: no_timers_def)
    moreover have "tm_func (s_timers u ! i) = None" if "i \<noteq> 0" "i < 10" for i
      using u(2) that by (simp add: net_timers_def)
    moreover have "length (s_timers u) = 10" using u(2) by (simp add: net_timers_def)
    ultimately show ?thesis unfolding no_timers_def by metis
  qed
  show ?case
  proof (cases "ret = 0")
    case False
    have "no_timers (s_timers (hm_timer_unregister tmer ?u))"
    proof (cases bfirst)
      case True
      then show ?thesis using Cons.prems(4) none by (simp add: hm_timer_unregister_def)
    next
      case False
      then have "tmer = Some 0" using Cons.prems(4) by simp
      then show ?thesis using u(2)
        by (auto simp: hm_timer_unregister_def upd_timer_def no_timers_def net_timers_def nth_list_update)
    qed
    then show ?thesis using u(1) eu run keeps(3)[OF False] False by simp
  next
    case True
    then have j: "j = eth_config" and more: "init_succeeds ns h" using keeps(2) Cons.prems(2) run by auto
    show ?thesis
    proof (cases bfirst)
      case first: True
      let ?t = "\<lparr>tm_func = Some CK_led_ck_net, tm_param = NoParam, tm_period = 100, tm_ms = 100, tm_once = False,
          tm_call_direct = True\<rparr>"
      let ?v = "upd_timer 0 (\<lambda>t. ?t) ?u"
      have reg: "hm_timer_register 100 (Some CK_led_ck_net) NoParam False True ?u = (Some 0, ?v)"
        by (rule register_at) (use none[OF first] in \<open>auto simp: no_timers_def\<close>)
      have "net_timers (s_timers ?v)"
        using none[OF first] by (auto simp: net_timers_def no_timers_def upd_timer_def repeats_def nth_list_update)
      then have "\<exists>h t. eth_init_loop run_ck ns eth_config False (Some 0) ?v = Ok (h, t) \<and> boot_rest t = boot_rest ?v \<and>
          eth_mem t = eth_mem ?v \<and> eth_configured (eth t) \<and> no_timers (s_timers (hm_timer_unregister h t))"
        by (rule Cons.IH) (use more keeps(1) in \<open>simp_all add: upd_timer_def\<close>)
      then show ?thesis using u(1) eu True first reg run j by (simp add: boot_rest_def upd_timer_def)
    next
      case second: False
      have "\<exists>h t. eth_init_loop run_ck ns eth_config False tmer ?u = Ok (h, t) \<and> boot_rest t = boot_rest ?u \<and>
          eth_mem t = eth_mem ?u \<and> eth_configured (eth t) \<and> no_timers (s_timers (hm_timer_unregister h t))"
        by (rule Cons.IH) (use u(2) more keeps(1) Cons.prems(4) second in simp_all)
      then show ?thesis using u(1) eu True second run j by simp
    qed
  qed
qed

text \<open>
  The polled flags come up in time, the arrays of the port have their sizes, and one of the calls of
  \<open>ETH_Init\<close> succeeds.
\<close>

definition flag_at :: "u8 \<Rightarrow> nat \<Rightarrow> 'a fw_st_scheme \<Rightarrow> bool" where
  "flag_at flag k s \<longleftrightarrow> fst (RCC_GetFlagStatus flag (s\<lparr>rcc_reads := k\<rparr>))"

definition eth_up :: "'a fw_st_scheme \<Rightarrow> bool" where
  "eth_up s \<longleftrightarrow> (\<forall>r. \<exists>k < spin_fuel s. flag_at RCC_FLAG_PLL3RDY (r + k) s) \<and>
     (\<exists>k < spin_fuel s. \<not> sr_reads (eth s) k) \<and> eth_loaded (eth s) \<and>
     init_succeeds (eth_ticks s) (ETH_SoftwareReset (ETH_DeInit (eth s)))"

lemma wait_reset_Ok: "k < n \<Longrightarrow> \<not> sr_reads h (j + k) \<Longrightarrow> wait_reset n j h = Ok ()"
proof (induction n arbitrary: j k)
  case (Suc n)
  then show ?case
  proof (cases k)
    case 0
    then show ?thesis using Suc.prems by (simp add: ETH_GetSoftwareResetStatus_def)
  next
    case (Suc i)
    then show ?thesis using Suc.prems Suc.IH[of i "j + 1"] by (simp add: ETH_GetSoftwareResetStatus_def)
  qed
qed simp

lemma flag_at_same: "rcc_status t = rcc_status s \<Longrightarrow> flag_at flag k t = flag_at flag k s"
  by (simp add: flag_at_def RCC_GetFlagStatus_def Let_def split_beta)

lemma wait_flag_Ok:
  "k < n \<Longrightarrow> flag_at flag (rcc_reads s + k) s \<Longrightarrow> \<exists>m. wait_flag n flag s = Ok (s\<lparr>rcc_reads := m\<rparr>)"
proof (induction n arbitrary: k s)
  case (Suc n)
  let ?b = "fst (RCC_GetFlagStatus flag s)"
  have g: "RCC_GetFlagStatus flag s = (?b, s\<lparr>rcc_reads := rcc_reads s + 1\<rparr>)"
    by (simp add: RCC_GetFlagStatus_def Let_def split_beta)
  show ?case
  proof (cases ?b)
    case True
    then show ?thesis using g by (intro exI[of _ "rcc_reads s + 1"]) (simp add: Let_def split_beta)
  next
    case False
    have b: "?b = flag_at flag (rcc_reads s) s" by (simp add: flag_at_def)
    have "k \<noteq> 0"
    proof
      assume "k = 0"
      then show False using Suc.prems(2) False b by simp
    qed
    then obtain j where j: "k = Suc j" by (cases k) auto
    let ?u = "s\<lparr>rcc_reads := rcc_reads s + 1\<rparr>"
    have "flag_at flag (rcc_reads ?u + j) ?u" using Suc.prems(2) j flag_at_same[of ?u s] by simp
    then obtain m where "wait_flag n flag ?u = Ok (?u\<lparr>rcc_reads := m\<rparr>)" using Suc.IH[of j ?u] Suc.prems(1) j by auto
    then show ?thesis using g False by (intro exI[of _ m]) (simp add: Let_def split_beta)
  qed
qed simp

definition setup_part :: "'a fw_st_scheme \<Rightarrow> _" where
  "setup_part s = (boot_rest s, s_timers s, rcc_status s, spin_fuel s, eth_part s, eth_ticks s)"

interpretation setupframe: hw_frame setup_part
  by unfold_locales (simp_all add: setup_part_def boot_rest_def eth_part_def)

lemma Ethernet_Configuration_Ok:
  assumes "eth_up s" and "no_timers (s_timers s)"
  shows "\<exists>t. Ethernet_Configuration run_ck s = Ok t \<and> boot_rest t = boot_rest s \<and> no_timers (s_timers t) \<and>
    eth_on (eth_mem s) (eth_part t)"
proof -
  define u where "u = RCC_PLL3Cmd ENABLE (RCC_PLL3Config 0x00008000 (GPIO_ETH_MediaInterfaceConfig True s))"
  have pu: "setup_part u = setup_part s" by (simp add: u_def)
  then have su: "rcc_status u = rcc_status s" "spin_fuel u = spin_fuel s" by (simp_all add: setup_part_def)
  have "\<exists>k < spin_fuel s. flag_at RCC_FLAG_PLL3RDY (rcc_reads u + k) s" using assms(1) unfolding eth_up_def by blast
  then obtain k where k: "k < spin_fuel u" "flag_at RCC_FLAG_PLL3RDY (rcc_reads u + k) u"
    using su(2) flag_at_same[OF su(1)] by auto
  obtain m where m: "wait_flag (spin_fuel u) RCC_FLAG_PLL3RDY u = Ok (u\<lparr>rcc_reads := m\<rparr>)"
    using wait_flag_Ok[OF k] by blast
  define v where "v = RCC_MCOConfig 0x0B (u\<lparr>rcc_reads := m\<rparr>)"
  have "setup_part v = setup_part s" using pu by (simp add: v_def)
  then have sv: "boot_rest v = boot_rest s" "s_timers v = s_timers s" "eth v = eth s" "eth_mem v = eth_mem s"
    "eth_ticks v = eth_ticks s" "spin_fuel v = spin_fuel s" by (simp_all add: setup_part_def eth_part_def)
  let ?h = "ETH_SoftwareReset (ETH_DeInit (eth s))" and ?v = "v\<lparr>eth := ETH_SoftwareReset (ETH_DeInit (eth s))\<rparr>"
  have reset: "wait_reset (spin_fuel s) 0 ?h = Ok ()"
    using assms(1) by (auto simp: eth_up_def ETH_SoftwareReset_def ETH_DeInit_def eth_regs_reset_def Let_def intro: wait_reset_Ok)
  have base: "eth_base ?h" using assms(1)
    by (simp add: eth_up_def eth_base_def eth_loaded_def pbufs_exact_def ETH_SoftwareReset_def ETH_DeInit_def eth_regs_reset_def Let_def)
  obtain h w where w: "eth_init_loop run_ck (eth_ticks s) eth_config True None ?v = Ok (h, w)" "boot_rest w = boot_rest ?v"
    "eth_mem w = eth_mem ?v" "eth_configured (eth w)" "no_timers (s_timers (hm_timer_unregister h w))"
    using eth_loop_Ok[of ?v "eth_ticks s" True None] base sv assms no_timers_net[OF assms(2)] by (auto simp: eth_up_def)
  define x where "x = (hm_timer_unregister h (hm_led_act ltError False w))"
  have "s_timers x = s_timers (hm_timer_unregister h w)"
    by (simp add: x_def hm_timer_unregister_def upd_timer_def split: option.split)
  then have tx: "no_timers (s_timers x)" using w(5) by simp
  have ex: "eth x = eth w" "eth_mem x = eth_mem w" "boot_rest x = boot_rest w"
    by (simp_all add: x_def hm_timer_unregister_def upd_timer_def boot_rest_def hm_led_act_def GPIO_ResetBits_def split: option.split)
  have "Ethernet_Configuration run_ck s = Ok (x\<lparr>eth := ETH_DMAITConfig 0x00010040 ENABLE (eth w)\<rparr>)"
    unfolding Ethernet_Configuration_def Let_def u_def[symmetric] m bnd_Ok v_def[symmetric]
    using sv reset w(1) ex by (simp add: x_def)
  moreover have "boot_rest x = boot_rest s" using ex(3) w(2) sv(1) by (simp add: boot_rest_def)
  ultimately show ?thesis using tx ex(2) w(3,4) sv(4) by (auto simp: boot_rest_def eth_on_def eth_part_def)
qed

lemma System_Setup_Ok:
  assumes "eth_up s" and "no_timers (s_timers s)"
  shows "\<exists>t. System_Setup run_ck s = Ok t \<and> boot_rest t = boot_rest s \<and> no_timers (s_timers t) \<and>
    eth_on (eth_mem s) (eth_part t)"
proof -
  define u where "u = GPIO_Configuration (RCC_APB2PeriphClockCmd (RCC_APB2Periph_GPIOA OR RCC_APB2Periph_GPIOB OR
      RCC_APB2Periph_GPIOC OR RCC_APB2Periph_GPIOD OR RCC_APB2Periph_GPIOE OR RCC_APB2Periph_AFIO OR 0x00000200) ENABLE
      (RCC_AHBPeriphClockCmd (0x00004000 OR 0x00008000 OR 0x00010000) ENABLE (RCC_APB1PeriphClockCmd 0x00020000 ENABLE s)))"
  have "setup_part u = setup_part s" by (simp add: u_def)
  then have su: "boot_rest u = boot_rest s" "s_timers u = s_timers s" "eth_mem u = eth_mem s" "eth_up u"
    using assms(1) flag_at_same[of u s] by (simp_all add: setup_part_def eth_up_def eth_part_def)
  show ?thesis using Ethernet_Configuration_Ok[OF su(4)] su(1-3) assms(2)
    unfolding System_Setup_def Let_def u_def[symmetric] by simp
qed

section \<open>From the loaded image to the loop\<close>

text \<open>The sizes of the static arrays.\<close>

definition loaded :: "'a fw_st_scheme \<Rightarrow> bool" where
  "loaded s \<longleftrightarrow> length (msg_array s) = 80 \<and> length (s_timers s) = 10 \<and> length (s_axis_info s) = 4 \<and>
     (\<forall>a < 4. length (dma_bufs (axis a s)) = 2 \<and> (\<forall>b \<in> set (dma_bufs (axis a s)). length (dma_buf b) = 300)) \<and>
     length (s_cmd_queue s) = 20 \<and> length (s_cmd_table s) = 20"

lemma loaded_rest: "boot_rest t = boot_rest s \<Longrightarrow> length (s_timers t) = length (s_timers s) \<Longrightarrow> loaded t = loaded s"
  by (simp add: loaded_def boot_rest_def axis_def del: axis_list)

lemma timer_init_Ok:
  assumes "loaded s"
  shows "\<exists>t. hm_timer_init s = Ok t \<and> setup_part t = (boot_rest s, s_timers t, rcc_status s, spin_fuel s, eth_part s, eth_ticks s) \<and>
    no_timers (s_timers t)"
proof -
  let ?u = "fold (\<lambda>i. upd_timer i (\<lambda>t. t\<lparr>tm_func := None\<rparr>)) [0..<HM_MAX_TIMER] s"
  have part: "(boot_rest u, rcc_status u, spin_fuel u, eth_part u, eth_ticks u) =
      (boot_rest s, rcc_status s, spin_fuel s, eth_part s, eth_ticks s)"
    if "u = fold (\<lambda>i. upd_timer i (\<lambda>t. t\<lparr>tm_func := None\<rparr>)) is s" for u :: "'a fw_st_scheme" and s "is"
    using that by (induction "is" arbitrary: s) (simp_all add: upd_timer_def boot_rest_def eth_part_def)
  let ?t = "?u\<lparr>s_tim_count := 0, systick_load := (72000 AND 0xFFFFFF) - 1, systick_on := True\<rparr>"
  have "hm_timer_init s = Ok ?t"
    unfolding hm_timer_init_def Let_def SysTick_Config_def
    by (simp add: SystemCoreClock_def truth_def)
  moreover have "no_timers (s_timers ?t)" using timers_cleared[of s] assms by (simp add: loaded_def)
  moreover have "boot_rest ?t = boot_rest ?u" "eth_part ?t = eth_part ?u" by (simp_all add: boot_rest_def eth_part_def)
  ultimately show ?thesis using part[of ?u "[0..<HM_MAX_TIMER]" s]
    by (intro exI[of _ ?t]) (simp add: setup_part_def)
qed

definition motor_part :: "'a fw_st_scheme \<Rightarrow> _" where
  "motor_part s = (snd (boot_rest s), s_timers s, nwrite s, nmin s, eth_part s)"

interpretation motorframe: init_frame motor_part
  by unfold_locales (simp_all add: motor_part_def boot_rest_def eth_part_def)

lemma main_drivers_Ok:
  assumes "loaded s" and "eth_up s"
  shows "\<exists>t. main_drivers s = Ok t \<and> board_ok t \<and> (\<forall>a < 4. idle a t \<and> motor_pos (axis a t) = 0) \<and>
    msg_wf t \<and> queued t = [] \<and> length (s_cmd_queue t) = 20 \<and> length (s_cmd_table t) = 20 \<and> net_out t = net_out s \<and>
    net_alloc t = net_alloc s \<and> net_allocs t = net_allocs s \<and> delay_env t = delay_env s \<and> eth_on (eth_mem s) (eth_part t) \<and>
    length (s_timers t) = 10 \<and> s_timers t ! 0 = \<lparr>tm_func = Some CK_led_ck, tm_param = NoParam, tm_period = 500, tm_ms = 500,
      tm_once = False, tm_call_direct = True\<rparr> \<and> (\<forall>i. 1 \<le> i \<and> i < 10 \<longrightarrow> tm_func (s_timers t ! i) = None)"
proof -
  let ?s0 = "enable_all_Ports s"
  have "setup_part ?s0 = setup_part s" by simp
  then have s0: "boot_rest ?s0 = boot_rest s" "s_timers ?s0 = s_timers s" "rcc_status ?s0 = rcc_status s"
    "spin_fuel ?s0 = spin_fuel s" "eth_part ?s0 = eth_part s" "eth_ticks ?s0 = eth_ticks s" by (simp_all add: setup_part_def)
  have l0: "loaded ?s0" using loaded_rest[OF s0(1)] s0(2) assms(1) by simp
  obtain s1 where s1: "hm_timer_init ?s0 = Ok s1" "boot_rest s1 = boot_rest s" "no_timers (s_timers s1)"
    "rcc_status s1 = rcc_status s" "spin_fuel s1 = spin_fuel s" "eth_part s1 = eth_part s" "eth_ticks s1 = eth_ticks s"
    using timer_init_Ok[OF l0] s0 by (auto simp: setup_part_def)
  let ?s2 = "hm_led_init s1"
  have "setup_part ?s2 = setup_part s1" by simp
  then have s2: "boot_rest ?s2 = boot_rest s" "no_timers (s_timers ?s2)" "eth_up ?s2" "eth_mem ?s2 = eth_mem s"
    using s1 assms(2) flag_at_same[of ?s2 s] by (simp_all add: setup_part_def eth_up_def eth_part_def)
  obtain s3 where s3: "System_Setup run_ck ?s2 = Ok s3" "boot_rest s3 = boot_rest s" "no_timers (s_timers s3)"
    "eth_on (eth_mem s) (eth_part s3)" using System_Setup_Ok[OF s2(3,2)] s2(1,4) by auto
  let ?s4 = "hm_gpio_init s3"
  have "setup_part ?s4 = setup_part s3" by simp
  then have s4: "boot_rest ?s4 = boot_rest s" "no_timers (s_timers ?s4)" "eth_part ?s4 = eth_part s3"
    using s3 by (simp_all add: setup_part_def)
  let ?s5 = "hm_msg_queue_init ?s4"
  have "length (msg_array ?s4) = 80" using s4(1) assms(1) by (simp add: boot_rest_def loaded_def)
  then have q5: "msg_wf ?s5" "queued ?s5 = []" using msg_init_wf[of ?s4] by simp_all
  have r5: "s_axis_info ?s5 = s_axis_info s" "s_cmd_queue ?s5 = s_cmd_queue s" "s_cmd_table ?s5 = s_cmd_table s"
    "net_out ?s5 = net_out s" "net_alloc ?s5 = net_alloc s" "net_allocs ?s5 = net_allocs s" "s_timers ?s5 = s_timers ?s4"
    "delay_env ?s5 = delay_env s" "eth_part ?s5 = eth_part s3"
    using s4(1) s4(3)[unfolded eth_part_def] by (simp_all add: boot_rest_def hm_msg_queue_init_def delay_env_def eth_part_def)
  let ?t = "\<lparr>tm_func = Some CK_led_ck, tm_param = NoParam, tm_period = 500, tm_ms = 500, tm_once = False, tm_call_direct = True\<rparr>"
  let ?s6 = "upd_timer 0 (\<lambda>t. ?t) ?s5"
  have reg: "hm_timer_register 500 (Some CK_led_ck) NoParam False True ?s5 = (Some 0, ?s6)"
    by (rule register_at) (use s4(2) r5(7) in \<open>auto simp: no_timers_def\<close>)
  have q6: "msg_wf ?s6" "queued ?s6 = []" using q5 queue_kept(2,3)[of ?s6 ?s5] by (simp_all add: upd_timer_def)
  have r6: "s_axis_info ?s6 = s_axis_info s" using r5(1) by (simp add: upd_timer_def)
  have a6: "length (s_axis_info ?s6) = 4" "\<forall>a < 4. length (dma_bufs (axis a ?s6)) = 2 \<and>
      (\<forall>b \<in> set (dma_bufs (axis a ?s6)). length (dma_buf b) = 300)"
    using assms(1) axis_same[OF r6] by (simp_all add: loaded_def r6)
  obtain t where t: "hm_step_motor_init ?s6 = Ok t" "\<forall>a < 4. idle a t \<and> motor_pos (axis a t) = 0"
    using init_table[OF a6] by blast
  have p: "motor_part t = motor_part ?s6" by (rule motorframe.obs_motor_init[OF t(1)])
  have "board_ok t" by (rule board_init[OF a6 t(1)])
  moreover have "main_drivers s = Ok t"
    unfolding main_drivers_def s1(1) bnd_Ok s3(1) Let_def reg prod.case by (rule t(1))
  moreover have "msg_wf t" "queued t = []"
    using q6 queue_kept(2,3)[of t ?s6] p by (simp_all add: motor_part_def boot_rest_def)
  moreover have "s_timers t = s_timers ?s6" "s_cmd_queue t = s_cmd_queue s" "s_cmd_table t = s_cmd_table s"
    "net_out t = net_out s" "net_alloc t = net_alloc s" "net_allocs t = net_allocs s" "delay_env t = delay_env s" "eth_on (eth_mem s) (eth_part t)"
    using p r5 s3(4) by (simp_all add: motor_part_def boot_rest_def upd_timer_def delay_env_def eth_part_def)
  moreover have "length (s_timers ?s6) = 10" "s_timers ?s6 ! 0 = ?t" "\<forall>i. 1 \<le> i \<and> i < 10 \<longrightarrow> tm_func (s_timers ?s6 ! i) = None"
    using s4(2) r5(7) by (simp_all add: no_timers_def upd_timer_def)
  ultimately show ?thesis using t(2) assms(1) by (intro exI[of _ t]) (simp add: loaded_def)
qed

definition motor_side :: "'a cmd_st_scheme \<Rightarrow> _" where
  "motor_side s = ((s_axis_info s, dma s, tim s, DMA1_ISR s), (msg_array s, nwrite s, nread s, nmin s))"

definition net_side :: "'a cmd_st_scheme \<Rightarrow> _" where
  "net_side s = (s_cmd_queue s, s_cmd_table s, net_alloc s, net_allocs s, net_out s)"

lemma motor_sideD:
  assumes "motor_side t = motor_side s"
  shows "board_ok t = board_ok s" "idle a t = idle a s" "axis a t = axis a s" "queue_ok t = queue_ok s" "queued t = queued s"
proof -
  have s: "s_axis_info t = s_axis_info s" "dma t = dma s" "tim t = tim s" "DMA1_ISR t = DMA1_ISR s"
    "msg_array t = msg_array s" "nwrite t = nwrite s" "nread t = nread s" "nmin t = nmin s"
    using assms by (simp_all add: motor_side_def)
  show "board_ok t = board_ok s" using board_ok_same[OF s(1)] board_ok_same[OF s(1)[symmetric]] by blast
  show ax: "axis a t = axis a s" by (rule axis_same[OF s(1)])
  show "idle a t = idle a s" unfolding idle_def hw_stopped_def flags_clear_def ax
    by (simp add: s dma_enabled_def tim_enabled_def DMA_GetITStatus_def)
  show "queue_ok t = queue_ok s" "queued t = queued s" by (rule queue_kept[OF s(5-8)])+
qed

lemma sides_upd [simp]:
  "motor_side (s\<lparr>APB2ENR := w\<rparr>) = motor_side s" "net_side (s\<lparr>APB2ENR := w\<rparr>) = net_side s"
  "motor_side (s\<lparr>gpio := g\<rparr>) = motor_side s" "net_side (s\<lparr>gpio := g\<rparr>) = net_side s"
  "motor_side (s\<lparr>input_reads := n\<rparr>) = motor_side s" "net_side (s\<lparr>input_reads := n\<rparr>) = net_side s"
  "motor_side (s\<lparr>s_ip_addr := bs\<rparr>) = motor_side s" "net_side (s\<lparr>s_ip_addr := bs\<rparr>) = net_side s"
  "motor_side (s\<lparr>s_ip_macc := bs\<rparr>) = motor_side s" "net_side (s\<lparr>s_ip_macc := bs\<rparr>) = net_side s"
  "motor_side (s\<lparr>s_timers := ts\<rparr>) = motor_side s" "net_side (s\<lparr>s_timers := ts\<rparr>) = net_side s"
  "motor_side (s\<lparr>s_cmd_queue := q\<rparr>) = motor_side s" "motor_side (s\<lparr>s_cmd_table := tb\<rparr>) = motor_side s"
  "motor_side (s\<lparr>s_debug := d\<rparr>) = motor_side s" "motor_side (s\<lparr>net_allocs := n\<rparr>) = motor_side s"
  "motor_side (s\<lparr>net_out := out\<rparr>) = motor_side s" "motor_side (t\<lparr>eth := h\<rparr>) = motor_side t"
  by (simp_all add: motor_side_def net_side_def)

lemma delay_upd [simp]:
  "delay_env (s\<lparr>APB2ENR := w\<rparr>) = delay_env s" "delay_env (s\<lparr>s_ip_addr := bs\<rparr>) = delay_env s"
  "delay_env (s\<lparr>s_ip_macc := bs\<rparr>) = delay_env s"
  "eth_part (s\<lparr>APB2ENR := w\<rparr>) = eth_part s" "eth_part (s\<lparr>s_ip_addr := bs\<rparr>) = eth_part s"
  "eth_part (s\<lparr>s_ip_macc := bs\<rparr>) = eth_part s"
  by (simp_all add: delay_env_def eth_part_def)

lemma pin_sides [simp]:
  "motor_side (gpio_in_init_one io s) = motor_side s" "net_side (gpio_in_init_one io s) = net_side s"
  "s_timers (gpio_in_init_one io s) = s_timers s" "delay_env (gpio_in_init_one io u) = delay_env u"
  "motor_side (snd (GPIO_ReadInputDataBit p m s)) = motor_side s"
  "net_side (snd (GPIO_ReadInputDataBit p m s)) = net_side s"
  "s_timers (snd (GPIO_ReadInputDataBit p m s)) = s_timers s"
  "delay_env (snd (GPIO_ReadInputDataBit p m u)) = delay_env u"
  "eth_part (gpio_in_init_one io u) = eth_part u" "eth_part (snd (GPIO_ReadInputDataBit p m u)) = eth_part u"
  by (simp_all add: gpio_in_init_one_def GPIO_Init_def GPIO_ReadInputDataBit_def RCC_APB2PeriphClockCmd_def Let_def split_beta
      delay_env_def eth_part_def)

lemma uart_init_sides [simp]:
  "motor_side (hm_uart_init s) = motor_side s" "net_side (hm_uart_init s) = net_side s" "s_timers (hm_uart_init s) = s_timers s"
  "delay_env (hm_uart_init u) = delay_env u" "eth_part (hm_uart_init u) = eth_part u"
  by (simp_all add: hm_uart_init_def RCC_APB2PeriphClockCmd_def del: upt_rec_numeral)
    (rule fold_same; simp add: upd_uck_def motor_side_def net_side_def delay_env_def eth_part_def)+

lemma read_addr_sides:
  "motor_side (snd (read_addr_bit i x)) = motor_side (snd x)" "net_side (snd (read_addr_bit i x)) = net_side (snd x)"
  "s_timers (snd (read_addr_bit i x)) = s_timers (snd x)" "delay_env (snd (read_addr_bit i y)) = delay_env (snd y)"
  "eth_part (snd (read_addr_bit i y)) = eth_part (snd y)"
  by (simp_all add: read_addr_bit_def split_beta Let_def)

lemma addr_init_sides [simp]:
  "motor_side (snd (hm_addr_init s)) = motor_side s" "net_side (snd (hm_addr_init s)) = net_side s"
  "s_timers (snd (hm_addr_init s)) = s_timers s" "delay_env (snd (hm_addr_init u)) = delay_env u"
  "eth_part (snd (hm_addr_init u)) = eth_part u"
  by (simp_all add: hm_addr_init_def Let_def split_beta fold_same[where g = "\<lambda>x. motor_side (snd x)"]
      fold_same[where g = "\<lambda>x. net_side (snd x)"] fold_same[where g = "\<lambda>x. s_timers (snd x)"]
      fold_same[where g = motor_side] fold_same[where g = net_side] fold_same[where g = s_timers]
      fold_same[where g = delay_env] fold_same[where g = "\<lambda>x. delay_env (snd x)"]
      fold_same[where g = eth_part] fold_same[where g = "\<lambda>x. eth_part (snd x)"] read_addr_sides
      del: upt_rec_numeral)

text \<open>The parts of the network set up that the boot uses.\<close>

lemma exec_init_keeps:
  assumes "\<And>q s. g (s\<lparr>s_cmd_queue := q\<rparr>) = g s" and "\<And>q s. g (s\<lparr>s_cmd_table := q\<rparr>) = g s"
    and "\<And>d s. g (s\<lparr>s_debug := d\<rparr>) = g s" and "\<And>n s. g (s\<lparr>net_allocs := n\<rparr>) = g s"
    and "\<And>out s. g (s\<lparr>net_out := out\<rparr>) = g s"
  shows "g (hm_cmd_exec_init s) = g s"
proof -
  have reg: "g (hm_cmd_net_register c f s) = g s" for c f s
    using assms(2) by (simp add: hm_cmd_net_register_def upd_pair_def split: option.split)
  have "g (hm_cmd_net_init s) = g s"
    using assms by (simp add: hm_cmd_net_init_def Let_def split_beta net_new_def net_do_def upd_debug_def
      fold_same[where g = g] upd_item_def upd_pair_def del: upt_rec_numeral)
  then show ?thesis unfolding exec_init_all by (simp add: fold_same[where g = g] reg)
qed

lemma exec_init_side:
  "motor_side (hm_cmd_exec_init s) = motor_side s" "s_timers (hm_cmd_exec_init s) = s_timers s"
  "hm_ip_addr (hm_cmd_exec_init s) = hm_ip_addr s" "hm_mac_addr (hm_cmd_exec_init s) = hm_mac_addr s"
  "delay_env (hm_cmd_exec_init u) = delay_env u" "eth_part (hm_cmd_exec_init u) = eth_part u"
  by (rule exec_init_keeps; simp add: hm_ip_addr_def hm_mac_addr_def delay_env_def eth_part_def)+

text \<open>The calls of the stack that the boot makes, on a network that answers \<open>alloc\<close>.\<close>

definition boot_calls :: "u8 list \<Rightarrow> (nat \<Rightarrow> nat option) \<Rightarrow> nat \<Rightarrow> net_act list" where
  "boot_calls ip alloc n = [mem_init, memp_init, netif_add ip [255, 255, 255, 0] [192, 168, 1, 1], netif_set_default, netif_set_up,
     udp_bind (alloc n) UDP_SERVER_PORT, udp_recv (alloc n) CK_echo_server,
     udp_bind (alloc (n + 1)) HM_UDP_PORT, udp_recv (alloc (n + 1)) CK_command_server]"

lemma lwip_init_sides:
  "motor_side (LwIP_Init s) = motor_side s" "s_timers (LwIP_Init s) = s_timers s" "s_cmd_queue (LwIP_Init s) = s_cmd_queue s"
  "s_cmd_table (LwIP_Init s) = s_cmd_table s" "net_alloc (LwIP_Init s) = net_alloc s" "net_allocs (LwIP_Init s) = net_allocs s"
  "net_out (LwIP_Init s) = net_out s @ take 5 (boot_calls (hm_ip_addr (LwIP_Init s)) f n)"
  "delay_env (LwIP_Init s) = delay_env s"
  "eth_part (LwIP_Init s) = (snd (ethernetif_init (eth_mem s) (Set_MAC_Address (hm_mac_addr (LwIP_Init s)) (eth s))), eth_mem s)"
proof -
  have "net_side (snd (hm_addr_init s)) = net_side s" by simp
  then have n: "s_cmd_queue (snd (hm_addr_init s)) = s_cmd_queue s" "s_cmd_table (snd (hm_addr_init s)) = s_cmd_table s"
    "net_alloc (snd (hm_addr_init s)) = net_alloc s" "net_allocs (snd (hm_addr_init s)) = net_allocs s"
    "net_out (snd (hm_addr_init s)) = net_out s" unfolding net_side_def by simp_all
  show "motor_side (LwIP_Init s) = motor_side s" "s_timers (LwIP_Init s) = s_timers s" "s_cmd_queue (LwIP_Init s) = s_cmd_queue s"
    "s_cmd_table (LwIP_Init s) = s_cmd_table s" "net_alloc (LwIP_Init s) = net_alloc s" "net_allocs (LwIP_Init s) = net_allocs s"
    "net_out (LwIP_Init s) = net_out s @ take 5 (boot_calls (hm_ip_addr (LwIP_Init s)) f n)"
    by (simp_all add: LwIP_Init_def Let_def net_do_def n hm_mac_addr_def hm_ip_addr_def boot_calls_def)
  show "delay_env (LwIP_Init s) = delay_env s"
    using addr_init_sides(4)[of s] by (simp add: LwIP_Init_def Let_def net_do_def delay_env_def)
  show "eth_part (LwIP_Init s) = (snd (ethernetif_init (eth_mem s) (Set_MAC_Address (hm_mac_addr (LwIP_Init s)) (eth s))), eth_mem s)"
    using addr_init_sides(5)[of s] by (simp add: LwIP_Init_def Let_def net_do_def eth_part_def hm_mac_addr_def)
qed

definition new_timer :: "ck_func \<Rightarrow> u32 \<Rightarrow> bool \<Rightarrow> hm_timer" where
  "new_timer f ms dir = \<lparr>tm_func = Some f, tm_param = NoParam, tm_period = ms, tm_ms = ms, tm_once = False, tm_call_direct = dir\<rparr>"

lemma main_network_ok:
  assumes b: "board_ok s" and q: "queue_ok s" and len: "length (s_cmd_queue s) = 20" "length (s_cmd_table s) = 20"
    and ts: "length (s_timers s) = 10" "s_timers s ! 0 = new_timer CK_led_ck 500 True"
      "\<forall>i. 1 \<le> i \<and> i < 10 \<longrightarrow> tm_func (s_timers s ! i) = None"
  shows "fw_ok (main_network s) \<and> motor_side (main_network s) = motor_side s \<and> netpool.free (main_network s) = 20 \<and>
    ms_left 0 (main_network s) = 500 \<and> ms_left 1 (main_network s) = 1000 \<and> ms_left 2 (main_network s) = 100 \<and>
    delay_env (main_network s) = delay_env s \<and>
    eth (main_network s) = snd (ethernetif_init (eth_mem s) (Set_MAC_Address (hm_mac_addr (main_network s)) (eth s))) \<and>
    net_out (main_network s) = net_out s @
      boot_calls (hm_ip_addr (main_network s)) (net_alloc s) (net_allocs s)"
proof -
  define u where "u = server_init (LwIP_Init (hm_uart_init s))"
  have "net_side (hm_uart_init s) = net_side s" by simp
  then have un: "s_cmd_queue (hm_uart_init s) = s_cmd_queue s" "s_cmd_table (hm_uart_init s) = s_cmd_table s"
    "net_alloc (hm_uart_init s) = net_alloc s" "net_allocs (hm_uart_init s) = net_allocs s"
    "net_out (hm_uart_init s) = net_out s" by (simp_all add: net_side_def)
  have "eth_part (hm_uart_init s) = eth_part s" by simp
  then have ue: "eth (hm_uart_init s) = eth s" "eth_mem (hm_uart_init s) = eth_mem s" unfolding eth_part_def by simp_all
  have us: "motor_side u = motor_side s" "s_timers u = s_timers s" "s_cmd_queue u = s_cmd_queue s" "s_cmd_table u = s_cmd_table s"
    "net_alloc u = net_alloc s" "net_allocs u = net_allocs s + 1"
    "net_out u = net_out s @ take 7 (boot_calls (hm_ip_addr u) (net_alloc s) (net_allocs s))"
    "delay_env u = delay_env s"
    "eth u = snd (ethernetif_init (eth_mem s) (Set_MAC_Address (hm_mac_addr u) (eth s)))"
    using lwip_init_sides[of "hm_uart_init s"]
    by (simp_all add: u_def server_init_def net_new_def net_do_def un hm_mac_addr_def hm_ip_addr_def boot_calls_def)
      (simp_all add: delay_env_def eth_part_def ue)
  let ?v = "upd_timer 1 (\<lambda>t. new_timer CK_netwk_ck 1000 False) u"
  have "hm_timer_register 1000 (Some CK_netwk_ck) NoParam False False u = (Some 1, ?v)"
    unfolding new_timer_def
  proof (rule register_at)
    show "\<forall>i < 10. tm_func (s_timers u ! i) \<noteq> Some CK_netwk_ck"
    proof (intro allI impI)
      fix i :: nat
      assume "i < 10"
      then show "tm_func (s_timers u ! i) \<noteq> Some CK_netwk_ck" using us(2) ts by (cases i) (auto simp: new_timer_def)
    qed
  qed (use us(2) ts in \<open>auto simp: new_timer_def\<close>)
  then have reg1: "hm_timer_register 1000 (Some CK_netwk_ck) NoParam False False u = (Some 1, ?v)" .
  define w where "w = hm_cmd_exec_init (hm_led_act ltRun True ?v)"
  have ws: "motor_side w = motor_side s" "s_timers w = (s_timers s)[1 := new_timer CK_netwk_ck 1000 False]"
    "hm_ip_addr w = hm_ip_addr u" "hm_mac_addr w = hm_mac_addr u" "delay_env w = delay_env s"
    "eth_part w = eth_part u"
    using us by (simp_all add: w_def exec_init_side upd_timer_def)
      (simp_all add: hm_led_act_def GPIO_SetBits_def hm_ip_addr_def hm_mac_addr_def delay_env_def upd_timer_def eth_part_def)
  have lw: "s_cmd_queue (hm_led_act ltRun True ?v) = s_cmd_queue s" "s_cmd_table (hm_led_act ltRun True ?v) = s_cmd_table s"
    "net_out (hm_led_act ltRun True ?v) = net_out u" "net_alloc (hm_led_act ltRun True ?v) = net_alloc s"
    "net_allocs (hm_led_act ltRun True ?v) = net_allocs s + 1"
    using us by (simp_all add: hm_led_act_def GPIO_SetBits_def upd_timer_def)
  have ready: "server_ready w" "netpool.free w = 20" unfolding w_def using exec_init_ready[of "hm_led_act ltRun True ?v"] lw len
    by simp_all
  have "net_out w = net_out u @ [udp_bind (net_alloc s (net_allocs s + 1)) HM_UDP_PORT,
      udp_recv (net_alloc s (net_allocs s + 1)) CK_command_server]"
    unfolding w_def using net_init_state(4)[of "hm_led_act ltRun True ?v"] lw len
    by (simp add: exec_init_all register_fold_sel net_new_def)
  then have wo: "net_out w = net_out s @ boot_calls (hm_ip_addr w) (net_alloc s) (net_allocs s)"
    using us(7) ws by (simp add: boot_calls_def)
  let ?x = "upd_timer 2 (\<lambda>t. new_timer CK_hm_motor_limit_logical_check 100 True) w"
  have reg2: "hm_timer_register 100 (Some CK_hm_motor_limit_logical_check) NoParam False True w = (Some 2, ?x)"
    unfolding new_timer_def
  proof (rule register_at)
    show "\<forall>i < 10. tm_func (s_timers w ! i) \<noteq> Some CK_hm_motor_limit_logical_check"
    proof (intro allI impI)
      fix i :: nat
      assume "i < 10"
      then show "tm_func (s_timers w ! i) \<noteq> Some CK_hm_motor_limit_logical_check"
        using ws(2) ts by (cases "i = 0"; cases "i = 1") (auto simp: new_timer_def)
    qed
    show "\<forall>i < 2. tm_func (s_timers w ! i) \<noteq> None"
      using ws(2) ts by (auto simp: less_2_cases_iff new_timer_def)
  qed (use ws(2) ts in \<open>auto simp: new_timer_def\<close>)
  have run: "main_network s = ?x"
    unfolding main_network_def Let_def u_def[symmetric] reg1 prod.case w_def[symmetric] reg2 ..
  have sx: "motor_side ?x = motor_side s" using ws by (simp add: upd_timer_def)
  have tx: "s_timers ?x = (s_timers s)[1 := new_timer CK_netwk_ck 1000 False, 2 := new_timer CK_hm_motor_limit_logical_check 100 True]"
    using ws(2) by (simp add: upd_timer_def)
  have "server_ready ?x = server_ready w" by (rule server_same) (simp_all add: upd_timer_def)
  moreover have "netpool.free ?x = netpool.free w" by (rule netpool.free_same) (simp add: slot_idle_def upd_timer_def)
  moreover have "delay_env ?x = delay_env s" using ws(5) by (simp add: delay_env_def upd_timer_def)
  moreover have "eth ?x = snd (ethernetif_init (eth_mem s) (Set_MAC_Address (hm_mac_addr ?x) (eth s)))"
    using ws(4,6) us(9) by (simp add: eth_part_def upd_timer_def hm_mac_addr_def)
  moreover have "fw_timers (s_timers ?x)" unfolding tx fw_timers_def using ts by (simp add: repeats_def new_timer_def)
  ultimately show ?thesis unfolding run
    using motor_sideD[OF sx] b q ready wo sx ts
    by (simp add: fw_ok_def ms_left_def tx) (simp add: new_timer_def upd_timer_def hm_mac_addr_def hm_ip_addr_def)
qed

lemma boot_run:
  assumes "loaded s" and "eth_up s"
  shows "\<exists>t. main_init s = Ok t \<and> fw_ok t \<and> (\<forall>a < 4. idle a t \<and> motor_pos (axis a t) = 0) \<and> queued t = [] \<and>
    netpool.free t = 20 \<and> ms_left 0 t = 500 \<and> ms_left 1 t = 1000 \<and> ms_left 2 t = 100 \<and> delay_env t = delay_env s \<and>
    (\<exists>h. eth_configured h \<and>
       eth t = snd (ethernetif_init (eth_mem s) (Set_MAC_Address (hm_mac_addr t) (ETH_DMAITConfig 0x00010040 ENABLE h)))) \<and>
    net_out t = net_out s @ boot_calls (hm_ip_addr t) (net_alloc s) (net_allocs s)"
proof -
  obtain u where u: "main_drivers s = Ok u" "board_ok u" "\<forall>a < 4. idle a u \<and> motor_pos (axis a u) = 0" "msg_wf u" "queued u = []"
    "length (s_cmd_queue u) = 20" "length (s_cmd_table u) = 20" "net_out u = net_out s" "net_alloc u = net_alloc s"
    "net_allocs u = net_allocs s" "delay_env u = delay_env s" "length (s_timers u) = 10" "s_timers u ! 0 = new_timer CK_led_ck 500 True"
    "\<forall>i. 1 \<le> i \<and> i < 10 \<longrightarrow> tm_func (s_timers u ! i) = None" "eth_on (eth_mem s) (eth_part u)"
    using main_drivers_Ok[OF assms] unfolding new_timer_def by blast
  have "queue_ok u" using u(4,5) by (simp add: queue_ok_def)
  note n = main_network_ok[OF u(2) this u(6,7,12-14)]
  have side: "motor_side (main_network u) = motor_side u" using n by blast
  note m = motor_sideD[OF side]
  have "\<forall>a < 4. idle a (main_network u) \<and> motor_pos (axis a (main_network u)) = 0" using u(3) unfolding m(2,3) .
  moreover have "queued (main_network u) = []" using u(5) m(5) by simp
  moreover obtain h where "eth_configured h" "eth u = ETH_DMAITConfig 0x00010040 ENABLE h" "eth_mem u = eth_mem s"
    using u(15) by (auto simp: eth_on_def eth_part_def)
  ultimately show ?thesis using u(1,8-11) n by (auto simp: main_init_def)
qed

section \<open>Reachable states\<close>

text \<open>
  The states between two events of a board that was loaded, came up and has not faulted.  What holds in
  all of them is proved by induction over this relation.
\<close>

inductive reachable :: "'a fw_st_scheme \<Rightarrow> bool" where
  start: "loaded s0 \<Longrightarrow> eth_up s0 \<Longrightarrow> main_init s0 = Ok s \<Longrightarrow> reachable s"
| event: "reachable s \<Longrightarrow> fw_step e s = Ok t \<Longrightarrow> reachable t"

inductive_cases reachableE: "reachable t"

lemma reachable_ok: "reachable s \<Longrightarrow> fw_ok s"
proof (induction rule: reachable.induct)
  case (start s0 s)
  then show ?case using boot_run[of s0] by auto
next
  case (event s e t)
  then show ?case by (blast intro: fw_step_ok)
qed

lemma reachable_run:
  assumes "fw_run evs s = Ok t" and "reachable s"
  shows "reachable t"
  by (rule for_each_inv[OF assms(1)[unfolded fw_run_def], of reachable, OF assms(2)]) (rule reachable.event)

section \<open>What the firmware promises\<close>

text \<open>
  C18.  From the loaded image, when the clock gets ready within the turns the loop waits and one of the
  calls of \<open>ETH_Init\<close> succeeds, the set up of \<open>main\<close> returns.  Every axis is idle at position 0, no message
  waits, all slots of the server are free, the three timers run with their full periods, and the network
  stack was given the addresses of the board, the port of the echo server and the port of the commands,
  each with its callback, and nothing else.  The set up after \<open>ETH_Init\<close> is taken without interrupts: the
  ticks that fall into the rest of it would take that many milliseconds off the periods.
\<close>

theorem boot_ready:
  assumes "loaded s" and "eth_up s"
  shows "\<exists>t. main_init s = Ok t \<and> fw_ok t \<and> (\<forall>a < 4. idle a t \<and> motor_pos (axis a t) = 0) \<and> queued t = [] \<and>
    netpool.free t = 20 \<and> ms_left 0 t = 500 \<and> ms_left 1 t = 1000 \<and> ms_left 2 t = 100 \<and>
    net_out t = net_out s @ [mem_init, memp_init,
      netif_add (hm_ip_addr t) [255, 255, 255, 0] [192, 168, 1, 1], netif_set_default, netif_set_up,
      udp_bind (net_alloc s (net_allocs s)) UDP_SERVER_PORT, udp_recv (net_alloc s (net_allocs s)) CK_echo_server,
      udp_bind (net_alloc s (net_allocs s + 1)) HM_UDP_PORT,
      udp_recv (net_alloc s (net_allocs s + 1)) CK_command_server]"
  using boot_run[OF assms] unfolding boot_calls_def by blast

text \<open>
  C4.  Whatever happens to the running firmware - ticks, interrupts, received frames with any bytes, turns
  of the main loop, any change of the inputs and the registers of the hardware - the tables it works on
  keep their form until it faults: the four axes with their step blocks, timers, channels and wiring, the
  ring of messages with no callback but two, the slots and the fourteen commands of the server, and the
  three timers, none of them past its period.
\<close>

theorem fw_invariant:
  assumes "reachable t"
  shows "motor_ok t \<and> all_wired t \<and>
    (\<forall>a < 4. pdma (axis a t) = axis_channel a \<and> ptim (axis a t) = [TIM1, TIM2, TIM3, TIM4] ! a) \<and>
    msg_wf t \<and> fst ` set (queued t) \<subseteq> {CK_netwk_ck, CK_hm_cmd_reboot_ck} \<and> server_ready t \<and> fw_timers (s_timers t)"
  using reachable_ok[OF assms] board_motor_ok[of t] board_wired[of t] board_wires[of t]
  by (simp add: fw_ok_def queue_ok_def)

text \<open>
  C5.  The switches are looked at in time: of any 102 ticks of the running firmware, whatever else
  happens between them, one runs the check of the switches.  If the inputs do not change during it,
  every axis that moves towards a closed switch is stopped by that tick, and its timer and channel are
  off when the mode says at once.  It is 102 and not 100 because each of the two other timers can take one
  tick from the check.
\<close>

theorem limit_check_in_time:
  assumes "reachable s" and "fw_run evs s = Ok t" and "102 \<le> length (filter is_tick evs)"
  shows "\<exists>es rest u v. evs = es @ EvTick # rest \<and> length (filter is_tick es) < 102 \<and> fw_run es s = Ok u \<and>
    fw_step EvTick u = Ok v \<and> hm_motor_limit_logical_check (ticked 2 u) = Ok v \<and>
    (steady u \<longrightarrow> (\<forall>a < 4. checked a u (axis a v) \<and>
       (check_stops a u \<and> truth (bStopImmediatelyCW (hw_of a u)) \<longrightarrow> hw_stopped a v)))"
proof -
  have ok: "fw_ok s" by (rule reachable_ok[OF assms(1)])
  then have "ms_left 2 s \<le> 100" by (simp add: fw_ok_def fw_timers_def repeats_def ms_left_def)
  then have "wait_left 102 s \<le> 102" by (simp add: wait_left_def)
  then obtain es rest u v where c: "evs = es @ EvTick # rest" "length (filter is_tick es) < 102" "fw_run es s = Ok u" "fw_ok u"
    "fw_step EvTick u = Ok v" "hm_motor_limit_logical_check (ticked 2 u) = Ok v"
    using check_comes[OF ok assms(2,3)] by blast
  have "\<forall>a < 4. checked a u (axis a v) \<and> (check_stops a u \<and> truth (bStopImmediatelyCW (hw_of a u)) \<longrightarrow> hw_stopped a v)"
    if "steady u"
  proof -
    have "board_ok (ticked 2 u)" by (rule board_ok_same[of _ u]) (use c(4) in \<open>simp_all add: fw_ok_def\<close>)
    then have "motor_ok (ticked 2 u)" by (rule board_motor_ok)
    moreover have "steady (ticked 2 u)" using that by (simp add: ticked_check)
    ultimately show ?thesis using limit_check_run[of "ticked 2 u"] c(6) by (simp add: ticked_check)
  qed
  then show ?thesis using c by blast
qed

section \<open>The board at power up\<close>

text \<open>No switch is closed, the clock gets ready at once, and the first call of \<open>ETH_Init\<close> succeeds after 250 ticks.\<close>

definition fw_power_up :: fw_st where
  "fw_power_up = uart_st.extend (uart_on (cmd_on (motor_power_up 0xFFFF)))
     (fw_st.fields 0 False False 0 False (\<lambda>n. (0xFFFFFFFF, 0xFFFFFFFF, 0xFFFFFFFF)) 0 [] 0 0 eth_zero [250] True
        0 0 0 0 3 (\<lambda>n. word_of_nat (250 * n)))"

lemma fw_power_up_sel:
  "rcc_status fw_power_up = (\<lambda>n. (0xFFFFFFFF, 0xFFFFFFFF, 0xFFFFFFFF))" "spin_fuel fw_power_up = 3"
  "eth fw_power_up = eth_zero" "eth_ticks fw_power_up = [250]" "eth_mem fw_power_up"
  "s_axis_info fw_power_up = replicate 4 axis_zero" "length (msg_array fw_power_up) = 80" "length (s_timers fw_power_up) = 10"
  "length (s_cmd_queue fw_power_up) = 20" "length (s_cmd_table fw_power_up) = 20" "quiet fw_power_up" "net_out fw_power_up = []"
  "delay_reads fw_power_up = (\<lambda>n. word_of_nat (250 * n))"
  by (simp_all add: fw_power_up_def uart_st.defs fw_st.defs uart_on_def cmd_on_def cmd_st.defs motor_st.defs motor_power_up_def
      timer_st.defs timer_power_up_def addr_power_up_def addr_st.defs msg_power_up_def msg_st.defs hw_st.defs hw_reset_def
      quiet_def)

lemma eth_zero_up:
  "eth_loaded eth_zero" "\<not> sr_reads eth_zero 0" "init_succeeds [n] (ETH_SoftwareReset (ETH_DeInit eth_zero))"
proof -
  show "eth_loaded eth_zero" by (rule eth_zero_loaded)
  show "\<not> sr_reads eth_zero 0" by (simp add: eth_zero_def eth_hw.defs)
  let ?h = "ETH_SoftwareReset (ETH_DeInit eth_zero)"
  have h: "phy ?h = phy eth_zero"
    by (simp add: ETH_SoftwareReset_def ETH_DeInit_def eth_regs_reset_def Let_def)
  have r: "phy_reply ?h k = Some 0x0024" for k by (simp add: phy_reply_def h eth_zero_sel PHY_READ_TO_def)
  have up: "phy_up PHY_Linked_Status ?h k" "phy_up PHY_AutoNego_Complete ?h k" for k
    by (simp_all add: phy_up_def r PHY_Linked_Status_def PHY_AutoNego_Complete_def)
  have auto: "ETH_AutoNegotiation eth_config \<noteq> 0" by (simp add: eth_config_sel)
  show "init_succeeds [n] ?h"
    using ETH_Init_up[OF auto refl, of ?h 0 0 PHY_ADDRESS] r up by (auto simp: PHY_READ_TO_def)
qed

lemma fw_power_up_ok: "loaded fw_power_up" "eth_up fw_power_up"
proof -
  have ax: "axis a fw_power_up = axis_zero" if "a < 4" for a
    using that by (simp add: axis_def fw_power_up_sel del: axis_list)
  show "loaded fw_power_up" using ax
    by (simp add: loaded_def fw_power_up_sel) (simp add: axis_zero_def buf_zero_def)
  show "eth_up fw_power_up"
    using eth_zero_up
    by (auto simp: eth_up_def fw_power_up_sel flag_at_def RCC_GetFlagStatus_def RCC_FLAG_PLL3RDY_def intro: exI[of _ 0])
qed

lemma boot_ready_witness:
  "\<exists>t. main_init fw_power_up = Ok t \<and> idle 3 t \<and> netpool.free t = 20 \<and> ms_left 2 t = 100"
proof -
  obtain t where "main_init fw_power_up = Ok t" "\<forall>a < 4. idle a t \<and> motor_pos (axis a t) = 0" "netpool.free t = 20"
    "ms_left 2 t = 100" using boot_ready[OF fw_power_up_ok] by blast
  then show ?thesis by (intro exI[of _ t]) simp
qed

text \<open>From there the inputs are open and stay so, and 102 ticks pass.\<close>

definition open_inputs :: "fw_st \<Rightarrow> fw_event" where
  "open_inputs s = EvHw (\<lambda>n p. 0xFFFF) (exti s) (tim s) (dma s) (DMA1_ISR s)"

lemma fw_trial:
  assumes "main_init fw_power_up = Ok s"
  shows "reachable s" "\<exists>t. fw_run (open_inputs s # replicate 102 EvTick) s = Ok t"
    "length (filter is_tick (open_inputs s # replicate 102 EvTick)) = 102"
proof -
  show r: "reachable s" by (rule reachable.start[OF fw_power_up_ok assms])
  obtain u where u: "fw_step (open_inputs s) s = Ok u" "quiet u" by (simp add: open_inputs_def quiet_def)
  show "\<exists>t. fw_run (open_inputs s # replicate 102 EvTick) s = Ok t"
    using u quiet_ticks[OF fw_step_ok[OF reachable_ok[OF r] u(1)] u(2), of 102] by (simp only: fw_run_def for_each.simps bnd_Ok)
  have "filter is_tick (replicate n EvTick) = replicate n EvTick" for n by (induction n) simp_all
  then show "length (filter is_tick (open_inputs s # replicate 102 EvTick)) = 102"
    by (simp add: open_inputs_def)
qed

lemma fw_invariant_witness:
  "\<exists>s t. main_init fw_power_up = Ok s \<and> fw_run (open_inputs s # replicate 102 EvTick) s = Ok t \<and>
    motor_ok t \<and> ptim (axis 2 t) = TIM3 \<and> fw_timers (s_timers t)"
proof -
  obtain s where s: "main_init fw_power_up = Ok s" using boot_run[OF fw_power_up_ok] by blast
  obtain t where t: "fw_run (open_inputs s # replicate 102 EvTick) s = Ok t" using fw_trial(2)[OF s] by blast
  have r: "reachable t" by (rule reachable_run[OF t fw_trial(1)[OF s]])
  have "ptim (axis 2 t) = [TIM1, TIM2, TIM3, TIM4] ! 2" using fw_invariant[OF r] by simp
  then show ?thesis using fw_invariant[OF r] s t by (intro exI[of _ s] exI[of _ t]) simp
qed

lemma limit_check_in_time_witness:
  "\<exists>s es u v. main_init fw_power_up = Ok s \<and> fw_run es s = Ok u \<and> fw_step EvTick u = Ok v \<and>
    hm_motor_limit_logical_check (ticked 2 u) = Ok v"
proof -
  obtain s where s: "main_init fw_power_up = Ok s" using boot_run[OF fw_power_up_ok] by blast
  note trial = fw_trial[OF s]
  obtain t where t: "fw_run (open_inputs s # replicate 102 EvTick) s = Ok t" using trial(2) by blast
  show ?thesis using limit_check_in_time[OF trial(1) t] trial(3) s by (simp del: filter.simps) blast
qed

text \<open>
  The watchdog, which \<open>main\<close> does not start, would be set to 625 counts of the clock divided by 32: 500
  milliseconds of the 40 kHz clock, where the source speaks of 250.
\<close>

lemma iwdg_period:
  assumes "k < spin_fuel s" and "\<And>r. flag_at RCC_FLAG_LSIRDY (r + k) s"
  shows "\<exists>b t. hm_iwdg_init s = Ok (b, t) \<and> iwdg_PR t = 3 \<and> iwdg_RLR t = 625 \<and>
    4 * 2 ^ unat (iwdg_PR t) * unat (iwdg_RLR t) * 1000 = 500 * unat LsiFreq"
proof -
  obtain b u where b: "RCC_GetFlagStatus RCC_FLAG_IWDGRST s = (b, u)" by fastforce
  let ?u = "RCC_LSICmd ENABLE (if b then RCC_ClearFlag u else u)"
  have u: "rcc_status ?u = rcc_status s" "spin_fuel ?u = spin_fuel s"
    using b by (auto simp: RCC_GetFlagStatus_def RCC_LSICmd_def RCC_ClearFlag_def Let_def split_beta)
  have "flag_at RCC_FLAG_LSIRDY (rcc_reads ?u + k) ?u" using assms(2) flag_at_same[OF u(1)] by blast
  then obtain m where m: "wait_flag (spin_fuel ?u) RCC_FLAG_LSIRDY ?u = Ok (?u\<lparr>rcc_reads := m\<rparr>)"
    using wait_flag_Ok[of k "spin_fuel ?u" RCC_FLAG_LSIRDY ?u] assms(1) u(2) by auto
  show ?thesis
    unfolding hm_iwdg_init_def b prod.case Let_def m bnd_Ok
    by (simp add: IWDG_WriteAccessCmd_def IWDG_SetPrescaler_def IWDG_SetReload_def IWDG_ReloadCounter_def IWDG_Enable_def LsiFreq_def)
qed

end
