(* ===== verification/Fw_Reboot.thy ===== *)
theory Fw_Reboot
  imports Fw_Boot
begin

text \<open>
  The way from a command to the main loop: the command that prepares the board for a new program puts a
  message into the ring, and the turn of the loop that takes it resets the core, whatever else happens
  in between.
\<close>

section \<open>The environment of the delay\<close>

interpretation delayframe: cmd_frame delay_env
  by unfold_locales (simp_all add: delay_env_def)

interpretation delayobs: frame_obs delay_env p for p
  by unfold_locales (simp_all add: delay_env_def delayframe.kept_exec)

text \<open>The ring begins with the messages \<open>q\<close>.\<close>

definition starts :: "(ck_func \<times> ck_param) list \<Rightarrow> 'a msg_st_scheme \<Rightarrow> bool" where
  "starts q s \<longleftrightarrow> msg_wf s \<and> (\<exists>r. queued s = q @ r)"

lemma starts_same:
  assumes "msg_array t = msg_array s" and "nwrite t = nwrite s" and "nread t = nread s" and "nmin t = nmin s"
  shows "starts q t = starts q s"
  using queue_kept[OF assms] by (simp add: starts_def)

lemma starts_add: "starts q s \<Longrightarrow> starts q (snd (hm_msg_queue_add (Some f) p s))"
  using add_msg_wf[of s "Some f" p] queued_add[of s f p] by (auto simp: starts_def)

interpretation startsirq: irq_frame "starts q" for q
  by unfold_locales (rule starts_same; simp)+

interpretation startsobs: frame_obs "starts q" True for q
proof
  fix s :: "'a cmd_st_scheme" and qu j bf r
  show "starts q (s\<lparr>s_cmd_queue := qu\<rparr>) = starts q s" "starts q (s\<lparr>s_queue_idx := j\<rparr>) = starts q s"
    "starts q (s\<lparr>net_bufs := bf\<rparr>) = starts q s" by (rule starts_same; simp)+
  assume "starts q s = True"
  then show "startsirq.kept q startsirq.st_of (exec_cmd r s) True"
    by (intro startsirq.kept_exec_load) (simp_all add: exec_reset_for_load_def starts_add)
qed
section \<open>Events between the command and the reset\<close>

lemma led_ck_same:
  "msg_array (led_ck s) = msg_array s" "nwrite (led_ck s) = nwrite s" "nread (led_ck s) = nread s" "nmin (led_ck s) = nmin s"
  "delay_env (led_ck s) = delay_env s"
  by (simp_all add: led_ck_def Let_def hm_led_act_def GPIO_SetBits_def GPIO_ResetBits_def delay_env_def)

lemma ticked_msgs [simp]: "starts q (ticked j s) = starts q s" "delay_env (ticked j u) = delay_env u"
  by (rule starts_same; simp add: ticked_def) (simp add: ticked_def delay_env_def)

lemma delay_add [simp]: "delay_env (snd (hm_msg_queue_add (Some f) p s)) = delay_env s"
  by (rule delayframe.obs_queue_add)

lemma frames_kept:
  assumes "for_each frame_handled fs s = Ok t"
    and "\<And>f u v. P u \<Longrightarrow> frame_input f u = Inr v \<Longrightarrow> P (v\<lparr>s_count := s_count v + 1\<rparr>)" and "P s"
  shows "P t"
  by (rule for_each_inv[where P = P, OF assms(1,3)]) (use assms(2) in \<open>auto simp: frame_handled_def\<close>)

lemma fw_step_starts:
  fixes s t :: "'a fw_st_scheme"
  assumes s: "fw_ok s" and q: "starts q s" and step: "fw_step e s = Inr t" and e: "e \<noteq> EvTurn"
  shows "starts q t"
proof (cases e)
  case EvTick
  then have tick: "SysTick_Handler run_ck s = Inr t" using step by simp
  have ts: "fw_timers (s_timers s)" using s by (simp add: fw_ok_def)
  show ?thesis
  proof (rule fw_tick[OF ts tick])
    assume "t = led_ck (ticked 0 s)"
    then show ?thesis using q starts_same[of t "ticked 0 s" q] by (simp add: led_ck_same)
  next
    assume "hm_motor_limit_logical_check (ticked 2 s) = Inr t"
    then show ?thesis using startsirq.kept_check[of "ticked 2 s" t q] q by simp
  next
    assume "t = s\<lparr>s_tim_count := s_tim_count s + 1, s_timers := map dec_active (s_timers s)\<rparr>"
    then show ?thesis using q starts_same[of t s q] by simp
  qed (simp add: q starts_add)
next
  case (EvLine k)
  then show ?thesis using step q startsirq.kept_exti[of q s True k] by (simp add: startsirq.kept_def)
next
  case (EvDma c)
  then show ?thesis using step q startsirq.kept_dma_vector[of q s True c] by (simp add: startsirq.kept_def)
next
  case EvTim1
  then show ?thesis using step q startsirq.obs_tim1[of q s] by auto
next
  case (EvFrames fs)
  then have "for_each frame_handled fs s = Ok t" using step by (simp add: frames_handled_def)
  then show ?thesis
  proof (rule frames_kept[where P = "starts q"])
    fix f and u v :: "'a fw_st_scheme"
    assume "starts q u" and "frame_input f u = Inr v"
    then have "starts q v" using startsobs.kept_input[of q u f] by (simp add: startsirq.kept_def)
    then show "starts q (v\<lparr>s_count := s_count v + 1\<rparr>)" using starts_same[of "v\<lparr>s_count := s_count v + 1\<rparr>" v q] by simp
  qed (rule q)
next
  case (EvEth h)
  then show ?thesis using step q starts_same[of t s q] by auto
next
  case (EvHw lv ex tm dm isr)
  then show ?thesis using step q starts_same[of t s q] by auto
qed (use e in simp)

lemma fw_turn_starts:
  assumes s: "fw_ok s" and q: "starts (m # q) s" and t: "main_turn s = Inr t"
  shows "fst m = CK_netwk_ck \<and> starts q t"
  using s
proof (cases rule: fw_turn)
  case none
  then show ?thesis using q by (simp add: starts_def)
next
  case (net p ms)
  have t: "t = ring_popped (netwk_ck s)" using t net by simp
  have wf: "msg_wf s" using s by (simp add: fw_ok_def queue_ok_def)
  have qn: "queued (netwk_ck s) = queued s" by (simp add: netwk_same)
  have "queue_ok (netwk_ck s)" using s by (simp add: netwk_same fw_ok_def)
  then have wn: "msg_wf (netwk_ck s)" by (simp add: queue_ok_def)
  have ne: "msg_count (netwk_ck s) \<noteq> 0" using net qn unfolding queued_Nil_iff[symmetric] by simp
  have "queued t = tl (queued s)"
    unfolding t queued_def msgs_popped[OF msg_wf_ring[OF wn] ne] using qn by (simp add: queued_def map_tl)
  then show ?thesis using net q popped_msg_wf[OF wn ne] by (auto simp: starts_def t)
next
  case (reboot p ms)
  then show ?thesis using t by simp
qed

lemma fw_step_delay:
  fixes s t :: "'a fw_st_scheme"
  assumes s: "fw_ok s" and step: "fw_step e s = Inr t"
  shows "delay_env t = delay_env s"
proof (cases e)
  case EvTick
  then have tick: "SysTick_Handler run_ck s = Inr t" using step by simp
  have ts: "fw_timers (s_timers s)" using s by (simp add: fw_ok_def)
  show ?thesis
  proof (rule fw_tick[OF ts tick])
    assume "hm_motor_limit_logical_check (ticked 2 s) = Inr t"
    then show ?thesis using delayframe.kept_check[of "ticked 2 s" t] by simp
  qed (simp_all add: led_ck_same, simp add: delay_env_def)
next
  case EvTurn
  then have turn: "main_turn s = Inr t" using step by simp
  have "delay_env (ring_popped (netwk_ck s)) = delay_env s"
    by (simp add: delay_env_def ring_popped_def enable_irq_def disable_irq_def netwk_ck_def LwIP_Periodic_Handle_def net_do_def)
  then show ?thesis using fw_turn[OF s] turn by (metis bnd_Fault sum.distinct(1) sum.inject(2))
next
  case (EvLine k)
  then show ?thesis using step delayobs.kept_exti[of s "delay_env s" k] by (simp add: delayframe.kept_def)
next
  case (EvDma c)
  then show ?thesis using step delayobs.kept_dma_vector[of s "delay_env s" c] by (simp add: delayframe.kept_def)
next
  case (EvFrames fs)
  then have "for_each frame_handled fs s = Ok t" using step by (simp add: frames_handled_def)
  then show ?thesis
  proof (rule frames_kept[where P = "\<lambda>u. delay_env u = delay_env s"])
    fix f and u v :: "'a fw_st_scheme"
    assume "delay_env u = delay_env s" and "frame_input f u = Inr v"
    then show "delay_env (v\<lparr>s_count := s_count v + 1\<rparr>) = delay_env s"
      using delayobs.kept_input[of u "delay_env s" f] by (simp add: delayframe.kept_def delay_env_def)
  qed simp
qed (use step in \<open>auto simp: TIM1_UP_IRQHandler_def upd_axis_def delay_env_def\<close>)

definition is_turn :: "fw_event \<Rightarrow> bool" where
  "is_turn e \<longleftrightarrow> (case e of EvTurn \<Rightarrow> True | _ \<Rightarrow> False)"

lemma is_turn [simp]: "is_turn EvTurn" "e \<noteq> EvTurn \<Longrightarrow> \<not> is_turn e"
  by (cases e; simp add: is_turn_def)+

text \<open>No run gets past the message: each turn takes one of those in front of it, then comes the reset.\<close>

lemma reboot_ahead:
  assumes "fw_run evs s = Ok t" and "fw_ok s" and "starts (q @ [(CK_hm_cmd_reboot_ck, p)]) s"
  shows "fw_ok t \<and> delay_env t = delay_env s \<and> length (filter is_turn evs) \<le> length q"
  using assms
proof (induction evs arbitrary: q s)
  case Nil
  then show ?case by (simp add: fw_run_def)
next
  case (Cons e evs)
  obtain u where u: "fw_step e s = Inr u" "fw_run evs u = Ok t" using Cons.prems(1) by (auto simp: fw_run_def)
  have oku: "fw_ok u" by (rule fw_step_ok[OF Cons.prems(2) u(1)])
  have du: "delay_env u = delay_env s" by (rule fw_step_delay[OF Cons.prems(2) u(1)])
  show ?case
  proof (cases "e = EvTurn")
    case True
    then have turn: "main_turn s = Inr u" using u(1) by simp
    show ?thesis
    proof (cases q)
      case Nil
      then show ?thesis using fw_turn_starts[OF Cons.prems(2) _ turn, of "(CK_hm_cmd_reboot_ck, p)" "[]"] Cons.prems(3) by simp
    next
      case (Cons m ms)
      then have "starts (ms @ [(CK_hm_cmd_reboot_ck, p)]) u"
        using fw_turn_starts[OF \<open>fw_ok s\<close> _ turn, of m "ms @ [(CK_hm_cmd_reboot_ck, p)]"] Cons.prems(3) by simp
      then show ?thesis using Cons.IH[OF u(2) oku] Cons du True by auto
    qed
  next
    case False
    then show ?thesis using Cons.IH[OF u(2) oku fw_step_starts[OF Cons.prems(2,3) u(1)]] du by auto
  qed
qed

text \<open>With turns alone it comes.\<close>

lemma reboot_comes:
  assumes "fw_ok s" and "starts (q @ [(CK_hm_cmd_reboot_ck, p)]) s" and "hm_delay (spin_fuel s) (delay_reads s) 500 \<noteq> None"
  shows "\<exists>n u. n \<le> length q \<and> fw_run (replicate n EvTurn) s = Ok u \<and> fw_step EvTurn u = Fault SystemReset"
  using assms
proof (induction q arbitrary: s)
  case Nil
  then have ne: "queued s \<noteq> []" and hd: "hd (queued s) = (CK_hm_cmd_reboot_ck, p)" by (auto simp: starts_def)
  have "main_turn s = Fault SystemReset"
    by (rule fw_turn[OF Nil.prems(1)]) (use ne hd Nil.prems(3) in auto)
  then show ?case by (intro exI[of _ 0] exI[of _ s]) (simp add: fw_run_def)
next
  case (Cons m q)
  show ?case
    using Cons.prems(1)
  proof (cases rule: fw_turn)
    case none
    then show ?thesis using Cons.prems(2) by (simp add: starts_def)
  next
    case (net b ms)
    let ?u = "ring_popped (netwk_ck s)"
    have u: "main_turn s = Inr ?u" using net by simp
    have st: "starts (q @ [(CK_hm_cmd_reboot_ck, p)]) ?u"
      using fw_turn_starts[OF Cons.prems(1) _ u, of m "q @ [(CK_hm_cmd_reboot_ck, p)]"] Cons.prems(2) by simp
    have "delay_env ?u = delay_env s" using fw_step_delay[OF Cons.prems(1), of EvTurn ?u] u by simp
    then have "hm_delay (spin_fuel ?u) (delay_reads ?u) 500 \<noteq> None" using Cons.prems(3) by (simp add: delay_env_def)
    then obtain n v where v: "n \<le> length q" "fw_run (replicate n EvTurn) ?u = Ok v" "fw_step EvTurn v = Fault SystemReset"
      using Cons.IH[OF fw_turn_ok[OF Cons.prems(1) u] st] by blast
    then show ?thesis using u by (intro exI[of _ "Suc n"] exI[of _ v]) (simp add: fw_run_def)
  next
    case (reboot b ms)
    then show ?thesis using Cons.prems(3) by (intro exI[of _ 0] exI[of _ s]) (simp add: fw_run_def)
  qed
qed

section \<open>The command\<close>

lemma load_executed:
  assumes "ncmd r = hmResetForLoad"
  shows "hm_cmd_exc_ck r s = Ok (r\<lparr>req_ret := 0\<rparr>, snd (hm_msg_queue_add (Some CK_hm_cmd_reboot_ck) NoParam s))"
  using assms by (simp add: hm_cmd_exc_ck_def exec_cmd_def cmd_nos exec_reset_for_load_def)

lemma bytes_result: "length d = 30 \<Longrightarrow> bytes_of_req ((req_of_bytes d)\<lparr>req_ret := v\<rparr>) = d[26 := v]"
  by (rule nth_equalityI) (auto simp: req_of_bytes_def bytes_of_req_def nth_append nth_Cons' nth_list_update
      numeral_eq_Suc less_Suc_eq)

lemma calling_queue: "queued (calling upcb b addr port i s) = queued s" "msg_wf (calling upcb b addr port i s) = msg_wf s"
  "net_out (calling upcb b addr port i s) = net_out s @ [udp_connect upcb addr port]"
  "net_bufs (calling upcb b addr port i s) = net_bufs s"
  by (rule queue_kept; simp add: calling_def accepted_def upd_item_def upd_debug_def net_do_def)+
    (simp_all add: calling_def accepted_def upd_item_def upd_debug_def net_do_def)

lemma answered_queue: "queued (answered upcb b i r t) = queued t"
  by (rule queue_kept) (simp_all add: answered_def)

lemma outs_add: "net_out (snd (hm_msg_queue_add (Some f) p s)) = net_out s"
  "net_bufs (snd (hm_msg_queue_add (Some f) p t)) = net_bufs t"
  by (simp_all add: hm_msg_queue_add_def ismsg_full_def msg_get_move_next_write_def msg_fill_def Let_def enable_irq_def disable_irq_def
      hm_led_act_def GPIO_SetBits_def)

lemma load_delivered:
  assumes s: "server_ready s" "netpool.free s > 0" and q: "msg_wf s" "length (queued s) < 79"
    and d: "valid_frame (dg_bytes x)" "dg_bytes x ! 25 = hmResetForLoad"
  shows "\<exists>t. deliver x s = Ok t \<and> queued t = queued s @ [(CK_hm_cmd_reboot_ck, NoParam)] \<and>
    net_out t = net_out s @ [udp_connect (dg_upcb x) (dg_addr x) (dg_port x),
      udp_send (dg_upcb x) (Some (dg_buf x)) ((dg_bytes x)[26 := 0] @ dg_rest x), udp_disconnect (dg_upcb x),
      pbuf_free (Some (dg_buf x))]"
proof -
  let ?s = "received x s"
  have b: "net_bufs ?s (dg_buf x) = (dg_bytes x, dg_rest x)" by (simp add: received_def)
  have rs: "server_ready ?s" "netpool.free ?s > 0" using s by (simp_all add: received_def pool_received)
  have rq: "queued ?s = queued s" "msg_wf ?s = msg_wf s" by (rule queue_kept; simp add: received_def)+
  obtain i where i: "fst (hm_cmd_find_idle ?s) = Some i" using rs(2) netpool.free_none[of ?s] by auto
  have n: "ncmd (req_of_bytes (dg_bytes x)) = hmResetForLoad" using d(2) by (simp add: req_of_bytes_def)
  let ?c = "calling (dg_upcb x) (dg_buf x) (dg_addr x) (dg_port x) i ?s"
  let ?t = "snd (hm_msg_queue_add (Some CK_hm_cmd_reboot_ck) NoParam ?c)"
  have "deliver x s = Ok (answered (dg_upcb x) (dg_buf x) i ((req_of_bytes (dg_bytes x))\<lparr>req_ret := 0\<rparr>) ?t)"
    unfolding deliver_def
    using serve[OF rs(1) _ i, of "dg_buf x" "dg_upcb x" "dg_addr x" "dg_port x"] d(1) b n load_executed[OF n, of ?c]
    by (simp add: hmResetForLoad_def)
  moreover have "net_out ?t = net_out s @ [udp_connect (dg_upcb x) (dg_addr x) (dg_port x)]"
    by (simp add: calling_queue received_def outs_add)
  moreover have "net_bufs ?t (dg_buf x) = (dg_bytes x, dg_rest x)" by (simp add: outs_add calling_queue b)
  moreover have "queued ?t = queued s @ [(CK_hm_cmd_reboot_ck, NoParam)]"
    using queued_add[of ?c CK_hm_cmd_reboot_ck NoParam] q rq by (simp add: calling_queue)
  moreover have "length (dg_bytes x) = 30" using d(1) by (simp add: valid_frame_def)
  ultimately show ?thesis
    by (simp add: answered_queue bytes_result) (simp add: answered_def bytes_result)
qed

text \<open>
  C6.  The command that prepares the board for a new program, in any reachable state with an idle slot and
  room in the ring of messages.  It is answered with the result byte 0 and leaves one message behind.  From
  then on no run of events, whatever they are, has more turns of the main loop than there were messages
  in front of it; if the delay of 500 ms returns, a turn that faults is the reset of the core, and turns
  alone end in that reset.
\<close>

theorem reset_for_load_resets:
  assumes "reachable s" and "netpool.free s > 0" and "length (queued s) < 79"
    and "valid_frame (dg_bytes x)" and "dg_bytes x ! 25 = hmResetForLoad"
    and "hm_delay (spin_fuel s) (delay_reads s) 500 \<noteq> None"
  shows "\<exists>t. fw_step (EvFrames [CmdFrame x]) s = Ok t \<and>
    queued t = queued s @ [(CK_hm_cmd_reboot_ck, NoParam)] \<and>
    net_out t = net_out s @ [udp_connect (dg_upcb x) (dg_addr x) (dg_port x),
      udp_send (dg_upcb x) (Some (dg_buf x)) ((dg_bytes x)[26 := 0] @ dg_rest x), udp_disconnect (dg_upcb x),
      pbuf_free (Some (dg_buf x))] \<and>
    (\<forall>evs u. fw_run evs t = Ok u \<longrightarrow> length (filter is_turn evs) \<le> length (queued s) \<and>
       (\<forall>e. fw_step EvTurn u = Fault e \<longrightarrow> e = SystemReset)) \<and>
    (\<exists>n u. n \<le> length (queued s) \<and> fw_run (replicate n EvTurn) t = Ok u \<and> fw_step EvTurn u = Fault SystemReset)"
proof -
  have ok: "fw_ok s" by (rule reachable_ok[OF assms(1)])
  then have w: "server_ready s" "msg_wf s" by (simp_all add: fw_ok_def queue_ok_def)
  obtain v where v: "deliver x s = Ok v" "queued v = queued s @ [(CK_hm_cmd_reboot_ck, NoParam)]"
    "net_out v = net_out s @ [udp_connect (dg_upcb x) (dg_addr x) (dg_port x),
      udp_send (dg_upcb x) (Some (dg_buf x)) ((dg_bytes x)[26 := 0] @ dg_rest x), udp_disconnect (dg_upcb x),
      pbuf_free (Some (dg_buf x))]"
    using load_delivered[OF w(1) assms(2) w(2) assms(3-5)] by blast
  let ?t = "v\<lparr>s_count := s_count v + 1\<rparr>"
  have t: "fw_step (EvFrames [CmdFrame x]) s = Ok ?t"
    using v(1) by (simp add: frames_handled_def frame_handled_def frame_input_def)
  have qt: "queued ?t = queued s @ [(CK_hm_cmd_reboot_ck, NoParam)]" using queue_kept(3)[of ?t v] v(2) by simp
  have okt: "fw_ok ?t" by (rule fw_step_ok[OF ok t])
  have dt: "delay_env ?t = delay_env s" by (rule fw_step_delay[OF ok t])
  have st: "starts (queued s @ [(CK_hm_cmd_reboot_ck, NoParam)]) ?t"
    using okt qt by (simp add: starts_def fw_ok_def queue_ok_def)
  have last: "e = SystemReset" if "fw_run evs ?t = Ok u" "fw_step EvTurn u = Fault e" for evs u e
  proof -
    have u: "fw_ok u" "delay_env u = delay_env s" using reboot_ahead[OF that(1) okt st] dt by simp_all
    then have "hm_delay (spin_fuel u) (delay_reads u) 500 \<noteq> None" using assms(6) by (simp add: delay_env_def)
    with u(1) show ?thesis by (cases rule: fw_turn) (use that(2) in auto)
  qed
  have "hm_delay (spin_fuel ?t) (delay_reads ?t) 500 \<noteq> None" using assms(6) dt by (simp add: delay_env_def)
  note comes = reboot_comes[OF okt st this]
  show ?thesis using t qt v(3) reboot_ahead[OF _ okt st] last comes by (intro exI[of _ ?t]) auto
qed

text \<open>On the board right after its set up: the first turn of the loop is the reset.\<close>

lemma reset_for_load_resets_witness:
  "\<exists>s t. main_init fw_power_up = Ok s \<and> fw_step (EvFrames [CmdFrame (dg_of hmResetForLoad 0)]) s = Ok t \<and>
    fw_step EvTurn t = Fault SystemReset"
proof -
  obtain s where s: "main_init fw_power_up = Ok s" "netpool.free s = 20" "queued s = []" "delay_env s = delay_env fw_power_up"
    using boot_run[OF fw_power_up_ok] by blast
  have r: "reachable s" by (rule reachable.start[OF fw_power_up_ok s(1)])
  have d: "hm_delay (spin_fuel s) (delay_reads s) 500 \<noteq> None"
    using s(4) by (simp add: delay_env_def fw_power_up_sel hm_delay_def numeral_3_eq_3 word_less_nat_alt)
  have "valid_frame (dg_bytes (dg_of hmResetForLoad 0))" "dg_bytes (dg_of hmResetForLoad 0) ! 25 = hmResetForLoad"
    by (simp_all add: dg_of_def)
  then obtain t n u where t: "fw_step (EvFrames [CmdFrame (dg_of hmResetForLoad 0)]) s = Ok t" "n \<le> length (queued s)"
    "fw_run (replicate n EvTurn) t = Ok u" "fw_step EvTurn u = Fault SystemReset"
    using reset_for_load_resets[OF r _ _ _ _ d, of "dg_of hmResetForLoad 0"] s(2,3) by auto
  have "u = t" using t(2,3) s(3) by (simp add: fw_run_def)
  then show ?thesis using s(1) t(1,4) by (intro exI[of _ s] exI[of _ t]) simp
qed

end
