(* ===== verification/Fw_Eth.thy ===== *)
theory Fw_Eth
  imports Fw_Reboot
begin

text \<open>
  The receive interrupt of \<^verbatim>\<open>stm32f10x_it.c\<close> on the ring of frames: it takes the frames out one after the
  other and gives each to the network stack, while the hardware may store more.  What the stack makes
  of a packet is a parameter.  The interrupt is a run of the events of \<open>Firmware\<close>, so the running
  firmware with it keeps what is proved over the reachable states.
\<close>

section \<open>The peripheral after the boot\<close>

lemma no_bit: "\<not> bit (x :: u8) (8 + n)" "\<not> bit x (16 + n)" "\<not> bit x (24 + n)"
  using bit_imp_le_length[of x] by force+

lemma mac_low:
  fixes a b c d :: u8
  defines "w \<equiv> push_bit 24 (ucast d) OR push_bit 16 (ucast c) OR push_bit 8 (ucast b) OR (ucast a :: u32)"
  shows "(ucast w :: u8) = a" "(ucast (drop_bit 8 w) :: u8) = b" "(ucast (drop_bit 16 w) :: u8) = c" "(ucast (drop_bit 24 w) :: u8) = d"
  by (auto simp: w_def bit_simps no_bit intro!: bit_word_eqI)

lemma mac_high:
  fixes a b :: u8
  defines "w \<equiv> push_bit 8 (ucast b) OR (ucast a :: u32)"
  shows "(ucast w :: u8) = a" "(ucast (drop_bit 8 w) :: u8) = b"
  by (auto simp: w_def bit_simps no_bit intro!: bit_word_eqI)

lemma boot_rings:
  fixes mac :: "u8 list"
  assumes "eth_configured h"
  defines "t \<equiv> low_level_init (Set_MAC_Address mac (ETH_DMAITConfig 0x00010040 ENABLE h))"
  shows "rx_wf t" "rx_frames t = []" "tx_wf t" "tx_queue t = []" "if_hwaddr t = map ((!) mac) [0..<6]"
    "map (\<lambda>i. ucast (drop_bit (8 * i) (MACA0LR t)) :: u8) [0..<4] @ map (\<lambda>i. ucast (drop_bit (8 * i) (MACA0HR t))) [0..<2] =
      map ((!) mac) [0..<6]"
    "DMAIER t = 0x00010040" "MACCR t AND 0x0000000C = 0x0000000C" "MACCR t AND 0x00000400 = 0"
proof -
  let ?h = "Set_MAC_Address mac (ETH_DMAITConfig 0x00010040 ENABLE h)"
  have l: "eth_loaded ?h" using assms(1)
    by (simp add: eth_configured_def eth_base_def eth_loaded_def pbufs_exact_def Set_MAC_Address_def ETH_MACAddressConfig_def
        ETH_DMAITConfig_def)
  note sel = low_level_init_sel[OF l, folded t_def]
  have upt: "[0..<6] = [0, 1, 2, 3, 4, 5 :: nat]" "[0..<4] = [0, 1, 2, 3 :: nat]" "[0..<2] = [0, 1 :: nat]"
    by (simp_all add: upt_rec)
  show "rx_wf t" "rx_frames t = []" using rx_set_up[OF l] by (simp_all add: t_def)
  show "tx_wf t" "tx_queue t = []" using tx_set_up[OF l] by (simp_all add: t_def)
  show "if_hwaddr t = map ((!) mac) [0..<6]" unfolding sel upt by (simp add: Set_MAC_Address_def ETH_MACAddressConfig_def Let_def)
  show "DMAIER t = 0x00010040" unfolding sel using assms(1)
    by (simp add: Set_MAC_Address_def ETH_MACAddressConfig_def ETH_DMAITConfig_def eth_configured_def eth_base_def)
  have "MACCR ?h = MACCR h" by (simp add: Set_MAC_Address_def ETH_MACAddressConfig_def ETH_DMAITConfig_def)
  then show "MACCR t AND 0x0000000C = 0x0000000C" "MACCR t AND 0x00000400 = 0"
    unfolding sel using assms(1) by (simp_all add: bit.conj_disj_distrib2 eth_configured_def)
  show "map (\<lambda>i. ucast (drop_bit (8 * i) (MACA0LR t)) :: u8) [0..<4] @ map (\<lambda>i. ucast (drop_bit (8 * i) (MACA0HR t))) [0..<2] =
      map ((!) mac) [0..<6]"
    unfolding sel upt by (simp add: Set_MAC_Address_def ETH_MACAddressConfig_def Let_def mac_low mac_high
        del: drop_bit_or)
qed

text \<open>
  C26.  After the set up of \<open>main\<close>, when the port gets memory for its private data, the rings are empty and
  well formed, the interface and the filter of the hardware both have the address of the board, the
  interrupt of the reception and its summary are on, and both directions run.  The check of the
  checksums by the hardware is off.
\<close>

theorem boot_ethernet:
  assumes "loaded s" and "eth_up s" and "eth_mem s"
  shows "\<exists>t. main_init s = Ok t \<and> rx_wf (eth t) \<and> rx_frames (eth t) = [] \<and> tx_wf (eth t) \<and> tx_queue (eth t) = [] \<and>
    if_hwaddr (eth t) = map ((!) (hm_mac_addr t)) [0..<6] \<and>
    map (\<lambda>i. ucast (drop_bit (8 * i) (MACA0LR (eth t))) :: u8) [0..<4] @
      map (\<lambda>i. ucast (drop_bit (8 * i) (MACA0HR (eth t)))) [0..<2] = map ((!) (hm_mac_addr t)) [0..<6] \<and>
    DMAIER (eth t) = 0x00010040 \<and> MACCR (eth t) AND 0x0000000C = 0x0000000C \<and> MACCR (eth t) AND 0x00000400 = 0"
proof -
  obtain t h where t: "main_init s = Ok t" "eth_configured h"
    "eth t = low_level_init (Set_MAC_Address (hm_mac_addr t) (ETH_DMAITConfig 0x00010040 ENABLE h))"
    using boot_run[OF assms(1,2)] assms(3) by (auto simp: ethernetif_init_def)
  show ?thesis
    by (rule exI[of _ t], intro conjI) (use boot_rings[OF t(2), of "hm_mac_addr t", folded t(3)] t(1) in blast)+
qed

lemma boot_ethernet_witness:
  "\<exists>t. main_init fw_power_up = Ok t \<and> rx_wf (eth t) \<and> tx_queue (eth t) = [] \<and> DMAIER (eth t) = 0x00010040"
  using boot_ethernet[OF fw_power_up_ok fw_power_up_sel(5)] by blast

section \<open>The handler\<close>

text \<open>
  \<open>netif->input\<close> is the code of the stack: \<open>inp k q\<close> is what it does with the \<open>k\<close>-th packet when that has
  the contents \<open>q\<close>.  The code that \<open>ethernetif_input\<close> returns is not looked at.
\<close>

definition ethernetif_input :: "(nat \<Rightarrow> u8 list list \<Rightarrow> eth_frame) \<Rightarrow> 'a fw_st_scheme \<Rightarrow> 'a fw_st_scheme res" where
  "ethernetif_input inp s =
     bnd (low_level_input (eth s)) (\<lambda>(p, h).
       let k = pbuf_chains (eth s); s = s\<lparr>eth := h\<rparr>
       in case p of None \<Rightarrow> Ok s | Some q \<Rightarrow> frame_input (inp k q) s)"

definition LwIP_Pkt_Handle :: "(nat \<Rightarrow> u8 list list \<Rightarrow> eth_frame) \<Rightarrow> 'a fw_st_scheme \<Rightarrow> 'a fw_st_scheme res" where
  "LwIP_Pkt_Handle inp s = bnd (ethernetif_input inp s) (\<lambda>s. Ok (s\<lparr>s_count := s_count s + 1\<rparr>))"

text \<open>The frames that the hardware stores during a turn of the loop; the list of them bounds the turns.\<close>

definition arrive :: "wire_frame list \<Rightarrow> eth_hw \<Rightarrow> eth_hw" where
  "arrive = fold (\<lambda>f. dma_receive False (Rep_wire_frame f))"

fun irq_loop :: "(nat \<Rightarrow> u8 list list \<Rightarrow> eth_frame) \<Rightarrow> wire_frame list list \<Rightarrow> 'a fw_st_scheme \<Rightarrow> 'a fw_st_scheme res" where
  "irq_loop inp [] s = Fault Hang"
| "irq_loop inp (fs # fss) s =
     (if ETH_GetRxPktSize (eth s) \<noteq> 0
      then bnd (LwIP_Pkt_Handle inp s) (\<lambda>s. irq_loop inp fss (s\<lparr>eth := arrive fs (eth s)\<rparr>))
      else Ok s)"

definition irq_clear :: "eth_hw \<Rightarrow> eth_hw" where
  "irq_clear h = ETH_DMAClearITPendingBit 0x00010000 (ETH_DMAClearITPendingBit 0x00000040 h)"

definition ETH_IRQHandler ::
  "(nat \<Rightarrow> u8 list list \<Rightarrow> eth_frame) \<Rightarrow> wire_frame list list \<Rightarrow> 'a fw_st_scheme \<Rightarrow> 'a fw_st_scheme res" where
  "ETH_IRQHandler inp fss s =
     bnd (irq_loop inp fss s) (\<lambda>s. Ok (s\<lparr>eth := irq_clear (eth s)\<rparr>))"

section \<open>The handler as events\<close>

interpretation ethframe: cmd_frame eth
  by unfold_locales simp_all

interpretation ethobs: frame_obs eth h for h
  by unfold_locales (simp_all add: ethframe.kept_exec)

lemma input_keeps_eth: "frame_input f s = Inr t \<Longrightarrow> eth t = eth s"
  using ethobs.kept_input[of s "eth s" f] by (simp add: ethframe.kept_def)

lemma handled_keeps_eth:
  assumes "frame_handled f s = Inr t"
  shows "eth t = eth s"
proof -
  obtain u where "frame_input f s = Inr u" "t = u\<lparr>s_count := s_count u + 1\<rparr>"
    using assms by (cases "frame_input f s") (simp_all add: frame_handled_def)
  then show ?thesis using input_keeps_eth by auto
qed

text \<open>What is made of a frame of the ring, when the stack may have no memory for it.\<close>

definition stack_frame :: "(nat \<Rightarrow> u8 list list \<Rightarrow> eth_frame) \<Rightarrow> nat \<Rightarrow> eth_hw \<Rightarrow> wire_frame \<Rightarrow> eth_frame" where
  "stack_frame inp k h f = (case rx_answer k h f of None \<Rightarrow> OtherFrame | Some q \<Rightarrow> inp k q)"

fun irq_events :: "(nat \<Rightarrow> u8 list list \<Rightarrow> eth_frame) \<Rightarrow> eth_hw \<Rightarrow> wire_frame list list \<Rightarrow> fw_event list" where
  "irq_events inp h [] = []"
| "irq_events inp h (fs # fss) =
     (case rx_frames h of
        [] \<Rightarrow> [EvEth (irq_clear h)]
      | f # q \<Rightarrow> EvEth (rx_popped h) # EvFrames [stack_frame inp (pbuf_chains h) h f] #
          EvEth (arrive fs (rx_popped h)) # irq_events inp (arrive fs (rx_popped h)) fss)"

text \<open>The frames that a queue with four places gives out while frames come in.\<close>

fun served :: "'m list \<Rightarrow> 'm list list \<Rightarrow> 'm list" where
  "served q [] = []"
| "served [] (fs # fss) = []"
| "served (m # q) (fs # fss) = m # served (q @ take (4 - length q) fs) fss"

lemma served_all:
  assumes "\<forall>fs \<in> set fss. length fs \<le> 1" and "length q \<le> 4" and "length q + length (concat fss) < length fss"
  shows "\<exists>n. served q fss = q @ concat (take n fss) \<and> length (served q fss) = n"
  using assms
proof (induction q fss rule: served.induct)
  case (3 m q fs fss)
  have "length fs \<le> 1" using "3.prems"(1) by simp
  then have all: "take (4 - length q) fs = fs" using "3.prems"(2) by simp
  have "\<exists>n. served (q @ fs) fss = (q @ fs) @ concat (take n fss) \<and> length (served (q @ fs) fss) = n"
    using "3.IH" "3.prems" unfolding all by simp
  then obtain n where n: "served (q @ fs) fss = (q @ fs) @ concat (take n fss)" "length (served (q @ fs) fss) = n" by blast
  then show ?case unfolding served.simps all by (intro exI[of _ "Suc n"]) simp
qed (auto intro: exI[of _ 0])

lemma arrive_ring:
  assumes "rx_wf h"
  shows "rx_wf (arrive fs h)" "rx_frames (arrive fs h) = rx_frames h @ take (4 - length (rx_frames h)) fs"
  using rx_ring.put_all[OF assms, of fs] by (simp_all add: arrive_def rx_put_def)

text \<open>The fields of the port that the hardware does not touch.\<close>

lemma pieces_port:
  "pbuf_chain (dma_pieces flen es beg bs h) = pbuf_chain h \<and> pbuf_chains (dma_pieces flen es beg bs h) = pbuf_chains h"
proof (induction flen es beg bs h rule: dma_pieces.induct)
  case (1 flen es beg bs h)
  have "pbuf_chain (dma_store p w h) = pbuf_chain h \<and> pbuf_chains (dma_store p w h) = pbuf_chains h" for p w
    by (simp add: dma_store_def upd_rxd_def Let_def)
  then show ?case using "1.IH" by (subst (1 2) dma_pieces.simps) auto
qed

lemma arrive_port: "pbuf_chain (arrive fs h) = pbuf_chain h" "pbuf_chains (arrive fs h) = pbuf_chains h"
  unfolding arrive_def by (induction fs arbitrary: h) (simp_all add: dma_receive_def pieces_port)

lemma popped_port: "pbuf_chain (rx_popped h) = pbuf_chain h" "pbuf_chains (rx_popped h) = pbuf_chains h + 1"
  by (simp_all add: rx_popped_def upd_rxd_def)

lemma stack_frame_port: "pbuf_chain h = pbuf_chain g \<Longrightarrow> stack_frame inp k h f = stack_frame inp k g f"
  by (simp add: stack_frame_def rx_answer_def)

lemma pkt_handle:
  assumes "rx_wf (eth s)" and "rx_frames (eth s) = f # q"
  shows "LwIP_Pkt_Handle inp s = frame_handled (stack_frame inp (pbuf_chains (eth s)) (eth s) f) (s\<lparr>eth := rx_popped (eth s)\<rparr>)"
proof -
  have p: "0 < rx_pending (eth s)" using assms(2) length_rx_frames[of "eth s"] by simp
  have "Abs_wire_frame (rx_bytes (rx_at 0 (eth s)) (eth s)) = f"
    using assms(2) p by (simp add: rx_frames_def upt_Suc_shift)
  moreover have "frame_input OtherFrame t = Ok t" for t :: "'a fw_st_scheme" by (simp add: frame_input_def)
  ultimately show ?thesis using input_pops[OF assms(1) p]
    by (simp add: LwIP_Pkt_Handle_def ethernetif_input_def frame_handled_def stack_frame_def Let_def split: option.split)
qed

lemma irq_turn:
  assumes "ETH_GetRxPktSize (eth s) \<noteq> 0"
  shows "ETH_IRQHandler inp (fs # fss) s =
    bnd (LwIP_Pkt_Handle inp s) (\<lambda>t. ETH_IRQHandler inp fss (t\<lparr>eth := arrive fs (eth t)\<rparr>))"
  unfolding ETH_IRQHandler_def using assms by (cases "LwIP_Pkt_Handle inp s") simp_all

lemma fw_run_Cons: "fw_run (e # es) s = bnd (fw_step e s) (fw_run es)"
  by (simp add: fw_run_def)

lemma handler_events:
  fixes s :: "'a fw_st_scheme"
  shows "rx_wf (eth s) \<Longrightarrow> length (rx_frames (eth s)) + length (concat fss) < length fss \<Longrightarrow>
    ETH_IRQHandler inp fss s = fw_run (irq_events inp (eth s) fss) s"
proof (induction fss arbitrary: s)
  case (Cons fs fss)
  note wf = Cons.prems(1)
  show ?case
  proof (cases "rx_frames (eth s)")
    case Nil
    then have "ETH_GetRxPktSize (eth s) = 0" using rx_size[OF wf] length_rx_frames[of "eth s"] by simp
    then show ?thesis using Nil by (simp add: ETH_IRQHandler_def fw_run_def)
  next
    case q: (Cons f q)
    let ?g = "rx_popped (eth s)" and ?f = "stack_frame inp (pbuf_chains (eth s)) (eth s) f"
    have p: "0 < rx_pending (eth s)" using q length_rx_frames[of "eth s"] by simp
    then have size: "ETH_GetRxPktSize (eth s) \<noteq> 0" using rx_size[OF wf] by simp
    have g: "rx_wf ?g" "rx_frames ?g = q" using rx_popped_ring(1)[OF wf p] rx_popped_frames[OF wf p] q by simp_all
    note a = arrive_ring[OF g(1), of fs]
    have len: "length (rx_frames (arrive fs ?g)) + length (concat fss) < length fss"
      using Cons.prems(2) q unfolding a(2) g(2) by simp
    let ?es = "irq_events inp (arrive fs ?g) fss"
    have after: "ETH_IRQHandler inp fss (t\<lparr>eth := arrive fs (eth t)\<rparr>) = fw_run (EvEth (arrive fs ?g) # ?es) t"
      if "frame_handled ?f (s\<lparr>eth := ?g\<rparr>) = Inr t" for t :: "'a fw_st_scheme"
    proof -
      have "eth t = ?g" using handled_keeps_eth[OF that] by simp
      moreover have "ETH_IRQHandler inp fss u = fw_run ?es u" if "eth u = arrive fs ?g" for u :: "'a fw_st_scheme"
        using Cons.IH[of u] a(1) len unfolding that by blast
      note this[of "t\<lparr>eth := arrive fs ?g\<rparr>"]
      ultimately show ?thesis by (simp add: fw_run_Cons)
    qed
    have "fw_run (irq_events inp (eth s) (fs # fss)) s =
        bnd (frame_handled ?f (s\<lparr>eth := ?g\<rparr>)) (fw_run (EvEth (arrive fs ?g) # ?es))"
      unfolding irq_events.simps q list.case fw_run_Cons fw_step.simps bnd_Ok frames_handled_def
      by (cases "frame_handled ?f (s\<lparr>eth := ?g\<rparr>)") simp_all
    then show ?thesis unfolding irq_turn[OF size] pkt_handle[OF wf q]
      by (cases "frame_handled ?f (s\<lparr>eth := ?g\<rparr>)") (simp_all add: after)
  qed
qed simp

section \<open>What the handler takes out\<close>

definition event_frames :: "fw_event \<Rightarrow> eth_frame list" where
  "event_frames e = (case e of EvFrames fs \<Rightarrow> fs | _ \<Rightarrow> [])"

lemma events_frames:
  "rx_wf h \<Longrightarrow> concat (map event_frames (irq_events inp h fss)) =
    map (\<lambda>(k, f). stack_frame inp k h f) (enumerate (pbuf_chains h) (served (rx_frames h) fss))"
proof (induction fss arbitrary: h)
  case (Cons fs fss)
  note wf = Cons.prems
  show ?case
  proof (cases "rx_frames h")
    case q: (Cons f q)
    let ?g = "arrive fs (rx_popped h)"
    have p: "0 < rx_pending h" using q length_rx_frames[of h] by simp
    have g: "rx_wf (rx_popped h)" "rx_frames (rx_popped h) = q" using rx_popped_ring(1)[OF wf p] rx_popped_frames[OF wf p] q by simp_all
    note a = arrive_ring[OF g(1), of fs]
    have "pbuf_chain ?g = pbuf_chain h" "pbuf_chains ?g = Suc (pbuf_chains h)" by (simp_all add: arrive_port popped_port)
    then show ?thesis using Cons.IH[OF a(1)] stack_frame_port[of ?g h]
      by (simp add: q a(2) g(2) event_frames_def)
  qed (simp add: event_frames_def)
qed simp

lemma loop_empties:
  fixes s t :: "'a fw_st_scheme"
  shows "rx_wf (eth s) \<Longrightarrow> irq_loop inp fss s = Inr t \<Longrightarrow> rx_wf (eth t) \<and> rx_frames (eth t) = []"
proof (induction fss arbitrary: s)
  case (Cons fs fss)
  note wf = Cons.prems(1)
  show ?case
  proof (cases "rx_frames (eth s)")
    case Nil
    then have "ETH_GetRxPktSize (eth s) = 0" using rx_size[OF wf] length_rx_frames[of "eth s"] by simp
    then show ?thesis using Cons.prems Nil by simp
  next
    case q: (Cons f q)
    have p: "0 < rx_pending (eth s)" using q length_rx_frames[of "eth s"] by simp
    then have size: "ETH_GetRxPktSize (eth s) \<noteq> 0" using rx_size[OF wf] by simp
    obtain u where u: "LwIP_Pkt_Handle inp s = Inr u" "irq_loop inp fss (u\<lparr>eth := arrive fs (eth u)\<rparr>) = Inr t"
      using Cons.prems(2) size by (cases "LwIP_Pkt_Handle inp s") simp_all
    have "eth u = rx_popped (eth s)" using handled_keeps_eth[OF u(1)[unfolded pkt_handle[OF wf q]]] by simp
    then show ?thesis using Cons.IH[OF _ u(2)] arrive_ring(1)[OF rx_popped_ring(1)[OF wf p]] by simp
  qed
qed simp

lemma irq_clear_ring: "rx_wf (irq_clear h) = rx_wf h" "rx_frames (irq_clear h) = rx_frames h" "DMASR (irq_clear h) AND 0x00010040 = 0"
proof -
  show "rx_wf (irq_clear h) = rx_wf h" "rx_frames (irq_clear h) = rx_frames h"
    using rx_same[of "irq_clear h" h] by (simp_all add: irq_clear_def ETH_DMAClearITPendingBit_def write_DMASR_def)
  show "DMASR (irq_clear h) AND 0x00010040 = 0"
    by (simp add: irq_clear_def ETH_DMAClearITPendingBit_def write_DMASR_def and.assoc)
qed

text \<open>
  C24.  The receive interrupt, as soon as no more frames come than the turns of its loop, returns or faults
  as a run of the events of the firmware does: it hands the frames to the stack in the order of the ring,
  each without its checksum, together with those that come in meanwhile and find one of the four places.
  When no more than one comes in during a turn none is lost.  Afterwards the ring is empty and the
  interrupt is acknowledged, and a reachable state has gone to a reachable one.
\<close>

theorem irq_serves:
  assumes "rx_wf (eth s)" and "length (rx_frames (eth s)) + length (concat fss) < length fss"
  shows "\<exists>evs. ETH_IRQHandler inp fss s = fw_run evs s \<and>
    concat (map event_frames evs) = map (\<lambda>(k, f). stack_frame inp k (eth s) f)
      (enumerate (pbuf_chains (eth s)) (served (rx_frames (eth s)) fss)) \<and>
    ((\<forall>fs \<in> set fss. length fs \<le> 1) \<longrightarrow> (\<exists>n. served (rx_frames (eth s)) fss = rx_frames (eth s) @ concat (take n fss))) \<and>
    (\<forall>t. fw_run evs s = Ok t \<longrightarrow> rx_wf (eth t) \<and> rx_frames (eth t) = [] \<and> DMASR (eth t) AND 0x00010040 = 0 \<and>
       (reachable s \<longrightarrow> reachable t))"
proof (intro exI[of _ "irq_events inp (eth s) fss"] conjI impI allI)
  note run = handler_events[OF assms, of inp]
  show "ETH_IRQHandler inp fss s = fw_run (irq_events inp (eth s) fss) s" by (rule run)
  show "\<exists>n. served (rx_frames (eth s)) fss = rx_frames (eth s) @ concat (take n fss)" if "\<forall>fs \<in> set fss. length fs \<le> 1"
    using served_all[OF that _ assms(2)] rx_ring.items_cap[OF assms(1)] by blast
  fix t
  assume t: "fw_run (irq_events inp (eth s) fss) s = Ok t"
  then obtain u where u: "irq_loop inp fss s = Inr u" "t = u\<lparr>eth := irq_clear (eth u)\<rparr>"
    using run by (cases "irq_loop inp fss s") (simp_all add: ETH_IRQHandler_def)
  show "rx_wf (eth t)" "rx_frames (eth t) = []" "DMASR (eth t) AND 0x00010040 = 0"
    using loop_empties[OF assms(1) u(1)] u(2) by (simp_all add: irq_clear_ring)
  show "reachable t" if "reachable s" by (rule reachable_run[OF t that])
qed (rule events_frames[OF assms(1)])

text \<open>With a stack that ignores what it gets, the handler returns.\<close>

lemma ignored_events: "\<exists>t. fw_run (irq_events (\<lambda>k q. OtherFrame) h fss) s = Ok t"
proof (induction fss arbitrary: h s)
  case (Cons fs fss)
  have "stack_frame (\<lambda>k q. OtherFrame) k h f = OtherFrame" for k h f by (simp add: stack_frame_def split: option.split)
  then show ?case using Cons.IH
    by (cases "rx_frames h") (simp_all add: fw_run_def frames_handled_def frame_handled_def frame_input_def)
qed (simp add: fw_run_def)

definition wire_zero :: wire_frame where
  "wire_zero = Abs_wire_frame (replicate 64 0)"

lemma ring_up: "rx_wf (low_level_init eth_zero)" "rx_frames (low_level_init eth_zero) = []"
  using rx_set_up[OF eth_zero_up(1)] by simp_all

lemma irq_serves_witness:
  "\<exists>s t. rx_frames (eth s) = [wire_zero] \<and> ETH_IRQHandler (\<lambda>k q. OtherFrame) [[wire_zero], [], []] s = Ok (t :: fw_st) \<and>
    rx_frames (eth t) = []"
proof -
  let ?s = "fw_power_up\<lparr>eth := arrive [wire_zero] (low_level_init eth_zero)\<rparr>" and ?fss = "[[wire_zero], [], []]"
  have s: "rx_wf (eth ?s)" "rx_frames (eth ?s) = [wire_zero]" using arrive_ring[OF ring_up(1), of "[wire_zero]"] ring_up(2) by simp_all
  have "ETH_IRQHandler (\<lambda>k q. OtherFrame) ?fss ?s = fw_run (irq_events (\<lambda>k q. OtherFrame) (eth ?s) ?fss) ?s"
    by (rule handler_events[OF s(1)]) (use s(2) in \<open>simp del: length_rx_frames\<close>)
  then obtain t where t: "ETH_IRQHandler (\<lambda>k q. OtherFrame) ?fss ?s = Ok t" using ignored_events by metis
  have "rx_frames (eth t) = []"
    using irq_serves[OF s(1), of ?fss "\<lambda>k q. OtherFrame"] t s(2) by (auto simp del: length_rx_frames)
  then show ?thesis using s(2) t by blast
qed

section \<open>A frame that ends the reception\<close>

datatype rx_event = Arrives bool "u8 list" | Interrupt "wire_frame list list"

fun rx_step :: "(nat \<Rightarrow> u8 list list \<Rightarrow> eth_frame) \<Rightarrow> rx_event \<Rightarrow> 'a fw_st_scheme \<Rightarrow> 'a fw_st_scheme res" where
  "rx_step inp (Arrives es bs) s = Ok (s\<lparr>eth := dma_receive es bs (eth s)\<rparr>)"
| "rx_step inp (Interrupt fss) s = ETH_IRQHandler inp fss s"

lemma stuck_for_ever:
  "rx_stuck (eth s) \<Longrightarrow> Interrupt [] \<notin> set evs \<Longrightarrow> \<exists>h. for_each (rx_step inp) evs s = Ok (s\<lparr>eth := h\<rparr>) \<and> rx_stuck h"
proof (induction evs arbitrary: s)
  case Nil
  then show ?case by (intro exI[of _ "eth s"]) simp
next
  case (Cons e evs)
  have "\<exists>h. rx_step inp e s = Ok (s\<lparr>eth := h\<rparr>) \<and> rx_stuck h"
  proof (cases e)
    case (Arrives es bs)
    then show ?thesis using stuck_receive[OF Cons.prems(1)] by auto
  next
    case (Interrupt fss)
    then obtain fs gs where "fss = fs # gs" using Cons.prems(2) by (cases fss) auto
    then have "rx_step inp e s = Ok (s\<lparr>eth := irq_clear (eth s)\<rparr>)"
      using Interrupt stuck_size[OF Cons.prems(1)] by (simp add: ETH_IRQHandler_def)
    moreover have "rx_stuck (irq_clear (eth s)) = rx_stuck (eth s)"
      by (rule stuck_same) (simp_all add: irq_clear_def ETH_DMAClearITPendingBit_def write_DMASR_def)
    ultimately show ?thesis using Cons.prems(1) by blast
  qed
  then obtain h where h: "rx_step inp e s = Ok (s\<lparr>eth := h\<rparr>)" "rx_stuck h" by blast
  show ?case using Cons.IH[of "s\<lparr>eth := h\<rparr>"] h Cons.prems(2) by auto
qed

text \<open>
  C25.  A frame of more than 1520 bytes, which takes two buffers, or one that the hardware marks with an
  error, and that meets an empty ring, ends the reception: the size of the next packet is reported as 0 and
  its descriptor is never given back.  Whatever arrives afterwards and however often the interrupt
  comes, no frame gets to the stack and nothing of the firmware changes but the peripheral.
\<close>

theorem reception_blocked:
  assumes "rx_wf (eth s)" and "rx_frames (eth s) = []" and "es \<or> 1520 < length bs" and "Interrupt [] \<notin> set evs"
  shows "\<exists>h. for_each (rx_step inp) (Arrives es bs # evs) s = Ok (s\<lparr>eth := h\<rparr>) \<and> ETH_GetRxPktSize h = 0"
proof -
  have "rx_stuck (eth (s\<lparr>eth := dma_receive es bs (eth s)\<rparr>))" using receive_sticks[OF assms(1-3)] by simp
  then show ?thesis using stuck_for_ever[OF _ assms(4), of "s\<lparr>eth := dma_receive es bs (eth s)\<rparr>" inp] by (auto simp: stuck_size)
qed

text \<open>The longest frame with a tag, and then a short one.\<close>

lemma reception_blocked_witness:
  "\<exists>h. for_each (rx_step (\<lambda>k q. RefusedFrame 0)) [Arrives False (replicate 1522 0), Interrupt [[]], Arrives False (replicate 64 0),
      Interrupt [[]]] (fw_power_up\<lparr>eth := low_level_init eth_zero\<rparr>) = Ok (fw_power_up\<lparr>eth := h\<rparr>) \<and> ETH_GetRxPktSize h = 0"
  using reception_blocked[of "fw_power_up\<lparr>eth := low_level_init eth_zero\<rparr>" False "replicate 1522 0"
      "[Interrupt [[]], Arrives False (replicate 64 0), Interrupt [[]]]"] ring_up by simp

end
