(* ===== verification/Net_Types.thy ===== *)
theory Net_Types
  imports Eth_Ring Cmd_State
begin

text \<open>
  The data of the network stack (\<^verbatim>\<open>lwIP 1.3.1\<close>) as far as a datagram of the firmware goes through it:
  addresses, packet buffers (\<^verbatim>\<open>pbuf.c\<close>), the interface (\<^verbatim>\<open>netif.h\<close>), and the record \<open>stack\<close> with the
  static data of \<^verbatim>\<open>etharp.c\<close>, \<^verbatim>\<open>udp.c\<close> and \<^verbatim>\<open>ip.c\<close>.

  An address is kept as the number that its four bytes are in network order, a port likewise.  The code
  keeps an address in memory order, but only compares and masks it, so the order does not matter.
\<close>

section \<open>Bytes in network order\<close>

definition be16 :: "u8 list \<Rightarrow> u16" where
  "be16 bs = push_bit 8 (ucast (bs ! 0)) OR ucast (bs ! 1)"

definition be32 :: "u8 list \<Rightarrow> u32" where
  "be32 bs = push_bit 24 (ucast (bs ! 0)) OR push_bit 16 (ucast (bs ! 1)) OR push_bit 8 (ucast (bs ! 2)) OR ucast (bs ! 3)"

definition bytes16 :: "u16 \<Rightarrow> u8 list" where
  "bytes16 w = [ucast (drop_bit 8 w), ucast w]"

definition bytes32 :: "u32 \<Rightarrow> u8 list" where
  "bytes32 w = [ucast (drop_bit 24 w), ucast (drop_bit 16 w), ucast (drop_bit 8 w), ucast w]"

lemma length_bytes [simp]: "length (bytes16 w) = 2" "length (bytes32 x) = 4"
  by (simp_all add: bytes16_def bytes32_def)

lemma no_byte_bit: "\<not> bit (x :: u8) (8 + n)" "\<not> bit x (16 + n)" "\<not> bit x (24 + n)"
  using bit_imp_le_length[of x] by force+

lemma be16_bytes16 [simp]: "be16 (bytes16 w) = w"
  by (rule bit_word_eqI) (auto simp: be16_def bytes16_def bit_simps)

lemma be32_bytes32 [simp]: "be32 (bytes32 w) = w"
proof (rule bit_word_eqI)
  fix n :: nat
  assume "n < LENGTH(32)"
  then have "n < 8 \<or> 8 \<le> n \<and> n < 16 \<or> 16 \<le> n \<and> n < 24 \<or> 24 \<le> n \<and> n < 32" by auto
  then show "bit (be32 (bytes32 w)) n = bit w n" by (elim disjE) (auto simp: be32_def bytes32_def bit_simps)
qed

lemma two_bytes: "length bs = 2 \<Longrightarrow> bs = [bs ! 0, bs ! 1]"
  by (auto simp: length_Suc_conv numeral_eq_Suc)

lemma four_bytes: "length bs = 4 \<Longrightarrow> bs = [bs ! 0, bs ! 1, bs ! 2, bs ! 3]"
  by (auto simp: length_Suc_conv numeral_eq_Suc)

lemma bytes16_be16:
  assumes "length bs = 2"
  shows "bytes16 (be16 bs) = bs"
proof -
  have "bytes16 (be16 [a, b]) = [a, b]" for a b
    by (auto simp: be16_def bytes16_def bit_simps no_byte_bit intro!: bit_word_eqI)
  then show ?thesis using two_bytes[OF assms] by metis
qed

lemma bytes32_be32:
  assumes "length bs = 4"
  shows "bytes32 (be32 bs) = bs"
proof -
  have "bytes32 (be32 [a, b, c, d]) = [a, b, c, d]" for a b c d
    by (auto simp: be32_def bytes32_def bit_simps no_byte_bit intro!: bit_word_eqI)
  then show ?thesis using four_bytes[OF assms] by metis
qed

section \<open>Packet buffers\<close>

text \<open>
  A chain of packet buffers: the memory of its first link with the place and the length of the payload in
  it, and the contents of the links behind.  A buffer of the pool has 1500 bytes of memory
  (\<open>PBUF_POOL_BUFSIZE\<close>).
\<close>

record pbuf =
  pb_mem :: "u8 list"
  pb_payload :: nat
  pb_len :: nat
  pb_next :: "u8 list list"

definition tot_len :: "pbuf \<Rightarrow> nat" where
  "tot_len p = pb_len p + length (concat (pb_next p))"

definition pb_bytes :: "pbuf \<Rightarrow> u8 list" where
  "pb_bytes p = take (pb_len p) (drop (pb_payload p) (pb_mem p))"

definition pb_links :: "pbuf \<Rightarrow> u8 list list" where
  "pb_links p = pb_bytes p # pb_next p"

text \<open>The headers are structures over the payload: \<open>n\<close> bytes from the place \<open>i\<close> on.\<close>

definition hdr_get :: "nat \<Rightarrow> nat \<Rightarrow> pbuf \<Rightarrow> u8 list" where
  "hdr_get i n p = take n (drop (pb_payload p + i) (pb_mem p))"

definition hdr_put :: "nat \<Rightarrow> u8 list \<Rightarrow> pbuf \<Rightarrow> pbuf" where
  "hdr_put i bs p = p\<lparr>pb_mem := mem_put (pb_payload p + i) bs (pb_mem p)\<rparr>"

text \<open>A structure of \<open>n\<close> bytes at the payload lies in the memory of the buffer.\<close>

definition struct_in :: "nat \<Rightarrow> pbuf \<Rightarrow> 'b res \<Rightarrow> 'b res" where
  "struct_in n p r = (if pb_payload p + n \<le> length (pb_mem p) then r else Fault OutOfBounds)"

text \<open>
  Moves the payload towards the front (a positive increment) or towards the end; the result says whether it
  failed.  The assertions of the stack do not stop the program, as \<open>LWIP_PLATFORM_ASSERT\<close> is defined.
\<close>

definition pbuf_header :: "pbuf \<Rightarrow> int \<Rightarrow> bool \<times> pbuf" where
  "pbuf_header p inc =
     (if inc = 0 then (False, p)
      else if inc < 0 \<and> pb_len p < nat (- inc) then (True, p)
      else if int (pb_payload p) - inc < 0 then (True, p)
      else (False, p\<lparr>pb_payload := nat (int (pb_payload p) - inc), pb_len := nat (int (pb_len p) + inc)\<rparr>))"

fun shrink :: "nat \<Rightarrow> u8 list list \<Rightarrow> u8 list list" where
  "shrink n [] = []"
| "shrink n (q # qs) = (if length q < n then q # shrink (n - length q) qs else [take n q])"

definition pbuf_realloc :: "pbuf \<Rightarrow> nat \<Rightarrow> pbuf" where
  "pbuf_realloc p new_len =
     (if tot_len p \<le> new_len then p
      else if pb_len p < new_len then p\<lparr>pb_next := shrink (new_len - pb_len p) (pb_next p)\<rparr>
      else p\<lparr>pb_len := new_len, pb_next := []\<rparr>)"

text \<open>
  A buffer of memory for \<open>n\<close> bytes behind \<open>room\<close> bytes for headers, rounded up to words; what it holds
  before it is written is 0 here.
\<close>

definition pbuf_ram :: "nat \<Rightarrow> nat \<Rightarrow> pbuf" where
  "pbuf_ram room n =
     (let off = (room + 3) div 4 * 4
      in \<lparr>pb_mem = replicate (off + (n + 3) div 4 * 4) 0, pb_payload = off, pb_len = n, pb_next = []\<rparr>)"

section \<open>The interface\<close>

record netif =
  ip_addr :: u32
  netmask :: u32
  gw :: u32
  hwaddr :: "u8 list"
  nif_flags :: u8
  mtu :: u16

definition NETIF_FLAG_UP :: u8 where "NETIF_FLAG_UP = 0x01"
definition NETIF_FLAG_BROADCAST :: u8 where "NETIF_FLAG_BROADCAST = 0x02"

definition netif_is_up :: "netif \<Rightarrow> bool" where
  "netif_is_up n \<longleftrightarrow> nif_flags n AND NETIF_FLAG_UP \<noteq> 0"

definition ip_addr_isany :: "u32 \<Rightarrow> bool" where
  "ip_addr_isany a \<longleftrightarrow> a = 0"

definition ip_addr_netcmp :: "u32 \<Rightarrow> u32 \<Rightarrow> u32 \<Rightarrow> bool" where
  "ip_addr_netcmp a b m \<longleftrightarrow> a AND m = b AND m"

definition ip_addr_ismulticast :: "u32 \<Rightarrow> bool" where
  "ip_addr_ismulticast a \<longleftrightarrow> a AND 0xF0000000 = 0xE0000000"

definition ip_addr_isbroadcast :: "u32 \<Rightarrow> netif \<Rightarrow> bool" where
  "ip_addr_isbroadcast a n \<longleftrightarrow>
     (if NOT a = 0 \<or> a = 0 then True
      else if nif_flags n AND NETIF_FLAG_BROADCAST = 0 then False
      else if a = ip_addr n then False
      else if ip_addr_netcmp a (ip_addr n) (netmask n) \<and> a AND NOT (netmask n) = 0xFFFFFFFF AND NOT (netmask n) then True
      else False)"

section \<open>The stack\<close>

datatype err = ERR_OK | ERR_MEM | ERR_BUF | ERR_RTE | ERR_VAL | ERR_USE | ERR_ARG

datatype etharp_state = ETHARP_STATE_EMPTY | ETHARP_STATE_PENDING | ETHARP_STATE_STABLE

record etharp_entry =
  arp_q :: "pbuf list"
  arp_ipaddr :: u32
  arp_ethaddr :: "u8 list"
  arp_state :: etharp_state
  arp_ctime :: u8

record udp_pcb =
  local_ip :: u32
  remote_ip :: u32
  local_port :: u16
  remote_port :: u16
  pcb_connected :: bool
  pcb_ttl :: u8
  pcb_recv :: "udp_ck option"

text \<open>
  \<open>netif_list\<close> has the one interface, which is the default too.  \<open>pcbs\<close> holds the control blocks by their
  numbers, \<open>udp_pcbs\<close> the list of the active ones.  \<open>linked\<close> has the packets given to the driver, in
  order; \<open>mem_ok\<close> says whether the \<open>k\<close>-th request for memory succeeds.  The code that splits and joins
  fragments is not modelled: \<open>frag_out\<close> and \<open>reass_in\<close> have the packets given to it.
\<close>

record stack =
  the_netif :: netif
  arp_table :: "etharp_entry list"
  etharp_cached_entry :: nat
  pcbs :: "nat \<Rightarrow> udp_pcb"
  udp_pcbs :: "nat list"
  ip_id :: u16
  linked :: "u8 list list list"
  mem_ok :: "nat \<Rightarrow> bool"
  mems :: nat
  frag_out :: "(pbuf \<times> u32) list"
  reass_in :: "pbuf list"

definition mem_get :: "stack \<Rightarrow> bool \<times> stack" where
  "mem_get st = (mem_ok st (mems st), st\<lparr>mems := mems st + 1\<rparr>)"

text \<open>\<open>netif->linkoutput\<close>, which is \<open>low_level_output\<close>: it copies every link and always reports success.\<close>

definition linkoutput :: "pbuf \<Rightarrow> stack \<Rightarrow> (err \<times> stack) res" where
  "linkoutput p st = struct_in (pb_len p) p (Ok (ERR_OK, st\<lparr>linked := linked st @ [pb_links p]\<rparr>))"

section \<open>Headers and payload\<close>

lemma pbuf_header_down:
  "0 < n \<Longrightarrow> n \<le> pb_len p \<Longrightarrow>
    pbuf_header p (- int n) = (False, p\<lparr>pb_payload := pb_payload p + n, pb_len := pb_len p - n\<rparr>)"
  by (simp add: pbuf_header_def nat_diff_distrib' nat_add_distrib)

lemma pbuf_header_up:
  "0 < n \<Longrightarrow> n \<le> pb_payload p \<Longrightarrow>
    pbuf_header p (int n) = (False, p\<lparr>pb_payload := pb_payload p - n, pb_len := pb_len p + n\<rparr>)"
  by (simp add: pbuf_header_def nat_diff_distrib' nat_add_distrib)

lemma hdr_put_sel [simp]:
  "pb_payload (hdr_put i bs p) = pb_payload p" "pb_len (hdr_put i bs p) = pb_len p" "pb_next (hdr_put i bs p) = pb_next p"
  by (simp_all add: hdr_put_def)

lemma hdr_put_mem [simp]:
  "pb_payload p + i + length bs \<le> length (pb_mem p) \<Longrightarrow> length (pb_mem (hdr_put i bs p)) = length (pb_mem p)"
  by (simp add: hdr_put_def)

text \<open>Two writes next to each other are one.\<close>

lemma hdr_put_put:
  "pb_payload p + i + length bs + length cs \<le> length (pb_mem p) \<Longrightarrow> j = i + length bs \<Longrightarrow>
    hdr_put j cs (hdr_put i bs p) = hdr_put i (bs @ cs) p"
  by (simp add: hdr_put_def mem_put_append add.assoc[symmetric])

lemma hdr_put_bytes:
  assumes "length bs \<le> pb_len p" and "pb_payload p + pb_len p \<le> length (pb_mem p)"
  shows "pb_bytes (hdr_put 0 bs p) = bs @ drop (length bs) (pb_bytes p)"
proof -
  have "drop (pb_payload p) (mem_put (pb_payload p) bs (pb_mem p)) = bs @ drop (pb_payload p + length bs) (pb_mem p)"
    using assms by (simp add: mem_put_def)
  then show ?thesis using assms by (simp add: pb_bytes_def hdr_put_def drop_take add.commute)
qed

text \<open>What a write leaves of the payload, and reads elsewhere, which see the old bytes.\<close>

lemma mem_put_nth:
  assumes "b + length q \<le> length m" and "k < length m"
  shows "mem_put b q m ! k = (if b \<le> k \<and> k < b + length q then q ! (k - b) else m ! k)"
  using assms by (auto simp: mem_put_def nth_append min_def)

lemma hdr_get_put:
  "pb_payload p + i + length bs \<le> length (pb_mem p) \<Longrightarrow> j + n \<le> i \<or> i + length bs \<le> j \<Longrightarrow>
    hdr_get j n (hdr_put i bs p) = hdr_get j n p"
  unfolding hdr_get_def hdr_put_def by (simp add: mem_put_other)

lemma hdr_get_bytes: "i + n \<le> pb_len p \<Longrightarrow> hdr_get i n p = take n (drop i (pb_bytes p))"
  by (simp add: hdr_get_def pb_bytes_def drop_take add.commute min_def)

lemma length_hdr_get [simp]: "pb_payload p + i + n \<le> length (pb_mem p) \<Longrightarrow> length (hdr_get i n p) = n"
  by (simp add: hdr_get_def)

lemma length_pb_bytes [simp]: "pb_payload p + pb_len p \<le> length (pb_mem p) \<Longrightarrow> length (pb_bytes p) = pb_len p"
  by (simp add: pb_bytes_def)

lemma pb_bytes_put:
  assumes "i + length bs \<le> pb_len p" and "pb_payload p + pb_len p \<le> length (pb_mem p)"
  shows "pb_bytes (hdr_put i bs p) = take i (pb_bytes p) @ bs @ drop (i + length bs) (pb_bytes p)"
  using assms by (intro nth_equalityI) (auto simp: pb_bytes_def hdr_put_def mem_put_nth nth_append)

text \<open>A list of writes to places apart may be put in the order of the places.\<close>

fun hdr_puts :: "(nat \<times> u8 list) list \<Rightarrow> pbuf \<Rightarrow> pbuf" where
  "hdr_puts [] p = p"
| "hdr_puts ((i, bs) # ws) p = hdr_puts ws (hdr_put i bs p)"

fun put_in_order :: "nat \<Rightarrow> u8 list \<Rightarrow> (nat \<times> u8 list) list \<Rightarrow> (nat \<times> u8 list) list" where
  "put_in_order i bs [] = [(i, bs)]"
| "put_in_order i bs ((j, cs) # ws) =
     (if i < j then (i, bs) # (j, cs) # ws else (j, cs) # put_in_order i bs ws)"

definition apart :: "nat \<Rightarrow> u8 list \<Rightarrow> (nat \<times> u8 list) list \<Rightarrow> bool" where
  "apart i bs ws \<longleftrightarrow> list_all (\<lambda>(j, cs). i + length bs \<le> j \<or> j + length cs \<le> i) ws"

lemma hdr_put_swap:
  assumes "i + length bs \<le> j \<or> j + length cs \<le> i" and "pb_payload p + i + length bs \<le> length (pb_mem p)"
    and "pb_payload p + j + length cs \<le> length (pb_mem p)"
  shows "hdr_put i bs (hdr_put j cs p) = hdr_put j cs (hdr_put i bs p)"
proof -
  have "mem_put (pb_payload p + i) bs (mem_put (pb_payload p + j) cs (pb_mem p)) =
      mem_put (pb_payload p + j) cs (mem_put (pb_payload p + i) bs (pb_mem p))"
    using assms by (intro nth_equalityI) (auto simp: mem_put_nth)
  then show ?thesis by (simp add: hdr_put_def)
qed

lemma hdr_put_puts:
  assumes "pb_payload p + i + length bs \<le> length (pb_mem p)" and "apart i bs ws"
    and "list_all (\<lambda>(j, cs). pb_payload p + j + length cs \<le> length (pb_mem p)) ws"
  shows "hdr_put i bs (hdr_puts ws p) = hdr_puts (put_in_order i bs ws) p"
proof -
  have front: "hdr_put i bs (hdr_puts ws p) = hdr_puts ((i, bs) # ws) p"
    if "pb_payload p + i + length bs \<le> length (pb_mem p)" "apart i bs ws"
      "list_all (\<lambda>(j, cs). pb_payload p + j + length cs \<le> length (pb_mem p)) ws" for p ws
    using that
  proof (induction ws arbitrary: p)
    case (Cons w ws)
    obtain j cs where w: "w = (j, cs)" by (cases w)
    have "hdr_put i bs (hdr_puts ws (hdr_put j cs p)) = hdr_puts ((i, bs) # ws) (hdr_put j cs p)"
      using Cons.prems w by (intro Cons.IH) (auto simp: apart_def)
    moreover have "hdr_put i bs (hdr_put j cs p) = hdr_put j cs (hdr_put i bs p)"
      using Cons.prems w by (intro hdr_put_swap) (auto simp: apart_def)
    ultimately show ?case using w by simp
  qed simp
  show ?thesis
    using assms
  proof (induction ws arbitrary: p)
    case (Cons w ws)
    obtain j cs where w: "w = (j, cs)" by (cases w)
    show ?case
    proof (cases "i < j")
      case True
      then show ?thesis using front[OF Cons.prems] w by simp
    next
      case False
      then show ?thesis using Cons.IH[of "hdr_put j cs p"] Cons.prems w by (simp add: apart_def)
    qed
  qed simp
qed

end
