(* ===== verification/Net_Arp.thy ===== *)
theory Net_Arp
  imports Net_Types
begin

text \<open>
  The resolution of addresses (\<^verbatim>\<open>etharp.c\<close>): the table of the pairs that were heard, the packets that
  wait for an answer, the requests and the answers.

  The counters of the statistics and the calls that release buffers are left out: whether memory can be had
  is part of the environment.  The loops over the six bytes of an address write them in one step.
\<close>

section \<open>The table\<close>

definition ARP_TABLE_SIZE :: nat where "ARP_TABLE_SIZE = 10"
definition ARP_MAXAGE :: u8 where "ARP_MAXAGE = 240"
definition ARP_MAXPENDING :: u8 where "ARP_MAXPENDING = 2"
definition ETHARP_TRY_HARD :: u8 where "ETHARP_TRY_HARD = 1"
definition ETHARP_FIND_ONLY :: u8 where "ETHARP_FIND_ONLY = 2"
definition ETHTYPE_ARP :: u16 where "ETHTYPE_ARP = 0x0806"
definition ETHTYPE_IP :: u16 where "ETHTYPE_IP = 0x0800"
definition ARP_REQUEST :: u16 where "ARP_REQUEST = 1"
definition ARP_REPLY :: u16 where "ARP_REPLY = 2"

definition ethbroadcast :: "u8 list" where "ethbroadcast = [0xff, 0xff, 0xff, 0xff, 0xff, 0xff]"
definition ethzero :: "u8 list" where "ethzero = [0, 0, 0, 0, 0, 0]"

definition upd_arp :: "nat \<Rightarrow> (etharp_entry \<Rightarrow> etharp_entry) \<Rightarrow> stack \<Rightarrow> stack" where
  "upd_arp i f st = st\<lparr>arp_table := (arp_table st)[i := f (arp_table st ! i)]\<rparr>"

definition age_entry :: "etharp_entry \<Rightarrow> etharp_entry" where
  "age_entry e =
     (let e = e\<lparr>arp_ctime := arp_ctime e + 1\<rparr>
      in if arp_state e = ETHARP_STATE_STABLE \<and> arp_ctime e \<ge> ARP_MAXAGE \<or>
            arp_state e = ETHARP_STATE_PENDING \<and> arp_ctime e \<ge> ARP_MAXPENDING
         then e\<lparr>arp_q := [], arp_state := ETHARP_STATE_EMPTY\<rparr>
         else e)"

definition arp_timer :: "stack \<Rightarrow> stack" where
  "arp_timer st = st\<lparr>arp_table := map age_entry (arp_table st)\<rparr>"

text \<open>What one sweep over the table remembers: places, and the ages of the entries there.\<close>

record cand =
  empty_at :: nat
  old_stable :: nat
  age_stable :: u8
  old_pending :: nat
  age_pending :: u8
  old_queue :: nat
  age_queue :: u8

definition no_cand :: cand where
  "no_cand = \<lparr>empty_at = ARP_TABLE_SIZE, old_stable = ARP_TABLE_SIZE, age_stable = 0, old_pending = ARP_TABLE_SIZE,
              age_pending = 0, old_queue = ARP_TABLE_SIZE, age_queue = 0\<rparr>"

fun arp_sweep :: "u32 \<Rightarrow> nat \<Rightarrow> etharp_entry list \<Rightarrow> cand \<Rightarrow> nat + cand" where
  "arp_sweep ip i [] k = Inr k"
| "arp_sweep ip i (e # es) k =
     (if empty_at k = ARP_TABLE_SIZE \<and> arp_state e = ETHARP_STATE_EMPTY
      then arp_sweep ip (i + 1) es (k\<lparr>empty_at := i\<rparr>)
      else if arp_state e = ETHARP_STATE_PENDING
      then if ip = arp_ipaddr e then Inl i
           else if arp_q e \<noteq> []
           then arp_sweep ip (i + 1) es
                  (if arp_ctime e \<ge> age_queue k then k\<lparr>old_queue := i, age_queue := arp_ctime e\<rparr> else k)
           else arp_sweep ip (i + 1) es
                  (if arp_ctime e \<ge> age_pending k then k\<lparr>old_pending := i, age_pending := arp_ctime e\<rparr> else k)
      else if arp_state e = ETHARP_STATE_STABLE
      then if ip = arp_ipaddr e then Inl i
           else arp_sweep ip (i + 1) es
                  (if arp_ctime e \<ge> age_stable k then k\<lparr>old_stable := i, age_stable := arp_ctime e\<rparr> else k)
      else arp_sweep ip (i + 1) es k)"

text \<open>Every caller gives an address.  \<open>None\<close> is \<open>ERR_MEM\<close>.\<close>

definition recycle :: "cand \<Rightarrow> nat option" where
  "recycle k =
     (if empty_at k < ARP_TABLE_SIZE then Some (empty_at k)
      else if old_stable k < ARP_TABLE_SIZE then Some (old_stable k)
      else if old_pending k < ARP_TABLE_SIZE then Some (old_pending k)
      else if old_queue k < ARP_TABLE_SIZE then Some (old_queue k)
      else None)"

definition find_entry :: "u32 \<Rightarrow> u8 \<Rightarrow> stack \<Rightarrow> nat option \<times> stack" where
  "find_entry ip flags st =
     (let c = etharp_cached_entry st; t = arp_table st
      in if arp_state (t ! c) = ETHARP_STATE_STABLE \<and> ip = arp_ipaddr (t ! c) then (Some c, st)
         else case arp_sweep ip 0 t no_cand of
             Inl i \<Rightarrow> (Some i, st\<lparr>etharp_cached_entry := i\<rparr>)
           | Inr k \<Rightarrow>
               if empty_at k = ARP_TABLE_SIZE \<and> flags AND ETHARP_TRY_HARD = 0 \<or> flags AND ETHARP_FIND_ONLY \<noteq> 0
               then (None, st)
               else (case recycle k of
                   None \<Rightarrow> (None, st)
                 | Some i \<Rightarrow>
                     let st = (if \<not> empty_at k < ARP_TABLE_SIZE \<and> \<not> old_stable k < ARP_TABLE_SIZE \<and>
                                  \<not> old_pending k < ARP_TABLE_SIZE
                               then upd_arp i (arp_q_update (\<lambda>_. [])) st else st);
                         st = upd_arp i (\<lambda>e. e\<lparr>arp_state := ETHARP_STATE_EMPTY\<rparr>) st;
                         st = upd_arp i (\<lambda>e. e\<lparr>arp_ipaddr := ip\<rparr>) st;
                         st = upd_arp i (\<lambda>e. e\<lparr>arp_ctime := 0\<rparr>) st
                     in (Some i, st\<lparr>etharp_cached_entry := i\<rparr>)))"

section \<open>Sending\<close>

definition etharp_send_ip :: "pbuf \<Rightarrow> u8 list \<Rightarrow> u8 list \<Rightarrow> stack \<Rightarrow> (err \<times> stack) res" where
  "etharp_send_ip p src dst st =
     struct_in 14 p
       (let p = hdr_put 0 dst p;
            p = hdr_put 6 src p;
            p = hdr_put 12 (bytes16 ETHTYPE_IP) p
        in linkoutput p st)"

fun send_queued :: "pbuf list \<Rightarrow> nat \<Rightarrow> u8 list \<Rightarrow> stack \<Rightarrow> stack res" where
  "send_queued [] i mac st = Ok st"
| "send_queued (p # q) i mac st =
     (let st = upd_arp i (\<lambda>e. e\<lparr>arp_q := q\<rparr>) st
      in bnd (etharp_send_ip p (hwaddr (the_netif st)) mac st) (\<lambda>(_, st). send_queued q i mac st))"

definition update_arp_entry :: "u32 \<Rightarrow> u8 list \<Rightarrow> u8 \<Rightarrow> stack \<Rightarrow> (err \<times> stack) res" where
  "update_arp_entry ip mac flags st =
     (if ip_addr_isany ip \<or> ip_addr_isbroadcast ip (the_netif st) \<or> ip_addr_ismulticast ip then Ok (ERR_ARG, st)
      else case find_entry ip flags st of
          (None, st) \<Rightarrow> Ok (ERR_MEM, st)
        | (Some i, st) \<Rightarrow>
            let st = upd_arp i (\<lambda>e. e\<lparr>arp_state := ETHARP_STATE_STABLE\<rparr>) st;
                st = upd_arp i (\<lambda>e. e\<lparr>arp_ethaddr := mac\<rparr>) st;
                st = upd_arp i (\<lambda>e. e\<lparr>arp_ctime := 0\<rparr>) st
            in bnd (send_queued (arp_q (arp_table st ! i)) i mac st) (\<lambda>st. Ok (ERR_OK, st)))"

text \<open>The frame of a request or an answer: the Ethernet header and the fields behind it.\<close>

definition etharp_raw ::
  "u8 list \<Rightarrow> u8 list \<Rightarrow> u8 list \<Rightarrow> u32 \<Rightarrow> u8 list \<Rightarrow> u32 \<Rightarrow> u16 \<Rightarrow> stack \<Rightarrow> (err \<times> stack) res" where
  "etharp_raw ethsrc ethdst hwsrc ipsrc hwdst ipdst opcode st =
     (let (ok, st) = mem_get st
      in if \<not> ok then Ok (ERR_MEM, st)
         else
           let p = pbuf_ram 0 42;
               p = hdr_put 20 (bytes16 opcode) p;
               p = hdr_put 22 hwsrc p;
               p = hdr_put 32 hwdst p;
               p = hdr_put 0 ethdst p;
               p = hdr_put 6 ethsrc p;
               p = hdr_put 28 (bytes32 ipsrc) p;
               p = hdr_put 38 (bytes32 ipdst) p;
               p = hdr_put 14 (bytes16 1) p;
               p = hdr_put 16 (bytes16 ETHTYPE_IP) p;
               p = hdr_put 18 (bytes16 0x0604) p;
               p = hdr_put 12 (bytes16 ETHTYPE_ARP) p
           in linkoutput p st)"

definition etharp_request :: "u32 \<Rightarrow> stack \<Rightarrow> (err \<times> stack) res" where
  "etharp_request ip st =
     etharp_raw (hwaddr (the_netif st)) ethbroadcast (hwaddr (the_netif st)) (ip_addr (the_netif st)) ethzero ip
       ARP_REQUEST st"

text \<open>The copy of a chain in one buffer of memory (\<open>pbuf_copy\<close>), which never is too short here.\<close>

definition pbuf_copied :: "nat \<Rightarrow> pbuf \<Rightarrow> pbuf" where
  "pbuf_copied room p = hdr_put 0 (concat (pb_links p)) (pbuf_ram room (tot_len p))"

text \<open>Every caller gives a packet, and no packet is a \<open>PBUF_ROM\<close>, so it is always copied.\<close>

definition etharp_query :: "u32 \<Rightarrow> pbuf \<Rightarrow> stack \<Rightarrow> (err \<times> stack) res" where
  "etharp_query ip q st =
     (if ip_addr_isbroadcast ip (the_netif st) \<or> ip_addr_ismulticast ip \<or> ip_addr_isany ip then Ok (ERR_ARG, st)
      else case find_entry ip ETHARP_TRY_HARD st of
          (None, st) \<Rightarrow> Ok (ERR_MEM, st)
        | (Some i, st) \<Rightarrow>
            let st = (if arp_state (arp_table st ! i) = ETHARP_STATE_EMPTY
                      then upd_arp i (\<lambda>e. e\<lparr>arp_state := ETHARP_STATE_PENDING\<rparr>) st else st)
            in bnd (if arp_state (arp_table st ! i) = ETHARP_STATE_PENDING then etharp_request ip st
                    else Ok (ERR_MEM, st)) (\<lambda>(result, st).
                 if arp_state (arp_table st ! i) = ETHARP_STATE_STABLE
                 then etharp_send_ip q (hwaddr (the_netif st)) (arp_ethaddr (arp_table st ! i)) st
                 else if arp_state (arp_table st ! i) = ETHARP_STATE_PENDING
                 then struct_in (pb_len q) q
                   (let (ok, st) = mem_get st
                    in if \<not> ok then Ok (result, st)
                       else
                         let p = pbuf_copied 0 q;
                             (ok, st) = mem_get st
                         in if ok then Ok (ERR_OK, upd_arp i (\<lambda>e. e\<lparr>arp_q := arp_q e @ [p]\<rparr>) st)
                            else Ok (result, st))
                 else Ok (result, st)))"

definition etharp_output :: "pbuf \<Rightarrow> u32 \<Rightarrow> stack \<Rightarrow> (err \<times> stack) res" where
  "etharp_output q ip st =
     (let (failed, q) = pbuf_header q 14
      in if failed then Ok (ERR_BUF, st)
         else if ip_addr_isbroadcast ip (the_netif st)
         then etharp_send_ip q (hwaddr (the_netif st)) ethbroadcast st
         else if ip_addr_ismulticast ip
         then etharp_send_ip q (hwaddr (the_netif st))
                ([0x01, 0x00, 0x5e, ucast (drop_bit 16 ip) AND 0x7f, ucast (drop_bit 8 ip), ucast ip]) st
         else if \<not> ip_addr_netcmp ip (ip_addr (the_netif st)) (netmask (the_netif st))
         then if gw (the_netif st) \<noteq> 0 then etharp_query (gw (the_netif st)) q st else Ok (ERR_RTE, st)
         else etharp_query ip q st)"

section \<open>Receiving\<close>

definition etharp_ip_input :: "pbuf \<Rightarrow> stack \<Rightarrow> stack res" where
  "etharp_ip_input p st =
     struct_in 34 p
       (let src = be32 (hdr_get 26 4 p)
        in if \<not> ip_addr_netcmp src (ip_addr (the_netif st)) (netmask (the_netif st)) then Ok st
           else bnd (update_arp_entry src (hdr_get 6 6 p) 0 st) (\<lambda>(_, st). Ok st))"

definition etharp_arp_input :: "pbuf \<Rightarrow> stack \<Rightarrow> stack res" where
  "etharp_arp_input p st =
     (if pb_len p < 42 then Ok st
      else struct_in 42 p
        (if be16 (hdr_get 14 2 p) \<noteq> 1 \<or> be16 (hdr_get 18 2 p) \<noteq> 0x0604 \<or> be16 (hdr_get 16 2 p) \<noteq> ETHTYPE_IP \<or>
            be16 (hdr_get 12 2 p) \<noteq> ETHTYPE_ARP
         then Ok st
         else
           let sipaddr = be32 (hdr_get 28 4 p);
               dipaddr = be32 (hdr_get 38 4 p);
               for_us = (ip_addr (the_netif st) \<noteq> 0 \<and> dipaddr = ip_addr (the_netif st))
           in bnd (update_arp_entry sipaddr (hdr_get 22 6 p) (if for_us then ETHARP_TRY_HARD else 0) st) (\<lambda>(_, st).
                if be16 (hdr_get 20 2 p) = ARP_REQUEST \<and> for_us
                then
                  let p = hdr_put 20 (bytes16 ARP_REPLY) p;
                      p = hdr_put 38 (hdr_get 28 4 p) p;
                      p = hdr_put 28 (bytes32 (ip_addr (the_netif st))) p;
                      p = hdr_put 32 (hdr_get 22 6 p) p;
                      p = hdr_put 0 (hdr_get 22 6 p) p;
                      p = hdr_put 22 (hwaddr (the_netif st)) p;
                      p = hdr_put 6 (hwaddr (the_netif st)) p
                  in bnd (linkoutput p st) (\<lambda>(_, st). Ok st)
                else Ok st)))"

end
