(* ===== verification/Net_Arp_Find.thy ===== *)
theory Net_Arp_Find
  imports Net_Arp
begin

text \<open>
  The search in the table of addresses, with the entry it recycles, the invariant of the table, and what
  becomes of the table and of the packets that wait when an address is learnt.
\<close>

section \<open>The search\<close>

definition active :: "etharp_entry \<Rightarrow> bool" where
  "active e \<longleftrightarrow> arp_state e \<noteq> ETHARP_STATE_EMPTY"

abbreviation stable :: "etharp_entry \<Rightarrow> bool" where
  "stable e \<equiv> arp_state e = ETHARP_STATE_STABLE"

abbreviation waiting :: "bool \<Rightarrow> etharp_entry \<Rightarrow> bool" where
  "waiting b e \<equiv> arp_state e = ETHARP_STATE_PENDING \<and> (arp_q e \<noteq> []) = b"

text \<open>Entry \<open>i\<close> of age \<open>a\<close> is an oldest one of those with \<open>P\<close>; there is none when \<open>i\<close> is the size of the table.\<close>

definition oldest :: "(etharp_entry \<Rightarrow> bool) \<Rightarrow> etharp_entry list \<Rightarrow> nat \<Rightarrow> u8 \<Rightarrow> bool" where
  "oldest P t i a \<longleftrightarrow>
     (if i = ARP_TABLE_SIZE then a = 0 \<and> (\<forall>e \<in> set t. \<not> P e)
      else i < length t \<and> P (t ! i) \<and> a = arp_ctime (t ! i) \<and> (\<forall>e \<in> set t. P e \<longrightarrow> arp_ctime e \<le> a))"

lemma oldest_skip: "oldest P t i a \<Longrightarrow> \<not> P e \<Longrightarrow> oldest P (t @ [e]) i a"
  by (auto simp: oldest_def nth_append split: if_splits)

lemma oldest_older: "oldest P t i a \<Longrightarrow> length t < ARP_TABLE_SIZE \<Longrightarrow> \<not> a \<le> arp_ctime e \<Longrightarrow> oldest P (t @ [e]) i a"
  by (auto simp: oldest_def nth_append split: if_splits)

lemma oldest_take: "oldest P t i a \<Longrightarrow> length t < ARP_TABLE_SIZE \<Longrightarrow> P e \<Longrightarrow> a \<le> arp_ctime e \<Longrightarrow>
    oldest P (t @ [e]) (length t) (arp_ctime e)"
  by (auto simp: oldest_def split: if_splits)

definition swept :: "u32 \<Rightarrow> etharp_entry list \<Rightarrow> cand \<Rightarrow> bool" where
  "swept ip t k \<longleftrightarrow> (\<forall>e \<in> set t. active e \<longrightarrow> arp_ipaddr e \<noteq> ip) \<and>
     (if empty_at k = ARP_TABLE_SIZE then \<forall>e \<in> set t. active e else empty_at k < length t \<and> \<not> active (t ! empty_at k)) \<and>
     oldest stable t (old_stable k) (age_stable k) \<and> oldest (waiting False) t (old_pending k) (age_pending k) \<and>
     oldest (waiting True) t (old_queue k) (age_queue k)"

lemma swept_nil: "swept ip [] no_cand"
  by (simp add: swept_def no_cand_def oldest_def)

lemma swept_step:
  assumes "swept ip t k" and "length t < ARP_TABLE_SIZE" and "active e \<longrightarrow> arp_ipaddr e \<noteq> ip"
  shows "arp_state e = ETHARP_STATE_EMPTY \<Longrightarrow> empty_at k = ARP_TABLE_SIZE \<Longrightarrow> swept ip (t @ [e]) (k\<lparr>empty_at := length t\<rparr>)"
    and "arp_state e = ETHARP_STATE_EMPTY \<Longrightarrow> empty_at k \<noteq> ARP_TABLE_SIZE \<Longrightarrow> swept ip (t @ [e]) k"
    and "waiting True e \<Longrightarrow> swept ip (t @ [e])
      (if arp_ctime e \<ge> age_queue k then k\<lparr>old_queue := length t, age_queue := arp_ctime e\<rparr> else k)"
    and "waiting False e \<Longrightarrow> swept ip (t @ [e])
      (if arp_ctime e \<ge> age_pending k then k\<lparr>old_pending := length t, age_pending := arp_ctime e\<rparr> else k)"
    and "stable e \<Longrightarrow> swept ip (t @ [e])
      (if arp_ctime e \<ge> age_stable k then k\<lparr>old_stable := length t, age_stable := arp_ctime e\<rparr> else k)"
  using assms by (simp_all add: swept_def active_def nth_append oldest_skip oldest_older split: if_splits)
    (auto intro: oldest_take)

lemma arp_sweep_spec:
  assumes "swept ip t k" and "length t + length es \<le> ARP_TABLE_SIZE"
  shows "case arp_sweep ip (length t) es k of
      Inl i \<Rightarrow> i < length (t @ es) \<and> active ((t @ es) ! i) \<and> arp_ipaddr ((t @ es) ! i) = ip
    | Inr k' \<Rightarrow> swept ip (t @ es) k'"
  using assms
proof (induction es arbitrary: t k)
  case (Cons e es)
  have less: "length t < ARP_TABLE_SIZE" using Cons.prems(2) by simp
  have step: ?case if "arp_sweep ip (length t) (e # es) k = arp_sweep ip (length t + 1) es k'" "swept ip (t @ [e]) k'" for k'
  proof -
    have "length (t @ [e]) + length es \<le> ARP_TABLE_SIZE" using Cons.prems(2) by simp
    note ih = Cons.IH[OF that(2) this, unfolded append_assoc append.simps]
    show ?case unfolding that(1) using ih by (simp only: length_append_singleton Suc_eq_plus1)
  qed
  note sw = swept_step[OF Cons.prems(1) less]
  consider "arp_state e = ETHARP_STATE_EMPTY" | "active e" "arp_ipaddr e = ip" | "active e" "arp_ipaddr e \<noteq> ip"
    by (auto simp: active_def)
  then show ?case
  proof cases
    case 1
    then have off: "active e \<longrightarrow> arp_ipaddr e \<noteq> ip" by (simp add: active_def)
    show ?thesis using 1 step[OF _ sw(1)[OF off]] step[OF _ sw(2)[OF off]]
      by (cases "empty_at k = ARP_TABLE_SIZE") auto
  next
    case 2
    then have "arp_sweep ip (length t) (e # es) k = Inl (length t)" by (cases "arp_state e") (auto simp: active_def)
    then show ?thesis using 2 by simp
  next
    case 3
    then have off: "active e \<longrightarrow> arp_ipaddr e \<noteq> ip" by simp
    show ?thesis
    proof (cases "arp_state e")
      case ETHARP_STATE_PENDING
      then show ?thesis using 3 step[OF _ sw(3)[OF off]] step[OF _ sw(4)[OF off]] by (cases "arp_q e = []") auto
    next
      case ETHARP_STATE_STABLE
      then show ?thesis using 3 step[OF _ sw(5)[OF off]] by auto
    qed (use 3 in \<open>simp add: active_def\<close>)
  qed
qed simp

section \<open>The invariant\<close>

definition unicast :: "netif \<Rightarrow> u32 \<Rightarrow> bool" where
  "unicast n ip \<longleftrightarrow> \<not> (ip_addr_isany ip \<or> ip_addr_isbroadcast ip n \<or> ip_addr_ismulticast ip)"

text \<open>A packet with room for the Ethernet header, whose payload lies in its memory.\<close>

definition frame_ok :: "pbuf \<Rightarrow> bool" where
  "frame_ok p \<longleftrightarrow> 14 \<le> pb_len p \<and> pb_payload p + pb_len p \<le> length (pb_mem p)"

definition entry_wf :: "netif \<Rightarrow> etharp_entry \<Rightarrow> bool" where
  "entry_wf n e \<longleftrightarrow> length (arp_ethaddr e) = 6 \<and> (\<forall>p \<in> set (arp_q e). frame_ok p) \<and>
     (active e \<longrightarrow> unicast n (arp_ipaddr e)) \<and> (arp_state e = ETHARP_STATE_PENDING \<longrightarrow> arp_ctime e < ARP_MAXPENDING) \<and>
     (arp_state e \<noteq> ETHARP_STATE_PENDING \<longrightarrow> arp_q e = []) \<and> (stable e \<longrightarrow> arp_ctime e < ARP_MAXAGE)"

definition single :: "etharp_entry list \<Rightarrow> bool" where
  "single t \<longleftrightarrow> (\<forall>i < length t. \<forall>j < length t. active (t ! i) \<longrightarrow> active (t ! j) \<longrightarrow>
     arp_ipaddr (t ! i) = arp_ipaddr (t ! j) \<longrightarrow> i = j)"

definition arp_wf :: "stack \<Rightarrow> bool" where
  "arp_wf st \<longleftrightarrow> length (arp_table st) = ARP_TABLE_SIZE \<and> etharp_cached_entry st < ARP_TABLE_SIZE \<and>
     length (hwaddr (the_netif st)) = 6 \<and> (\<forall>e \<in> set (arp_table st). entry_wf (the_netif st) e) \<and> single (arp_table st)"

text \<open>The abstract table: which Ethernet address an address has, and the age of that knowledge.\<close>

definition arp_map :: "stack \<Rightarrow> u32 \<Rightarrow> (u8 list \<times> nat) option" where
  "arp_map st ip =
     (case List.find (\<lambda>e. stable e \<and> arp_ipaddr e = ip) (arp_table st) of
        None \<Rightarrow> None
      | Some e \<Rightarrow> Some (arp_ethaddr e, unat (arp_ctime e)))"

lemma arp_wfD:
  assumes "arp_wf st" and "i < ARP_TABLE_SIZE"
  shows "entry_wf (the_netif st) (arp_table st ! i)" and "i < length (arp_table st)"
  using assms by (auto simp: arp_wf_def)

lemma singleD: "single t \<Longrightarrow> i < length t \<Longrightarrow> j < length t \<Longrightarrow> active (t ! i) \<Longrightarrow> active (t ! j) \<Longrightarrow>
    arp_ipaddr (t ! i) = arp_ipaddr (t ! j) \<Longrightarrow> i = j"
  by (simp add: single_def)

lemma arp_map_iff:
  assumes "single (arp_table st)"
  shows "arp_map st ip = Some (m, a) \<longleftrightarrow> (\<exists>i < length (arp_table st). stable (arp_table st ! i) \<and>
    arp_ipaddr (arp_table st ! i) = ip \<and> m = arp_ethaddr (arp_table st ! i) \<and> a = unat (arp_ctime (arp_table st ! i)))"
    (is "?l \<longleftrightarrow> (\<exists>i < _. ?P i)")
proof
  assume ?l
  then show "\<exists>i < length (arp_table st). ?P i" by (auto simp: arp_map_def find_Some_iff split: option.splits)
next
  assume "\<exists>i < length (arp_table st). ?P i"
  then obtain i where i: "i < length (arp_table st)" "?P i" by blast
  have only: "\<not> (stable (arp_table st ! j) \<and> arp_ipaddr (arp_table st ! j) = ip)" if "j < i" for j
    using that i singleD[OF assms, of j i] by (auto simp: active_def)
  have "List.find (\<lambda>e. stable e \<and> arp_ipaddr e = ip) (arp_table st) = Some (arp_table st ! i)"
    unfolding find_Some_iff using i only by blast
  then show ?l using i by (simp add: arp_map_def)
qed

section \<open>Finding an entry\<close>

lemma recycle_spec:
  assumes "swept ip t k" and len: "length t = ARP_TABLE_SIZE"
  shows "\<exists>i. recycle k = Some i \<and> i < ARP_TABLE_SIZE \<and> (active (t ! i) \<longrightarrow> (\<forall>e \<in> set t. active e) \<and>
    (stable (t ! i) \<and> (\<forall>e \<in> set t. stable e \<longrightarrow> arp_ctime e \<le> arp_ctime (t ! i)) \<or>
     (\<forall>e \<in> set t. arp_state e = ETHARP_STATE_PENDING))) \<and>
    (empty_at k < ARP_TABLE_SIZE \<or> old_stable k < ARP_TABLE_SIZE \<or> old_pending k < ARP_TABLE_SIZE \<longrightarrow>
      arp_state (t ! i) \<noteq> ETHARP_STATE_PENDING \<or> arp_q (t ! i) = [])"
proof -
  have sw: "if empty_at k = ARP_TABLE_SIZE then \<forall>e \<in> set t. active e else empty_at k < length t \<and> \<not> active (t ! empty_at k)"
    "oldest stable t (old_stable k) (age_stable k)" "oldest (waiting False) t (old_pending k) (age_pending k)"
    "oldest (waiting True) t (old_queue k) (age_queue k)"
    using assms(1) by (simp_all add: swept_def)
  consider "empty_at k < ARP_TABLE_SIZE" | "empty_at k = ARP_TABLE_SIZE" "old_stable k < ARP_TABLE_SIZE"
    | "empty_at k = ARP_TABLE_SIZE" "old_stable k = ARP_TABLE_SIZE"
    using sw(1,2) len by (auto simp: oldest_def split: if_splits)
  then show ?thesis
  proof cases
    case 1
    then show ?thesis using sw(1) by (simp add: recycle_def active_def)
  next
    case 2
    then show ?thesis using sw(1,2) by (auto simp: recycle_def oldest_def)
  next
    case 3
    then have pend: "\<forall>e \<in> set t. arp_state e = ETHARP_STATE_PENDING"
      using sw(1,2) by (auto simp: oldest_def active_def intro: etharp_state.exhaust)
    have "t ! 0 \<in> set t" using len by (simp add: ARP_TABLE_SIZE_def)
    then have "\<not> (old_pending k = ARP_TABLE_SIZE \<and> old_queue k = ARP_TABLE_SIZE)"
      using sw(3,4) pend by (auto simp: oldest_def)
    then show ?thesis using 3 sw(1,3,4) pend len by (auto simp: recycle_def oldest_def split: if_splits)
  qed
qed

lemma find_entry_cases:
  assumes wf: "arp_wf st"
  obtains (none) "find_entry ip flags st = (None, st)" "flags AND ETHARP_TRY_HARD = 0 \<or> flags AND ETHARP_FIND_ONLY \<noteq> 0"
      "\<And>e. e \<in> set (arp_table st) \<Longrightarrow> active e \<Longrightarrow> arp_ipaddr e \<noteq> ip"
      "flags AND ETHARP_FIND_ONLY = 0 \<Longrightarrow> \<forall>e \<in> set (arp_table st). active e"
  | (hit) i where "find_entry ip flags st = (Some i, st\<lparr>etharp_cached_entry := i\<rparr>)" "i < ARP_TABLE_SIZE"
      "active (arp_table st ! i)" "arp_ipaddr (arp_table st ! i) = ip"
  | (new) i where "find_entry ip flags st = (Some i, st\<lparr>arp_table := (arp_table st)[i := (arp_table st ! i)\<lparr>arp_q := [],
        arp_ipaddr := ip, arp_state := ETHARP_STATE_EMPTY, arp_ctime := 0\<rparr>], etharp_cached_entry := i\<rparr>)"
      "i < ARP_TABLE_SIZE" "\<And>e. e \<in> set (arp_table st) \<Longrightarrow> active e \<Longrightarrow> arp_ipaddr e \<noteq> ip"
      "active (arp_table st ! i) \<Longrightarrow> \<forall>e \<in> set (arp_table st). active e"
      "active (arp_table st ! i) \<Longrightarrow> stable (arp_table st ! i) \<and>
        (\<forall>e \<in> set (arp_table st). stable e \<longrightarrow> arp_ctime e \<le> arp_ctime (arp_table st ! i)) \<or>
        (\<forall>e \<in> set (arp_table st). arp_state e = ETHARP_STATE_PENDING)"
proof -
  let ?t = "arp_table st" and ?c = "etharp_cached_entry st"
  have len: "length ?t = ARP_TABLE_SIZE" and c: "?c < ARP_TABLE_SIZE" using wf by (simp_all add: arp_wf_def)
  note spec = arp_sweep_spec[OF swept_nil[of ip], of ?t, simplified len append_Nil list.size(3)]
  show thesis
  proof (cases "stable (?t ! ?c) \<and> ip = arp_ipaddr (?t ! ?c)")
    case True
    have same: "st\<lparr>etharp_cached_entry := ?c\<rparr> = st" by simp
    have "find_entry ip flags st = (Some ?c, st\<lparr>etharp_cached_entry := ?c\<rparr>)"
      unfolding find_entry_def Let_def if_P[OF True] same ..
    moreover have "active (?t ! ?c)" using True by (simp add: active_def)
    ultimately show thesis using hit c True by blast
  next
    case miss: False
    show thesis
    proof (cases "arp_sweep ip 0 ?t no_cand")
      case (Inl i)
      have "find_entry ip flags st = (Some i, st\<lparr>etharp_cached_entry := i\<rparr>)"
        unfolding find_entry_def Let_def if_not_P[OF miss] Inl by simp
      then show thesis using hit[of i] spec Inl len by simp
    next
      case (Inr k)
      then have sw: "swept ip ?t k" using spec by simp
      then have away: "\<And>e. e \<in> set ?t \<Longrightarrow> active e \<Longrightarrow> arp_ipaddr e \<noteq> ip" by (simp add: swept_def)
      let ?off = "empty_at k = ARP_TABLE_SIZE \<and> flags AND ETHARP_TRY_HARD = 0 \<or> flags AND ETHARP_FIND_ONLY \<noteq> 0"
      show thesis
      proof (cases ?off)
        case True
        have "find_entry ip flags st = (None, st)"
          unfolding find_entry_def Let_def if_not_P[OF miss] Inr sum.case if_P[OF True] ..
        moreover have "flags AND ETHARP_FIND_ONLY = 0 \<Longrightarrow> \<forall>e \<in> set ?t. active e" using True sw by (simp add: swept_def)
        ultimately show thesis using none True away by blast
      next
        case False
        from recycle_spec[OF sw len] obtain i where i: "recycle k = Some i" "i < ARP_TABLE_SIZE"
            "active (?t ! i) \<Longrightarrow> \<forall>e \<in> set ?t. active e"
            "active (?t ! i) \<Longrightarrow> stable (?t ! i) \<and> (\<forall>e \<in> set ?t. stable e \<longrightarrow> arp_ctime e \<le> arp_ctime (?t ! i)) \<or>
              (\<forall>e \<in> set ?t. arp_state e = ETHARP_STATE_PENDING)"
            "empty_at k < ARP_TABLE_SIZE \<or> old_stable k < ARP_TABLE_SIZE \<or> old_pending k < ARP_TABLE_SIZE \<Longrightarrow>
              arp_state (?t ! i) \<noteq> ETHARP_STATE_PENDING \<or> arp_q (?t ! i) = []"
          by blast
        have "arp_q (?t ! i) = []"
          if "empty_at k < ARP_TABLE_SIZE \<or> old_stable k < ARP_TABLE_SIZE \<or> old_pending k < ARP_TABLE_SIZE"
          using i(5)[OF that] arp_wfD(1)[OF wf i(2)] by (auto simp: entry_wf_def)
        then have "find_entry ip flags st = (Some i, st\<lparr>arp_table := ?t[i := (?t ! i)\<lparr>arp_q := [],
            arp_ipaddr := ip, arp_state := ETHARP_STATE_EMPTY, arp_ctime := 0\<rparr>], etharp_cached_entry := i\<rparr>)"
          unfolding find_entry_def Let_def if_not_P[OF miss] Inr sum.case if_not_P[OF False] i(1) option.case
          using i(2) len by (cases "?t ! i") (auto simp: upd_arp_def)
        then show thesis using new[of i] i(2-4) away by blast
      qed
    qed
  qed
qed

section \<open>Sending\<close>

text \<open>The links of a packet whose Ethernet header has been filled in.\<close>

definition eth_framed :: "u8 list \<Rightarrow> u8 list \<Rightarrow> pbuf \<Rightarrow> u8 list list" where
  "eth_framed src dst p = (dst @ src @ bytes16 ETHTYPE_IP @ drop 14 (pb_bytes p)) # pb_next p"

lemma linkoutput_Ok: "pb_payload p + pb_len p \<le> length (pb_mem p) \<Longrightarrow>
    linkoutput p st = Ok (ERR_OK, st\<lparr>linked := linked st @ [pb_links p]\<rparr>)"
  by (simp add: linkoutput_def struct_in_def)

lemma etharp_send_ip_Ok:
  assumes p: "frame_ok p" and len: "length src = 6" "length dst = 6"
  shows "etharp_send_ip p src dst st = Ok (ERR_OK, st\<lparr>linked := linked st @ [eth_framed src dst p]\<rparr>)"
proof -
  let ?h = "dst @ src @ bytes16 ETHTYPE_IP"
  have in_mem: "14 \<le> pb_len p" "pb_payload p + pb_len p \<le> length (pb_mem p)" using p by (simp_all add: frame_ok_def)
  then have w: "hdr_put 12 (bytes16 ETHTYPE_IP) (hdr_put 6 src (hdr_put 0 dst p)) = hdr_put 0 ?h p"
    using len by (simp add: hdr_put_put)
  have "pb_bytes (hdr_put 0 ?h p) = ?h @ drop 14 (pb_bytes p)"
    using hdr_put_bytes[of ?h p] in_mem len by simp
  moreover have "pb_payload (hdr_put 0 ?h p) + pb_len (hdr_put 0 ?h p) \<le> length (pb_mem (hdr_put 0 ?h p))"
    using in_mem len by simp
  ultimately show ?thesis
    using in_mem by (simp add: etharp_send_ip_def struct_in_def w linkoutput_Ok pb_links_def eth_framed_def)
qed

lemma upd_arp_sel [simp]:
  "the_netif (upd_arp i f st) = the_netif st" "linked (upd_arp i f st) = linked st" "pcbs (upd_arp i f st) = pcbs st"
  "udp_pcbs (upd_arp i f st) = udp_pcbs st" "ip_id (upd_arp i f st) = ip_id st" "mem_ok (upd_arp i f st) = mem_ok st"
  "mems (upd_arp i f st) = mems st" "frag_out (upd_arp i f st) = frag_out st" "reass_in (upd_arp i f st) = reass_in st"
  "etharp_cached_entry (upd_arp i f st) = etharp_cached_entry st"
  "length (arp_table (upd_arp i f st)) = length (arp_table st)"
  by (simp_all add: upd_arp_def)

lemma upd_arp_upd [simp]: "i < length (arp_table st) \<Longrightarrow> upd_arp i f (upd_arp i g st) = upd_arp i (f \<circ> g) st"
  by (simp add: upd_arp_def)

lemma send_queued_Ok:
  assumes "\<forall>p \<in> set q. frame_ok p" and "length mac = 6" and "length (hwaddr (the_netif st)) = 6" and "i < length (arp_table st)"
    and "arp_q (arp_table st ! i) = q"
  shows "send_queued q i mac st = Ok (upd_arp i (arp_q_update (\<lambda>_. []))
    (st\<lparr>linked := linked st @ map (eth_framed (hwaddr (the_netif st)) mac) q\<rparr>))"
  using assms
proof (induction q arbitrary: st)
  case Nil
  then have "(arp_table st ! i)\<lparr>arp_q := []\<rparr> = arp_table st ! i" by (cases "arp_table st ! i") simp
  then show ?case by (simp add: upd_arp_def)
next
  case (Cons p q)
  let ?s = "upd_arp i (\<lambda>e. e\<lparr>arp_q := q\<rparr>) st"
  let ?t = "?s\<lparr>linked := linked ?s @ [eth_framed (hwaddr (the_netif ?s)) mac p]\<rparr>"
  have send: "etharp_send_ip p (hwaddr (the_netif ?s)) mac ?s = Ok (ERR_OK, ?t)"
    using Cons.prems by (simp add: etharp_send_ip_Ok)
  have "send_queued q i mac ?t = Ok (upd_arp i (arp_q_update (\<lambda>_. []))
      (?t\<lparr>linked := linked ?t @ map (eth_framed (hwaddr (the_netif ?t)) mac) q\<rparr>))"
    using Cons.prems by (intro Cons.IH) (simp_all add: upd_arp_def)
  then show ?case using Cons.prems(4) unfolding send_queued.simps Let_def send by (simp add: upd_arp_def)
qed

section \<open>Learning an address\<close>

definition learnt :: "u32 \<Rightarrow> u8 list \<Rightarrow> etharp_entry" where
  "learnt ip mac = \<lparr>arp_q = [], arp_ipaddr = ip, arp_ethaddr = mac, arp_state = ETHARP_STATE_STABLE, arp_ctime = 0\<rparr>"

text \<open>What becomes of the table: nothing, or entry \<open>i\<close> has the new pair and its packets are sent.\<close>

definition learn_at :: "nat \<Rightarrow> u32 \<Rightarrow> u8 list \<Rightarrow> pbuf list \<Rightarrow> stack \<Rightarrow> stack" where
  "learn_at i ip mac q st =
     st\<lparr>arp_table := (arp_table st)[i := learnt ip mac], etharp_cached_entry := i,
        linked := linked st @ map (eth_framed (hwaddr (the_netif st)) mac) q\<rparr>"

lemma learn_entry:
  assumes "\<forall>p \<in> set q. frame_ok p" and "length mac = 6" and "length (hwaddr (the_netif st)) = 6" and "i < length (arp_table st)"
    and "arp_q (arp_table st ! i) = q" and "arp_ipaddr (arp_table st ! i) = ip" and "etharp_cached_entry st = i"
  shows "send_queued q i mac (upd_arp i (\<lambda>e. e\<lparr>arp_ctime := 0\<rparr>) (upd_arp i (\<lambda>e. e\<lparr>arp_ethaddr := mac\<rparr>)
    (upd_arp i (\<lambda>e. e\<lparr>arp_state := ETHARP_STATE_STABLE\<rparr>) st))) = Ok (learn_at i ip mac q st)"
proof -
  let ?s = "upd_arp i (\<lambda>e. e\<lparr>arp_ctime := 0\<rparr>) (upd_arp i (\<lambda>e. e\<lparr>arp_ethaddr := mac\<rparr>)
    (upd_arp i (\<lambda>e. e\<lparr>arp_state := ETHARP_STATE_STABLE\<rparr>) st))"
  have "arp_q (arp_table ?s ! i) = q" using assms(4,5) by (simp add: upd_arp_def)
  then show ?thesis
    using assms send_queued_Ok[of q mac ?s i]
    by (cases "arp_table st ! i") (simp add: upd_arp_def learn_at_def learnt_def)
qed

lemma update_arp_entry_cases:
  assumes wf: "arp_wf st" and uni: "unicast (the_netif st) ip" and mac: "length mac = 6"
  obtains (none) "update_arp_entry ip mac flags st = Ok (ERR_MEM, st)"
      "flags AND ETHARP_TRY_HARD = 0 \<or> flags AND ETHARP_FIND_ONLY \<noteq> 0"
      "\<And>e. e \<in> set (arp_table st) \<Longrightarrow> active e \<Longrightarrow> arp_ipaddr e \<noteq> ip"
      "flags AND ETHARP_FIND_ONLY = 0 \<Longrightarrow> \<forall>e \<in> set (arp_table st). active e"
  | (hit) i where "update_arp_entry ip mac flags st = Ok (ERR_OK, learn_at i ip mac (arp_q (arp_table st ! i)) st)"
      "i < ARP_TABLE_SIZE" "active (arp_table st ! i)" "arp_ipaddr (arp_table st ! i) = ip"
  | (new) i where "update_arp_entry ip mac flags st = Ok (ERR_OK, learn_at i ip mac [] st)" "i < ARP_TABLE_SIZE"
      "\<And>e. e \<in> set (arp_table st) \<Longrightarrow> active e \<Longrightarrow> arp_ipaddr e \<noteq> ip"
proof -
  have u: "\<not> (ip_addr_isany ip \<or> ip_addr_isbroadcast ip (the_netif st) \<or> ip_addr_ismulticast ip)"
    using uni by (simp add: unicast_def)
  have len: "length (arp_table st) = ARP_TABLE_SIZE" "length (hwaddr (the_netif st)) = 6" using wf by (simp_all add: arp_wf_def)
  show thesis
  proof (cases rule: find_entry_cases[OF wf, of ip flags, case_names none hit new])
    case none
    then show thesis using that(1) u by (simp add: update_arp_entry_def)
  next
    case (hit i)
    let ?s = "st\<lparr>etharp_cached_entry := i\<rparr>"
    have "\<forall>p \<in> set (arp_q (arp_table st ! i)). frame_ok p" using arp_wfD(1)[OF wf hit(2)] by (simp add: entry_wf_def)
    then have "send_queued (arp_q (arp_table st ! i)) i mac (upd_arp i (\<lambda>e. e\<lparr>arp_ctime := 0\<rparr>) (upd_arp i (\<lambda>e. e\<lparr>arp_ethaddr := mac\<rparr>)
        (upd_arp i (\<lambda>e. e\<lparr>arp_state := ETHARP_STATE_STABLE\<rparr>) ?s))) = Ok (learn_at i ip mac (arp_q (arp_table st ! i)) ?s)"
      using mac len hit(2,4) by (intro learn_entry) simp_all
    moreover have "learn_at i ip mac (arp_q (arp_table st ! i)) ?s = learn_at i ip mac (arp_q (arp_table st ! i)) st"
      by (simp add: learn_at_def)
    ultimately show thesis
      using that(2)[of i] hit(1-4) u len by (simp add: update_arp_entry_def Let_def upd_arp_def)
  next
    case (new i)
    let ?s = "st\<lparr>arp_table := (arp_table st)[i := (arp_table st ! i)\<lparr>arp_q := [], arp_ipaddr := ip,
      arp_state := ETHARP_STATE_EMPTY, arp_ctime := 0\<rparr>], etharp_cached_entry := i\<rparr>"
    have "send_queued [] i mac (upd_arp i (\<lambda>e. e\<lparr>arp_ctime := 0\<rparr>) (upd_arp i (\<lambda>e. e\<lparr>arp_ethaddr := mac\<rparr>)
        (upd_arp i (\<lambda>e. e\<lparr>arp_state := ETHARP_STATE_STABLE\<rparr>) ?s))) = Ok (learn_at i ip mac [] ?s)"
      using mac len new(2) by (intro learn_entry) simp_all
    moreover have "learn_at i ip mac [] ?s = learn_at i ip mac [] st" by (simp add: learn_at_def)
    ultimately show thesis
      using that(3)[of i] new(1-3) u len by (simp add: update_arp_entry_def Let_def upd_arp_def)
  qed
qed

lemma update_arp_entry_other: "\<not> unicast (the_netif st) ip \<Longrightarrow> update_arp_entry ip mac flags st = Ok (ERR_ARG, st)"
  by (simp add: update_arp_entry_def unicast_def)

end
