(* ===== verification/Net_Arp_Table.thy ===== *)
theory Net_Arp_Table
  imports Net_Arp_Find
begin

text \<open>
  Requests and answers as bytes, and the effect of each operation on the abstract table: learning, ageing, asking.
\<close>

section \<open>Requests and answers as bytes\<close>

definition arp_packet :: "u16 \<Rightarrow> u8 list \<Rightarrow> u8 list \<Rightarrow> u8 list \<Rightarrow> u32 \<Rightarrow> u8 list \<Rightarrow> u32 \<Rightarrow> u8 list" where
  "arp_packet opcode ethdst ethsrc hwsrc ipsrc hwdst ipdst =
     ethdst @ ethsrc @ bytes16 ETHTYPE_ARP @ bytes16 1 @ bytes16 ETHTYPE_IP @ bytes16 0x0604 @ bytes16 opcode @
     hwsrc @ bytes32 ipsrc @ hwdst @ bytes32 ipdst"

lemma length_arp_packet: "length ethdst = 6 \<Longrightarrow> length ethsrc = 6 \<Longrightarrow> length hwsrc = 6 \<Longrightarrow> length hwdst = 6 \<Longrightarrow>
    length (arp_packet opcode ethdst ethsrc hwsrc ipsrc hwdst ipdst) = 42"
  by (simp add: arp_packet_def)

lemma pbuf_ram_sel [simp]:
  "pb_len (pbuf_ram room n) = n" "pb_next (pbuf_ram room n) = []" "pb_payload (pbuf_ram room n) = (room + 3) div 4 * 4"
  "length (pb_mem (pbuf_ram room n)) = (room + 3) div 4 * 4 + (n + 3) div 4 * 4"
  by (simp_all add: pbuf_ram_def Let_def)

lemma ram_room: "n \<le> (n + 3) div 4 * (4 :: nat)"
  by presburger

lemma etharp_raw_eq:
  assumes "length ethdst = 6" "length ethsrc = 6" "length hwsrc = 6" "length hwdst = 6"
  shows "etharp_raw ethsrc ethdst hwsrc ipsrc hwdst ipdst opcode st =
    (let st' = st\<lparr>mems := mems st + 1\<rparr> in
     if mem_ok st (mems st)
     then Ok (ERR_OK, st'\<lparr>linked := linked st @ [[arp_packet opcode ethdst ethsrc hwsrc ipsrc hwdst ipdst]]\<rparr>)
     else Ok (ERR_MEM, st'))"
proof -
  let ?r = "pbuf_ram 0 42" and ?k = "arp_packet opcode ethdst ethsrc hwsrc ipsrc hwdst ipdst"
  have "hdr_put 20 (bytes16 opcode) ?r = hdr_puts [(20, bytes16 opcode)] ?r" by simp
  then have w: "hdr_put 12 (bytes16 ETHTYPE_ARP) (hdr_put 18 (bytes16 0x0604) (hdr_put 16 (bytes16 ETHTYPE_IP) (hdr_put 14 (bytes16 1)
      (hdr_put 38 (bytes32 ipdst) (hdr_put 28 (bytes32 ipsrc) (hdr_put 6 ethsrc (hdr_put 0 ethdst (hdr_put 32 hwdst (hdr_put 22 hwsrc
      (hdr_put 20 (bytes16 opcode) ?r)))))))))) = hdr_puts [(0, ethdst), (6, ethsrc), (12, bytes16 ETHTYPE_ARP), (14, bytes16 1),
        (16, bytes16 ETHTYPE_IP), (18, bytes16 0x0604), (20, bytes16 opcode), (22, hwsrc), (28, bytes32 ipsrc), (32, hwdst),
        (38, bytes32 ipdst)] ?r"
    using assms by (simp add: hdr_put_puts apart_def del: hdr_puts.simps)
  also have "\<dots> = hdr_put 0 ?k ?r"
    using assms by (simp add: hdr_put_put arp_packet_def)
  also note w = calculation
  have len: "length ?k = 42" using assms by (rule length_arp_packet)
  then have "pb_links (hdr_put 0 ?k ?r) = [?k]" by (simp add: pb_links_def pb_bytes_put)
  moreover have "linkoutput (hdr_put 0 ?k ?r) s = Ok (ERR_OK, s\<lparr>linked := linked s @ [pb_links (hdr_put 0 ?k ?r)]\<rparr>)" for s
    using len by (intro linkoutput_Ok) simp
  ultimately show ?thesis unfolding etharp_raw_def Let_def w by (simp add: mem_get_def)
qed

section \<open>Received frames\<close>

abbreviation in_mem :: "pbuf \<Rightarrow> bool" where
  "in_mem p \<equiv> pb_payload p + pb_len p \<le> length (pb_mem p)"

definition arp_valid :: "pbuf \<Rightarrow> bool" where
  "arp_valid p \<longleftrightarrow> 42 \<le> pb_len p \<and> be16 (hdr_get 14 2 p) = 1 \<and> be16 (hdr_get 18 2 p) = 0x0604 \<and>
     be16 (hdr_get 16 2 p) = ETHTYPE_IP \<and> be16 (hdr_get 12 2 p) = ETHTYPE_ARP"

abbreviation arp_sip :: "pbuf \<Rightarrow> u32" where "arp_sip p \<equiv> be32 (hdr_get 28 4 p)"
abbreviation arp_smac :: "pbuf \<Rightarrow> u8 list" where "arp_smac p \<equiv> hdr_get 22 6 p"
abbreviation arp_op :: "pbuf \<Rightarrow> u16" where "arp_op p \<equiv> be16 (hdr_get 20 2 p)"

definition arp_for_us :: "netif \<Rightarrow> pbuf \<Rightarrow> bool" where
  "arp_for_us n p \<longleftrightarrow> ip_addr n \<noteq> 0 \<and> be32 (hdr_get 38 4 p) = ip_addr n"

text \<open>The answer is made in the buffer of the request: bytes behind it are sent with it.\<close>

definition arp_answer :: "netif \<Rightarrow> pbuf \<Rightarrow> u8 list list" where
  "arp_answer n p = (arp_packet ARP_REPLY (arp_smac p) (hwaddr n) (hwaddr n) (ip_addr n) (arp_smac p) (arp_sip p) @
     drop 42 (pb_bytes p)) # pb_next p"

lemma drop_two: "take 2 (drop i bs) = bytes16 w \<Longrightarrow> drop i bs = bytes16 w @ drop (i + 2) bs"
  by (metis append_take_drop_id drop_drop add.commute)

lemma arp_fields:
  assumes v: "arp_valid p" and m: "in_mem p"
  shows "take 8 (drop 12 (pb_bytes p)) = bytes16 ETHTYPE_ARP @ bytes16 1 @ bytes16 ETHTYPE_IP @ bytes16 0x0604"
proof -
  have f: "take 2 (drop i (pb_bytes p)) = bytes16 (be16 (hdr_get i 2 p))" if "i + 2 \<le> 42" for i
  proof -
    have "length (hdr_get i 2 p) = 2" using that v m by (simp add: arp_valid_def)
    then show ?thesis using that v hdr_get_bytes[of i 2 p] by (simp add: arp_valid_def bytes16_be16)
  qed
  have "drop 12 (pb_bytes p) = bytes16 ETHTYPE_ARP @ drop 14 (pb_bytes p)"
    "drop 14 (pb_bytes p) = bytes16 1 @ drop 16 (pb_bytes p)"
    "drop 16 (pb_bytes p) = bytes16 ETHTYPE_IP @ drop 18 (pb_bytes p)"
    "drop 18 (pb_bytes p) = bytes16 0x0604 @ drop 20 (pb_bytes p)"
    using drop_two[OF f[of 12]] drop_two[OF f[of 14]] drop_two[OF f[of 16]] drop_two[OF f[of 18]] v
    by (simp_all add: arp_valid_def)
  then show ?thesis by simp
qed

lemma arp_answer_sent:
  assumes v: "arp_valid p" and m: "in_mem p" and hw: "length hw = 6"
  shows "(let p = hdr_put 20 (bytes16 ARP_REPLY) p;
              p = hdr_put 38 (hdr_get 28 4 p) p;
              p = hdr_put 28 (bytes32 ip) p;
              p = hdr_put 32 (hdr_get 22 6 p) p;
              p = hdr_put 0 (hdr_get 22 6 p) p;
              p = hdr_put 22 hw p;
              p = hdr_put 6 hw p
          in linkoutput p st) = Ok (ERR_OK, st\<lparr>linked := linked st @
            [(arp_packet ARP_REPLY (arp_smac p) hw hw ip (arp_smac p) (arp_sip p) @ drop 42 (pb_bytes p)) # pb_next p]\<rparr>)"
    (is "?out = _")
proof -
  let ?x = "bytes16 ARP_REPLY @ hw @ bytes32 ip @ arp_smac p @ bytes32 (arp_sip p)" and ?y = "arp_smac p @ hw"
  let ?q = "hdr_put 20 ?x (hdr_put 0 ?y p)"
  have len: "pb_payload p + 42 \<le> length (pb_mem p)" "42 \<le> pb_len p" using v m by (simp_all add: arp_valid_def)
  have sip: "bytes32 (arp_sip p) = hdr_get 28 4 p" using len by (simp add: bytes32_be32)
  have "hdr_put 20 (bytes16 ARP_REPLY) p = hdr_puts [(20, bytes16 ARP_REPLY)] p" by simp
  then have "hdr_put 6 hw (hdr_put 22 hw (hdr_put 0 (arp_smac p) (hdr_put 32 (arp_smac p) (hdr_put 28 (bytes32 ip)
      (hdr_put 38 (hdr_get 28 4 p) (hdr_put 20 (bytes16 ARP_REPLY) p)))))) =
      hdr_puts [(0, arp_smac p), (6, hw), (20, bytes16 ARP_REPLY), (22, hw), (28, bytes32 ip), (32, arp_smac p),
        (38, hdr_get 28 4 p)] p"
    using hw len by (simp add: hdr_put_puts apart_def del: hdr_puts.simps)
  also have "\<dots> = ?q" using hw len by (simp add: hdr_put_put sip)
  finally have "?out = linkoutput ?q st"
    using hw len by (simp add: hdr_get_put Let_def)
  moreover have "pb_bytes ?q = arp_packet ARP_REPLY (arp_smac p) hw hw ip (arp_smac p) (arp_sip p) @ drop 42 (pb_bytes p)"
    using hw len m arp_fields[OF v m] by (simp add: pb_bytes_put arp_packet_def)
  moreover have "in_mem ?q" using hw len m by simp
  ultimately show ?thesis using linkoutput_Ok[of ?q st] by (simp add: pb_links_def)
qed

section \<open>One entry changes\<close>

text \<open>What the abstract table becomes when entry \<open>i\<close> is written, and the invariant with it.\<close>

definition others_off :: "nat \<Rightarrow> u32 \<Rightarrow> stack \<Rightarrow> bool" where
  "others_off i ip st \<longleftrightarrow> (\<forall>j < ARP_TABLE_SIZE. j \<noteq> i \<longrightarrow> active (arp_table st ! j) \<longrightarrow> arp_ipaddr (arp_table st ! j) \<noteq> ip)"

lemma others_off_hit: "arp_wf st \<Longrightarrow> i < ARP_TABLE_SIZE \<Longrightarrow> active (arp_table st ! i) \<Longrightarrow> arp_ipaddr (arp_table st ! i) = ip \<Longrightarrow>
    others_off i ip st"
  by (auto simp: others_off_def arp_wf_def single_def)

lemma others_off_new: "arp_wf st \<Longrightarrow> (\<And>e. e \<in> set (arp_table st) \<Longrightarrow> active e \<Longrightarrow> arp_ipaddr e \<noteq> ip) \<Longrightarrow> others_off i ip st"
  by (auto simp: others_off_def arp_wf_def)

lemma ex_written: "(\<And>j. j < n \<Longrightarrow> u j = (if j = i then e else s j)) \<Longrightarrow> \<not> Q e \<Longrightarrow>
    (\<exists>j < (n :: nat). Q (u j)) \<longleftrightarrow> (\<exists>j < n. j \<noteq> i \<and> Q (s j))"
  by metis

lemma entry_written:
  assumes wf: "arp_wf st" and i: "i < ARP_TABLE_SIZE" and e: "entry_wf (the_netif st) e" "active e \<Longrightarrow> others_off i (arp_ipaddr e) st"
    and t: "arp_table t = (arp_table st)[i := e]" "the_netif t = the_netif st" "etharp_cached_entry t < ARP_TABLE_SIZE"
  shows "arp_wf t"
    and "arp_map t ip = (if stable e \<and> arp_ipaddr e = ip then Some (arp_ethaddr e, unat (arp_ctime e))
      else if stable (arp_table st ! i) \<and> arp_ipaddr (arp_table st ! i) = ip then None else arp_map st ip)" (is "_ = ?r")
proof -
  have len: "length (arp_table st) = ARP_TABLE_SIZE" "length (arp_table t) = ARP_TABLE_SIZE" using wf t by (simp_all add: arp_wf_def)
  have one: "single (arp_table st)" using wf by (simp add: arp_wf_def)
  have nth: "arp_table t ! j = (if j = i then e else arp_table st ! j)" if "j < ARP_TABLE_SIZE" for j
    using that t(1) len by (simp add: nth_list_update)
  have one': "single (arp_table t)"
    using one e(2) len by (auto simp: single_def nth others_off_def)
  have "\<forall>e \<in> set (arp_table t). entry_wf (the_netif st) e"
    using wf e(1) t(1) by (auto simp: arp_wf_def dest!: subsetD[OF set_update_subset_insert])
  then show "arp_wf t" using wf one' len t by (simp add: arp_wf_def)
  have "arp_map t ip = Some (m, a) \<longleftrightarrow> ?r = Some (m, a)" for m a
  proof (cases "stable e \<and> arp_ipaddr e = ip")
    case True
    then have "active e" by (simp add: active_def)
    then have "\<not> (stable (arp_table st ! j) \<and> arp_ipaddr (arp_table st ! j) = ip)" if "j < ARP_TABLE_SIZE" "j \<noteq> i" for j
      using e(2) that True by (auto simp: others_off_def active_def)
    then show ?thesis using True i nth by (subst arp_map_iff[OF one']) (auto simp: len)
  next
    case False
    then have new: "arp_map t ip = Some (m, a) \<longleftrightarrow> (\<exists>j < ARP_TABLE_SIZE. j \<noteq> i \<and> stable (arp_table st ! j) \<and>
        arp_ipaddr (arp_table st ! j) = ip \<and> m = arp_ethaddr (arp_table st ! j) \<and> a = unat (arp_ctime (arp_table st ! j)))"
      unfolding arp_map_iff[OF one'] len
      using ex_written[of ARP_TABLE_SIZE "(!) (arp_table t)" i e "(!) (arp_table st)" "\<lambda>x. stable x \<and> arp_ipaddr x = ip \<and>
        m = arp_ethaddr x \<and> a = unat (arp_ctime x)", OF nth] False by blast
    show ?thesis
    proof (cases "stable (arp_table st ! i) \<and> arp_ipaddr (arp_table st ! i) = ip")
      case True
      have "\<not> (stable (arp_table st ! j) \<and> arp_ipaddr (arp_table st ! j) = ip)" if "j < ARP_TABLE_SIZE" "j \<noteq> i" for j
        using singleD[OF one, of j i] that i len True by (auto simp: active_def)
      then show ?thesis using True \<open>\<not> (stable e \<and> arp_ipaddr e = ip)\<close> unfolding new by auto
    next
      case other: False
      have "arp_map st ip = Some (m, a) \<longleftrightarrow> (\<exists>j < ARP_TABLE_SIZE. j \<noteq> i \<and> stable (arp_table st ! j) \<and>
          arp_ipaddr (arp_table st ! j) = ip \<and> m = arp_ethaddr (arp_table st ! j) \<and> a = unat (arp_ctime (arp_table st ! j)))"
        using other by (subst arp_map_iff[OF one]) (auto simp: len)
      then show ?thesis unfolding new if_not_P[OF False] if_not_P[OF other] by simp
    qed
  qed
  then show "arp_map t ip = ?r" by (metis option.exhaust prod.exhaust)
qed

section \<open>Learning and ageing\<close>

lemma learn_at_wf:
  assumes wf: "arp_wf st" and i: "i < ARP_TABLE_SIZE" and ip: "unicast (the_netif st) ip" "others_off i ip st"
    and mac: "length mac = 6"
  shows "arp_wf (learn_at i ip mac q st)" and "arp_map (learn_at i ip mac q st) ip = Some (mac, 0)"
    and "ip' \<noteq> ip \<Longrightarrow> arp_map (learn_at i ip mac q st) ip' = Some x \<Longrightarrow> arp_map st ip' = Some x"
proof -
  have e: "entry_wf (the_netif st) (learnt ip mac)" using ip mac by (simp add: entry_wf_def learnt_def ARP_MAXAGE_def)
  note w = entry_written[OF wf i e, of "learn_at i ip mac q st"]
  show "arp_wf (learn_at i ip mac q st)" using w(1) ip i by (simp add: learn_at_def learnt_def)
  show "arp_map (learn_at i ip mac q st) ip = Some (mac, 0)" using w(2) ip i by (simp add: learn_at_def learnt_def)
  show "arp_map st ip' = Some x" if "ip' \<noteq> ip" "arp_map (learn_at i ip mac q st) ip' = Some x"
    using that w(2)[of ip'] ip i by (auto simp: learn_at_def learnt_def split: if_splits)
qed

lemma u8_Suc: "a < 240 \<Longrightarrow> unat ((a :: u8) + 1) = unat a + 1"
  by (simp add: unat_word_ariths word_less_nat_alt)

lemma age_entry_wf: "entry_wf n e \<Longrightarrow> entry_wf n (age_entry e)"
  by (auto simp: entry_wf_def age_entry_def Let_def active_def)

lemma arp_timer_wf:
  assumes wf: "arp_wf st"
  shows "arp_wf (arp_timer st)"
    and "arp_map (arp_timer st) ip = (case arp_map st ip of None \<Rightarrow> None
      | Some (m, a) \<Rightarrow> if a + 1 < 240 then Some (m, a + 1) else None)" (is "_ = ?r")
proof -
  let ?t = "arp_table st"
  have len: "length ?t = ARP_TABLE_SIZE" "length (arp_table (arp_timer st)) = ARP_TABLE_SIZE"
    and one: "single ?t" using wf by (simp_all add: arp_wf_def arp_timer_def)
  have nth: "arp_table (arp_timer st) ! i = age_entry (?t ! i)" if "i < ARP_TABLE_SIZE" for i
    using that len by (simp add: arp_timer_def)
  have kept: "arp_ipaddr (age_entry e) = arp_ipaddr e" "arp_ethaddr (age_entry e) = arp_ethaddr e"
    "active (age_entry e) \<Longrightarrow> active e" for e
    by (auto simp: age_entry_def Let_def active_def)
  have one': "single (arp_table (arp_timer st))"
    unfolding single_def using singleD[OF one] len nth kept by auto
  show "arp_wf (arp_timer st)" using wf one' age_entry_wf by (auto simp: arp_wf_def arp_timer_def)
  have st: "stable (age_entry (?t ! i)) \<and> a = unat (arp_ctime (age_entry (?t ! i))) \<longleftrightarrow>
      stable (?t ! i) \<and> a = unat (arp_ctime (?t ! i)) + 1 \<and> a < 240" if "i < ARP_TABLE_SIZE" for i a
  proof -
    have "stable (?t ! i) \<Longrightarrow> arp_ctime (?t ! i) < 240"
      using arp_wfD(1)[OF wf that] by (simp add: entry_wf_def ARP_MAXAGE_def)
    then show ?thesis
      by (auto simp: age_entry_def Let_def u8_Suc ARP_MAXAGE_def word_le_nat_alt not_le)
  qed
  have at: "stable (arp_table (arp_timer st) ! i) \<and> arp_ipaddr (arp_table (arp_timer st) ! i) = ip \<and>
      m = arp_ethaddr (arp_table (arp_timer st) ! i) \<and> a = unat (arp_ctime (arp_table (arp_timer st) ! i)) \<longleftrightarrow>
      a < 240 \<and> (\<exists>b. a = b + 1 \<and> stable (?t ! i) \<and> arp_ipaddr (?t ! i) = ip \<and> m = arp_ethaddr (?t ! i) \<and>
        b = unat (arp_ctime (?t ! i)))" if "i < ARP_TABLE_SIZE" for i m a
    using st[OF that, of a] that by (auto simp: nth kept)
  have iff: "arp_map (arp_timer st) ip = Some (m, a) \<longleftrightarrow> a < 240 \<and> (\<exists>b. a = b + 1 \<and> arp_map st ip = Some (m, b))" for m a
    unfolding arp_map_iff[OF one'] arp_map_iff[OF one] len using at[of _ m a] by blast
  show "arp_map (arp_timer st) ip = ?r"
  proof (cases "?r")
    case None
    then have "arp_map (arp_timer st) ip \<noteq> Some (m, a)" for m a using iff[of m a] by auto
    then show ?thesis using None by (cases "arp_map (arp_timer st) ip") auto
  next
    case (Some x)
    then obtain m b where "arp_map st ip = Some (m, b)" "b + 1 < 240" "x = (m, b + 1)" by (auto split: option.splits if_splits)
    then have "arp_map (arp_timer st) ip = Some x" using iff[of m "b + 1"] by simp
    then show ?thesis using Some by (rule trans[OF _ sym])
  qed
qed

section \<open>Asking for an address\<close>

lemma length_links: "in_mem p \<Longrightarrow> length (concat (pb_links p)) = tot_len p"
  by (simp add: pb_links_def tot_len_def)

lemma pbuf_copied_wf:
  assumes "in_mem p"
  shows "in_mem (pbuf_copied room p)" and "pb_len (pbuf_copied room p) = tot_len p" and "pb_next (pbuf_copied room p) = []"
    and "pb_bytes (pbuf_copied room p) = concat (pb_links p)" and "pb_payload (pbuf_copied room p) = (room + 3) div 4 * 4"
proof -
  have len: "length (concat (pb_links p)) = tot_len p" using assms by (rule length_links)
  have room: "tot_len p \<le> (tot_len p + 3) div 4 * 4" by (rule ram_room)
  show "in_mem (pbuf_copied room p)" "pb_len (pbuf_copied room p) = tot_len p" "pb_next (pbuf_copied room p) = []"
    "pb_payload (pbuf_copied room p) = (room + 3) div 4 * 4"
    using len room by (simp_all add: pbuf_copied_def)
  show "pb_bytes (pbuf_copied room p) = concat (pb_links p)"
    using len room by (simp add: pbuf_copied_def pb_bytes_put)
qed

lemma pbuf_copied_ok: "frame_ok p \<Longrightarrow> frame_ok (pbuf_copied room p)"
  using pbuf_copied_wf[of p room] by (auto simp: frame_ok_def tot_len_def)

definition request_of :: "netif \<Rightarrow> u32 \<Rightarrow> u8 list list" where
  "request_of n ip = [arp_packet ARP_REQUEST ethbroadcast (hwaddr n) (hwaddr n) (ip_addr n) ethzero ip]"

lemma etharp_request_eq:
  assumes "length (hwaddr (the_netif st)) = 6"
  shows "etharp_request ip st = (if mem_ok st (mems st)
    then Ok (ERR_OK, st\<lparr>mems := mems st + 1, linked := linked st @ [request_of (the_netif st) ip]\<rparr>)
    else Ok (ERR_MEM, st\<lparr>mems := mems st + 1\<rparr>))"
  using assms by (simp add: etharp_request_def etharp_raw_eq request_of_def ethbroadcast_def ethzero_def)

text \<open>
  What a pending entry does with a packet: the request is sent when there is memory for it, and the packet
  waits when there is memory for its copy and for its place in the queue.
\<close>

definition queued_copy :: "stack \<Rightarrow> pbuf \<Rightarrow> pbuf list" where
  "queued_copy st q = (if mem_ok st (mems st + 1) \<and> mem_ok st (mems st + 2) then [pbuf_copied 0 q] else [])"

definition wait_at :: "nat \<Rightarrow> etharp_entry \<Rightarrow> u32 \<Rightarrow> pbuf \<Rightarrow> stack \<Rightarrow> stack" where
  "wait_at i e ip q st =
     st\<lparr>arp_table := (arp_table st)[i := e\<lparr>arp_q := arp_q e @ queued_copy st q\<rparr>], etharp_cached_entry := i,
        mems := mems st + 2 + (if mem_ok st (mems st + 1) then 1 else 0),
        linked := linked st @ (if mem_ok st (mems st) then [request_of (the_netif st) ip] else [])\<rparr>"

definition wait_result :: "stack \<Rightarrow> err" where
  "wait_result st = (if mem_ok st (mems st + 1) \<and> mem_ok st (mems st + 2) \<or> mem_ok st (mems st) then ERR_OK else ERR_MEM)"

text \<open>The entry that a search for an absent address makes, as \<open>etharp_query\<close> marks it.\<close>

definition asked :: "u32 \<Rightarrow> etharp_entry \<Rightarrow> etharp_entry" where
  "asked ip e = e\<lparr>arp_q := [], arp_ipaddr := ip, arp_state := ETHARP_STATE_PENDING, arp_ctime := 0\<rparr>"

lemmas wait_defs = wait_result_def wait_at_def queued_copy_def struct_in_def mem_get_def upd_arp_def

lemma etharp_query_cases:
  assumes wf: "arp_wf st" and uni: "unicast (the_netif st) ip" and q: "frame_ok q"
  obtains (known) i where "etharp_query ip q st = Ok (ERR_OK, st\<lparr>etharp_cached_entry := i,
        linked := linked st @ [eth_framed (hwaddr (the_netif st)) (arp_ethaddr (arp_table st ! i)) q]\<rparr>)"
      "i < ARP_TABLE_SIZE" "stable (arp_table st ! i)" "arp_ipaddr (arp_table st ! i) = ip"
  | (pending) i where "etharp_query ip q st = Ok (wait_result st, wait_at i (arp_table st ! i) ip q st)"
      "i < ARP_TABLE_SIZE" "arp_state (arp_table st ! i) = ETHARP_STATE_PENDING" "arp_ipaddr (arp_table st ! i) = ip"
  | (new) i where "etharp_query ip q st = Ok (wait_result st, wait_at i (asked ip (arp_table st ! i)) ip q st)"
      "i < ARP_TABLE_SIZE" "\<And>e. e \<in> set (arp_table st) \<Longrightarrow> active e \<Longrightarrow> arp_ipaddr e \<noteq> ip"
proof -
  have u: "\<not> (ip_addr_isbroadcast ip (the_netif st) \<or> ip_addr_ismulticast ip \<or> ip_addr_isany ip)"
    using uni by (simp add: unicast_def)
  have len: "length (arp_table st) = ARP_TABLE_SIZE" "length (hwaddr (the_netif st)) = 6" using wf by (simp_all add: arp_wf_def)
  have qm: "in_mem q" using q by (simp add: frame_ok_def)
  show thesis
  proof (cases rule: find_entry_cases[OF wf, of ip ETHARP_TRY_HARD, case_names none hit new])
    case none
    then show thesis by (simp add: ETHARP_TRY_HARD_def ETHARP_FIND_ONLY_def)
  next
    case (hit i)
    let ?s = "st\<lparr>etharp_cached_entry := i\<rparr>"
    have mac: "length (arp_ethaddr (arp_table st ! i)) = 6" using arp_wfD(1)[OF wf hit(2)] by (simp add: entry_wf_def)
    show thesis
    proof (cases "stable (arp_table st ! i)")
      case True
      have "etharp_query ip q st = Ok (ERR_OK, st\<lparr>etharp_cached_entry := i,
          linked := linked st @ [eth_framed (hwaddr (the_netif st)) (arp_ethaddr (arp_table st ! i)) q]\<rparr>)"
        unfolding etharp_query_def if_not_P[OF u] hit(1) Let_def using True len mac q by (simp add: etharp_send_ip_Ok)
      then show thesis using known hit(2,4) True by blast
    next
      case False
      then have pend: "arp_state (arp_table ?s ! i) = ETHARP_STATE_PENDING"
        using hit(3) by (cases "arp_state (arp_table st ! i)") (auto simp: active_def)
      have "etharp_query ip q st = Ok (wait_result st, wait_at i (arp_table st ! i) ip q st)"
        unfolding etharp_query_def if_not_P[OF u] hit(1) prod.case option.case
        using pend len hit(2) qm by (simp add: etharp_request_eq wait_defs)
      then show thesis using pending[of i] hit(2,4) pend by simp
    qed
  next
    case (new i)
    have "etharp_query ip q st = Ok (wait_result st, wait_at i (asked ip (arp_table st ! i)) ip q st)"
      unfolding etharp_query_def if_not_P[OF u] new(1) prod.case option.case
      using new(2) len qm by (cases "arp_table st ! i") (simp add: etharp_request_eq wait_defs asked_def)
    then show thesis using that(3)[of i] new(2,3) by blast
  qed
qed

lemma wait_at_wf:
  assumes wf: "arp_wf st" and i: "i < ARP_TABLE_SIZE" and e: "entry_wf (the_netif st) e" "arp_state e = ETHARP_STATE_PENDING"
    "arp_ipaddr e = ip" "others_off i ip st" and q: "frame_ok q"
  shows "arp_wf (wait_at i e ip q st)" and "arp_map (wait_at i e ip q st) ip' = Some x \<Longrightarrow> arp_map st ip' = Some x"
proof -
  let ?e = "e\<lparr>arp_q := arp_q e @ queued_copy st q\<rparr>"
  have e': "entry_wf (the_netif st) ?e" "active ?e \<Longrightarrow> others_off i (arp_ipaddr ?e) st" "\<not> stable ?e"
    using e q pbuf_copied_ok[OF q] by (auto simp: entry_wf_def queued_copy_def active_def)
  note w = entry_written[OF wf i e'(1,2), of "wait_at i e ip q st"]
  show "arp_wf (wait_at i e ip q st)" using w(1) i by (simp add: wait_at_def)
  have "arp_map (wait_at i e ip q st) ip' = (if stable (arp_table st ! i) \<and> arp_ipaddr (arp_table st ! i) = ip' then None
      else arp_map st ip')"
    using w(2)[of ip'] e'(3) i by (simp add: wait_at_def)
  then show "arp_map st ip' = Some x" if "arp_map (wait_at i e ip q st) ip' = Some x"
    using that by (auto split: if_splits)
qed

lemma asked_wf: "entry_wf n e \<Longrightarrow> unicast n ip \<Longrightarrow> entry_wf n (asked ip e)"
  by (auto simp: entry_wf_def asked_def ARP_MAXPENDING_def)

end
