(* ===== verification/Net_Arp_Cache.thy ===== *)
theory Net_Arp_Cache
  imports Net_Arp_Table
begin

text \<open>
  The promise of the table to its users, as a locale, its interpretation on the model of the code, and the
  properties of the address resolution.
\<close>

section \<open>A cache that learns from events\<close>

text \<open>
  What a user of the table relies on: an event that tells the value of a key is the only thing that changes
  what is known of it, except that the cache may forget; time passes with the events that tick.
\<close>

locale addr_cache =
  fixes look :: "'c \<Rightarrow> 'k \<Rightarrow> ('v \<times> nat) option"
    and step :: "'e \<Rightarrow> 'c \<Rightarrow> 'c res"
    and heard :: "'e \<Rightarrow> ('k \<times> 'v) option"
    and tick :: "'e \<Rightarrow> bool"
    and inv :: "'c \<Rightarrow> bool"
    and ok :: "'e \<Rightarrow> bool"
  assumes step_ok: "inv c \<Longrightarrow> ok e \<Longrightarrow> \<exists>d. step e c = Ok d \<and> inv d"
    and step_look: "inv c \<Longrightarrow> ok e \<Longrightarrow> step e c = Ok d \<Longrightarrow> look d k = Some (v, a) \<Longrightarrow>
      heard e = Some (k, v) \<and> a = 0 \<or>
      (\<forall>u. heard e \<noteq> Some (k, u)) \<and> (\<exists>b. look c k = Some (v, b) \<and> a = b + of_bool (tick e))"
begin

lemma run_ok: "inv c \<Longrightarrow> list_all ok es \<Longrightarrow> \<exists>d. for_each step es c = Ok d \<and> inv d"
  using for_each_total[of inv c es step] step_ok by (auto simp: list_all_iff)

text \<open>What the cache says of a key is what was told last, and its age counts the ticks since.\<close>

lemma look_last:
  assumes "inv c" and "list_all ok es" and "for_each step es c = Ok d" and "look c k = None" and "look d k = Some (v, a)"
  shows "\<exists>fs e gs. es = fs @ e # gs \<and> heard e = Some (k, v) \<and> (\<forall>g \<in> set gs. \<forall>u. heard g \<noteq> Some (k, u)) \<and>
    a = length (filter tick gs)"
  using assms(2,3,5)
proof (induction es arbitrary: d v a rule: rev_induct)
  case Nil
  then show ?case using assms(4) by simp
next
  case (snoc e es)
  from snoc.prems(1) have oks: "list_all ok es" "ok e" by simp_all
  obtain m where m: "for_each step es c = Ok m" "inv m" using run_ok[OF assms(1) oks(1)] by blast
  then have st: "step e m = Ok d" using snoc.prems(2) by (auto simp: for_each_append)
  from step_look[OF m(2) oks(2) st snoc.prems(3)] show ?case
  proof
    assume "heard e = Some (k, v) \<and> a = 0"
    then show ?thesis by (intro exI[of _ es] exI[of _ e] exI[of _ "[]"]) simp
  next
    assume "(\<forall>u. heard e \<noteq> Some (k, u)) \<and> (\<exists>b. look m k = Some (v, b) \<and> a = b + of_bool (tick e))"
    then obtain b where b: "look m k = Some (v, b)" "a = b + of_bool (tick e)" and e: "\<forall>u. heard e \<noteq> Some (k, u)" by blast
    from snoc.IH[OF oks(1) m(1) b(1)] obtain fs f gs where f: "es = fs @ f # gs" "heard f = Some (k, v)"
        "\<forall>g \<in> set gs. \<forall>u. heard g \<noteq> Some (k, u)" "b = length (filter tick gs)"
      by blast
    then show ?thesis using b(2) e by (intro exI[of _ fs] exI[of _ f] exI[of _ "gs @ [e]"]) simp
  qed
qed

end

section \<open>The table as such a cache\<close>

datatype arp_event = ArpFrame pbuf | IpFrame pbuf | ArpTimer | Packet pbuf u32

fun arp_do :: "arp_event \<Rightarrow> stack \<Rightarrow> stack res" where
  "arp_do (ArpFrame p) st = etharp_arp_input p st"
| "arp_do (IpFrame p) st = etharp_ip_input p st"
| "arp_do ArpTimer st = Ok (arp_timer st)"
| "arp_do (Packet p ip) st = bnd (etharp_output p ip st) (\<lambda>(_, st). Ok st)"

definition arp_run :: "arp_event list \<Rightarrow> stack \<Rightarrow> stack res" where
  "arp_run = for_each arp_do"

text \<open>The pair of addresses that an event tells.\<close>

fun arp_heard :: "netif \<Rightarrow> arp_event \<Rightarrow> (u32 \<times> u8 list) option" where
  "arp_heard n (ArpFrame p) = (if arp_valid p \<and> unicast n (arp_sip p) then Some (arp_sip p, arp_smac p) else None)"
| "arp_heard n (IpFrame p) =
     (let src = be32 (hdr_get 26 4 p)
      in if ip_addr_netcmp src (ip_addr n) (netmask n) \<and> unicast n src then Some (src, hdr_get 6 6 p) else None)"
| "arp_heard n e = None"

fun arp_event_ok :: "arp_event \<Rightarrow> bool" where
  "arp_event_ok (ArpFrame p) = in_mem p"
| "arp_event_ok (IpFrame p) = (pb_payload p + 34 \<le> length (pb_mem p))"
| "arp_event_ok ArpTimer = True"
| "arp_event_ok (Packet p ip) = in_mem p"

definition learns :: "stack \<Rightarrow> u32 \<Rightarrow> u8 list \<Rightarrow> stack \<Rightarrow> bool" where
  "learns st ip mac t \<longleftrightarrow> arp_wf t \<and> the_netif t = the_netif st \<and>
     (\<forall>k v a. arp_map t k = Some (v, a) \<longrightarrow> k = ip \<and> v = mac \<and> a = 0 \<or> k \<noteq> ip \<and> arp_map st k = Some (v, a))"

definition forgets :: "stack \<Rightarrow> stack \<Rightarrow> bool" where
  "forgets st t \<longleftrightarrow> arp_wf t \<and> the_netif t = the_netif st \<and>
     (\<forall>k v a. arp_map t k = Some (v, a) \<longrightarrow> arp_map st k = Some (v, a))"

lemma arp_map_absent:
  assumes "arp_wf st" and "\<And>e. e \<in> set (arp_table st) \<Longrightarrow> active e \<Longrightarrow> arp_ipaddr e \<noteq> ip"
  shows "arp_map st ip = None"
proof -
  have "List.find (\<lambda>e. stable e \<and> arp_ipaddr e = ip) (arp_table st) = None"
    using assms(2) by (auto simp: find_None_iff active_def)
  then show ?thesis by (simp add: arp_map_def)
qed

lemma linked_sel [simp]:
  "arp_wf (t\<lparr>linked := l\<rparr>) = arp_wf t" "arp_map (t\<lparr>linked := l\<rparr>) = arp_map t"
  by (simp_all add: arp_wf_def arp_map_def fun_eq_iff)

lemma learn_at_netif: "the_netif (learn_at i ip mac q st) = the_netif st"
  by (simp add: learn_at_def)

lemma learn_at_learns: "arp_wf st \<Longrightarrow> i < ARP_TABLE_SIZE \<Longrightarrow> unicast (the_netif st) ip \<Longrightarrow> others_off i ip st \<Longrightarrow>
    length mac = 6 \<Longrightarrow> learns st ip mac (learn_at i ip mac q st)"
  unfolding learns_def
  using learn_at_wf[of st i ip mac, where q = q] by (metis (no_types, lifting) learn_at_netif option.inject prod.inject)

lemma update_learns:
  assumes wf: "arp_wf st" and uni: "unicast (the_netif st) ip" and mac: "length mac = 6"
  shows "\<exists>r t. update_arp_entry ip mac flags st = Ok (r, t) \<and> learns st ip mac t"
proof (cases rule: update_arp_entry_cases[OF wf uni mac, of flags, case_names none hit new])
  case none
  then have "learns st ip mac st" using wf arp_map_absent[OF wf none(3)] by (auto simp: learns_def)
  then show ?thesis using none(1) by blast
next
  case (hit i)
  then show ?thesis using learn_at_learns[OF wf hit(2) uni others_off_hit[OF wf hit(2-4)] mac] by blast
next
  case (new i)
  then show ?thesis using learn_at_learns[OF wf new(2) uni others_off_new[OF wf new(3)] mac] by blast
qed

lemma forgets_same: "arp_wf st \<Longrightarrow> arp_table t = arp_table st \<Longrightarrow> the_netif t = the_netif st \<Longrightarrow>
    etharp_cached_entry t < ARP_TABLE_SIZE \<Longrightarrow> forgets st t"
  by (simp add: forgets_def arp_wf_def arp_map_def)

lemma learns_linked: "learns st ip mac t \<Longrightarrow> learns st ip mac (t\<lparr>linked := l\<rparr>)"
  by (simp add: learns_def)

lemma query_forgets:
  assumes wf: "arp_wf st" and q: "frame_ok q"
  shows "\<exists>r t. etharp_query ip q st = Ok (r, t) \<and> forgets st t"
proof (cases "unicast (the_netif st) ip")
  case False
  then have "etharp_query ip q st = Ok (ERR_ARG, st)" by (auto simp: etharp_query_def unicast_def)
  then show ?thesis using wf by (simp add: forgets_def)
next
  case uni: True
  show ?thesis
  proof (cases rule: etharp_query_cases[OF wf uni q, case_names known pending new])
    case (known i)
    then show ?thesis using forgets_same[OF wf, of "st\<lparr>etharp_cached_entry := i, linked := _\<rparr>"] by simp
  next
    case (pending i)
    have "active (arp_table st ! i)" using pending(3) by (simp add: active_def)
    note w = wait_at_wf[OF wf pending(2) arp_wfD(1)[OF wf pending(2)] pending(3,4) others_off_hit[OF wf pending(2) this pending(4)] q]
    then have "forgets st (wait_at i (arp_table st ! i) ip q st)" by (auto simp: forgets_def wait_at_def)
    then show ?thesis using pending(1) by blast
  next
    case (new i)
    have "arp_state (asked ip (arp_table st ! i)) = ETHARP_STATE_PENDING" "arp_ipaddr (asked ip (arp_table st ! i)) = ip"
      by (simp_all add: asked_def)
    note w = wait_at_wf[OF wf new(2) asked_wf[OF arp_wfD(1)[OF wf new(2)] uni] this others_off_new[OF wf new(3)] q]
    then have "forgets st (wait_at i (asked ip (arp_table st ! i)) ip q st)" by (auto simp: forgets_def wait_at_def)
    then show ?thesis using new(1) by blast
  qed
qed

lemma output_forgets:
  assumes wf: "arp_wf st" and q: "in_mem q"
  shows "\<exists>r t. etharp_output q ip st = Ok (r, t) \<and> forgets st t"
proof (cases "14 \<le> pb_payload q")
  case False
  then have "etharp_output q ip st = Ok (ERR_BUF, st)" by (simp add: etharp_output_def pbuf_header_def)
  then show ?thesis using wf by (simp add: forgets_def)
next
  case True
  let ?q = "q\<lparr>pb_payload := pb_payload q - 14, pb_len := pb_len q + 14\<rparr>"
  have h: "pbuf_header q 14 = (False, ?q)" using pbuf_header_up[of 14 q] True by simp
  have ok: "frame_ok ?q" using True q by (simp add: frame_ok_def)
  have hw: "length (hwaddr (the_netif st)) = 6" using wf by (simp add: arp_wf_def)
  have sent: "\<exists>r t. etharp_send_ip ?q (hwaddr (the_netif st)) mac st = Ok (r, t) \<and> forgets st t" if "length mac = 6" for mac
    using etharp_send_ip_Ok[OF ok hw that] wf by (auto simp: arp_wf_def intro!: forgets_same)
  have same: "forgets st st" using wf by (simp add: forgets_def)
  show ?thesis
    unfolding etharp_output_def h Let_def prod.case
    using sent query_forgets[OF wf ok] same by (auto simp: ethbroadcast_def)
qed

lemma arp_input_Ok:
  assumes wf: "arp_wf st" and v: "arp_valid p" and m: "in_mem p"
  shows "\<exists>r t. update_arp_entry (arp_sip p) (arp_smac p) (if arp_for_us (the_netif st) p then ETHARP_TRY_HARD else 0) st = Ok (r, t) \<and>
    etharp_arp_input p st = Ok (if arp_op p = ARP_REQUEST \<and> arp_for_us (the_netif st) p
      then t\<lparr>linked := linked t @ [arp_answer (the_netif st) p]\<rparr> else t) \<and>
    (if unicast (the_netif st) (arp_sip p) then learns st (arp_sip p) (arp_smac p) t else t = st)"
proof -
  have mac: "length (arp_smac p) = 6" using v m by (simp add: arp_valid_def)
  obtain r t where u: "update_arp_entry (arp_sip p) (arp_smac p) (if arp_for_us (the_netif st) p then ETHARP_TRY_HARD else 0) st = Ok (r, t)"
      "if unicast (the_netif st) (arp_sip p) then learns st (arp_sip p) (arp_smac p) t else t = st"
    using update_learns[OF wf _ mac] update_arp_entry_other[of st] by (cases "unicast (the_netif st) (arp_sip p)") fastforce+
  then have n: "the_netif t = the_netif st" "length (hwaddr (the_netif t)) = 6"
    using wf by (auto simp: learns_def arp_wf_def split: if_splits)
  note sent = arp_answer_sent[OF v m n(2), of "ip_addr (the_netif t)" t]
  have "etharp_arp_input p st = Ok (if arp_op p = ARP_REQUEST \<and> arp_for_us (the_netif st) p
      then t\<lparr>linked := linked t @ [arp_answer (the_netif st) p]\<rparr> else t)"
    using v m u(1) n sent unfolding etharp_arp_input_def
    by (simp add: arp_valid_def struct_in_def arp_for_us_def[symmetric] arp_answer_def Let_def)
  then show ?thesis using u by blast
qed

lemma ip_input_Ok:
  assumes wf: "arp_wf st" and m: "pb_payload p + 34 \<le> length (pb_mem p)"
  shows "\<exists>t. etharp_ip_input p st = Ok t \<and>
    (if ip_addr_netcmp (be32 (hdr_get 26 4 p)) (ip_addr (the_netif st)) (netmask (the_netif st)) \<and>
        unicast (the_netif st) (be32 (hdr_get 26 4 p))
     then learns st (be32 (hdr_get 26 4 p)) (hdr_get 6 6 p) t else t = st)"
proof -
  let ?src = "be32 (hdr_get 26 4 p)" and ?mac = "hdr_get 6 6 p" and ?n = "the_netif st"
  have mac: "length ?mac = 6" using m by simp
  have run: "etharp_ip_input p st = (if \<not> ip_addr_netcmp ?src (ip_addr ?n) (netmask ?n) then Ok st
      else bnd (update_arp_entry ?src ?mac 0 st) (\<lambda>(_, st). Ok st))"
    using m by (simp add: etharp_ip_input_def struct_in_def Let_def)
  show ?thesis
  proof (cases "unicast ?n ?src")
    case True
    then obtain r t where "update_arp_entry ?src ?mac 0 st = Ok (r, t)" "learns st ?src ?mac t"
      using update_learns[OF wf _ mac] by blast
    then show ?thesis using run True by simp
  next
    case False
    then show ?thesis using run update_arp_entry_other[OF False] by simp
  qed
qed

section \<open>What the table promises\<close>

interpretation arpcache: addr_cache arp_map arp_do "arp_heard n" "\<lambda>e. e = ArpTimer" "\<lambda>st. arp_wf st \<and> the_netif st = n" arp_event_ok
  for n
proof unfold_locales
  fix c e assume c: "arp_wf c \<and> the_netif c = n" and e: "arp_event_ok e"
  have wf: "arp_wf c" and n: "the_netif c = n" using c by simp_all
  let ?told = "\<lambda>d. arp_wf d \<and> the_netif d = n \<and> (\<forall>k v a. arp_map d k = Some (v, a) \<longrightarrow>
    arp_heard n e = Some (k, v) \<and> a = 0 \<or>
    (\<forall>u. arp_heard n e \<noteq> Some (k, u)) \<and> (\<exists>b. arp_map c k = Some (v, b) \<and> a = b + of_bool (e = ArpTimer)))"
  have "\<exists>d. arp_do e c = Ok d \<and> ?told d"
  proof (cases e)
    case (ArpFrame p)
    show ?thesis
    proof (cases "arp_valid p")
      case True
      then show ?thesis using arp_input_Ok[OF wf True] e n ArpFrame wf
        by (fastforce simp: learns_def split: if_splits)
    next
      case False
      then have "etharp_arp_input p c = Ok c"
        using e ArpFrame by (auto simp: etharp_arp_input_def arp_valid_def struct_in_def)
      then show ?thesis using False ArpFrame n wf by simp
    qed
  next
    case (IpFrame p)
    then obtain t where "etharp_ip_input p c = Ok t"
        "if ip_addr_netcmp (be32 (hdr_get 26 4 p)) (ip_addr n) (netmask n) \<and> unicast n (be32 (hdr_get 26 4 p))
         then learns c (be32 (hdr_get 26 4 p)) (hdr_get 6 6 p) t else t = c"
      using ip_input_Ok[OF wf] e n by auto
    then show ?thesis using IpFrame n wf by (auto simp: learns_def Let_def split: if_splits)
  next
    case ArpTimer
    then show ?thesis using arp_timer_wf[OF wf] n by (auto simp: arp_timer_def split: option.splits if_splits)
  next
    case (Packet p ip)
    then show ?thesis using output_forgets[OF wf, of p ip] e n by (fastforce simp: forgets_def)
  qed
  then obtain d where d: "arp_do e c = Ok d" "?told d" by blast
  then show "\<exists>d. arp_do e c = Ok d \<and> arp_wf d \<and> the_netif d = n" by blast
  show "arp_heard n e = Some (k, v) \<and> a = 0 \<or>
      (\<forall>u. arp_heard n e \<noteq> Some (k, u)) \<and> (\<exists>b. arp_map c k = Some (v, b) \<and> a = b + of_bool (e = ArpTimer))"
    if "arp_do e c = Ok t" "arp_map t k = Some (v, a)" for t k v a
    using d that by auto
qed

lemma query_known:
  assumes wf: "arp_wf st" and uni: "unicast (the_netif st) ip" and q: "frame_ok q" and known: "arp_map st ip = Some (mac, a)"
  shows "\<exists>i < ARP_TABLE_SIZE. etharp_query ip q st = Ok (ERR_OK, st\<lparr>etharp_cached_entry := i,
    linked := linked st @ [eth_framed (hwaddr (the_netif st)) mac q]\<rparr>)"
proof -
  have one: "single (arp_table st)" "length (arp_table st) = ARP_TABLE_SIZE" using wf by (simp_all add: arp_wf_def)
  obtain i where i: "i < ARP_TABLE_SIZE" "stable (arp_table st ! i)" "arp_ipaddr (arp_table st ! i) = ip"
      "mac = arp_ethaddr (arp_table st ! i)"
    using known arp_map_iff[OF one(1)] one(2) by auto
  have only: "j = i" if "j < ARP_TABLE_SIZE" "active (arp_table st ! j)" "arp_ipaddr (arp_table st ! j) = ip" for j
    using singleD[OF one(1), of j i] that i one(2) by (simp add: active_def)
  show ?thesis
  proof (cases rule: etharp_query_cases[OF wf uni q, case_names known pending new])
    case (known j)
    then have "j = i" by (intro only) (simp_all add: active_def)
    then show ?thesis using known(1) i by blast
  next
    case (pending j)
    then show ?thesis using only[of j] i by (simp add: active_def)
  next
    case (new j)
    then show ?thesis using i one(2) by (metis active_def etharp_state.distinct(3) nth_mem)
  qed
qed

text \<open>The packets that wait for an address.\<close>

definition arp_waiting :: "stack \<Rightarrow> u32 \<Rightarrow> pbuf list" where
  "arp_waiting st ip =
     (case List.find (\<lambda>e. active e \<and> arp_ipaddr e = ip) (arp_table st) of None \<Rightarrow> [] | Some e \<Rightarrow> arp_q e)"

lemma waiting_at:
  assumes "single (arp_table st)" and i: "i < length (arp_table st)" "active (arp_table st ! i)" "arp_ipaddr (arp_table st ! i) = ip"
  shows "arp_waiting st ip = arp_q (arp_table st ! i)"
proof -
  have "\<not> (active (arp_table st ! j) \<and> arp_ipaddr (arp_table st ! j) = ip)" if "j < i" for j
    using that i singleD[OF assms(1), of j i] by auto
  then have "List.find (\<lambda>e. active e \<and> arp_ipaddr e = ip) (arp_table st) = Some (arp_table st ! i)"
    unfolding find_Some_iff using i by blast
  then show ?thesis by (simp add: arp_waiting_def)
qed

lemma waiting_absent:
  assumes "\<And>e. e \<in> set (arp_table st) \<Longrightarrow> active e \<Longrightarrow> arp_ipaddr e \<noteq> ip"
  shows "arp_waiting st ip = []"
proof -
  have "List.find (\<lambda>e. active e \<and> arp_ipaddr e = ip) (arp_table st) = None" using assms by (auto simp: find_None_iff)
  then show ?thesis by (simp add: arp_waiting_def)
qed

text \<open>An ARP frame for this board teaches its sender and sends what waits for it.\<close>

lemma heard_for_us:
  assumes wf: "arp_wf st" and uni: "unicast (the_netif st) ip" and mac: "length mac = 6"
  shows "\<exists>t. update_arp_entry ip mac ETHARP_TRY_HARD st = Ok (ERR_OK, t) \<and> arp_wf t \<and> the_netif t = the_netif st \<and>
    arp_map t ip = Some (mac, 0) \<and>
    linked t = linked st @ map (eth_framed (hwaddr (the_netif st)) mac) (arp_waiting st ip)"
proof (cases rule: update_arp_entry_cases[OF wf uni mac, of ETHARP_TRY_HARD, case_names none hit new])
  case none
  then show ?thesis by (simp add: ETHARP_TRY_HARD_def ETHARP_FIND_ONLY_def)
next
  case (hit i)
  have "arp_waiting st ip = arp_q (arp_table st ! i)" using wf hit(2-4) by (intro waiting_at) (simp_all add: arp_wf_def)
  then show ?thesis
    using hit(1) learn_at_wf(1,2)[OF wf hit(2) uni others_off_hit[OF wf hit(2-4)] mac] by (auto simp: learn_at_def)
next
  case (new i)
  then show ?thesis
    using waiting_absent[OF new(3)] learn_at_wf(1,2)[OF wf new(2) uni others_off_new[OF wf new(3)] mac]
    by (auto simp: learn_at_def)
qed

text \<open>The fields of a frame that begins with a request or an answer.\<close>

lemma arp_packet_fields:
  assumes b: "take 42 (pb_bytes p) = arp_packet opcode dst src hw sip hwdst tip" and m: "in_mem p"
    and len: "length dst = 6" "length src = 6" "length hw = 6" "length hwdst = 6"
  shows "arp_valid p" "arp_sip p = sip" "arp_smac p = hw" "arp_op p = opcode" "be32 (hdr_get 38 4 p) = tip"
proof -
  have "length (take 42 (pb_bytes p)) = 42" unfolding b using len by (rule length_arp_packet)
  then have l: "42 \<le> pb_len p" using m by simp
  have get: "hdr_get i n p = take n (drop i (arp_packet opcode dst src hw sip hwdst tip))" if "i + n \<le> 42" for i n
    using that l hdr_get_bytes[of i n p] by (simp add: b[symmetric] drop_take min_def)
  show "arp_valid p" "arp_sip p = sip" "arp_smac p = hw" "arp_op p = opcode" "be32 (hdr_get 38 4 p) = tip"
    using l len by (simp_all add: arp_valid_def get arp_packet_def)
qed

text \<open>
  C33.  Whatever frames arrive, whatever packets are sent and however the timer runs, the table makes
  nothing up: what it holds for an address is what the last frame from that address told, less than 240
  ticks (20 minutes) ago, and a packet goes out to exactly that Ethernet address.
\<close>

theorem arp_address_current:
  assumes "arp_wf st" and "list_all arp_event_ok es" and "arp_run es st = Ok t"
    and "arp_map st ip = None" and "arp_map t ip = Some (mac, age)"
    and "frame_ok q" and "unicast (the_netif st) ip"
  shows "(\<exists>fs e gs. es = fs @ e # gs \<and> arp_heard (the_netif st) e = Some (ip, mac) \<and>
      (\<forall>g \<in> set gs. \<forall>mac'. arp_heard (the_netif st) g \<noteq> Some (ip, mac')) \<and>
      age = length (filter (\<lambda>e. e = ArpTimer) gs)) \<and> age < 240 \<and>
    (\<exists>u. etharp_query ip q t = Ok (ERR_OK, u) \<and> linked u = linked t @ [eth_framed (hwaddr (the_netif st)) mac q])"
proof -
  have run: "for_each arp_do es st = Ok t" using assms(3) by (simp add: arp_run_def)
  have st: "arp_wf st \<and> the_netif st = the_netif st" using assms(1) by simp
  have t: "arp_wf t" "the_netif t = the_netif st"
    using arpcache.run_ok[OF st assms(2)] run by auto
  have "single (arp_table t)" "length (arp_table t) = ARP_TABLE_SIZE" using t(1) by (simp_all add: arp_wf_def)
  then obtain i where "i < ARP_TABLE_SIZE" "stable (arp_table t ! i)" "age = unat (arp_ctime (arp_table t ! i))"
    using assms(5) arp_map_iff by auto
  then have age: "age < 240" using arp_wfD(1)[OF t(1)] by (simp add: entry_wf_def ARP_MAXAGE_def word_less_nat_alt)
  have "\<exists>u. etharp_query ip q t = Ok (ERR_OK, u) \<and> linked u = linked t @ [eth_framed (hwaddr (the_netif st)) mac q]"
    using query_known[OF t(1) _ assms(6,5)] assms(7) t(2) by auto
  then show ?thesis using arpcache.look_last[OF st assms(2) run assms(4,5)] age by blast
qed

text \<open>
  A request for the address of the board is answered to the one who asked, with the board's Ethernet
  address, after the packets that wait for the asker have been sent to it; and the asker is known then.
\<close>

theorem arp_request_answered:
  assumes "arp_wf st" and "in_mem p" and "length mac = 6" and "length dst = 6" and "length src = 6" and "length tmac = 6"
    and "take 42 (pb_bytes p) = arp_packet ARP_REQUEST dst src mac sip tmac (ip_addr (the_netif st))"
    and "ip_addr (the_netif st) \<noteq> 0" and "unicast (the_netif st) sip"
  shows "\<exists>t. etharp_arp_input p st = Ok t \<and> arp_wf t \<and> arp_map t sip = Some (mac, 0) \<and>
    linked t = linked st @ map (eth_framed (hwaddr (the_netif st)) mac) (arp_waiting st sip) @
      [(arp_packet ARP_REPLY mac (hwaddr (the_netif st)) (hwaddr (the_netif st)) (ip_addr (the_netif st)) mac sip @
        drop 42 (pb_bytes p)) # pb_next p]"
proof -
  note f = arp_packet_fields[OF assms(7,2,4,5,3,6)]
  have us: "arp_for_us (the_netif st) p" using f(5) assms(8) by (simp add: arp_for_us_def)
  obtain t where t: "update_arp_entry sip mac ETHARP_TRY_HARD st = Ok (ERR_OK, t)" "arp_wf t" "arp_map t sip = Some (mac, 0)"
      "linked t = linked st @ map (eth_framed (hwaddr (the_netif st)) mac) (arp_waiting st sip)"
    using heard_for_us[OF assms(1,9,3)] by blast
  then show ?thesis using arp_input_Ok[OF assms(1) f(1) assms(2)] us f(2-4) by (auto simp: arp_answer_def)
qed

text \<open>A packet for an unknown address asks for it and waits, as far as there is memory.\<close>

lemma asked_and_waits:
  assumes wf: "arp_wf st" and uni: "unicast (the_netif st) ip" and q: "frame_ok q" and unknown: "arp_map st ip = None"
  shows "\<exists>t. etharp_query ip q st = Ok (wait_result st, t) \<and> arp_wf t \<and> the_netif t = the_netif st \<and>
    arp_waiting t ip = arp_waiting st ip @ queued_copy st q \<and>
    linked t = linked st @ (if mem_ok st (mems st) then [request_of (the_netif st) ip] else [])"
proof -
  have one: "single (arp_table st)" "length (arp_table st) = ARP_TABLE_SIZE" using wf by (simp_all add: arp_wf_def)
  have there: "arp_waiting (wait_at i e ip q st) ip = arp_q e @ queued_copy st q"
    if "i < ARP_TABLE_SIZE" "arp_state e = ETHARP_STATE_PENDING" "arp_ipaddr e = ip" "arp_wf (wait_at i e ip q st)" for i e
  proof -
    have "arp_waiting (wait_at i e ip q st) ip = arp_q (arp_table (wait_at i e ip q st) ! i)"
      using that one by (intro waiting_at) (simp_all add: arp_wf_def wait_at_def active_def)
    then show ?thesis using that one by (simp add: wait_at_def)
  qed
  show ?thesis
  proof (cases rule: etharp_query_cases[OF wf uni q, case_names known pending new])
    case (known i)
    then have "arp_map st ip = Some (arp_ethaddr (arp_table st ! i), unat (arp_ctime (arp_table st ! i)))"
      using one by (auto simp: arp_map_iff)
    then show ?thesis using unknown by simp
  next
    case (pending i)
    have a: "active (arp_table st ! i)" using pending(3) by (simp add: active_def)
    have w: "arp_wf (wait_at i (arp_table st ! i) ip q st)"
      using wait_at_wf(1)[OF wf pending(2) arp_wfD(1)[OF wf pending(2)] pending(3,4) others_off_hit[OF wf pending(2) a pending(4)] q] .
    have "arp_waiting st ip = arp_q (arp_table st ! i)" using one a pending(2,4) by (intro waiting_at) simp_all
    then show ?thesis using pending(1) there[OF pending(2-4) w] w by (simp add: wait_at_def)
  next
    case (new i)
    let ?e = "asked ip (arp_table st ! i)"
    have e: "arp_state ?e = ETHARP_STATE_PENDING" "arp_ipaddr ?e = ip" "arp_q ?e = []" by (simp_all add: asked_def)
    have w: "arp_wf (wait_at i ?e ip q st)"
      using wait_at_wf(1)[OF wf new(2) asked_wf[OF arp_wfD(1)[OF wf new(2)] uni] e(1,2) others_off_new[OF wf new(3)] q] .
    have "arp_waiting st ip = []" using waiting_absent[of st ip] new(3) by blast
    then show ?thesis using new(1) there[OF new(2) e(1,2) w] w e(3) by (simp add: wait_at_def)
  qed
qed

text \<open>
  C34.  A packet for a station of the local network whose Ethernet address is not known asks for it with a
  broadcast and is kept; when the station answers, the packets that waited for it go out to it in their order,
  the new one last, every byte of it behind an Ethernet header with the address that was told.
\<close>

theorem packet_waits_for_answer:
  assumes "arp_wf st" and "in_mem p" and "14 \<le> pb_payload p" and "unicast (the_netif st) ip"
    and "ip_addr_netcmp ip (ip_addr (the_netif st)) (netmask (the_netif st))" and "arp_map st ip = None"
    and "\<forall>k. mem_ok st k" and "ip_addr (the_netif st) \<noteq> 0"
    and "in_mem r" and "take 42 (pb_bytes r) = arp_packet ARP_REPLY dst src mac ip tmac (ip_addr (the_netif st))"
    and "length mac = 6" and "length dst = 6" and "length src = 6" and "length tmac = 6"
  shows "\<exists>t u. etharp_output p ip st = Ok (ERR_OK, t) \<and> linked t = linked st @ [request_of (the_netif st) ip] \<and>
    etharp_arp_input r t = Ok u \<and> arp_map u ip = Some (mac, 0) \<and>
    linked u = linked t @ map (eth_framed (hwaddr (the_netif st)) mac) (arp_waiting st ip) @
      [[mac @ hwaddr (the_netif st) @ bytes16 ETHTYPE_IP @ concat (pb_links p)]]"
proof -
  let ?q = "p\<lparr>pb_payload := pb_payload p - 14, pb_len := pb_len p + 14\<rparr>" and ?n = "the_netif st"
  have q: "frame_ok ?q" "in_mem ?q" using assms(2,3) by (simp_all add: frame_ok_def)
  have "etharp_output p ip st = etharp_query ip ?q st"
    using assms(4,5) pbuf_header_up[of 14 p] assms(3) by (simp add: etharp_output_def unicast_def)
  moreover obtain t where t: "etharp_query ip ?q st = Ok (wait_result st, t)" "arp_wf t" "the_netif t = ?n"
      "arp_waiting t ip = arp_waiting st ip @ [pbuf_copied 0 ?q]" "linked t = linked st @ [request_of ?n ip]"
    using asked_and_waits[OF assms(1,4) q(1) assms(6)] assms(7) by (auto simp: queued_copy_def)
  ultimately have out: "etharp_output p ip st = Ok (ERR_OK, t)" using assms(7) by (simp add: wait_result_def)
  note f = arp_packet_fields[OF assms(10,9,12,13,11,14)]
  have us: "arp_for_us (the_netif t) r" using f(5) assms(8) t(3) by (simp add: arp_for_us_def)
  obtain u where u: "update_arp_entry ip mac ETHARP_TRY_HARD t = Ok (ERR_OK, u)" "arp_map u ip = Some (mac, 0)"
      "linked u = linked t @ map (eth_framed (hwaddr ?n) mac) (arp_waiting t ip)"
    using heard_for_us[OF t(2) _ assms(11), of ip] assms(4) t(3) by auto
  have "etharp_arp_input r t = Ok u"
    using arp_input_Ok[OF t(2) f(1) assms(9)] us f(2-4) u(1) by (simp add: ARP_REPLY_def ARP_REQUEST_def)
  moreover have "drop 14 (concat (pb_links ?q)) = concat (pb_links p)"
    using assms(2,3) by (simp add: pb_links_def pb_bytes_def drop_take)
  then have "eth_framed (hwaddr ?n) mac (pbuf_copied 0 ?q) = [mac @ hwaddr ?n @ bytes16 ETHTYPE_IP @ concat (pb_links p)]"
    using pbuf_copied_wf(3,4)[OF q(2), of 0] by (simp add: eth_framed_def)
  ultimately show ?thesis using out t(4,5) u(2,3) by auto
qed

text \<open>
  When there is memory for the request but not for the copy of the packet or for its place in the queue,
  the packet is lost, and the result says that all is well.
\<close>

theorem query_loses_packet:
  assumes "arp_wf st" and "unicast (the_netif st) ip" and "frame_ok q" and "arp_map st ip = None"
    and "mem_ok st (mems st)" and "\<not> mem_ok st (mems st + 1) \<or> \<not> mem_ok st (mems st + 2)"
  shows "\<exists>t. etharp_query ip q st = Ok (ERR_OK, t) \<and> arp_waiting t ip = arp_waiting st ip \<and>
    linked t = linked st @ [request_of (the_netif st) ip]"
  using asked_and_waits[OF assms(1-4)] assms(5,6) by (auto simp: wait_result_def queued_copy_def)

section \<open>Witnesses\<close>

definition no_entry :: etharp_entry where
  "no_entry = \<lparr>arp_q = [], arp_ipaddr = 0, arp_ethaddr = [0, 0, 0, 0, 0, 0], arp_state = ETHARP_STATE_EMPTY, arp_ctime = 0\<rparr>"

definition bench_netif :: netif where
  "bench_netif = \<lparr>ip_addr = 0xC0A8012C, netmask = 0xFFFFFF00, gw = 0xC0A80101, hwaddr = [2, 0, 0, 0, 0, 1], nif_flags = 0x33, mtu = 1500\<rparr>"

definition net_bench :: "(nat \<Rightarrow> bool) \<Rightarrow> stack" where
  "net_bench ok = \<lparr>the_netif = bench_netif, arp_table = replicate 10 no_entry, etharp_cached_entry = 0,
     pcbs = (\<lambda>_. \<lparr>local_ip = 0, remote_ip = 0, local_port = 0, remote_port = 0, pcb_connected = False, pcb_ttl = 0, pcb_recv = None\<rparr>),
     udp_pcbs = [], ip_id = 0, linked = [], mem_ok = ok, mems = 0, frag_out = [], reass_in = []\<rparr>"

definition wire_pbuf :: "u8 list \<Rightarrow> pbuf" where
  "wire_pbuf bs = \<lparr>pb_mem = bs, pb_payload = 0, pb_len = length bs, pb_next = []\<rparr>"

definition pc_mac :: "u8 list" where "pc_mac = [2, 0, 0, 0, 0, 9]"
definition pc_ip :: u32 where "pc_ip = 0xC0A80102"

lemma net_bench_wf: "arp_wf (net_bench ok)"
  by (auto simp: arp_wf_def net_bench_def bench_netif_def ARP_TABLE_SIZE_def entry_wf_def no_entry_def active_def single_def)

lemma net_bench_sel [simp]:
  "the_netif (net_bench ok) = bench_netif" "linked (net_bench ok) = []" "mem_ok (net_bench ok) = ok" "mems (net_bench ok) = 0"
  by (simp_all add: net_bench_def)

lemma net_bench_map: "arp_map (net_bench ok) ip = None"
  by (intro arp_map_absent[OF net_bench_wf]) (simp add: net_bench_def no_entry_def active_def)

lemma pc_unicast: "unicast bench_netif pc_ip"
  by (simp add: unicast_def bench_netif_def pc_ip_def ip_addr_isany_def ip_addr_isbroadcast_def ip_addr_ismulticast_def
      ip_addr_netcmp_def NETIF_FLAG_BROADCAST_def)

lemma query_loses_packet_witness:
  "\<exists>t. etharp_query pc_ip (wire_pbuf (replicate 20 0)) (net_bench (\<lambda>k. k = 0)) = Ok (ERR_OK, t) \<and>
     arp_waiting t pc_ip = arp_waiting (net_bench (\<lambda>k. k = 0)) pc_ip \<and> linked t = [request_of bench_netif pc_ip]"
  using query_loses_packet[OF net_bench_wf _ _ net_bench_map, of "\<lambda>k. k = 0" pc_ip "wire_pbuf (replicate 20 0)"] pc_unicast
  by (simp add: frame_ok_def wire_pbuf_def)

definition pc_reply :: pbuf where
  "pc_reply = wire_pbuf (arp_packet ARP_REPLY (hwaddr bench_netif) pc_mac pc_mac pc_ip (hwaddr bench_netif) (ip_addr bench_netif))"

definition bench_packet :: pbuf where
  "bench_packet = \<lparr>pb_mem = replicate 14 0 @ [1, 2, 3], pb_payload = 14, pb_len = 3, pb_next = []\<rparr>"

lemma net_bench_waiting: "arp_waiting (net_bench ok) ip = []"
  by (rule waiting_absent) (simp add: net_bench_def no_entry_def active_def)

lemma bench_lengths: "length (hwaddr bench_netif) = 6" "length pc_mac = 6" "length ethbroadcast = 6" "length ethzero = 6"
  by (simp_all add: bench_netif_def pc_mac_def ethbroadcast_def ethzero_def)

lemma packet_waits_for_answer_witness:
  "\<exists>t u. etharp_output bench_packet pc_ip (net_bench (\<lambda>_. True)) = Ok (ERR_OK, t) \<and> linked t = [request_of bench_netif pc_ip] \<and>
    etharp_arp_input pc_reply t = Ok u \<and> arp_map u pc_ip = Some (pc_mac, 0) \<and>
    linked u = linked t @ [[pc_mac @ hwaddr bench_netif @ bytes16 ETHTYPE_IP @ [1, 2, 3]]]"
proof -
  have net: "ip_addr_netcmp pc_ip (ip_addr bench_netif) (netmask bench_netif)" "ip_addr bench_netif \<noteq> 0"
    by (simp_all add: ip_addr_netcmp_def pc_ip_def bench_netif_def)
  have p: "in_mem bench_packet" "14 \<le> pb_payload bench_packet" "concat (pb_links bench_packet) = [1, 2, 3]"
    by (simp_all add: bench_packet_def pb_links_def pb_bytes_def)
  have r: "in_mem pc_reply" "take 42 (pb_bytes pc_reply) =
      arp_packet ARP_REPLY (hwaddr bench_netif) pc_mac pc_mac pc_ip (hwaddr bench_netif) (ip_addr bench_netif)"
    by (simp_all add: pc_reply_def wire_pbuf_def pb_bytes_def length_arp_packet bench_lengths)
  show ?thesis
    using packet_waits_for_answer[OF net_bench_wf p(1,2), of "\<lambda>_. True" pc_ip pc_reply, unfolded net_bench_sel,
        OF pc_unicast net(1) net_bench_map _ net(2) r bench_lengths(2,1,2,1)] p(3)
    by (simp add: net_bench_waiting)
qed

definition pc_request :: pbuf where
  "pc_request = wire_pbuf (arp_packet ARP_REQUEST ethbroadcast pc_mac pc_mac pc_ip ethzero (ip_addr bench_netif) @ replicate 18 0)"

lemma arp_request_answered_witness:
  "\<exists>t. etharp_arp_input pc_request (net_bench (\<lambda>_. True)) = Ok t \<and> arp_wf t \<and> arp_map t pc_ip = Some (pc_mac, 0) \<and>
    linked t = [[arp_packet ARP_REPLY pc_mac (hwaddr bench_netif) (hwaddr bench_netif) (ip_addr bench_netif) pc_mac pc_ip @
      replicate 18 0]]"
proof -
  have b: "pb_bytes pc_request = arp_packet ARP_REQUEST ethbroadcast pc_mac pc_mac pc_ip ethzero (ip_addr bench_netif) @ replicate 18 0"
    "in_mem pc_request" "pb_next pc_request = []"
    by (simp_all add: pc_request_def wire_pbuf_def pb_bytes_def)
  have "ip_addr bench_netif \<noteq> 0" by (simp add: bench_netif_def)
  then show ?thesis
    using arp_request_answered[OF net_bench_wf b(2) bench_lengths(2,3,2,4), of pc_ip "\<lambda>_. True", unfolded net_bench_sel] pc_unicast
    by (simp add: b net_bench_waiting length_arp_packet bench_lengths)
qed

lemma pc_request_heard:
  "arp_heard bench_netif (ArpFrame pc_request) = Some (pc_ip, pc_mac)" "arp_valid pc_request" "in_mem pc_request"
proof -
  have b: "take 42 (pb_bytes pc_request) = arp_packet ARP_REQUEST ethbroadcast pc_mac pc_mac pc_ip ethzero (ip_addr bench_netif)"
    "in_mem pc_request"
    by (simp_all add: pc_request_def wire_pbuf_def pb_bytes_def length_arp_packet bench_lengths)
  note f = arp_packet_fields[OF b bench_lengths(3,2,2,4)]
  show "arp_heard bench_netif (ArpFrame pc_request) = Some (pc_ip, pc_mac)" using f(1-3) pc_unicast by simp
  show "arp_valid pc_request" by (rule f(1))
  show "in_mem pc_request" by (rule b(2))
qed

lemma arp_address_current_witness:
  "\<exists>t. arp_run [ArpFrame pc_request, ArpTimer] (net_bench (\<lambda>_. True)) = Ok t \<and>
     (\<exists>fs e gs. [ArpFrame pc_request, ArpTimer] = fs @ e # gs \<and> arp_heard bench_netif e = Some (pc_ip, pc_mac) \<and>
        (\<forall>g \<in> set gs. \<forall>mac. arp_heard bench_netif g \<noteq> Some (pc_ip, mac)) \<and> 1 = length (filter (\<lambda>e. e = ArpTimer) gs)) \<and>
     (\<exists>u. etharp_query pc_ip (wire_pbuf (replicate 20 0)) t = Ok (ERR_OK, u) \<and>
        linked u = linked t @ [eth_framed (hwaddr bench_netif) pc_mac (wire_pbuf (replicate 20 0))])"
proof -
  let ?st = "net_bench (\<lambda>_. True)"
  have f: "take 42 (pb_bytes pc_request) = arp_packet ARP_REQUEST ethbroadcast pc_mac pc_mac pc_ip ethzero (ip_addr bench_netif)"
    by (simp add: pc_request_def wire_pbuf_def pb_bytes_def length_arp_packet bench_lengths)
  note f = arp_packet_fields[OF f pc_request_heard(3) bench_lengths(3,2,2,4)]
  have us: "arp_for_us bench_netif pc_request" using f(5) by (simp add: arp_for_us_def bench_netif_def)
  obtain t where t: "etharp_arp_input pc_request ?st = Ok t" "arp_wf t" "arp_map t pc_ip = Some (pc_mac, 0)"
    using arp_input_Ok[OF net_bench_wf f(1) pc_request_heard(3), of "\<lambda>_. True"] us f(2,3) pc_unicast
      heard_for_us[OF net_bench_wf, of "\<lambda>_. True" pc_ip pc_mac] bench_lengths(2)
    by (auto simp: learns_def)
  have run: "arp_run [ArpFrame pc_request, ArpTimer] ?st = Ok (arp_timer t)" "arp_map (arp_timer t) pc_ip = Some (pc_mac, 1)"
    using t arp_timer_wf(2)[OF t(2), of pc_ip] by (simp_all add: arp_run_def)
  have ok: "list_all arp_event_ok [ArpFrame pc_request, ArpTimer]" using pc_request_heard(3) by simp
  have q: "frame_ok (wire_pbuf (replicate 20 0))" by (simp add: frame_ok_def wire_pbuf_def)
  show ?thesis
    using arp_address_current[OF net_bench_wf ok run(1) net_bench_map run(2)] run(1) q pc_unicast by auto
qed

end
