(* ===== verification/Net_Ip.thy ===== *)
theory Net_Ip
  imports Net_Arp_Cache
begin

text \<open>
  Datagrams: the checksum (\<^verbatim>\<open>inet_chksum.c\<close>), sending and receiving of IP packets (\<^verbatim>\<open>ip.c\<close>), UDP (\<^verbatim>\<open>udp.c\<close>),
  ICMP (\<^verbatim>\<open>icmp.c\<close>), and the dispatch of received frames (\<open>ethernet_input\<close>), in the configuration of \<^verbatim>\<open>lwipopts.h\<close>:
  no TCP, no DHCP, no IGMP, no UDP-Lite, no forwarding, and checksums of IP and UDP left to the hardware.

  There is one interface, and no raw control block.  The callback of a control block is not called here: a
  datagram that reaches it is the value \<open>Delivery\<close>.  The code for fragments is not modelled: what is given to it
  is kept in the state, and \<open>ip_deliver\<close> is the rest of \<open>ip_input\<close>, for a packet in one piece.
\<close>

section \<open>The checksum\<close>

definition htons :: "u16 \<Rightarrow> u16" where
  "htons w = push_bit 8 w OR drop_bit 8 w"

fun chksum_words :: "u8 list \<Rightarrow> u32 \<Rightarrow> u32" where
  "chksum_words (a # b # bs) acc = chksum_words bs (acc + ucast (push_bit 8 (ucast a :: u16) OR ucast b))"
| "chksum_words [a] acc = acc + ucast (push_bit 8 (ucast a :: u16))"
| "chksum_words [] acc = acc"

definition FOLD_U32T :: "u32 \<Rightarrow> u32" where
  "FOLD_U32T u = drop_bit 16 u + (u AND 0xFFFF)"

definition lwip_standard_chksum :: "u8 list \<Rightarrow> u16" where
  "lwip_standard_chksum bs =
     (let acc = chksum_words bs 0;
          acc = FOLD_U32T acc;
          acc = (if acc AND 0xFFFF0000 \<noteq> 0 then FOLD_U32T acc else acc)
      in htons (ucast acc))"

definition inet_chksum :: "u8 list \<Rightarrow> u16" where
  "inet_chksum bs = NOT (lwip_standard_chksum bs)"

definition SWAP_BYTES_IN_WORD :: "u32 \<Rightarrow> u32" where
  "SWAP_BYTES_IN_WORD w = push_bit 8 (w AND 0xFF) OR drop_bit 8 (w AND 0xFF00)"

fun chksum_links :: "u8 list list \<Rightarrow> u32 \<Rightarrow> bool \<Rightarrow> u32 \<times> bool" where
  "chksum_links [] acc swapped = (acc, swapped)"
| "chksum_links (q # qs) acc swapped =
     (let acc = FOLD_U32T (acc + ucast (lwip_standard_chksum q))
      in if length q mod 2 \<noteq> 0 then chksum_links qs (SWAP_BYTES_IN_WORD acc) (\<not> swapped) else chksum_links qs acc swapped)"

definition inet_chksum_pbuf :: "pbuf \<Rightarrow> u16" where
  "inet_chksum_pbuf p =
     (let (acc, swapped) = chksum_links (pb_links p) 0 False;
          acc = (if swapped then SWAP_BYTES_IN_WORD acc else acc)
      in NOT (ucast (acc AND 0xFFFF)))"

section \<open>Sending IP packets\<close>

definition IP_PROTO_ICMP :: u8 where "IP_PROTO_ICMP = 1"
definition IP_PROTO_UDP :: u8 where "IP_PROTO_UDP = 17"
definition UDP_TTL :: u8 where "UDP_TTL = 255"
definition ICMP_TTL :: u8 where "ICMP_TTL = 255"

text \<open>Whether there is an interface for the address: the only one, as a match or as the default.\<close>

definition ip_route :: "u32 \<Rightarrow> stack \<Rightarrow> bool" where
  "ip_route dest st \<longleftrightarrow>
     (if netif_is_up (the_netif st) \<and> ip_addr_netcmp dest (ip_addr (the_netif st)) (netmask (the_netif st)) then True
      else netif_is_up (the_netif st))"

text \<open>The end of \<open>ip_output_if\<close>: a packet that is too long goes to the code for fragments.\<close>

definition ip_send :: "pbuf \<Rightarrow> u32 \<Rightarrow> stack \<Rightarrow> (err \<times> stack) res" where
  "ip_send p dest st =
     (if mtu (the_netif st) \<noteq> 0 \<and> unat (mtu (the_netif st)) < tot_len p
      then Ok (ERR_OK, st\<lparr>frag_out := frag_out st @ [(p, dest)]\<rparr>)
      else etharp_output p dest st)"

text \<open>The bytes of the header with the time to live and the protocol are one half word of the structure.\<close>

definition ip_output_if :: "pbuf \<Rightarrow> u32 \<Rightarrow> u32 \<Rightarrow> u8 \<Rightarrow> u8 \<Rightarrow> u8 \<Rightarrow> stack \<Rightarrow> (err \<times> stack) res" where
  "ip_output_if p src dest ttl tos proto st =
     (let (failed, p) = pbuf_header p 20
      in if failed then Ok (ERR_BUF, st)
         else struct_in 20 p
           (let p = hdr_put 8 [ttl] p;
                p = hdr_put 9 [proto] p;
                p = hdr_put 16 (bytes32 dest) p;
                p = hdr_put 0 (bytes16 (0x4500 OR ucast tos)) p;
                p = hdr_put 2 (bytes16 (word_of_nat (tot_len p))) p;
                p = hdr_put 6 (bytes16 0) p;
                p = hdr_put 4 (bytes16 (ip_id st)) p;
                st = st\<lparr>ip_id := ip_id st + 1\<rparr>;
                p = hdr_put 12 (bytes32 (if ip_addr_isany src then ip_addr (the_netif st) else src)) p;
                p = hdr_put 10 (bytes16 0) p
            in ip_send p dest st))"

text \<open>With \<open>IP_HDRINCL\<close> the packet has its header already.\<close>

definition ip_output_hdrincl :: "pbuf \<Rightarrow> stack \<Rightarrow> (err \<times> stack) res" where
  "ip_output_hdrincl p st = struct_in 20 p (ip_send p (be32 (hdr_get 16 4 p)) st)"

definition ip_output :: "pbuf \<Rightarrow> u32 \<Rightarrow> u32 \<Rightarrow> u8 \<Rightarrow> u8 \<Rightarrow> u8 \<Rightarrow> stack \<Rightarrow> (err \<times> stack) res" where
  "ip_output p src dest ttl tos proto st =
     (if \<not> ip_route dest st then Ok (ERR_RTE, st) else ip_output_if p src dest ttl tos proto st)"

section \<open>ICMP\<close>

definition ICMP_ECHO :: u8 where "ICMP_ECHO = 8"
definition ICMP_ER :: u8 where "ICMP_ER = 0"
definition ICMP_DUR :: u8 where "ICMP_DUR = 3"
definition ICMP_DUR_PROTO :: u8 where "ICMP_DUR_PROTO = 2"
definition ICMP_DUR_PORT :: u8 where "ICMP_DUR_PORT = 3"

definition icmp_send_response :: "pbuf \<Rightarrow> u8 \<Rightarrow> u8 \<Rightarrow> stack \<Rightarrow> stack res" where
  "icmp_send_response p type code st =
     (let (ok, st) = mem_get st
      in if \<not> ok then Ok st
         else struct_in 28 p
           (let q = pbuf_ram 34 36;
                q = hdr_put 0 [type] q;
                q = hdr_put 1 [code] q;
                q = hdr_put 4 (bytes16 0) q;
                q = hdr_put 6 (bytes16 0) q;
                q = hdr_put 8 (hdr_get 0 28 p) q;
                q = hdr_put 2 (bytes16 0) q;
                q = hdr_put 2 (bytes16 (htons (inet_chksum (pb_bytes q)))) q
            in bnd (ip_output q 0 (be32 (hdr_get 12 4 p)) ICMP_TTL 0 IP_PROTO_ICMP st) (\<lambda>(_, st). Ok st)))"

definition icmp_dest_unreach :: "pbuf \<Rightarrow> u8 \<Rightarrow> stack \<Rightarrow> stack res" where
  "icmp_dest_unreach p t st = icmp_send_response p ICMP_DUR t st"

text \<open>The length of the IP header at the payload, in bytes.\<close>

definition IPH_HLEN :: "pbuf \<Rightarrow> nat" where
  "IPH_HLEN p = unat (hdr_get 0 1 p ! 0 AND 0x0F) * 4"

text \<open>The answer to an echo request: \<open>p\<close> is at the ICMP header, the IP header is \<open>hlen\<close> bytes before it.\<close>

definition icmp_echo_reply :: "pbuf \<Rightarrow> nat \<Rightarrow> stack \<Rightarrow> stack res" where
  "icmp_echo_reply p hlen st =
     (let iphdr = pb_payload p - hlen;
          rd = \<lambda>i n p. take n (drop (iphdr + i) (pb_mem p));
          wr = \<lambda>i bs p. p\<lparr>pb_mem := mem_put (iphdr + i) bs (pb_mem p)\<rparr>
      in if \<not> iphdr + 20 \<le> length (pb_mem p) then Fault OutOfBounds
         else struct_in 4 p
           (let tmpaddr = rd 12 4 p;
                p = wr 12 (rd 16 4 p) p;
                p = wr 16 tmpaddr p;
                p = hdr_put 0 [ICMP_ER] p;
                p = hdr_put 2 (bytes16 0) p;
                p = wr 8 [ICMP_TTL] p;
                p = wr 10 (bytes16 0) p;
                (failed, p) = pbuf_header p (int hlen)
            in if failed then Ok st else bnd (ip_output_hdrincl p st) (\<lambda>(_, st). Ok st)))"

definition icmp_input :: "pbuf \<Rightarrow> stack \<Rightarrow> stack res" where
  "icmp_input p st =
     struct_in 20 p
       (let hlen = IPH_HLEN p;
            dest = be32 (hdr_get 16 4 p);
            (failed, p) = pbuf_header p (- int hlen)
        in if failed \<or> tot_len p < 4 then Ok st
           else struct_in 1 p
             (if hdr_get 0 1 p ! 0 \<noteq> ICMP_ECHO then Ok st
              else if ip_addr_ismulticast dest \<or> ip_addr_isbroadcast dest (the_netif st) then Ok st
              else if tot_len p < 8 then Ok st
              else if inet_chksum_pbuf p \<noteq> 0 then Ok st
              else
                let (failed, q) = pbuf_header p 34
                in if failed
                   then
                     let (failed, p) = pbuf_header p (int hlen)
                     in if failed then Ok st
                        else
                          let (ok, st) = mem_get st
                          in if \<not> ok then Ok st
                             else struct_in (pb_len p) p
                               (let (failed, r) = pbuf_header (pbuf_copied 14 p) (- int hlen)
                                in if failed then Ok st else icmp_echo_reply r hlen st)
                   else
                     let (failed, p) = pbuf_header q (- 34)
                     in if failed then Ok st else icmp_echo_reply p hlen st))"

section \<open>UDP control blocks\<close>

definition upd_pcb :: "nat \<Rightarrow> (udp_pcb \<Rightarrow> udp_pcb) \<Rightarrow> stack \<Rightarrow> stack" where
  "upd_pcb u f st = st\<lparr>pcbs := (pcbs st)(u := f (pcbs st u))\<rparr>"

text \<open>
  The search for a free port: the rest of the list that is still to be compared with the port, all ports in
  use, and a bound for the turns; the port grows with each turn, so that \<open>0x7fff - 4096\<close> turns are enough.
\<close>

fun udp_free_port :: "nat \<Rightarrow> u16 \<Rightarrow> u16 list \<Rightarrow> u16 list \<Rightarrow> u16 option" where
  "udp_free_port n port used [] = Some port"
| "udp_free_port n port used (q # qs) =
     (if port = 0x7fff then None
      else if q = port then (case n of 0 \<Rightarrow> None | Suc n \<Rightarrow> udp_free_port n (port + 1) used used)
      else udp_free_port n port used qs)"

definition udp_bind_op :: "nat \<Rightarrow> u32 \<Rightarrow> u16 \<Rightarrow> stack \<Rightarrow> err \<times> stack" where
  "udp_bind_op u ip port st =
     (let rebind = (u \<in> set (udp_pcbs st));
          st = upd_pcb u (\<lambda>c. c\<lparr>local_ip := ip\<rparr>) st;
          used = map (\<lambda>v. local_port (pcbs st v)) (udp_pcbs st)
      in case (if port = 0 then udp_free_port 0x7fff 4096 used used else Some port) of
          None \<Rightarrow> (ERR_USE, st)
        | Some port \<Rightarrow>
            let st = upd_pcb u (\<lambda>c. c\<lparr>local_port := port\<rparr>) st
            in (ERR_OK, if rebind then st else st\<lparr>udp_pcbs := u # udp_pcbs st\<rparr>))"

definition udp_connect_op :: "nat \<Rightarrow> u32 \<Rightarrow> u16 \<Rightarrow> stack \<Rightarrow> err \<times> stack" where
  "udp_connect_op u ip port st =
     (let (e, st) = (if local_port (pcbs st u) = 0 then udp_bind_op u (local_ip (pcbs st u)) (local_port (pcbs st u)) st
                     else (ERR_OK, st))
      in if e \<noteq> ERR_OK then (e, st)
         else
           let st = upd_pcb u (\<lambda>c. c\<lparr>remote_ip := ip\<rparr>) st;
               st = upd_pcb u (\<lambda>c. c\<lparr>remote_port := port\<rparr>) st;
               st = upd_pcb u (\<lambda>c. c\<lparr>pcb_connected := True\<rparr>) st
           in (ERR_OK, if u \<in> set (udp_pcbs st) then st else st\<lparr>udp_pcbs := u # udp_pcbs st\<rparr>))"

definition udp_disconnect_op :: "nat \<Rightarrow> stack \<Rightarrow> stack" where
  "udp_disconnect_op u st =
     (let st = upd_pcb u (\<lambda>c. c\<lparr>remote_ip := 0\<rparr>) st;
          st = upd_pcb u (\<lambda>c. c\<lparr>remote_port := 0\<rparr>) st
      in upd_pcb u (\<lambda>c. c\<lparr>pcb_connected := False\<rparr>) st)"

definition udp_recv_op :: "nat \<Rightarrow> udp_ck \<Rightarrow> stack \<Rightarrow> stack" where
  "udp_recv_op u f st = upd_pcb u (\<lambda>c. c\<lparr>pcb_recv := Some f\<rparr>) st"

definition udp_remove_op :: "nat \<Rightarrow> stack \<Rightarrow> stack" where
  "udp_remove_op u st = st\<lparr>udp_pcbs := remove1 u (udp_pcbs st)\<rparr>"

definition udp_new_op :: "nat \<Rightarrow> stack \<Rightarrow> stack" where
  "udp_new_op u st =
     (let st = upd_pcb u (\<lambda>_. \<lparr>local_ip = 0, remote_ip = 0, local_port = 0, remote_port = 0, pcb_connected = False,
                 pcb_ttl = 0, pcb_recv = None\<rparr>) st
      in upd_pcb u (\<lambda>c. c\<lparr>pcb_ttl := UDP_TTL\<rparr>) st)"

section \<open>Sending datagrams\<close>

text \<open>The type of service of a control block is 0: nothing sets it.\<close>

definition udp_sendto_if :: "nat \<Rightarrow> pbuf \<Rightarrow> u32 \<Rightarrow> u16 \<Rightarrow> stack \<Rightarrow> (err \<times> stack) res" where
  "udp_sendto_if u p dst_ip dst_port st =
     (let (e, st) = (if local_port (pcbs st u) = 0 then udp_bind_op u (local_ip (pcbs st u)) (local_port (pcbs st u)) st
                     else (ERR_OK, st))
      in if e \<noteq> ERR_OK then Ok (e, st)
         else
           let (failed, q) = pbuf_header p 8;
               (ok, st) = (if failed then mem_get st else (True, st))
           in if \<not> ok then Ok (ERR_MEM, st)
              else
                let q = (if failed then (pbuf_ram 34 8)\<lparr>pb_next := pb_links p\<rparr> else q)
                in struct_in (if failed then pb_len p else 0) p (struct_in 8 q
                  (let q = hdr_put 0 (bytes16 (local_port (pcbs st u))) q;
                       q = hdr_put 2 (bytes16 dst_port) q;
                       q = hdr_put 6 (bytes16 0) q
                   in if \<not> ip_addr_isany (local_ip (pcbs st u)) \<and> local_ip (pcbs st u) \<noteq> ip_addr (the_netif st)
                      then Ok (ERR_VAL, st)
                      else
                        let src_ip = (if ip_addr_isany (local_ip (pcbs st u)) then ip_addr (the_netif st)
                                      else local_ip (pcbs st u));
                            q = hdr_put 4 (bytes16 (word_of_nat (tot_len q))) q
                        in ip_output_if q src_ip dst_ip (pcb_ttl (pcbs st u)) 0 IP_PROTO_UDP st)))"

definition udp_sendto :: "nat \<Rightarrow> pbuf \<Rightarrow> u32 \<Rightarrow> u16 \<Rightarrow> stack \<Rightarrow> (err \<times> stack) res" where
  "udp_sendto u p dst_ip dst_port st =
     (if \<not> ip_route dst_ip st then Ok (ERR_RTE, st) else udp_sendto_if u p dst_ip dst_port st)"

definition udp_send_op :: "nat \<Rightarrow> pbuf \<Rightarrow> stack \<Rightarrow> (err \<times> stack) res" where
  "udp_send_op u p st = udp_sendto u p (remote_ip (pcbs st u)) (remote_port (pcbs st u)) st"

section \<open>Receiving datagrams\<close>

datatype delivery = Delivery nat udp_ck pbuf u32 u16

text \<open>The search in the list of control blocks: those already passed, the rest, the first that is not connected.\<close>

definition pcb_local_match :: "bool \<Rightarrow> u32 \<Rightarrow> u16 \<Rightarrow> udp_pcb \<Rightarrow> bool" where
  "pcb_local_match broadcast dest_ip dest c \<longleftrightarrow>
     local_port c = dest \<and> (\<not> broadcast \<and> ip_addr_isany (local_ip c) \<or> local_ip c = dest_ip \<or> broadcast)"

fun udp_match :: "(udp_pcb \<Rightarrow> bool) \<Rightarrow> (udp_pcb \<Rightarrow> bool) \<Rightarrow> (nat \<Rightarrow> udp_pcb) \<Rightarrow> nat list \<Rightarrow> nat list \<Rightarrow> nat option \<Rightarrow>
    nat option \<times> nat list" where
  "udp_match loc rem c passed [] uncon = (uncon, passed)"
| "udp_match loc rem c passed (u # us) uncon =
     (let uncon = (if loc (c u) \<and> uncon = None \<and> \<not> pcb_connected (c u) then Some u else uncon)
      in if loc (c u) \<and> rem (c u) then (Some u, u # passed @ us)
         else udp_match loc rem c (passed @ [u]) us uncon)"

definition udp_input :: "pbuf \<Rightarrow> stack \<Rightarrow> (delivery option \<times> stack) res" where
  "udp_input p st =
     struct_in 20 p
       (let hlen = IPH_HLEN p;
            src_ip = be32 (hdr_get 12 4 p);
            dest_ip = be32 (hdr_get 16 4 p);
            (failed, p) = (if tot_len p < hlen + 8 then (True, p) else pbuf_header p (- int hlen))
        in if failed then Ok (None, st)
           else struct_in 8 p
             (let broadcast = ip_addr_isbroadcast dest_ip (the_netif st);
                  src = be16 (hdr_get 0 2 p);
                  dest = be16 (hdr_get 2 2 p);
                  (pcb, us) = udp_match (pcb_local_match broadcast dest_ip dest)
                    (\<lambda>c. remote_port c = src \<and> (ip_addr_isany (remote_ip c) \<or> remote_ip c = src_ip)) (pcbs st) [] (udp_pcbs st) None;
                  st = st\<lparr>udp_pcbs := us\<rparr>
              in if pcb \<noteq> None \<or> ip_addr (the_netif st) = dest_ip
                 then
                   let (failed, p) = pbuf_header p (- 8)
                   in if failed then Ok (None, st)
                      else (case pcb of
                          Some u \<Rightarrow>
                            (case pcb_recv (pcbs st u) of
                               Some f \<Rightarrow> Ok (Some (Delivery u f p src_ip src), st)
                             | None \<Rightarrow> Ok (None, st))
                        | None \<Rightarrow>
                            if \<not> broadcast \<and> \<not> ip_addr_ismulticast dest_ip
                            then bnd (icmp_dest_unreach (snd (pbuf_header p (int (hlen + 8)))) ICMP_DUR_PORT st)
                                   (\<lambda>st. Ok (None, st))
                            else Ok (None, st))
                 else Ok (None, st)))"

text \<open>The rest of \<open>ip_input\<close>, for a packet that is in one piece.\<close>

definition ip_deliver :: "pbuf \<Rightarrow> stack \<Rightarrow> (delivery option \<times> stack) res" where
  "ip_deliver p st =
     struct_in 20 p
       (let proto = hdr_get 9 1 p ! 0;
            dest = be32 (hdr_get 16 4 p)
        in if proto = IP_PROTO_UDP then udp_input p st
           else if proto = IP_PROTO_ICMP then bnd (icmp_input p st) (\<lambda>st. Ok (None, st))
           else if \<not> ip_addr_isbroadcast dest (the_netif st) \<and> \<not> ip_addr_ismulticast dest
           then bnd (icmp_dest_unreach p ICMP_DUR_PROTO st) (\<lambda>st. Ok (None, st))
           else Ok (None, st))"

definition ip_input :: "pbuf \<Rightarrow> stack \<Rightarrow> (delivery option \<times> stack) res" where
  "ip_input p st =
     struct_in 20 p
       (if drop_bit 4 (hdr_get 0 1 p ! 0) \<noteq> 4 then Ok (None, st)
        else
          let iphdr_hlen = IPH_HLEN p;
              iphdr_len = unat (be16 (hdr_get 2 2 p))
          in if pb_len p < iphdr_hlen \<or> tot_len p < iphdr_len then Ok (None, st)
             else
               let p = pbuf_realloc p iphdr_len;
                   src = be32 (hdr_get 12 4 p);
                   dest = be32 (hdr_get 16 4 p);
                   n = the_netif st;
                   netif = (netif_is_up n \<and> \<not> ip_addr_isany (ip_addr n) \<and> (dest = ip_addr n \<or> ip_addr_isbroadcast dest n))
               in if ip_addr_isbroadcast src n \<or> ip_addr_ismulticast src then Ok (None, st)
                  else if \<not> netif then Ok (None, st)
                  else if be16 (hdr_get 6 2 p) AND 0x3FFF \<noteq> 0 then Ok (None, st\<lparr>reass_in := reass_in st @ [p]\<rparr>)
                  else ip_deliver p st)"

section \<open>Frames\<close>

definition ethernet_input :: "pbuf \<Rightarrow> stack \<Rightarrow> (delivery option \<times> stack) res" where
  "ethernet_input p st =
     struct_in 14 p
       (let type = be16 (hdr_get 12 2 p)
        in if type = ETHTYPE_IP
           then bnd (etharp_ip_input p st) (\<lambda>st.
                  let (failed, p) = pbuf_header p (- 14)
                  in if failed then Ok (None, st) else ip_input p st)
           else if type = ETHTYPE_ARP then bnd (etharp_arp_input p st) (\<lambda>st. Ok (None, st))
           else Ok (None, st))"

end
