(* ===== verification/Net_Safe.thy ===== *)
theory Net_Safe
  imports Net_Ip
begin

text \<open>No frame makes the stack read or write outside the buffers, when the length of its IP header is right.\<close>

section \<open>Runs that do not fault\<close>

definition keeps :: "stack \<Rightarrow> stack \<Rightarrow> bool" where
  "keeps st t \<longleftrightarrow> arp_wf t \<and> the_netif t = the_netif st"

definition safe :: "stack \<Rightarrow> ('x \<times> stack) res \<Rightarrow> bool" where
  "safe st r \<longleftrightarrow> (\<exists>x t. r = Ok (x, t) \<and> keeps st t)"

definition safe1 :: "stack \<Rightarrow> stack res \<Rightarrow> bool" where
  "safe1 st r \<longleftrightarrow> (\<exists>t. r = Ok t \<and> keeps st t)"

lemma safe_Ok [simp]: "safe st (Ok (x, t)) = keeps st t" "safe1 st (Ok t) = keeps st t"
  by (simp_all add: safe_def safe1_def)





lemma keeps_trans: "keeps st t \<Longrightarrow> keeps t u \<Longrightarrow> keeps st u"
  by (simp add: keeps_def)

text \<open>What is not part of the table of addresses may change.\<close>

lemma keeps_upd [simp]:
  "keeps st (t\<lparr>frag_out := f\<rparr>) = keeps st t" "keeps st (t\<lparr>reass_in := r\<rparr>) = keeps st t" "keeps st (t\<lparr>mems := k\<rparr>) = keeps st t"
  "keeps st (t\<lparr>ip_id := i\<rparr>) = keeps st t" "keeps st (t\<lparr>udp_pcbs := us\<rparr>) = keeps st t" "keeps st (upd_pcb u g t) = keeps st t"
  "keeps (st\<lparr>ip_id := i\<rparr>) t = keeps st t" "keeps (st\<lparr>mems := k\<rparr>) t = keeps st t" "keeps (st\<lparr>udp_pcbs := us\<rparr>) t = keeps st t"
  by (simp_all add: keeps_def arp_wf_def upd_pcb_def)

lemma arp_wf_upd [simp]:
  "arp_wf (st\<lparr>ip_id := i\<rparr>) = arp_wf st" "arp_wf (st\<lparr>mems := k\<rparr>) = arp_wf st" "arp_wf (st\<lparr>udp_pcbs := us\<rparr>) = arp_wf st"
  by (simp_all add: arp_wf_def)

lemma safe_upd [simp]:
  "safe (st\<lparr>ip_id := i\<rparr>) r = safe st r" "safe (st\<lparr>mems := k\<rparr>) r = safe st r" "safe (st\<lparr>udp_pcbs := us\<rparr>) r = safe st r"
  "safe1 (st\<lparr>ip_id := i\<rparr>) s = safe1 st s" "safe1 (st\<lparr>mems := k\<rparr>) s = safe1 st s" "safe1 (st\<lparr>udp_pcbs := us\<rparr>) s = safe1 st s"
  by (simp_all add: safe_def safe1_def)

lemma header_in_mem:
  assumes "pbuf_header p k = (False, q)" and "in_mem p"
  shows "in_mem q" and "pb_mem q = pb_mem p" and "pb_next q = pb_next p" and "int (pb_payload q) = int (pb_payload p) - k"
    and "int (pb_len q) = int (pb_len p) + k"
  using assms by (auto simp: pbuf_header_def split: if_splits)

section \<open>Sending\<close>



lemma in_mem_put: "in_mem p \<Longrightarrow> i + length bs \<le> pb_len p \<Longrightarrow> in_mem (hdr_put i bs p)"
  by simp






section \<open>Receiving\<close>




lemma header_tot: "pbuf_header p k = (False, q) \<Longrightarrow> int (tot_len q) = int (tot_len p) + k"
  by (auto simp: pbuf_header_def tot_len_def split: if_splits)







text \<open>What the table of addresses does leaves the rest of the stack alone.\<close>

definition arp_only :: "stack \<Rightarrow> stack \<Rightarrow> bool" where
  "arp_only st t \<longleftrightarrow> the_netif t = the_netif st \<and> pcbs t = pcbs st \<and> udp_pcbs t = udp_pcbs st \<and> ip_id t = ip_id st \<and>
     mem_ok t = mem_ok st \<and> mems t = mems st \<and> frag_out t = frag_out st \<and> reass_in t = reass_in st"

lemma update_arp_only:
  assumes wf: "arp_wf st" and mac: "length mac = 6" and run: "update_arp_entry ip mac flags st = Ok (r, t)"
  shows "arp_only st t"
proof (cases "unicast (the_netif st) ip")
  case False
  then show ?thesis using run update_arp_entry_other[OF False, of mac flags] by (simp add: arp_only_def)
next
  case True
  have l: "arp_only st (learn_at i ip mac q st)" for i q by (simp add: arp_only_def learn_at_def)
  show ?thesis
    using run l by (cases rule: update_arp_entry_cases[OF wf True mac, of flags, case_names none hit new]) (auto simp: arp_only_def)
qed

lemma ip_input_arp_only:
  assumes "arp_wf st" and "pb_payload p + 34 \<le> length (pb_mem p)"
  shows "\<exists>t. etharp_ip_input p st = Ok t \<and> arp_wf t \<and> arp_only st t"
proof -
  let ?src = "be32 (hdr_get 26 4 p)" and ?mac = "hdr_get 6 6 p"
  obtain t where t: "etharp_ip_input p st = Ok t" "arp_wf t"
    using ip_input_Ok[OF assms] assms(1) by (auto simp: learns_def split: if_splits)
  have "etharp_ip_input p st = (if \<not> ip_addr_netcmp ?src (ip_addr (the_netif st)) (netmask (the_netif st)) then Ok st
      else bnd (update_arp_entry ?src ?mac 0 st) (\<lambda>(_, st). Ok st))"
    using assms(2) by (simp add: etharp_ip_input_def struct_in_def Let_def)
  then have "t = st \<or> (\<exists>r. update_arp_entry ?src ?mac 0 st = Ok (r, t))"
    using t(1) by (cases "update_arp_entry ?src ?mac 0 st") (auto split: if_splits)
  then have "arp_only st t" using update_arp_only[OF assms(1), of ?mac] assms(2) by (auto simp: arp_only_def[of st st])
  then show ?thesis using t by blast
qed




section \<open>A header that is too short\<close>

lemma header_bytes:
  assumes "take k (pb_bytes p) = bs" and "length bs = k" and "in_mem p" and "i + n \<le> k"
  shows "hdr_get i n p = take n (drop i bs)"
proof -
  have "length (take k (pb_bytes p)) = k" using assms(1,2) by simp
  then have "k \<le> length (pb_bytes p)" by (simp add: min_def split: if_splits)
  then have "k \<le> pb_len p" using assms(3) by simp
  then have "hdr_get i n p = take n (drop i (pb_bytes p))" using assms(4) by (intro hdr_get_bytes) simp
  also have "\<dots> = take n (drop i (take k (pb_bytes p)))" using assms(4) by (simp add: drop_take min_absorb1)
  finally show ?thesis using assms(1) by simp
qed

text \<open>
  The Ethernet header, and an IP header of four bytes by its own account, for 12 bytes in all, that is also an echo
  request from its fifth byte on.
\<close>

definition short_ping :: "u8 list \<Rightarrow> u8 list \<Rightarrow> u32 \<Rightarrow> u32 \<Rightarrow> u8 list" where
  "short_ping dst src sip dip =
     dst @ src @ bytes16 ETHTYPE_IP @ [0x41, 0, 0, 12, 8, 0, 0, 0, 255, 1, 0xF8, 0xFD] @ bytes32 sip @ bytes32 dip"

lemma short_ping_sum: "lwip_standard_chksum [8, 0, 0, 0, 255, 1, 0xF8, 0xFD] = 0xFFFF"
  by (simp add: lwip_standard_chksum_def htons_def FOLD_U32T_def)

text \<open>
  C32.  The other frames are not harmless.  A frame with an IP header length of 4 bytes that is addressed to the
  board and looks like an echo request from the fifth byte of its IP header on makes the stack copy it to a
  buffer of 12 bytes, and then exchange the addresses of a header of 20 bytes there: a write behind the
  buffer, whatever the state of the stack, as soon as there is memory for the copy.
\<close>

theorem short_header_overflows:
  assumes "arp_wf st" and "in_mem p" and "pb_payload p = 0" and "take 34 (pb_bytes p) = short_ping dst src sip (ip_addr (the_netif st))"
    and "length dst = 6" and "length src = 6" and "unicast (the_netif st) sip" and "netif_is_up (the_netif st)"
    and "unicast (the_netif st) (ip_addr (the_netif st))" and "\<forall>k. mem_ok st k"
  shows "ethernet_input p st = Fault OutOfBounds"
proof -
  let ?n = "the_netif st" and ?bs = "short_ping dst src sip (ip_addr (the_netif st))"
  have l: "length ?bs = 34" using assms(5,6) by (simp add: short_ping_def)
  have len: "34 \<le> pb_len p"
  proof -
    have "length (take 34 (pb_bytes p)) = 34" using assms(4) l by simp
    then show ?thesis using assms(2) by (simp add: min_def split: if_splits)
  qed
  note get = header_bytes[OF assms(4) l assms(2)]
  let ?q = "p\<lparr>pb_payload := 14, pb_len := pb_len p - 14\<rparr>" and ?r = "p\<lparr>pb_payload := 14, pb_len := 12, pb_next := []\<rparr>"
  obtain t where t: "etharp_ip_input p st = Ok t" "arp_wf t" "arp_only st t"
    using ip_input_arp_only[OF assms(1), of p] assms(2,3) len by auto
  have n: "the_netif t = ?n" "mem_ok t = mem_ok st" using t(3) by (simp_all add: arp_only_def)
  have down: "pbuf_header p (- 14) = (False, ?q)" using pbuf_header_down[of 14 p] len assms(3) by simp
  have type: "be16 (hdr_get 12 2 p) = ETHTYPE_IP" using get[of 12 2] assms(5,6) by (simp add: short_ping_def)
  have q: "hdr_get i k ?q = take k (drop (14 + i) ?bs)" if "i + k \<le> 20" for i k
    using that get[of "14 + i" k] assms(3) by (simp add: hdr_get_def)
  have r: "hdr_get i k ?r = take k (drop (14 + i) ?bs)" if "i + k \<le> 20" for i k
    using q[OF that] by (simp add: hdr_get_def)
  have re: "pbuf_realloc ?q 12 = ?r" using len by (simp add: pbuf_realloc_def tot_len_def)
  have ihl: "IPH_HLEN ?q = 4" "IPH_HLEN ?r = 4" using q[of 0 1] r[of 0 1] assms(5,6) by (simp_all add: IPH_HLEN_def short_ping_def)
  have dest: "be32 (hdr_get 16 4 ?q) = ip_addr ?n" "be32 (hdr_get 16 4 ?r) = ip_addr ?n" "be32 (hdr_get 12 4 ?r) = sip"
    using q[of 16 4] r[of 16 4] r[of 12 4] assms(5,6) by (simp_all add: short_ping_def)
  have uni: "\<not> ip_addr_isbroadcast sip ?n" "\<not> ip_addr_ismulticast sip" "\<not> ip_addr_isbroadcast (ip_addr ?n) ?n"
    "\<not> ip_addr_ismulticast (ip_addr ?n)" "\<not> ip_addr_isany (ip_addr ?n)"
    using assms(7,9) by (simp_all add: unicast_def)
  let ?e = "p\<lparr>pb_payload := 18, pb_len := 8, pb_next := []\<rparr>" and ?c = "pbuf_copied 14 ?r"
  have mem: "34 \<le> length (pb_mem p)" using assms(2) len by simp
  have echo: "pb_bytes ?e = [8, 0, 0, 0, 255, 1, 0xF8, 0xFD]"
    using r[of 4 8] assms(5,6) by (simp add: pb_bytes_def hdr_get_def short_ping_def)
  have sum: "inet_chksum_pbuf ?e = 0"
    by (simp add: inet_chksum_pbuf_def pb_links_def echo short_ping_sum FOLD_U32T_def)
  have hdr: "pbuf_header ?r (- 4) = (False, ?e)" "pbuf_header ?e 34 = (True, ?e)" "pbuf_header ?e 4 = (False, ?r)"
    by (simp_all add: pbuf_header_def)
  have "in_mem ?r" using mem by simp
  note c = pbuf_copied_wf[OF this, of 14]
  have "length (pb_mem ?c) = 28" using c(1) mem length_links[of ?r] by (simp add: pbuf_copied_def tot_len_def)
  then have over: "icmp_echo_reply (snd (pbuf_header ?c (- 4))) 4 (t\<lparr>mems := mems t + 1\<rparr>) = Fault OutOfBounds"
      "\<not> fst (pbuf_header ?c (- 4))"
    using c(2,5) by (simp_all add: icmp_echo_reply_def pbuf_header_def tot_len_def)
  have "hdr_get 0 1 ?e ! 0 = ICMP_ECHO"
    using r[of 4 1] assms(5,6) by (simp add: hdr_get_def short_ping_def ICMP_ECHO_def)
  then have icmp: "icmp_input ?r t = Fault OutOfBounds"
    unfolding icmp_input_def ihl(2) dest(2) Let_def
    using hdr sum over uni n mem assms(10) by (simp add: struct_in_def mem_get_def tot_len_def split_beta)
  have "ip_input ?q t = Fault OutOfBounds"
  proof -
    have f: "drop_bit 4 (hdr_get 0 1 ?q ! 0) = 4" "be16 (hdr_get 2 2 ?q) = 12" "be16 (hdr_get 6 2 ?r) AND 0x3FFF = 0"
        "hdr_get 9 1 ?r ! 0 = IP_PROTO_ICMP"
      using q[of 0 1] q[of 2 2] r[of 6 2] r[of 9 1] assms(5,6)
      by (simp_all add: short_ping_def IP_PROTO_ICMP_def be16_def)
    have "ip_deliver ?r t = Fault OutOfBounds"
      using f(4) icmp mem by (simp add: ip_deliver_def struct_in_def IP_PROTO_ICMP_def IP_PROTO_UDP_def)
    moreover have "4 \<le> pb_len p - 14" "12 \<le> tot_len ?q" using len unfolding tot_len_def by auto
    ultimately show ?thesis
      unfolding ip_input_def Let_def ihl(1) f(1,2)
      using re f(3) dest uni n assms(8) mem by (simp add: struct_in_def not_less)
  qed
  then show ?thesis using type t(1) down len assms(2,3) by (simp add: ethernet_input_def struct_in_def)
qed

section \<open>Witnesses\<close>



lemma bench_unicast: "unicast bench_netif (ip_addr bench_netif)" "netif_is_up bench_netif"
  by (simp_all add: unicast_def bench_netif_def ip_addr_isany_def ip_addr_isbroadcast_def ip_addr_ismulticast_def
      NETIF_FLAG_BROADCAST_def netif_is_up_def NETIF_FLAG_UP_def)

lemma short_header_overflows_witness:
  "ethernet_input (wire_pbuf (short_ping (hwaddr bench_netif) pc_mac pc_ip (ip_addr bench_netif))) (net_bench (\<lambda>_. True)) =
    Fault OutOfBounds"
proof (rule short_header_overflows[OF net_bench_wf])
  let ?p = "wire_pbuf (short_ping (hwaddr bench_netif) pc_mac pc_ip (ip_addr bench_netif))"
  show "in_mem ?p" "pb_payload ?p = 0" by (simp_all add: wire_pbuf_def)
  show "take 34 (pb_bytes ?p) = short_ping (hwaddr bench_netif) pc_mac pc_ip (ip_addr (the_netif (net_bench (\<lambda>_. True))))"
    by (simp add: wire_pbuf_def pb_bytes_def short_ping_def bench_lengths)
qed (simp_all add: bench_lengths pc_unicast bench_unicast)

end
