(* ===== verification/Net_Udp.thy ===== *)
theory Net_Udp
  imports Net_Safe
begin

text \<open>
  A datagram from the wire to the callback of its control block, and the answer from there to the wire.
\<close>

section \<open>Datagrams as bytes\<close>

definition ip_header :: "u8 \<Rightarrow> nat \<Rightarrow> u16 \<Rightarrow> u16 \<Rightarrow> u8 \<Rightarrow> u8 \<Rightarrow> u16 \<Rightarrow> u32 \<Rightarrow> u32 \<Rightarrow> u8 list" where
  "ip_header tos len i off ttl proto chk src dst =
     bytes16 (0x4500 OR ucast tos) @ bytes16 (word_of_nat len) @ bytes16 i @ bytes16 off @ [ttl, proto] @ bytes16 chk @
     bytes32 src @ bytes32 dst"

definition udp_header :: "u16 \<Rightarrow> u16 \<Rightarrow> u16 \<Rightarrow> u16 \<Rightarrow> u8 list" where
  "udp_header src dst len chk = bytes16 src @ bytes16 dst @ bytes16 len @ bytes16 chk"

lemma length_headers [simp]: "length (ip_header tos len i off ttl proto chk src dst) = 20" "length (udp_header s d n c) = 8"
  by (simp_all add: ip_header_def udp_header_def)

text \<open>The payload behind a header that is put in front of it.\<close>

abbreviation up :: "nat \<Rightarrow> pbuf \<Rightarrow> pbuf" where
  "up k p \<equiv> p\<lparr>pb_payload := pb_payload p - k, pb_len := pb_len p + k\<rparr>"

lemma up_bytes: "in_mem p \<Longrightarrow> k \<le> pb_payload p \<Longrightarrow> drop k (pb_bytes (up k p)) = pb_bytes p"
  by (simp add: pb_bytes_def drop_take)

lemma up_mem: "in_mem p \<Longrightarrow> k \<le> pb_payload p \<Longrightarrow> in_mem (up k p)"
  by simp

lemma header_put_bytes:
  assumes "in_mem p" and "k \<le> pb_payload p" and "length bs = k"
  shows "pb_bytes (hdr_put 0 bs (up k p)) = bs @ pb_bytes p" and "in_mem (hdr_put 0 bs (up k p))"
proof -
  have m: "in_mem (up k p)" by (rule up_mem[OF assms(1,2)])
  show "pb_bytes (hdr_put 0 bs (up k p)) = bs @ pb_bytes p"
    using hdr_put_bytes[of bs "up k p"] m assms(3) up_bytes[OF assms(1,2)] by simp
  show "in_mem (hdr_put 0 bs (up k p))" using assms by simp
qed

section \<open>The way out\<close>

text \<open>To a station of the local network whose Ethernet address is known.\<close>

definition reaches :: "stack \<Rightarrow> u32 \<Rightarrow> u8 list \<Rightarrow> bool" where
  "reaches st ip mac \<longleftrightarrow> arp_wf st \<and> unicast (the_netif st) ip \<and> netif_is_up (the_netif st) \<and>
     ip_addr_netcmp ip (ip_addr (the_netif st)) (netmask (the_netif st)) \<and> (\<exists>a. arp_map st ip = Some (mac, a))"

lemma reaches_upd [simp]:
  "reaches (st\<lparr>ip_id := i\<rparr>) ip mac = reaches st ip mac" "reaches (upd_pcb u f st) ip mac = reaches st ip mac"
  by (simp_all add: reaches_def arp_wf_def arp_map_def upd_pcb_def)

text \<open>A packet went to the driver, and nothing else changed but the place that was found.\<close>

definition sent :: "u8 list list \<Rightarrow> stack \<Rightarrow> stack \<Rightarrow> bool" where
  "sent f st t \<longleftrightarrow> (\<exists>i < ARP_TABLE_SIZE. t = st\<lparr>etharp_cached_entry := i, linked := linked st @ [f]\<rparr>)"

lemma etharp_output_known:
  assumes r: "reaches st ip mac" and p: "in_mem p" "14 \<le> pb_payload p"
  shows "\<exists>t. etharp_output p ip st = Ok (ERR_OK, t) \<and>
    sent ((mac @ hwaddr (the_netif st) @ bytes16 ETHTYPE_IP @ pb_bytes p) # pb_next p) st t"
proof -
  let ?n = "the_netif st"
  have wf: "arp_wf st" and uni: "unicast ?n ip" and net: "ip_addr_netcmp ip (ip_addr ?n) (netmask ?n)"
    using r by (simp_all add: reaches_def)
  obtain a where a: "arp_map st ip = Some (mac, a)" using r by (auto simp: reaches_def)
  have q: "frame_ok (up 14 p)" using p by (simp add: frame_ok_def)
  have "eth_framed (hwaddr ?n) mac (up 14 p) = (mac @ hwaddr ?n @ bytes16 ETHTYPE_IP @ pb_bytes p) # pb_next p"
    using up_bytes[of p 14] p by (simp add: eth_framed_def)
  moreover have "etharp_output p ip st = etharp_query ip (up 14 p) st"
    using uni net pbuf_header_up[of 14 p] p by (simp add: etharp_output_def unicast_def)
  ultimately show ?thesis using query_known[OF wf uni q a] by (auto simp: sent_def)
qed

lemma ip_output_if_eq:
  assumes p: "in_mem p" "20 \<le> pb_payload p" and src: "\<not> ip_addr_isany src" and len: "tot_len p + 20 \<le> unat (mtu (the_netif st))"
  shows "\<exists>q. ip_output_if p src dest ttl tos proto st = etharp_output q dest (st\<lparr>ip_id := ip_id st + 1\<rparr>) \<and> in_mem q \<and>
    pb_payload q = pb_payload p - 20 \<and> pb_next q = pb_next p \<and>
    pb_bytes q = ip_header tos (tot_len p + 20) (ip_id st) 0 ttl proto 0 src dest @ pb_bytes p"
proof -
  let ?p = "up 20 p" and ?h = "ip_header tos (tot_len p + 20) (ip_id st) 0 ttl proto 0 src dest"
  have h: "pbuf_header p 20 = (False, ?p)" using pbuf_header_up[of 20 p] p by simp
  have tot: "tot_len ?p = tot_len p + 20" "tot_len (hdr_put i bs q) = tot_len q" for i bs q by (simp_all add: tot_len_def)
  have room: "pb_payload ?p + 20 \<le> length (pb_mem ?p)" using p by simp
  have "hdr_put 8 [ttl] ?p = hdr_puts [(8, [ttl])] ?p" by simp
  then have "hdr_put 10 (bytes16 0) (hdr_put 12 (bytes32 src) (hdr_put 4 (bytes16 (ip_id st)) (hdr_put 6 (bytes16 0)
      (hdr_put 2 (bytes16 (word_of_nat (tot_len p + 20))) (hdr_put 0 (bytes16 (0x4500 OR ucast tos)) (hdr_put 16 (bytes32 dest)
      (hdr_put 9 [proto] (hdr_put 8 [ttl] ?p)))))))) =
      hdr_puts [(0, bytes16 (0x4500 OR ucast tos)), (2, bytes16 (word_of_nat (tot_len p + 20))), (4, bytes16 (ip_id st)),
        (6, bytes16 0), (8, [ttl]), (9, [proto]), (10, bytes16 0), (12, bytes32 src), (16, bytes32 dest)] ?p"
    using room by (simp add: hdr_put_puts apart_def del: hdr_puts.simps)
  also have "\<dots> = hdr_put 0 ?h ?p" using room by (simp add: hdr_put_put ip_header_def)
  also note w = calculation
  note q = header_put_bytes[OF p, of ?h]
  have "\<not> unat (mtu (the_netif st)) < tot_len p + 20" using len by simp
  then have "ip_output_if p src dest ttl tos proto st = etharp_output (hdr_put 0 ?h ?p) dest (st\<lparr>ip_id := ip_id st + 1\<rparr>)"
    unfolding ip_output_if_def h Let_def prod.case tot using src room w by (simp add: struct_in_def ip_send_def tot)
  then show ?thesis using q by (intro exI[of _ "hdr_put 0 ?h ?p"]) simp
qed

lemma udp_sendto_if_eq:
  assumes p: "in_mem p" "8 \<le> pb_payload p" and c: "local_port (pcbs st u) \<noteq> 0" "local_ip (pcbs st u) = 0"
  shows "\<exists>q. udp_sendto_if u p ip port st = ip_output_if q (ip_addr (the_netif st)) ip (pcb_ttl (pcbs st u)) 0 IP_PROTO_UDP st \<and>
    in_mem q \<and> pb_payload q = pb_payload p - 8 \<and> pb_next q = pb_next p \<and> tot_len q = tot_len p + 8 \<and>
    pb_bytes q = udp_header (local_port (pcbs st u)) port (word_of_nat (tot_len p + 8)) 0 @ pb_bytes p"
proof -
  let ?p = "up 8 p" and ?h = "udp_header (local_port (pcbs st u)) port (word_of_nat (tot_len p + 8)) 0"
  have h: "pbuf_header p 8 = (False, ?p)" using pbuf_header_up[of 8 p] p by simp
  have tot: "tot_len ?p = tot_len p + 8" "tot_len (hdr_put i bs q) = tot_len q" for i bs q by (simp_all add: tot_len_def)
  have room: "pb_payload ?p + 8 \<le> length (pb_mem ?p)" using p by simp
  have "hdr_put 0 (bytes16 (local_port (pcbs st u))) ?p = hdr_puts [(0, bytes16 (local_port (pcbs st u)))] ?p" by simp
  then have "hdr_put 4 (bytes16 (word_of_nat (tot_len p + 8))) (hdr_put 6 (bytes16 0) (hdr_put 2 (bytes16 port)
      (hdr_put 0 (bytes16 (local_port (pcbs st u))) ?p))) =
      hdr_puts [(0, bytes16 (local_port (pcbs st u))), (2, bytes16 port), (4, bytes16 (word_of_nat (tot_len p + 8))), (6, bytes16 0)] ?p"
    using room by (simp add: hdr_put_puts apart_def del: hdr_puts.simps)
  also have "\<dots> = hdr_put 0 ?h ?p" using room by (simp add: hdr_put_put udp_header_def)
  also note w = calculation
  have "udp_sendto_if u p ip port st =
      ip_output_if (hdr_put 0 ?h ?p) (ip_addr (the_netif st)) ip (pcb_ttl (pcbs st u)) 0 IP_PROTO_UDP st"
    unfolding udp_sendto_if_def h Let_def prod.case tot
    using c room w p by (simp add: struct_in_def ip_addr_isany_def tot)
  then show ?thesis using header_put_bytes[OF p, of ?h] tot by (intro exI[of _ "hdr_put 0 ?h ?p"]) simp
qed

section \<open>The way in\<close>

text \<open>The control block \<open>u\<close> waits for datagrams to the port, and no other one does.\<close>

definition pcb_serves :: "stack \<Rightarrow> nat \<Rightarrow> u16 \<Rightarrow> udp_ck \<Rightarrow> bool" where
  "pcb_serves st u port f \<longleftrightarrow> u \<in> set (udp_pcbs st) \<and> local_port (pcbs st u) = port \<and> port \<noteq> 0 \<and> local_ip (pcbs st u) = 0 \<and>
     pcb_recv (pcbs st u) = Some f \<and> \<not> pcb_connected (pcbs st u) \<and> pcb_ttl (pcbs st u) = UDP_TTL \<and>
     (\<forall>v \<in> set (udp_pcbs st). v \<noteq> u \<longrightarrow> local_port (pcbs st v) \<noteq> port)"

lemma match_only:
  assumes "\<forall>v \<in> set us. v \<noteq> u \<longrightarrow> \<not> loc (c v)" and "loc (c u)" and "\<not> pcb_connected (c u)"
    and "u \<in> set us \<and> uncon = None \<or> uncon = Some u"
  shows "\<exists>vs. udp_match loc rem c passed us uncon = (Some u, vs) \<and> set vs = set passed \<union> set us"
  using assms
proof (induction us arbitrary: passed uncon)
  case (Cons v us)
  show ?case
  proof (cases "v = u")
    case True
    then show ?thesis using Cons.IH[of "Some u" "passed @ [v]"] Cons.prems by (auto simp: Let_def)
  next
    case False
    then have "\<not> loc (c v)" using Cons.prems(1) by simp
    then show ?thesis using Cons.IH[of uncon "passed @ [v]"] Cons.prems False by (auto simp: Let_def)
  qed
qed simp

text \<open>A datagram on the wire, in front of what fills the frame up.\<close>

definition udp_frame ::
  "u8 list \<Rightarrow> u8 list \<Rightarrow> u8 \<Rightarrow> u16 \<Rightarrow> u16 \<Rightarrow> u8 \<Rightarrow> u16 \<Rightarrow> u32 \<Rightarrow> u32 \<Rightarrow> u16 \<Rightarrow> u16 \<Rightarrow> u16 \<Rightarrow> u16 \<Rightarrow> u8 list \<Rightarrow> u8 list" where
  "udp_frame ethdst ethsrc tos i off ttl chk src dst sport dport len uchk d =
     ethdst @ ethsrc @ bytes16 ETHTYPE_IP @ ip_header tos (28 + length d) i off ttl IP_PROTO_UDP chk src dst @
     udp_header sport dport len uchk @ d"

lemma version_byte: "bytes16 (0x4500 OR ucast (tos :: u8)) = [0x45, tos]"
proof -
  have "drop_bit 8 (ucast tos :: u16) = 0" by (rule bit_word_eqI) (simp add: bit_simps no_byte_bit)
  moreover have "ucast (ucast tos :: u16) = tos" by (rule bit_word_eqI) (auto simp: bit_simps)
  moreover have "ucast (0x4500 OR ucast tos :: u16) = (ucast (0x4500 :: u16) :: u8) OR ucast (ucast tos :: u16)"
    by (rule unsigned_or_eq)
  moreover have "(ucast (0x4500 :: u16) :: u8) = 0" by simp
  ultimately have "ucast (0x4500 OR ucast tos :: u16) = tos" by (simp only: or.left_neutral)
  then show ?thesis using \<open>drop_bit 8 (ucast tos :: u16) = 0\<close> by (simp add: bytes16_def drop_bit_or)
qed

lemma udp_input_delivers:
  assumes p: "in_mem p" "pb_payload p = 14" "pb_next p = []" "pb_len p = 28 + length d"
    and b: "pb_bytes p = ip_header tos (28 + length d) i off ttl IP_PROTO_UDP chk sip dip @ udp_header sport dport len uchk @ d"
    and s: "pcb_serves st u dport f" and dip: "dip = ip_addr (the_netif st)" "unicast (the_netif st) dip"
  shows "\<exists>us. udp_input p st = Ok (Some (Delivery u f (p\<lparr>pb_payload := 42, pb_len := length d\<rparr>) sip sport), st\<lparr>udp_pcbs := us\<rparr>) \<and>
    set us = set (udp_pcbs st)"
proof -
  let ?bs = "ip_header tos (28 + length d) i off ttl IP_PROTO_UDP chk sip dip @ udp_header sport dport len uchk"
  have get: "hdr_get j n p = take n (drop j ?bs)" if "j + n \<le> 28" for j n
    using that hdr_get_bytes[of j n p] p(4) b by (simp add: drop_take)
  have ihl: "IPH_HLEN p = 20" using get[of 0 1] by (simp add: IPH_HLEN_def ip_header_def version_byte)
  have ips: "be32 (hdr_get 12 4 p) = sip" "be32 (hdr_get 16 4 p) = dip"
    using get[of 12 4] get[of 16 4] by (simp_all add: ip_header_def)
  let ?q = "p\<lparr>pb_payload := 34, pb_len := 8 + length d\<rparr>"
  have down: "pbuf_header p (- 20) = (False, ?q)" "pbuf_header ?q (- 8) = (False, p\<lparr>pb_payload := 42, pb_len := length d\<rparr>)"
    using pbuf_header_down[of 20 p] pbuf_header_down[of 8 ?q] p by simp_all
  have "hdr_get j n ?q = hdr_get (20 + j) n p" for j n using p(2) by (simp add: hdr_get_def)
  then have ports: "be16 (hdr_get 0 2 ?q) = sport" "be16 (hdr_get 2 2 ?q) = dport"
    using get[of 20 2] get[of 22 2] by (simp_all add: ip_header_def udp_header_def)
  have nb: "\<not> ip_addr_isbroadcast dip (the_netif st)" using dip(2) by (simp add: unicast_def)
  let ?loc = "pcb_local_match False dip dport"
  have loc: "?loc (pcbs st u)" "\<forall>v \<in> set (udp_pcbs st). v \<noteq> u \<longrightarrow> \<not> ?loc (pcbs st v)" "\<not> pcb_connected (pcbs st u)"
      "u \<in> set (udp_pcbs st)" "pcb_recv (pcbs st u) = Some f"
    using s by (auto simp: pcb_serves_def pcb_local_match_def ip_addr_isany_def)
  obtain us where us: "udp_match ?loc (\<lambda>c. remote_port c = sport \<and> (ip_addr_isany (remote_ip c) \<or> remote_ip c = sip)) (pcbs st) []
      (udp_pcbs st) None = (Some u, us)" "set us = set (udp_pcbs st)"
    using match_only[OF loc(2,1,3), of None "\<lambda>c. remote_port c = sport \<and> (ip_addr_isany (remote_ip c) \<or> remote_ip c = sip)" "[]"]
      loc(4) by auto
  have "udp_input p st = Ok (Some (Delivery u f (p\<lparr>pb_payload := 42, pb_len := length d\<rparr>) sip sport), st\<lparr>udp_pcbs := us\<rparr>)"
    unfolding udp_input_def Let_def ihl ips
    using p down ports nb us(1) loc(5) by (simp add: struct_in_def tot_len_def)
  then show ?thesis using us(2) by blast
qed

text \<open>A sender that the table has, or for which it has an empty place, is learnt.\<close>

definition room_for :: "stack \<Rightarrow> u32 \<Rightarrow> bool" where
  "room_for st ip \<longleftrightarrow> (\<exists>e \<in> set (arp_table st). \<not> active e \<or> arp_ipaddr e = ip)"

lemma heard_with_room:
  assumes wf: "arp_wf st" and uni: "unicast (the_netif st) ip" and mac: "length mac = 6" and room: "room_for st ip"
  shows "\<exists>t. update_arp_entry ip mac 0 st = Ok (ERR_OK, t) \<and> arp_wf t \<and> arp_only st t \<and> (\<exists>a. arp_map t ip = Some (mac, a)) \<and>
    linked t = linked st @ map (eth_framed (hwaddr (the_netif st)) mac) (arp_waiting st ip)"
proof (cases rule: update_arp_entry_cases[OF wf uni mac, of 0, case_names none hit new])
  case none
  then show ?thesis using room by (auto simp: room_for_def ETHARP_FIND_ONLY_def)
next
  case (hit i)
  have "arp_waiting st ip = arp_q (arp_table st ! i)" using wf hit(2-4) by (intro waiting_at) (simp_all add: arp_wf_def)
  then show ?thesis
    using hit(1) learn_at_wf(1,2)[OF wf hit(2) uni others_off_hit[OF wf hit(2-4)] mac] by (auto simp: learn_at_def arp_only_def)
next
  case (new i)
  then show ?thesis
    using waiting_absent[OF new(3)] learn_at_wf(1,2)[OF wf new(2) uni others_off_new[OF wf new(3)] mac]
    by (auto simp: learn_at_def arp_only_def)
qed

text \<open>The stack answers on the local network, from the address \<open>dip\<close>.\<close>

definition net_up :: "stack \<Rightarrow> u32 \<Rightarrow> bool" where
  "net_up st dip \<longleftrightarrow> arp_wf st \<and> netif_is_up (the_netif st) \<and> ip_addr (the_netif st) = dip \<and> unicast (the_netif st) dip \<and>
     mtu (the_netif st) = 1500"

lemma take_more: "take k xs = bs @ cs \<Longrightarrow> length bs = i \<Longrightarrow> take (k - i) (drop i xs) = cs"
  by (metis append_eq_conv_conj take_drop drop_take)

lemma frame_arrives:
  assumes up: "net_up st dip" and p: "in_mem p" "pb_payload p = 0" "pb_next p = []"
    and b: "take (42 + length d) (pb_bytes p) = udp_frame ethdst mac tos i off ttl chk sip dip sport dport len uchk d"
    and l: "length ethdst = 6" "length mac = 6" "length d \<le> 1472" and whole: "off AND 0x3FFF = 0"
    and sip: "unicast (the_netif st) sip" "ip_addr_netcmp sip dip (netmask (the_netif st))" "room_for st sip"
    and s: "pcb_serves st u dport f"
  shows "\<exists>t. ethernet_input p st = Ok (Some (Delivery u f (p\<lparr>pb_payload := 42, pb_len := length d\<rparr>) sip sport), t) \<and>
    pb_bytes (p\<lparr>pb_payload := 42, pb_len := length d\<rparr>) = d \<and> 42 + length d \<le> length (pb_mem p) \<and>
    net_up t dip \<and> reaches t sip mac \<and> pcb_serves t u dport f \<and> ip_id t = ip_id st \<and> the_netif t = the_netif st \<and>
    linked t = linked st @ map (eth_framed (hwaddr (the_netif st)) mac) (arp_waiting st sip)"
proof -
  let ?n = "the_netif st" and ?d = "length d"
  let ?ip = "ip_header tos (28 + ?d) i off ttl IP_PROTO_UDP chk sip dip @ udp_header sport dport len uchk @ d"
  let ?bs = "(ethdst @ mac @ bytes16 ETHTYPE_IP) @ ?ip"
  have wf: "arp_wf st" and n: "netif_is_up ?n" "ip_addr ?n = dip" "unicast ?n dip" using up by (simp_all add: net_up_def)
  have b': "take (42 + ?d) (pb_bytes p) = ?bs" using b by (simp add: udp_frame_def)
  have lb: "length ?bs = 42 + ?d" using l by simp
  have len: "42 + ?d \<le> pb_len p"
  proof -
    have "length (take (42 + ?d) (pb_bytes p)) = 42 + ?d" unfolding b' by (rule lb)
    then show ?thesis using p(1) by (simp add: min_def split: if_splits)
  qed
  have "take (42 + ?d - 14) (drop 14 (pb_bytes p)) = ?ip" using take_more[OF b'] l by simp
  then have ipb: "take (28 + ?d) (drop 14 (pb_mem p)) = ?ip" using len p(2) by (auto simp: pb_bytes_def drop_take min_def split: if_splits)
  have data: "pb_bytes (p\<lparr>pb_payload := 42, pb_len := ?d\<rparr>) = d"
    using take_more[of "28 + ?d" "drop 14 (pb_mem p)" "take 28 ?ip" d 28] ipb by (simp add: pb_bytes_def)
  note get = header_bytes[OF b' lb p(1)]
  have f: "be16 (hdr_get 12 2 p) = ETHTYPE_IP" "hdr_get 6 6 p = mac" "be32 (hdr_get 26 4 p) = sip"
    using get[of 12 2] get[of 6 6] get[of 26 4] l by (simp_all add: ip_header_def)
  obtain t where t: "update_arp_entry sip mac 0 st = Ok (ERR_OK, t)" "arp_wf t" "arp_only st t" "\<exists>a. arp_map t sip = Some (mac, a)"
      "linked t = linked st @ map (eth_framed (hwaddr ?n) mac) (arp_waiting st sip)"
    using heard_with_room[OF wf sip(1) l(2) sip(3)] by blast
  have tn: "the_netif t = ?n" "pcbs t = pcbs st" "udp_pcbs t = udp_pcbs st" "ip_id t = ip_id st"
    using t(3) by (simp_all add: arp_only_def)
  have learn: "etharp_ip_input p st = Ok t"
    using f(2,3) t(1) sip(2) n(2) p len by (simp add: etharp_ip_input_def struct_in_def)
  let ?q = "p\<lparr>pb_payload := 14, pb_len := pb_len p - 14\<rparr>" and ?r = "p\<lparr>pb_payload := 14, pb_len := 28 + ?d\<rparr>"
  have down: "pbuf_header p (- 14) = (False, ?q)" using pbuf_header_down[of 14 p] len p(2) by simp
  have re: "pbuf_realloc ?q (28 + ?d) = ?r" using len p(3) by (auto simp: pbuf_realloc_def tot_len_def)
  have hq: "hdr_get j k ?q = take k (drop j ?ip)" "hdr_get j k ?r = take k (drop j ?ip)" if "j + k \<le> 28 + ?d" for j k
    unfolding ipb[symmetric] using that by (simp_all add: hdr_get_def drop_take min_def add.commute)
  have h: "drop_bit 4 (hdr_get 0 1 ?q ! 0) = 4" "IPH_HLEN ?q = 20" "be16 (hdr_get 2 2 ?q) = word_of_nat (28 + ?d)"
      "be32 (hdr_get 12 4 ?r) = sip" "be32 (hdr_get 16 4 ?r) = dip" "be16 (hdr_get 6 2 ?r) = off" "hdr_get 9 1 ?r ! 0 = IP_PROTO_UDP"
    using hq[of 0 1] hq[of 2 2] hq[of 12 4] hq[of 16 4] hq[of 6 2] hq[of 9 1]
    by (simp_all add: IPH_HLEN_def ip_header_def version_byte)
  have ulen: "unat (word_of_nat (28 + ?d) :: u16) = 28 + ?d" using l(3) by (simp add: unat_of_nat del: of_nat_add)
  have r: "in_mem ?r" "pb_payload ?r = 14" "pb_next ?r = []" "pb_len ?r = 28 + ?d" "pb_bytes ?r = ?ip"
    using len p ipb by (simp_all add: pb_bytes_def)
  have ts: "pcb_serves t u dport f" "dip = ip_addr (the_netif t)" "unicast (the_netif t) dip"
    using s n tn by (simp_all add: pcb_serves_def)
  obtain us where us: "udp_input ?r t = Ok (Some (Delivery u f (?r\<lparr>pb_payload := 42, pb_len := ?d\<rparr>) sip sport),
      t\<lparr>udp_pcbs := us\<rparr>)" "set us = set (udp_pcbs t)"
    using udp_input_delivers[OF r ts] by blast
  have uni: "\<not> ip_addr_isbroadcast sip ?n" "\<not> ip_addr_ismulticast sip" "\<not> ip_addr_isany dip"
    using sip(1) n(3) by (simp_all add: unicast_def)
  have "20 \<le> pb_len p - 14" "28 + ?d \<le> pb_len p - 14" using len by simp_all
  then have "ip_input ?q t = udp_input ?r t"
    unfolding ip_input_def Let_def h(2,3) ulen re
    using h uni n tn whole len p by (simp add: struct_in_def tot_len_def not_less ip_deliver_def)
  then have "ethernet_input p st = Ok (Some (Delivery u f (p\<lparr>pb_payload := 42, pb_len := ?d\<rparr>) sip sport), t\<lparr>udp_pcbs := us\<rparr>)"
    using f(1) learn down us(1) p len by (simp add: ethernet_input_def struct_in_def)
  moreover have "pcb_serves (t\<lparr>udp_pcbs := us\<rparr>) u dport f" using s us(2) tn by (simp add: pcb_serves_def)
  moreover have "net_up (t\<lparr>udp_pcbs := us\<rparr>) dip" using up tn t(2) by (simp add: net_up_def)
  moreover have "reaches (t\<lparr>udp_pcbs := us\<rparr>) sip mac"
    using t(2,4) tn n sip by (simp add: reaches_def arp_map_def)
  ultimately show ?thesis using data tn t(5) len p by (intro exI[of _ "t\<lparr>udp_pcbs := us\<rparr>"]) simp
qed

section \<open>The answer\<close>

lemma connect_serving:
  assumes "pcb_serves st u port f"
  shows "udp_connect_op u ip rport st = (ERR_OK, upd_pcb u (\<lambda>c. c\<lparr>remote_ip := ip, remote_port := rport, pcb_connected := True\<rparr>) st)"
  using assms by (simp add: udp_connect_op_def pcb_serves_def upd_pcb_def)

lemma sent_sel:
  assumes "sent x st t"
  shows "linked t = linked st @ [x]" "the_netif t = the_netif st" "pcbs t = pcbs st" "udp_pcbs t = udp_pcbs st"
    "ip_id t = ip_id st" "arp_wf st \<Longrightarrow> arp_wf t" "arp_map t = arp_map st"
  using assms by (auto simp: sent_def arp_wf_def arp_map_def fun_eq_iff)

lemma answer_sent:
  assumes net: "net_up st dip" and r: "reaches st ip mac" and s: "pcb_serves st u port f"
    and q: "in_mem q" "42 \<le> pb_payload q" "pb_next q = []" "pb_bytes q = d" "length d \<le> 1472"
  shows "\<exists>t. udp_send_op u q (snd (udp_connect_op u ip rport st)) = Ok (ERR_OK, t) \<and>
    linked t = linked st @ [[udp_frame mac (hwaddr (the_netif st)) 0 (ip_id st) 0 255 0 dip ip port rport (word_of_nat (8 + length d)) 0 d]] \<and>
    net_up (udp_disconnect_op u t) dip \<and> reaches (udp_disconnect_op u t) ip mac \<and> pcb_serves (udp_disconnect_op u t) u port f \<and>
    ip_id t = ip_id st + 1 \<and> the_netif t = the_netif st"
proof -
  let ?s = "upd_pcb u (\<lambda>c. c\<lparr>remote_ip := ip, remote_port := rport, pcb_connected := True\<rparr>) st" and ?n = "the_netif st"
  have n: "netif_is_up ?n" "ip_addr ?n = dip" "unicast ?n dip" "mtu ?n = 1500" "arp_wf st" using net by (simp_all add: net_up_def)
  have len: "tot_len q = length d" "pb_len q = length d" using q(1,3) length_pb_bytes[OF q(1)] q(4) by (simp_all add: tot_len_def)
  have c: "local_port (pcbs ?s u) = port" "local_port (pcbs ?s u) \<noteq> 0" "local_ip (pcbs ?s u) = 0" "pcb_ttl (pcbs ?s u) = 255"
      "remote_ip (pcbs ?s u) = ip" "remote_port (pcbs ?s u) = rport" "the_netif ?s = ?n" "ip_id ?s = ip_id st" "linked ?s = linked st"
    using s by (simp_all add: pcb_serves_def upd_pcb_def UDP_TTL_def)
  have "8 \<le> pb_payload q" using q(2) by simp
  then obtain a where a: "udp_sendto_if u q ip rport ?s = ip_output_if a dip ip 255 0 IP_PROTO_UDP ?s" "in_mem a"
      "pb_payload a = pb_payload q - 8" "pb_next a = pb_next q" "tot_len a = tot_len q + 8"
      "pb_bytes a = udp_header port rport (word_of_nat (tot_len q + 8)) 0 @ pb_bytes q"
    using udp_sendto_if_eq[OF q(1) _ c(2,3), of ip rport] c n(2) by auto
  have "20 \<le> pb_payload a" "\<not> ip_addr_isany dip" "tot_len a + 20 \<le> unat (mtu (the_netif ?s))"
    using a(3,5) q(2,5) len n(3,4) c(7) by (simp_all add: unicast_def)
  then obtain b where b: "ip_output_if a dip ip 255 0 IP_PROTO_UDP ?s = etharp_output b ip (?s\<lparr>ip_id := ip_id ?s + 1\<rparr>)" "in_mem b"
      "pb_payload b = pb_payload a - 20" "pb_next b = pb_next a"
      "pb_bytes b = ip_header 0 (tot_len a + 20) (ip_id ?s) 0 255 IP_PROTO_UDP 0 dip ip @ pb_bytes a"
    using ip_output_if_eq[OF a(2), where src = dip and st = "?s" and dest = ip and tos = 0 and ttl = 255 and proto = IP_PROTO_UDP] by metis
  let ?u = "?s\<lparr>ip_id := ip_id ?s + 1\<rparr>"
  have "reaches ?u ip mac" using r by simp
  moreover have "14 \<le> pb_payload b" using b(3) a(3) q(2) by simp
  ultimately obtain t where t: "etharp_output b ip ?u = Ok (ERR_OK, t)"
      "sent ((mac @ hwaddr (the_netif ?u) @ bytes16 ETHTYPE_IP @ pb_bytes b) # pb_next b) ?u t"
    using etharp_output_known[OF _ b(2)] by blast
  have frame: "(mac @ hwaddr (the_netif ?u) @ bytes16 ETHTYPE_IP @ pb_bytes b) # pb_next b =
      [udp_frame mac (hwaddr ?n) 0 (ip_id st) 0 255 0 dip ip port rport (word_of_nat (8 + length d)) 0 d]"
    using a(4-6) b(4,5) q(3,4) len c(7,8) by (simp add: udp_frame_def add.commute)
  note u = sent_sel[OF t(2)[unfolded frame]]
  have "udp_send_op u q ?s = Ok (ERR_OK, t)"
    using a(1) b(1) t(1) c(5-7) n(1) by (simp add: udp_send_op_def udp_sendto_def ip_route_def)
  moreover have "arp_wf t" using u(6) n(5) by (simp add: upd_pcb_def arp_wf_def)
  moreover have "arp_map t = arp_map st" using u(7) by (simp add: arp_map_def upd_pcb_def fun_eq_iff)
  moreover have "pcbs t = pcbs ?s" "udp_pcbs t = udp_pcbs st" "the_netif t = ?n" "ip_id t = ip_id st + 1" "linked t = linked st @
      [[udp_frame mac (hwaddr ?n) 0 (ip_id st) 0 255 0 dip ip port rport (word_of_nat (8 + length d)) 0 d]]"
    using u(1-5) by (simp_all add: upd_pcb_def)
  ultimately show ?thesis
    unfolding connect_serving[OF s] using net r s
    by (auto simp: net_up_def reaches_def pcb_serves_def udp_disconnect_op_def upd_pcb_def arp_wf_def arp_map_def fun_eq_iff)
qed

end
