(* ===== verification/Fw_Wire.thy ===== *)
theory Fw_Wire
  imports Fw_Eth Net_Udp
begin

text \<open>
  The firmware on the network stack: the calls that the firmware records in \<open>net_out\<close> are run on the stack of
  \<open>Net_Types\<close>.  The calls of the set up give the stack its address, announce it, and leave the two servers
  listening; the calls of the command server send the answer back to where the datagram came from.
\<close>

section \<open>The interface\<close>

definition NETIF_FLAG_ETHARP :: u8 where "NETIF_FLAG_ETHARP = 0x20"

text \<open>\<open>netif_add\<close>, with what the set up of the port wrote into the structure of the interface.\<close>

definition netif_add_op :: "u8 list \<Rightarrow> u8 list \<Rightarrow> u8 list \<Rightarrow> eth_hw \<Rightarrow> stack \<Rightarrow> stack" where
  "netif_add_op ip m g h st =
     st\<lparr>the_netif := \<lparr>ip_addr = be32 ip, netmask = be32 m, gw = be32 g, hwaddr = if_hwaddr h, nif_flags = if_flags h,
        mtu = if_mtu h\<rparr>\<rparr>"

text \<open>An interface that comes up asks for its own address, so that the others hear of it.\<close>

definition netif_set_up_op :: "stack \<Rightarrow> stack res" where
  "netif_set_up_op st =
     (if netif_is_up (the_netif st) then Ok st
      else
        let st = st\<lparr>the_netif := (the_netif st)\<lparr>nif_flags := nif_flags (the_netif st) OR NETIF_FLAG_UP\<rparr>\<rparr>
        in if nif_flags (the_netif st) AND NETIF_FLAG_ETHARP \<noteq> 0
           then bnd (etharp_request (ip_addr (the_netif st)) st) (\<lambda>(_, st). Ok st)
           else Ok st)"

section \<open>The calls of the firmware\<close>

text \<open>
  A call on the stack: the firmware binds to \<open>IP_ADDR_ANY\<close> and ignores what the calls return.  \<open>q\<close> is the buffer
  of the packet that is handled; the firmware has written its new contents into the first link.  A call with a
  null control block reads through the null pointer.
\<close>

fun stack_do :: "eth_hw \<Rightarrow> pbuf \<Rightarrow> net_act \<Rightarrow> stack \<Rightarrow> stack res" where
  "stack_do h q mem_init st = Ok st"
| "stack_do h q memp_init st = Ok st"
| "stack_do h q (netif_add ip m g) st = Ok (netif_add_op ip m g h st)"
| "stack_do h q netif_set_default st = Ok st"
| "stack_do h q netif_set_up st = netif_set_up_op st"
| "stack_do h q etharp_tmr st = Ok (arp_timer st)"
| "stack_do h q (udp_bind u port) st =
     (case u of None \<Rightarrow> Fault OutOfBounds | Some u \<Rightarrow> Ok (snd (udp_bind_op u 0 port st)))"
| "stack_do h q (udp_recv u f) st = (case u of None \<Rightarrow> Fault OutOfBounds | Some u \<Rightarrow> Ok (udp_recv_op u f st))"
| "stack_do h q (udp_connect u ip port) st =
     (case u of None \<Rightarrow> Fault OutOfBounds | Some u \<Rightarrow> Ok (snd (udp_connect_op u ip port st)))"
| "stack_do h q (udp_send u b bs) st =
     (case u of None \<Rightarrow> Fault OutOfBounds
      | Some u \<Rightarrow> bnd (udp_send_op u (hdr_put 0 (take (pb_len q) bs) q) st) (\<lambda>(_, st). Ok st))"
| "stack_do h q (udp_disconnect u) st = (case u of None \<Rightarrow> Fault OutOfBounds | Some u \<Rightarrow> Ok (udp_disconnect_op u st))"
| "stack_do h q (udp_remove u) st = (case u of None \<Rightarrow> Fault OutOfBounds | Some u \<Rightarrow> Ok (udp_remove_op u st))"
| "stack_do h q (pbuf_free b) st = Ok st"

definition stack_calls :: "eth_hw \<Rightarrow> pbuf \<Rightarrow> net_act list \<Rightarrow> stack \<Rightarrow> stack res" where
  "stack_calls h q = for_each (stack_do h q)"

lemma stack_calls_sim [simp]:
  "stack_calls h q [] st = Ok st" "stack_calls h q (x # xs) st = bnd (stack_do h q x st) (stack_calls h q xs)"
  by (simp_all add: stack_calls_def)

section \<open>What a command sends\<close>


lemma add_net_out [simp]: "net_out (snd (hm_msg_queue_add f p s)) = net_out s"
  by (simp add: hm_msg_queue_add_def msg_get_move_next_write_def msg_fill_def hm_led_act_def GPIO_SetBits_def
      GPIO_ResetBits_def enable_irq_def disable_irq_def Let_def split: option.split)





section \<open>A datagram and its answer on the wire\<close>



section \<open>The stack after the set up\<close>

text \<open>What the set up of the port writes into the interface.\<close>

lemma port_set_up: "if_mtu (low_level_init h) = 1500" "if_flags (low_level_init h) = 0x32"
  by (simp_all add: low_level_init_def ETH_DMATxDescChainInit_def ETH_DMARxDescChainInit_def ETH_DMARxDescReceiveITConfig_def
    ETH_DMATxDescChecksumInsertionConfig_def ETH_Start_def ETH_MACTransmissionCmd_def ETH_FlushTransmitFIFO_def
    ETH_MACReceptionCmd_def ETH_DMATransmissionCmd_def ETH_DMAReceptionCmd_def Let_def upd_rxd_def upd_txd_def
    fold_same[where g = if_mtu] fold_same[where g = if_flags])

text \<open>Two servers are bound one after the other.\<close>

abbreviation waiting_pcb :: "udp_ck \<Rightarrow> u16 \<Rightarrow> udp_pcb" where
  "waiting_pcb f port \<equiv> \<lparr>local_ip = 0, remote_ip = 0, local_port = port, remote_port = 0, pcb_connected = False,
     pcb_ttl = UDP_TTL, pcb_recv = Some f\<rparr>"

lemma bind_two:
  assumes "u \<noteq> v" and "udp_pcbs st = []" and "pa \<noteq> 0" and "pb \<noteq> 0"
  shows "stack_calls h q [udp_bind (Some u) pa, udp_recv (Some u) f, udp_bind (Some v) pb, udp_recv (Some v) g]
      (udp_new_op v (udp_new_op u st)) =
    Ok (st\<lparr>pcbs := (pcbs st)(u := waiting_pcb f pa, v := waiting_pcb g pb), udp_pcbs := [v, u]\<rparr>)"
proof -
  let ?new = "\<lparr>local_ip = 0, remote_ip = 0, local_port = 0, remote_port = 0, pcb_connected = False, pcb_ttl = UDP_TTL, pcb_recv = None\<rparr>"
  have "udp_new_op v (udp_new_op u st) = st\<lparr>pcbs := (pcbs st)(u := ?new, v := ?new)\<rparr>" by (simp add: udp_new_op_def upd_pcb_def)
  moreover have "(pcbs st)(u := ?new, v := ?new, u := waiting_pcb f pa, v := waiting_pcb g pb) =
      (pcbs st)(u := waiting_pcb f pa, v := waiting_pcb g pb)" by (auto simp: fun_eq_iff)
  ultimately show ?thesis using assms by (simp add: udp_bind_op_def udp_recv_op_def upd_pcb_def)
qed

text \<open>The static data of the loaded image.\<close>

definition stack_loaded :: "stack \<Rightarrow> bool" where
  "stack_loaded st \<longleftrightarrow> length (arp_table st) = ARP_TABLE_SIZE \<and> etharp_cached_entry st < ARP_TABLE_SIZE \<and>
     (\<forall>e \<in> set (arp_table st). arp_state e = ETHARP_STATE_EMPTY \<and> arp_q e = [] \<and> length (arp_ethaddr e) = 6) \<and> udp_pcbs st = []"

text \<open>
  C35.  The calls that the set up of \<open>main\<close> records, run on the loaded stack with the two control blocks it was
  given: they do not fault, the interface has the addresses of the board and of its hardware and is up, the board
  has announced its address with one frame if there was memory for it, and the control blocks of the echo server
  and of the command server are the only ones that wait for their ports.
\<close>

theorem boot_configures_stack:
  assumes "loaded s" and "eth_up s" and "eth_mem s"
    and "net_alloc s (net_allocs s) = Some u" and "net_alloc s (net_allocs s + 1) = Some v" and "u \<noteq> v"
    and "stack_loaded st"
  shows "\<exists>t st'. main_init s = Ok t \<and>
    stack_calls (eth t) q (drop (length (net_out s)) (net_out t)) (udp_new_op v (udp_new_op u st)) = Ok st' \<and>
    the_netif st' = \<lparr>ip_addr = be32 (hm_ip_addr t), netmask = 0xFFFFFF00, gw = 0xC0A80101,
      hwaddr = map ((!) (hm_mac_addr t)) [0..<6], nif_flags = 0x33, mtu = 1500\<rparr> \<and>
    linked st' = linked st @ (if mem_ok st (mems st) then [request_of (the_netif st') (be32 (hm_ip_addr t))] else []) \<and>
    arp_wf st' \<and> (unicast (the_netif st') (be32 (hm_ip_addr t)) \<longrightarrow> net_up st' (be32 (hm_ip_addr t))) \<and>
    pcb_serves st' v HM_UDP_PORT CK_command_server \<and> pcb_serves st' u UDP_SERVER_PORT CK_echo_server"
proof -
  obtain t h0 where t: "main_init s = Ok t" "eth_configured h0"
      "eth t = low_level_init (Set_MAC_Address (hm_mac_addr t) (ETH_DMAITConfig 0x00010040 ENABLE h0))"
      "net_out t = net_out s @ boot_calls (hm_ip_addr t) (net_alloc s) (net_allocs s)"
    using boot_run[OF assms(1,2)] assms(3) by (auto simp: ethernetif_init_def)
  have e: "if_hwaddr (eth t) = map ((!) (hm_mac_addr t)) [0..<6]" using boot_rings(5)[OF t(2), of "hm_mac_addr t"] t(3) by simp
  have m: "if_mtu (eth t) = 1500" "if_flags (eth t) = 0x32" unfolding t(3) by (rule port_set_up)+
  let ?n = "\<lparr>ip_addr = be32 (hm_ip_addr t), netmask = 0xFFFFFF00, gw = 0xC0A80101,
      hwaddr = map ((!) (hm_mac_addr t)) [0..<6], nif_flags = 0x33, mtu = 1500\<rparr>"
  let ?s0 = "udp_new_op v (udp_new_op u st)"
  have be: "be32 [255, 255, 255, 0] = 0xFFFFFF00" "be32 [192, 168, 1, 1] = 0xC0A80101" by (simp_all add: be32_def)
  let ?s1 = "?s0\<lparr>the_netif := ?n\<rparr>"
  let ?s2 = "if mem_ok st (mems st) then ?s1\<lparr>mems := mems st + 1, linked := linked st @ [request_of ?n (be32 (hm_ip_addr t))]\<rparr>
      else ?s1\<lparr>mems := mems st + 1\<rparr>"
  have up: "netif_set_up_op (netif_add_op (hm_ip_addr t) [255, 255, 255, 0] [192, 168, 1, 1] (eth t) ?s0) = Ok ?s2"
    using e m by (simp add: netif_set_up_op_def netif_add_op_def be netif_is_up_def NETIF_FLAG_UP_def NETIF_FLAG_ETHARP_def
        etharp_request_eq udp_new_op_def upd_pcb_def)
  have calls: "drop (length (net_out s)) (net_out t) = [mem_init, memp_init,
      netif_add (hm_ip_addr t) [255, 255, 255, 0] [192, 168, 1, 1], netif_set_default, netif_set_up,
      udp_bind (Some u) UDP_SERVER_PORT, udp_recv (Some u) CK_echo_server, udp_bind (Some v) HM_UDP_PORT,
      udp_recv (Some v) CK_command_server]"
    using t(4) assms(4,5) by (simp add: boot_calls_def)
  let ?r = "if mem_ok st (mems st) then st\<lparr>the_netif := ?n, mems := mems st + 1,
      linked := linked st @ [request_of ?n (be32 (hm_ip_addr t))]\<rparr> else st\<lparr>the_netif := ?n, mems := mems st + 1\<rparr>"
  let ?s3 = "?r\<lparr>pcbs := (pcbs ?r)(u := waiting_pcb CK_echo_server UDP_SERVER_PORT, v := waiting_pcb CK_command_server HM_UDP_PORT),
      udp_pcbs := [v, u]\<rparr>"
  have "?s2 = udp_new_op v (udp_new_op u ?r)" by (simp add: udp_new_op_def upd_pcb_def)
  moreover have "udp_pcbs ?r = []" using assms(7) by (simp add: stack_loaded_def)
  ultimately have "stack_calls (eth t) q [udp_bind (Some u) UDP_SERVER_PORT, udp_recv (Some u) CK_echo_server,
      udp_bind (Some v) HM_UDP_PORT, udp_recv (Some v) CK_command_server] ?s2 = Ok ?s3"
    using bind_two[OF assms(6), of ?r UDP_SERVER_PORT HM_UDP_PORT] by (simp only: UDP_SERVER_PORT_def HM_UDP_PORT_def) simp
  then have "stack_calls (eth t) q (drop (length (net_out s)) (net_out t)) ?s0 = Ok ?s3"
    unfolding calls stack_calls_sim(2) stack_do.simps(1-5) bnd_Ok up .
  moreover have "arp_wf ?s3"
    using assms(7) by (auto simp: arp_wf_def stack_loaded_def entry_wf_def active_def single_def udp_new_op_def upd_pcb_def)
  moreover have "netif_is_up ?n" by (simp add: netif_is_up_def NETIF_FLAG_UP_def)
  ultimately show ?thesis
    using t(1) assms(6) by (intro exI[of _ t] exI[of _ ?s3]) (simp add: net_up_def pcb_serves_def udp_new_op_def upd_pcb_def
        UDP_SERVER_PORT_def HM_UDP_PORT_def)
qed

section \<open>Witnesses\<close>





definition version_pbuf :: pbuf where
  "version_pbuf = wire_pbuf (udp_frame (hwaddr bench_netif) pc_mac 0 1 0 64 0 pc_ip 0xC0A8012C 4000 HM_UDP_PORT 38 0 (frame_of hmGetVersion 2))"


lemma boot_configures_stack_witness:
  "\<exists>t st. main_init fw_power_up = Ok t \<and>
    stack_calls (eth t) version_pbuf (net_out t) (udp_new_op 1 (udp_new_op 0 (net_bench (\<lambda>_. True)))) = Ok st \<and>
    length (linked st) = 1 \<and> pcb_serves st 1 HM_UDP_PORT CK_command_server"
proof -
  have a: "net_alloc fw_power_up (net_allocs fw_power_up) = Some 0" "net_alloc fw_power_up (net_allocs fw_power_up + 1) = Some 1"
    by (simp_all add: fw_power_up_def uart_st.defs fw_st.defs uart_on_def cmd_on_def cmd_st.defs motor_st.defs motor_power_up_def
      timer_st.defs timer_power_up_def addr_power_up_def addr_st.defs msg_power_up_def msg_st.defs hw_st.defs hw_reset_def)
  have "stack_loaded (net_bench (\<lambda>_. True))"
    by (simp add: stack_loaded_def net_bench_def ARP_TABLE_SIZE_def no_entry_def)
  from boot_configures_stack[OF fw_power_up_ok fw_power_up_sel(5) a _ this, of version_pbuf]
  show ?thesis by (auto simp: fw_power_up_sel(12))
qed

end
