(* ===== verification/Spec2Isabelle.thy ===== *)
theory Spec2Isabelle
  imports Prelude Hw_Regs Hw_Gpio Hw_Exti Hw_Dma_Tim Board_Led Msg_Queue Msg_Irq Board_Io Sw_Timer
    Soft_Double Motor_Math Motor_Defs Motor_Ramp Motor_Hw Motor_Ctl Motor_Play Motor_Moves
    Motor_Stops Motor_Limits Motor_Init Motor_Board Board_Temp Cmd_State Cmd_Exec Cmd_Pool Cmd_Net Cmd_Uart
    Eth_Driver Eth_Port Eth_Setup Eth_Ring Eth_Send Fw_Net Firmware Fw_Safety Fw_Boot Fw_Reboot Fw_Eth
    Net_Types Net_Arp Net_Arp_Find Net_Arp_Table Net_Arp_Cache Net_Ip Net_Safe Net_Udp Fw_Wire
begin

text \<open>
  A model of the firmware of a four axis stepper motor control board, an STM32F107 without an operating
  system, and the proofs of what it does.

  \<^bold>\<open>The program.\<close>  A host sends requests of 30 bytes in UDP datagrams.  The receive interrupt hands a
  datagram to the command server, which copies it into a slot, executes the command at once and answers
  in the same packet.  A move is played by hardware: a DMA channel sends one of two blocks of step delays
  to the timer of the axis, and at the half and at the end of a block an interrupt refills the other
  one, with the ramp computed in integers.  Three switches per axis stop it, by an interrupt of their
  line and by a periodic check.  Ten software timers count down in the tick interrupt; what must not run
  in an interrupt is put into a ring of messages that the main loop empties.

  \<^bold>\<open>State.\<close>  One record grows along the layers: \<open>hw_st\<close> (the registers), \<open>msg_st\<close> (the ring),
  \<open>addr_st\<close> (the network address), \<open>timer_st\<close>, \<open>motor_st\<close> (the table of axes), \<open>cmd_st\<close> (the command server),
  \<open>uart_st\<close> (the serial interface), \<open>fw_st\<close> (the rest of the board, with the Ethernet peripheral as a record
  \<open>eth_hw\<close> of its own).  An operation is a function on the
  extensible record of its layer, so it applies to every later state.  Faults are values: a division by
  zero, an access outside an array, a conversion out of range, a loop that does not end and the reset of
  the core are the constructors of \<open>cfault\<close>, and \<open>bnd\<close> stops at the first.  Integers keep their width.  The
  environment is in fields too: \<open>pin_level\<close> gives the level of a port at the n-th read of an input,
  \<open>input_reads\<close> counts the reads, and \<open>net_out\<close> records the calls of the network stack in order.

  \<^bold>\<open>The drivers of the peripherals\<close> (\<^verbatim>\<open>STM32F10x_StdPeriph_Driver\<close>, what the firmware calls):
  \<open>Hw_Regs\<close> registers, clocks and the interrupt mask; \<open>Hw_Gpio\<close> pins, whose locale \<open>out_port\<close> states that
  the output bits are independent cells; \<open>Hw_Exti\<close> interrupt lines; \<open>Hw_Dma_Tim\<close> channels and timers.

  \<^bold>\<open>The board\<close> (\<^verbatim>\<open>User/Main/hmlib\<close>): \<open>Board_Led\<close> (\<^verbatim>\<open>hm_led.c\<close>); \<open>Board_Io\<close> (\<^verbatim>\<open>hm_gpio.c\<close>,
  \<^verbatim>\<open>hm_address.c\<close>); \<open>Board_Temp\<close> (\<^verbatim>\<open>hm_temperature.c\<close>, on a trace of bus actions); \<open>Msg_Queue\<close>
  (\<^verbatim>\<open>hm_msg_queue.c\<close>), with the locale \<open>bounded_fifo\<close> and the refinement of the ring to a bounded queue;
  \<open>Msg_Irq\<close>, additions that interrupt each other, as trees: what they keep, and the gap in front of the mask
  where the ring overruns; \<open>Sw_Timer\<close> (\<^verbatim>\<open>hm_timer.c\<close>), where \<open>hm_delay\<close> reads a counter
  that an environment moves, with as many turns as fuel.

  \<^bold>\<open>The motors\<close> (\<^verbatim>\<open>hm_step_motor.c\<close>, its headers and \<^verbatim>\<open>hm_step_motor_limit_operation.c\<close>):
  \<^item> \<open>Soft_Double\<close> and \<open>Motor_Math\<close>: the first delay of a ramp, in binary64 as the library of the compiler
    computes it, and the integer square root.
  \<^item> \<open>Motor_Defs\<close> the data of an axis; \<open>Motor_Ramp\<close> the generator \<open>hm_dma_update\<close>: how many steps a block gets,
    that the generator never divides by zero in a move, what ends it, that a run speeds up and stays
    below its top speed.
  \<^item> \<open>Motor_Hw\<close> the pins of the axes; \<open>Motor_Ctl\<close> the operations; \<open>Motor_Init\<close> the set up.
  \<^item> \<open>Motor_Play\<close>, \<open>Motor_Moves\<close>, \<open>Motor_Stops\<close>: the channel as an environment that reads the block its
    address register points at; a move sends exactly the planned delays and stops by itself, a run goes
    on for ever, the two stops, and what is wrong with them.
  \<^item> \<open>Motor_Limits\<close> the switches: which line serves which switch, what the interrupt and the check stop.
  \<^item> \<open>Motor_Board\<close> the invariant of the table of the axes, which no operation breaks.

  \<^bold>\<open>The commands\<close>: \<open>Cmd_State\<close> (frames as bytes and their inverse), \<open>Cmd_Exec\<close> (\<^verbatim>\<open>hm_cmd_execute.c\<close>, one definition per
  command), \<open>Cmd_Net\<close> (\<^verbatim>\<open>hm_cmd_inter_netwk.c\<close>), \<open>Cmd_Uart\<close> (\<^verbatim>\<open>hm_cmd_inter_uart.c\<close>, \<^verbatim>\<open>hm_uart.c\<close>, which this
  build leaves out).  \<open>Cmd_Pool\<close> has the interfaces: \<open>slot_pool\<close>, a table searched for an idle slot, with the
  count of the free ones, interpreted on both command interfaces; \<open>axis_frame\<close>, \<open>drv_frame\<close> and \<open>cmd_frame\<close>, the
  parts of the state that no motor operation and no command changes.  The serial receiver refines a small
  machine on the stream of bytes.

  \<^bold>\<open>The Ethernet\<close>:
  \<^item> \<open>Eth_Driver\<close> (\<^verbatim>\<open>stm32_eth.c\<close>, what is called of it) and \<open>Eth_Port\<close> (\<^verbatim>\<open>ethernetif.c\<close>) have the code: the
    registers, the transceiver behind them, the chains of descriptors, the copies between buffers and packets.
  \<^item> \<open>Eth_Setup\<close>: how \<open>ETH_Init\<close> ends, for any answers of the transceiver, and the configuration of the board.
  \<^item> \<open>Eth_Ring\<close> has the hardware as an environment, which stores a received frame into the descriptors it
    owns.  The reception ring is a second interpretation of \<open>bounded_fifo\<close>, with four frames at most; a frame
    with an error or over two buffers leaves a descriptor that is never given back.
  \<^item> \<open>Eth_Send\<close>: the transmission ring keeps the order of the packets while it has room, and overwrites a
    frame when it has none.

  \<^bold>\<open>The firmware\<close>: \<open>Fw_Net\<close> (\<^verbatim>\<open>stm32f107.c\<close>, \<^verbatim>\<open>netconf.c\<close>, \<^verbatim>\<open>server.c\<close>, \<^verbatim>\<open>hm_iwdg.c\<close>), \<open>Firmware\<close>
  (\<^verbatim>\<open>main.c\<close>: the set up, the callbacks by name, and the events that drive the program), \<open>Fw_Safety\<close> (the
  invariant of the running firmware, and that the check of the switches comes within 102 ticks),
  \<open>Fw_Boot\<close> (the set up ends in a state with that invariant), \<open>Fw_Reboot\<close> (the command for a new program goes
  through the server, the ring and the main loop to the reset of the core), \<open>Fw_Eth\<close> (the peripheral after the
  set up, and the receive interrupt of \<^verbatim>\<open>stm32f10x_it.c\<close>, which is a run of the events: so what holds in every
  reachable state holds with it too).

  \<^bold>\<open>The network stack\<close> (\<^verbatim>\<open>lwip-1.3.1\<close>, as far as a datagram goes through it): the firmware records
  the calls it makes, and takes the callback for a packet as a parameter; these theories run the calls.
  \<^item> \<open>Net_Types\<close> has the record \<open>stack\<close> (the interface, the table of addresses, the control blocks, the packets
    put on the link), and packet buffers with their memory (\<^verbatim>\<open>pbuf.c\<close>): a structure that reaches over the end
    of a buffer is a fault.  Whether memory can be had is a function of the number of the request.
  \<^item> \<open>Net_Arp\<close> is \<^verbatim>\<open>etharp.c\<close>, \<open>Net_Ip\<close> the checksum, \<^verbatim>\<open>ip.c\<close>, \<^verbatim>\<open>icmp.c\<close>, \<^verbatim>\<open>udp.c\<close> and the dispatch of frames, in the
    configuration of \<^verbatim>\<open>lwipopts.h\<close>.
  \<^item> \<open>Net_Arp_Find\<close> and \<open>Net_Arp_Table\<close>: what a search of the table gives, and what each operation does to the map
    from addresses to stations; \<open>Net_Arp_Cache\<close>: the locale \<open>addr_cache\<close>, a cache of what was heard,
    interpreted on the table, and the packets that wait for an answer.
  \<^item> \<open>Net_Safe\<close>: no frame that announces an IP header of 20 bytes or more makes the stack leave its buffers; one
    that announces 4 bytes does.
  \<^item> \<open>Net_Udp\<close> follows a datagram up to its control block and another down to the wire; \<open>Fw_Wire\<close> puts both around
    the command server, through \<open>axis_frame\<close> of \<open>Cmd_Pool\<close> (no command but the one for the debug output makes
    a call of the stack), and runs the calls of the set up.

  \<^bold>\<open>Loops and fuel.\<close>  Loops over tables are folds, and the loops of \<open>mysqrt\<close> and of \<open>hm_dma_update\<close> are
  functions proved to end: each turn of the latter puts three words into a block of 300.  The loops of the
  source that spin on a condition which nothing in them changes - a delay below 2, a state of the ramp
  that the handler does not expect, the next block not filled, the read index of the ring moved by a
  callback - are the fault \<open>Hang\<close>.  The polls of a register or of the tick counter take as many turns as
  they have fuel, and the theorems say how much is enough: \<open>hm_delay_returns\<close> for a delay of \<open>ms\<close>
  ticks, \<open>boot_ready\<close> for the wait for the clock and for the reset of the peripheral; \<open>hm_delay_stuck\<close> is about
  any fuel.  The polls of the transceiver end by themselves, after \<open>PHY_READ_TO\<close> turns.  The loop of the
  receive interrupt ends when frames stop coming: \<open>irq_serves\<close> counts those that come during its turns.  The
  search for a free port (\<open>udp_free_port\<close>) has more turns than there are ports in its range.

  \<^bold>\<open>Not modelled.\<close>  \<open>SystemInit\<close> and the start up code of the vendor; the priorities of interrupts, so an
  interrupt is one step between others, except for the two cases proved in \<open>Msg_Irq\<close> (additions
  inside additions) and \<open>Motor_Stops\<close> (a pending block interrupt at a stop), so also the ticks that
  come while \<open>main\<close> is still setting up, after \<open>hm_timer_init\<close>; of the network stack TCP and the other protocols
  that this build leaves out, the splitting and joining of fragments, and the memory pools; of the Ethernet driver
  what nothing calls, and the busy waits inside \<open>ETH_Init\<close>; the messages for a developer
  (\<^verbatim>\<open>hm_debug.h\<close>); the configuration of the serial port; \<^verbatim>\<open>hm_cmd.c\<close>, an older copy of
  \<^verbatim>\<open>hm_cmd_inter_uart.c\<close> that nothing calls; the conversion of the temperature, switched off by
  \<open>TMP_ENABLE\<close>; the drivers of peripherals the firmware does not use.
\<close>

end
